(* ===== verification/Prelude.thy ===== *)
theory Prelude
  imports Main "HOL-Library.Char_ord" "HOL-Library.Sublist"
begin

text \<open>
  Shared vocabulary of the development.

  Go's byte slices and strings are sequences of bytes; both are \<open>bytes\<close>, a list of the
  8-bit characters of HOL. A computation that may end in a Go runtime panic (an index out of
  range, an explicit call of panic) has the result type \<open>'a go\<close>, where \<open>None\<close> is the panic.
  The functions of the packages bytes and strings that the code calls are defined here with
  the results Go documents, \<open>-1\<close> for "not found" included.
\<close>

type_synonym bytes = string
type_synonym 'a go = "'a option"

named_theorems go_simps \<open>equations of the modelled library functions\<close>

section \<open>Bytes and integers\<close>

text \<open>A byte as a number, and the byte with a given number (reduced modulo 256 as a
  conversion to byte does).\<close>

abbreviation byte_val :: "char \<Rightarrow> nat" where
  "byte_val c \<equiv> of_char c"

abbreviation mk_byte :: "nat \<Rightarrow> char" where
  "mk_byte n \<equiv> char_of n"

text \<open>Signed 64-bit wrap-around, the value of Go's \<open>int\<close> on the 64-bit targets.\<close>

definition wrap64 :: "int \<Rightarrow> int" where
  "wrap64 x = (x + 2 ^ 63) mod 2 ^ 64 - 2 ^ 63"

definition max_int64 :: int where
  "max_int64 = 2 ^ 63 - 1"

lemma wrap64_id: "- (2 ^ 63) \<le> x \<Longrightarrow> x < 2 ^ 63 \<Longrightarrow> wrap64 x = x"
  by (simp add: wrap64_def)

lemma wrap64_range: "- (2 ^ 63) \<le> wrap64 x \<and> wrap64 x < 2 ^ 63"
proof -
  have "0 \<le> (x + 2 ^ 63) mod 2 ^ 64" and "(x + 2 ^ 63) mod 2 ^ 64 < (2::int) ^ 64"
    by simp_all
  then show ?thesis by (simp add: wrap64_def)
qed

lemma byte_val_lt [simp]: "byte_val c < 256"
  using of_char_mod_256 [of c] by (metis mod_less_divisor zero_less_numeral)

lemma mk_byte_byte_val [simp]: "mk_byte (byte_val c) = c"
  by simp

lemma byte_val_mk_byte: "n < 256 \<Longrightarrow> byte_val (mk_byte n) = n"
  by (simp add: of_char_of)

lemma char_le_byte_val: "(c :: char) \<le> d \<longleftrightarrow> byte_val c \<le> byte_val d"
  by (simp add: less_eq_char_def)

lemma char_less_byte_val: "(c :: char) < d \<longleftrightarrow> byte_val c < byte_val d"
  by (simp add: less_char_def)

lemma char_eq_byte_val: "(c :: char) = d \<longleftrightarrow> byte_val c = byte_val d"
  by simp

section \<open>Slices\<close>

text \<open>The slice expression s[a:b] with indices that are known to be in range.\<close>

definition slice :: "nat \<Rightarrow> nat \<Rightarrow> 'a list \<Rightarrow> 'a list" where
  "slice a b s = take (b - a) (drop a s)"

lemma slice_all [simp]: "slice 0 (length s) s = s"
  by (simp add: slice_def)

lemma slice_zero: "slice 0 b s = take b s"
  by (simp add: slice_def)

lemma length_slice: "length (slice a b s) = min (b - a) (length s - a)"
  by (simp add: slice_def)

lemma slice_take: "b \<le> n \<Longrightarrow> slice a b (take n s) = slice a b s"
  by (simp add: slice_def drop_take min_def)

lemma drop_ConsD: "drop i s = c # r \<Longrightarrow> i < length s \<and> s ! i = c \<and> drop (Suc i) s = r"
  by (metis drop_Suc drop_eq_Nil list.distinct(1) list.sel(3) not_le nth_via_drop tl_drop)

lemma slice_step: "a \<le> i \<Longrightarrow> i < length s \<Longrightarrow> slice a (Suc i) s = slice a i s @ [s ! i]"
  by (simp add: slice_def Suc_diff_le take_Suc_conv_app_nth)

lemma slice_drop: "a \<le> i \<Longrightarrow> slice a i s @ drop i s = drop a s"
  by (simp add: slice_def) (metis add_diff_inverse_nat append_take_drop_id drop_drop not_le add.commute)

section \<open>Searching, as in the packages bytes and strings\<close>

definition IndexByte :: "bytes \<Rightarrow> char \<Rightarrow> int" where
  "IndexByte s c =
     (let n = length (takeWhile (\<lambda>x. x \<noteq> c) s) in if n < length s then int n else - 1)"

definition LastIndexByte :: "bytes \<Rightarrow> char \<Rightarrow> int" where
  "LastIndexByte s c =
     (let n = length (takeWhile (\<lambda>x. x \<noteq> c) (rev s))
      in if n < length s then int (length s - 1 - n) else - 1)"

fun Index :: "bytes \<Rightarrow> bytes \<Rightarrow> int" where
  "Index [] sub = (if sub = [] then 0 else - 1)"
| "Index (c # s) sub =
     (if prefix sub (c # s) then 0
      else let r = Index s sub in if r < 0 then - 1 else r + 1)"

fun LastIndex :: "bytes \<Rightarrow> bytes \<Rightarrow> int" where
  "LastIndex [] sub = (if sub = [] then 0 else - 1)"
| "LastIndex (c # s) sub =
     (let r = LastIndex s sub
      in if r \<ge> 0 then r + 1 else if prefix sub (c # s) then 0 else - 1)"

definition Contains :: "bytes \<Rightarrow> bytes \<Rightarrow> bool" where
  "Contains s sub \<longleftrightarrow> Index s sub \<ge> 0"

definition HasPrefix :: "bytes \<Rightarrow> bytes \<Rightarrow> bool" where
  "HasPrefix s p \<longleftrightarrow> take (length p) s = p"

definition HasSuffix :: "bytes \<Rightarrow> bytes \<Rightarrow> bool" where
  "HasSuffix s p \<longleftrightarrow> length p \<le> length s \<and> drop (length s - length p) s = p"

text \<open>strings.Split with a separator of one byte.\<close>

fun Split :: "bytes \<Rightarrow> char \<Rightarrow> bytes list" where
  "Split [] sep = [[]]"
| "Split (c # s) sep =
     (if c = sep then [] # Split s sep
      else case Split s sep of [] \<Rightarrow> [[c]] | w # ws \<Rightarrow> (c # w) # ws)"

text \<open>strings.Count with a substring of one byte.\<close>

definition CountByte :: "bytes \<Rightarrow> char \<Rightarrow> nat" where
  "CountByte s c = length (filter (\<lambda>x. x = c) s)"

lemma IndexByte_none: "c \<notin> set s \<Longrightarrow> IndexByte s c = - 1"
proof -
  assume "c \<notin> set s"
  then have "takeWhile (\<lambda>x. x \<noteq> c) s = s" by (metis (mono_tags) takeWhile_eq_all_conv)
  then show ?thesis by (simp only: IndexByte_def Let_def) simp
qed

lemma IndexByte_ge: "- 1 \<le> IndexByte s c"
  by (simp add: IndexByte_def Let_def)

lemma takeWhile_neq_append: "c \<notin> set xs \<Longrightarrow> takeWhile (\<lambda>x. x \<noteq> c) (xs @ c # ys) = xs"
  by (induction xs) auto

lemma IndexByte_append: "c \<notin> set xs \<Longrightarrow> IndexByte (xs @ c # ys) c = int (length xs)"
  by (simp add: IndexByte_def takeWhile_neq_append)

lemma IndexByte_negative: "IndexByte s c < 0 \<longleftrightarrow> c \<notin> set s"
proof
  assume "IndexByte s c < 0"
  then have "length (takeWhile (\<lambda>x. x \<noteq> c) s) = length s"
    using length_takeWhile_le [of "\<lambda>x. x \<noteq> c" s]
    by (auto simp: IndexByte_def Let_def split: if_splits)
  then have "takeWhile (\<lambda>x. x \<noteq> c) s = s"
    by (metis append_eq_append_conv append_Nil2 takeWhile_dropWhile_id)
  then show "c \<notin> set s" by (metis (mono_tags, lifting) set_takeWhileD)
qed (simp add: IndexByte_none)

text \<open>Where a byte occurs, the string splits at its first occurrence.\<close>

lemma IndexByte_split:
  assumes "c \<in> set s"
  obtains xs ys where "s = xs @ c # ys" and "c \<notin> set xs" and "IndexByte s c = int (length xs)"
  using assms IndexByte_append by (metis split_list_first)

lemma Index_negative: "Index s sub < 0 \<Longrightarrow> \<not> sublist sub s"
proof (induction s)
  case Nil
  then show ?case by (simp split: if_splits)
next
  case (Cons c s)
  then show ?case by (auto simp: Let_def sublist_Cons_right split: if_splits)
qed

lemma Index_ge: "- 1 \<le> Index s sub"
  by (induction s) (auto simp: Let_def)

lemma Index_nonneg:
  "0 \<le> Index s sub \<Longrightarrow>
     nat (Index s sub) + length sub \<le> length s \<and>
     take (length sub) (drop (nat (Index s sub)) s) = sub"
proof (induction s)
  case Nil
  then show ?case by (simp split: if_splits)
next
  case (Cons c s)
  show ?case
  proof (cases "prefix sub (c # s)")
    case True
    then show ?thesis by (auto simp: prefix_def dest: arg_cong [of _ _ length])
  next
    case False
    with Cons.prems have "0 \<le> Index s sub" by (auto simp: Let_def split: if_splits)
    with Cons.IH False show ?thesis by (simp add: nat_add_distrib)
  qed
qed

lemma Index_nonneg_iff: "0 \<le> Index s sub \<longleftrightarrow> sublist sub s"
proof
  assume "0 \<le> Index s sub"
  from Index_nonneg [OF this] show "sublist sub s"
    by (metis append_take_drop_id sublist_def)
next
  assume "sublist sub s"
  then show "0 \<le> Index s sub" using Index_negative by (metis not_le)
qed

lemma Contains_iff: "Contains s sub \<longleftrightarrow> sublist sub s"
  by (simp add: Contains_def Index_nonneg_iff)

lemma HasPrefix_iff: "HasPrefix s p \<longleftrightarrow> prefix p s"
  by (metis HasPrefix_def append_eq_conv_conj append_take_drop_id prefix_def)

lemma Split_nonempty [simp]: "Split s sep \<noteq> []"
  by (induction s) (auto split: list.splits)

lemma Split_no_sep: "w \<in> set (Split s sep) \<Longrightarrow> sep \<notin> set w"
proof (induction s arbitrary: w)
  case Nil
  then show ?case by simp
next
  case (Cons c s)
  then show ?case
    by (cases "Split s sep") (auto split: if_splits)
qed

section \<open>Case analysis on the bytes of a literal\<close>

text \<open>Numbers of the bytes the parsers compare with, for proofs that go through
  \<open>byte_val\<close>.\<close>

lemma byte_val_literals [go_simps]:
  "byte_val CHR ''0'' = 48" "byte_val CHR ''9'' = 57" "byte_val CHR ''A'' = 65"
  "byte_val CHR ''F'' = 70" "byte_val CHR ''Z'' = 90" "byte_val CHR ''a'' = 97"
  "byte_val CHR ''f'' = 102" "byte_val CHR ''z'' = 122" "byte_val CHR '' '' = 32"
  by simp_all

lemmas byte_order = char_le_byte_val char_less_byte_val

end
