(* ===== verification/Dict.thy ===== *)
theory Dict
  imports Main
begin

text \<open>
  The contract several components of the program offer: a dictionary whose lookup after an
  update or a deletion is that of a finite map. Query arguments, session values and the session
  store implement it; what follows from the contract alone is proved once here.
\<close>

datatype ('k, 'v) dict_op = Put 'k 'v | Del 'k

fun spec_step :: "('k, 'v) dict_op \<Rightarrow> ('k \<Rightarrow> 'v option) \<Rightarrow> ('k \<Rightarrow> 'v option)" where
  "spec_step (Put k v) m = m(k \<mapsto> v)"
| "spec_step (Del k) m = m(k := None)"

fun impl_step :: "('m \<Rightarrow> 'k \<Rightarrow> 'v \<Rightarrow> 'm) \<Rightarrow> ('m \<Rightarrow> 'k \<Rightarrow> 'm) \<Rightarrow> ('k, 'v) dict_op \<Rightarrow> 'm \<Rightarrow> 'm" where
  "impl_step put del (Put k v) m = put m k v"
| "impl_step put del (Del k) m = del m k"

definition spec_run :: "('k, 'v) dict_op list \<Rightarrow> ('k \<Rightarrow> 'v option) \<Rightarrow> ('k \<Rightarrow> 'v option)" where
  "spec_run ops m = fold spec_step ops m"

definition impl_run ::
    "('m \<Rightarrow> 'k \<Rightarrow> 'v \<Rightarrow> 'm) \<Rightarrow> ('m \<Rightarrow> 'k \<Rightarrow> 'm) \<Rightarrow> ('k, 'v) dict_op list \<Rightarrow> 'm \<Rightarrow> 'm" where
  "impl_run put del ops m = fold (impl_step put del) ops m"

locale dict =
  fixes get :: "'m \<Rightarrow> 'k \<Rightarrow> 'v option"
    and put :: "'m \<Rightarrow> 'k \<Rightarrow> 'v \<Rightarrow> 'm"
    and del :: "'m \<Rightarrow> 'k \<Rightarrow> 'm"
    and ok :: "'m \<Rightarrow> bool"
  assumes get_put: "ok m \<Longrightarrow> get (put m k v) = (get m)(k \<mapsto> v)"
    and get_del: "ok m \<Longrightarrow> get (del m k) = (get m)(k := None)"
    and ok_put: "ok m \<Longrightarrow> ok (put m k v)"
    and ok_del: "ok m \<Longrightarrow> ok (del m k)"
begin

lemma ok_step: "ok m \<Longrightarrow> ok (impl_step put del x m)"
  by (cases x) (auto simp: ok_put ok_del)

lemma get_step: "ok m \<Longrightarrow> get (impl_step put del x m) = spec_step x (get m)"
  by (cases x) (auto simp: get_put get_del)

lemma run_refines:
  "ok m \<Longrightarrow> ok (impl_run put del ops m) \<and> get (impl_run put del ops m) = spec_run ops (get m)"
  by (induction ops arbitrary: m) (auto simp: impl_run_def spec_run_def ok_step get_step)

lemma put_put: "ok m \<Longrightarrow> get (put (put m k v) k w) = get (put m k w)"
  by (simp add: get_put ok_put)

lemma put_del: "ok m \<Longrightarrow> get (del (put m k v) k) = get (del m k)"
  by (simp add: get_put get_del ok_put)

lemma put_commute: "ok m \<Longrightarrow> k \<noteq> k' \<Longrightarrow> get (put (put m k v) k' w) = get (put (put m k' w) k v)"
  by (simp add: get_put ok_put fun_upd_twist)

end

end
