(* ===== verification/Bytesconv.thy ===== *)
theory Bytesconv
  imports Prelude
begin

unbundle bit_operations_syntax

text \<open>
  The byte conversions of fasthttp (src/fasthttp/bytesconv.go) and the lookup tables they use,
  given by the generator src/fasthttp/bytesconv_table_gen.go: HTML escaping, decimal and
  hexadecimal integers, IPv4 addresses, percent-encoding of arguments and paths.
  Integers are Go's 64-bit \<open>int\<close>: \<open>int\<close> with the wrap-around of \<open>wrap64\<close> where the
  code can overflow.
\<close>

section \<open>Tables\<close>

definition hex2intTable :: "char \<Rightarrow> nat" where
  "hex2intTable c =
     (if c \<ge> CHR ''0'' \<and> c \<le> CHR ''9'' then byte_val c - 48
      else if c \<ge> CHR ''a'' \<and> c \<le> CHR ''f'' then byte_val c - 97 + 10
      else if c \<ge> CHR ''A'' \<and> c \<le> CHR ''F'' then byte_val c - 65 + 10
      else 16)"

definition toLowerTable :: "char \<Rightarrow> char" where
  "toLowerTable c =
     (if c \<ge> CHR ''A'' \<and> c \<le> CHR ''Z'' then mk_byte (byte_val c + 32) else c)"

definition toUpperTable :: "char \<Rightarrow> char" where
  "toUpperTable c =
     (if c \<ge> CHR ''a'' \<and> c \<le> CHR ''z'' then mk_byte (byte_val c - 32) else c)"

definition is_alnum :: "char \<Rightarrow> bool" where
  "is_alnum c \<longleftrightarrow>
     c \<ge> CHR ''a'' \<and> c \<le> CHR ''z'' \<or> c \<ge> CHR ''A'' \<and> c \<le> CHR ''Z'' \<or>
     c \<ge> CHR ''0'' \<and> c \<le> CHR ''9''"

definition quotedArgShouldEscape :: "char \<Rightarrow> bool" where
  "quotedArgShouldEscape c \<longleftrightarrow> \<not> (is_alnum c \<or> c \<in> set ''-_.~'')"

definition quotedPathShouldEscape :: "char \<Rightarrow> bool" where
  "quotedPathShouldEscape c \<longleftrightarrow> quotedArgShouldEscape c \<and> c \<notin> set ''$&+,/:;=@''"

definition tcharTable :: "char \<Rightarrow> bool" where
  "tcharTable c \<longleftrightarrow> is_alnum c \<or> c \<in> set (CHR 39 # ''!#$%&*+-.^_`|~'')"

definition upperhex :: bytes where
  "upperhex = ''0123456789ABCDEF''"

definition lowerhex :: bytes where
  "lowerhex = ''0123456789abcdef''"

section \<open>HTML escaping\<close>

definition html_sub :: "char \<Rightarrow> bytes" where
  "html_sub c =
     (if c = CHR ''&'' then ''&amp;''
      else if c = CHR ''<'' then ''&lt;''
      else if c = CHR ''>'' then ''&gt;''
      else if c = CHR 34 then ''&#34;''
      else if c = CHR 39 then ''&#39;''
      else [])"

text \<open>The loop of AppendHTMLEscape: \<open>pend\<close> is the run \<open>s[prev:i]\<close> not yet copied.\<close>

fun html_escape_loop :: "bytes \<Rightarrow> bytes \<Rightarrow> bytes \<Rightarrow> bytes" where
  "html_escape_loop dst pend [] = dst @ pend"
| "html_escape_loop dst pend (c # s) =
     (let sub = html_sub c
      in if length sub > 0 then html_escape_loop (dst @ pend @ sub) [] s
         else html_escape_loop dst (pend @ [c]) s)"

definition AppendHTMLEscape :: "bytes \<Rightarrow> bytes \<Rightarrow> bytes" where
  "AppendHTMLEscape dst s = html_escape_loop dst [] s"

definition AppendHTMLEscapeBytes :: "bytes \<Rightarrow> bytes \<Rightarrow> bytes" where
  "AppendHTMLEscapeBytes dst s = AppendHTMLEscape dst s"

section \<open>Decimal integers\<close>

text \<open>The digits are written into a buffer of 20 bytes from its end; \<open>acc\<close> is the filled
  part \<open>buf[i:]\<close>.\<close>

fun append_uint_loop :: "nat \<Rightarrow> bytes \<Rightarrow> bytes" where
  "append_uint_loop n acc =
     (if n \<ge> 10 then append_uint_loop (n div 10) (mk_byte (48 + (n - n div 10 * 10)) # acc)
      else mk_byte (48 + n) # acc)"

declare append_uint_loop.simps [simp del]

definition AppendUint :: "bytes \<Rightarrow> int \<Rightarrow> bytes go" where
  "AppendUint dst n =
     (if n < 0 then None
      else let ds = append_uint_loop (nat n) []
           in if length ds \<le> 20 then Some (dst @ ds) else None)"

datatype int_error = errEmptyInt | errUnexpectedFirstChar | errUnexpectedTrailingChar | errTooLongInt

fun parse_uint_loop :: "bytes \<Rightarrow> nat \<Rightarrow> int \<Rightarrow> int \<times> nat \<times> int_error option" where
  "parse_uint_loop [] i v = (v, i, None)"
| "parse_uint_loop (c # b) i v =
     (let k = (byte_val c + 208) mod 256
      in if k > 9 then
           (if i = 0 then (- 1, i, Some errUnexpectedFirstChar) else (v, i, None))
         else
           let vNew = wrap64 (10 * v + int k)
           in if vNew < v then (- 1, i, Some errTooLongInt)
              else parse_uint_loop b (Suc i) vNew)"

definition parseUintBuf :: "bytes \<Rightarrow> int \<times> nat \<times> int_error option" where
  "parseUintBuf b = (if length b = 0 then (- 1, 0, Some errEmptyInt) else parse_uint_loop b 0 0)"

definition ParseUint :: "bytes \<Rightarrow> int \<times> int_error option" where
  "ParseUint buf =
     (let (v, n, err) = parseUintBuf buf
      in if n \<noteq> length buf then (- 1, Some errUnexpectedTrailingChar) else (v, err))"

section \<open>IPv4 addresses\<close>

text \<open>net.IP.To4: a 4-byte address is itself, a 16-byte one with the v4-in-v6 prefix gives its
  last four bytes, anything else nil.\<close>

definition To4 :: "nat list \<Rightarrow> nat list option" where
  "To4 ip =
     (if length ip = 4 then Some ip
      else if length ip = 16 \<and> take 10 ip = replicate 10 0 \<and> ip ! 10 = 255 \<and> ip ! 11 = 255
      then Some (drop 12 ip)
      else None)"

fun append_ip_parts :: "bytes \<Rightarrow> nat list \<Rightarrow> bytes go" where
  "append_ip_parts dst [] = Some dst"
| "append_ip_parts dst (p # ps) =
     Option.bind (AppendUint (dst @ ''.'') (int p)) (\<lambda>d. append_ip_parts d ps)"

definition AppendIPv4 :: "bytes \<Rightarrow> nat list \<Rightarrow> bytes go" where
  "AppendIPv4 dst ip =
     (case To4 ip of
        None \<Rightarrow> Some (dst @ ''non-v4 ip passed to AppendIPv4'')
      | Some ip4 \<Rightarrow>
          Option.bind (AppendUint dst (int (ip4 ! 0))) (\<lambda>d. append_ip_parts d (drop 1 ip4)))"

datatype ip_error = errEmptyIPStr | errNoDot | errIPPart int_error | errIPPartTooBig int

text \<open>The rounds that each need a dot, then the last part; \<open>n\<close> rounds are left and
  \<open>dst[3 - n]\<close> is written next.\<close>

fun parse_ip_loop :: "nat \<Rightarrow> nat list \<Rightarrow> bytes \<Rightarrow> nat list \<times> ip_error option" where
  "parse_ip_loop 0 dst b =
     (let (v, err) = ParseUint b
      in case err of
           Some e \<Rightarrow> (dst, Some (errIPPart e))
         | None \<Rightarrow> if v > 255 then (dst, Some (errIPPartTooBig v)) else (dst[3 := nat v], None))"
| "parse_ip_loop (Suc n) dst b =
     (let i = IndexByte b CHR ''.''
      in if i < 0 then (dst, Some errNoDot)
         else let (v, err) = ParseUint (take (nat i) b)
              in case err of
                   Some e \<Rightarrow> (dst, Some (errIPPart e))
                 | None \<Rightarrow>
                     if v > 255 then (dst, Some (errIPPartTooBig v))
                     else parse_ip_loop n (dst[2 - n := nat v]) (drop (nat i + 1) b))"

definition IPv4zero :: "nat list" where
  "IPv4zero = replicate 10 0 @ [255, 255, 0, 0, 0, 0]"

text \<open>copy(dst, src) of two slices.\<close>

definition copy_into :: "'a list \<Rightarrow> 'a list \<Rightarrow> 'a list" where
  "copy_into dst src = take (length dst) src @ drop (length src) dst"

definition ParseIPv4 :: "nat list \<Rightarrow> bytes \<Rightarrow> (nat list \<times> ip_error option) go" where
  "ParseIPv4 dst ipStr =
     (if length ipStr = 0 then Some (dst, Some errEmptyIPStr)
      else let dst1 = (if length dst < 4 then replicate 4 0 else dst)
           in case To4 (copy_into dst1 IPv4zero) of
                None \<Rightarrow> None
              | Some d \<Rightarrow> Some (parse_ip_loop 3 d ipStr))"

section \<open>Hexadecimal integers\<close>

definition maxHexIntChars :: nat where
  "maxHexIntChars = 15"

datatype hex_error = errEOF | errEmptyHexNum | errTooLargeHexNum

text \<open>The reader is the list of the bytes left; reading at its end is io.EOF. A byte that is
  not a hex digit is put back.\<close>

fun read_hex_loop :: "bytes \<Rightarrow> nat \<Rightarrow> int \<Rightarrow> (int \<times> hex_error option) \<times> bytes" where
  "read_hex_loop [] i n = (if i > 0 then (n, None) else (- 1, Some errEOF), [])"
| "read_hex_loop (c # r) i n =
     (let k = hex2intTable c
      in if k = 16 then
           (if i = 0 then ((- 1, Some errEmptyHexNum), r) else ((n, None), c # r))
         else if i \<ge> maxHexIntChars then ((- 1, Some errTooLargeHexNum), r)
         else read_hex_loop r (Suc i) (push_bit 4 n OR int k))"

definition readHexInt :: "bytes \<Rightarrow> (int \<times> hex_error option) \<times> bytes" where
  "readHexInt r = read_hex_loop r 0 0"

lemma drop_bit_less [termination_simp]: "0 < drop_bit 4 n \<Longrightarrow> drop_bit 4 n < (n :: nat)"
  by (simp add: drop_bit_eq_div)

fun write_hex_loop :: "nat \<Rightarrow> bytes \<Rightarrow> bytes" where
  "write_hex_loop n acc =
     (let acc' = (lowerhex ! (n AND 15)) # acc; n' = drop_bit 4 n
      in if n' = 0 then acc' else write_hex_loop n' acc')"

declare write_hex_loop.simps [simp del]

text \<open>The buffer has \<open>maxHexIntChars + 1\<close> bytes; running past its front is an index panic.\<close>

definition writeHexInt :: "bytes \<Rightarrow> int \<Rightarrow> bytes go" where
  "writeHexInt w n =
     (if n < 0 then None
      else let ds = write_hex_loop (nat n) []
           in if length ds \<le> maxHexIntChars + 1 then Some (w @ ds) else None)"

section \<open>Lower case and percent-encoding\<close>

definition lowercaseBytes :: "bytes \<Rightarrow> bytes" where
  "lowercaseBytes b = map toLowerTable b"

definition percent_encode :: "char \<Rightarrow> bytes" where
  "percent_encode c = [CHR ''%'', upperhex ! (drop_bit 4 (byte_val c)), upperhex ! (byte_val c AND 15)]"

fun AppendQuotedArg :: "bytes \<Rightarrow> bytes \<Rightarrow> bytes" where
  "AppendQuotedArg dst [] = dst"
| "AppendQuotedArg dst (c # src) =
     (if c = CHR '' '' then AppendQuotedArg (dst @ ''+'') src
      else if quotedArgShouldEscape c then AppendQuotedArg (dst @ percent_encode c) src
      else AppendQuotedArg (dst @ [c]) src)"

fun append_quoted_path_loop :: "bytes \<Rightarrow> bytes \<Rightarrow> bytes" where
  "append_quoted_path_loop dst [] = dst"
| "append_quoted_path_loop dst (c # src) =
     (if quotedPathShouldEscape c then append_quoted_path_loop (dst @ percent_encode c) src
      else append_quoted_path_loop (dst @ [c]) src)"

definition appendQuotedPath :: "bytes \<Rightarrow> bytes \<Rightarrow> bytes" where
  "appendQuotedPath dst src =
     (if length src = 1 \<and> src ! 0 = CHR ''*'' then dst @ ''*''
      else append_quoted_path_loop dst src)"

section \<open>HTML escaping is a homomorphic substitution\<close>

definition html_escape_char :: "char \<Rightarrow> bytes" where
  "html_escape_char c = (if html_sub c = [] then [c] else html_sub c)"

lemma html_escape_loop_eq:
  "html_escape_loop dst pend s = dst @ pend @ concat (map html_escape_char s)"
  by (induction s arbitrary: dst pend) (auto simp: Let_def html_escape_char_def)

lemma AppendHTMLEscape_eq: "AppendHTMLEscape dst s = dst @ concat (map html_escape_char s)"
  by (simp add: AppendHTMLEscape_def html_escape_loop_eq)

lemma html_escape_char_safe: "c' \<in> set (html_escape_char c) \<Longrightarrow> c' \<notin> {CHR ''<'', CHR ''>'', CHR 34, CHR 39}"
  by (auto simp: html_escape_char_def html_sub_def split: if_splits)

section \<open>Decimal round trip\<close>

fun dec_digits :: "nat \<Rightarrow> nat list" where
  "dec_digits n = (if n \<ge> 10 then dec_digits (n div 10) @ [n mod 10] else [n])"

declare dec_digits.simps [simp del]

definition dec_val :: "nat \<Rightarrow> nat list \<Rightarrow> nat" where
  "dec_val v ds = foldl (\<lambda>v d. 10 * v + d) v ds"

definition digit_char :: "nat \<Rightarrow> char" where
  "digit_char d = mk_byte (48 + d)"

lemma dec_val_Nil [simp]: "dec_val v [] = v"
  by (simp add: dec_val_def)

lemma dec_val_Cons [simp]: "dec_val v (d # ds) = dec_val (10 * v + d) ds"
  by (simp add: dec_val_def)

lemma dec_val_snoc: "dec_val v (ds @ [d]) = 10 * dec_val v ds + d"
  by (simp add: dec_val_def)

lemma dec_val_ge: "v \<le> dec_val v ds"
proof (induction ds arbitrary: v)
  case (Cons d ds)
  have "v \<le> 10 * v + d" by simp
  also have "\<dots> \<le> dec_val (10 * v + d) ds" by (rule Cons.IH)
  finally show ?case by simp
qed simp

lemma append_uint_loop_eq: "append_uint_loop n acc = map digit_char (dec_digits n) @ acc"
proof (induction n acc rule: append_uint_loop.induct)
  case (1 n acc)
  have m: "n - n div 10 * 10 = n mod 10" by (simp add: minus_div_mult_eq_mod)
  show ?case
    using 1 by (cases "n \<ge> 10")
      (auto simp: append_uint_loop.simps [of n] dec_digits.simps [of n] digit_char_def m)
qed

lemma dec_digits_small: "d \<in> set (dec_digits n) \<Longrightarrow> d < 10"
proof (induction n rule: dec_digits.induct)
  case (1 n)
  then show ?case by (cases "n \<ge> 10") (auto simp: dec_digits.simps [of n])
qed

lemma dec_digits_nonempty [simp]: "dec_digits n \<noteq> []"
  by (simp add: dec_digits.simps [of n])

lemma dec_val_digits: "dec_val 0 (dec_digits n) = n"
proof (induction n rule: dec_digits.induct)
  case (1 n)
  then show ?case by (cases "n \<ge> 10") (auto simp: dec_digits.simps [of n] dec_val_snoc)
qed

lemma length_dec_digits: "n < 10 ^ Suc k \<Longrightarrow> length (dec_digits n) \<le> Suc k"
proof (induction k arbitrary: n)
  case 0
  then show ?case by (simp add: dec_digits.simps [of n])
next
  case (Suc k)
  then have "n div 10 < 10 ^ Suc k" by (simp add: div_less_iff_less_mult)
  with Suc.IH have "length (dec_digits (n div 10)) \<le> Suc k" by blast
  then show ?case by (subst dec_digits.simps) simp
qed

lemma digit_byte: "d < 10 \<Longrightarrow> (byte_val (digit_char d) + 208) mod 256 = d"
  by (simp add: digit_char_def byte_val_mk_byte)

lemma parse_uint_loop_digits:
  assumes "\<forall>d\<in>set ds. d < 10" and "dec_val v ds < 2 ^ 63"
  shows "parse_uint_loop (map digit_char ds @ rest) i (int v) =
           parse_uint_loop rest (i + length ds) (int (dec_val v ds))"
  using assms
proof (induction ds arbitrary: v i)
  case (Cons d ds)
  have d: "d < 10" using Cons.prems by simp
  have "10 * v + d \<le> dec_val (10 * v + d) ds" by (rule dec_val_ge)
  with Cons.prems have lt: "10 * v + d < 2 ^ 63" by simp
  have w: "wrap64 (10 * int v + int d) = int (10 * v + d)"
    using lt by (subst wrap64_id) auto
  have "parse_uint_loop (map digit_char (d # ds) @ rest) i (int v) =
          parse_uint_loop (map digit_char ds @ rest) (Suc i) (int (10 * v + d))"
    using d by (simp add: digit_byte w Let_def)
  also have "\<dots> = parse_uint_loop rest (Suc i + length ds) (int (dec_val (10 * v + d) ds))"
    using Cons.prems by (intro Cons.IH) auto
  finally show ?case by simp
qed simp

lemma ParseUint_digits:
  assumes "ds \<noteq> []" and "\<forall>d\<in>set ds. d < 10" and "dec_val 0 ds < 2 ^ 63"
  shows "ParseUint (map digit_char ds) = (int (dec_val 0 ds), None)"
proof -
  have "parse_uint_loop (map digit_char ds) 0 0 = (int (dec_val 0 ds), length ds, None)"
    using parse_uint_loop_digits [OF assms(2,3), of "[]" 0] by simp
  then show ?thesis using assms(1) by (simp add: ParseUint_def parseUintBuf_def)
qed

lemma AppendUint_eq:
  assumes "0 \<le> n" and "n < 2 ^ 63"
  shows "AppendUint dst n = Some (dst @ map digit_char (dec_digits (nat n)))"
proof -
  have "nat n < 10 ^ Suc 19" using assms by (simp add: nat_less_iff)
  then have "length (dec_digits (nat n)) \<le> Suc 19" by (rule length_dec_digits)
  then show ?thesis using assms by (simp add: AppendUint_def append_uint_loop_eq Let_def)
qed

lemma ParseUint_dec_digits:
  "n < 2 ^ 63 \<Longrightarrow> ParseUint (map digit_char (dec_digits n)) = (int n, None)"
  using ParseUint_digits [of "dec_digits n"] dec_digits_small by (simp add: dec_val_digits)

section \<open>IPv4 round trip\<close>

definition dec_text :: "nat \<Rightarrow> bytes" where
  "dec_text n = map digit_char (dec_digits n)"

lemma digit_char_neq_dot: "d < 10 \<Longrightarrow> digit_char d \<noteq> CHR ''.''"
  by (simp add: digit_char_def char_eq_byte_val byte_val_mk_byte)

lemma dec_text_no_dot: "CHR ''.'' \<notin> set (dec_text n)"
  by (auto simp: dec_text_def dest!: dec_digits_small digit_char_neq_dot)

lemma AppendUint_nat: "n < 256 \<Longrightarrow> AppendUint dst (int n) = Some (dst @ dec_text n)"
  by (simp add: AppendUint_eq dec_text_def)

lemma ParseUint_dec_text: "n < 256 \<Longrightarrow> ParseUint (dec_text n) = (int n, None)"
  by (simp add: ParseUint_dec_digits dec_text_def)

lemma parse_ip_loop_part:
  assumes "p < 256"
  shows "parse_ip_loop (Suc n) dst (dec_text p @ CHR ''.'' # b) =
           parse_ip_loop n (dst[2 - n := p]) b"
  using assms dec_text_no_dot [of p]
  by (simp add: IndexByte_append ParseUint_dec_text del: parse_ip_loop.simps(1))

lemma parse_ip_loop_last: "p < 256 \<Longrightarrow> parse_ip_loop 0 dst (dec_text p) = (dst[3 := p], None)"
  by (simp add: ParseUint_dec_text)

lemma AppendIPv4_eq:
  assumes "a < 256" "b < 256" "c < 256" "d < 256"
  shows "AppendIPv4 dst [a, b, c, d] =
           Some (dst @ dec_text a @ ''.'' @ dec_text b @ ''.'' @ dec_text c @ ''.'' @ dec_text d)"
  using assms by (simp add: AppendIPv4_def To4_def AppendUint_nat)

lemma To4_dst: "To4 (copy_into (replicate 4 0) IPv4zero) = Some [0, 0, 0, 0]"
  by (simp add: To4_def copy_into_def IPv4zero_def eval_nat_numeral)

section \<open>Hexadecimal round trip\<close>

fun hex_digits :: "nat \<Rightarrow> nat list" where
  "hex_digits n = (if n \<ge> 16 then hex_digits (n div 16) @ [n mod 16] else [n])"

declare hex_digits.simps [simp del]

definition hex_val :: "nat \<Rightarrow> nat list \<Rightarrow> nat" where
  "hex_val v ds = foldl (\<lambda>v d. 16 * v + d) v ds"

lemma hex_val_Nil [simp]: "hex_val v [] = v"
  by (simp add: hex_val_def)

lemma hex_val_Cons [simp]: "hex_val v (d # ds) = hex_val (16 * v + d) ds"
  by (simp add: hex_val_def)

lemma hex_val_snoc: "hex_val v (ds @ [d]) = 16 * hex_val v ds + d"
  by (simp add: hex_val_def)

lemma and_15: "(n :: nat) AND 15 = n mod 16"
  using take_bit_eq_mask [of 4 n] by (simp add: take_bit_eq_mod mask_eq_exp_minus_1)

lemma drop_bit_4: "drop_bit 4 (n :: nat) = n div 16"
  by (simp add: drop_bit_eq_div)

lemma write_hex_loop_eq: "write_hex_loop n acc = map ((!) lowerhex) (hex_digits n) @ acc"
proof (induction n acc rule: write_hex_loop.induct)
  case (1 n acc)
  show ?case
  proof (cases "n < 16")
    case True
    then show ?thesis
      by (simp add: write_hex_loop.simps [of n] hex_digits.simps [of n] and_15 drop_bit_4)
  next
    case False
    then have "n div 16 \<noteq> 0" by (simp add: div_eq_0_iff)
    with 1 False show ?thesis
      by (simp add: write_hex_loop.simps [of n] hex_digits.simps [of n] and_15 drop_bit_4 Let_def)
  qed
qed

lemma hex_digits_small: "d \<in> set (hex_digits n) \<Longrightarrow> d < 16"
proof (induction n rule: hex_digits.induct)
  case (1 n)
  then show ?case by (cases "n \<ge> 16") (auto simp: hex_digits.simps [of n])
qed

lemma hex_digits_nonempty [simp]: "hex_digits n \<noteq> []"
  by (simp add: hex_digits.simps [of n])

lemma hex_val_digits: "hex_val 0 (hex_digits n) = n"
proof (induction n rule: hex_digits.induct)
  case (1 n)
  then show ?case by (cases "n \<ge> 16") (auto simp: hex_digits.simps [of n] hex_val_snoc)
qed

lemma length_hex_digits: "n < 16 ^ Suc k \<Longrightarrow> length (hex_digits n) \<le> Suc k"
proof (induction k arbitrary: n)
  case 0
  then show ?case by (simp add: hex_digits.simps [of n])
next
  case (Suc k)
  then have "n div 16 < 16 ^ Suc k" by (simp add: div_less_iff_less_mult)
  with Suc.IH have "length (hex_digits (n div 16)) \<le> Suc k" by blast
  then show ?case by (subst hex_digits.simps) simp
qed

lemma less_16_cases:
  "(d :: nat) < 16 \<Longrightarrow>
     d = 0 \<or> d = 1 \<or> d = 2 \<or> d = 3 \<or> d = 4 \<or> d = 5 \<or> d = 6 \<or> d = 7 \<or> d = 8 \<or> d = 9 \<or>
     d = 10 \<or> d = 11 \<or> d = 12 \<or> d = 13 \<or> d = 14 \<or> d = 15"
  by presburger

lemma hex2int_lowerhex: "d < 16 \<Longrightarrow> hex2intTable (lowerhex ! d) = d"
  by (drule less_16_cases) (auto simp: hex2intTable_def lowerhex_def)

lemma hex2int_upperhex: "d < 16 \<Longrightarrow> hex2intTable (upperhex ! d) = d"
  by (drule less_16_cases) (auto simp: hex2intTable_def upperhex_def)

lemma push_bit_or_nat:
  assumes "d < 16"
  shows "push_bit 4 (v :: nat) OR d = 16 * v + d"
proof -
  from assms have "take_bit 4 d = d" by (simp add: take_bit_eq_mod)
  moreover have "push_bit 4 v AND take_bit 4 d = 0"
    by (rule bit_eqI) (auto simp: bit_simps)
  ultimately have "push_bit 4 v + d = push_bit 4 v OR d"
    by (simp add: disjunctive_add_eq_or)
  then show ?thesis by (simp add: push_bit_eq_mult)
qed

lemma push_bit_or_int: "d < 16 \<Longrightarrow> push_bit 4 (int v) OR int d = int (16 * v + d)"
  by (metis push_bit_or_nat of_nat_or_eq of_nat_push_bit)

lemma read_hex_loop_digits:
  assumes "\<forall>d\<in>set ds. d < 16" and "i + length ds \<le> maxHexIntChars"
  shows "read_hex_loop (map ((!) lowerhex) ds @ r) i (int v) =
           read_hex_loop r (i + length ds) (int (hex_val v ds))"
  using assms
proof (induction ds arbitrary: i v)
  case (Cons d ds)
  then have "read_hex_loop (map ((!) lowerhex) (d # ds) @ r) i (int v) =
               read_hex_loop (map ((!) lowerhex) ds @ r) (Suc i) (int (16 * v + d))"
    by (simp add: hex2int_lowerhex push_bit_or_int del: of_nat_add of_nat_mult)
  also have "\<dots> = read_hex_loop r (Suc i + length ds) (int (hex_val (16 * v + d) ds))"
    using Cons.prems by (intro Cons.IH) auto
  finally show ?case by simp
qed simp

lemma writeHexInt_eq:
  assumes "0 \<le> n" and "n < 2 ^ 63"
  shows "writeHexInt w n = Some (w @ map ((!) lowerhex) (hex_digits (nat n)))"
proof -
  have "nat n < 16 ^ Suc 15" using assms by (simp add: nat_less_iff)
  then have "length (hex_digits (nat n)) \<le> Suc 15" by (rule length_hex_digits)
  then show ?thesis
    using assms by (simp add: writeHexInt_def write_hex_loop_eq maxHexIntChars_def Let_def)
qed

lemma readHexInt_digits:
  assumes "n < 16 ^ 15" and "r = [] \<or> hex2intTable (hd r) = 16"
  shows "readHexInt (map ((!) lowerhex) (hex_digits n) @ r) = ((int n, None), r)"
proof -
  have "length (hex_digits n) \<le> Suc 14" using assms by (intro length_hex_digits) simp
  then have "readHexInt (map ((!) lowerhex) (hex_digits n) @ r) =
               read_hex_loop r (length (hex_digits n)) (int n)"
    using read_hex_loop_digits [of "hex_digits n" 0 r 0] hex_digits_small
    by (auto simp: readHexInt_def maxHexIntChars_def hex_val_digits)
  also have "\<dots> = ((int n, None), r)"
    using assms(2) by (cases r) auto
  finally show ?thesis .
qed

section \<open>Correctness of the conversions\<close>

text \<open>AppendUint writes any non-negative 64-bit int without leaving its 20-byte buffer,
  and ParseUint of the written text gives the number back.\<close>

theorem AppendUint_ParseUint:
  assumes "0 \<le> n" and "n \<le> max_int64"
  shows "\<exists>t. AppendUint dst n = Some (dst @ t) \<and> length t \<le> 19 \<and> ParseUint t = (n, None)"
proof -
  have n: "0 \<le> n" "n < 2 ^ 63" "nat n < 2 ^ 63" "nat n < 10 ^ Suc 18"
    using assms by (simp_all add: max_int64_def nat_less_iff)
  have "length (dec_digits (nat n)) \<le> 19" using length_dec_digits [OF n(4)] by simp
  with n show ?thesis by (auto simp: AppendUint_eq ParseUint_dec_digits)
qed

theorem AppendUint_ParseUint_witness:
  "\<exists>t. AppendUint ''n='' 9223372036854775807 = Some (''n='' @ t) \<and> length t \<le> 19 \<and>
     ParseUint t = (9223372036854775807, None)"
  using AppendUint_ParseUint [of 9223372036854775807 "''n=''"] by (simp add: max_int64_def)


text \<open>An IPv4 address written by AppendIPv4 is read back by ParseIPv4.\<close>

theorem AppendIPv4_ParseIPv4:
  assumes "a < 256" and "b < 256" and "c < 256" and "d < 256"
  shows "\<exists>t. AppendIPv4 dst [a, b, c, d] = Some (dst @ t) \<and>
           ParseIPv4 [] t = Some ([a, b, c, d], None)"
proof -
  let ?t = "dec_text a @ ''.'' @ dec_text b @ ''.'' @ dec_text c @ ''.'' @ dec_text d"
  have "parse_ip_loop 3 [0, 0, 0, 0] ?t = ([a, b, c, d], None)"
    using assms
    by (simp add: numeral_3_eq_3 parse_ip_loop_part parse_ip_loop_last del: parse_ip_loop.simps)
  then show ?thesis using assms by (simp add: AppendIPv4_eq ParseIPv4_def To4_dst)
qed

theorem AppendIPv4_ParseIPv4_witness:
  "\<exists>t. AppendIPv4 [] [192, 168, 0, 255] = Some ([] @ t) \<and>
     ParseIPv4 [] t = Some ([192, 168, 0, 255], None)"
  using AppendIPv4_ParseIPv4 [of 192 168 0 255 "[]"] by simp

text \<open>A chunk size below \<open>16 ^ 15\<close> written by writeHexInt is read back by readHexInt, which
  stops at the first byte that is not a hex digit and leaves it in the reader.\<close>

theorem writeHexInt_readHexInt:
  assumes "0 \<le> n" and "n < 16 ^ 15" and "r = [] \<or> hex2intTable (hd r) = 16"
  shows "\<exists>t. writeHexInt w n = Some (w @ t) \<and> readHexInt (t @ r) = ((n, None), r)"
proof -
  have "n < 2 ^ 63" and "nat n < 16 ^ 15" using assms by (simp_all add: nat_less_iff)
  with assms show ?thesis
    using writeHexInt_eq [of n w] readHexInt_digits [of "nat n" r] by simp
qed

theorem writeHexInt_readHexInt_witness:
  "\<exists>t. writeHexInt [] 4096 = Some ([] @ t) \<and>
     readHexInt (t @ [CHR 13, CHR 10]) = ((4096, None), [CHR 13, CHR 10])"
  using writeHexInt_readHexInt [of 4096 "[CHR 13, CHR 10]" "[]"] by (simp add: hex2intTable_def)

text \<open>HTML-escaped text never contains a bracket or a quote, whatever the input.\<close>

theorem AppendHTMLEscape_safe:
  "\<exists>t. AppendHTMLEscape dst s = dst @ t \<and> set t \<inter> {CHR ''<'', CHR ''>'', CHR 34, CHR 39} = {}"
  using html_escape_char_safe by (fastforce simp: AppendHTMLEscape_eq)

end
