(* ===== verification/Args.thy ===== *)
theory Args
  imports Bytesconv Dict
begin

unbundle bit_operations_syntax

text \<open>
  Query arguments of fasthttp (src/fasthttp/args.go).

  A Go slice of argsKV keeps the entries past its length: allocArg hands such a stale entry out
  again. The model keeps them: a slice is a pair of its entries and the stale entries behind
  them. Capacity beyond those holds zero values, which are what a fresh entry is, so the exact
  capacity does not matter.
\<close>

section \<open>State\<close>

record argsKV =
  key :: bytes
  val :: bytes
  noValue :: bool

type_synonym kv_slice = "argsKV list \<times> argsKV list"

record Args =
  args :: kv_slice
  buf :: bytes

definition argsNoValue :: bool where
  "argsNoValue = True"

definition argsHasValue :: bool where
  "argsHasValue = False"

definition zero_kv :: argsKV where
  "zero_kv = \<lparr>key = [], val = [], noValue = False\<rparr>"

section \<open>Slice operations\<close>

text \<open>allocArg returns the extended slice; the new entry is its last one.\<close>

definition allocArg :: "kv_slice \<Rightarrow> kv_slice" where
  "allocArg h =
     (case snd h of
        kv # sp \<Rightarrow> (fst h @ [kv], sp)
      | [] \<Rightarrow> (fst h @ [zero_kv], []))"

definition releaseArg :: "kv_slice \<Rightarrow> kv_slice" where
  "releaseArg h = (butlast (fst h), last (fst h) # snd h)"

text \<open>Writing through the pointer to the last entry.\<close>

definition set_last :: "kv_slice \<Rightarrow> argsKV \<Rightarrow> kv_slice" where
  "set_last h kv = (butlast (fst h) @ [kv], snd h)"

definition last_kv :: "kv_slice \<Rightarrow> argsKV" where
  "last_kv h = last (fst h)"

definition appendArg :: "kv_slice \<Rightarrow> bytes \<Rightarrow> bytes \<Rightarrow> bool \<Rightarrow> kv_slice" where
  "appendArg a k v nv =
     (let h = allocArg a; kv = last_kv h
      in set_last h (kv\<lparr>key := k, val := (if nv then [] else v), noValue := nv\<rparr>))"

definition appendArgBytes :: "kv_slice \<Rightarrow> bytes \<Rightarrow> bytes \<Rightarrow> bool \<Rightarrow> kv_slice" where
  "appendArgBytes h k v nv = appendArg h k v nv"

fun set_arg_loop :: "argsKV list \<Rightarrow> bytes \<Rightarrow> bytes \<Rightarrow> bool \<Rightarrow> argsKV list option" where
  "set_arg_loop [] k v nv = None"
| "set_arg_loop (kv # h) k v nv =
     (if k = key kv then Some (kv\<lparr>val := (if nv then [] else v), noValue := nv\<rparr> # h)
      else map_option ((#) kv) (set_arg_loop h k v nv))"

definition setArg :: "kv_slice \<Rightarrow> bytes \<Rightarrow> bytes \<Rightarrow> bool \<Rightarrow> kv_slice" where
  "setArg h k v nv =
     (case set_arg_loop (fst h) k v nv of
        Some h' \<Rightarrow> (h', snd h)
      | None \<Rightarrow> appendArg h k v nv)"

definition setArgBytes :: "kv_slice \<Rightarrow> bytes \<Rightarrow> bytes \<Rightarrow> bool \<Rightarrow> kv_slice" where
  "setArgBytes h k v nv = setArg h k v nv"

text \<open>The loop of delAllArgs at index \<open>i\<close>: a deleted entry is moved behind the shortened slice.\<close>

function del_all_loop :: "nat \<Rightarrow> bytes \<Rightarrow> kv_slice \<Rightarrow> kv_slice" where
  "del_all_loop i k (h, sp) =
     (if i < length h then
        (if k = key (h ! i) then del_all_loop i k (take i h @ drop (Suc i) h, h ! i # sp)
         else del_all_loop (Suc i) k (h, sp))
      else (h, sp))"
  by pat_completeness auto
termination
  by (relation "measure (\<lambda>(i, k, h, sp). length h - i)") auto

declare del_all_loop.simps [simp del]

definition delAllArgs :: "kv_slice \<Rightarrow> bytes \<Rightarrow> kv_slice" where
  "delAllArgs h k = del_all_loop 0 k h"

definition delAllArgsBytes :: "kv_slice \<Rightarrow> bytes \<Rightarrow> kv_slice" where
  "delAllArgsBytes h k = delAllArgs h k"

text \<open>copyArgs grows dst to the length of src when it is too small, then overwrites the
  entries one by one.\<close>

definition copy_kv :: "argsKV \<Rightarrow> argsKV \<Rightarrow> argsKV" where
  "copy_kv dst src =
     dst\<lparr>key := key src, val := (if noValue src then [] else val src), noValue := noValue src\<rparr>"

definition copyArgs :: "kv_slice \<Rightarrow> argsKV list \<Rightarrow> kv_slice" where
  "copyArgs dst src =
     (let all = fst dst @ snd dst;
          grown = all @ replicate (length src - length all) zero_kv
      in (map2 copy_kv (take (length src) grown) src, drop (length src) grown))"

fun hasArg :: "argsKV list \<Rightarrow> bytes \<Rightarrow> bool" where
  "hasArg [] k = False"
| "hasArg (kv # h) k = (if k = key kv then True else hasArg h k)"

fun peekArgStr :: "argsKV list \<Rightarrow> bytes \<Rightarrow> bytes option" where
  "peekArgStr [] k = None"
| "peekArgStr (kv # h) k = (if key kv = k then Some (val kv) else peekArgStr h k)"

definition peekArgBytes :: "argsKV list \<Rightarrow> bytes \<Rightarrow> bytes option" where
  "peekArgBytes h k = peekArgStr h k"

fun peekAllArgBytesToDst :: "bytes list \<Rightarrow> argsKV list \<Rightarrow> bytes \<Rightarrow> bytes list" where
  "peekAllArgBytesToDst dst [] k = dst"
| "peekAllArgBytesToDst dst (kv # h) k =
     peekAllArgBytesToDst (if key kv = k then dst @ [val kv] else dst) h k"

fun peekArgsKeys :: "bytes list \<Rightarrow> argsKV list \<Rightarrow> bytes list" where
  "peekArgsKeys dst [] = dst"
| "peekArgsKeys dst (kv # h) = peekArgsKeys (dst @ [key kv]) h"

text \<open>visitArgs folds the callback over the entries in order.\<close>

fun visitArgs :: "argsKV list \<Rightarrow> (bytes \<Rightarrow> bytes \<Rightarrow> 's \<Rightarrow> 's) \<Rightarrow> 's \<Rightarrow> 's" where
  "visitArgs [] f s = s"
| "visitArgs (kv # h) f s = visitArgs h f (f (key kv) (val kv) s)"

fun visitArgsKey :: "argsKV list \<Rightarrow> (bytes \<Rightarrow> 's \<Rightarrow> 's) \<Rightarrow> 's \<Rightarrow> 's" where
  "visitArgsKey [] f s = s"
| "visitArgsKey (kv # h) f s = visitArgsKey h f (f (key kv) s)"

section \<open>Decoding\<close>

fun decode_slow :: "bytes \<Rightarrow> bytes \<Rightarrow> bytes" where
  "decode_slow dst [] = dst"
| "decode_slow dst (c # src) =
     (if c = CHR ''%'' then
        (case src of
           a # b # rest \<Rightarrow>
             (let x2 = hex2intTable b; x1 = hex2intTable a
              in if x1 = 16 \<or> x2 = 16 then decode_slow (dst @ ''%'') (a # b # rest)
                 else decode_slow (dst @ [mk_byte (push_bit 4 x1 OR x2)]) rest)
         | _ \<Rightarrow> dst @ c # src)
      else if c = CHR ''+'' then decode_slow (dst @ '' '') src
      else decode_slow (dst @ [c]) src)"

definition decodeArgAppend :: "bytes \<Rightarrow> bytes \<Rightarrow> bytes" where
  "decodeArgAppend dst src =
     (let idxPercent = IndexByte src CHR ''%''; idxPlus = IndexByte src CHR ''+''
      in if idxPercent = - 1 \<and> idxPlus = - 1 then dst @ src
         else let idx = (if idxPercent = - 1 then idxPlus
                         else if idxPlus = - 1 then idxPercent
                         else if idxPercent > idxPlus then idxPlus
                         else idxPercent)
              in decode_slow (dst @ take (nat idx) src) (drop (nat idx) src))"

fun decode_slow_noplus :: "bytes \<Rightarrow> bytes \<Rightarrow> bytes" where
  "decode_slow_noplus dst [] = dst"
| "decode_slow_noplus dst (c # src) =
     (if c = CHR ''%'' then
        (case src of
           a # b # rest \<Rightarrow>
             (let x2 = hex2intTable b; x1 = hex2intTable a
              in if x1 = 16 \<or> x2 = 16 then decode_slow_noplus (dst @ ''%'') (a # b # rest)
                 else decode_slow_noplus (dst @ [mk_byte (push_bit 4 x1 OR x2)]) rest)
         | _ \<Rightarrow> dst @ c # src)
      else decode_slow_noplus (dst @ [c]) src)"

definition decodeArgAppendNoPlus :: "bytes \<Rightarrow> bytes \<Rightarrow> bytes" where
  "decodeArgAppendNoPlus dst src =
     (let idx = IndexByte src CHR ''%''
      in if idx < 0 then dst @ src
         else decode_slow_noplus (dst @ take (nat idx) src) (drop (nat idx) src))"

definition AppendUnquotedArg :: "bytes \<Rightarrow> bytes \<Rightarrow> bytes" where
  "AppendUnquotedArg dst src = decodeArgAppend dst src"

section \<open>The scanner\<close>

text \<open>The loop of argsScanner.next over the unread bytes \<open>b\<close>: position \<open>i\<close>, the bytes from
  there on, whether a key is read, the start \<open>k\<close> of the value, the entry being filled. The
  result is the entry and the bytes left for the next call.\<close>

fun args_scan :: "bytes \<Rightarrow> nat \<Rightarrow> bytes \<Rightarrow> bool \<Rightarrow> nat \<Rightarrow> argsKV \<Rightarrow> argsKV \<times> bytes" where
  "args_scan b i [] isKey k kv =
     (if isKey then (kv\<lparr>key := decodeArgAppend [] b, val := [], noValue := argsNoValue\<rparr>, [])
      else (kv\<lparr>val := decodeArgAppend [] (drop k b)\<rparr>, []))"
| "args_scan b i (c # rest) isKey k kv =
     (if c = CHR ''='' then
        (if isKey then
           args_scan b (Suc i) rest False (Suc i) (kv\<lparr>key := decodeArgAppend [] (take i b)\<rparr>)
         else args_scan b (Suc i) rest isKey k kv)
      else if c = CHR ''&'' then
        (if isKey then
           (kv\<lparr>key := decodeArgAppend [] (take i b), val := [], noValue := argsNoValue\<rparr>,
            drop (Suc i) b)
         else (kv\<lparr>val := decodeArgAppend [] (slice k i b)\<rparr>, drop (Suc i) b))
      else args_scan b (Suc i) rest isKey k kv)"

definition argsScanner_next :: "bytes \<Rightarrow> argsKV \<Rightarrow> (argsKV \<times> bytes) option" where
  "argsScanner_next b kv =
     (if length b = 0 then None else Some (args_scan b 0 b True 0 (kv\<lparr>noValue := argsHasValue\<rparr>)))"

lemma args_scan_shorter: "b \<noteq> [] \<Longrightarrow> length (snd (args_scan b i rest isKey k kv)) < length b"
  by (induction b i rest isKey k kv rule: args_scan.induct) auto

lemma argsScanner_next_shorter [termination_simp]:
  "argsScanner_next b kv = Some (kv', b') \<Longrightarrow> length b' < length b"
  using args_scan_shorter [of b] by (auto simp: argsScanner_next_def split: if_splits) (metis snd_conv)

text \<open>The loop of ParseBytes: the entry to fill is the last one of the slice.\<close>

function parse_args_loop :: "kv_slice \<Rightarrow> bytes \<Rightarrow> kv_slice" where
  "parse_args_loop h b =
     (case argsScanner_next b (last_kv h) of
        None \<Rightarrow> h
      | Some (kv, b') \<Rightarrow>
          (let h' = set_last h kv
           in if length (key kv) > 0 \<or> length (val kv) > 0
              then parse_args_loop (allocArg h') b'
              else parse_args_loop h' b'))"
  by pat_completeness auto
termination
  by (relation "measure (\<lambda>(h, b). length b)") (auto dest: argsScanner_next_shorter)

declare parse_args_loop.simps [simp del]

section \<open>The methods of Args\<close>

definition Args_Reset :: "Args \<Rightarrow> Args" where
  "Args_Reset a = a\<lparr>args := ([], fst (args a) @ snd (args a))\<rparr>"

definition Args_CopyTo :: "Args \<Rightarrow> Args \<Rightarrow> Args" where
  "Args_CopyTo a dst = dst\<lparr>args := copyArgs (args dst) (fst (args a))\<rparr>"

definition Args_VisitAll :: "Args \<Rightarrow> (bytes \<Rightarrow> bytes \<Rightarrow> 's \<Rightarrow> 's) \<Rightarrow> 's \<Rightarrow> 's" where
  "Args_VisitAll a f s = visitArgs (fst (args a)) f s"

definition Args_Len :: "Args \<Rightarrow> nat" where
  "Args_Len a = length (fst (args a))"

definition Args_ParseBytes :: "Args \<Rightarrow> bytes \<Rightarrow> Args" where
  "Args_ParseBytes a b =
     (let a1 = Args_Reset a
      in a1\<lparr>args := releaseArg (parse_args_loop (allocArg (args a1)) b)\<rparr>)"

definition Args_Parse :: "Args \<Rightarrow> bytes \<Rightarrow> Args" where
  "Args_Parse a s = Args_ParseBytes (a\<lparr>buf := s\<rparr>) s"

fun append_args_loop :: "bytes \<Rightarrow> argsKV list \<Rightarrow> bytes" where
  "append_args_loop dst [] = dst"
| "append_args_loop dst (kv # rest) =
     (let d1 = AppendQuotedArg dst (key kv);
          d2 = (if noValue kv then d1
                else let d = d1 @ ''='' in if length (val kv) > 0 then AppendQuotedArg d (val kv) else d);
          d3 = (if rest \<noteq> [] then d2 @ ''&'' else d2)
      in append_args_loop d3 rest)"

definition Args_AppendBytes :: "Args \<Rightarrow> bytes \<Rightarrow> bytes" where
  "Args_AppendBytes a dst = append_args_loop dst (fst (args a))"

definition Args_QueryString :: "Args \<Rightarrow> bytes \<times> Args" where
  "Args_QueryString a = (let b = Args_AppendBytes a [] in (b, a\<lparr>buf := b\<rparr>))"

definition Args_String :: "Args \<Rightarrow> bytes \<times> Args" where
  "Args_String a = Args_QueryString a"

definition Args_Del :: "Args \<Rightarrow> bytes \<Rightarrow> Args" where
  "Args_Del a k = a\<lparr>args := delAllArgs (args a) k\<rparr>"

definition Args_DelBytes :: "Args \<Rightarrow> bytes \<Rightarrow> Args" where
  "Args_DelBytes a k = a\<lparr>args := delAllArgs (args a) k\<rparr>"

definition Args_Add :: "Args \<Rightarrow> bytes \<Rightarrow> bytes \<Rightarrow> Args" where
  "Args_Add a k v = a\<lparr>args := appendArg (args a) k v argsHasValue\<rparr>"

definition Args_AddBytesK :: "Args \<Rightarrow> bytes \<Rightarrow> bytes \<Rightarrow> Args" where
  "Args_AddBytesK a k v = a\<lparr>args := appendArg (args a) k v argsHasValue\<rparr>"

definition Args_AddBytesV :: "Args \<Rightarrow> bytes \<Rightarrow> bytes \<Rightarrow> Args" where
  "Args_AddBytesV a k v = a\<lparr>args := appendArg (args a) k v argsHasValue\<rparr>"

definition Args_AddBytesKV :: "Args \<Rightarrow> bytes \<Rightarrow> bytes \<Rightarrow> Args" where
  "Args_AddBytesKV a k v = a\<lparr>args := appendArg (args a) k v argsHasValue\<rparr>"

definition Args_AddNoValue :: "Args \<Rightarrow> bytes \<Rightarrow> Args" where
  "Args_AddNoValue a k = a\<lparr>args := appendArg (args a) k [] argsNoValue\<rparr>"

definition Args_AddBytesKNoValue :: "Args \<Rightarrow> bytes \<Rightarrow> Args" where
  "Args_AddBytesKNoValue a k = a\<lparr>args := appendArg (args a) k [] argsNoValue\<rparr>"

definition Args_Set :: "Args \<Rightarrow> bytes \<Rightarrow> bytes \<Rightarrow> Args" where
  "Args_Set a k v = a\<lparr>args := setArg (args a) k v argsHasValue\<rparr>"

definition Args_SetBytesK :: "Args \<Rightarrow> bytes \<Rightarrow> bytes \<Rightarrow> Args" where
  "Args_SetBytesK a k v = a\<lparr>args := setArg (args a) k v argsHasValue\<rparr>"

definition Args_SetBytesV :: "Args \<Rightarrow> bytes \<Rightarrow> bytes \<Rightarrow> Args" where
  "Args_SetBytesV a k v = a\<lparr>args := setArg (args a) k v argsHasValue\<rparr>"

definition Args_SetBytesKV :: "Args \<Rightarrow> bytes \<Rightarrow> bytes \<Rightarrow> Args" where
  "Args_SetBytesKV a k v = a\<lparr>args := setArgBytes (args a) k v argsHasValue\<rparr>"

definition Args_SetNoValue :: "Args \<Rightarrow> bytes \<Rightarrow> Args" where
  "Args_SetNoValue a k = a\<lparr>args := setArg (args a) k [] argsNoValue\<rparr>"

definition Args_SetBytesKNoValue :: "Args \<Rightarrow> bytes \<Rightarrow> Args" where
  "Args_SetBytesKNoValue a k = a\<lparr>args := setArg (args a) k [] argsNoValue\<rparr>"

definition Args_Peek :: "Args \<Rightarrow> bytes \<Rightarrow> bytes option" where
  "Args_Peek a k = peekArgStr (fst (args a)) k"

definition Args_PeekBytes :: "Args \<Rightarrow> bytes \<Rightarrow> bytes option" where
  "Args_PeekBytes a k = peekArgBytes (fst (args a)) k"

definition Args_PeekMulti :: "Args \<Rightarrow> bytes \<Rightarrow> bytes list" where
  "Args_PeekMulti a k =
     Args_VisitAll a (\<lambda>k' v values. if k' = k then values @ [v] else values) []"

definition Args_PeekMultiBytes :: "Args \<Rightarrow> bytes \<Rightarrow> bytes list" where
  "Args_PeekMultiBytes a k = Args_PeekMulti a k"

definition Args_Has :: "Args \<Rightarrow> bytes \<Rightarrow> bool" where
  "Args_Has a k = hasArg (fst (args a)) k"

definition Args_HasBytes :: "Args \<Rightarrow> bytes \<Rightarrow> bool" where
  "Args_HasBytes a k = hasArg (fst (args a)) k"

datatype arg_error = ErrNoArgValue | ErrArgInt int_error

text \<open>The length of a Peek result: nil has length 0.\<close>

definition nil_or :: "bytes option \<Rightarrow> bytes" where
  "nil_or v = (case v of None \<Rightarrow> [] | Some b \<Rightarrow> b)"

definition Args_GetUint :: "Args \<Rightarrow> bytes \<Rightarrow> int \<times> arg_error option" where
  "Args_GetUint a k =
     (let v = nil_or (Args_Peek a k)
      in if length v = 0 then (- 1, Some ErrNoArgValue)
         else let (n, err) = ParseUint v in (n, map_option ErrArgInt err))"

definition Args_SetUint :: "Args \<Rightarrow> bytes \<Rightarrow> int \<Rightarrow> Args go" where
  "Args_SetUint a k n = map_option (\<lambda>b. Args_SetBytesV a k b) (AppendUint [] n)"

definition Args_SetUintBytes :: "Args \<Rightarrow> bytes \<Rightarrow> int \<Rightarrow> Args go" where
  "Args_SetUintBytes a k n = Args_SetUint a k n"

definition Args_GetUintOrZero :: "Args \<Rightarrow> bytes \<Rightarrow> int" where
  "Args_GetUintOrZero a k =
     (let (n, err) = Args_GetUint a k in if err \<noteq> None then 0 else n)"

definition Args_GetBool :: "Args \<Rightarrow> bytes \<Rightarrow> bool" where
  "Args_GetBool a k \<longleftrightarrow>
     nil_or (Args_Peek a k) \<in>
       set [''1'', ''t'', ''T'', ''true'', ''TRUE'', ''True'', ''y'', ''yes'', ''Y'', ''YES'', ''Yes'']"

text \<open>The pool of Args: an acquired object is a released one or a zero value; a release resets it.\<close>

definition ReleaseArgs :: "Args \<Rightarrow> Args" where
  "ReleaseArgs a = Args_Reset a"

section \<open>Decoding is the inverse of quoting\<close>

text \<open>The decoder without its accumulator and its fast path.\<close>

fun decode_ref :: "bytes \<Rightarrow> bytes" where
  "decode_ref [] = []"
| "decode_ref (c # src) =
     (if c = CHR ''%'' then
        (case src of
           a # b # rest \<Rightarrow>
             (if hex2intTable a = 16 \<or> hex2intTable b = 16 then CHR ''%'' # decode_ref (a # b # rest)
              else mk_byte (push_bit 4 (hex2intTable a) OR hex2intTable b) # decode_ref rest)
         | _ \<Rightarrow> c # src)
      else if c = CHR ''+'' then CHR '' '' # decode_ref src
      else c # decode_ref src)"

lemma decode_slow_eq: "decode_slow dst s = dst @ decode_ref s"
  by (induction dst s rule: decode_slow.induct) (auto simp: Let_def split: list.split)

lemma decode_ref_plain:
  "set xs \<inter> {CHR ''%'', CHR ''+''} = {} \<Longrightarrow> decode_ref (xs @ ys) = xs @ decode_ref ys"
  by (induction xs) auto

lemma take_plain:
  assumes "n \<le> length (takeWhile (\<lambda>x. x \<noteq> c) s)"
  shows "c \<notin> set (take n s)"
proof -
  have "take n s = take n (takeWhile (\<lambda>x. x \<noteq> c) s)"
    using assms by (metis takeWhile_eq_take take_take min.absorb1)
  then show ?thesis by (metis (mono_tags, lifting) in_set_takeD set_takeWhileD)
qed

lemma take_le_IndexByte: "i \<le> IndexByte s c \<Longrightarrow> c \<notin> set (take (nat i) s)"
  by (rule take_plain) (auto simp: IndexByte_def Let_def split: if_splits)

lemma IndexByte_minus1: "IndexByte s c = - 1 \<longleftrightarrow> c \<notin> set s"
  using IndexByte_negative [of s c] IndexByte_ge [of s c] by auto

lemma set_take_notin: "c \<notin> set s \<Longrightarrow> c \<notin> set (take n s)"
  by (meson in_set_takeD)

text \<open>The search for the first encoded byte is only a fast path: decodeArgAppend is the
  decoding loop from the start of the source.\<close>

lemma decodeArgAppend_eq: "decodeArgAppend dst src = dst @ decode_ref src"
proof -
  let ?p = "IndexByte src CHR ''%''" and ?q = "IndexByte src CHR ''+''"
  have plain: "decode_slow (dst @ take n src) (drop n src) = dst @ decode_ref src"
    if "CHR ''%'' \<notin> set (take n src)" "CHR ''+'' \<notin> set (take n src)" for n
    using decode_ref_plain [of "take n src" "drop n src"] that by (simp add: decode_slow_eq)
  have none: "decode_ref src = src" if "CHR ''%'' \<notin> set src" "CHR ''+'' \<notin> set src"
    using decode_ref_plain [of src "[]"] that by simp
  have pp: "CHR ''%'' \<notin> set (take (nat ?p) src)" and qq: "CHR ''+'' \<notin> set (take (nat ?q) src)"
    by (simp_all add: take_le_IndexByte)
  have "?q < ?p \<Longrightarrow> CHR ''%'' \<notin> set (take (nat ?q) src)"
    and "\<not> ?q < ?p \<Longrightarrow> CHR ''+'' \<notin> set (take (nat ?p) src)"
    by (simp_all add: take_le_IndexByte)
  with pp qq show ?thesis
    by (simp add: decodeArgAppend_def Let_def IndexByte_minus1 plain none set_take_notin)
qed

definition quote_arg :: "char \<Rightarrow> bytes" where
  "quote_arg c = (if c = CHR '' '' then ''+'' else if quotedArgShouldEscape c then percent_encode c else [c])"

lemma AppendQuotedArg_eq: "AppendQuotedArg dst s = dst @ concat (map quote_arg s)"
  by (induction dst s rule: AppendQuotedArg.induct) (auto simp: quote_arg_def)

lemma nibbles: "byte_val c div 16 < 16" "16 * (byte_val c div 16) + byte_val c mod 16 = byte_val c"
  by (simp_all add: div_less_iff_less_mult)

lemma decode_ref_percent:
  "x < 16 \<Longrightarrow> y < 16 \<Longrightarrow>
     decode_ref (CHR ''%'' # upperhex ! x # upperhex ! y # r) = mk_byte (16 * x + y) # decode_ref r"
  by (simp add: hex2int_upperhex push_bit_or_nat)

lemma decode_percent: "decode_ref (percent_encode c @ r) = c # decode_ref r"
  using decode_ref_percent [OF nibbles(1) [of c], of "byte_val c mod 16" r] nibbles(2) [of c]
  by (simp add: percent_encode_def and_15 drop_bit_4 del: decode_ref.simps(2))

lemma not_escaped_neq: "\<not> quotedArgShouldEscape c \<Longrightarrow> c \<notin> set ''%+&= ''"
  by (auto simp: quotedArgShouldEscape_def is_alnum_def)

lemma decode_quote_arg: "decode_ref (quote_arg c @ r) = c # decode_ref r"
  using decode_percent [of c r] not_escaped_neq [of c] by (auto simp: quote_arg_def)

lemma decode_quoted: "decode_ref (concat (map quote_arg s) @ r) = s @ decode_ref r"
  by (induction s) (auto simp: decode_quote_arg simp del: decode_ref.simps(2))

lemma decode_AppendQuotedArg: "decodeArgAppend [] (AppendQuotedArg [] s) = s"
  using decode_quoted [of s "[]"] by (simp add: decodeArgAppend_eq AppendQuotedArg_eq)

text \<open>Quoted text holds no separator.\<close>

lemma upperhex_plain: "x < 16 \<Longrightarrow> upperhex ! x \<notin> set ''=&''"
  by (drule less_16_cases) (auto simp: upperhex_def)

lemma quote_arg_plain: "set (quote_arg c) \<inter> set ''=&'' = {}"
  using upperhex_plain [OF nibbles(1) [of c]] upperhex_plain [of "byte_val c mod 16"]
    not_escaped_neq [of c]
  by (auto simp: quote_arg_def percent_encode_def and_15 drop_bit_4)

lemma quoted_plain: "set (concat (map quote_arg s)) \<inter> set ''=&'' = {}"
  using quote_arg_plain by (auto simp: disjoint_iff)

section \<open>The scanner on the text of a list of arguments\<close>

definition quoted :: "bytes \<Rightarrow> bytes" where
  "quoted s = concat (map quote_arg s)"

definition entry_text :: "argsKV \<Rightarrow> bytes" where
  "entry_text kv = quoted (key kv) @ (if noValue kv then [] else CHR ''='' # quoted (val kv))"

fun args_text :: "argsKV list \<Rightarrow> bytes" where
  "args_text [] = []"
| "args_text (kv # rest) = entry_text kv @ (if rest = [] then [] else CHR ''&'' # args_text rest)"

text \<open>An entry that survives a round trip: it is not empty, and it has no value when it is
  marked so (every operation of the code keeps the latter).\<close>

definition proper_kv :: "argsKV \<Rightarrow> bool" where
  "proper_kv kv \<longleftrightarrow> (key kv \<noteq> [] \<or> val kv \<noteq> []) \<and> (noValue kv \<longrightarrow> val kv = [])"

lemma append_args_loop_eq: "append_args_loop dst kvs = dst @ args_text kvs"
proof (induction kvs arbitrary: dst)
  case (Cons kv rest)
  then show ?case
    by (auto simp: Let_def AppendQuotedArg_eq entry_text_def quoted_def)
qed simp

lemma quote_arg_nonempty [simp]: "quote_arg c \<noteq> []"
  by (simp add: quote_arg_def percent_encode_def)

lemma quoted_empty [simp]: "quoted s = [] \<longleftrightarrow> s = []"
  by (cases s) (auto simp: quoted_def)

lemma decode_quoted_text [simp]: "decodeArgAppend [] (quoted s) = s"
  using decode_AppendQuotedArg [of s] by (simp add: AppendQuotedArg_eq quoted_def)

lemma args_scan_skip:
  "set xs \<inter> set ''=&'' = {} \<Longrightarrow>
     args_scan b i (xs @ rest) isKey k kv = args_scan b (i + length xs) rest isKey k kv"
  by (induction xs arbitrary: i) auto

lemma quoted_skip:
  "args_scan b i (quoted s @ rest) isKey k kv = args_scan b (i + length (quoted s)) rest isKey k kv"
  by (rule args_scan_skip) (use quoted_plain in \<open>simp add: quoted_def\<close>)

lemma quoted_skip_end:
  "args_scan b i (quoted s) isKey k kv = args_scan b (i + length (quoted s)) [] isKey k kv"
  using quoted_skip [of b i s "[]"] by simp

definition tail_ok :: "bytes \<Rightarrow> bool" where
  "tail_ok t \<longleftrightarrow> t = [] \<or> (\<exists>t'. t = CHR ''&'' # t')"

lemma args_scan_noValue:
  assumes "tail_ok t"
  shows "args_scan (quoted k @ t) 0 (quoted k @ t) True 0 kv =
           (kv\<lparr>key := k, val := [], noValue := True\<rparr>, drop 1 t)"
  using assms by (auto simp: tail_ok_def quoted_skip quoted_skip_end argsNoValue_def)

lemma args_scan_value:
  assumes "tail_ok t"
  shows "args_scan (quoted k @ CHR ''='' # quoted v @ t) 0 (quoted k @ CHR ''='' # quoted v @ t) True 0 kv =
           (kv\<lparr>key := k, val := v\<rparr>, drop 1 t)"
  using assms by (auto simp: tail_ok_def quoted_skip quoted_skip_end slice_def)

lemma argsScanner_next_entry:
  assumes "proper_kv kv" and "tail_ok t"
  shows "argsScanner_next (entry_text kv @ t) kv0 = Some (kv, drop 1 t)"
proof (cases "noValue kv")
  case True
  with assms have "key kv \<noteq> []" "val kv = []" by (auto simp: proper_kv_def)
  with True show ?thesis
    using args_scan_noValue [OF assms(2), of "key kv"]
    by (cases kv) (simp add: argsScanner_next_def entry_text_def argsHasValue_def)
next
  case False
  then show ?thesis
    using args_scan_value [OF assms(2), of "key kv" "val kv"]
    by (cases kv) (simp add: argsScanner_next_def entry_text_def argsHasValue_def)
qed

lemma set_last_snoc [simp]: "set_last (h @ [x], sp) kv = (h @ [kv], sp)"
  by (simp add: set_last_def)

lemma last_kv_snoc [simp]: "last_kv (h @ [x], sp) = x"
  by (simp add: last_kv_def)

lemma allocArg_snoc: "\<exists>y sp'. allocArg (h, sp) = (h @ [y], sp')"
  by (cases sp) (auto simp: allocArg_def)

lemma tail_ok_rest: "tail_ok (if rest = [] then [] else CHR ''&'' # args_text rest)"
  by (simp add: tail_ok_def)

lemma parse_args_loop_text:
  assumes "\<forall>kv\<in>set kvs. proper_kv kv"
  shows "\<exists>y sp'. parse_args_loop (h @ [x], sp) (args_text kvs) = (h @ kvs @ [y], sp')"
  using assms
proof (induction kvs arbitrary: h x sp)
  case Nil
  then show ?case by (simp add: parse_args_loop.simps argsScanner_next_def)
next
  case (Cons kv rest)
  let ?t = "if rest = [] then [] else CHR ''&'' # args_text rest"
  have p: "proper_kv kv" using Cons.prems by simp
  have "drop 1 ?t = args_text rest" by simp
  then have n: "argsScanner_next (args_text (kv # rest)) x = Some (kv, args_text rest)"
    using argsScanner_next_entry [OF p tail_ok_rest, of rest] by simp
  obtain y sp1 where a: "allocArg (h @ [kv], sp) = ((h @ [kv]) @ [y], sp1)"
    using allocArg_snoc by metis
  have "parse_args_loop (h @ [x], sp) (args_text (kv # rest)) =
          parse_args_loop ((h @ [kv]) @ [y], sp1) (args_text rest)"
    using p n a by (subst parse_args_loop.simps) (simp add: proper_kv_def Let_def)
  then show ?case using Cons.IH [of "h @ [kv]" y sp1] Cons.prems by auto
qed

lemma fst_releaseArg_snoc [simp]: "fst (releaseArg (h @ [y], sp)) = h"
  by (simp add: releaseArg_def)

lemma ParseBytes_args_text:
  assumes "\<forall>kv\<in>set kvs. proper_kv kv"
  shows "fst (args (Args_ParseBytes a (args_text kvs))) = kvs"
proof -
  obtain y sp where "allocArg (args (Args_Reset a)) = ([] @ [y], sp)"
    using allocArg_snoc [of "[]" "fst (args a) @ snd (args a)"] by (auto simp: Args_Reset_def)
  moreover obtain z sp' where "parse_args_loop ([] @ [y], sp) (args_text kvs) = ([] @ kvs @ [z], sp')"
    using parse_args_loop_text [OF assms] by blast
  ultimately show ?thesis
    using fst_releaseArg_snoc [of kvs z sp'] by (simp add: Args_ParseBytes_def Let_def)
qed

section \<open>Stale entries do not leak\<close>

lemma args_scan_fresh:
  "\<lbrakk>noValue kv = noValue kv'; \<not> isKey \<Longrightarrow> key kv = key kv'\<rbrakk> \<Longrightarrow>
     args_scan b i rest isKey k kv = args_scan b i rest isKey k kv'"
proof (induction b i rest isKey k kv arbitrary: kv' rule: args_scan.induct)
  case (1 b i isKey k kv)
  then show ?case by (cases kv; cases kv') (auto simp: argsNoValue_def)
next
  case (2 b i c rest isKey k kv)
  show ?case
  proof (cases "c = CHR ''=''")
    case True
    then show ?thesis
      using 2 by (cases isKey) (auto intro!: "2.IH"(1) "2.IH"(2))
  next
    case ne: False
    show ?thesis
    proof (cases "c = CHR ''&''")
      case True
      with ne "2.prems" show ?thesis by (cases kv; cases kv') (auto simp: argsNoValue_def)
    next
      case False
      with ne have "args_scan b (Suc i) rest isKey k kv = args_scan b (Suc i) rest isKey k kv'"
        using "2.prems" by (intro "2.IH"(3)) auto
      with ne False show ?thesis by simp
    qed
  qed
qed

lemma argsScanner_next_fresh: "argsScanner_next b kv = argsScanner_next b kv'"
  using args_scan_fresh [of "kv\<lparr>noValue := argsHasValue\<rparr>" "kv'\<lparr>noValue := argsHasValue\<rparr>" True]
  by (simp add: argsScanner_next_def)

lemma parse_args_loop_fresh:
  "\<lbrakk>h1 = xs @ [y]; h2 = xs @ [y']\<rbrakk> \<Longrightarrow>
     butlast (fst (parse_args_loop (h1, sp) b)) = butlast (fst (parse_args_loop (h2, sp') b))"
proof (induction b arbitrary: h1 h2 xs y y' sp sp' rule: length_induct)
  case (1 b)
  show ?case
  proof (cases "argsScanner_next b y")
    case None
    then show ?thesis
      using 1 argsScanner_next_fresh [of b y y'] by (simp add: parse_args_loop.simps)
  next
    case (Some r)
    obtain kv b' where r: "r = (kv, b')" by force
    have n: "argsScanner_next b y = Some (kv, b')" "argsScanner_next b y' = Some (kv, b')"
      using Some r argsScanner_next_fresh [of b y y'] by simp_all
    have len: "length b' < length b" using n(1) by (rule argsScanner_next_shorter)
    obtain z s z' s' where "allocArg (xs @ [kv], sp) = ((xs @ [kv]) @ [z], s)"
      "allocArg (xs @ [kv], sp') = ((xs @ [kv]) @ [z'], s')"
      using allocArg_snoc by metis
    moreover have "butlast (fst (parse_args_loop ((xs @ [kv]) @ [z], s) b')) =
                     butlast (fst (parse_args_loop ((xs @ [kv]) @ [z'], s') b'))"
      and "butlast (fst (parse_args_loop (xs @ [kv], sp) b')) =
             butlast (fst (parse_args_loop (xs @ [kv], sp') b'))"
      using "1.IH" len by blast+
    ultimately show ?thesis
      using n "1.prems" by (subst (1 2) parse_args_loop.simps) (simp add: Let_def)
  qed
qed

section \<open>Arguments as a dictionary\<close>

lemma fst_appendArg:
  "fst (appendArg h k v nv) = fst h @ [\<lparr>key = k, val = (if nv then [] else v), noValue = nv\<rparr>]"
proof (cases h)
  case (Pair l sp)
  then show ?thesis
    by (cases sp) (auto simp: appendArg_def allocArg_def set_last_def last_kv_def Let_def zero_kv_def
        split: list.split intro!: argsKV.equality)
qed

lemma del_all_loop_eq:
  "i \<le> length h \<Longrightarrow>
     fst (del_all_loop i k (h, sp)) = take i h @ filter (\<lambda>kv. key kv \<noteq> k) (drop i h)"
proof (induction i k "(h, sp)" arbitrary: h sp rule: del_all_loop.induct)
  case (1 i k h sp)
  show ?case
  proof (cases "i < length h")
    case True
    then have d: "drop i h = h ! i # drop (Suc i) h" by (simp add: Cons_nth_drop_Suc)
    show ?thesis
      using 1 True
      by (cases "k = key (h ! i)")
        (auto simp: del_all_loop.simps [of i] d take_Suc_conv_app_nth)
  next
    case False
    with "1.prems" show ?thesis by (simp add: del_all_loop.simps)
  qed
qed

lemma fst_delAllArgs: "fst (delAllArgs h k) = filter (\<lambda>kv. key kv \<noteq> k) (fst h)"
  using del_all_loop_eq [of 0 "fst h" k "snd h"] by (simp add: delAllArgs_def)

lemma peek_filter: "peekArgStr (filter (\<lambda>kv. key kv \<noteq> k) h) k' = (if k = k' then None else peekArgStr h k')"
  by (induction h) auto

lemma peek_append: "peekArgStr (h @ [kv]) k = (case peekArgStr h k of None \<Rightarrow> peekArgStr [kv] k | Some v \<Rightarrow> Some v)"
  by (induction h) auto

lemma set_arg_loop_None: "set_arg_loop h k v nv = None \<longleftrightarrow> peekArgStr h k = None"
  by (induction h) auto

lemma set_arg_loop_Some:
  "set_arg_loop h k v False = Some h' \<Longrightarrow> peekArgStr h' = (peekArgStr h)(k \<mapsto> v)"
  by (induction h arbitrary: h') (auto simp: fun_eq_iff split: if_splits)

lemma peek_setArg: "peekArgStr (fst (setArg h k v False)) = (peekArgStr (fst h))(k \<mapsto> v)"
  by (auto simp: setArg_def set_arg_loop_None set_arg_loop_Some fst_appendArg peek_append fun_eq_iff
      split: option.split)

interpretation args_dict: dict Args_Peek Args_Set Args_Del "\<lambda>_. True"
  by unfold_locales
    (auto simp: Args_Peek_def Args_Set_def Args_Del_def argsHasValue_def peek_setArg fst_delAllArgs
      peek_filter fun_eq_iff)

section \<open>Correctness of the arguments\<close>

text \<open>Percent-encoding an argument and decoding it again gives the argument back, for
  every byte string and after any prefix already in the destination.\<close>

theorem quoted_arg_roundtrip:
  "AppendUnquotedArg dst (AppendQuotedArg [] s) = dst @ s"
  using decode_AppendQuotedArg [of s] by (simp add: AppendUnquotedArg_def decodeArgAppend_eq)

text \<open>Claim C24: parsing the query string of a list of arguments gives the same arguments, order,
  duplicates and "no value" marks included, whatever the receiving object held before.\<close>

theorem Args_query_roundtrip:
  assumes "\<forall>kv\<in>set (fst (args a)). proper_kv kv"
  shows "fst (args (Args_Parse a' (fst (Args_QueryString a)))) = fst (args a)"
  using ParseBytes_args_text [OF assms]
  by (simp add: Args_Parse_def Args_QueryString_def Args_AppendBytes_def append_args_loop_eq Let_def)

theorem Args_query_roundtrip_witness:
  "fst (args (Args_Parse \<lparr>args = ([], []), buf = []\<rparr>
     (fst (Args_QueryString \<lparr>args = ([\<lparr>key = ''a b'', val = ''&='', noValue = False\<rparr>,
        \<lparr>key = ''k'', val = [], noValue = True\<rparr>], []), buf = []\<rparr>)))) =
   [\<lparr>key = ''a b'', val = ''&='', noValue = False\<rparr>, \<lparr>key = ''k'', val = [], noValue = True\<rparr>]"
  using Args_query_roundtrip [of "\<lparr>args = ([\<lparr>key = ''a b'', val = ''&='', noValue = False\<rparr>,
        \<lparr>key = ''k'', val = [], noValue = True\<rparr>], []), buf = []\<rparr>" "\<lparr>args = ([], []), buf = []\<rparr>"]
  by (simp add: proper_kv_def)

text \<open>what an Args object held before, reused entries and entries behind its length
  included, never shows in the result of a parse.\<close>

theorem Args_Parse_no_stale_data:
  "fst (args (Args_ParseBytes a b)) = fst (args (Args_ParseBytes a' b))"
proof -
  obtain y sp y' sp' where "allocArg (args (Args_Reset a)) = ([] @ [y], sp)"
    "allocArg (args (Args_Reset a')) = ([] @ [y'], sp')"
    using allocArg_snoc [of "[]"] unfolding Args_Reset_def by simp metis
  then show ?thesis
    using parse_args_loop_fresh [of "[y]" "[]" y "[y']" y' sp b sp']
    by (simp add: Args_ParseBytes_def Let_def releaseArg_def)
qed


text \<open>GetUint after SetUint returns the number, for every non-negative int.\<close>

theorem Args_SetUint_GetUint:
  assumes "0 \<le> n" and "n \<le> max_int64"
  shows "\<exists>a'. Args_SetUint a k n = Some a' \<and> Args_GetUint a' k = (n, None)"
proof -
  have n: "0 \<le> n" "n < 2 ^ 63" "nat n < 2 ^ 63" using assms by (simp_all add: max_int64_def)
  have "Args_Peek (Args_SetBytesV a k t) k = Some t" for t
    using args_dict.get_put [of a k t] by (simp add: Args_SetBytesV_def Args_Set_def)
  with n show ?thesis
    by (simp add: Args_SetUint_def AppendUint_eq Args_GetUint_def nil_or_def ParseUint_dec_digits Let_def)
qed

theorem Args_SetUint_GetUint_witness:
  "\<exists>a'. Args_SetUint \<lparr>args = ([], []), buf = []\<rparr> ''page'' 42 = Some a' \<and>
     Args_GetUint a' ''page'' = (42, None)"
  using Args_SetUint_GetUint [of 42 "\<lparr>args = ([], []), buf = []\<rparr>" "''page''"]
  by (simp add: max_int64_def)

end
