(* ===== verification/Uri.thy ===== *)
theory Uri
  imports Args
begin

text \<open>
  URIs (src/fasthttp/uri.go, uri_unix.go, uri_windows.go): normalisation of paths, parsing, updating
  and printing. A \<open>URI\<close> has the fields of the struct that outlive a call; the two output buffers
  fullURI and requestURI are rebuilt on every use, and what an operation writes into them is its
  result here. The path separator of the platform, a constant of the build, is the argument
  \<open>windows\<close>; \<open>normalizePath\<close> is the function of all other builds.
\<close>

section \<open>Normalisation of paths\<close>

definition addLeadingSlash :: "bytes \<Rightarrow> bytes \<Rightarrow> bytes" where
  "addLeadingSlash dst src = (if length src = 0 \<or> src ! 0 \<noteq> CHR ''/'' then dst @ ''/'' else dst)"

definition addLeadingSlash_windows :: "bytes \<Rightarrow> bytes \<Rightarrow> bytes" where
  "addLeadingSlash_windows dst src =
     (let isDisk = (length src > 2 \<and> src ! 1 = CHR '':'')
      in if length src = 0 \<or> \<not> isDisk \<and> src ! 0 \<noteq> CHR ''/'' then dst @ ''/'' else dst)"

text \<open>\<open>copy(b[i:], b[j:])\<close> followed by \<open>b = b[:len(b)-j+i]\<close>.\<close>

definition cut :: "nat \<Rightarrow> nat \<Rightarrow> bytes \<Rightarrow> bytes" where
  "cut i j b = take i b @ drop j b"

lemma Index_bound: "\<not> Index b p < 0 \<Longrightarrow> nat (Index b p) + length p \<le> length b"
  using Index_nonneg [of b p] by simp

lemma LastIndexByte_bound: "LastIndexByte s c < int (length s)" "- 1 \<le> LastIndexByte s c"
  by (auto simp: LastIndexByte_def Let_def)

function dedup_loop :: "bytes \<Rightarrow> bytes \<Rightarrow> bytes" where
  "dedup_loop done b =
     (let n = Index b ''//''
      in if n < 0 then done @ b else dedup_loop (done @ take (nat n) b) (drop (nat n + 1) b))"
  by pat_completeness auto
termination
  using Index_bound by (relation "measure (\<lambda>(d, b). length b)") fastforce+

text \<open>A pattern of three bytes, of which the first two are removed.\<close>

function dot_loop :: "bytes \<Rightarrow> bytes \<Rightarrow> bytes" where
  "dot_loop pat b =
     (let n = Index b pat
      in if n < 0 \<or> length pat \<noteq> 3 then b else dot_loop pat (cut (nat n) (nat n + 2) b))"
  by pat_completeness auto
termination
proof (relation "measure (\<lambda>(p, b). length b)")
  fix pat b :: bytes and n
  assume "n = Index b pat" "\<not> (n < 0 \<or> length pat \<noteq> 3)"
  then show "((pat, cut (nat n) (nat n + 2) b), (pat, b)) \<in> measure (\<lambda>(p, b). length b)"
    using Index_bound [of b pat] by (simp add: cut_def)
qed simp

text \<open>The last slash before the pattern, 0 if there is none.\<close>

definition slash_before :: "bytes \<Rightarrow> int \<Rightarrow> nat" where
  "slash_before b n = nat (LastIndexByte (take (nat n) b) CHR ''/'')"

lemma slash_before_le: "slash_before b n \<le> nat n"
  using LastIndexByte_bound(1) [of "take (nat n) b" "CHR ''/''"] by (simp add: slash_before_def)

text \<open>The three loops that remove a directory and the pattern after it: the pattern, how much is kept
  after the slash, and how much of the pattern is removed.\<close>

function dotdot_loop :: "bytes \<Rightarrow> nat \<Rightarrow> nat \<Rightarrow> bytes \<Rightarrow> bytes" where
  "dotdot_loop pat keep len b =
     (let n = Index b pat
      in if n < 0 \<or> \<not> (keep < len \<and> len \<le> length pat) then b
         else dotdot_loop pat keep len (cut (slash_before b n + keep) (nat n + len) b))"
  by pat_completeness auto
termination
proof (relation "measure (\<lambda>(p, k, l, b). length b)")
  fix pat b :: bytes and n keep len
  assume "n = Index b pat" "\<not> (n < 0 \<or> \<not> (keep < len \<and> len \<le> length pat))"
  then show "((pat, keep, len, cut (slash_before b n + keep) (nat n + len) b), (pat, keep, len, b))
               \<in> measure (\<lambda>(p, k, l, b). length b)"
    using Index_bound [of b pat] slash_before_le [of b n] by (simp add: cut_def) linarith
qed simp

text \<open>A trailing pattern of three bytes; \<open>None\<close> is the early return of a single slash.\<close>

definition trailing_dotdot :: "bytes \<Rightarrow> bytes \<Rightarrow> bytes option" where
  "trailing_dotdot pat b =
     (let n = LastIndex b pat
      in if n \<ge> 0 \<and> n + 3 = int (length b) then
           let nn = LastIndexByte (take (nat n) b) CHR ''/''
           in if nn < 0 then None else Some (take (nat nn + 1) b)
         else Some b)"

definition BACKSLASH :: char where "BACKSLASH = CHR 0x5C"

definition windows_part :: "bytes \<Rightarrow> bytes" where
  "windows_part b =
     (let b1 = dot_loop [BACKSLASH, CHR ''.'', BACKSLASH] b;
          b2 = dotdot_loop [CHR ''/'', CHR ''.'', CHR ''.'', BACKSLASH] 1 4 b1;
          b3 = dotdot_loop [BACKSLASH, CHR ''.'', CHR ''.'', BACKSLASH] 0 3 b2
      in case trailing_dotdot [BACKSLASH, CHR ''.'', CHR ''.''] b3 of None \<Rightarrow> ''/'' | Some r \<Rightarrow> r)"

definition normalizePath_on :: "bool \<Rightarrow> bytes \<Rightarrow> bytes" where
  "normalizePath_on windows src =
     (let dst = decodeArgAppendNoPlus (if windows then addLeadingSlash_windows [] src else addLeadingSlash [] src) src;
          b = dotdot_loop ''/../'' 0 3 (dot_loop ''/./'' (dedup_loop [] dst))
      in case trailing_dotdot ''/..'' b of
           None \<Rightarrow> ''/''
         | Some r \<Rightarrow> if windows then windows_part r else r)"

definition normalizePath :: "bytes \<Rightarrow> bytes" where
  "normalizePath src = normalizePath_on False src"

section \<open>Hosts\<close>

datatype encoding = encodeHost | encodeZone

datatype uri_error =
  ErrorInvalidURI | MissingBracket | InvalidPort bytes | EscapeError bytes | InvalidHostError bytes

definition shouldEscape :: "char \<Rightarrow> encoding \<Rightarrow> bool" where
  "shouldEscape c mode =
     (if is_alnum c then False
      else if c \<in> set (CHR 34 # CHR 39 # ''!$&()*+,;=:[]<>'') then False
      else if c \<in> set ''-_.~'' then False
      else True)"

definition ishex :: "char \<Rightarrow> bool" where
  "ishex c \<longleftrightarrow> CHR ''0'' \<le> c \<and> c \<le> CHR ''9'' \<or> CHR ''a'' \<le> c \<and> c \<le> CHR ''f'' \<or> CHR ''A'' \<le> c \<and> c \<le> CHR ''F''"

definition unhex :: "char \<Rightarrow> nat" where
  "unhex c =
     (if CHR ''0'' \<le> c \<and> c \<le> CHR ''9'' then byte_val c - 48
      else if CHR ''a'' \<le> c \<and> c \<le> CHR ''f'' then byte_val c - 87
      else if CHR ''A'' \<le> c \<and> c \<le> CHR ''F'' then byte_val c - 55
      else 0)"

definition hex_byte :: "char \<Rightarrow> char \<Rightarrow> char" where
  "hex_byte a b = mk_byte (unhex a * 16 + unhex b)"

definition pct25 :: bytes where "pct25 = ''%25''"

text \<open>The first pass counts the percent signs and checks them.\<close>

fun unescape_check :: "encoding \<Rightarrow> bytes \<Rightarrow> uri_error + nat" where
  "unescape_check mode [] = Inr 0"
| "unescape_check mode (c # s) =
     (if c = CHR ''%'' then
        (case s of
           a # b # r \<Rightarrow>
             if \<not> ishex a \<or> \<not> ishex b then Inl (EscapeError (take 3 (c # s)))
             else if mode = encodeHost \<and> unhex a < 8 \<and> [c, a, b] \<noteq> pct25 then Inl (EscapeError [c, a, b])
             else if mode = encodeZone \<and> [c, a, b] \<noteq> pct25 \<and> hex_byte a b \<noteq> CHR '' '' \<and>
                     shouldEscape (hex_byte a b) encodeHost
             then Inl (EscapeError [c, a, b])
             else map_sum id Suc (unescape_check mode r)
         | _ \<Rightarrow> Inl (EscapeError (take 3 (c # s))))
      else if byte_val c < 128 \<and> shouldEscape c mode then Inl (InvalidHostError [c])
      else unescape_check mode s)"

fun unescape_decode :: "bytes \<Rightarrow> bytes" where
  "unescape_decode [] = []"
| "unescape_decode (c # s) =
     (if c = CHR ''%'' then
        (case s of a # b # r \<Rightarrow> hex_byte a b # unescape_decode r | _ \<Rightarrow> [])
      else c # unescape_decode s)"

definition unescape :: "bytes \<Rightarrow> encoding \<Rightarrow> uri_error + bytes" where
  "unescape s mode =
     (case unescape_check mode s of
        Inl e \<Rightarrow> Inl e
      | Inr n \<Rightarrow> if n = 0 then Inr s else Inr (unescape_decode s))"

definition validOptionalPort :: "bytes \<Rightarrow> bool" where
  "validOptionalPort port =
     (if length port = 0 then True
      else if port ! 0 \<noteq> CHR '':'' then False
      else \<forall>b\<in>set (tl port). CHR ''0'' \<le> b \<and> b \<le> CHR ''9'')"

text \<open>Unescaping works in place: \<open>s\<close> after its beginning was overwritten with \<open>t\<close>.\<close>

definition overwrite :: "bytes \<Rightarrow> bytes \<Rightarrow> bytes" where
  "overwrite s t = t @ drop (length t) s"

text \<open>The result, and for an error the bytes the argument has been left with.\<close>

definition parseHost :: "bytes \<Rightarrow> (uri_error \<times> bytes) + bytes" where
  "parseHost host =
     (let whole = (case unescape host encodeHost of Inl e \<Rightarrow> Inl (e, host) | Inr h \<Rightarrow> Inr h);
          port = LastIndexByte host CHR '':''
      in if length host > 0 \<and> host ! 0 = CHR ''['' then
           let i = LastIndexByte host CHR '']''
           in if i < 0 then Inl (MissingBracket, host)
              else if \<not> validOptionalPort (drop (nat i + 1) host) then Inl (InvalidPort (drop (nat i + 1) host), host)
              else
                let zone = Index (take (nat i) host) pct25
                in if zone \<ge> 0 then
                     let s1 = take (nat zone) host; s2 = slice (nat zone) (nat i) host; s3 = drop (nat i) host
                     in case unescape s1 encodeHost of
                          Inl e \<Rightarrow> Inl (e, host)
                        | Inr h1 \<Rightarrow>
                            (case unescape s2 encodeZone of
                               Inl e \<Rightarrow> Inl (e, overwrite s1 h1 @ s2 @ s3)
                             | Inr h2 \<Rightarrow>
                                 (case unescape s3 encodeHost of
                                    Inl e \<Rightarrow> Inl (e, overwrite s1 h1 @ overwrite s2 h2 @ s3)
                                  | Inr h3 \<Rightarrow> Inr (h1 @ h2 @ h3)))
                   else whole
         else if port \<noteq> - 1 \<and> \<not> validOptionalPort (drop (nat port) host)
         then Inl (InvalidPort (drop (nat port) host), host)
         else whole)"

section \<open>The URI\<close>

record URI =
  pathOriginal :: bytes
  scheme :: bytes
  path :: bytes
  queryString :: bytes
  hash :: bytes
  host :: bytes
  queryArgs :: Args
  parsedQueryArgs :: bool
  DisablePathNormalizing :: bool
  username :: bytes
  password :: bytes

definition URI_Reset :: "URI \<Rightarrow> URI" where
  "URI_Reset u =
     u\<lparr>pathOriginal := [], scheme := [], path := [], queryString := [], hash := [], username := [], password := [],
       host := [], queryArgs := Args_Reset (queryArgs u), parsedQueryArgs := False, DisablePathNormalizing := False\<rparr>"

text \<open>\<open>URI_CopyTo u dst\<close> is \<open>dst\<close> after \<open>u.CopyTo(dst)\<close>.\<close>

definition URI_CopyTo :: "URI \<Rightarrow> URI \<Rightarrow> URI" where
  "URI_CopyTo u dst =
     (let d = URI_Reset dst
      in d\<lparr>pathOriginal := pathOriginal d @ pathOriginal u, scheme := scheme d @ scheme u, path := path d @ path u,
           queryString := queryString d @ queryString u, hash := hash d @ hash u, host := host d @ host u,
           username := username d @ username u, password := password d @ password u,
           queryArgs := Args_CopyTo (queryArgs u) (queryArgs d), parsedQueryArgs := parsedQueryArgs u,
           DisablePathNormalizing := DisablePathNormalizing u\<rparr>)"

definition URI_SetHash :: "URI \<Rightarrow> bytes \<Rightarrow> URI" where "URI_SetHash u h = u\<lparr>hash := h\<rparr>"
definition URI_SetUsername :: "URI \<Rightarrow> bytes \<Rightarrow> URI" where "URI_SetUsername u n = u\<lparr>username := n\<rparr>"
definition URI_SetPassword :: "URI \<Rightarrow> bytes \<Rightarrow> URI" where "URI_SetPassword u p = u\<lparr>password := p\<rparr>"

definition URI_SetQueryString :: "URI \<Rightarrow> bytes \<Rightarrow> URI" where
  "URI_SetQueryString u q = u\<lparr>queryString := q, parsedQueryArgs := False\<rparr>"

definition URI_Path :: "URI \<Rightarrow> bytes" where
  "URI_Path u = (if length (path u) = 0 then ''/'' else path u)"

definition URI_SetPath :: "URI \<Rightarrow> bytes \<Rightarrow> URI" where
  "URI_SetPath u p = u\<lparr>pathOriginal := p, path := normalizePath p\<rparr>"

definition URI_Scheme :: "URI \<Rightarrow> bytes" where
  "URI_Scheme u = (if length (scheme u) = 0 then ''http'' else scheme u)"

definition URI_SetScheme :: "URI \<Rightarrow> bytes \<Rightarrow> URI" where
  "URI_SetScheme u s = u\<lparr>scheme := lowercaseBytes s\<rparr>"

definition URI_isHTTPS :: "URI \<Rightarrow> bool" where "URI_isHTTPS u \<longleftrightarrow> scheme u = ''https''"
definition URI_isHTTP :: "URI \<Rightarrow> bool" where "URI_isHTTP u \<longleftrightarrow> length (scheme u) = 0 \<or> scheme u = ''http''"

definition URI_SetHost :: "URI \<Rightarrow> bytes \<Rightarrow> URI" where
  "URI_SetHost u h = u\<lparr>host := lowercaseBytes h\<rparr>"

definition stringContainsCTLByte :: "bytes \<Rightarrow> bool" where
  "stringContainsCTLByte s \<longleftrightarrow> (\<exists>b\<in>set s. b < CHR '' '' \<or> b = CHR 0x7F)"

definition splitHostURI :: "bytes \<Rightarrow> bytes \<Rightarrow> bytes \<times> bytes \<times> bytes" where
  "splitHostURI hst uri =
     (let n = Index uri ''//''
      in if n < 0 then (''http'', hst, uri)
         else
           let sch = take (nat n) uri
           in if IndexByte sch CHR ''/'' \<ge> 0 then (''http'', hst, uri)
              else
                let sch = (if length sch > 0 \<and> sch ! (length sch - 1) = CHR '':'' then take (length sch - 1) sch else sch);
                    uri = drop (nat n + 2) uri;
                    n = IndexByte uri CHR ''/'';
                    nq = IndexByte uri CHR ''?''
                in if nq \<ge> 0 \<and> nq < n then (sch, take (nat nq) uri, drop (nat nq) uri)
                   else if n < 0 then
                     (if nq \<ge> 0 then (sch, take (nat nq) uri, drop (nat nq) uri) else (sch, uri, ''/''))
                   else (sch, take (nat n) uri, drop (nat n) uri))"

text \<open>The part of parse before the '@' of the host.\<close>

definition parse_auth :: "URI \<Rightarrow> bytes \<Rightarrow> URI \<times> bytes" where
  "parse_auth u hst =
     (let n = IndexByte hst CHR ''@''
      in if n \<ge> 0 then
           let auth = take (nat n) hst; m = IndexByte auth CHR '':''
           in (if m \<ge> 0 then u\<lparr>username := take (nat m) auth, password := drop (nat m + 1) auth\<rparr>
               else u\<lparr>username := auth, password := []\<rparr>, drop (nat n + 1) hst)
         else (u, hst))"

text \<open>The part after the host: path, query and fragment.\<close>

definition parse_rest :: "URI \<Rightarrow> bytes \<Rightarrow> URI" where
  "parse_rest u b =
     (let fragmentIndex = IndexByte b CHR ''#'';
          queryIndex = (let q = IndexByte b CHR ''?'' in if fragmentIndex \<ge> 0 \<and> q > fragmentIndex then - 1 else q);
          set_path = (\<lambda>p. u\<lparr>pathOriginal := pathOriginal u @ p, path := normalizePath (pathOriginal u @ p)\<rparr>)
      in if queryIndex < 0 \<and> fragmentIndex < 0 then set_path b
         else if queryIndex \<ge> 0 then
           let u1 = set_path (take (nat queryIndex) b)
           in if fragmentIndex < 0 then u1\<lparr>queryString := queryString u1 @ drop (nat queryIndex + 1) b\<rparr>
              else u1\<lparr>queryString := queryString u1 @ slice (nat queryIndex + 1) (nat fragmentIndex) b,
                      hash := hash u1 @ drop (nat fragmentIndex + 1) b\<rparr>
         else
           let u1 = set_path (take (nat fragmentIndex) b)
           in u1\<lparr>hash := hash u1 @ drop (nat fragmentIndex + 1) b\<rparr>)"

definition URI_parse :: "URI \<Rightarrow> bytes \<Rightarrow> bytes \<Rightarrow> bool \<Rightarrow> uri_error option \<times> URI" where
  "URI_parse u0 hst uri isTLS =
     (let u = URI_Reset u0
      in if stringContainsCTLByte uri then (Some ErrorInvalidURI, u)
         else
           let (u1, hst1, uri1) =
                 (if length hst = 0 \<or> Contains uri ''://''
                  then case splitHostURI hst uri of (s, h, r) \<Rightarrow> (URI_SetScheme u s, h, r)
                  else (u, hst, uri));
               u2 = (if isTLS then URI_SetScheme u1 ''https'' else u1);
               (u3, hst3) = parse_auth u2 hst1;
               hst4 = host u3 @ hst3
           in case parseHost hst4 of
                Inl (e, bf) \<Rightarrow> (Some e, u3\<lparr>host := bf\<rparr>)
              | Inr h \<Rightarrow> (None, parse_rest (u3\<lparr>host := lowercaseBytes h\<rparr>) uri1))"

definition URI_Parse :: "URI \<Rightarrow> bytes \<Rightarrow> bytes \<Rightarrow> uri_error option \<times> URI" where
  "URI_Parse u hst uri = URI_parse u hst uri False"

section \<open>Printing and updating\<close>

definition URI_RequestURI :: "URI \<Rightarrow> bytes" where
  "URI_RequestURI u =
     (let dst = (if DisablePathNormalizing u then pathOriginal u else appendQuotedPath [] (URI_Path u))
      in if parsedQueryArgs u \<and> Args_Len (queryArgs u) > 0 then Args_AppendBytes (queryArgs u) (dst @ ''?'')
         else if length (queryString u) > 0 then dst @ ''?'' @ queryString u
         else dst)"

definition URI_LastPathSegment :: "URI \<Rightarrow> bytes" where
  "URI_LastPathSegment u =
     (let n = LastIndexByte (URI_Path u) CHR ''/'' in if n < 0 then URI_Path u else drop (nat n + 1) (URI_Path u))"

definition appendSchemeHost :: "URI \<Rightarrow> bytes \<Rightarrow> bytes" where
  "appendSchemeHost u dst = dst @ URI_Scheme u @ ''://'' @ host u"

definition URI_AppendBytes :: "URI \<Rightarrow> bytes \<Rightarrow> bytes" where
  "URI_AppendBytes u dst =
     (let dst = appendSchemeHost u dst @ URI_RequestURI u
      in if length (hash u) > 0 then dst @ ''#'' @ hash u else dst)"

definition URI_FullURI :: "URI \<Rightarrow> bytes" where "URI_FullURI u = URI_AppendBytes u []"
definition URI_String :: "URI \<Rightarrow> bytes" where "URI_String u = URI_FullURI u"

text \<open>The result is the new buffer, \<open>None\<close> for nil, and the URI; the outer \<open>None\<close> is the panic.\<close>

definition URI_updateBytes :: "URI \<Rightarrow> bytes \<Rightarrow> bytes option \<Rightarrow> (bytes option \<times> URI) go" where
  "URI_updateBytes u newURI bf =
     (if length newURI = 0 then Some (bf, u)
      else if Index newURI ''//'' \<ge> 0 then
        (case URI_Parse u [] newURI of
           (Some e, u') \<Rightarrow> Some (None, u')
         | (None, u') \<Rightarrow>
             Some (bf, if length (scheme u) > 0 \<and> length (scheme u') = 0 then u'\<lparr>scheme := scheme u\<rparr> else u'))
      else if newURI ! 0 = CHR ''/'' then
        let bf = appendSchemeHost u [] @ newURI
        in (case URI_Parse u [] bf of (Some e, u') \<Rightarrow> Some (None, u') | (None, u') \<Rightarrow> Some (Some bf, u'))
      else if newURI ! 0 = CHR ''?'' then
        let u' = URI_SetQueryString u (drop 1 newURI) in Some (Some (URI_FullURI u'), u')
      else if newURI ! 0 = CHR ''#'' then
        let u' = URI_SetHash u (drop 1 newURI) in Some (Some (URI_FullURI u'), u')
      else
        let n = LastIndexByte (URI_Path u) CHR ''/''
        in if n < 0 then None
           else
             let bf = appendQuotedPath (appendSchemeHost u []) (take (nat n + 1) (URI_Path u)) @ newURI
             in (case URI_Parse u [] bf of (Some e, u') \<Rightarrow> Some (None, u') | (None, u') \<Rightarrow> Some (Some bf, u')))"

text \<open>The buffer is requestURI, which every later use rebuilds.\<close>

definition URI_UpdateBytes :: "URI \<Rightarrow> bytes \<Rightarrow> bytes option \<Rightarrow> (bytes option \<times> URI) go" where
  "URI_UpdateBytes u newURI requestURI = URI_updateBytes u newURI requestURI"

definition URI_Update :: "URI \<Rightarrow> bytes \<Rightarrow> bytes option \<Rightarrow> (bytes option \<times> URI) go" where
  "URI_Update u newURI requestURI = URI_UpdateBytes u newURI requestURI"

definition parseQueryArgs :: "URI \<Rightarrow> URI" where
  "parseQueryArgs u =
     (if parsedQueryArgs u then u
      else u\<lparr>queryArgs := Args_ParseBytes (queryArgs u) (queryString u), parsedQueryArgs := True\<rparr>)"

definition URI_QueryArgs :: "URI \<Rightarrow> Args \<times> URI" where
  "URI_QueryArgs u = (let u' = parseQueryArgs u in (queryArgs u', u'))"

section \<open>Normalised paths are safe\<close>

declare dedup_loop.simps [simp del] dot_loop.simps [simp del] dotdot_loop.simps [simp del]

text \<open>\<open>free q b\<close>: the path \<open>b\<close> has no inner segment \<open>q\<close>.\<close>

definition free :: "bytes \<Rightarrow> bytes \<Rightarrow> bool" where
  "free q b \<longleftrightarrow> \<not> sublist (CHR ''/'' # q @ ''/'') b"

lemma Index_free: "Index b (CHR ''/'' # q @ ''/'') < 0 \<longleftrightarrow> free q b"
  using Index_nonneg_iff [of b "CHR ''/'' # q @ ''/''"] by (auto simp: free_def)

lemma sublist_at:
  assumes "sublist p s"
  obtains i where "i + length p \<le> length s" and "\<And>k. k < length p \<Longrightarrow> s ! (i + k) = p ! k"
proof -
  from assms obtain u v where "s = u @ p @ v" by (auto simp: sublist_def)
  then show ?thesis by (intro that [of "length u"]) (simp_all add: nth_append)
qed

lemma sublistI_at:
  assumes "i + length p \<le> length s" "\<And>k. k < length p \<Longrightarrow> s ! (i + k) = p ! k"
  shows "sublist p s"
proof -
  have "take (length p) (drop i s) = p" using assms by (intro nth_equalityI) auto
  then show ?thesis by (metis append_take_drop_id sublist_def)
qed

lemma inner_segment_at_slash:
  assumes q: "CHR ''/'' \<notin> set q" and s: "sublist (CHR ''/'' # q @ ''/'') (x @ CHR ''/'' # y)" (is "sublist ?p ?s")
  shows "sublist ?p (x @ ''/'') \<or> sublist ?p (CHR ''/'' # y)"
proof -
  from s obtain i where i: "i + length ?p \<le> length ?s" and nth: "\<And>k. k < length ?p \<Longrightarrow> ?s ! (i + k) = ?p ! k"
    by (rule sublist_at) blast
  consider "i + length ?p \<le> length x + 1" | "length x \<le> i" | "i < length x" "length x < i + length q + 1"
    by fastforce
  then show ?thesis
  proof cases
    case 1
    then have "sublist ?p (take (length x + 1) ?s)"
      by (intro sublistI_at [of i]) (use nth i in \<open>simp_all del: take_append\<close>)
    then show ?thesis by simp
  next
    case 2
    then have "?s ! (i + k) = drop (length x) ?s ! (i - length x + k)" if "k < length ?p" for k
      using i that by (subst nth_drop) auto
    with 2 have "sublist ?p (drop (length x) ?s)"
      by (intro sublistI_at [of "i - length x"]) (use i nth in \<open>simp_all del: drop_append\<close>)
    then show ?thesis by simp
  next
    case 3
    define k where "k = length x - i"
    with 3 have "k < length ?p" "?p ! k = q ! (k - 1)" "k - 1 < length q"
      by (auto simp: nth_Cons' nth_append)
    moreover have "?s ! (i + k) = CHR ''/''" using 3 by (simp add: k_def nth_append)
    ultimately show ?thesis using nth [of k] q by (metis nth_mem)
  qed
qed

text \<open>One removal: what is left of a path is a beginning and an end of it that meet in a slash.\<close>

definition shortens :: "bytes \<Rightarrow> bytes \<Rightarrow> bool" where
  "shortens b b' \<longleftrightarrow> (\<exists>x y. b' = x @ CHR ''/'' # y \<and> prefix (x @ ''/'') b \<and> suffix (CHR ''/'' # y) b)"

definition rooted :: "bytes \<Rightarrow> bool" where
  "rooted b \<longleftrightarrow> b \<noteq> [] \<and> b ! 0 = CHR ''/''"

lemma shortens_free: "shortens b b' \<Longrightarrow> CHR ''/'' \<notin> set q \<Longrightarrow> free q b \<Longrightarrow> free q b'"
  unfolding shortens_def free_def
  using inner_segment_at_slash [of q] prefix_imp_sublist suffix_imp_sublist sublist_order.order.trans by blast

lemma shortens_rooted: "shortens b b' \<Longrightarrow> rooted b \<Longrightarrow> rooted b'"
  unfolding shortens_def rooted_def by (cases b; cases b') (auto simp: append_eq_Cons_conv Cons_eq_append_conv prefix_def)

lemma Index_split:
  assumes "0 \<le> Index b p"
  shows "b = take (nat (Index b p)) b @ p @ drop (nat (Index b p) + length p) b"
  using Index_nonneg [OF assms] by (metis append_take_drop_id drop_drop add.commute)

lemma cut_append: "cut (length x) (length x + length m) (x @ m @ y) = x @ y"
  by (simp add: cut_def)

lemma dot_shortens:
  assumes "0 \<le> Index b ''/./''"
  shows "shortens b (cut (nat (Index b ''/./'')) (nat (Index b ''/./'') + 2) b)"
proof -
  define n where "n = nat (Index b ''/./'')"
  define x y where "x = take n b" and "y = drop (n + 3) b"
  have b: "b = x @ ''/.'' @ CHR ''/'' # y" using Index_split [OF assms] unfolding x_def y_def n_def by (simp add: eval_nat_numeral)
  have n: "n = length x" using Index_nonneg [OF assms] by (simp add: x_def n_def)
  have "cut n (n + 2) b = x @ CHR ''/'' # y" using cut_append [of x "''/.''" "CHR ''/'' # y"] n b by simp
  moreover have "prefix (x @ ''/'') b" and "suffix (CHR ''/'' # y) b" by (auto simp: b prefix_def suffix_def)
  ultimately show ?thesis unfolding shortens_def n_def by blast
qed

lemma LastIndexByte_negative: "LastIndexByte s c < 0 \<longleftrightarrow> c \<notin> set s"
proof -
  have "length (takeWhile (\<lambda>x. x \<noteq> c) (rev s)) < length (rev s) \<longleftrightarrow> c \<in> set (rev s)"
    using IndexByte_negative [of "rev s" c] by (auto simp: IndexByte_def Let_def split: if_splits)
  then show ?thesis by (auto simp: LastIndexByte_def Let_def)
qed

lemma LastIndexByte_append: "c \<notin> set v \<Longrightarrow> LastIndexByte (u @ c # v) c = int (length u)"
  using takeWhile_neq_append [of c "rev v" "rev u"] by (simp add: LastIndexByte_def)

lemma dotdot_shortens:
  assumes "0 \<le> Index b ''/../''" and "rooted b"
  shows "shortens b (cut (slash_before b (Index b ''/../'')) (nat (Index b ''/../'') + 3) b)"
proof -
  define n where "n = nat (Index b ''/../'')"
  define z y where "z = take n b" and "y = drop (n + 4) b"
  have b: "b = z @ ''/..'' @ CHR ''/'' # y" using Index_split [OF assms(1)] unfolding z_def y_def n_def by (simp add: eval_nat_numeral)
  have n: "n = length z" using Index_nonneg [OF assms(1)] by (simp add: z_def n_def)
  have suf: "suffix (CHR ''/'' # y) b" by (auto simp: b suffix_def)
  have sb: "slash_before b (Index b ''/../'') = nat (LastIndexByte z CHR ''/'')"
    by (simp add: slash_before_def z_def n_def)
  have "\<exists>x. cut (nat (LastIndexByte z CHR ''/'')) (n + 3) b = x @ CHR ''/'' # y \<and> prefix (x @ ''/'') b"
  proof (cases "CHR ''/'' \<in> set z")
    case True
    then obtain u v where z: "z = u @ CHR ''/'' # v" "CHR ''/'' \<notin> set v" by (meson split_list_last)
    have "cut (length u) (n + 3) b = u @ CHR ''/'' # y"
      using cut_append [of u "CHR ''/'' # v @ ''/..''" "CHR ''/'' # y"] n by (simp add: b z eval_nat_numeral)
    then show ?thesis using LastIndexByte_append [OF z(2), of u] by (auto simp: b z prefix_def)
  next
    case False
    then have "nat (LastIndexByte z CHR ''/'') = 0" using LastIndexByte_negative [of z "CHR ''/''"] by simp
    moreover have "cut 0 (n + 3) b = CHR ''/'' # y" using n by (simp add: cut_def b)
    moreover have "prefix ''/'' b" using assms(2) by (cases b) (auto simp: rooted_def)
    ultimately show ?thesis by (metis append_Nil)
  qed
  then show ?thesis using suf unfolding shortens_def sb n_def by blast
qed

lemma dot_loop_inv:
  "rooted b \<Longrightarrow> free [] b \<Longrightarrow>
     rooted (dot_loop ''/./'' b) \<and> free [] (dot_loop ''/./'' b) \<and> free ''.'' (dot_loop ''/./'' b)"
proof (induction "''/./''" b rule: dot_loop.induct)
  case (1 b)
  show ?case
  proof (cases "Index b ''/./'' < 0")
    case True
    then show ?thesis using 1(2,3) Index_free [of b "''.''"] by (simp add: dot_loop.simps [of "''/./''" b])
  next
    case False
    then have "shortens b (cut (nat (Index b ''/./'')) (nat (Index b ''/./'') + 2) b)" by (intro dot_shortens) simp
    then show ?thesis using 1(1) [OF refl] 1(2,3) False shortens_rooted shortens_free [of b _ "[]"]
      by (subst (1 2 3) dot_loop.simps) (simp add: Let_def)
  qed
qed

lemma dotdot_loop_inv:
  "rooted b \<Longrightarrow> free [] b \<Longrightarrow> free ''.'' b \<Longrightarrow>
     rooted (dotdot_loop ''/../'' 0 3 b) \<and> free [] (dotdot_loop ''/../'' 0 3 b) \<and>
     free ''.'' (dotdot_loop ''/../'' 0 3 b) \<and> free ''..'' (dotdot_loop ''/../'' 0 3 b)"
proof (induction "''/../''" "0 :: nat" "3 :: nat" b rule: dotdot_loop.induct)
  case (1 b)
  show ?case
  proof (cases "Index b ''/../'' < 0")
    case True
    then show ?thesis
      using 1(2-) Index_free [of b "''..''"] by (simp add: dotdot_loop.simps [of "''/../''" 0 3 b])
  next
    case False
    then have "shortens b (cut (slash_before b (Index b ''/../'')) (nat (Index b ''/../'') + 3) b)"
      using 1(2) by (intro dotdot_shortens) simp_all
    then show ?thesis
      using 1(1) [OF refl] 1(2-) False shortens_rooted shortens_free [of b _ "[]"] shortens_free [of b _ "''.''"]
      by (subst (1 2 3 4) dotdot_loop.simps) (simp add: Let_def)
  qed
qed

text \<open>Removing repeated slashes, without the accumulator.\<close>

fun squeeze :: "bytes \<Rightarrow> bytes" where
  "squeeze [] = []"
| "squeeze (c # s) = (if prefix ''//'' (c # s) then squeeze s else c # squeeze s)"

lemma squeeze_Index:
  "Index b ''//'' < 0 \<Longrightarrow> squeeze b = b"
  "0 \<le> Index b ''//'' \<Longrightarrow> squeeze b = take (nat (Index b ''//'')) b @ squeeze (drop (nat (Index b ''//'') + 1) b)"
  by (induction b) (auto simp: Let_def nat_add_distrib split: if_splits)

lemma dedup_loop_eq: "dedup_loop d b = d @ squeeze b"
proof (induction d b rule: dedup_loop.induct)
  case (1 d b)
  show ?case
    using 1 [OF refl] squeeze_Index [of b] by (subst dedup_loop.simps) (auto simp: Let_def)
qed

lemma squeeze_free: "free [] (squeeze b) \<and> (b \<noteq> [] \<longrightarrow> squeeze b \<noteq> [] \<and> squeeze b ! 0 = b ! 0)"
proof (induction b)
  case (Cons c s)
  then show ?case
    by (cases s) (auto simp: free_def sublist_Cons_right prefix_Cons nth_Cons split: nat.splits)
qed (simp add: free_def)

lemma LastIndex_suffix: "p \<noteq> [] \<Longrightarrow> suffix p b \<Longrightarrow> LastIndex b p + int (length p) = int (length b)"
proof (induction b)
  case (Cons c s)
  show ?case
  proof (cases "suffix p s")
    case True
    then have "length p \<le> length s" by (rule suffix_length_le)
    with Cons.IH [OF Cons.prems(1) True] show ?thesis by (simp add: Let_def)
  next
    case False
    with Cons.prems(2) have p: "p = c # s" by (auto simp: suffix_Cons)
    have "LastIndex s' p < 0" if "length s' < length p" for s'
      using that by (induction s') (auto simp: Let_def dest: prefix_length_le)
    from this [of s] show ?thesis by (simp add: p Let_def)
  qed
qed simp

lemma LastIndex_prefix:
  "0 \<le> LastIndex b p \<Longrightarrow> LastIndex b p + int (length p) = int (length b) \<Longrightarrow> suffix p b"
proof (induction b)
  case (Cons c s)
  show ?case
  proof (cases "0 \<le> LastIndex s p")
    case True
    then show ?thesis using Cons by (simp add: Let_def suffix_Cons)
  next
    case False
    then have "prefix p (c # s)" "length p = length (c # s)" using Cons.prems by (auto simp: Let_def split: if_splits)
    then obtain zs where "c # s = p @ zs" "length (p @ zs) = length p" by (metis prefix_def)
    then show ?thesis by simp
  qed
qed (auto split: if_splits)

lemma free_prefix: "prefix b' b \<Longrightarrow> free q b \<Longrightarrow> free q b'"
  unfolding free_def using prefix_imp_sublist sublist_order.order.trans by blast

lemma trailing_dotdot_inv:
  assumes "rooted b" and "trailing_dotdot ''/..'' b = Some r"
  shows "rooted r \<and> prefix r b \<and> \<not> suffix ''/..'' r"
proof (cases "0 \<le> LastIndex b ''/..'' \<and> LastIndex b ''/..'' + 3 = int (length b)")
  case True
  define z where "z = take (nat (LastIndex b ''/..'')) b"
  define nn where "nn = LastIndexByte z CHR ''/''"
  from True assms(2) have r: "r = take (nat nn + 1) b" and nn: "0 \<le> nn"
    by (auto simp: trailing_dotdot_def Let_def z_def nn_def split: if_splits)
  from nn have "CHR ''/'' \<in> set z" using LastIndexByte_negative [of z "CHR ''/''"] by (simp add: nn_def)
  then obtain u v where z: "z = u @ CHR ''/'' # v" "CHR ''/'' \<notin> set v" by (meson split_list_last)
  then have "nn = int (length u)" by (simp add: nn_def LastIndexByte_append)
  moreover have "b = u @ CHR ''/'' # v @ drop (nat (LastIndex b ''/..'')) b"
    using z(1) append_take_drop_id [of "nat (LastIndex b ''/..'')" b] by (simp add: z_def)
  ultimately have r': "r = u @ ''/''" by (metis r append_Cons append_Nil append_assoc append_eq_conv_conj
        length_append_singleton nat_int Suc_eq_plus1)
  have "prefix r b" by (simp add: r take_is_prefix)
  moreover have "rooted r" using assms(1) by (auto simp: r rooted_def)
  moreover have "last r \<noteq> CHR ''.''" by (simp add: r')
  then have "\<not> suffix ''/..'' r" by (auto simp: suffix_def)
  ultimately show ?thesis by blast
next
  case False
  with assms(2) have "r = b" by (simp only: trailing_dotdot_def Let_def) simp
  moreover have "\<not> suffix ''/..'' b"
    using False LastIndex_suffix [of "''/..''" b] suffix_length_le [of "''/..''" b] by auto
  ultimately show ?thesis using assms(1) by simp
qed

text \<open>A path is a sequence of segments that end in a slash, and the rest.\<close>

lemma segments:
  obtains segs rest where "b = concat (map (\<lambda>s. s @ ''/'') segs) @ rest" "CHR ''/'' \<notin> set rest"
    "\<forall>s\<in>set segs. CHR ''/'' \<notin> set s"
proof (induction b arbitrary: thesis rule: length_induct)
  case (1 b)
  show ?case
  proof (cases "CHR ''/'' \<in> set b")
    case True
    then obtain x y where b: "b = x @ CHR ''/'' # y" "CHR ''/'' \<notin> set x" by (meson split_list_first)
    then have "length y < length b" by simp
    with 1(1) obtain segs rest where "y = concat (map (\<lambda>s. s @ ''/'') segs) @ rest" "CHR ''/'' \<notin> set rest"
      "\<forall>s\<in>set segs. CHR ''/'' \<notin> set s" by blast
    with b show ?thesis by (intro 1(2) [of "x # segs" rest]) auto
  next
    case False
    then show ?thesis by (intro 1(2) [of "[]" b]) auto
  qed
qed

lemma segment_inner:
  assumes "b = CHR ''/'' # concat (map (\<lambda>s. s @ ''/'') segs) @ rest" and "s \<in> set segs"
  shows "\<not> free s b"
proof -
  from assms(2) obtain us vs where segs: "segs = us @ s # vs" by (meson split_list)
  have "suffix ''/'' (CHR ''/'' # concat (map (\<lambda>s. s @ ''/'') us))"
    by (induction us rule: rev_induct) (auto simp: suffix_def)
  then obtain w where "CHR ''/'' # concat (map (\<lambda>s. s @ ''/'') us) = w @ ''/''" by (auto simp: suffix_def)
  then have "b = w @ (CHR ''/'' # s @ ''/'') @ (concat (map (\<lambda>s. s @ ''/'') vs) @ rest)"
    using assms(1) segs by (simp flip: append_Cons append_assoc)
  then show ?thesis unfolding free_def sublist_def by blast
qed

text \<open>The decoder of paths, without its accumulator and its fast path.\<close>

fun decode_np :: "bytes \<Rightarrow> bytes" where
  "decode_np [] = []"
| "decode_np (c # src) =
     (if c = CHR ''%'' then
        (case src of
           a # b # rest \<Rightarrow>
             (if hex2intTable a = 16 \<or> hex2intTable b = 16 then CHR ''%'' # decode_np (a # b # rest)
              else mk_byte (push_bit 4 (hex2intTable a) OR hex2intTable b) # decode_np rest)
         | _ \<Rightarrow> c # src)
      else c # decode_np src)"

lemma decode_slow_noplus_eq: "decode_slow_noplus dst s = dst @ decode_np s"
  by (induction dst s rule: decode_slow_noplus.induct) (auto simp: Let_def split: list.split)

lemma decode_np_plain: "CHR ''%'' \<notin> set xs \<Longrightarrow> decode_np (xs @ ys) = xs @ decode_np ys"
  by (induction xs) auto

lemma decodeArgAppendNoPlus_eq: "decodeArgAppendNoPlus dst src = dst @ decode_np src"
proof (cases "CHR ''%'' \<in> set src")
  case True
  then obtain xs ys where "src = xs @ CHR ''%'' # ys" "CHR ''%'' \<notin> set xs" by (meson split_list_first)
  then show ?thesis
    using decode_np_plain [of xs "CHR ''%'' # ys"]
    by (simp add: decodeArgAppendNoPlus_def IndexByte_append decode_slow_noplus_eq)
next
  case False
  then show ?thesis using decode_np_plain [of src "[]"] by (simp add: decodeArgAppendNoPlus_def IndexByte_none)
qed

lemma decoded_rooted: "rooted (addLeadingSlash [] src @ decode_np src)"
  by (cases src) (auto simp: addLeadingSlash_def rooted_def)

lemma normalizePath_eq:
  "normalizePath src =
     (case trailing_dotdot ''/..'' (dotdot_loop ''/../'' 0 3 (dot_loop ''/./'' (squeeze (addLeadingSlash [] src @ decode_np src))))
      of None \<Rightarrow> ''/'' | Some r \<Rightarrow> r)"
  by (simp add: normalizePath_def normalizePath_on_def Let_def dedup_loop_eq decodeArgAppendNoPlus_eq split: option.splits)

text \<open>Claim C20: whatever bytes a client sends, percent-encoded ones included, the normalised path starts
  with a slash, has no empty segment and no segment that is a single dot before its last one, and none
  of its segments is a double dot: it cannot leave the root.\<close>

theorem normalizePath_safe:
  "\<exists>segs rest. normalizePath src = CHR ''/'' # concat (map (\<lambda>s. s @ ''/'') segs) @ rest \<and>
     CHR ''/'' \<notin> set (concat segs) \<and> [] \<notin> set segs \<and> ''.'' \<notin> set segs \<and> ''..'' \<notin> set segs \<and>
     CHR ''/'' \<notin> set rest \<and> rest \<noteq> ''..''"
proof -
  define b0 where "b0 = squeeze (addLeadingSlash [] src @ decode_np src)"
  define b where "b = dotdot_loop ''/../'' 0 3 (dot_loop ''/./'' b0)"
  have "rooted b0" "free [] b0"
    using squeeze_free decoded_rooted [of src] unfolding b0_def rooted_def by auto
  then have b: "rooted b" "free [] b" "free ''.'' b" "free ''..'' b"
    using dot_loop_inv [of b0] dotdot_loop_inv [of "dot_loop ''/./'' b0"] by (simp_all add: b_def)
  have nb: "normalizePath src = (case trailing_dotdot ''/..'' b of None \<Rightarrow> ''/'' | Some r \<Rightarrow> r)"
    by (simp only: normalizePath_eq b_def b0_def)
  show ?thesis
  proof (cases "trailing_dotdot ''/..'' b")
    case None
    then show ?thesis using nb by (intro exI [of _ "[]"]) simp
  next
    case (Some r)
    with b(1) have r: "rooted r" "prefix r b" "\<not> suffix ''/..'' r" by (auto dest: trailing_dotdot_inv)
    then have fr: "free [] r" "free ''.'' r" "free ''..'' r" using b free_prefix by blast+
    from r(1) obtain t where t: "r = CHR ''/'' # t" by (cases r) (auto simp: rooted_def)
    obtain segs rest where s: "t = concat (map (\<lambda>s. s @ ''/'') segs) @ rest" "CHR ''/'' \<notin> set rest"
      "\<forall>s\<in>set segs. CHR ''/'' \<notin> set s" by (rule segments)
    have "free q r \<Longrightarrow> q \<notin> set segs" for q using segment_inner [of r segs rest q] t s(1) by blast
    with fr have "[] \<notin> set segs" "''.'' \<notin> set segs" "''..'' \<notin> set segs" by blast+
    moreover have "rest \<noteq> ''..''"
    proof
      assume "rest = ''..''"
      moreover have "suffix ''/'' (CHR ''/'' # concat (map (\<lambda>s. s @ ''/'') segs))"
        by (induction segs rule: rev_induct) (auto simp: suffix_def)
      ultimately show False using r(3) s(1) t by (auto simp: suffix_def)
    qed
    ultimately show ?thesis using nb Some s t by (intro exI [of _ segs] exI [of _ rest]) auto
  qed
qed

section \<open>Printing and parsing\<close>

definition normal_path :: "bytes \<Rightarrow> bool" where
  "normal_path p \<longleftrightarrow> rooted p \<and> free [] p \<and> free ''.'' p \<and> free ''..'' p \<and> \<not> suffix ''/..'' p"

lemma append_quoted_path_loop_eq:
  "append_quoted_path_loop dst s = dst @ concat (map (\<lambda>c. if quotedPathShouldEscape c then percent_encode c else [c]) s)"
  by (induction dst s rule: append_quoted_path_loop.induct) auto

lemma decode_np_percent: "decode_np (percent_encode c @ r) = c # decode_np r"
proof -
  have "decode_np (CHR ''%'' # upperhex ! x # upperhex ! y # r) = mk_byte (16 * x + y) # decode_np r"
    if "x < 16" "y < 16" for x y using that by (simp add: hex2int_upperhex push_bit_or_nat)
  from this [OF nibbles(1) [of c], of "byte_val c mod 16"] nibbles(2) [of c] show ?thesis
    by (simp add: percent_encode_def and_15 drop_bit_4 del: decode_np.simps(2))
qed

lemma path_not_escaped: "\<not> quotedPathShouldEscape c \<Longrightarrow> c \<notin> set ''%?#'' \<and> CHR 32 < c \<and> c \<noteq> CHR 0x7F"
  by (auto simp: quotedPathShouldEscape_def quotedArgShouldEscape_def is_alnum_def byte_order)

lemma decode_np_quoted:
  "decode_np (concat (map (\<lambda>c. if quotedPathShouldEscape c then percent_encode c else [c]) s)) = s"
proof (induction s)
  case (Cons c s)
  then show ?case using decode_np_percent [of c] path_not_escaped [of c] by (simp del: decode_np.simps(2)) simp
qed simp

lemma quoted_rooted: "rooted p \<Longrightarrow> appendQuotedPath [] p ! 0 = CHR ''/'' \<and> appendQuotedPath [] p \<noteq> [] \<and>
     decode_np (appendQuotedPath [] p) = p"
  using decode_np_quoted [of p]
  by (cases p) (auto simp: appendQuotedPath_def append_quoted_path_loop_eq rooted_def quotedPathShouldEscape_def)

lemma normalizePath_quoted:
  assumes "normal_path p"
  shows "normalizePath (appendQuotedPath [] p) = p"
proof -
  from assms have "squeeze p = p" "dot_loop ''/./'' p = p" "dotdot_loop ''/../'' 0 3 p = p"
    using squeeze_Index(1) [of p] Index_free [of p "[]"] Index_free [of p "''.''"] Index_free [of p "''..''"]
    by (simp_all add: normal_path_def dot_loop.simps [of _ p] dotdot_loop.simps [of _ _ _ p])
  moreover have "trailing_dotdot ''/..'' p = Some p"
    using assms LastIndex_prefix [of p "''/..''"] by (auto simp: trailing_dotdot_def Let_def normal_path_def)
  ultimately show ?thesis using quoted_rooted [of p] assms by (simp add: normalizePath_eq addLeadingSlash_def normal_path_def)
qed

lemma IndexByte_skip:
  "c \<notin> set xs \<Longrightarrow> IndexByte (xs @ ys) c = (if c \<in> set ys then int (length xs) + IndexByte ys c else - 1)"
proof -
  assume c: "c \<notin> set xs"
  show ?thesis
  proof (cases "c \<in> set ys")
    case True
    then obtain u v where ys: "ys = u @ c # v" "c \<notin> set u" by (meson split_list_first)
    with c show ?thesis using IndexByte_append [of c "xs @ u" v] IndexByte_append [of c u v] by simp
  next
    case False
    with c show ?thesis by (simp add: IndexByte_none)
  qed
qed

lemma Index_slashes: "CHR ''/'' \<notin> set x \<Longrightarrow> Index (x @ ''//'' @ y) ''//'' = int (length x)"
  by (induction x) auto

lemma percent_encode_chars: "d \<in> set (percent_encode c) \<Longrightarrow> d \<notin> set ''?#'' \<and> CHR 32 < d \<and> d \<noteq> CHR 0x7F"
proof -
  have "upperhex ! x \<notin> set ''?#'' \<and> CHR 32 < upperhex ! x \<and> upperhex ! x \<noteq> CHR 0x7F" if "x < 16" for x
    using that by (auto dest!: less_16_cases simp: upperhex_def byte_order)
  from this [of "byte_val c div 16"] this [of "byte_val c mod 16"] nibbles(1) [of c]
  show "d \<in> set (percent_encode c) \<Longrightarrow> ?thesis"
    by (auto simp: percent_encode_def and_15 drop_bit_4 byte_order)
qed

lemma quoted_chars:
  "d \<in> set (concat (map (\<lambda>c. if quotedPathShouldEscape c then percent_encode c else [c]) p)) \<Longrightarrow>
     d \<noteq> CHR ''?'' \<and> d \<noteq> CHR ''#'' \<and> \<not> (d < CHR '' '' \<or> d = CHR 0x7F)"
  using percent_encode_chars path_not_escaped by (fastforce split: if_splits)

lemma quoted_path_chars:
  "rooted p \<Longrightarrow> d \<in> set (appendQuotedPath [] p) \<Longrightarrow>
     d \<noteq> CHR ''?'' \<and> d \<noteq> CHR ''#'' \<and> \<not> (d < CHR '' '' \<or> d = CHR 0x7F)"
  using quoted_chars [of d p] by (auto simp: appendQuotedPath_def append_quoted_path_loop_eq rooted_def)

lemma splitHostURI_full:
  assumes "CHR ''/'' \<notin> set s" "set h \<inter> {CHR ''/'', CHR ''?''} = {}" "q \<noteq> []" "q ! 0 = CHR ''/''"
  shows "splitHostURI [] (s @ ''://'' @ h @ q) = (s, h, q)"
proof -
  have i: "Index (s @ ''://'' @ h @ q) ''//'' = int (length s + 1)"
    using Index_slashes [of "s @ '':''" "h @ q"] assms(1) by simp
  obtain r where q: "q = CHR ''/'' # r" using assms(3,4) by (cases q) auto
  have "IndexByte (h @ q) CHR ''/'' = int (length h)" using assms(2) by (simp add: q IndexByte_append)
  moreover have "\<not> (0 \<le> IndexByte (h @ q) CHR ''?'' \<and> IndexByte (h @ q) CHR ''?'' < int (length h))"
    using assms(2) IndexByte_ge [of q "CHR ''?''"] IndexByte_negative [of q "CHR ''?''"] IndexByte_skip [of "CHR ''?''" h q] by auto
  ultimately show ?thesis
    unfolding splitHostURI_def i Let_def using assms(1) IndexByte_none [of "CHR ''/''" "s @ '':''"]
    by (auto simp: nat_add_distrib)
qed

text \<open>The query and the fragment as they are printed.\<close>

definition tail_text :: "bytes \<Rightarrow> bytes \<Rightarrow> bytes" where
  "tail_text q h = (if q \<noteq> [] then ''?'' @ q else []) @ (if h \<noteq> [] then ''#'' @ h else [])"

lemma parse_rest_full:
  assumes "set p \<inter> {CHR ''?'', CHR ''#''} = {}" "CHR ''#'' \<notin> set q"
    and "pathOriginal u = []" "queryString u = []" "hash u = []"
  shows "parse_rest u (p @ tail_text q h) = u\<lparr>pathOriginal := p, path := normalizePath p, queryString := q, hash := h\<rparr>"
proof -
  have "IndexByte (p @ CHR ''?'' # q) CHR ''#'' = - 1" using assms(1,2) by (intro IndexByte_none) auto
  moreover have "IndexByte (p @ CHR ''?'' # q @ CHR ''#'' # h) CHR ''#'' = int (length p + 1 + length q)"
    using assms(1,2) IndexByte_append [of "CHR ''#''" "p @ CHR ''?'' # q" h] by simp
  moreover have "IndexByte (p @ CHR ''?'' # x) CHR ''?'' = int (length p)"
    "IndexByte (p @ CHR ''#'' # x) CHR ''#'' = int (length p)" for x using assms(1) by (simp_all add: IndexByte_append)
  moreover have "IndexByte p CHR ''?'' = - 1" "IndexByte p CHR ''#'' = - 1" using assms(1) by (simp_all add: IndexByte_none)
  moreover have "IndexByte (p @ CHR ''#'' # h) CHR ''?'' = - 1 \<or> int (length p) < IndexByte (p @ CHR ''#'' # h) CHR ''?''"
    using IndexByte_skip [of "CHR ''?''" "p @ ''#''" h] IndexByte_negative [of h "CHR ''?''"] assms(1) by auto
  ultimately have "parse_rest u (p @ CHR ''?'' # q) = u\<lparr>pathOriginal := p, path := normalizePath p, queryString := q\<rparr>"
    "parse_rest u (p @ CHR ''?'' # q @ CHR ''#'' # h) =
       u\<lparr>pathOriginal := p, path := normalizePath p, queryString := q, hash := h\<rparr>"
    "parse_rest u (p @ CHR ''#'' # h) = u\<lparr>pathOriginal := p, path := normalizePath p, hash := h\<rparr>"
    "parse_rest u p = u\<lparr>pathOriginal := p, path := normalizePath p\<rparr>"
    using assms(3-5) by (simp_all add: parse_rest_def Let_def slice_def nat_add_distrib) auto
  then show ?thesis using assms(4,5) by (cases "q = []"; cases "h = []") (simp_all add: tail_text_def)
qed

lemma ctl_append: "stringContainsCTLByte (x @ y) \<longleftrightarrow> stringContainsCTLByte x \<or> stringContainsCTLByte y"
  by (auto simp: stringContainsCTLByte_def)

lemma ctl_Cons:
  "\<not> (c < CHR '' '' \<or> c = CHR 0x7F) \<Longrightarrow> stringContainsCTLByte (c # y) \<longleftrightarrow> stringContainsCTLByte y"
  by (simp add: stringContainsCTLByte_def)

lemma ctl_tail_text: "stringContainsCTLByte (tail_text q h) \<longleftrightarrow> stringContainsCTLByte (q @ h)"
proof -
  have "\<not> (CHR ''?'' < CHR '' '' \<or> CHR ''?'' = CHR 0x7F)" "\<not> (CHR ''#'' < CHR '' '' \<or> CHR ''#'' = CHR 0x7F)"
    by (simp_all add: byte_order)
  moreover have "\<not> stringContainsCTLByte []" by (simp add: stringContainsCTLByte_def)
  ultimately show ?thesis by (simp add: tail_text_def ctl_append ctl_Cons)
qed

lemma URI_Parse_steps:
  assumes "\<not> stringContainsCTLByte t" "splitHostURI [] t = (s, h, r)" "lowercaseBytes s = s"
    and "IndexByte h CHR ''@'' = - 1" "parseHost h = Inr h" "lowercaseBytes h = h"
  shows "URI_Parse v [] t = (None, parse_rest ((URI_Reset v)\<lparr>scheme := s, host := h\<rparr>) r)"
proof -
  have "host (URI_Reset v) = []" by (simp add: URI_Reset_def)
  with assms show ?thesis by (simp add: URI_Parse_def URI_parse_def URI_SetScheme_def parse_auth_def)
qed

text \<open>Claim C22: parsing what FullURI prints gives back scheme, host, path, query and fragment, whatever
  the receiver held before. The path may be any normalised path: quoting and decoding cancel.\<close>

theorem URI_FullURI_Parse:
  assumes "scheme u \<noteq> []" "CHR ''/'' \<notin> set (scheme u)" "lowercaseBytes (scheme u) = scheme u"
    and "parseHost (host u) = Inr (host u)" "set (host u) \<inter> {CHR ''/'', CHR ''?'', CHR ''@''} = {}"
    and "lowercaseBytes (host u) = host u"
    and "normal_path (path u)" "CHR ''#'' \<notin> set (queryString u)"
    and "\<not> stringContainsCTLByte (scheme u @ host u @ queryString u @ hash u)"
    and "\<not> parsedQueryArgs u" "\<not> DisablePathNormalizing u"
  shows "URI_Parse v [] (URI_FullURI u) =
     (None, (URI_Reset v)\<lparr>scheme := scheme u, host := host u, pathOriginal := appendQuotedPath [] (path u),
        path := path u, queryString := queryString u, hash := hash u\<rparr>)"
proof -
  define p where "p = appendQuotedPath [] (path u)"
  from assms(7) have r: "rooted (path u)" by (simp add: normal_path_def)
  have p: "p \<noteq> []" "p ! 0 = CHR ''/''" "normalizePath p = path u" "set p \<inter> {CHR ''?'', CHR ''#''} = {}"
    using quoted_rooted [OF r] quoted_path_chars [OF r] normalizePath_quoted [OF assms(7)] unfolding p_def by auto
  have full: "URI_FullURI u = scheme u @ ''://'' @ host u @ p @ tail_text (queryString u) (hash u)" (is "_ = ?t")
    using assms(1,10,11) r by (simp add: URI_FullURI_def URI_AppendBytes_def appendSchemeHost_def URI_Scheme_def URI_RequestURI_def
        URI_Path_def tail_text_def p_def rooted_def)
  have "\<not> stringContainsCTLByte p"
    using quoted_path_chars [OF r] unfolding stringContainsCTLByte_def p_def by blast
  moreover have "\<not> stringContainsCTLByte ''://''" by (simp add: stringContainsCTLByte_def byte_order)
  ultimately have ctl: "\<not> stringContainsCTLByte ?t" using assms(9) unfolding ctl_append ctl_tail_text by blast
  have "splitHostURI [] ?t = (scheme u, host u, p @ tail_text (queryString u) (hash u))"
    using assms(2,5) p(1,2) by (intro splitHostURI_full) (auto simp: nth_append)
  moreover have "IndexByte (host u) CHR ''@'' = - 1" using assms(5) by (simp add: IndexByte_none)
  ultimately have "URI_Parse v [] ?t =
      (None, parse_rest ((URI_Reset v)\<lparr>scheme := scheme u, host := host u\<rparr>) (p @ tail_text (queryString u) (hash u)))"
    using ctl assms(3,4,6) by (intro URI_Parse_steps)
  moreover have "parse_rest ((URI_Reset v)\<lparr>scheme := scheme u, host := host u\<rparr>) (p @ tail_text (queryString u) (hash u)) =
      (URI_Reset v)\<lparr>scheme := scheme u, host := host u, pathOriginal := p, path := path u,
         queryString := queryString u, hash := hash u\<rparr>"
    using p(3,4) assms(8) by (subst parse_rest_full) (simp_all add: URI_Reset_def)
  ultimately show ?thesis by (simp only: full p_def)
qed

theorem URI_FullURI_Parse_witness:
  "let u = \<lparr>pathOriginal = [], scheme = ''https'', path = ''/a b/.c?'', queryString = ''x=1'', hash = ''top'',
             host = ''example.org:8080'', queryArgs = \<lparr>args = ([], []), buf = []\<rparr>, parsedQueryArgs = False,
             DisablePathNormalizing = False, username = ''me'', password = []\<rparr>
   in URI_FullURI u = ''https://example.org:8080/a%20b/.c%3F?x=1#top'' \<and>
      path (snd (URI_Parse u [] (URI_FullURI u))) = ''/a b/.c?''"
proof -
  define u where "u = \<lparr>pathOriginal = [], scheme = ''https'', path = ''/a b/.c?'', queryString = ''x=1'', hash = ''top'',
             host = ''example.org:8080'', queryArgs = \<lparr>args = ([], []), buf = []\<rparr>, parsedQueryArgs = False,
             DisablePathNormalizing = False, username = ''me'', password = []\<rparr>"
  have "URI_Parse u [] (URI_FullURI u) =
     (None, (URI_Reset u)\<lparr>scheme := scheme u, host := host u, pathOriginal := appendQuotedPath [] (path u),
        path := path u, queryString := queryString u, hash := hash u\<rparr>)"
  proof (rule URI_FullURI_Parse)
    show "normal_path (path u)"
      by (simp add: u_def normal_path_def rooted_def free_def sublist_Cons_right suffix_def)
    show "parseHost (host u) = Inr (host u)" by (simp add: u_def) code_simp
  qed (simp_all add: u_def, code_simp+)
  then show ?thesis by (simp add: u_def) code_simp
qed

end
