(* ===== verification/Cookie.thy ===== *)
theory Cookie
  imports Uri
begin

text \<open>
  Cookies (src/fasthttp/cookie.go): the cookie of a response with its attributes, its text and the
  parser of that text, and the cookies of a request. The scratch buffers bufKV and buf are rewritten
  on every use and are not part of the state.

  An expiry is \<open>None\<close> for the zero time. Formatting and parsing of dates is done by the package time;
  the two layouts the code passes to it are the fields of \<open>time_lib\<close>.
\<close>

unbundle bit_operations_syntax

record 't time_lib =
  AppendHTTPDate :: "'t \<Rightarrow> bytes"
  parse_RFC1123 :: "bytes \<Rightarrow> 't option"
  parse_dashed :: "bytes \<Rightarrow> 't option"

datatype CookieSameSite =
  CookieSameSiteDisabled | CookieSameSiteDefaultMode | CookieSameSiteLaxMode | CookieSameSiteStrictMode
| CookieSameSiteNoneMode

record 't Cookie =
  cKey :: bytes
  cValue :: bytes
  expire :: "'t option"
  maxAge :: int
  domain :: bytes
  cPath :: bytes
  httpOnly :: bool
  secure :: bool
  sameSite :: CookieSameSite

definition Cookie_Reset :: "'t Cookie \<Rightarrow> 't Cookie" where
  "Cookie_Reset c =
     c\<lparr>cKey := [], cValue := [], expire := None, maxAge := 0, domain := [], cPath := [], httpOnly := False,
       secure := False, sameSite := CookieSameSiteDisabled\<rparr>"

text \<open>A cookie from the pool.\<close>

definition AcquireCookie :: "'t Cookie" where
  "AcquireCookie =
     \<lparr>cKey = [], cValue = [], expire = None, maxAge = 0, domain = [], cPath = [], httpOnly = False,
       secure = False, sameSite = CookieSameSiteDisabled\<rparr>"

definition ReleaseCookie :: "'t Cookie \<Rightarrow> 't Cookie" where "ReleaseCookie c = Cookie_Reset c"

text \<open>\<open>Cookie_CopyTo c src\<close> is \<open>c\<close> after \<open>c.CopyTo(src)\<close>.\<close>

definition Cookie_CopyTo :: "'t Cookie \<Rightarrow> 't Cookie \<Rightarrow> 't Cookie" where
  "Cookie_CopyTo c src =
     (let c1 = Cookie_Reset c
      in c1\<lparr>cKey := cKey c1 @ cKey src, cValue := cValue c1 @ cValue src, expire := expire src, maxAge := maxAge src,
            domain := domain c1 @ domain src, cPath := cPath c1 @ cPath src, httpOnly := httpOnly src,
            secure := secure src, sameSite := sameSite src\<rparr>)"

definition Cookie_SetHTTPOnly :: "'t Cookie \<Rightarrow> bool \<Rightarrow> 't Cookie" where "Cookie_SetHTTPOnly c b = c\<lparr>httpOnly := b\<rparr>"
definition Cookie_SetSecure :: "'t Cookie \<Rightarrow> bool \<Rightarrow> 't Cookie" where "Cookie_SetSecure c b = c\<lparr>secure := b\<rparr>"

definition Cookie_SetSameSite :: "'t Cookie \<Rightarrow> CookieSameSite \<Rightarrow> 't Cookie" where
  "Cookie_SetSameSite c mode =
     (let c1 = c\<lparr>sameSite := mode\<rparr> in if mode = CookieSameSiteNoneMode then Cookie_SetSecure c1 True else c1)"

definition Cookie_SetPath :: "'t Cookie \<Rightarrow> bytes \<Rightarrow> 't Cookie" where "Cookie_SetPath c p = c\<lparr>cPath := normalizePath p\<rparr>"
definition Cookie_SetDomain :: "'t Cookie \<Rightarrow> bytes \<Rightarrow> 't Cookie" where "Cookie_SetDomain c d = c\<lparr>domain := d\<rparr>"
definition Cookie_SetMaxAge :: "'t Cookie \<Rightarrow> int \<Rightarrow> 't Cookie" where "Cookie_SetMaxAge c s = c\<lparr>maxAge := s\<rparr>"
definition Cookie_SetExpire :: "'t Cookie \<Rightarrow> 't option \<Rightarrow> 't Cookie" where "Cookie_SetExpire c e = c\<lparr>expire := e\<rparr>"
definition Cookie_SetValue :: "'t Cookie \<Rightarrow> bytes \<Rightarrow> 't Cookie" where "Cookie_SetValue c v = c\<lparr>cValue := v\<rparr>"
definition Cookie_SetKey :: "'t Cookie \<Rightarrow> bytes \<Rightarrow> 't Cookie" where "Cookie_SetKey c k = c\<lparr>cKey := k\<rparr>"

section \<open>Printing\<close>

definition strCookieExpires :: bytes where "strCookieExpires = ''expires''"
definition strCookieDomain :: bytes where "strCookieDomain = ''domain''"
definition strCookiePath :: bytes where "strCookiePath = ''path''"
definition strCookieHTTPOnly :: bytes where "strCookieHTTPOnly = ''HttpOnly''"
definition strCookieSecure :: bytes where "strCookieSecure = ''secure''"
definition strCookieMaxAge :: bytes where "strCookieMaxAge = ''max-age''"
definition strCookieSameSite :: bytes where "strCookieSameSite = ''SameSite''"
definition strCookieSameSiteLax :: bytes where "strCookieSameSiteLax = ''Lax''"
definition strCookieSameSiteStrict :: bytes where "strCookieSameSiteStrict = ''Strict''"
definition strCookieSameSiteNone :: bytes where "strCookieSameSiteNone = ''None''"

lemmas cookie_strings = strCookieExpires_def strCookieDomain_def strCookiePath_def strCookieHTTPOnly_def
  strCookieSecure_def strCookieMaxAge_def strCookieSameSite_def strCookieSameSiteLax_def
  strCookieSameSiteStrict_def strCookieSameSiteNone_def

definition appendCookiePart :: "bytes \<Rightarrow> bytes \<Rightarrow> bytes \<Rightarrow> bytes" where
  "appendCookiePart dst k v = dst @ ''; '' @ k @ ''='' @ v"

definition append_lifetime :: "'t time_lib \<Rightarrow> 't Cookie \<Rightarrow> bytes \<Rightarrow> bytes go" where
  "append_lifetime T c dst =
     (if maxAge c > 0 then AppendUint (dst @ ''; '' @ strCookieMaxAge @ ''='') (maxAge c)
      else case expire c of
             None \<Rightarrow> Some dst
           | Some e \<Rightarrow> Some (dst @ ''; '' @ strCookieExpires @ ''='' @ AppendHTTPDate T e))"

definition append_same_site :: "CookieSameSite \<Rightarrow> bytes \<Rightarrow> bytes" where
  "append_same_site m dst =
     (case m of
        CookieSameSiteDisabled \<Rightarrow> dst
      | CookieSameSiteDefaultMode \<Rightarrow> dst @ ''; '' @ strCookieSameSite
      | CookieSameSiteLaxMode \<Rightarrow> dst @ ''; '' @ strCookieSameSite @ ''='' @ strCookieSameSiteLax
      | CookieSameSiteStrictMode \<Rightarrow> dst @ ''; '' @ strCookieSameSite @ ''='' @ strCookieSameSiteStrict
      | CookieSameSiteNoneMode \<Rightarrow> dst @ ''; '' @ strCookieSameSite @ ''='' @ strCookieSameSiteNone)"

definition Cookie_AppendBytes :: "'t time_lib \<Rightarrow> 't Cookie \<Rightarrow> bytes \<Rightarrow> bytes go" where
  "Cookie_AppendBytes T c dst =
     map_option
       (\<lambda>dst.
          let dst = (if length (domain c) > 0 then appendCookiePart dst strCookieDomain (domain c) else dst);
              dst = (if length (cPath c) > 0 then appendCookiePart dst strCookiePath (cPath c) else dst);
              dst = (if httpOnly c then dst @ ''; '' @ strCookieHTTPOnly else dst);
              dst = (if secure c then dst @ ''; '' @ strCookieSecure else dst)
          in append_same_site (sameSite c) dst)
       (append_lifetime T c ((if length (cKey c) > 0 then dst @ cKey c @ ''='' else dst) @ cValue c))"

definition Cookie_Cookie :: "'t time_lib \<Rightarrow> 't Cookie \<Rightarrow> bytes go" where
  "Cookie_Cookie T c = Cookie_AppendBytes T c []"

section \<open>Scanning\<close>

definition or20 :: "char \<Rightarrow> char" where
  "or20 c = mk_byte (byte_val c OR 32)"

definition caseInsensitiveCompare :: "bytes \<Rightarrow> bytes \<Rightarrow> bool" where
  "caseInsensitiveCompare a b \<longleftrightarrow> length a = length b \<and> list_all2 (\<lambda>x y. or20 x = or20 y) a b"

definition trim_spaces :: "bytes \<Rightarrow> bytes" where
  "trim_spaces src = rev (dropWhile (\<lambda>x. x = CHR '' '') (rev (dropWhile (\<lambda>x. x = CHR '' '') src)))"

definition decodeCookieArg :: "bytes \<Rightarrow> bool \<Rightarrow> bytes" where
  "decodeCookieArg src skipQuotes =
     (let src = trim_spaces src
      in if skipQuotes \<and> length src > 1 \<and> src ! 0 = CHR 34 \<and> src ! (length src - 1) = CHR 34
         then slice 1 (length src - 1) src
         else src)"

text \<open>The loop over the bytes \<open>b\<close>: \<open>i\<close> is the index, \<open>rest\<close> what follows from there.\<close>

fun cookie_scan :: "bytes \<Rightarrow> nat \<Rightarrow> bytes \<Rightarrow> bool \<Rightarrow> nat \<Rightarrow> bytes \<Rightarrow> bytes \<times> bytes \<times> bytes" where
  "cookie_scan b i [] isKey k kk =
     (if isKey then [] else kk, decodeCookieArg (drop k b) True, [])"
| "cookie_scan b i (c # rest) isKey k kk =
     (if c = CHR ''='' then
        (if isKey then cookie_scan b (i + 1) rest False (i + 1) (decodeCookieArg (take i b) False)
         else cookie_scan b (i + 1) rest isKey k kk)
      else if c = CHR '';'' then (if isKey then [] else kk, decodeCookieArg (slice k i b) True, rest)
      else cookie_scan b (i + 1) rest isKey k kk)"

text \<open>The next kk and value and what is left to scan.\<close>

definition cookieScanner_next :: "bytes \<Rightarrow> (bytes \<times> bytes \<times> bytes) option" where
  "cookieScanner_next b = (if length b = 0 then None else Some (cookie_scan b 0 b True 0 []))"

lemma cookie_scan_shrinks: "length (snd (snd (cookie_scan b i rest isKey k kk))) \<le> length rest - 1"
proof (induction b i rest isKey k kk rule: cookie_scan.induct)
  case (2 b i c rest isKey k kk)
  then show ?case by (cases "c = CHR ''=''"; cases isKey; cases "c = CHR '';''") (auto intro: le_trans)
qed simp

lemma next_shrinks: "cookieScanner_next b = Some (k, v, r) \<Longrightarrow> length r < length b"
  using cookie_scan_shrinks [of b 0 b True 0 "[]"] by (cases b) (auto simp: cookieScanner_next_def)

section \<open>Parsing\<close>

datatype cookie_error = errNoCookies | MaxAgeError int_error | ExpireError

definition parse_max_age :: "'t Cookie \<Rightarrow> bytes \<Rightarrow> cookie_error option \<times> 't Cookie" where
  "parse_max_age c v =
     (case ParseUint v of (n, Some e) \<Rightarrow> (Some (MaxAgeError e), c) | (n, None) \<Rightarrow> (None, c\<lparr>maxAge := n\<rparr>))"

definition parse_expires :: "'t time_lib \<Rightarrow> 't Cookie \<Rightarrow> bytes \<Rightarrow> cookie_error option \<times> 't Cookie" where
  "parse_expires T c v =
     (case parse_RFC1123 T v of
        Some e \<Rightarrow> (None, c\<lparr>expire := Some e\<rparr>)
      | None \<Rightarrow> (case parse_dashed T v of Some e \<Rightarrow> (None, c\<lparr>expire := Some e\<rparr>) | None \<Rightarrow> (Some ExpireError, c)))"

definition parse_same_site :: "'t Cookie \<Rightarrow> bytes \<Rightarrow> 't Cookie" where
  "parse_same_site c v =
     (if length v > 0 then
        if or20 (v ! 0) = CHR ''l'' then
          (if caseInsensitiveCompare strCookieSameSiteLax v then c\<lparr>sameSite := CookieSameSiteLaxMode\<rparr> else c)
        else if or20 (v ! 0) = CHR ''s'' then
          (if caseInsensitiveCompare strCookieSameSiteStrict v then c\<lparr>sameSite := CookieSameSiteStrictMode\<rparr> else c)
        else if or20 (v ! 0) = CHR ''n'' then
          (if caseInsensitiveCompare strCookieSameSiteNone v then c\<lparr>sameSite := CookieSameSiteNoneMode\<rparr> else c)
        else c
      else c)"

text \<open>The body of the loop over the attributes.\<close>

definition parse_attr :: "'t time_lib \<Rightarrow> 't Cookie \<Rightarrow> bytes \<Rightarrow> bytes \<Rightarrow> cookie_error option \<times> 't Cookie" where
  "parse_attr T c k v =
     (if length k \<noteq> 0 then
        let x = or20 (k ! 0)
        in if x = CHR ''m'' then (if caseInsensitiveCompare strCookieMaxAge k then parse_max_age c v else (None, c))
           else if x = CHR ''e'' then (if caseInsensitiveCompare strCookieExpires k then parse_expires T c v else (None, c))
           else if x = CHR ''d'' then
             (None, if caseInsensitiveCompare strCookieDomain k then c\<lparr>domain := domain c @ v\<rparr> else c)
           else if x = CHR ''p'' then
             (None, if caseInsensitiveCompare strCookiePath k then c\<lparr>cPath := cPath c @ v\<rparr> else c)
           else if x = CHR ''s'' then
             (None, if caseInsensitiveCompare strCookieSameSite k then parse_same_site c v else c)
           else (None, c)
      else if length v \<noteq> 0 then
        let x = or20 (v ! 0)
        in if x = CHR ''h'' then
             (None, if caseInsensitiveCompare strCookieHTTPOnly v then c\<lparr>httpOnly := True\<rparr> else c)
           else if x = CHR ''s'' then
             (None, if caseInsensitiveCompare strCookieSecure v then c\<lparr>secure := True\<rparr>
                    else if caseInsensitiveCompare strCookieSameSite v then c\<lparr>sameSite := CookieSameSiteDefaultMode\<rparr>
                    else c)
           else (None, c)
      else (None, c))"

function parse_attrs :: "'t time_lib \<Rightarrow> 't Cookie \<Rightarrow> bytes \<Rightarrow> cookie_error option \<times> 't Cookie" where
  "parse_attrs T c b =
     (case cookieScanner_next b of
        None \<Rightarrow> (None, c)
      | Some (k, v, r) \<Rightarrow>
          (case parse_attr T c k v of (Some e, c') \<Rightarrow> (Some e, c') | (None, c') \<Rightarrow> parse_attrs T c' r))"
  by pat_completeness auto
termination
  by (relation "measure (\<lambda>(T, c, b). length b)") (auto dest: next_shrinks)

declare parse_attrs.simps [simp del]

definition Cookie_ParseBytes :: "'t time_lib \<Rightarrow> 't Cookie \<Rightarrow> bytes \<Rightarrow> cookie_error option \<times> 't Cookie" where
  "Cookie_ParseBytes T c0 src =
     (let c = Cookie_Reset c0
      in case cookieScanner_next src of
           None \<Rightarrow> (Some errNoCookies, c)
         | Some (k, v, r) \<Rightarrow> parse_attrs T (c\<lparr>cKey := cKey c @ k, cValue := cValue c @ v\<rparr>) r)"

definition Cookie_Parse :: "'t time_lib \<Rightarrow> 't Cookie \<Rightarrow> bytes \<Rightarrow> cookie_error option \<times> 't Cookie" where
  "Cookie_Parse T c src = Cookie_ParseBytes T c src"

section \<open>Cookies of requests and responses\<close>

definition getCookieKey :: "bytes \<Rightarrow> bytes" where
  "getCookieKey src =
     (let n = IndexByte src CHR ''='' in decodeCookieArg (if n \<ge> 0 then take (nat n) src else src) False)"

fun appendRequestCookieBytes :: "bytes \<Rightarrow> argsKV list \<Rightarrow> bytes" where
  "appendRequestCookieBytes dst [] = dst"
| "appendRequestCookieBytes dst (kv # kvs) =
     appendRequestCookieBytes
       ((if length (key kv) > 0 then dst @ key kv @ ''='' else dst) @ val kv @ (if kvs \<noteq> [] then ''; '' else []))
       kvs"

fun appendResponseCookieBytes :: "bytes \<Rightarrow> argsKV list \<Rightarrow> bytes" where
  "appendResponseCookieBytes dst [] = dst"
| "appendResponseCookieBytes dst (kv # kvs) =
     appendResponseCookieBytes (dst @ val kv @ (if kvs \<noteq> [] then ''; '' else [])) kvs"

text \<open>The scanner writes into the entry that was allocated last.\<close>

function parse_request_loop :: "kv_slice \<Rightarrow> bytes \<Rightarrow> kv_slice" where
  "parse_request_loop h b =
     (case cookieScanner_next b of
        None \<Rightarrow> h
      | Some (k, v, r) \<Rightarrow>
          let h' = set_last h ((last_kv h)\<lparr>key := k, val := v\<rparr>)
          in parse_request_loop (if length k > 0 \<or> length v > 0 then allocArg h' else h') r)"
  by pat_completeness auto
termination
  by (relation "measure (\<lambda>(h, b). length b)") (auto dest: next_shrinks)

declare parse_request_loop.simps [simp del]

definition parseRequestCookies :: "kv_slice \<Rightarrow> bytes \<Rightarrow> kv_slice" where
  "parseRequestCookies cookies src = releaseArg (parse_request_loop (allocArg cookies) src)"

section \<open>The scanner on one entry\<close>

definition entry_key :: "bytes \<Rightarrow> bytes" where
  "entry_key seg = (if CHR ''='' \<in> set seg then decodeCookieArg (takeWhile (\<lambda>c. c \<noteq> CHR ''='') seg) False else [])"

definition entry_val :: "bytes \<Rightarrow> bytes" where
  "entry_val seg =
     decodeCookieArg (if CHR ''='' \<in> set seg then tl (dropWhile (\<lambda>c. c \<noteq> CHR ''='') seg) else seg) True"

lemma cookie_scan_value:
  "CHR '';'' \<notin> set seg \<Longrightarrow> \<not> isKey \<or> CHR ''='' \<notin> set seg \<Longrightarrow> b = pre @ seg @ t \<Longrightarrow> t = [] \<or> t ! 0 = CHR '';'' \<Longrightarrow>
     cookie_scan b (length pre) (seg @ t) isKey k kk =
       (if isKey then [] else kk, decodeCookieArg (slice k (length pre + length seg) b) True, tl t)"
proof (induction seg arbitrary: pre)
  case Nil
  then show ?case by (cases t) (auto simp: slice_def)
next
  case (Cons c seg)
  from Cons.IH [of "pre @ [c]"] Cons.prems show ?case by auto
qed

lemma cookie_scan_key:
  "CHR ''='' \<notin> set x \<Longrightarrow> CHR '';'' \<notin> set x \<Longrightarrow>
     cookie_scan b (length pre) (x @ r) True k kk = cookie_scan b (length (pre @ x)) r True k kk"
proof (induction x arbitrary: pre)
  case (Cons c x)
  from Cons.IH [of "pre @ [c]"] Cons.prems show ?case by auto
qed simp

lemma dropWhile_neq_append: "c \<notin> set xs \<Longrightarrow> dropWhile (\<lambda>x. x \<noteq> c) (xs @ c # ys) = c # ys"
  by (induction xs) auto

lemma next_entry:
  assumes seg: "CHR '';'' \<notin> set seg" and t: "t = [] \<or> t ! 0 = CHR '';''" and ne: "seg @ t \<noteq> []"
  shows "cookieScanner_next (seg @ t) = Some (entry_key seg, entry_val seg, tl t)"
proof (cases "CHR ''='' \<in> set seg")
  case True
  then obtain x y where s: "seg = x @ CHR ''='' # y" "CHR ''='' \<notin> set x" by (meson split_list_first)
  have "cookie_scan (seg @ t) 0 (seg @ t) True 0 [] =
      cookie_scan (seg @ t) (length (x @ ''='')) (y @ t) False (length x + 1) (decodeCookieArg x False)"
    using cookie_scan_key [of x "seg @ t" "[]" "CHR ''='' # y @ t" 0 "[]"] seg s by simp
  also have "\<dots> = (decodeCookieArg x False, decodeCookieArg (slice (length x + 1) (length (x @ ''='') + length y) (seg @ t)) True, tl t)"
    using cookie_scan_value [of y False "seg @ t" "x @ ''=''" t] seg s t by simp
  finally show ?thesis
    using ne s takeWhile_neq_append [of "CHR ''=''" x y] dropWhile_neq_append [of "CHR ''=''" x y]
    by (auto simp: cookieScanner_next_def entry_key_def entry_val_def slice_def)
next
  case False
  then show ?thesis
    using ne cookie_scan_value [of seg True "seg @ t" "[]" t 0 "[]"] seg t
    by (auto simp: cookieScanner_next_def entry_key_def entry_val_def slice_def)
qed

text \<open>Text the scanner leaves as it is.\<close>

definition plain_key :: "bytes \<Rightarrow> bool" where
  "plain_key s \<longleftrightarrow> set s \<inter> {CHR '';'', CHR ''=''} = {} \<and> trim_spaces s = s"

definition plain_value :: "bytes \<Rightarrow> bool" where
  "plain_value s \<longleftrightarrow> CHR '';'' \<notin> set s \<and> trim_spaces s = s \<and> \<not> (length s > 1 \<and> s ! 0 = CHR 34 \<and> s ! (length s - 1) = CHR 34)"

lemma decode_plain: "plain_value s \<Longrightarrow> decodeCookieArg s b = s" "trim_spaces s = s \<Longrightarrow> decodeCookieArg s False = s"
  by (auto simp: decodeCookieArg_def plain_value_def)

lemma trim_spaces_Cons: "trim_spaces (CHR '' '' # s) = trim_spaces s"
  by (simp add: trim_spaces_def)

lemma entry_pair:
  assumes "plain_key k" "plain_value v"
  shows "entry_key (k @ CHR ''='' # v) = k" "entry_val (k @ CHR ''='' # v) = v"
    and "entry_key (CHR '' '' # k @ CHR ''='' # v) = k" "entry_val (CHR '' '' # k @ CHR ''='' # v) = v"
proof -
  have "CHR ''='' \<notin> set k" "CHR ''='' \<notin> set (CHR '' '' # k)" using assms(1) by (auto simp: plain_key_def)
  from takeWhile_neq_append [OF this(1), of v] takeWhile_neq_append [OF this(2), of v]
    dropWhile_neq_append [OF this(1), of v] dropWhile_neq_append [OF this(2), of v] this
  show "entry_key (k @ CHR ''='' # v) = k" "entry_val (k @ CHR ''='' # v) = v"
    and "entry_key (CHR '' '' # k @ CHR ''='' # v) = k" "entry_val (CHR '' '' # k @ CHR ''='' # v) = v"
    using assms decode_plain(1) [of v True] decode_plain(2) [of k]
    by (auto simp: entry_key_def entry_val_def plain_key_def decodeCookieArg_def [of "CHR '' '' # k"] trim_spaces_Cons)
qed

lemma entry_flag:
  assumes "plain_value v" "CHR ''='' \<notin> set v"
  shows "entry_key v = []" "entry_val v = v" "entry_key (CHR '' '' # v) = []" "entry_val (CHR '' '' # v) = v"
  using assms decode_plain(1) [of v True]
  by (auto simp: entry_key_def entry_val_def decodeCookieArg_def trim_spaces_Cons)

section \<open>Printing and parsing a response cookie\<close>

text \<open>The attributes as they are printed, each behind a semicolon and a space.\<close>

definition lifetime_segs :: "'t time_lib \<Rightarrow> 't Cookie \<Rightarrow> bytes list" where
  "lifetime_segs T c =
     (if maxAge c > 0 then [strCookieMaxAge @ ''='' @ dec_text (nat (maxAge c))]
      else case expire c of None \<Rightarrow> [] | Some e \<Rightarrow> [strCookieExpires @ ''='' @ AppendHTTPDate T e])"

definition same_site_segs :: "CookieSameSite \<Rightarrow> bytes list" where
  "same_site_segs m =
     (case m of
        CookieSameSiteDisabled \<Rightarrow> []
      | CookieSameSiteDefaultMode \<Rightarrow> [strCookieSameSite]
      | CookieSameSiteLaxMode \<Rightarrow> [strCookieSameSite @ ''='' @ strCookieSameSiteLax]
      | CookieSameSiteStrictMode \<Rightarrow> [strCookieSameSite @ ''='' @ strCookieSameSiteStrict]
      | CookieSameSiteNoneMode \<Rightarrow> [strCookieSameSite @ ''='' @ strCookieSameSiteNone])"

definition attr_segs :: "'t time_lib \<Rightarrow> 't Cookie \<Rightarrow> bytes list" where
  "attr_segs T c =
     lifetime_segs T c @ (if domain c \<noteq> [] then [strCookieDomain @ ''='' @ domain c] else []) @
     (if cPath c \<noteq> [] then [strCookiePath @ ''='' @ cPath c] else []) @
     (if httpOnly c then [strCookieHTTPOnly] else []) @ (if secure c then [strCookieSecure] else []) @
     same_site_segs (sameSite c)"

fun segs_text :: "bytes list \<Rightarrow> bytes" where
  "segs_text [] = []"
| "segs_text (s # segs) = CHR '';'' # CHR '' '' # s @ segs_text segs"

lemma segs_text_append [simp]: "segs_text (xs @ ys) = segs_text xs @ segs_text ys"
  by (induction xs) auto

lemma segs_text_start: "segs_text segs = [] \<or> segs_text segs ! 0 = CHR '';''"
  by (cases segs) auto

lemma Cookie_text:
  assumes "cKey c \<noteq> []" "maxAge c \<le> max_int64"
  shows "Cookie_Cookie T c = Some (cKey c @ ''='' @ cValue c @ segs_text (attr_segs T c))"
proof -
  have "append_lifetime T c d = Some (d @ segs_text (lifetime_segs T c))" for d
    using assms(2)
    by (auto simp: append_lifetime_def lifetime_segs_def AppendUint_eq dec_text_def max_int64_def split: option.splits)
  moreover have "append_same_site m d = d @ segs_text (same_site_segs m)" for m d
    by (cases m) (simp_all add: append_same_site_def same_site_segs_def)
  ultimately show ?thesis
    using assms(1) by (simp add: Cookie_Cookie_def Cookie_AppendBytes_def attr_segs_def appendCookiePart_def Let_def)
qed

fun run_attrs :: "'t time_lib \<Rightarrow> 't Cookie \<Rightarrow> bytes list \<Rightarrow> cookie_error option \<times> 't Cookie" where
  "run_attrs T c [] = (None, c)"
| "run_attrs T c (s # segs) =
     (case parse_attr T c (entry_key (CHR '' '' # s)) (entry_val (CHR '' '' # s)) of
        (Some e, c') \<Rightarrow> (Some e, c')
      | (None, c') \<Rightarrow> run_attrs T c' segs)"

lemma parse_attrs_segs:
  "\<forall>s\<in>set segs. CHR '';'' \<notin> set s \<Longrightarrow> parse_attrs T c (tl (segs_text segs)) = run_attrs T c segs"
proof (induction segs arbitrary: c)
  case Nil
  then show ?case by (simp add: parse_attrs.simps [of T c "[]"] cookieScanner_next_def)
next
  case (Cons s segs)
  have "cookieScanner_next ((CHR '' '' # s) @ segs_text segs) =
      Some (entry_key (CHR '' '' # s), entry_val (CHR '' '' # s), tl (segs_text segs))"
    using Cons.prems segs_text_start by (intro next_entry) auto
  with Cons show ?case
    by (subst parse_attrs.simps) (auto split: prod.split option.split)
qed

lemma run_attrs_append:
  "run_attrs T c xs = (None, c') \<Longrightarrow> run_attrs T c (xs @ ys) = run_attrs T c' ys"
  by (induction xs arbitrary: c) (auto split: prod.splits option.splits)

text \<open>Cookies whose text can be read back: the strings are not touched by the scanner, and of
  max-age and expires only one is in use.\<close>

definition valid_cookie :: "'t time_lib \<Rightarrow> 't Cookie \<Rightarrow> bool" where
  "valid_cookie T c \<longleftrightarrow>
     cKey c \<noteq> [] \<and> plain_key (cKey c) \<and> plain_value (cValue c) \<and> plain_value (domain c) \<and> plain_value (cPath c) \<and>
     0 \<le> maxAge c \<and> maxAge c \<le> max_int64 \<and>
     (case expire c of
        None \<Rightarrow> True
      | Some e \<Rightarrow> maxAge c = 0 \<and> plain_value (AppendHTTPDate T e) \<and> parse_RFC1123 T (AppendHTTPDate T e) = Some e)"

lemma trim_spaces_id: "CHR '' '' \<notin> set s \<Longrightarrow> trim_spaces s = s"
proof -
  have "CHR '' '' \<notin> set s \<Longrightarrow> dropWhile (\<lambda>x. x = CHR '' '') s = s" for s by (cases s) auto
  then show "CHR '' '' \<notin> set s \<Longrightarrow> trim_spaces s = s" by (simp add: trim_spaces_def)
qed

lemma dec_text_plain: "plain_value (dec_text n)"
proof -
  have "48 \<le> byte_val c" "byte_val c \<le> 57" if "c \<in> set (dec_text n)" for c
    using that by (auto simp: dec_text_def digit_char_def byte_val_mk_byte dest!: dec_digits_small)
  then have d: "c \<noteq> CHR '';'' \<and> c \<noteq> CHR '' '' \<and> c \<noteq> CHR 34" if "c \<in> set (dec_text n)" for c
    using that by (fastforce simp: char_eq_byte_val)
  then have "CHR '';'' \<notin> set (dec_text n)" "CHR '' '' \<notin> set (dec_text n)" by blast+
  moreover have "\<not> (length (dec_text n) > 1 \<and> dec_text n ! 0 = CHR 34 \<and> dec_text n ! (length (dec_text n) - 1) = CHR 34)"
    using d [of "dec_text n ! 0"] by (metis length_greater_0_conv list.size(3) not_one_less_zero nth_mem)
  ultimately show ?thesis by (simp add: plain_value_def trim_spaces_id)
qed

lemma cookie_names_plain:
  "plain_key strCookieMaxAge" "plain_key strCookieExpires" "plain_key strCookieDomain" "plain_key strCookiePath"
  "plain_key strCookieSameSite" "plain_value strCookieHTTPOnly" "plain_value strCookieSecure" "plain_value strCookieSameSite"
  "plain_value strCookieSameSiteLax" "plain_value strCookieSameSiteStrict" "plain_value strCookieSameSiteNone"
  by (simp_all add: plain_key_def plain_value_def cookie_strings trim_spaces_def)

lemma or20_letters:
  "or20 CHR ''m'' = CHR ''m''" "or20 CHR ''e'' = CHR ''e''" "or20 CHR ''d'' = CHR ''d''" "or20 CHR ''p'' = CHR ''p''"
  "or20 CHR ''S'' = CHR ''s''" "or20 CHR ''s'' = CHR ''s''" "or20 CHR ''H'' = CHR ''h''" "or20 CHR ''L'' = CHR ''l''"
  "or20 CHR ''N'' = CHR ''n''"
  by code_simp+

lemma compare_refl [simp]: "caseInsensitiveCompare s s"
  by (simp add: caseInsensitiveCompare_def list_all2_same)

lemma secure_not_same_site: "\<not> caseInsensitiveCompare strCookieSecure strCookieSameSite"
  by (simp add: caseInsensitiveCompare_def cookie_strings)

lemmas parse_attr_named = parse_attr_def [of _ _ strCookieMaxAge] parse_attr_def [of _ _ strCookieExpires]
  parse_attr_def [of _ _ strCookieDomain] parse_attr_def [of _ _ strCookiePath] parse_attr_def [of _ _ strCookieSameSite]
  parse_attr_def [of _ _ "[]" strCookieHTTPOnly] parse_attr_def [of _ _ "[]" strCookieSecure]
  parse_attr_def [of _ _ "[]" strCookieSameSite]

lemma name_heads:
  "strCookieMaxAge ! 0 = CHR ''m''" "strCookieExpires ! 0 = CHR ''e''" "strCookieDomain ! 0 = CHR ''d''"
  "strCookiePath ! 0 = CHR ''p''" "strCookieSameSite ! 0 = CHR ''S''" "strCookieHTTPOnly ! 0 = CHR ''H''"
  "strCookieSecure ! 0 = CHR ''s''" "strCookieSameSiteLax ! 0 = CHR ''L''" "strCookieSameSiteStrict ! 0 = CHR ''S''"
  "strCookieSameSiteNone ! 0 = CHR ''N''"
  "strCookieMaxAge \<noteq> []" "strCookieExpires \<noteq> []" "strCookieDomain \<noteq> []" "strCookiePath \<noteq> []"
  "strCookieSameSite \<noteq> []" "strCookieHTTPOnly \<noteq> []" "strCookieSecure \<noteq> []" "strCookieSameSiteLax \<noteq> []"
  "strCookieSameSiteStrict \<noteq> []" "strCookieSameSiteNone \<noteq> []"
  by (simp_all add: cookie_strings)

lemma no_equals: "CHR ''='' \<notin> set strCookieHTTPOnly" "CHR ''='' \<notin> set strCookieSecure" "CHR ''='' \<notin> set strCookieSameSite"
  by (simp_all add: cookie_strings)

lemmas attr_step = parse_attr_named name_heads or20_letters compare_refl secure_not_same_site
  cookie_names_plain entry_pair entry_flag no_equals

lemma run_lifetime:
  assumes "valid_cookie T c" "maxAge d = 0" "expire d = None"
  shows "run_attrs T d (lifetime_segs T c) = (None, d\<lparr>maxAge := maxAge c, expire := expire c\<rparr>)"
  using assms dec_text_plain
  by (auto simp: lifetime_segs_def valid_cookie_def attr_step parse_max_age_def parse_expires_def dec_text_def [symmetric]
      ParseUint_dec_digits [folded dec_text_def] max_int64_def nat_less_iff split: option.splits)

lemma run_same_site:
  "sameSite d = CookieSameSiteDisabled \<Longrightarrow> run_attrs T d (same_site_segs m) = (None, d\<lparr>sameSite := m\<rparr>)"
  by (cases m) (simp_all add: same_site_segs_def attr_step parse_same_site_def)

lemma attr_segs_no_semicolon:
  assumes "valid_cookie T c"
  shows "\<forall>s\<in>set (attr_segs T c). CHR '';'' \<notin> set s"
proof -
  have "\<forall>s\<in>set (lifetime_segs T c). CHR '';'' \<notin> set s"
    using assms dec_text_plain [of "nat (maxAge c)"]
    by (simp add: lifetime_segs_def valid_cookie_def plain_value_def cookie_strings split: option.splits)
  moreover have "\<forall>s\<in>set (same_site_segs m). CHR '';'' \<notin> set s" for m
    by (cases m) (simp_all add: same_site_segs_def cookie_strings)
  ultimately show ?thesis
    using assms by (simp add: attr_segs_def ball_Un valid_cookie_def plain_value_def cookie_strings)
qed

text \<open>Claim C27: parsing the text of a response cookie gives the cookie back, attributes included, whatever
  the receiver held before, if the strings of the cookie hold no separators, outer spaces or quotes and
  the time library reads the dates it writes.\<close>

theorem Cookie_roundtrip:
  assumes "valid_cookie T c"
  shows "\<exists>t. Cookie_Cookie T c = Some t \<and> Cookie_ParseBytes T c0 t = (None, c)"
proof -
  have v: "cKey c \<noteq> []" "maxAge c \<le> max_int64" "plain_key (cKey c)" "plain_value (cValue c)"
    using assms by (simp_all add: valid_cookie_def)
  define t where "t = cKey c @ CHR ''='' # cValue c"
  define d0 where "d0 = (Cookie_Reset c0)\<lparr>cKey := cKey c, cValue := cValue c\<rparr>"
  have next0: "cookieScanner_next (t @ segs_text (attr_segs T c)) =
      Some (cKey c, cValue c, tl (segs_text (attr_segs T c)))"
    using v entry_pair(1,2) [OF v(3,4)] unfolding t_def
    using segs_text_start by (subst next_entry) (auto simp: plain_key_def plain_value_def)
  have d0: "maxAge d0 = 0" "expire d0 = None" "domain d0 = []" "cPath d0 = []" "httpOnly d0 = False" "secure d0 = False"
    "sameSite d0 = CookieSameSiteDisabled" "cKey d0 = cKey c" "cValue d0 = cValue c"
    by (simp_all add: d0_def Cookie_Reset_def)
  have "run_attrs T d0 (attr_segs T c) = (None, c)"
    using run_attrs_append [OF run_lifetime [OF assms d0(1,2)]] assms d0
    by (auto simp: attr_segs_def valid_cookie_def attr_step run_same_site)
  moreover have "parse_attrs T d0 (tl (segs_text (attr_segs T c))) = run_attrs T d0 (attr_segs T c)"
    by (intro parse_attrs_segs attr_segs_no_semicolon assms)
  ultimately have "Cookie_ParseBytes T c0 (t @ segs_text (attr_segs T c)) = (None, c)"
    using next0 by (simp add: Cookie_ParseBytes_def d0_def) (simp add: Cookie_Reset_def)
  then show ?thesis using Cookie_text [OF v(1,2)] by (simp add: t_def)
qed

definition demo_time :: "nat time_lib" where
  "demo_time = \<lparr>AppendHTTPDate = (\<lambda>n. replicate n CHR ''I''), parse_RFC1123 = (\<lambda>s. Some (length s)), parse_dashed = (\<lambda>s. None)\<rparr>"

theorem Cookie_roundtrip_witness:
  "\<exists>c t. Cookie_Cookie demo_time c = Some t \<and> t = ''id=a=b; expires=III; path=/x; HttpOnly; secure; SameSite=None'' \<and>
     Cookie_ParseBytes demo_time AcquireCookie t = (None, c)"
proof -
  let ?c = "\<lparr>cKey = ''id'', cValue = ''a=b'', expire = Some 3, maxAge = 0, domain = [], cPath = ''/x'', httpOnly = True,
     secure = True, sameSite = CookieSameSiteNoneMode\<rparr>"
  have "valid_cookie demo_time ?c"
    by (simp add: valid_cookie_def plain_key_def plain_value_def trim_spaces_def demo_time_def max_int64_def eval_nat_numeral)
  from Cookie_roundtrip [OF this, of AcquireCookie] obtain t
    where t: "Cookie_Cookie demo_time ?c = Some t" "Cookie_ParseBytes demo_time AcquireCookie t = (None, ?c)" by blast
  moreover have "Cookie_Cookie demo_time ?c = Some ''id=a=b; expires=III; path=/x; HttpOnly; secure; SameSite=None''"
    by (simp add: Cookie_Cookie_def Cookie_AppendBytes_def append_lifetime_def append_same_site_def appendCookiePart_def
        cookie_strings demo_time_def eval_nat_numeral)
  ultimately show ?thesis by (metis option.inject)
qed

section \<open>Printing and parsing the cookies of a request\<close>

definition valid_pair :: "argsKV \<Rightarrow> bool" where
  "valid_pair kv \<longleftrightarrow> key kv \<noteq> [] \<and> plain_key (key kv) \<and> plain_value (val kv)"

abbreviation pair_text :: "argsKV \<Rightarrow> bytes" where
  "pair_text kv \<equiv> key kv @ CHR ''='' # val kv"

lemma appendRequestCookieBytes_eq:
  "\<forall>kv\<in>set kvs. valid_pair kv \<Longrightarrow> kvs \<noteq> [] \<Longrightarrow>
     appendRequestCookieBytes dst kvs = dst @ pair_text (hd kvs) @ segs_text (map pair_text (tl kvs))"
proof (induction dst kvs rule: appendRequestCookieBytes.induct)
  case (2 dst kv kvs)
  then show ?case by (cases kvs) (auto simp: valid_pair_def)
qed simp

text \<open>What a parse leaves: the pairs of key and value of the entries.\<close>

abbreviation pairs :: "kv_slice \<Rightarrow> (bytes \<times> bytes) list" where
  "pairs h \<equiv> map (\<lambda>kv. (key kv, val kv)) (fst h)"

lemma pairs_alloc: "butlast (pairs (allocArg h)) = pairs h" "fst (allocArg h) \<noteq> []"
  by (auto simp: allocArg_def split: list.splits)

lemma pairs_set_last: "fst h \<noteq> [] \<Longrightarrow> pairs (set_last h ((last_kv h)\<lparr>key := k, val := v\<rparr>)) = butlast (pairs h) @ [(k, v)]"
  by (simp add: set_last_def map_butlast)

lemma request_loop_step:
  assumes "cookieScanner_next b = Some (k, v, r)" "k \<noteq> []" "fst h \<noteq> []"
  shows "\<exists>h'. parse_request_loop h b = parse_request_loop h' r \<and> fst h' \<noteq> [] \<and>
           butlast (pairs h') = butlast (pairs h) @ [(k, v)]"
proof -
  define h1 where "h1 = set_last h ((last_kv h)\<lparr>key := k, val := v\<rparr>)"
  have "parse_request_loop h b = parse_request_loop (allocArg h1) r"
    using assms by (subst parse_request_loop.simps) (simp add: h1_def Let_def)
  then show ?thesis
    using pairs_alloc [of h1] pairs_set_last [OF assms(3), where k = k and v = v] by (intro exI [of _ "allocArg h1"]) (simp add: h1_def)
qed

lemma request_loop_segs:
  "\<forall>kv\<in>set kvs. valid_pair kv \<Longrightarrow> fst h \<noteq> [] \<Longrightarrow>
     \<exists>h'. parse_request_loop h (tl (segs_text (map pair_text kvs))) = h' \<and> fst h' \<noteq> [] \<and>
       butlast (pairs h') = butlast (pairs h) @ map (\<lambda>kv. (key kv, val kv)) kvs"
proof (induction kvs arbitrary: h)
  case Nil
  then show ?case by (simp add: parse_request_loop.simps [of h "[]"] cookieScanner_next_def)
next
  case (Cons kv kvs)
  let ?r = "segs_text (map pair_text kvs)"
  have kv: "plain_key (key kv)" "plain_value (val kv)" "key kv \<noteq> []" using Cons.prems by (simp_all add: valid_pair_def)
  have "cookieScanner_next ((CHR '' '' # pair_text kv) @ ?r) = Some (key kv, val kv, tl ?r)"
    using kv entry_pair(3,4) [OF kv(1,2)]
    using segs_text_start by (subst next_entry) (auto simp: plain_key_def plain_value_def)
  from request_loop_step [OF this kv(3) Cons.prems(2)] obtain h1
    where h1: "parse_request_loop h ((CHR '' '' # pair_text kv) @ ?r) = parse_request_loop h1 (tl ?r)" "fst h1 \<noteq> []"
      "butlast (pairs h1) = butlast (pairs h) @ [(key kv, val kv)]" by blast
  from Cons.IH [OF _ h1(2)] Cons.prems(1) h1 show ?case by simp
qed

text \<open>Parsing the Cookie header a request writes appends exactly the cookies of the request, keys
  and values, to the ones the receiver has.\<close>

theorem request_cookies_roundtrip:
  assumes "\<forall>kv\<in>set kvs. valid_pair kv"
  shows "pairs (parseRequestCookies h (appendRequestCookieBytes [] kvs)) = pairs h @ map (\<lambda>kv. (key kv, val kv)) kvs"
proof -
  have rel: "pairs (releaseArg g) = butlast (pairs g)" for g by (simp add: releaseArg_def map_butlast)
  show ?thesis
  proof (cases kvs)
    case Nil
    then show ?thesis using pairs_alloc(1) [of h]
      by (simp only: parseRequestCookies_def rel) (simp add: parse_request_loop.simps [of _ "[]"] cookieScanner_next_def)
  next
    case (Cons kv rest)
    let ?r = "segs_text (map pair_text rest)"
    have kv: "plain_key (key kv)" "plain_value (val kv)" "key kv \<noteq> []" using assms Cons by (simp_all add: valid_pair_def)
    have "cookieScanner_next (pair_text kv @ ?r) = Some (key kv, val kv, tl ?r)"
      using kv entry_pair(1,2) [OF kv(1,2)]
      using segs_text_start by (subst next_entry) (auto simp: plain_key_def plain_value_def)
    from request_loop_step [OF this kv(3) pairs_alloc(2) [of h]] obtain h1
      where h1: "parse_request_loop (allocArg h) (pair_text kv @ ?r) = parse_request_loop h1 (tl ?r)" "fst h1 \<noteq> []"
        "butlast (pairs h1) = pairs h @ [(key kv, val kv)]" by (auto simp: pairs_alloc(1))
    have "appendRequestCookieBytes [] kvs = pair_text kv @ ?r"
      using appendRequestCookieBytes_eq [OF assms] Cons by simp
    then show ?thesis
      using h1 request_loop_segs [of rest h1] assms Cons by (simp only: parseRequestCookies_def rel) auto
  qed
qed

theorem request_cookies_roundtrip_witness:
  "let kvs = [\<lparr>key = ''a'', val = ''1'', noValue = False\<rparr>, \<lparr>key = ''b'', val = ''x=y'', noValue = False\<rparr>]
   in appendRequestCookieBytes [] kvs = ''a=1; b=x=y'' \<and>
      pairs (parseRequestCookies ([], [zero_kv]) ''a=1; b=x=y'') = [(''a'', ''1''), (''b'', ''x=y'')]"
  using request_cookies_roundtrip [of "[\<lparr>key = ''a'', val = ''1'', noValue = False\<rparr>, \<lparr>key = ''b'', val = ''x=y'', noValue = False\<rparr>]"
      "([], [zero_kv])"]
  by (simp add: valid_pair_def plain_key_def plain_value_def trim_spaces_def)

end
