(* ===== verification/Store.thy ===== *)
theory Store
  imports Prelude
begin

text \<open>
  The radix tree behind the router (src/fasthttp-routing/store.go): keys with parameter tokens
  are added, concrete paths are looked up.

  A node is a value of a datatype with the fields of the struct; the array of 256 static
  children is an association list from the first byte to the child. The regular expressions of
  the package regexp are a parameter of the lookup: \<open>rx p s\<close> is the end of the match of the
  pattern \<open>p\<close> in \<open>s\<close> (FindStringIndex), if there is one; \<open>rc p\<close> says whether \<open>p\<close> compiles.
  The slice pvalues is passed as a list and returned as the callee leaves it; an index out of
  its range is a panic (\<open>None\<close>).
\<close>

section \<open>Nodes\<close>

datatype 'd node =
  Node (static: bool) (nkey: bytes) (ndata: "'d option") (norder: nat) (minOrder: nat)
    (children: "(char \<times> 'd node) list") (pchildren: "'d node list")
    (regex: "bytes option") (pindex: int) (pnames: "bytes list")

record 'd store =
  root :: "'d node"
  count :: nat

definition newStore :: "'d store" where
  "newStore = \<lparr>root = Node True [] None 0 0 [] [] None (- 1) [], count = 0\<rparr>"

fun set_key :: "bytes \<Rightarrow> 'd node \<Rightarrow> 'd node" where
  "set_key k (Node s _ d od m cs ps r pi pn) = Node s k d od m cs ps r pi pn"

fun set_data :: "'d option \<Rightarrow> nat \<Rightarrow> 'd node \<Rightarrow> 'd node" where
  "set_data d od (Node s k _ _ m cs ps r pi pn) = Node s k d od m cs ps r pi pn"

fun set_children :: "(char \<times> 'd node) list \<Rightarrow> 'd node \<Rightarrow> 'd node" where
  "set_children cs (Node s k d od m _ ps r pi pn) = Node s k d od m cs ps r pi pn"

fun set_pchildren :: "'d node list \<Rightarrow> 'd node \<Rightarrow> 'd node" where
  "set_pchildren ps (Node s k d od m cs _ r pi pn) = Node s k d od m cs ps r pi pn"

text \<open>The assignment \<open>n.children[c] = child\<close>.\<close>

fun put_child :: "char \<Rightarrow> 'd node \<Rightarrow> (char \<times> 'd node) list \<Rightarrow> (char \<times> 'd node) list" where
  "put_child c x [] = [(c, x)]"
| "put_child c x ((c', y) # cs) = (if c = c' then (c, x) # cs else (c', y) # put_child c x cs)"

section \<open>Adding\<close>

text \<open>The first parameter token of a key: the positions of the first \<open><\<close> and of the first
  \<open>>\<close> after it, \<open>-1\<close> where there is none.\<close>

fun find_token :: "bytes \<Rightarrow> int \<Rightarrow> int \<Rightarrow> int \<times> int" where
  "find_token [] i p0 = (p0, - 1)"
| "find_token (c # s) i p0 =
     (let p0' = (if p0 < 0 \<and> c = CHR ''<'' then i else p0)
      in if p0' \<ge> 0 \<and> c = CHR ''>'' then (p0', i) else find_token s (i + 1) p0')"

text \<open>Name and pattern of a token body, split at its first colon.\<close>

definition token_name :: "bytes \<Rightarrow> bytes" where
  "token_name body = takeWhile (\<lambda>c. c \<noteq> CHR '':'') body"

definition token_pattern :: "bytes \<Rightarrow> bytes" where
  "token_pattern body = drop 1 (dropWhile (\<lambda>c. c \<noteq> CHR '':'') body)"

definition param_child :: "'d node \<Rightarrow> bytes \<Rightarrow> bytes \<Rightarrow> nat \<Rightarrow> 'd node" where
  "param_child n tok body order =
     Node False tok None 0 order [] []
       (if token_pattern body \<noteq> [] then Some (CHR ''^'' # token_pattern body) else None)
       (int (length (pnames n))) (pnames n @ [token_name body])"

lemma find_token_bounds:
  "\<lbrakk>find_token s i p0 = (a, b); p0 < i; 0 \<le> i; - 1 \<le> p0\<rbrakk> \<Longrightarrow>
     b = - 1 \<or> 0 \<le> a \<and> a < b \<and> i \<le> b \<and> b < i + int (length s)"
proof (induction s arbitrary: i p0)
  case (Cons c s)
  show ?case
    using Cons.prems Cons.IH [of "i + 1" "if p0 < 0 \<and> c = CHR ''<'' then i else p0"]
    by (auto simp: Let_def split: if_splits)
qed simp

lemma find_token_drop [termination_simp]:
  "find_token (c # s) 0 (- 1) = (a, b) \<Longrightarrow> \<not> b < 0 \<Longrightarrow> length s - nat b < Suc (length s)"
  by simp

text \<open>addChild on a key that is not empty; the tail of the function that appends the param node
  is \<open>add_param\<close>. The result is the updated node and the number of parameters.\<close>

function (sequential) addChild ::
    "(bytes \<Rightarrow> bool) \<Rightarrow> 'd node \<Rightarrow> bytes \<Rightarrow> 'd \<Rightarrow> nat \<Rightarrow> ('d node \<times> int) go"
  and add_param ::
    "(bytes \<Rightarrow> bool) \<Rightarrow> 'd node \<Rightarrow> bytes \<Rightarrow> nat \<Rightarrow> nat \<Rightarrow> 'd \<Rightarrow> nat \<Rightarrow> ('d node \<times> int) go" where
  "addChild rc n key d order =
     (case key of
        [] \<Rightarrow> None
      | c # _ \<Rightarrow>
        (let (p0, p1) = find_token key 0 (- 1)
         in if p0 > 0 \<and> p1 > 0 \<or> p1 < 0 then
              (let child = Node True key None 0 order [] [] None (pindex n) (pnames n)
               in if p1 > 0 then
                    map_option (\<lambda>(child', r). (set_children (put_child c child' (children n)) n, r))
                      (add_param rc (set_key (take (nat p0) key) child) key (nat p0) (nat p1) d order)
                  else
                    Some (set_children (put_child c (set_data (Some d) order child) (children n)) n,
                          pindex n + 1))
            else add_param rc n key (nat p0) (nat p1) d order))"
| "add_param rc n key p0 p1 d order =
     (let tok = slice p0 (p1 + 1) key; body = slice (p0 + 1) p1 key;
          child = param_child n tok body order
      in if token_pattern body \<noteq> [] \<and> \<not> rc (CHR ''^'' # token_pattern body) then None
         else if p1 + 1 \<ge> length key then
           Some (set_pchildren (pchildren n @ [set_data (Some d) order child]) n, pindex child + 1)
         else
           map_option (\<lambda>(child', r). (set_pchildren (pchildren n @ [child']) n, r))
             (addChild rc child (drop (p1 + 1) key) d order))"
  by pat_completeness auto
termination
  by (relation "measures [\<lambda>x. case x of Inl (rc, n, key, d, order) \<Rightarrow> length key
                                   | Inr (rc, n, key, p0, p1, d, order) \<Rightarrow> length key,
                          \<lambda>x. case x of Inl _ \<Rightarrow> 1 | Inr _ \<Rightarrow> 0]")
    auto

declare addChild.simps [simp del] add_param.simps [simp del]

fun common_prefix :: "bytes \<Rightarrow> bytes \<Rightarrow> nat" where
  "common_prefix (a # as) (b # bs) = (if a \<noteq> b then 0 else Suc (common_prefix as bs))"
| "common_prefix _ _ = 0"

text \<open>A weight of a node that goes down both for a child and for the split of a node key.\<close>

fun weight :: "'d node \<Rightarrow> nat" where
  "weight (Node s k d od m cs ps r pi pn) =
     length k * length k + 1 + sum_list (map (\<lambda>(c, x). weight x) cs) + sum_list (map weight ps)"

lemma weight_child:
  assumes "map_of (children n) c = Some x"
  shows "weight x < weight n"
proof -
  from assms have "(c, x) \<in> set (children n)" by (rule map_of_SomeD)
  then have "weight x \<in> set (map (\<lambda>(c, x). weight x) (children n))" by force
  then have "weight x \<le> sum_list (map (\<lambda>(c, x). weight x) (children n))"
    by (rule member_le_sum_list) simp
  then show ?thesis by (cases n) simp
qed

definition split_node :: "nat \<Rightarrow> 'd node \<Rightarrow> 'd node" where
  "split_node matched n =
     (let n1 = Node True (drop matched (nkey n)) (ndata n) (norder n) (minOrder n) (children n)
                 (pchildren n) None (pindex n) (pnames n)
      in Node (static n) (take matched (nkey n)) None (norder n) (minOrder n)
           [(hd (nkey n1), n1)] [] (regex n) (pindex n) (pnames n))"

lemma common_prefix_le: "common_prefix a b \<le> length a \<and> common_prefix a b \<le> length b"
  by (induction a b rule: common_prefix.induct) auto

lemma weight_split:
  assumes "0 < m" and "m < length (nkey n)"
  shows "weight (split_node m n) < weight n"
proof -
  let ?l = "length (nkey n)"
  obtain b where b: "?l = m + b" "0 < b" using assms by (metis less_imp_add_positive)
  then have "1 \<le> m * b" using assms by simp
  moreover have "?l * ?l = m * m + b * b + 2 * (m * b)" by (simp add: b algebra_simps)
  ultimately have "m * m + b * b + 2 \<le> ?l * ?l" by linarith
  then show ?thesis
    using b assms by (cases n) (simp add: split_node_def)
qed

lemma weight_split_key:
  assumes "common_prefix key (nkey n) \<noteq> length (nkey n)" and "0 < common_prefix key (nkey n)"
  shows "weight (split_node (common_prefix key (nkey n)) n) < weight n"
  using assms common_prefix_le [of key "nkey n"] by (intro weight_split) auto

lemma weight_params: "sum_list (map weight (pchildren n)) < weight n"
  by (cases n) simp

text \<open>add and the loop over the param children; the result of the loop is the updated list and,
  if some child took the key, its result. The key of the split node is the common prefix of key
  and node key, so that the second call finds the node key to be a prefix of key.\<close>

function (sequential) add ::
    "(bytes \<Rightarrow> bool) \<Rightarrow> 'd node \<Rightarrow> bytes \<Rightarrow> 'd \<Rightarrow> nat \<Rightarrow> ('d node \<times> int) go"
  and add_params ::
    "(bytes \<Rightarrow> bool) \<Rightarrow> 'd node list \<Rightarrow> bytes \<Rightarrow> 'd \<Rightarrow> nat \<Rightarrow> ('d node list \<times> int) go" where
  "add rc n key d order =
     (let matched = common_prefix key (nkey n)
      in if matched = length (nkey n) then
           if matched = length key then
             Some (if ndata n = None then set_data (Some d) order n else n, pindex n + 1)
           else
             let newKey = drop matched key
             in Option.bind
                  (case map_of (children n) (hd newKey) of
                     None \<Rightarrow> Some (n, - 1)
                   | Some child \<Rightarrow>
                       map_option (\<lambda>(c', pn). (set_children (put_child (hd newKey) c' (children n)) n, pn))
                         (add rc child newKey d order))
                  (\<lambda>(n1, pn). if pn \<ge> 0 then Some (n1, pn) else
                     Option.bind (add_params rc (pchildren n) newKey d order)
                       (\<lambda>(ps, pn2). if pn2 \<ge> 0 then Some (set_pchildren ps n1, pn2)
                          else addChild rc (set_pchildren ps n1) newKey d order))
         else if matched = 0 \<or> \<not> static n then Some (n, - 1)
         else add rc (split_node matched n) key d order)"
| "add_params rc [] key d order = Some ([], - 1)"
| "add_params rc (p # ps) key d order =
     Option.bind (add rc p key d order)
       (\<lambda>(p', pn). if pn \<ge> 0 then Some (p' # ps, pn)
          else map_option (\<lambda>(ps', pn'). (p' # ps', pn')) (add_params rc ps key d order))"
  by pat_completeness auto
termination
proof (relation "measures [\<lambda>x. case x of Inl (rc, n, key, d, order) \<Rightarrow> weight n
                                   | Inr (rc, ps, key, d, order) \<Rightarrow> sum_list (map weight ps),
                           \<lambda>x. case x of Inl _ \<Rightarrow> 0 | Inr (rc, ps, key, d, order) \<Rightarrow> length ps]")
qed (auto simp: weight_child weight_params weight_split_key)

declare add.simps [simp del]

section \<open>Lookup\<close>

definition MaxInt32 :: nat where
  "MaxInt32 = 2 ^ 31 - 1"

text \<open>The match of a param node at the start of the key: its value and the rest of the key.\<close>

definition match_param :: "(bytes \<Rightarrow> bytes \<Rightarrow> nat option) \<Rightarrow> bytes option \<Rightarrow> bytes \<Rightarrow> (bytes \<times> bytes) option" where
  "match_param rx r key =
     (case r of
        Some p \<Rightarrow>
          if p = ''^.*'' then Some (key, [])
          else map_option (\<lambda>e. (take e key, drop e key)) (rx p key)
      | None \<Rightarrow> Some (takeWhile (\<lambda>c. c \<noteq> CHR ''/'') key, dropWhile (\<lambda>c. c \<noteq> CHR ''/'') key))"

text \<open>The first part of get: match the node itself. The outer \<open>None\<close> is a panic, the inner one
  "no match"; a match gives the rest of the key and the parameter values.\<close>

definition match_node ::
    "(bytes \<Rightarrow> bytes \<Rightarrow> nat option) \<Rightarrow> 'd node \<Rightarrow> bytes \<Rightarrow> bytes list \<Rightarrow> (bytes \<times> bytes list) option go" where
  "match_node rx n key pv =
     (if static n then
        Some (if length (nkey n) \<le> length key \<and> take (length (nkey n)) key = nkey n
              then Some (drop (length (nkey n)) key, pv) else None)
      else case match_param rx (regex n) key of
             None \<Rightarrow> Some None
           | Some (v, rest) \<Rightarrow>
               if 0 \<le> pindex n \<and> pindex n < int (length pv)
               then Some (Some (rest, pv[nat (pindex n) := v])) else None)"

type_synonym 'd found = "'d option \<times> bytes list \<times> nat"

text \<open>Copying \<open>pvalues[i] = tvalues[i]\<close> for \<open>i\<close> from \<open>a\<close> up to \<open>b\<close>.\<close>

definition copy_values :: "nat \<Rightarrow> nat \<Rightarrow> bytes list \<Rightarrow> bytes list \<Rightarrow> bytes list go" where
  "copy_values a b pv tv =
     (if b \<le> a then Some pv
      else if b \<le> length pv \<and> b \<le> length tv then Some (take a pv @ slice a b tv @ drop b pv)
      else None)"

text \<open>get and its loop over the param children. The loop carries the result so far, pvalues and,
  once it is allocated, the separate slice tvalues; before that tvalues is pvalues itself. The jump
  to the static child of a node without param children is a call whose loop is over no nodes.\<close>

function (sequential) get ::
    "(bytes \<Rightarrow> bytes \<Rightarrow> nat option) \<Rightarrow> 'd node \<Rightarrow> bytes \<Rightarrow> bytes list \<Rightarrow> ('d found \<times> bytes list) go"
  and get_params ::
    "(bytes \<Rightarrow> bytes \<Rightarrow> nat option) \<Rightarrow> 'd node list \<Rightarrow> bytes \<Rightarrow> 'd found \<Rightarrow> bytes list \<Rightarrow>
     bytes list option \<Rightarrow> ('d found \<times> bytes list) go" where
  "get rx n key pv =
     (case match_node rx n key pv of
        None \<Rightarrow> None
      | Some None \<Rightarrow> Some ((None, [], MaxInt32), pv)
      | Some (Some (rest, pv1)) \<Rightarrow>
          (case (if rest \<noteq> [] then
                   (case map_of (children n) (hd rest) of
                      Some child \<Rightarrow> get rx child rest pv1
                    | None \<Rightarrow> Some ((None, [], MaxInt32), pv1))
                 else if ndata n \<noteq> None then Some ((ndata n, pnames n, norder n), pv1)
                 else Some ((None, [], MaxInt32), pv1)) of
             None \<Rightarrow> None
           | Some (res, pv2) \<Rightarrow> get_params rx (pchildren n) rest res pv2 None))"
| "get_params rx [] key res pv tv = Some (res, pv)"
| "get_params rx (p # ps) key res pv tv =
     (if minOrder p \<ge> snd (snd res) then get_params rx ps key res pv tv
      else
        let tv1 = (if fst res \<noteq> None \<and> tv = None then Some (replicate (length pv) []) else tv)
        in case get rx p key (case tv1 of None \<Rightarrow> pv | Some t \<Rightarrow> t) of
             None \<Rightarrow> None
           | Some (res', t') \<Rightarrow>
               (let pv1 = (if tv1 = None then t' else pv); tv2 = map_option (\<lambda>_. t') tv1
                in if fst res' \<noteq> None \<and> snd (snd res') < snd (snd res) then
                     (case (if tv1 = None then Some pv1
                            else copy_values (nat (pindex p)) (length (fst (snd res'))) pv1 t') of
                        None \<Rightarrow> None
                      | Some pv2 \<Rightarrow> get_params rx ps key res' pv2 tv2)
                   else get_params rx ps key res pv1 tv2))"
  by pat_completeness auto
termination
proof (relation "measures [\<lambda>x. case x of Inl (rx, n, key, pv) \<Rightarrow> weight n
                                   | Inr (rx, ps, key, res, pv, tv) \<Rightarrow> sum_list (map weight ps),
                           \<lambda>x. case x of Inl _ \<Rightarrow> 0 | Inr (rx, ps, key, res, pv, tv) \<Rightarrow> length ps]")
qed (auto simp: weight_child weight_params)

declare get.simps [simp del]

definition store_Add :: "(bytes \<Rightarrow> bool) \<Rightarrow> 'd store \<Rightarrow> bytes \<Rightarrow> 'd \<Rightarrow> ('d store \<times> int) go" where
  "store_Add rc s key d =
     (let c = count s + 1
      in map_option (\<lambda>(r, n). (s\<lparr>root := r, count := c\<rparr>, n)) (add rc (root s) key d c))"

definition store_Get ::
    "(bytes \<Rightarrow> bytes \<Rightarrow> nat option) \<Rightarrow> 'd store \<Rightarrow> bytes \<Rightarrow> bytes list \<Rightarrow>
     ('d option \<times> bytes list \<times> bytes list) go" where
  "store_Get rx s path pv =
     map_option (\<lambda>((d, names, _), pv'). (d, names, pv')) (get rx (root s) path pv)"

end
