(* ===== verification/Store_Correct.thy ===== *)
theory Store_Correct
  imports Store
begin

text \<open>
  Correctness of the radix tree of src/fasthttp-routing/store.go.

  A key stands for a list of tokens, the bytes of its static parts and its parameters. The
  specification of a lookup has no tree: of the keys added, in the order they were added, take
  the first whose tokens match the path. The routes of a node are the token lists of the data
  nodes below it. Adding a key adds its route (or finds it there already), a lookup returns
  the matching route of least order, and together they give the specification.
\<close>

section \<open>Specification\<close>

datatype tok = Chr char | Par bytes

function parse_key :: "bytes \<Rightarrow> tok list" where
  "parse_key [] = []"
| "parse_key (c # s) =
     (if c = CHR ''<'' \<and> CHR ''>'' \<in> set s
      then Par (takeWhile (\<lambda>x. x \<noteq> CHR ''>'') s) #
           parse_key (drop 1 (dropWhile (\<lambda>x. x \<noteq> CHR ''>'') s))
      else Chr c # parse_key s)"
  by pat_completeness auto
termination
  by (relation "measure length") (auto simp: less_Suc_eq_le le_diff_conv intro: le_trans [OF length_dropWhile_le])

text \<open>A key in which every opening bracket is closed.\<close>

definition closed_key :: "bytes \<Rightarrow> bool" where
  "closed_key key \<longleftrightarrow> Chr CHR ''<'' \<notin> set (parse_key key)"

definition tok_regex :: "bytes \<Rightarrow> bytes option" where
  "tok_regex body = (if token_pattern body \<noteq> [] then Some (CHR ''^'' # token_pattern body) else None)"

fun match_toks :: "(bytes \<Rightarrow> bytes \<Rightarrow> nat option) \<Rightarrow> tok list \<Rightarrow> bytes \<Rightarrow> bytes list option" where
  "match_toks rx [] path = (if path = [] then Some [] else None)"
| "match_toks rx (Chr c # ts) path =
     (case path of [] \<Rightarrow> None | x # path' \<Rightarrow> if x = c then match_toks rx ts path' else None)"
| "match_toks rx (Par b # ts) path =
     (case match_param rx (tok_regex b) path of
        None \<Rightarrow> None
      | Some (v, rest) \<Rightarrow> map_option ((#) v) (match_toks rx ts rest))"

fun tok_names :: "tok list \<Rightarrow> bytes list" where
  "tok_names [] = []"
| "tok_names (Chr c # ts) = tok_names ts"
| "tok_names (Par b # ts) = token_name b # tok_names ts"

text \<open>All patterns of a key compile.\<close>

definition compiles :: "(bytes \<Rightarrow> bool) \<Rightarrow> tok list \<Rightarrow> bool" where
  "compiles rc ts \<longleftrightarrow> (\<forall>b p. Par b \<in> set ts \<longrightarrow> tok_regex b = Some p \<longrightarrow> rc p)"

definition first_match ::
    "(bytes \<Rightarrow> bytes \<Rightarrow> nat option) \<Rightarrow> (bytes \<times> 'd) list \<Rightarrow> bytes \<Rightarrow> (bytes \<times> 'd) option" where
  "first_match rx rs path = List.find (\<lambda>(k, d). match_toks rx (parse_key k) path \<noteq> None) rs"

section \<open>Routes of a node and well-formedness\<close>

definition own :: "'d node \<Rightarrow> tok list" where
  "own n = (if static n then map Chr (nkey n) else [Par (butlast (tl (nkey n)))])"

type_synonym 'd route = "tok list \<times> 'd \<times> nat"

definition extend :: "tok list \<Rightarrow> 'd route set \<Rightarrow> 'd route set" where
  "extend ts R = (\<lambda>(us, d, o'). (ts @ us, d, o')) ` R"

definition data_route :: "'d node \<Rightarrow> 'd route set" where
  "data_route n = (case ndata n of None \<Rightarrow> {} | Some d \<Rightarrow> {([], d, norder n)})"

function routes :: "'d node \<Rightarrow> 'd route set" where
  "routes n =
     extend (own n)
       (data_route n \<union> (\<Union>x\<in>snd ` set (children n). routes x) \<union> (\<Union>p\<in>set (pchildren n). routes p))"
  by pat_completeness auto

lemma weight_in_children: "x \<in> snd ` set (children n) \<Longrightarrow> weight x < weight n"
proof -
  assume "x \<in> snd ` set (children n)"
  then have "weight x \<in> set (map (\<lambda>(c, x). weight x) (children n))" by force
  then have "weight x \<le> sum_list (map (\<lambda>(c, x). weight x) (children n))"
    by (rule member_le_sum_list) simp
  then show ?thesis by (cases n) simp
qed

lemma weight_in_pchildren: "p \<in> set (pchildren n) \<Longrightarrow> weight p < weight n"
proof -
  assume "p \<in> set (pchildren n)"
  then have "weight p \<le> sum_list (map weight (pchildren n))"
    by (intro member_le_sum_list) auto
  then show ?thesis by (cases n) simp
qed

lemma weight_pair: "(c, x) \<in> set (children n) \<Longrightarrow> weight x < weight n"
  by (rule weight_in_children) force

termination routes
  by (relation "measure weight") (auto intro: weight_in_children weight_in_pchildren)

declare routes.simps [simp del]

text \<open>What the code keeps true of a static child and of a param child.\<close>

definition static_ok :: "'d node \<Rightarrow> char \<Rightarrow> 'd node \<Rightarrow> bool" where
  "static_ok n c x \<longleftrightarrow>
     static x \<and> nkey x \<noteq> [] \<and> hd (nkey x) = c \<and> CHR ''<'' \<notin> set (nkey x) \<and> pnames x = pnames n"

definition param_ok :: "'d node \<Rightarrow> 'd node \<Rightarrow> bool" where
  "param_ok n p \<longleftrightarrow>
     \<not> static p \<and>
     (\<exists>b. nkey p = CHR ''<'' # b @ ''>'' \<and> CHR ''>'' \<notin> set b \<and> regex p = tok_regex b \<and>
          pnames p = pnames n @ [token_name b])"

text \<open>Well-formedness of a node of a tree whose orders go up to \<open>B\<close> and whose keys have at
  most \<open>L\<close> parameters.\<close>

function wf :: "nat \<Rightarrow> nat \<Rightarrow> 'd node \<Rightarrow> bool" where
  "wf L B n \<longleftrightarrow>
     pindex n = int (length (pnames n)) - 1 \<and> length (pnames n) \<le> L \<and> minOrder n \<le> B \<and>
     (\<forall>(ts, d, o') \<in> routes n. minOrder n \<le> o' \<and> o' \<le> B) \<and>
     distinct (map fst (children n)) \<and>
     (\<forall>(c, x) \<in> set (children n). static_ok n c x \<and> wf L B x) \<and>
     (\<forall>p \<in> set (pchildren n). param_ok n p \<and> wf L B p)"
  by pat_completeness auto
termination
  by (relation "measure (\<lambda>(L, B, n). weight n)") (auto simp: weight_in_pchildren weight_pair)

declare wf.simps [simp del]

section \<open>Matching\<close>

lemma match_toks_Chr_append:
  "match_toks rx (map Chr k @ ts) path =
     (if take (length k) path = k then match_toks rx ts (drop (length k) path) else None)"
proof (induction k arbitrary: path)
  case (Cons c k)
  then show ?case by (cases path) auto
qed simp

lemma tok_names_Chr_append [simp]: "tok_names (map Chr k @ ts) = tok_names ts"
  by (induction k) auto

lemma match_toks_length: "match_toks rx ts path = Some vs \<Longrightarrow> length vs = length (tok_names ts)"
  by (induction rx ts path arbitrary: vs rule: match_toks.induct)
    (auto split: list.splits if_splits option.splits)

text \<open>\<open>best R\<close>: a lookup result and the parameter values are those of the route of least order
  in \<open>R\<close> that matches the path, after the names \<open>nm\<close> and values \<open>pre\<close> of the nodes above.\<close>

definition best ::
    "(bytes \<Rightarrow> bytes \<Rightarrow> nat option) \<Rightarrow> 'd route set \<Rightarrow> bytes \<Rightarrow> bytes list \<Rightarrow> bytes list \<Rightarrow>
     'd found \<Rightarrow> bytes list \<Rightarrow> bool" where
  "best rx R path nm pre res pv \<longleftrightarrow>
     (case res of
        (None, names, od) \<Rightarrow>
          names = [] \<and> od = MaxInt32 \<and> (\<forall>(ts, d, o') \<in> R. match_toks rx ts path = None)
      | (Some d, names, od) \<Rightarrow>
          (\<exists>ts vs. (ts, d, od) \<in> R \<and> match_toks rx ts path = Some vs \<and> names = nm @ tok_names ts \<and>
             take (length names) pv = pre @ vs) \<and>
          (\<forall>(ts, d', o') \<in> R. match_toks rx ts path \<noteq> None \<longrightarrow> od \<le> o'))"

section \<open>A lookup returns the matching route of least order\<close>

lemma best_NoneI:
  "(\<And>ts d od. (ts, d, od) \<in> R \<Longrightarrow> match_toks rx ts path = None) \<Longrightarrow>
     best rx R path nm pre (None, [], MaxInt32) pv"
  by (auto simp: best_def)

lemma best_Un_dead:
  assumes "best rx R path nm pre res pv"
    and "\<And>ts d od. (ts, d, od) \<in> R' \<Longrightarrow> match_toks rx ts path = None"
  shows "best rx (R \<union> R') path nm pre res pv"
  using assms by (cases res; cases "fst res") (fastforce simp: best_def)+

text \<open>Routes that are not better than the result so far change nothing.\<close>

lemma best_Un_worse:
  assumes "best rx R path nm pre (d, names, od) pv"
    and "\<And>ts d' od'. (ts, d', od') \<in> R' \<Longrightarrow> match_toks rx ts path \<noteq> None \<Longrightarrow> od \<le> od' \<and> od' < MaxInt32"
  shows "best rx (R \<union> R') path nm pre (d, names, od) pv"
proof (cases d)
  case None
  with assms have "match_toks rx ts path = None" if "(ts, x, o') \<in> R'" for ts x o'
    using that by (fastforce simp: best_def)
  with assms(1) None show ?thesis by (fastforce simp: best_def)
next
  case (Some x)
  with assms show ?thesis by (fastforce simp: best_def)
qed

lemma best_order:
  "best rx R path nm pre (Some d, names, od) pv \<Longrightarrow> \<exists>ts. (ts, d, od) \<in> R"
  by (auto simp: best_def)

lemma best_None_names: "best rx R path nm pre (None, names, od) pv \<Longrightarrow> names = [] \<and> od = MaxInt32"
  by (auto simp: best_def)

text \<open>A better result from other routes replaces the one so far.\<close>

lemma best_Un_better:
  assumes "best rx R path nm pre (d, names, od) pv"
    and "best rx R' path nm pre' (Some d', names', od') pv'"
    and "od' < od" and "take (length names') pv'' = pre @ drop (length pre') (take (length names') pv')"
  shows "best rx (R \<union> R') path nm pre (Some d', names', od') pv''"
proof -
  have new: "\<exists>ts vs. (ts, d', od') \<in> R \<union> R' \<and> match_toks rx ts path = Some vs \<and>
      names' = nm @ tok_names ts \<and> take (length names') pv'' = pre @ vs"
    using assms(2,4) by (fastforce simp: best_def)
  have "od' \<le> o'" if "(ts, x, o') \<in> R \<union> R'" "match_toks rx ts path \<noteq> None" for ts x o'
  proof (cases "(ts, x, o') \<in> R'")
    case True
    with that assms(2) show ?thesis by (auto simp: best_def)
  next
    case False
    with that assms(1,3) show ?thesis by (cases d) (fastforce simp: best_def)+
  qed
  with new show ?thesis by (auto simp: best_def)
qed

text \<open>What the induction shows of a lookup at a node whose ancestors have the names \<open>nm\<close>.\<close>

definition get_ok ::
    "(bytes \<Rightarrow> bytes \<Rightarrow> nat option) \<Rightarrow> nat \<Rightarrow> bytes list \<Rightarrow> 'd node \<Rightarrow> bytes \<Rightarrow> bytes list \<Rightarrow> bool" where
  "get_ok rx L nm n path pv \<longleftrightarrow>
     (\<exists>res pv'. get rx n path pv = Some (res, pv') \<and> length pv' = length pv \<and>
        take (length nm) pv' = take (length nm) pv \<and>
        best rx (routes n) path nm (take (length nm) pv) res pv')"

lemma copy_values_ok:
  assumes "a \<le> b" and "b \<le> length pv" and "length tv = length pv"
  shows "\<exists>pv2. copy_values a b pv tv = Some pv2 \<and> length pv2 = length pv \<and>
           take a pv2 = take a pv \<and> take b pv2 = take a pv @ drop a (take b tv)"
  using assms by (auto simp: copy_values_def slice_def drop_take min_def)

lemma best_take:
  "best rx R path nm pre res pv \<Longrightarrow> take (length (fst (snd res))) pv = take (length (fst (snd res))) pv' \<Longrightarrow>
     best rx R path nm pre res pv'"
  by (cases res; cases "fst res") (auto simp: best_def)

text \<open>The result names never exceed the slice of values.\<close>

definition routes_fit :: "nat \<Rightarrow> bytes list \<Rightarrow> 'd route set \<Rightarrow> bool" where
  "routes_fit L nm R \<longleftrightarrow> (\<forall>(ts, d, od) \<in> R. length nm + length (tok_names ts) \<le> L \<and> od < MaxInt32)"

lemma best_names_fit:
  "best rx R path nm pre (Some d, names, od) pv \<Longrightarrow> routes_fit L nm R \<Longrightarrow>
     length names \<le> L \<and> length nm \<le> length names \<and> od < MaxInt32"
  by (fastforce simp: best_def routes_fit_def)

lemma best_None_any_pv: "best rx R path nm pre (None, names, od) pv \<Longrightarrow> best rx R path nm pre' (None, names, od) pv'"
  by (simp add: best_def)

text \<open>The facts about one param child that its turn in the loop uses.\<close>

definition loop_child ::
    "(bytes \<Rightarrow> bytes \<Rightarrow> nat option) \<Rightarrow> nat \<Rightarrow> nat \<Rightarrow> bytes list \<Rightarrow> bytes \<Rightarrow> 'd node \<Rightarrow> bool" where
  "loop_child rx L len nm path p \<longleftrightarrow>
     (\<forall>pv. length pv = len \<longrightarrow> get_ok rx L nm p path pv) \<and> pindex p = int (length nm) \<and>
     routes_fit L nm (routes p) \<and> (\<forall>(ts, d, od) \<in> routes p. minOrder p \<le> od)"

text \<open>The state of the loop: the best result of the routes seen so far.\<close>

definition loop_inv ::
    "(bytes \<Rightarrow> bytes \<Rightarrow> nat option) \<Rightarrow> nat \<Rightarrow> nat \<Rightarrow> bytes list \<Rightarrow> bytes list \<Rightarrow> bytes \<Rightarrow> 'd route set \<Rightarrow>
     'd found \<Rightarrow> bytes list \<Rightarrow> bytes list option \<Rightarrow> bool" where
  "loop_inv rx L len nm pre path R res pv tv \<longleftrightarrow>
     best rx R path nm pre res pv \<and> routes_fit L nm R \<and> length pv = len \<and>
     take (length nm) pv = pre \<and> (\<forall>t. tv = Some t \<longrightarrow> length t = len)"

lemma loop_inv_worse:
  assumes "loop_inv rx L len nm pre path R (d, names, od) pv tv" and "routes_fit L nm R'"
    and "\<And>ts d' od'. (ts, d', od') \<in> R' \<Longrightarrow> match_toks rx ts path \<noteq> None \<Longrightarrow> od \<le> od'"
  shows "loop_inv rx L len nm pre path (R \<union> R') (d, names, od) pv tv"
  using assms best_Un_worse [of rx R path nm pre d names od pv R']
  by (fastforce simp: loop_inv_def routes_fit_def)

lemma best_worse_order:
  assumes "best rx R path nm pre (d', names', od') pv" and "d' \<noteq> None \<Longrightarrow> od \<le> od'"
    and "(ts, x, o') \<in> R" and "match_toks rx ts path \<noteq> None"
  shows "od \<le> o'"
  using assms by (cases d') (fastforce simp: best_def)+

lemma get_params_skip:
  "minOrder p \<ge> snd (snd res) \<Longrightarrow> get_params rx (p # ps) path res pv tv = get_params rx ps path res pv tv"
  by simp

lemma get_params_tried:
  assumes "\<not> minOrder p \<ge> od"
    and tv1: "tv1 = (if d \<noteq> None \<and> tv = None then Some (replicate (length pv) []) else tv)"
    and g: "get rx p path (case tv1 of None \<Rightarrow> pv | Some t \<Rightarrow> t) = Some (res', t')"
  shows "get_params rx (p # ps) path (d, names, od) pv tv =
    (if fst res' \<noteq> None \<and> snd (snd res') < od then
       (case (if tv1 = None then Some (if tv1 = None then t' else pv)
              else copy_values (nat (pindex p)) (length (fst (snd res')))
                     (if tv1 = None then t' else pv) t') of
          None \<Rightarrow> None
        | Some pv2 \<Rightarrow> get_params rx ps path res' pv2 (map_option (\<lambda>_. t') tv1))
     else get_params rx ps path (d, names, od) (if tv1 = None then t' else pv)
            (map_option (\<lambda>_. t') tv1))"
  unfolding get_params.simps Let_def fst_conv snd_conv tv1 [symmetric] using assms(1) g by simp

text \<open>One turn of the loop for a child that is tried.\<close>

lemma get_params_turn:
  assumes inv: "loop_inv rx L len nm pre path R res pv tv" and p: "loop_child rx L len nm path p"
    and L: "L \<le> len" and tried: "\<not> minOrder p \<ge> snd (snd res)"
  shows "\<exists>res' pv' tv'. get_params rx (p # ps) path res pv tv = get_params rx ps path res' pv' tv' \<and>
           loop_inv rx L len nm pre path (R \<union> routes p) res' pv' tv'"
proof -
  obtain d names od where res: "res = (d, names, od)" by (cases res)
  define tv1 where "tv1 = (if d \<noteq> None \<and> tv = None then Some (replicate (length pv) []) else tv)"
  define arg where "arg = (case tv1 of None \<Rightarrow> pv | Some t \<Rightarrow> t)"
  have len: "length pv = len" "length arg = len" and pre: "take (length nm) pv = pre"
    using inv by (auto simp: loop_inv_def arg_def tv1_def split: option.split)
  have fit: "routes_fit L nm (routes p)" and pin: "nat (pindex p) = length nm"
    using p by (auto simp: loop_child_def)
  obtain d' names' od' t' where g: "get rx p path arg = Some ((d', names', od'), t')"
    and t': "length t' = len" "take (length nm) t' = take (length nm) arg"
    and b: "best rx (routes p) path nm (take (length nm) arg) (d', names', od') t'"
    using p len unfolding loop_child_def get_ok_def by (metis prod_cases3)
  have "\<not> minOrder p \<ge> od" using tried res by simp
  note eq = get_params_tried [OF this tv1_def g [unfolded arg_def], of ps names]
  let ?pv1 = "if tv1 = None then t' else pv" and ?tv2 = "map_option (\<lambda>_. t') tv1"
  show ?thesis
  proof (cases "d' \<noteq> None \<and> od' < od")
    case True
    then obtain x where x: "d' = Some x" by blast
    have nf: "length names' \<le> L" "length nm \<le> length names'"
      using best_names_fit [OF b [unfolded x] fit] by auto
    obtain pv2 where c: "(if tv1 = None then Some ?pv1
          else copy_values (nat (pindex p)) (length names') ?pv1 t') = Some pv2"
      and pv2: "length pv2 = len" "take (length nm) pv2 = pre"
        "take (length names') pv2 = pre @ drop (length nm) (take (length names') t')"
    proof (cases "tv1 = None")
      case True
      then have "take (length nm) t' = pre" using t' pre by (simp add: arg_def)
      then have "take (length names') t' = pre @ drop (length nm) (take (length names') t')"
        using nf by (metis append_take_drop_id min.absorb1 take_take)
      with True \<open>take (length nm) t' = pre\<close> t' show ?thesis by (intro that) auto
    next
      case False
      then show ?thesis
        using copy_values_ok [of "length nm" "length names'" pv t'] nf L len t' pre pin
        by (auto intro: that)
    qed
    have "best rx (R \<union> routes p) path nm pre (Some x, names', od') pv2"
    proof (rule best_Un_better)
      show "best rx R path nm pre (d, names, od) pv" using inv res by (simp add: loop_inv_def)
      show "best rx (routes p) path nm (take (length nm) arg) (Some x, names', od') t'"
        using b x by simp
      show "od' < od" using True by simp
      show "take (length names') pv2 =
          pre @ drop (length (take (length nm) arg)) (take (length names') t')"
        using pv2 nf L len by simp
    qed
    moreover have "routes_fit L nm (R \<union> routes p)"
      using inv fit by (auto simp: loop_inv_def routes_fit_def)
    ultimately have "loop_inv rx L len nm pre path (R \<union> routes p) (d', names', od') pv2 ?tv2"
      using pv2 t' x by (auto simp: loop_inv_def)
    moreover have "get_params rx (p # ps) path res pv tv =
        get_params rx ps path (d', names', od') pv2 ?tv2"
      unfolding res eq fst_conv snd_conv c using True by simp
    ultimately show ?thesis by blast
  next
    case False
    have "loop_inv rx L len nm pre path R (d, names, od) ?pv1 ?tv2"
    proof (cases "tv1 = None")
      case True
      then have "d = None" by (auto simp: tv1_def split: if_splits)
      with inv res t' pre True show ?thesis
        using best_None_any_pv by (auto simp: loop_inv_def arg_def)
    next
      case False
      with inv res t' show ?thesis by (auto simp: loop_inv_def)
    qed
    then have "loop_inv rx L len nm pre path (R \<union> routes p) (d, names, od) ?pv1 ?tv2"
      using fit best_worse_order [OF b] False by (intro loop_inv_worse) auto
    moreover have "get_params rx (p # ps) path res pv tv = get_params rx ps path res ?pv1 ?tv2"
      unfolding res eq fst_conv snd_conv using False by auto
    ultimately show ?thesis using res by blast
  qed
qed

lemma get_params_ok:
  assumes "loop_inv rx L len nm pre path R res pv tv" and "\<forall>p\<in>set ps. loop_child rx L len nm path p"
    and "L \<le> len"
  shows "\<exists>res' pv' tv'. get_params rx ps path res pv tv = Some (res', pv') \<and>
           loop_inv rx L len nm pre path (R \<union> (\<Union>p\<in>set ps. routes p)) res' pv' tv'"
  using assms
proof (induction ps arbitrary: R res pv tv)
  case Nil
  then show ?case by auto
next
  case (Cons p ps)
  obtain d names od where res: "res = (d, names, od)" by (cases res)
  have p: "loop_child rx L len nm path p" using Cons.prems by simp
  obtain res' pv' tv' where
    "get_params rx (p # ps) path res pv tv = get_params rx ps path res' pv' tv'"
    "loop_inv rx L len nm pre path (R \<union> routes p) res' pv' tv'"
  proof (cases "minOrder p \<ge> snd (snd res)")
    case True
    with Cons.prems(1) p res have "loop_inv rx L len nm pre path (R \<union> routes p) res pv tv"
      unfolding res by (intro loop_inv_worse) (fastforce simp: loop_child_def)+
    with True show ?thesis by (intro that) auto
  next
    case False
    then show ?thesis using get_params_turn [OF Cons.prems(1) p Cons.prems(3)] that by metis
  qed
  with Cons.IH [of "R \<union> routes p" res' pv' tv'] Cons.prems show ?case by (auto simp: Un_assoc)
qed

section \<open>Lookup at a well-formed node\<close>

definition above :: "'d node \<Rightarrow> bytes list" where
  "above n = (if static n then pnames n else butlast (pnames n))"

definition tails :: "'d node \<Rightarrow> 'd route set" where
  "tails n = data_route n \<union> (\<Union>x\<in>snd ` set (children n). routes x) \<union> (\<Union>p\<in>set (pchildren n). routes p)"

definition self_ok :: "'d node \<Rightarrow> bool" where
  "self_ok n \<longleftrightarrow> static n \<or>
     (\<exists>b nm. nkey n = CHR ''<'' # b @ ''>'' \<and> regex n = tok_regex b \<and> pnames n = nm @ [token_name b])"

lemma routes_tails: "routes n = extend (own n) (tails n)"
  by (subst routes.simps) (simp add: tails_def)

lemma static_ok_simps:
  "static_ok n c x \<Longrightarrow> above x = pnames n" "static_ok n c x \<Longrightarrow> self_ok x"
  "static_ok n c x \<Longrightarrow> static x"
  by (auto simp: static_ok_def above_def self_ok_def)

lemma param_ok_simps:
  "param_ok n p \<Longrightarrow> above p = pnames n" "param_ok n p \<Longrightarrow> self_ok p"
  "param_ok n p \<Longrightarrow> \<not> static p"
  by (auto simp: param_ok_def above_def self_ok_def)

lemma own_static [simp]: "static n \<Longrightarrow> own n = map Chr (nkey n)"
  by (simp add: own_def)

lemma own_param: "\<not> static n \<Longrightarrow> nkey n = CHR ''<'' # b @ ''>'' \<Longrightarrow> own n = [Par b]"
  by (simp add: own_def)

lemma wf_child:
  assumes "wf L B n" and "(c, x) \<in> set (children n)"
  shows "static_ok n c x" and "wf L B x"
  using assms by (auto simp: wf.simps [of L B n])

lemma wf_param:
  assumes "wf L B n" and "p \<in> set (pchildren n)"
  shows "param_ok n p" and "wf L B p"
  using assms by (auto simp: wf.simps [of L B n])

lemma wf_orders:
  assumes "wf L B n" and "(ts, d, od) \<in> routes n"
  shows "minOrder n \<le> od" and "od \<le> B"
  using assms by (fastforce simp: wf.simps [of L B n])+

lemma tok_names_own: "self_ok n \<Longrightarrow> above n @ tok_names (own n @ us) = pnames n @ tok_names us"
  by (auto simp: self_ok_def above_def own_def)

lemma wf_routes_fit:
  assumes "wf L B n" and "self_ok n" and "B < MaxInt32"
  shows "routes_fit L (above n) (routes n)"
  using assms
proof (induction L B n rule: wf.induct)
  case (1 L B n)
  have "length (pnames n) + length (tok_names us) \<le> L" if "(us, d, od) \<in> tails n" for us d od
  proof -
    have "length (pnames n) \<le> L" using "1.prems" by (simp add: wf.simps [of L B n])
    moreover have "routes_fit L (pnames n) (routes x)" if "(c, x) \<in> set (children n)" for c x
      using "1.IH"(1) [OF that refl] wf_child [OF "1.prems"(1) that] "1.prems"(3) static_ok_simps
      by metis
    moreover have "routes_fit L (pnames n) (routes p)" if "p \<in> set (pchildren n)" for p
      using "1.IH"(2) [OF that] wf_param [OF "1.prems"(1) that] "1.prems"(3) param_ok_simps by metis
    ultimately show ?thesis
      using that by (fastforce simp: tails_def data_route_def routes_fit_def split: option.splits)
  qed
  moreover have "length (above n) + length (tok_names (own n @ us)) =
      length (pnames n) + length (tok_names us)" for us
    using tok_names_own [OF "1.prems"(2)] by (metis length_append)
  moreover have "od < MaxInt32" if "(ts, d, od) \<in> routes n" for ts d od
    using wf_orders(2) [OF "1.prems"(1) that] "1.prems"(3) by simp
  ultimately show ?case
    by (fastforce simp: routes_fit_def routes_tails extend_def)
qed

lemma tails_fit:
  assumes "self_ok n" and "routes_fit L (above n) (routes n)"
  shows "routes_fit L (pnames n) (tails n)"
proof -
  have "length (pnames n) + length (tok_names us) \<le> L \<and> od < MaxInt32" if "(us, d, od) \<in> tails n" for us d od
  proof -
    have "(own n @ us, d, od) \<in> routes n" using that by (force simp: routes_tails extend_def)
    moreover have "length (above n) + length (tok_names (own n @ us)) =
        length (pnames n) + length (tok_names us)"
      using tok_names_own [OF assms(1)] by (metis length_append)
    ultimately show ?thesis using assms(2) by (fastforce simp: routes_fit_def)
  qed
  then show ?thesis by (auto simp: routes_fit_def)
qed

text \<open>Routes of a static child cannot match a path that does not start with its byte.\<close>

lemma static_child_dead:
  assumes "static_ok n c x" and "(ts, d, od) \<in> routes x" and "path = [] \<or> hd path \<noteq> c"
  shows "match_toks rx ts path = None"
proof -
  obtain us where ts: "ts = map Chr (nkey x) @ us" and "nkey x \<noteq> []" "hd (nkey x) = c"
    using assms(1,2) by (auto simp: routes_tails extend_def static_ok_def)
  then show ?thesis
    using assms(3) by (cases path; cases "nkey x") (auto simp: match_toks_Chr_append)
qed

text \<open>From the routes below a node to the routes of the node.\<close>

lemma match_own_static:
  "static n \<Longrightarrow> take (length (nkey n)) path = nkey n \<Longrightarrow>
     match_toks rx (own n @ us) path = match_toks rx us (drop (length (nkey n)) path)"
  by (simp add: match_toks_Chr_append)

lemma best_extend:
  assumes own: "\<And>us. match_toks rx (own n @ us) path = map_option ((@) w) (match_toks rx us rest)"
    and names: "self_ok n"
    and b: "best rx (tails n) rest (pnames n) (pre @ w) res pv"
  shows "best rx (routes n) path (above n) pre res pv"
proof (cases res)
  case (fields d names od)
  show ?thesis
  proof (cases d)
    case None
    with b fields own show ?thesis by (fastforce simp: best_def routes_tails extend_def)
  next
    case (Some x)
    with b fields obtain us vs where u: "(us, x, od) \<in> tails n" "match_toks rx us rest = Some vs"
      "names = pnames n @ tok_names us" "take (length names) pv = (pre @ w) @ vs"
      by (auto simp: best_def)
    have "(own n @ us, x, od) \<in> routes n" using u(1) by (force simp: routes_tails extend_def)
    moreover have "names = above n @ tok_names (own n @ us)" using u(3) tok_names_own [OF names] by simp
    moreover have "match_toks rx (own n @ us) path = Some (w @ vs)" using own u(2) by simp
    moreover have "od \<le> o'" if "(ts, y, o') \<in> routes n" "match_toks rx ts path \<noteq> None" for ts y o'
      using that own b fields Some by (fastforce simp: best_def routes_tails extend_def)
    ultimately show ?thesis using u(4) fields Some by (fastforce simp: best_def)
  qed
qed

text \<open>The static stage of get: the data of the node itself or a static child.\<close>

definition static_stage ::
    "(bytes \<Rightarrow> bytes \<Rightarrow> nat option) \<Rightarrow> 'd node \<Rightarrow> bytes \<Rightarrow> bytes list \<Rightarrow> ('d found \<times> bytes list) go" where
  "static_stage rx n rest pv =
     (if rest \<noteq> [] then
        (case map_of (children n) (hd rest) of
           Some child \<Rightarrow> get rx child rest pv
         | None \<Rightarrow> Some ((None, [], MaxInt32), pv))
      else if ndata n \<noteq> None then Some ((ndata n, pnames n, norder n), pv)
      else Some ((None, [], MaxInt32), pv))"

lemma get_unfold:
  "get rx n key pv =
     (case match_node rx n key pv of
        None \<Rightarrow> None
      | Some None \<Rightarrow> Some ((None, [], MaxInt32), pv)
      | Some (Some (rest, pv1)) \<Rightarrow>
          (case static_stage rx n rest pv1 of
             None \<Rightarrow> None
           | Some (res, pv2) \<Rightarrow> get_params rx (pchildren n) rest res pv2 None))"
  unfolding static_stage_def by (rule get.simps)

definition inner :: "'d node \<Rightarrow> 'd route set" where
  "inner n = data_route n \<union> (\<Union>x\<in>snd ` set (children n). routes x)"

lemma inner_fit: "routes_fit L nm (tails n) \<Longrightarrow> routes_fit L nm (inner n)"
  by (auto simp: routes_fit_def inner_def tails_def)

lemma in_inner:
  "r \<in> inner n \<longleftrightarrow> r \<in> data_route n \<or> (\<exists>c x. (c, x) \<in> set (children n) \<and> r \<in> routes x)"
  by (force simp: inner_def)

lemma inner_dead:
  assumes "wf L B n" and "(ts, d, od) \<in> inner n"
    and "rest = [] \<Longrightarrow> ndata n = None"
    and "rest \<noteq> [] \<Longrightarrow> map_of (children n) (hd rest) = None"
  shows "match_toks rx ts rest = None"
proof (cases "(ts, d, od) \<in> data_route n")
  case True
  with assms(3) show ?thesis by (auto simp: data_route_def split: option.splits)
next
  case False
  with assms(2) obtain c x where x: "(c, x) \<in> set (children n)" "(ts, d, od) \<in> routes x"
    by (auto simp: in_inner)
  have "c \<in> fst ` set (children n)" using x(1) by force
  then have "rest = [] \<or> hd rest \<noteq> c" using assms(4) by (metis map_of_eq_None_iff)
  then show ?thesis using static_child_dead wf_child(1) [OF assms(1) x(1)] x(2) by metis
qed

lemma static_stage_ok:
  assumes wf: "wf L B n" and L: "L \<le> length pv"
    and IH: "\<And>c x. (c, x) \<in> set (children n) \<Longrightarrow> get_ok rx L (pnames n) x rest pv"
  shows "\<exists>res pv'. static_stage rx n rest pv = Some (res, pv') \<and> length pv' = length pv \<and>
           take (length (pnames n)) pv' = take (length (pnames n)) pv \<and>
           best rx (inner n) rest (pnames n) (take (length (pnames n)) pv) res pv'"
proof (cases "rest = []")
  case rest: True
  show ?thesis
  proof (cases "ndata n")
    case None
    have "best rx (inner n) rest (pnames n) (take (length (pnames n)) pv) (None, [], MaxInt32) pv"
      by (rule best_NoneI) (rule inner_dead [OF wf], assumption, use rest None in simp_all)
    with rest None show ?thesis by (auto simp: static_stage_def)
  next
    case (Some d)
    have "best rx (data_route n) rest (pnames n) (take (length (pnames n)) pv)
            (Some d, pnames n, norder n) pv"
      using rest Some by (auto simp: best_def data_route_def)
    moreover have "match_toks rx ts rest = None"
      if "(ts, d', od) \<in> (\<Union>x\<in>snd ` set (children n). routes x)" for ts d' od
      using that static_child_dead wf_child(1) [OF wf] rest by fastforce
    ultimately have "best rx (inner n) rest (pnames n) (take (length (pnames n)) pv)
        (Some d, pnames n, norder n) pv"
      unfolding inner_def by (rule best_Un_dead)
    with rest Some show ?thesis by (auto simp: static_stage_def)
  qed
next
  case rest: False
  show ?thesis
  proof (cases "map_of (children n) (hd rest)")
    case None
    have "best rx (inner n) rest (pnames n) (take (length (pnames n)) pv) (None, [], MaxInt32) pv"
      by (rule best_NoneI) (rule inner_dead [OF wf], assumption, use rest None in simp_all)
    with rest None show ?thesis by (auto simp: static_stage_def)
  next
    case (Some x)
    then have x: "(hd rest, x) \<in> set (children n)" by (rule map_of_SomeD)
    have dist: "distinct (map fst (children n))" using wf by (simp add: wf.simps [of L B n])
    obtain res pv' where g: "get rx x rest pv = Some (res, pv')" "length pv' = length pv"
      "take (length (pnames n)) pv' = take (length (pnames n)) pv"
      "best rx (routes x) rest (pnames n) (take (length (pnames n)) pv) res pv'"
      using IH [OF x] by (auto simp: get_ok_def)
    have dead: "match_toks rx ts rest = None" if r: "(ts, d, od) \<in> inner n" "(ts, d, od) \<notin> routes x" for ts d od
    proof (cases "(ts, d, od) \<in> data_route n")
      case True
      with rest show ?thesis by (auto simp: data_route_def split: option.splits)
    next
      case False
      with r(1) obtain c y where y: "(c, y) \<in> set (children n)" "(ts, d, od) \<in> routes y"
        by (auto simp: inner_def)
      with r(2) have "c \<noteq> hd rest" using x dist by (metis eq_key_imp_eq_value)
      with y static_child_dead wf_child(1) [OF wf y(1)] show ?thesis by metis
    qed
    have "routes x \<subseteq> inner n" using x by (force simp: inner_def)
    then have "inner n = routes x \<union> (inner n - routes x)" by blast
    moreover have "best rx (routes x \<union> (inner n - routes x)) rest (pnames n)
        (take (length (pnames n)) pv) res pv'"
      using g(4) dead by (intro best_Un_dead) auto
    ultimately have "best rx (inner n) rest (pnames n) (take (length (pnames n)) pv) res pv'" by simp
    with rest Some g show ?thesis by (auto simp: static_stage_def)
  qed
qed

text \<open>How a node matches: the token of the node against the path, the value it stores.\<close>

lemma match_node_cases:
  assumes "wf L B n" and "self_ok n" and "L \<le> length pv"
  obtains (none) "match_node rx n path pv = Some None"
      and "\<And>us. match_toks rx (own n @ us) path = None"
  | (some) rest w where
      "match_node rx n path pv = Some (Some (rest, take (length (above n)) pv @ w @ drop (length (above n) + length w) pv))"
      and "length (pnames n) = length (above n) + length w" and "length (pnames n) \<le> length pv"
      and "\<And>us. match_toks rx (own n @ us) path = map_option ((@) w) (match_toks rx us rest)"
proof (cases "static n")
  case True
  have len: "length (pnames n) \<le> length pv" using assms by (simp add: wf.simps [of L B n])
  show ?thesis
  proof (cases "take (length (nkey n)) path = nkey n")
    case m: True
    then have "length (nkey n) \<le> length path" by (metis length_take min.bounded_iff order_refl)
    have "match_toks rx (own n @ us) path = map_option ((@) []) (match_toks rx us (drop (length (nkey n)) path))"
      for us
      using match_own_static [OF True m] by (cases "match_toks rx us (drop (length (nkey n)) path)") auto
    with m True len \<open>length (nkey n) \<le> length path\<close> show ?thesis
      by (intro some [of "drop (length (nkey n)) path" "[]"]) (simp_all add: match_node_def above_def)
  next
    case False
    with True show ?thesis by (intro none) (auto simp: match_node_def match_toks_Chr_append)
  qed
next
  case False
  with assms(2) obtain b nm where b: "nkey n = CHR ''<'' # b @ ''>''" "regex n = tok_regex b"
    "pnames n = nm @ [token_name b]" by (auto simp: self_ok_def)
  have own: "own n = [Par b]" using False b(1) by (rule own_param)
  have ab: "above n = nm" using False b(3) by (simp add: above_def)
  have pi: "pindex n = int (length nm)" and len: "length nm < length pv"
    using assms(1,3) b(3) by (simp_all add: wf.simps [of L B n])
  show ?thesis
  proof (cases "match_param rx (tok_regex b) path")
    case None
    with False b own show ?thesis by (intro none) (auto simp: match_node_def)
  next
    case (Some r)
    obtain v rest where r: "r = (v, rest)" by force
    have "match_node rx n path pv = Some (Some (rest, take (length nm) pv @ [v] @ drop (length nm + length [v]) pv))"
      using False b(2) Some r pi len by (simp add: match_node_def upd_conv_take_nth_drop)
    moreover have "match_toks rx (own n @ us) path = map_option ((@) [v]) (match_toks rx us rest)" for us
      using own Some r by (cases "match_toks rx us rest") simp_all
    ultimately show ?thesis using ab b(3) len by (intro some [of rest "[v]"]) auto
  qed
qed

theorem get_correct:
  assumes "wf L B n" and "self_ok n" and "B < MaxInt32" and "L \<le> length pv"
  shows "get_ok rx L (above n) n path pv"
  using assms
proof (induction n arbitrary: path pv rule: measure_induct_rule [of weight])
  case (less n)
  note wf = less.prems(1) and self = less.prems(2) and B = less.prems(3) and L = less.prems(4)
  from wf self L show ?case
  proof (cases rule: match_node_cases [where rx = rx and path = path])
    case none
    have "best rx (routes n) path (above n) (take (length (above n)) pv) (None, [], MaxInt32) pv"
      using none(2) by (intro best_NoneI) (auto simp: routes_tails extend_def)
    with none(1) show ?thesis by (auto simp: get_ok_def get_unfold)
  next
    case (some rest w)
    let ?b = "length (above n)" and ?m = "length (pnames n)"
    define pv1 where "pv1 = take ?b pv @ w @ drop (?b + length w) pv"
    have pv1: "length pv1 = length pv" "take ?m pv1 = take ?b pv @ w" "take ?b pv1 = take ?b pv"
      using some(2,3) by (auto simp: pv1_def)
    have child: "get_ok rx L (pnames n) x rest pv1" if "(c, x) \<in> set (children n)" for c x
      using less.IH [OF weight_pair [OF that], of pv1 rest] wf_child [OF wf that] B L pv1
        static_ok_simps by metis
    have param: "loop_child rx L (length pv) (pnames n) rest p" if p: "p \<in> set (pchildren n)" for p
    proof -
      have ok: "param_ok n p" "wf L B p" using wf_param [OF wf p] by auto
      have "get_ok rx L (pnames n) p rest q" if "length q = length pv" for q
        using less.IH [OF weight_in_pchildren [OF p], of q rest] ok B L that param_ok_simps by metis
      moreover have "pindex p = int (length (pnames n))"
        using ok by (auto simp: param_ok_def wf.simps [of L B p])
      moreover have "routes_fit L (pnames n) (routes p)"
        using wf_routes_fit [OF ok(2) _ B] ok(1) param_ok_simps by metis
      ultimately show ?thesis using wf_orders(1) [OF ok(2)] by (auto simp: loop_child_def)
    qed
    obtain res pv2 where st: "static_stage rx n rest pv1 = Some (res, pv2)" "length pv2 = length pv1"
      "take ?m pv2 = take ?m pv1" "best rx (inner n) rest (pnames n) (take ?m pv1) res pv2"
      using static_stage_ok [of L B n pv1 rx rest] wf child L pv1 by metis
    have "routes_fit L (pnames n) (inner n)"
      using tails_fit [OF self wf_routes_fit [OF wf self B]] by (rule inner_fit)
    then have "loop_inv rx L (length pv) (pnames n) (take ?m pv1) rest (inner n) res pv2 None"
      using st pv1 by (simp add: loop_inv_def)
    then obtain res' pv' tv' where gp: "get_params rx (pchildren n) rest res pv2 None = Some (res', pv')"
      "loop_inv rx L (length pv) (pnames n) (take ?m pv1) rest
         (inner n \<union> (\<Union>p\<in>set (pchildren n). routes p)) res' pv' tv'"
      using get_params_ok [of rx L "length pv" "pnames n" _ rest _ res pv2 None "pchildren n"] param L by blast
    have "best rx (tails n) rest (pnames n) (take ?b pv @ w) res' pv'"
      using gp(2) pv1 by (simp add: loop_inv_def inner_def tails_def)
    then have "best rx (routes n) path (above n) (take ?b pv) res' pv'"
      by (rule best_extend [OF some(4) self])
    moreover have "take ?b pv' = take ?b pv"
    proof -
      have "take ?m pv' = take ?b pv @ w" using gp(2) pv1 by (simp add: loop_inv_def)
      then have "take ?b (take ?m pv') = take ?b (take ?b pv @ w)" by simp
      then show ?thesis using some(2,3) by (simp add: min_def)
    qed
    moreover have "get rx n path pv = Some (res', pv')" "length pv' = length pv"
      using some(1) st(1) gp by (simp_all add: get_unfold pv1_def loop_inv_def)
    ultimately show ?thesis by (auto simp: get_ok_def)
  qed
qed

end
