(* ===== verification/Store_Insert.thy ===== *)
theory Store_Insert
  imports Store_Correct
begin

text \<open>
  Adding to the radix tree of src/fasthttp-routing/store.go: a closed key whose patterns compile
  is added without a panic, the result is the number of its parameters, the tree stays well formed
  and its routes grow by the tokens of the key unless they are there already. Together with the
  correctness of get this gives the router its specification: the first key added, of those that
  match the path.
\<close>

section \<open>Keys and tokens\<close>

lemma parse_key_static_append: "CHR ''<'' \<notin> set k \<Longrightarrow> parse_key (k @ r) = map Chr k @ parse_key r"
  by (induction k) auto

lemma token_body_split:
  "CHR ''>'' \<notin> set b \<Longrightarrow> takeWhile (\<lambda>x. x \<noteq> CHR ''>'') (b @ CHR ''>'' # r) = b"
  "CHR ''>'' \<notin> set b \<Longrightarrow> dropWhile (\<lambda>x. x \<noteq> CHR ''>'') (b @ CHR ''>'' # r) = CHR ''>'' # r"
  by (induction b) auto

lemma parse_key_param:
  "CHR ''>'' \<notin> set b \<Longrightarrow> parse_key (CHR ''<'' # b @ CHR ''>'' # r) = Par b # parse_key r"
  by (simp add: token_body_split)

lemma parse_key_static: "CHR ''<'' \<notin> set k \<Longrightarrow> parse_key k = map Chr k"
  using parse_key_static_append [of k "[]"] by simp

lemma closed_key_static_append: "CHR ''<'' \<notin> set k \<Longrightarrow> closed_key (k @ r) \<longleftrightarrow> closed_key r"
  by (auto simp: closed_key_def parse_key_static_append)

lemma closed_key_param: "CHR ''>'' \<notin> set b \<Longrightarrow> closed_key (CHR ''<'' # b @ CHR ''>'' # r) \<longleftrightarrow> closed_key r"
  by (simp add: closed_key_def parse_key_param del: parse_key.simps)

lemma find_token_static_append:
  "CHR ''<'' \<notin> set k \<Longrightarrow> find_token (k @ r) i (- 1) = find_token r (i + int (length k)) (- 1)"
  by (induction k arbitrary: i) (auto simp: algebra_simps)

lemma find_token_body:
  "CHR ''>'' \<notin> set b \<Longrightarrow> 0 \<le> p0 \<Longrightarrow>
     find_token (b @ CHR ''>'' # r) i p0 = (p0, i + int (length b))"
  by (induction b arbitrary: i) (auto simp: Let_def)

lemma find_token_static: "CHR ''<'' \<notin> set k \<Longrightarrow> find_token k 0 (- 1) = (- 1, - 1)"
  using find_token_static_append [of k "[]" 0] by simp

lemma find_token_param:
  "CHR ''<'' \<notin> set k \<Longrightarrow> CHR ''>'' \<notin> set b \<Longrightarrow>
     find_token (k @ CHR ''<'' # b @ CHR ''>'' # r) 0 (- 1) =
       (int (length k), int (length k) + 1 + int (length b))"
  by (simp add: find_token_static_append find_token_body Let_def)

text \<open>A closed key is static, or a static part, a token and a closed rest.\<close>

lemma closed_key_cases:
  assumes "closed_key key"
  obtains (static) "CHR ''<'' \<notin> set key"
  | (param) k b r where "key = k @ CHR ''<'' # b @ CHR ''>'' # r" "CHR ''<'' \<notin> set k"
      "CHR ''>'' \<notin> set b" "closed_key r"
proof (cases "CHR ''<'' \<in> set key")
  case True
  then obtain k s where key: "key = k @ CHR ''<'' # s" "CHR ''<'' \<notin> set k"
    by (metis split_list_first)
  then have "closed_key (CHR ''<'' # s)" using assms closed_key_static_append by blast
  then have "CHR ''>'' \<in> set s" by (auto simp: closed_key_def split: if_splits)
  then obtain b r where s: "s = b @ CHR ''>'' # r" "CHR ''>'' \<notin> set b" by (metis split_list_first)
  then have "closed_key r" using \<open>closed_key (CHR ''<'' # s)\<close> closed_key_param by blast
  with key s that(2) show ?thesis by blast
qed (rule that(1))

declare parse_key.simps(2) [simp del]

section \<open>Nodes built by addChild\<close>

definition param_count :: "bytes \<Rightarrow> nat" where
  "param_count key = length (tok_names (parse_key key))"

lemma param_count_simps:
  "CHR ''<'' \<notin> set k \<Longrightarrow> param_count (k @ r) = param_count r"
  "CHR ''>'' \<notin> set b \<Longrightarrow> param_count (CHR ''<'' # b @ CHR ''>'' # r) = Suc (param_count r)"
  "param_count [] = 0"
  by (simp_all add: param_count_def parse_key_static_append parse_key_param)

lemma compiles_append: "compiles rc (ts @ us) \<longleftrightarrow> compiles rc ts \<and> compiles rc us"
  by (auto simp: compiles_def)

lemma compiles_Par: "compiles rc (Par b # ts) \<longleftrightarrow> (\<forall>p. tok_regex b = Some p \<longrightarrow> rc p) \<and> compiles rc ts"
  by (auto simp: compiles_def)

lemma wf_mono: "wf L B n \<Longrightarrow> L \<le> L' \<Longrightarrow> B \<le> B' \<Longrightarrow> wf L' B' n"
proof (induction n rule: measure_induct_rule [of weight])
  case (less n)
  have "wf L' B' x" if "(c, x) \<in> set (children n)" for c x
    using less.IH [OF weight_pair [OF that]] wf_child [OF less.prems(1) that] less.prems by blast
  moreover have "wf L' B' p" if "p \<in> set (pchildren n)" for p
    using less.IH [OF weight_in_pchildren [OF that]] wf_param [OF less.prems(1) that] less.prems by blast
  moreover have "o' \<le> B'" if "(ts, d, o') \<in> routes n" for ts d o'
    using wf_orders(2) [OF less.prems(1) that] less.prems(3) by simp
  ultimately show ?case
    using less.prems by (subst wf.simps) (fastforce simp: wf.simps [of L B n])
qed

text \<open>The parts of a node that adding below it keeps.\<close>

definition same_head :: "'d node \<Rightarrow> 'd node \<Rightarrow> bool" where
  "same_head n n' \<longleftrightarrow> static n' = static n \<and> nkey n' = nkey n \<and> minOrder n' = minOrder n \<and>
     regex n' = regex n \<and> pindex n' = pindex n \<and> pnames n' = pnames n"

lemma same_head_own: "same_head n n' \<Longrightarrow> own n' = own n"
  by (simp add: same_head_def own_def)

lemma extend_insert [simp]: "extend ts (insert (us, d, od) R) = insert (ts @ us, d, od) (extend ts R)"
  by (simp add: extend_def)

lemma extend_empty [simp]: "extend ts {} = {}"
  by (simp add: extend_def)

text \<open>A node is well formed when its children are and its own orders are in range.\<close>

lemma wfI:
  assumes "pindex n = int (length (pnames n)) - 1" and "length (pnames n) \<le> L" and "minOrder n \<le> B"
    and "\<And>ts d od. (ts, d, od) \<in> tails n \<Longrightarrow> minOrder n \<le> od \<and> od \<le> B"
    and "distinct (map fst (children n))"
    and "\<And>c x. (c, x) \<in> set (children n) \<Longrightarrow> static_ok n c x \<and> wf L B x"
    and "\<And>p. p \<in> set (pchildren n) \<Longrightarrow> param_ok n p \<and> wf L B p"
  shows "wf L B n"
  using assms by (subst wf.simps) (fastforce simp: routes_tails extend_def)

lemma wf_minOrder: "wf L B n \<Longrightarrow> minOrder n \<le> B"
  by (simp add: wf.simps [of L B n])

lemma wf_distinct: "wf L B n \<Longrightarrow> distinct (map fst (children n))"
  by (simp add: wf.simps [of L B n])

lemma wf_pindex: "wf L B n \<Longrightarrow> pindex n = int (length (pnames n)) - 1"
  by (simp add: wf.simps [of L B n])

lemma wf_pnames: "wf L B n \<Longrightarrow> length (pnames n) \<le> L"
  by (simp add: wf.simps [of L B n])

lemma wf_tails_orders:
  assumes "wf L B n" and "(ts, d, od) \<in> tails n"
  shows "minOrder n \<le> od" and "od \<le> B"
proof -
  have "(own n @ ts, d, od) \<in> routes n" using assms(2) by (force simp: routes_tails extend_def)
  then show "minOrder n \<le> od" "od \<le> B" using wf_orders [OF assms(1)] by blast+
qed


lemma set_children_sel [simp]:
  "children (set_children cs n) = cs" "pchildren (set_children cs n) = pchildren n"
  "ndata (set_children cs n) = ndata n" "norder (set_children cs n) = norder n"
  "same_head n (set_children cs n)"
  by (cases n; simp add: same_head_def)+

lemma set_pchildren_sel [simp]:
  "children (set_pchildren ps n) = children n" "pchildren (set_pchildren ps n) = ps"
  "ndata (set_pchildren ps n) = ndata n" "norder (set_pchildren ps n) = norder n"
  "same_head n (set_pchildren ps n)"
  by (cases n; simp add: same_head_def)+

lemma put_child_new: "map_of cs c = None \<Longrightarrow> put_child c x cs = cs @ [(c, x)]"
  by (induction c x cs rule: put_child.induct) (auto split: if_splits)

lemma put_child_old:
  "map_of cs c = Some y \<Longrightarrow> \<exists>as bs. cs = as @ (c, y) # bs \<and> put_child c x cs = as @ (c, x) # bs"
proof (induction c x cs rule: put_child.induct)
  case (2 c x c' z cs)
  show ?case
  proof (cases "c = c'")
    case True
    with 2 show ?thesis by - (rule exI [of _ "[]"], simp)
  next
    case False
    with 2 obtain as bs where "cs = as @ (c, y) # bs" "put_child c x cs = as @ (c, x) # bs" by auto
    with False show ?thesis by - (rule exI [of _ "(c', z) # as"], simp)
  qed
qed simp

lemma same_head_ok:
  "same_head n n' \<Longrightarrow> static_ok n' c x = static_ok n c x"
  "same_head n n' \<Longrightarrow> param_ok n' p = param_ok n p"
  "same_head n n' \<Longrightarrow> static_ok m c n' = static_ok m c n"
  "same_head n n' \<Longrightarrow> param_ok m n' = param_ok m n"
  by (auto simp: same_head_def static_ok_def param_ok_def)

lemma same_head_trans: "same_head a b \<Longrightarrow> same_head b c \<Longrightarrow> same_head a c"
  by (simp add: same_head_def)

lemma same_head_refl [simp]: "same_head a a"
  by (simp add: same_head_def)

lemma data_route_set [simp]:
  "data_route (set_children cs n) = data_route n" "data_route (set_pchildren ps n) = data_route n"
  by (simp_all add: data_route_def cong: option.case_cong)

text \<open>Replacing the children of a node keeps it well formed if the new children are.\<close>

lemma wf_replace:
  assumes "wf L B n" and "same_head n n'"
    and "\<And>ts d od. (ts, d, od) \<in> tails n' \<Longrightarrow> minOrder n \<le> od \<and> od \<le> B"
    and "distinct (map fst (children n'))"
    and "\<And>c x. (c, x) \<in> set (children n') \<Longrightarrow> static_ok n c x \<and> wf L B x"
    and "\<And>p. p \<in> set (pchildren n') \<Longrightarrow> param_ok n p \<and> wf L B p"
  shows "wf L B n'"
  using assms by (intro wfI) (auto simp: wf.simps [of L B n] same_head_ok, auto simp: same_head_def)

lemma insert_orders:
  assumes "wf L B n" and "r \<in> insert (ts, d, B) (tails n)" and "r = (us, e, od)"
  shows "minOrder n \<le> od \<and> od \<le> B"
proof (cases "r \<in> tails n")
  case True
  with assms(3) wf_tails_orders [OF assms(1)] show ?thesis by simp
next
  case False
  with assms(2,3) wf_minOrder [OF assms(1)] show ?thesis by simp
qed

lemma add_static_child:
  assumes wf: "wf L B n" and new: "map_of (children n) c = None" and ok: "static_ok n c x" "wf L B x"
    and r: "routes x = {(ts, d, B)}"
  defines "n' \<equiv> set_children (put_child c x (children n)) n"
  shows "wf L B n' \<and> same_head n n' \<and> tails n' = insert (ts, d, B) (tails n)"
proof -
  have t: "tails n' = insert (ts, d, B) (tails n)"
    using r new by (simp add: n'_def tails_def put_child_new)
  have ch: "children n' = children n @ [(c, x)]" "pchildren n' = pchildren n"
    using new by (simp_all add: n'_def put_child_new)
  have "wf L B n'"
  proof (rule wf_replace [OF wf])
    show "minOrder n \<le> od \<and> od \<le> B" if "(us, e, od) \<in> tails n'" for us e od
      using insert_orders [OF wf] that t by metis
    show "distinct (map fst (children n'))"
      using wf_distinct [OF wf] new ch by (auto simp: map_of_eq_None_iff)
    show "static_ok n c' y \<and> wf L B y" if "(c', y) \<in> set (children n')" for c' y
      using that ch ok wf_child [OF wf] by auto
    show "param_ok n p \<and> wf L B p" if "p \<in> set (pchildren n')" for p
      using that ch wf_param [OF wf] by simp
  qed (simp add: n'_def)
  with t show ?thesis by (simp add: n'_def)
qed

lemma add_param_child:
  assumes wf: "wf L B n" and ok: "param_ok n x" "wf L B x" and r: "routes x = {(ts, d, B)}"
  defines "n' \<equiv> set_pchildren (pchildren n @ [x]) n"
  shows "wf L B n' \<and> same_head n n' \<and> tails n' = insert (ts, d, B) (tails n)"
proof -
  have t: "tails n' = insert (ts, d, B) (tails n)"
    using r by (simp add: n'_def tails_def)
  have ch: "children n' = children n" "pchildren n' = pchildren n @ [x]"
    by (simp_all add: n'_def)
  have "wf L B n'"
  proof (rule wf_replace [OF wf])
    show "minOrder n \<le> od \<and> od \<le> B" if "(us, e, od) \<in> tails n'" for us e od
      using insert_orders [OF wf] that t by metis
    show "distinct (map fst (children n'))" using wf_distinct [OF wf] ch by simp
    show "static_ok n c' y \<and> wf L B y" if "(c', y) \<in> set (children n')" for c' y
      using that ch wf_child [OF wf] by simp
    show "param_ok n p \<and> wf L B p" if "p \<in> set (pchildren n')" for p
      using that ch ok wf_param [OF wf] by auto
  qed (simp add: n'_def)
  with t show ?thesis by (simp add: n'_def)
qed

text \<open>New nodes: without data they have no routes, with data one.\<close>

definition leaf :: "bool \<Rightarrow> bytes \<Rightarrow> 'd option \<Rightarrow> nat \<Rightarrow> nat \<Rightarrow> bytes option \<Rightarrow> int \<Rightarrow> bytes list \<Rightarrow> 'd node" where
  "leaf s k d od B r pi pn = Node s k d od B [] [] r pi pn"

lemma leaf_sel [simp]:
  "static (leaf s k d od B r pi pn) = s" "nkey (leaf s k d od B r pi pn) = k"
  "ndata (leaf s k d od B r pi pn) = d" "norder (leaf s k d od B r pi pn) = od"
  "minOrder (leaf s k d od B r pi pn) = B" "children (leaf s k d od B r pi pn) = []"
  "pchildren (leaf s k d od B r pi pn) = []" "regex (leaf s k d od B r pi pn) = r"
  "pindex (leaf s k d od B r pi pn) = pi" "pnames (leaf s k d od B r pi pn) = pn"
  "set_data d' od' (leaf s k d od B r pi pn) = leaf s k d' od' B r pi pn"
  "set_key k' (leaf s k d od B r pi pn) = leaf s k' d od B r pi pn"
  by (simp_all add: leaf_def)

lemma leaf_tails [simp]:
  "tails (leaf s k None od B r pi pn) = {}"
  "tails (leaf s k (Some d) od B r pi pn) = {([], d, od)}"
  by (simp_all add: tails_def data_route_def)

lemma leaf_wf:
  assumes "pi = int (length pn) - 1" and "length pn \<le> L" and "d = None \<or> od = B"
  shows "wf L B (leaf s k d od B r pi pn)"
  using assms by (intro wfI; cases d) auto

text \<open>The param node for a token body under a node.\<close>

definition new_param :: "'d node \<Rightarrow> bytes \<Rightarrow> nat \<Rightarrow> 'd option \<Rightarrow> nat \<Rightarrow> 'd node" where
  "new_param n b order dt od =
     leaf False (CHR ''<'' # b @ ''>'') dt od order (tok_regex b)
       (int (length (pnames n))) (pnames n @ [token_name b])"

lemma new_param_ok:
  assumes "CHR ''>'' \<notin> set b" and "length (pnames n) < L" and "dt = None \<or> od = order"
  shows "param_ok n (new_param n b order dt od)" and "wf L order (new_param n b order dt od)"
    and "own (new_param n b order dt od) = [Par b]" and "pnames (new_param n b order dt od) = pnames n @ [token_name b]"
proof -
  show "param_ok n (new_param n b order dt od)" using assms(1) by (auto simp: new_param_def param_ok_def)
  show "wf L order (new_param n b order dt od)"
    unfolding new_param_def using assms by (intro leaf_wf) auto
qed (simp_all add: new_param_def own_def)

lemma new_param_simps [simp]:
  "tails (new_param n b order None od) = {}" "tails (new_param n b order (Some d) od) = {([], d, od)}"
  "children (new_param n b order dt od) = []"
  by (simp_all add: new_param_def)

lemma add_param_eq:
  assumes key: "key = k @ CHR ''<'' # b @ CHR ''>'' # r" and rc: "\<And>p. tok_regex b = Some p \<Longrightarrow> rc p"
  shows "add_param rc n key (length k) (Suc (length k + length b)) d order =
    (if r = [] then
       Some (set_pchildren (pchildren n @ [new_param n b order (Some d) order]) n, int (length (pnames n)) + 1)
     else map_option (\<lambda>(child', res). (set_pchildren (pchildren n @ [child']) n, res))
            (addChild rc (new_param n b order None 0) r d order))"
proof -
  have tok: "slice (length k) (Suc (Suc (length k + length b))) key = CHR ''<'' # b @ ''>''"
    and body: "slice (Suc (length k)) (Suc (length k + length b)) key = b"
    and rest: "drop (Suc (Suc (length k + length b))) key = r"
    by (simp_all add: key slice_def)
  have c: "param_child n (CHR ''<'' # b @ ''>'') b order = new_param n b order None 0"
    by (simp add: param_child_def new_param_def leaf_def tok_regex_def)
  have ok: "\<not> (token_pattern b \<noteq> [] \<and> \<not> rc (CHR ''^'' # token_pattern b))"
    using rc [of "CHR ''^'' # token_pattern b"] by (cases "token_pattern b") (simp_all add: tok_regex_def)
  have len: "Suc (Suc (length k + length b)) \<ge> length key \<longleftrightarrow> r = []" by (simp add: key)
  show ?thesis
    unfolding add_param.simps Let_def Suc_eq_plus1 [symmetric] tok body c if_not_P [OF ok] rest len
    by (simp add: new_param_def)
qed

text \<open>What addChild and its tail do to a node: one more route below it.\<close>

definition one_more :: "nat \<Rightarrow> nat \<Rightarrow> 'd node \<Rightarrow> bytes \<Rightarrow> 'd \<Rightarrow> ('d node \<times> int) go \<Rightarrow> bool" where
  "one_more L order n key d res \<longleftrightarrow>
     (\<exists>n'. res = Some (n', int (length (pnames n) + param_count key)) \<and> wf L order n' \<and> same_head n n' \<and>
        tails n' = insert (parse_key key, d, order) (tails n))"

lemma add_param_ok:
  assumes wf: "wf L order n" and key: "key = k @ CHR ''<'' # b @ CHR ''>'' # r" and b: "CHR ''>'' \<notin> set b"
    and rc: "\<And>p. tok_regex b = Some p \<Longrightarrow> rc p" and L: "length (pnames n) + Suc (param_count r) \<le> L"
    and IH: "\<And>m :: 'd node. r \<noteq> [] \<Longrightarrow> wf L order m \<Longrightarrow> children m = [] \<Longrightarrow> length (pnames m) + param_count r \<le> L \<Longrightarrow>
               one_more L order m r d (addChild rc m r d order)"
  shows "one_more L order n (CHR ''<'' # b @ CHR ''>'' # r) d
           (add_param rc n key (length k) (Suc (length k + length b)) d order)"
proof (cases "r = []")
  case True
  let ?x = "new_param n b order (Some d) order"
  have x: "param_ok n ?x" "wf L order ?x" "own ?x = [Par b]"
    using new_param_ok [OF b, of n L "Some d" order order] L by auto
  then have "routes ?x = {(parse_key (CHR ''<'' # b @ CHR ''>'' # r), d, order)}"
    using b True by (simp add: routes_tails parse_key_param)
  from add_param_child [OF wf x(1,2) this] b True show ?thesis
    by (simp add: one_more_def add_param_eq [OF key rc] param_count_simps)
next
  case False
  let ?x = "new_param n b order None 0"
  have x: "param_ok n ?x" "wf L order ?x" "own ?x = [Par b]" "pnames ?x = pnames n @ [token_name b]"
    using new_param_ok [OF b, of n L None 0 order] L by auto
  then obtain y where y: "addChild rc ?x r d order = Some (y, int (length (pnames n) + Suc (param_count r)))"
    "wf L order y" "same_head ?x y" "tails y = {(parse_key r, d, order)}"
    using IH [OF False, of ?x] L by (auto simp: one_more_def)
  have "routes y = {(parse_key (CHR ''<'' # b @ CHR ''>'' # r), d, order)}"
    using b y(4) x(3) same_head_own [OF y(3)] by (simp add: routes_tails parse_key_param)
  from add_param_child [OF wf _ y(2) this] x(1) y b False show ?thesis
    by (simp add: one_more_def add_param_eq [OF key rc] param_count_simps same_head_ok)
qed

lemma new_static_ok:
  assumes "k \<noteq> []" and "CHR ''<'' \<notin> set k" and "wf L B n" and "dt = None \<or> od = order"
  shows "static_ok n (hd k) (leaf True k dt od order None (pindex n) (pnames n))"
    and "wf L order (leaf True k dt od order None (pindex n) (pnames n))"
proof -
  show "wf L order (leaf True k dt od order None (pindex n) (pnames n))"
    using assms(4) wf_pindex [OF assms(3)] wf_pnames [OF assms(3)] by (intro leaf_wf)
qed (use assms in \<open>simp add: static_ok_def\<close>)

text \<open>The three shapes of addChild: no token, a token at the start, a token after a static part.\<close>

lemma addChild_token:
  assumes "key = k @ CHR ''<'' # b @ CHR ''>'' # r" and "CHR ''<'' \<notin> set k" and "CHR ''>'' \<notin> set b"
  shows "addChild rc n key d order =
    (if k = [] then add_param rc n key (length k) (Suc (length k + length b)) d order
     else map_option (\<lambda>(child', res). (set_children (put_child (hd k) child' (children n)) n, res))
       (add_param rc (leaf True k None 0 order None (pindex n) (pnames n)) key (length k)
          (Suc (length k + length b)) d order))"
proof -
  have tok: "find_token key 0 (- 1) = (int (length k), int (Suc (length k + length b)))"
    using find_token_param [OF assms(2,3), of r] assms(1) by simp
  have "addChild rc n key d order =
      (if 0 < length k
       then map_option (\<lambda>(child', res). (set_children (put_child (hd key) child' (children n)) n, res))
              (add_param rc (set_key (take (length k) key) (leaf True key None 0 order None (pindex n) (pnames n)))
                 key (length k) (Suc (length k + length b)) d order)
       else add_param rc n key (length k) (Suc (length k + length b)) d order)"
    unfolding addChild.simps tok Let_def case_prod_conv nat_int
    using assms(1) by (auto simp: leaf_def neq_Nil_conv split: list.splits)
  then show ?thesis using assms(1) by (cases k) (simp_all add: leaf_def)
qed

lemma addChild_ok:
  fixes d :: 'd
  assumes "wf L order n" and "closed_key key" and "key \<noteq> []" and "compiles rc (parse_key key)"
    and "map_of (children n) (hd key) = None" and "length (pnames n) + param_count key \<le> L"
  shows "one_more L order n key d (addChild rc n key d order)"
  using assms
proof (induction key arbitrary: n rule: measure_induct_rule [of length])
  case (less key)
  note wf = less.prems(1)
  obtain c key' where ck: "key = c # key'" using less.prems(3) by (cases key) auto
  from less.prems(2) show ?case
  proof (cases rule: closed_key_cases)
    case static
    let ?x = "leaf True key (Some d) order order None (pindex n) (pnames n)"
    have "addChild rc n key d order =
        Some (set_children (put_child (hd key) ?x (children n)) n, pindex n + 1)"
      using static by (simp add: addChild.simps ck find_token_static leaf_def del: find_token.simps)
    moreover have "routes ?x = {(parse_key key, d, order)}"
      by (simp add: routes_tails own_def parse_key_static [OF static])
    ultimately show ?thesis
      using add_static_child [OF wf less.prems(5) new_static_ok [OF less.prems(3) static wf]] wf_pindex [OF wf]
        param_count_simps(1) [OF static, of "[]"] param_count_simps(3)
      by (auto simp: one_more_def)
  next
    case (param k b r)
    note token = addChild_token [OF param(1-3), of rc n d order]
    have comp: "\<And>p. tok_regex b = Some p \<Longrightarrow> rc p" "compiles rc (parse_key r)"
      using less.prems(4) param
      by (auto simp: parse_key_static_append parse_key_param compiles_append compiles_Par)
    have cnt: "param_count key = Suc (param_count r)" using param by (simp add: param_count_simps)
    have IH: "one_more L order m r d (addChild rc m r d order)"
      if "r \<noteq> []" "wf L order m" "children m = []" "length (pnames m) + param_count r \<le> L" for m :: "'d node"
      using less.IH [of r m] that param comp by simp
    show ?thesis
    proof (cases "k = []")
      case True
      have "addChild rc n key d order = add_param rc n key (length k) (Suc (length k + length b)) d order"
        using True token by simp
      moreover have "one_more L order n (CHR ''<'' # b @ CHR ''>'' # r) d
          (add_param rc n key (length k) (Suc (length k + length b)) d order)"
        by (rule add_param_ok [OF wf param(1,3)]) (use comp less.prems(6) cnt IH in simp_all)
      ultimately show ?thesis using param(1) True by simp
    next
      case False
      let ?x = "leaf True k (None :: 'd option) 0 order None (pindex n) (pnames n)"
      have x: "static_ok n (hd k) ?x" "wf L order ?x"
        by (rule new_static_ok(1) [OF False param(2) wf], simp)
          (rule new_static_ok(2) [OF False param(2) wf], simp)
      have "one_more L order ?x (CHR ''<'' # b @ CHR ''>'' # r) d
          (add_param rc ?x key (length k) (Suc (length k + length b)) d order)"
        by (rule add_param_ok [OF x(2) param(1,3)]) (use comp less.prems(6) cnt IH in simp_all)
      then obtain y where y: "add_param rc ?x key (length k) (Suc (length k + length b)) d order =
            Some (y, int (length (pnames n) + param_count key))"
        "wf L order y" "same_head ?x y" "tails y = {(Par b # parse_key r, d, order)}"
        using cnt param(3) by (auto simp: one_more_def param_count_simps parse_key_param)
      have "addChild rc n key d order =
          Some (set_children (put_child (hd k) y (children n)) n, int (length (pnames n) + param_count key))"
        using token y(1) False by simp
      moreover have "routes y = {(parse_key key, d, order)}"
        using y(3,4) param
        by (simp add: routes_tails same_head_def own_def parse_key_static_append parse_key_param)
      moreover have "map_of (children n) (hd k) = None" using less.prems(5) param(1) False by simp
      ultimately show ?thesis
        using add_static_child [OF wf _ _ y(2)] x(1) y(3) by (auto simp: one_more_def same_head_ok)
    qed
  qed
qed

section \<open>Splitting and updating nodes\<close>

lemma common_prefix_full: "common_prefix a b = length b \<longleftrightarrow> (\<exists>r. a = b @ r)"
  by (induction a b rule: common_prefix.induct) auto

lemma common_prefix_take: "take (common_prefix a b) a = take (common_prefix a b) b"
  by (induction a b rule: common_prefix.induct) auto

lemma common_prefix_append [simp]: "common_prefix (b @ r) b = length b"
  using common_prefix_full by blast

lemma common_prefix_pos: "a \<noteq> [] \<Longrightarrow> b \<noteq> [] \<Longrightarrow> 0 < common_prefix a b \<longleftrightarrow> hd a = hd b"
  by (cases a; cases b) auto

text \<open>The key of a node as the code builds it.\<close>

definition sane :: "'d node \<Rightarrow> bool" where
  "sane n \<longleftrightarrow>
     (if static n then CHR ''<'' \<notin> set (nkey n)
      else \<exists>b nm. nkey n = CHR ''<'' # b @ ''>'' \<and> CHR ''>'' \<notin> set b \<and> regex n = tok_regex b \<and>
             pnames n = nm @ [token_name b])"

text \<open>The node takes the key: a call of add on it does not return -1.\<close>

definition takes :: "'d node \<Rightarrow> bytes \<Rightarrow> bool" where
  "takes n key \<longleftrightarrow>
     (if static n then nkey n = [] \<or> key \<noteq> [] \<and> hd key = hd (nkey n) else \<exists>r. key = nkey n @ r)"

text \<open>What an update keeps of a node: the key of a static node may get shorter.\<close>

definition kept :: "'d node \<Rightarrow> 'd node \<Rightarrow> bool" where
  "kept n n' \<longleftrightarrow>
     static n' = static n \<and> minOrder n' = minOrder n \<and> regex n' = regex n \<and> pindex n' = pindex n \<and>
     pnames n' = pnames n \<and>
     (if static n then set (nkey n') \<subseteq> set (nkey n) \<and> (nkey n = [] \<longleftrightarrow> nkey n' = []) \<and>
        (nkey n \<noteq> [] \<longrightarrow> hd (nkey n') = hd (nkey n))
      else nkey n' = nkey n)"

lemma same_head_kept: "same_head n n' \<Longrightarrow> kept n n'"
  by (auto simp: same_head_def kept_def)

lemma kept_trans: "kept a b \<Longrightarrow> kept b c \<Longrightarrow> kept a c"
  by (auto simp: kept_def split: if_splits)

lemma kept_ok:
  "kept x x' \<Longrightarrow> static_ok n c x \<Longrightarrow> static_ok n c x'"
  "kept x x' \<Longrightarrow> param_ok n x \<Longrightarrow> param_ok n x'"
  by (auto simp: kept_def static_ok_def param_ok_def)

lemma sane_self_ok: "sane n \<Longrightarrow> self_ok n"
  by (auto simp: sane_def self_ok_def split: if_splits)

lemma static_ok_sane: "static_ok n c x \<Longrightarrow> sane x"
  by (auto simp: sane_def static_ok_def)

lemma param_ok_sane: "param_ok n p \<Longrightarrow> sane p"
  by (auto simp: sane_def param_ok_def)

text \<open>A set of routes grows by a route, or has one with the same tokens already.\<close>

definition grown :: "'d route set \<Rightarrow> tok list \<Rightarrow> 'd \<Rightarrow> nat \<Rightarrow> 'd route set \<Rightarrow> bool" where
  "grown R ts d od R' \<longleftrightarrow> R' = insert (ts, d, od) R \<or> R' = R \<and> (\<exists>d' od'. (ts, d', od') \<in> R)"

lemma grown_Un: "grown R ts d od R' \<Longrightarrow> grown (R \<union> S) ts d od (R' \<union> S)"
  by (auto simp: grown_def)

lemma grown_extend: "grown R ts d od R' \<Longrightarrow> grown (extend us R) (us @ ts) d od (extend us R')"
  by (auto simp: grown_def) (force simp: extend_def)

lemma grown_routes:
  "own n' = own n \<Longrightarrow> grown (tails n) ts d od (tails n') \<Longrightarrow> grown (routes n) (own n @ ts) d od (routes n')"
  by (simp add: routes_tails grown_extend)

lemma grown_orders:
  assumes "wf L B n" and "grown (tails n) ts d B R'" and "r \<in> R'" and "r = (us, e, od)"
  shows "minOrder n \<le> od \<and> od \<le> B"
  using insert_orders [OF assms(1), of r ts d us e od] assms(2-4) by (auto simp: grown_def)

lemma replace_static_child:
  assumes wf: "wf L B n" and x: "map_of (children n) c = Some x" and y: "kept x y" "wf L B y"
    and g: "grown (routes x) ts d B (routes y)"
  defines "n' \<equiv> set_children (put_child c y (children n)) n"
  shows "wf L B n' \<and> same_head n n' \<and> grown (tails n) ts d B (tails n')"
proof -
  obtain as bs where ab: "children n = as @ (c, x) # bs" "put_child c y (children n) = as @ (c, y) # bs"
    using put_child_old [OF x] by blast
  let ?S = "data_route n \<union> (\<Union>x\<in>snd ` set (as @ bs). routes x) \<union> (\<Union>p\<in>set (pchildren n). routes p)"
  have ch: "children n' = as @ (c, y) # bs" "pchildren n' = pchildren n" "data_route n' = data_route n"
    by (simp_all add: n'_def ab(2))
  then have "tails n = routes x \<union> ?S" "tails n' = routes y \<union> ?S"
    by (simp_all add: tails_def ab(1) Un_ac)
  then have gr: "grown (tails n) ts d B (tails n')" using grown_Un [OF g] by simp
  have "wf L B n'"
  proof (rule wf_replace [OF wf])
    show "minOrder n \<le> od \<and> od \<le> B" if "(us, e, od) \<in> tails n'" for us e od
      using grown_orders [OF wf gr that refl] .
    show "distinct (map fst (children n'))" using wf_distinct [OF wf] ab by (simp add: n'_def)
    show "static_ok n c' z \<and> wf L B z" if "(c', z) \<in> set (children n')" for c' z
    proof (cases "(c', z) = (c, y)")
      case True
      with y kept_ok(1) [OF y(1)] wf_child [OF wf map_of_SomeD [OF x]] show ?thesis by simp
    next
      case False
      with that wf_child [OF wf, of c' z] show ?thesis by (auto simp: ch ab(1))
    qed
    show "param_ok n p \<and> wf L B p" if "p \<in> set (pchildren n')" for p
      using that wf_param [OF wf] by (simp add: n'_def)
  qed (simp add: n'_def)
  with gr show ?thesis by (simp add: n'_def)
qed

lemma replace_param_child:
  assumes wf: "wf L B n" and x: "pchildren n = as @ x # bs" and y: "kept x y" "wf L B y"
    and g: "grown (routes x) ts d B (routes y)"
  defines "n' \<equiv> set_pchildren (as @ y # bs) n"
  shows "wf L B n' \<and> same_head n n' \<and> grown (tails n) ts d B (tails n')"
proof -
  let ?S = "data_route n \<union> (\<Union>x\<in>snd ` set (children n). routes x) \<union> (\<Union>p\<in>set (as @ bs). routes p)"
  have "tails n = routes x \<union> ?S" "tails n' = routes y \<union> ?S"
    by (simp_all add: tails_def n'_def x Un_ac)
  then have gr: "grown (tails n) ts d B (tails n')" using grown_Un [OF g] by simp
  have "wf L B n'"
  proof (rule wf_replace [OF wf])
    show "minOrder n \<le> od \<and> od \<le> B" if "(us, e, od) \<in> tails n'" for us e od
      using grown_orders [OF wf gr that refl] .
    show "distinct (map fst (children n'))" using wf_distinct [OF wf] by (simp add: n'_def)
    show "static_ok n c' z \<and> wf L B z" if "(c', z) \<in> set (children n')" for c' z
      using that wf_child [OF wf] by (simp add: n'_def)
    show "param_ok n p \<and> wf L B p" if "p \<in> set (pchildren n')" for p
      using that y kept_ok(2) [OF y(1)] wf_param [OF wf] by (auto simp: n'_def x)
  qed (simp add: n'_def)
  with gr show ?thesis by (simp add: n'_def)
qed

lemma set_data_ok:
  fixes n :: "'d node" and d :: 'd
  assumes wf: "wf L B n" and nd: "ndata n = None"
  defines "n' \<equiv> set_data (Some d) B n"
  shows "wf L B n' \<and> same_head n n' \<and> grown (tails n) [] d B (tails n')"
proof -
  have sel: "children n' = children n" "pchildren n' = pchildren n" "same_head n n'"
    "data_route n' = {([], d, B)}"
    by (cases n; simp add: n'_def same_head_def data_route_def)+
  then have gr: "grown (tails n) [] d B (tails n')"
    using nd by (simp add: tails_def data_route_def grown_def)
  have "wf L B n'"
  proof (rule wf_replace [OF wf])
    show "minOrder n \<le> od \<and> od \<le> B" if "(us, e, od) \<in> tails n'" for us e od
      using grown_orders [OF wf gr that refl] .
  qed (use sel wf_distinct [OF wf] wf_child [OF wf] wf_param [OF wf] in auto)
  with gr sel show ?thesis by simp
qed

text \<open>Splitting a node changes neither its routes nor its well-formedness.\<close>

lemma extend_extend: "extend ts (extend us R) = extend (ts @ us) R"
  by (force simp: extend_def image_iff)

lemma split_node_ok:
  assumes wf: "wf L B n" and st: "static n" "sane n" and m: "0 < m" "m < length (nkey n)"
  defines "n' \<equiv> split_node m n"
  shows "wf L B n' \<and> kept n n' \<and> sane n' \<and> routes n' = routes n"
proof -
  let ?k = "nkey n"
  define n1 where "n1 = Node True (drop m ?k) (ndata n) (norder n) (minOrder n) (children n)
                 (pchildren n) None (pindex n) (pnames n)"
  have n': "n' = Node (static n) (take m ?k) None (norder n) (minOrder n)
           [(hd (drop m ?k), n1)] [] (regex n) (pindex n) (pnames n)"
    by (simp add: n'_def split_node_def n1_def)
  have t1: "tails n1 = tails n" by (simp add: tails_def n1_def data_route_def cong: option.case_cong)
  have ok1: "static_ok n1 c x = static_ok n c x" "param_ok n1 p = param_ok n p" for c x p
    by (simp_all add: n1_def static_ok_def param_ok_def)
  have r1: "routes n1 = extend (map Chr (drop m ?k)) (tails n)"
    unfolding routes_tails t1 by (simp add: own_def n1_def)
  have wf1: "wf L B n1"
    by (rule wfI) (use t1 wf_pindex [OF wf] wf_pnames [OF wf] wf_minOrder [OF wf] wf_tails_orders [OF wf] wf_distinct [OF wf]
        wf_child [OF wf] wf_param [OF wf] ok1 in \<open>auto simp: n1_def\<close>)
  have t': "tails n' = routes n1" by (simp add: n' tails_def data_route_def)
  have ord: "minOrder n \<le> od \<and> od \<le> B" if "(us, e, od) \<in> tails n'" for us e od
    using that wf_tails_orders [OF wf] by (auto simp: t' r1 extend_def)
  have lt: "CHR ''<'' \<notin> set ?k" using st by (simp add: sane_def)
  have "static_ok n' (hd (drop m ?k)) n1"
    using m lt by (auto simp: static_ok_def n1_def n' dest: in_set_dropD)
  then have "wf L B n'"
    using wf1 wf_pindex [OF wf] wf_pnames [OF wf] wf_minOrder [OF wf] ord by (intro wfI) (auto simp: n')
  moreover have "kept n n'" using st m by (auto simp: kept_def n' hd_take dest: in_set_takeD)
  moreover have "sane n'" using st lt by (auto simp: sane_def n' dest: in_set_takeD)
  moreover have "routes n' = routes n"
    unfolding routes_tails [of n'] t' r1 extend_extend
    using st by (simp add: routes_tails own_def n' flip: map_append)
  ultimately show ?thesis by blast
qed

section \<open>add\<close>

lemma add_skips:
  assumes "sane n" and "\<not> takes n key"
  shows "add rc n key d order = Some (n, - 1)"
proof (cases "static n")
  case True
  with assms have "nkey n \<noteq> []" "key = [] \<or> hd key \<noteq> hd (nkey n)" by (auto simp: takes_def)
  then have "common_prefix key (nkey n) = 0" "length (nkey n) \<noteq> 0"
    using common_prefix_pos [of key "nkey n"] by (cases "key = []"; simp)+
  then show ?thesis by (simp add: add.simps)
next
  case False
  with assms have "common_prefix key (nkey n) \<noteq> length (nkey n)"
    by (auto simp: takes_def common_prefix_full)
  with False show ?thesis by (simp add: add.simps)
qed

text \<open>What the induction shows of a call of add on a node that takes the key.\<close>

definition add_ok :: "nat \<Rightarrow> nat \<Rightarrow> 'd node \<Rightarrow> bytes \<Rightarrow> 'd \<Rightarrow> ('d node \<times> int) go \<Rightarrow> bool" where
  "add_ok L order n key d res \<longleftrightarrow>
     (\<exists>n'. res = Some (n', int (length (above n) + param_count key)) \<and> wf L order n' \<and> kept n n' \<and>
        grown (routes n) (parse_key key) d order (routes n'))"

lemma add_params_ok:
  assumes "\<And>p. p \<in> set ps \<Longrightarrow>
      (if takes p key then add_ok L order p key d (add rc p key d order)
       else add rc p key d order = Some (p, - 1)) \<and> length (above p) = k"
  shows "(\<forall>p\<in>set ps. \<not> takes p key) \<and> add_params rc ps key d order = Some (ps, - 1) \<or>
    (\<exists>as p bs p'. ps = as @ p # bs \<and> wf L order p' \<and> kept p p' \<and>
       grown (routes p) (parse_key key) d order (routes p') \<and>
       add_params rc ps key d order = Some (as @ p' # bs, int (k + param_count key)))"
  using assms
proof (induction ps)
  case (Cons p ps)
  show ?case
  proof (cases "takes p key")
    case True
    with Cons.prems [of p] obtain p' where "add rc p key d order = Some (p', int (k + param_count key))"
      "wf L order p'" "kept p p'" "grown (routes p) (parse_key key) d order (routes p')"
      by (auto simp: add_ok_def)
    then show ?thesis by (intro disjI2 exI [of _ "[]"] exI [of _ p] exI [of _ ps] exI [of _ p']) simp
  next
    case False
    then have skip: "add rc p key d order = Some (p, - 1)" using Cons.prems [of p] by simp
    have "(if takes q key then add_ok L order q key d (add rc q key d order)
        else add rc q key d order = Some (q, - 1)) \<and> length (above q) = k" if "q \<in> set ps" for q
      using Cons.prems that by simp
    from Cons.IH [OF this] consider
        "(\<forall>p\<in>set ps. \<not> takes p key) \<and> add_params rc ps key d order = Some (ps, - 1)"
      | as q bs q' where "ps = as @ q # bs" "wf L order q'" "kept q q'"
          "grown (routes q) (parse_key key) d order (routes q')"
          "add_params rc ps key d order = Some (as @ q' # bs, int (k + param_count key))"
      by blast
    then show ?thesis
    proof cases
      case 1
      with False skip show ?thesis by simp
    next
      case 2
      with skip show ?thesis
        by (intro disjI2 exI [of _ "p # as"] exI [of _ q] exI [of _ bs] exI [of _ q']) simp
    qed
  qed
qed simp

lemma own_prefix:
  assumes "sane n" and "key = nkey n @ r"
  shows "parse_key key = own n @ parse_key r"
proof (cases "static n")
  case True
  with assms show ?thesis by (simp add: sane_def parse_key_static_append)
next
  case False
  with assms show ?thesis by (auto simp: sane_def own_def parse_key_param)
qed

lemma param_count_own:
  assumes "sane n" and "key = nkey n @ r"
  shows "length (above n) + param_count key = length (pnames n) + param_count r"
  using tok_names_own [OF sane_self_ok [OF assms(1)], of "parse_key r"] own_prefix [OF assms]
  by (metis length_append param_count_def)

lemma closed_key_own:
  assumes "sane n" and "key = nkey n @ r" and "closed_key key"
  shows "closed_key r"
  using assms own_prefix [OF assms(1,2)] by (simp add: closed_key_def)

text \<open>From a change below the node to a change of the node.\<close>

lemma add_okI:
  assumes "sane n" and "key = nkey n @ r" and "res = Some (n', int (length (pnames n) + param_count r))"
    and "wf L order n'" and "same_head n n'" and "grown (tails n) (parse_key r) d order (tails n')"
  shows "add_ok L order n key d res"
  using assms param_count_own [OF assms(1,2)] own_prefix [OF assms(1,2)]
    grown_routes [OF same_head_own [OF assms(5)] assms(6)] same_head_kept [OF assms(5)]
  by (auto simp: add_ok_def)

lemma add_here:
  assumes "wf L order n" and "sane n"
  shows "add_ok L order n (nkey n) d (add rc n (nkey n) d order)"
proof (cases "ndata n")
  case None
  show ?thesis
    by (rule add_okI [OF assms(2), of _ "[]" _ "set_data (Some d) order n"])
      (use None wf_pindex [OF assms(1)] set_data_ok [OF assms(1) None] common_prefix_append [of "nkey n" "[]"]
        in \<open>simp_all add: add.simps [of rc n] param_count_simps\<close>)
next
  case (Some e)
  then have "grown (tails n) [] d order (tails n)"
    by (auto simp: grown_def tails_def data_route_def)
  with Some show ?thesis
    by (intro add_okI [OF assms(2), of _ "[]" _ n])
      (use assms wf_pindex [OF assms(1)] common_prefix_append [of "nkey n" "[]"]
        in \<open>simp_all add: add.simps [of rc n] param_count_simps\<close>)
qed

lemma add_below:
  assumes wf: "wf L order n" and n: "sane n" and r: "r \<noteq> []" "closed_key r" "compiles rc (parse_key r)"
    and L: "length (pnames n) + param_count r \<le> L"
    and st: "\<And>x. map_of (children n) (hd r) = Some x \<Longrightarrow> add_ok L order x r d (add rc x r d order)"
    and pa: "\<And>p. p \<in> set (pchildren n) \<Longrightarrow> takes p r \<Longrightarrow> add_ok L order p r d (add rc p r d order)"
  shows "add_ok L order n (nkey n @ r) d (add rc n (nkey n @ r) d order)"
proof (cases "map_of (children n) (hd r)")
  case (Some x)
  then have ab: "above x = pnames n" using wf_child(1) [OF wf map_of_SomeD] static_ok_simps(1) by metis
  from st [OF Some] ab obtain y where y: "add rc x r d order = Some (y, int (length (pnames n) + param_count r))"
    "wf L order y" "kept x y" "grown (routes x) (parse_key r) d order (routes y)"
    by (auto simp: add_ok_def)
  note new = replace_static_child [OF wf Some y(3,2,4)]
  show ?thesis
    by (rule add_okI [OF n refl]) (use new r Some y(1) in \<open>auto simp: add.simps [of rc n]\<close>)
next
  case None
  have loop: "(if takes p r then add_ok L order p r d (add rc p r d order)
      else add rc p r d order = Some (p, - 1)) \<and> length (above p) = length (pnames n)"
    if "p \<in> set (pchildren n)" for p
    using pa [OF that] add_skips [OF param_ok_sane] wf_param(1) [OF wf that] param_ok_simps(1) by metis
  from add_params_ok [of "pchildren n" r L order d rc "length (pnames n)", OF loop] consider
      "add_params rc (pchildren n) r d order = Some (pchildren n, - 1)"
    | as p bs p' where "pchildren n = as @ p # bs" "wf L order p'" "kept p p'"
        "grown (routes p) (parse_key r) d order (routes p')"
        "add_params rc (pchildren n) r d order = Some (as @ p' # bs, int (length (pnames n) + param_count r))"
    by blast
  then show ?thesis
  proof cases
    case 1
    have same: "set_pchildren (pchildren n) n = n" by (cases n) simp
    obtain n' where n': "addChild rc n r d order = Some (n', int (length (pnames n) + param_count r))"
      "wf L order n'" "same_head n n'" "tails n' = insert (parse_key r, d, order) (tails n)"
      using addChild_ok [OF wf r(2,1,3) None L] by (auto simp: one_more_def)
    show ?thesis
      by (rule add_okI [OF n refl, of _ n'])
        (use 1 n' None r same in \<open>auto simp: add.simps [of rc n] grown_def\<close>)
  next
    case 2
    note new = replace_param_child [OF wf 2(1,3,2,4)]
    show ?thesis
      by (rule add_okI [OF n refl]) (use new r None 2(5) in \<open>auto simp: add.simps [of rc n]\<close>)
  qed
qed

theorem add_correct:
  assumes "wf L order n" and "sane n" and "takes n key" and "closed_key key" and "compiles rc (parse_key key)"
    and "length (above n) + param_count key \<le> L"
  shows "add_ok L order n key d (add rc n key d order)"
  using assms
proof (induction n arbitrary: key rule: measure_induct_rule [of weight])
  case (less n)
  note wf = less.prems(1) and n = less.prems(2)
  show ?case
  proof (cases "\<exists>r. key = nkey n @ r")
    case True
    then obtain r where r: "key = nkey n @ r" by blast
    show ?thesis
    proof (cases "r = []")
      case True
      with r add_here [OF wf n] show ?thesis by simp
    next
      case False
      have cl: "closed_key r" "compiles rc (parse_key r)" "length (pnames n) + param_count r \<le> L"
        using closed_key_own [OF n r] own_prefix [OF n r] param_count_own [OF n r] less.prems
        by (simp_all add: compiles_append)
      have "add_ok L order x r d (add rc x r d order)" if x: "map_of (children n) (hd r) = Some x" for x
        using less.IH [OF weight_child [OF x], of r] wf_child [OF wf map_of_SomeD [OF x]] cl False
          static_ok_sane static_ok_simps(1) by (fastforce simp: takes_def static_ok_def above_def)
      moreover have "add_ok L order p r d (add rc p r d order)" if p: "p \<in> set (pchildren n)" "takes p r" for p
        using less.IH [OF weight_in_pchildren [OF p(1)], of r] wf_param [OF wf p(1)] cl p(2)
          param_ok_sane param_ok_simps(1) by metis
      ultimately show ?thesis unfolding r by (intro add_below [OF wf n False cl]) auto
    qed
  next
    case False
    then have st: "static n" and k: "nkey n \<noteq> []" "key \<noteq> []" "hd key = hd (nkey n)"
      using less.prems(3) by (auto simp: takes_def split: if_splits)
    let ?m = "common_prefix key (nkey n)"
    have m: "0 < ?m" "?m \<noteq> length (nkey n)" "?m < length (nkey n)"
      using False common_prefix_full [of key "nkey n"] common_prefix_pos [OF k(2,1)] k(3)
        common_prefix_le [of key "nkey n"] by auto
    have sp: "wf L order (split_node ?m n)" "kept n (split_node ?m n)" "sane (split_node ?m n)"
      "routes (split_node ?m n) = routes n"
      using split_node_ok [OF wf st n m(1,3)] by auto
    then have "takes (split_node ?m n) key" "above (split_node ?m n) = above n"
      using less.prems(3) st k by (auto simp: takes_def kept_def above_def)
    then have "add_ok L order (split_node ?m n) key d (add rc (split_node ?m n) key d order)"
      using less.IH [OF weight_split [OF m(1,3)], of key] sp less.prems by simp
    moreover have "add rc n key d order = add rc (split_node ?m n) key d order"
      using m st by (subst add.simps) simp
    ultimately show ?thesis
      using sp \<open>above (split_node ?m n) = above n\<close> by (auto simp: add_ok_def intro: kept_trans)
  qed
qed

section \<open>The store\<close>

text \<open>Adding keys one after the other, as the router does while routes are registered.\<close>

fun add_all :: "(bytes \<Rightarrow> bool) \<Rightarrow> 'd store \<Rightarrow> (bytes \<times> 'd) list \<Rightarrow> 'd store go" where
  "add_all rc s [] = Some s"
| "add_all rc s ((k, d) # rs) = Option.bind (store_Add rc s k d) (\<lambda>(s', _). add_all rc s' rs)"

definition numbered :: "(bytes \<times> 'd) list \<Rightarrow> nat \<Rightarrow> 'd route" where
  "numbered rs i = (parse_key (fst (rs ! i)), snd (rs ! i), Suc i)"

text \<open>The tree of a store that holds the keys \<open>rs\<close>.\<close>

definition store_inv :: "nat \<Rightarrow> 'd store \<Rightarrow> (bytes \<times> 'd) list \<Rightarrow> bool" where
  "store_inv L s rs \<longleftrightarrow>
     wf L (length rs) (root s) \<and> static (root s) \<and> nkey (root s) = [] \<and> pnames (root s) = [] \<and>
     count s = length rs \<and> routes (root s) \<subseteq> numbered rs ` {..<length rs} \<and>
     (\<forall>i<length rs. \<exists>j\<le>i. fst (numbered rs j) = fst (numbered rs i) \<and> numbered rs j \<in> routes (root s))"

lemma newStore_inv: "store_inv L newStore []"
proof -
  have r: "(root newStore :: 'a node) = leaf True [] None 0 0 None (- 1) []"
    by (simp add: newStore_def leaf_def)
  have "wf L 0 (root newStore :: 'a node)" unfolding r by (rule leaf_wf) simp_all
  moreover have "routes (root newStore :: 'a node) = {}" unfolding routes_tails r by simp
  ultimately show ?thesis by (simp add: store_inv_def newStore_def)
qed

lemma numbered_append: "i < length rs \<Longrightarrow> numbered (rs @ rs') i = numbered rs i"
  by (simp add: numbered_def nth_append)

lemma numbered_last: "numbered (rs @ [(k, d)]) (length rs) = (parse_key k, d, Suc (length rs))"
  by (simp add: numbered_def)

lemma store_Add_correct:
  assumes inv: "store_inv L s rs" and k: "closed_key key" "compiles rc (parse_key key)" "param_count key \<le> L"
  shows "\<exists>s'. store_Add rc s key d = Some (s', int (param_count key)) \<and> store_inv L s' (rs @ [(key, d)])"
proof -
  let ?n = "root s" and ?rs = "rs @ [(key, d)]"
  have n: "static ?n" "nkey ?n = []" "pnames ?n = []" "count s = length rs" and sub: "routes ?n \<subseteq> numbered rs ` {..<length rs}"
    and cov: "\<And>i. i < length rs \<Longrightarrow> \<exists>j\<le>i. fst (numbered rs j) = fst (numbered rs i) \<and> numbered rs j \<in> routes ?n"
    using inv by (auto simp: store_inv_def)
  have "wf L (Suc (length rs)) ?n" using inv wf_mono [of L "length rs" ?n L "Suc (length rs)"] by (simp add: store_inv_def)
  then have "add_ok L (Suc (length rs)) ?n key d (add rc ?n key d (Suc (length rs)))"
    using n k by (intro add_correct) (simp_all add: sane_def takes_def above_def)
  then obtain n' where n': "add rc ?n key d (Suc (length rs)) = Some (n', int (param_count key))"
    "wf L (Suc (length rs)) n'" "kept ?n n'" "grown (routes ?n) (parse_key key) d (Suc (length rs)) (routes n')"
    using n by (auto simp: add_ok_def above_def)
  let ?s = "s\<lparr>root := n', count := Suc (length rs)\<rparr>"
  have "routes n' \<subseteq> numbered ?rs ` {..<length ?rs}"
  proof
    fix x assume "x \<in> routes n'"
    with n'(4) sub consider "x = (parse_key key, d, Suc (length rs))" | i where "i < length rs" "x = numbered rs i"
      by (auto simp: grown_def)
    then show "x \<in> numbered ?rs ` {..<length ?rs}"
    proof cases
      case 1
      then show ?thesis using numbered_last [of rs key d] by (intro image_eqI [of _ _ "length rs"]) auto
    next
      case 2
      then show ?thesis using numbered_append [of i rs] by (intro image_eqI [of _ _ i]) auto
    qed
  qed
  moreover have "\<exists>j\<le>i. fst (numbered ?rs j) = fst (numbered ?rs i) \<and> numbered ?rs j \<in> routes n'" if "i < length ?rs" for i
  proof (cases "i < length rs")
    case True
    with cov [OF True] obtain j where "j \<le> i" "fst (numbered rs j) = fst (numbered rs i)" "numbered rs j \<in> routes ?n" by blast
    with True n'(4) show ?thesis by (intro exI [of _ j]) (auto simp: numbered_append grown_def)
  next
    case False
    with that have i: "i = length rs" by simp
    from n'(4) consider "(parse_key key, d, Suc (length rs)) \<in> routes n'"
      | d' od' where "(parse_key key, d', od') \<in> routes ?n" "routes n' = routes ?n" by (auto simp: grown_def)
    then show ?thesis
    proof cases
      case 1
      then show ?thesis using i numbered_last [of rs key d] by (intro exI [of _ i]) simp
    next
      case 2
      then obtain j where "j < length rs" "numbered rs j = (parse_key key, d', od')" using sub by force
      with 2 i show ?thesis by (intro exI [of _ j]) (simp add: numbered_append numbered_last)
    qed
  qed
  ultimately have "store_inv L ?s ?rs" using n' n by (simp add: store_inv_def kept_def)
  moreover have "store_Add rc s key d = Some (?s, int (param_count key))" using n' n by (simp add: store_Add_def)
  ultimately show ?thesis by blast
qed

definition good_keys :: "(bytes \<Rightarrow> bool) \<Rightarrow> nat \<Rightarrow> (bytes \<times> 'd) list \<Rightarrow> bool" where
  "good_keys rc L rs \<longleftrightarrow>
     (\<forall>(k, d) \<in> set rs. closed_key k \<and> compiles rc (parse_key k) \<and> param_count k \<le> L)"

lemma add_all_correct:
  assumes "store_inv L s rs" and "good_keys rc L rs'"
  shows "\<exists>s'. add_all rc s rs' = Some s' \<and> store_inv L s' (rs @ rs')"
  using assms
proof (induction rs' arbitrary: s rs)
  case (Cons kd rs')
  obtain k d where kd: "kd = (k, d)" by force
  from Cons.prems kd have k: "closed_key k" "compiles rc (parse_key k)" "param_count k \<le> L" and "good_keys rc L rs'"
    by (auto simp: good_keys_def)
  moreover from store_Add_correct [OF Cons.prems(1) k] obtain s1
    where "store_Add rc s k d = Some (s1, int (param_count k))" "store_inv L s1 (rs @ [(k, d)])" by blast
  ultimately show ?case using Cons.IH [of s1 "rs @ [(k, d)]"] kd by auto
qed (simp add: store_inv_def)

lemma find_first:
  assumes "i < length xs" and "P (xs ! i)" and "\<And>j. j < i \<Longrightarrow> \<not> P (xs ! j)"
  shows "List.find P xs = Some (xs ! i)"
  using assms by (auto simp: find_Some_iff)

lemma store_Get_correct:
  assumes inv: "store_inv L s rs" and "length rs < MaxInt32" and "L \<le> length pv"
  shows "case first_match rx rs path of
      None \<Rightarrow> \<exists>pv'. store_Get rx s path pv = Some (None, [], pv')
    | Some (k, d) \<Rightarrow> \<exists>vs pv'. match_toks rx (parse_key k) path = Some vs \<and>
        store_Get rx s path pv = Some (Some d, tok_names (parse_key k), pv') \<and> take (length vs) pv' = vs"
proof -
  let ?n = "root s" and ?P = "\<lambda>(k, d). match_toks rx (parse_key k) path \<noteq> None"
  have sub: "routes ?n \<subseteq> numbered rs ` {..<length rs}"
    and cov: "\<And>i. i < length rs \<Longrightarrow> \<exists>j\<le>i. fst (numbered rs j) = fst (numbered rs i) \<and> numbered rs j \<in> routes ?n"
    and ab: "above ?n = []" using inv by (auto simp: store_inv_def above_def)
  have "get_ok rx L (above ?n) ?n path pv"
    using assms by (intro get_correct) (auto simp: store_inv_def self_ok_def)
  then obtain d names od pv' where g: "get rx ?n path pv = Some ((d, names, od), pv')"
    and b: "best rx (routes ?n) path [] [] (d, names, od) pv'" by (auto simp: get_ok_def ab)
  have get: "store_Get rx s path pv = Some (d, names, pv')" by (simp add: store_Get_def g)
  have hit: "?P (rs ! i) \<longleftrightarrow> match_toks rx (fst (numbered rs i)) path \<noteq> None" for i
    by (simp add: numbered_def case_prod_beta)
  show ?thesis
  proof (cases d)
    case None
    have "\<not> ?P (rs ! i)" if i: "i < length rs" for i
      using cov [OF i] b None hit by (fastforce simp: best_def numbered_def)
    then have "first_match rx rs path = None"
      unfolding first_match_def find_None_iff by (metis in_set_conv_nth)
    moreover have "names = []" using b None best_None_names by metis
    ultimately show ?thesis using get None by simp
  next
    case (Some e)
    from b Some obtain ts vs where t: "(ts, e, od) \<in> routes ?n" "match_toks rx ts path = Some vs"
      "names = tok_names ts" "take (length names) pv' = vs" by (auto simp: best_def)
    from t(1) sub obtain i where i: "i < length rs" "(ts, e, od) = numbered rs i" by blast
    have "\<not> ?P (rs ! j)" if "j < i" for j
    proof
      assume P: "?P (rs ! j)"
      from cov [of j] that i obtain l where l: "l \<le> j" "fst (numbered rs l) = fst (numbered rs j)" "numbered rs l \<in> routes ?n"
        by auto
      with P hit have "od \<le> Suc l" using b Some by (fastforce simp: best_def numbered_def)
      with i l that show False by (simp add: numbered_def)
    qed
    then have "first_match rx rs path = Some (rs ! i)"
      unfolding first_match_def using i t hit by (intro find_first) (auto simp: numbered_def)
    moreover have "length vs = length names" using match_toks_length [OF t(2)] t(3) by simp
    ultimately show ?thesis
      using t i get Some by (auto simp: numbered_def case_prod_beta)
  qed
qed

lemma store_Get_length:
  assumes "store_inv L s rs" and "length rs < MaxInt32" and "L \<le> length pv"
    and "store_Get rx s path pv = Some (d, names, pv')"
  shows "length pv' = length pv"
proof -
  have "get_ok rx L (above (root s)) (root s) path pv"
    using assms by (intro get_correct) (auto simp: store_inv_def self_ok_def)
  with assms(4) show ?thesis by (auto simp: get_ok_def store_Get_def)
qed


text \<open>Add returns the number of parameters of the key, whatever keys were added before.\<close>

theorem store_Add_param_count:
  assumes "good_keys rc L rs" and "closed_key key" and "compiles rc (parse_key key)"
  shows "\<exists>s s'. add_all rc newStore rs = Some s \<and>
           store_Add rc s key d = Some (s', int (length (tok_names (parse_key key))))"
proof -
  let ?L = "max L (param_count key)"
  have "good_keys rc ?L rs" using assms(1) by (force simp: good_keys_def)
  from add_all_correct [OF newStore_inv this] obtain s
    where s: "add_all rc newStore rs = Some s" "store_inv ?L s rs" by auto
  with store_Add_correct [OF s(2) assms(2,3), of d] show ?thesis by (auto simp: param_count_def)
qed

text \<open>Three keys that all match the path: the first one added wins over the static one.\<close>

definition sample_keys :: "(bytes \<times> nat) list" where
  "sample_keys = [(''/users/<id>'', 1), (''/users/all'', 2), (''/<rest:.*>'', 3)]"

lemma sample_keys_good: "good_keys (\<lambda>_. True) 1 sample_keys"
  by (simp add: sample_keys_def good_keys_def closed_key_def compiles_def param_count_def parse_key.simps)


theorem store_Add_param_count_witness:
  "good_keys (\<lambda>_. True) 1 sample_keys \<and> closed_key ''/<a>/<b>'' \<and> compiles (\<lambda>_. True) (parse_key ''/<a>/<b>'') \<and>
   (\<exists>s s'. add_all (\<lambda>_. True) newStore sample_keys = Some s \<and>
      store_Add (\<lambda>_. True) s ''/<a>/<b>'' 4 = Some (s', 2))"
proof -
  have k: "closed_key ''/<a>/<b>''" "compiles (\<lambda>_. True) (parse_key ''/<a>/<b>'')"
    by (simp_all add: closed_key_def compiles_def parse_key.simps)
  show ?thesis
    using store_Add_param_count [OF sample_keys_good k, of 4] sample_keys_good k by (simp add: parse_key.simps)
qed

text \<open>Without the closed brackets the specification fails: after \<open>/a<b\<close> the key \<open>/a<b>\<close> is split
  inside its token and matches only itself, literally.\<close>

theorem unclosed_key_captures_token:
  "\<exists>s pv1 pv2. add_all (\<lambda>_. True) newStore [(''/a<b'', 1 :: nat), (''/a<b>'', 2)] = Some s \<and>
     store_Get (\<lambda>_ _. None) s ''/ax'' [[]] = Some (None, [], pv1) \<and>
     store_Get (\<lambda>_ _. None) s ''/a<b>'' [[]] = Some (Some 2, [], pv2)"
  by (simp add: store_Add_def newStore_def add.simps addChild.simps store_Get_def get.simps match_node_def Let_def)

end
