(* ===== verification/Route.thy ===== *)
theory Route
  imports Bytesconv Store_Insert
begin

text \<open>
  Building URLs from a route (src/fasthttp-routing/route.go): the template of a path, its
  segments, parameter names and regular expressions, and the three ways to fill them in.

  A compiled regular expression is its source text; \<open>rc\<close> says whether a text compiles and
  \<open>rx p s\<close> is the end of the leftmost match, so that MatchString is \<open>rx p s \<noteq> None\<close>. An error
  value is its message.
\<close>

section \<open>Library functions\<close>

text \<open>strconv.Itoa of a length.\<close>

fun Itoa :: "nat \<Rightarrow> bytes" where
  "Itoa n = (if n < 10 then [mk_byte (48 + n)] else Itoa (n div 10) @ [mk_byte (48 + n mod 10)])"

declare Itoa.simps [simp del]

text \<open>strings.Replace without a limit, for a pattern that is not empty.\<close>

function Replace :: "bytes \<Rightarrow> bytes \<Rightarrow> bytes \<Rightarrow> bytes" where
  "Replace [] old new = []"
| "Replace (c # s) old new =
     (if old \<noteq> [] \<and> prefix old (c # s) then new @ Replace (drop (length old) (c # s)) old new
      else c # Replace s old new)"
  by pat_completeness auto
termination
  by (relation "measure (\<lambda>(s, _). length s)") auto

text \<open>url.QueryEscape leaves letters, digits and \<open>-_.~\<close>, writes a space as a plus sign and
  percent-encodes the rest in upper case, as AppendQuotedArg does.\<close>

definition QueryEscape :: "bytes \<Rightarrow> bytes" where
  "QueryEscape s = AppendQuotedArg [] s"

section \<open>Templates\<close>

text \<open>The loop of buildURLTemplate at position \<open>i\<close>: the template so far and the position of the
  last closing bracket.\<close>

function template_loop :: "bytes \<Rightarrow> nat \<Rightarrow> int \<Rightarrow> int \<Rightarrow> bytes \<Rightarrow> int \<times> bytes" where
  "template_loop path i start fin t =
     (if i < length path then
        if path ! i = CHR ''<'' \<and> start < 0 then template_loop path (i + 1) (int i) fin t
        else if path ! i = CHR ''>'' \<and> start \<ge> 0 then
          template_loop path (i + 1) (- 1) (int i)
            (t @ slice (nat (fin + 1)) (nat start) path @
             ''<'' @ token_name (slice (nat start + 1) i path) @ ''>'')
        else template_loop path (i + 1) start fin t
      else (fin, t))"
  by pat_completeness auto
termination
  by (relation "measure (\<lambda>(path, i, _). length path - i)") auto

definition buildURLTemplate :: "bytes \<Rightarrow> bytes" where
  "buildURLTemplate path =
     (let (fin, t) = template_loop path 0 (- 1) (- 1) []
      in if fin < 0 then path
         else if fin < int (length path) - 1 then t @ drop (nat fin + 1) path
         else t)"

type_synonym parts = "bytes list \<times> bytes list \<times> bytes option list"

text \<open>The loop of buildURLTemplate2; compiling a bad pattern panics.\<close>

function parts_loop :: "(bytes \<Rightarrow> bool) \<Rightarrow> bytes \<Rightarrow> nat \<Rightarrow> int \<Rightarrow> int \<Rightarrow> parts \<Rightarrow> (int \<times> parts) go" where
  "parts_loop rc path i start fin acc =
     (if i < length path then
        if path ! i = CHR ''<'' \<and> start < 0 then parts_loop rc path (i + 1) (int i) fin acc
        else if path ! i = CHR ''>'' \<and> start \<ge> 0 then
          (let body = slice (nat start + 1) i path;
               reg = (if token_pattern body \<noteq> [] then Some (CHR ''^'' # token_pattern body) else None);
               (segments, paramNames, regexps) = acc
           in if token_pattern body \<noteq> [] \<and> \<not> rc (CHR ''^'' # token_pattern body) then None
              else parts_loop rc path (i + 1) (- 1) (int i)
                     (segments @ [slice (nat (fin + 1)) (nat start) path, ''<'' @ token_name body @ ''>''],
                      paramNames @ [token_name body], regexps @ [reg]))
        else parts_loop rc path (i + 1) start fin acc
      else Some (fin, acc))"
  by pat_completeness auto
termination
  by (relation "measure (\<lambda>(rc, path, i, _). length path - i)") auto

declare template_loop.simps [simp del] parts_loop.simps [simp del]

definition parts_finish :: "bytes \<Rightarrow> int \<times> parts \<Rightarrow> parts" where
  "parts_finish path r =
     (case r of (fin, segments, paramNames, regexps) \<Rightarrow>
        if fin < 0 then (segments @ [path], paramNames, regexps)
        else if fin < int (length path) - 1 then (segments @ [drop (nat fin + 1) path], paramNames, regexps)
        else (segments, paramNames, regexps))"

definition buildURLTemplate2 :: "(bytes \<Rightarrow> bool) \<Rightarrow> bytes \<Rightarrow> parts go" where
  "buildURLTemplate2 rc path =
     map_option (parts_finish path) (parts_loop rc path 0 (- 1) (- 1) ([], [], []))"

section \<open>Filling in parameters\<close>

text \<open>URL; the pairs are given as the strings that fmt prints for them.\<close>

fun URL_loop :: "bytes \<Rightarrow> bytes list \<Rightarrow> bytes" where
  "URL_loop s [] = s"
| "URL_loop s (p # ps) =
     URL_loop (Replace s (''<'' @ p @ ''>'') (case ps of [] \<Rightarrow> [] | v # _ \<Rightarrow> QueryEscape v)) ps"

definition URL :: "bytes \<Rightarrow> bytes list \<Rightarrow> bytes" where
  "URL template pairs = URL_loop template pairs"

definition count_error :: "nat \<Rightarrow> nat \<Rightarrow> bytes" where
  "count_error need got = ''paramNames count error: need '' @ Itoa need @ '',got '' @ Itoa got"

definition mismatch_error :: "bytes \<Rightarrow> bytes \<Rightarrow> bytes" where
  "mismatch_error v re = ''param: '' @ v @ '' doesn'' @ [CHR 39] @ ''t match '' @ re"

text \<open>The check of the values in URLByIndex: \<open>None\<close> when all are fine, an error otherwise.\<close>

fun check_params ::
    "(bytes \<Rightarrow> bytes \<Rightarrow> nat option) \<Rightarrow> bytes option list \<Rightarrow> bytes list \<Rightarrow> bytes option go" where
  "check_params rx regexps [] = Some None"
| "check_params rx regexps (v # vs) =
     (case regexps of
        [] \<Rightarrow> None
      | None # rs \<Rightarrow> if Contains v ''/'' then Some (Some (v @ '' contains '' @ ''/'')) else check_params rx rs vs
      | Some p # rs \<Rightarrow> if rx p v = None then Some (Some (mismatch_error v p)) else check_params rx rs vs)"

fun join_index :: "bytes list \<Rightarrow> bytes list \<Rightarrow> bytes \<Rightarrow> bytes go" where
  "join_index [] params url = Some url"
| "join_index (s # ss) params url =
     (case s of
        [] \<Rightarrow> None
      | c # _ \<Rightarrow>
          if c = CHR ''<'' then
            (case params of [] \<Rightarrow> None | v # vs \<Rightarrow> join_index ss vs (url @ v))
          else join_index ss params (url @ s))"

definition URLByIndex ::
    "(bytes \<Rightarrow> bytes \<Rightarrow> nat option) \<Rightarrow> parts \<Rightarrow> bytes list \<Rightarrow> (bytes + bytes) go" where
  "URLByIndex rx r params =
     (case r of (segments, paramNames, regexps) \<Rightarrow>
        if length params \<noteq> length paramNames
        then Some (Inl (count_error (length paramNames) (length params)))
        else
          (case check_params rx regexps params of
             None \<Rightarrow> None
           | Some (Some e) \<Rightarrow> Some (Inl e)
           | Some None \<Rightarrow> map_option Inr (join_index segments params [])))"

text \<open>The check of one name in URLByNames: \<open>k\<close> is the index of the name in names, \<open>v\<close> the entry
  after it. The message of a mismatch takes the regular expression at index \<open>k\<close>, as the code does.\<close>

fun check_name ::
    "(bytes \<Rightarrow> bytes \<Rightarrow> nat option) \<Rightarrow> bytes option list \<Rightarrow> nat \<Rightarrow> bytes \<Rightarrow> bytes option \<Rightarrow>
     (bytes \<times> bytes option) list \<Rightarrow> bytes option go" where
  "check_name rx regexps k n v [] =
     Some (Some (''doesn'' @ [CHR 39] @ ''t contain paramName:'' @ n))"
| "check_name rx regexps k n v ((n1, re) # ps) =
     (if n = n1 then
        (case v of
           None \<Rightarrow> None
         | Some x \<Rightarrow>
             (case re of
                None \<Rightarrow> Some (if Contains x ''/'' then Some (x @ '' contains '' @ ''/'') else None)
              | Some p \<Rightarrow>
                  if rx p x = None then
                    (if k < length regexps
                     then map_option (\<lambda>q. Some (mismatch_error x q)) (regexps ! k) else None)
                  else Some None))
      else check_name rx regexps k n v ps)"

fun check_names ::
    "(bytes \<Rightarrow> bytes \<Rightarrow> nat option) \<Rightarrow> parts \<Rightarrow> nat \<Rightarrow> bytes list \<Rightarrow> bytes option go" where
  "check_names rx r k [] = Some None"
| "check_names rx r k (n # ns) =
     (if k mod 2 = 0 then
        (case check_name rx (snd (snd r)) k n (case ns of [] \<Rightarrow> None | v # _ \<Rightarrow> Some v)
                (zip (fst (snd r)) (snd (snd r))) of
           None \<Rightarrow> None
         | Some (Some e) \<Rightarrow> Some (Some e)
         | Some None \<Rightarrow> check_names rx r (k + 1) ns)
      else check_names rx r (k + 1) ns)"

text \<open>The value for a parameter: the entry after the first entry equal to the name.\<close>

fun value_of :: "bytes \<Rightarrow> bytes list \<Rightarrow> bytes go" where
  "value_of n [] = Some []"
| "value_of n (x # xs) = (if n = x then (case xs of [] \<Rightarrow> None | v # _ \<Rightarrow> Some v) else value_of n xs)"

fun join_names :: "bytes list \<Rightarrow> bytes list \<Rightarrow> bytes \<Rightarrow> bytes go" where
  "join_names [] names url = Some url"
| "join_names (s # ss) names url =
     (case s of
        [] \<Rightarrow> None
      | c # _ \<Rightarrow>
          if c = CHR ''<'' then
            if length s < 2 then None else
            Option.bind (value_of (slice 1 (length s - 1) s) names) (\<lambda>v. join_names ss names (url @ v))
          else join_names ss names (url @ s))"

definition URLByNames ::
    "(bytes \<Rightarrow> bytes \<Rightarrow> nat option) \<Rightarrow> parts \<Rightarrow> bytes list \<Rightarrow> (bytes + bytes) go" where
  "URLByNames rx r names =
     (case r of (segments, paramNames, regexps) \<Rightarrow>
        if length names div 2 \<noteq> length paramNames
        then Some (Inl (count_error (length paramNames) (length names div 2)))
        else
          (case check_names rx r 0 names of
             None \<Rightarrow> None
           | Some (Some e) \<Rightarrow> Some (Inl e)
           | Some None \<Rightarrow> map_option Inr (join_names segments names [])))"

text \<open>combineHandlers allocates a list of both lengths and copies both lists into it.\<close>

definition combineHandlers :: "'h list \<Rightarrow> 'h list \<Rightarrow> 'h list" where
  "combineHandlers h1 h2 = h1 @ h2"

section \<open>The segments of a path\<close>

text \<open>Reference: static text collected up to each token, the token by its name, and at the end
  the remaining static text unless it is empty and a token came before.\<close>

fun segs :: "bytes \<Rightarrow> bool \<Rightarrow> tok list \<Rightarrow> bytes list" where
  "segs acc first [] = (if first \<or> acc \<noteq> [] then [acc] else [])"
| "segs acc first (Chr c # ts) = segs (acc @ [c]) first ts"
| "segs acc first (Par b # ts) = acc # (''<'' @ token_name b @ ''>'') # segs [] False ts"

fun tok_regexps :: "tok list \<Rightarrow> bytes option list" where
  "tok_regexps [] = []"
| "tok_regexps (Chr c # ts) = tok_regexps ts"
| "tok_regexps (Par b # ts) = tok_regex b # tok_regexps ts"

lemma segs_static: "segs acc first (map Chr s) = (if first \<or> acc @ s \<noteq> [] then [acc @ s] else [])"
  by (induction s arbitrary: acc) auto

lemma tok_static [simp]: "tok_names (map Chr s) = []" "tok_regexps (map Chr s) = []" "compiles rc (map Chr s)"
  by (induction s) (auto simp: compiles_def)

text \<open>Inside a token the loop runs to the closing bracket, or to the end if there is none.\<close>

lemma parts_loop_body:
  assumes "CHR ''>'' \<notin> set b" and "drop i path = b @ r" and "0 \<le> start"
  shows "parts_loop rc path i start fin acc = parts_loop rc path (i + length b) start fin acc"
  using assms
proof (induction b arbitrary: i)
  case (Cons c b)
  then have i: "i < length path" "path ! i = c" "drop (Suc i) path = b @ r"
    using drop_ConsD [of i path c "b @ r"] by simp_all
  have "c \<noteq> CHR ''>''" using Cons.prems(1) by auto
  with i Cons show ?case by (subst parts_loop.simps) simp
qed simp

lemma parts_loop_end: "length path \<le> i \<Longrightarrow> parts_loop rc path i start fin acc = Some (fin, acc)"
  by (subst parts_loop.simps) simp

lemma compiles_Chr [simp]: "compiles rc (Chr c # ts) \<longleftrightarrow> compiles rc ts"
  by (simp add: compiles_def)

text \<open>The loop outside a token computes the segments of the rest of the path.\<close>

definition parts_spec :: "(bytes \<Rightarrow> bool) \<Rightarrow> parts \<Rightarrow> bytes \<Rightarrow> bool \<Rightarrow> tok list \<Rightarrow> parts go" where
  "parts_spec rc acc s first ts =
     (case acc of (S, N, R) \<Rightarrow>
        if compiles rc ts then Some (S @ segs s first ts, N @ tok_names ts, R @ tok_regexps ts) else None)"

lemma parts_finish_static:
  assumes "int n = fin + 1" and "n \<le> length path" and that: "n \<le> i"
  shows "Some (parts_finish path (fin, acc)) =
           parts_spec rc acc (slice n i path) (fin < 0) (map Chr (drop i path))"
proof -
  have d: "slice n i path @ drop i path = drop n path" using that by (rule slice_drop)
  have n: "n = nat (fin + 1)" using assms by simp
  show ?thesis
    using assms d by (cases acc) (auto simp: parts_spec_def parts_finish_def segs_static n nat_add_distrib)
qed

lemma parts_loop_token:
  assumes "drop i path = CHR ''<'' # b @ CHR ''>'' # r" and b: "CHR ''>'' \<notin> set b"
  shows "parts_loop rc path i (- 1) fin (S, N, R) =
    (if \<forall>p. tok_regex b = Some p \<longrightarrow> rc p
     then parts_loop rc path (i + length b + 2) (- 1) (int (i + length b + 1))
            (S @ [slice (nat (fin + 1)) i path, ''<'' @ token_name b @ ''>''], N @ [token_name b], R @ [tok_regex b])
     else None)"
proof -
  let ?j = "i + length b + 1"
  have i: "i < length path" "path ! i = CHR ''<''" "drop (Suc i) path = b @ CHR ''>'' # r"
    using drop_ConsD [OF assms(1)] by auto
  have j: "drop ?j path = CHR ''>'' # r"
    using i(3) by (metis add.commute add_Suc_right append_eq_conv_conj drop_drop plus_1_eq_Suc)
  have body: "slice (i + 1) ?j path = b" using i(3) by (simp add: slice_def)
  have "parts_loop rc path i (- 1) fin (S, N, R) = parts_loop rc path (Suc i) (int i) fin (S, N, R)"
    using i by (subst parts_loop.simps) simp
  also have "\<dots> = parts_loop rc path ?j (int i) fin (S, N, R)"
    using parts_loop_body [OF b i(3)] by simp
  finally show ?thesis
    using drop_ConsD [OF j] body
    by (subst (asm) parts_loop.simps [of rc path ?j]) (auto simp: Let_def tok_regex_def)
qed

lemma parts_loop_open:
  assumes "CHR ''>'' \<notin> set (drop i path)" and "0 \<le> start"
  shows "parts_loop rc path i start fin acc = Some (fin, acc)"
proof -
  have "parts_loop rc path i start fin acc = parts_loop rc path (i + length (drop i path)) start fin acc"
    using assms by (intro parts_loop_body [of _ _ _ "[]"]) auto
  also have "\<dots> = Some (fin, acc)" by (rule parts_loop_end) simp
  finally show ?thesis .
qed

lemma parse_key_no_close: "CHR ''>'' \<notin> set s \<Longrightarrow> parse_key s = map Chr s"
  by (induction s) (auto simp: parse_key.simps)

lemma parts_loop_correct:
  assumes "int n = fin + 1" and "n \<le> i" and "i \<le> length path"
  shows "map_option (parts_finish path) (parts_loop rc path i (- 1) fin acc) =
           parts_spec rc acc (slice n i path) (fin < 0) (parse_key (drop i path))"
  using assms
proof (induction "length path - i" arbitrary: i n fin acc rule: less_induct)
  case less
  obtain S N R where acc: "acc = (S, N, R)" by (cases acc)
  show ?case
  proof (cases "drop i path")
    case Nil
    then have "parts_loop rc path i (- 1) fin acc = Some (fin, acc)"
      by (intro parts_loop_end) simp
    with Nil parts_finish_static [of n fin path i acc rc] less.prems show ?thesis by simp
  next
    case (Cons c s)
    note i = drop_ConsD [OF Cons]
    show ?thesis
    proof (cases "c = CHR ''<''")
      case False
      then have "parts_loop rc path i (- 1) fin acc = parts_loop rc path (Suc i) (- 1) fin acc"
        using i by (subst parts_loop.simps) simp
      moreover have "map_option (parts_finish path) (parts_loop rc path (Suc i) (- 1) fin acc) =
          parts_spec rc acc (slice n (Suc i) path) (fin < 0) (parse_key (drop (Suc i) path))"
        using less.prems i by (intro less.hyps) auto
      ultimately show ?thesis
        using less.prems i False Cons by (simp add: acc slice_step parts_spec_def parse_key.simps)
    next
      case lt: True
      show ?thesis
      proof (cases "CHR ''>'' \<in> set s")
        case False
        then have "parse_key (drop i path) = map Chr (drop i path)"
          using Cons lt by (intro parse_key_no_close) simp
        moreover have "parts_loop rc path i (- 1) fin acc = Some (fin, acc)"
          using i lt parts_loop_open [of "Suc i" path "int i" rc fin acc] False
          by (subst parts_loop.simps) simp
        ultimately show ?thesis using parts_finish_static [of n fin path i acc rc] less.prems by simp
      next
        case True
        then obtain b r where br: "s = b @ CHR ''>'' # r" "CHR ''>'' \<notin> set b" by (metis split_list_first)
        let ?j = "i + length b + 2"
        have d: "drop i path = CHR ''<'' # b @ CHR ''>'' # r" using Cons lt br by simp
        have r: "drop ?j path = r" using arg_cong [OF d, of "drop (length b + 2)"] by (simp add: add.commute add.left_commute)
        have len: "?j \<le> length path" using arg_cong [OF d, of length] by simp
        have pk: "parse_key (drop i path) = Par b # parse_key r" using d br(2) by (simp add: parse_key_param)
        have nfin: "nat (fin + 1) = n" using less.prems(1) by simp
        show ?thesis
          using less.hyps [of ?j ?j "int (i + length b + 1)"] len i r less.prems(2)
          unfolding acc parts_loop_token [OF d br(2)] pk
          by (auto simp: parts_spec_def compiles_Par nfin slice_def)
      qed
    qed
  qed
qed

lemma buildURLTemplate2_eq:
  "buildURLTemplate2 rc path =
     (if compiles rc (parse_key path)
      then Some (segs [] True (parse_key path), tok_names (parse_key path), tok_regexps (parse_key path))
      else None)"
  using parts_loop_correct [of 0 "- 1" 0 path rc "([], [], [])"]
  by (simp add: buildURLTemplate2_def parts_spec_def slice_def)

text \<open>BuildURLTemplate2 splits every path into the static texts and the parameter names of
  its tokens, in order, with the compiled pattern of each token or nil; it panics exactly when a
  pattern does not compile.\<close>

theorem buildURLTemplate2_correct:
  "buildURLTemplate2 rc path =
     (if compiles rc (parse_key path)
      then Some (segs [] True (parse_key path), tok_names (parse_key path), tok_regexps (parse_key path))
      else None)"
  by (rule buildURLTemplate2_eq)

lemma template_loop_concat:
  "parts_loop rc path i start fin (S, N, R) = Some (fin', S', N', R') \<Longrightarrow>
     template_loop path i start fin (concat S) = (fin', concat S')"
proof (induction "length path - i" arbitrary: i start fin S N R rule: less_induct)
  case less
  from less.prems show ?case
    by (subst template_loop.simps, subst (asm) parts_loop.simps)
      (auto simp: Let_def split: if_splits dest!: less.hyps [rotated])
qed

text \<open>Without panics from the compiler both loops see the same tokens.\<close>

lemma parts_loop_total:
  "\<exists>fin' S' N' R'. parts_loop (\<lambda>_. True) path i start fin (S, N, R) = Some (fin', S', N', R')"
proof (induction "length path - i" arbitrary: i start fin S N R rule: less_induct)
  case less
  show ?case by (subst parts_loop.simps) (auto simp: Let_def intro!: less.hyps)
qed

lemma parts_loop_no_token:
  "parts_loop rc path i start fin (S, N, R) = Some (fin', S', N', R') \<Longrightarrow> fin' < 0 \<Longrightarrow> fin < 0 \<and> S' = S"
proof (induction "length path - i" arbitrary: i start fin S N R rule: less_induct)
  case less
  show ?case
  proof (cases "i < length path \<and> path ! i = CHR ''>'' \<and> 0 \<le> start")
    case True
    with less.prems(1) obtain S1 N1 R1 where
      "parts_loop rc path (Suc i) (- 1) (int i) (S1, N1, R1) = Some (fin', S', N', R')"
      by (subst (asm) parts_loop.simps) (auto simp: Let_def split: if_splits)
    from less.hyps [OF _ this less.prems(2)] True show ?thesis by (simp add: diff_less_mono2)
  next
    case False
    show ?thesis
    proof (cases "i < length path")
      case True
      with False less.prems(1) obtain start' where
        "parts_loop rc path (Suc i) start' fin (S, N, R) = Some (fin', S', N', R')"
        by (subst (asm) parts_loop.simps) (auto split: if_splits)
      from less.hyps [OF _ this less.prems(2)] True show ?thesis by (simp add: diff_less_mono2)
    next
      case False
      with less.prems parts_loop_end [of path i] show ?thesis by simp
    qed
  qed
qed

text \<open>The template of a path is the concatenation of its segments: buildURLTemplate and
  buildURLTemplate2 read the path in the same way.\<close>

theorem buildURLTemplate_segments:
  "buildURLTemplate path = concat (segs [] True (parse_key path))"
proof -
  obtain fin S N R where l: "parts_loop (\<lambda>_. True) path 0 (- 1) (- 1) ([], [], []) = Some (fin, S, N, R)"
    using parts_loop_total by blast
  then have t: "template_loop path 0 (- 1) (- 1) [] = (fin, concat S)"
    using template_loop_concat by fastforce
  have "buildURLTemplate2 (\<lambda>_. True) path = Some (parts_finish path (fin, S, N, R))"
    by (simp add: buildURLTemplate2_def l)
  then have f: "fst (parts_finish path (fin, S, N, R)) = segs [] True (parse_key path)"
    unfolding buildURLTemplate2_eq by (auto simp: compiles_def dest: arg_cong [of _ _ fst])
  have S: "S = []" if "fin < 0"
    using parts_loop_no_token [OF l that] by simp
  show ?thesis unfolding f [symmetric] buildURLTemplate_def t
    using S by (auto simp: parts_finish_def)
qed

section \<open>URLs of a route lead back to the route\<close>

text \<open>Every plain parameter ends at a slash or at the end of the path, and the pattern \<open>.*\<close> is
  the last token.\<close>

fun separated :: "tok list \<Rightarrow> bool" where
  "separated [] = True"
| "separated (Chr c # ts) = separated ts"
| "separated (Par b # ts) =
     (separated ts \<and>
      (tok_regex b = None \<and> (ts = [] \<or> hd ts = Chr CHR ''/'') \<or> tok_regex b = Some ''^.*'' \<and> ts = []))"

fun fill :: "tok list \<Rightarrow> bytes list \<Rightarrow> bytes" where
  "fill [] vs = []"
| "fill (Chr c # ts) vs = c # fill ts vs"
| "fill (Par b # ts) vs = hd vs @ fill ts (tl vs)"

lemma check_params_ok:
  "check_params rx (tok_regexps ts) vs = Some None \<Longrightarrow> length vs = length (tok_names ts) \<Longrightarrow> separated ts \<Longrightarrow>
     match_toks rx ts (fill ts vs) = Some vs"
proof (induction ts arbitrary: vs)
  case (Cons t ts)
  show ?case
  proof (cases t)
    case (Chr c)
    with Cons show ?thesis by simp
  next
    case (Par b)
    with Cons.prems(2) obtain v ws where vs: "vs = v # ws" by (cases vs) auto
    have rest: "match_toks rx ts (fill ts ws) = Some ws"
      using Cons Par vs by (intro Cons.IH) (auto split: if_splits option.splits)
    show ?thesis
    proof (cases "tok_regex b")
      case None
      then have "CHR ''/'' \<notin> set v"
        using Cons.prems(1) Par vs by (auto simp: Contains_iff sublist_def split: if_splits) (metis append_Cons append_Nil split_list)
      moreover have "fill ts ws = [] \<or> hd (fill ts ws) = CHR ''/''"
        using Cons.prems(3) Par None by (cases ts) auto
      ultimately have "takeWhile (\<lambda>c. c \<noteq> CHR ''/'') (v @ fill ts ws) = v"
        "dropWhile (\<lambda>c. c \<noteq> CHR ''/'') (v @ fill ts ws) = fill ts ws"
        by (induction v) (cases "fill ts ws"; auto)+
      then show ?thesis using Par None vs rest by (simp add: match_param_def)
    next
      case (Some p)
      then have "p = ''^.*''" "ts = []" using Cons.prems(3) Par by auto
      then show ?thesis using Par Some vs rest Cons.prems(2) by (simp add: match_param_def)
    qed
  qed
qed simp

text \<open>Joining never meets an empty segment when every token comes after some static text.\<close>

fun guarded :: "bool \<Rightarrow> tok list \<Rightarrow> bool" where
  "guarded e [] = True"
| "guarded e (Chr c # ts) = (c \<noteq> CHR ''<'' \<and> guarded True ts)"
| "guarded e (Par b # ts) = (e \<and> guarded False ts)"

lemma guarded_mono: "guarded False ts \<Longrightarrow> guarded e ts"
  by (induction e ts rule: guarded.induct) auto

lemma guarded_intro:
  "separated ts \<Longrightarrow> Chr CHR ''<'' \<notin> set ts \<Longrightarrow> e \<or> ts = [] \<or> (\<exists>c. hd ts = Chr c) \<Longrightarrow> guarded e ts"
  by (induction e ts rule: guarded.induct) (auto split: list.splits)

lemma join_index_segs:
  assumes "guarded (acc \<noteq> []) ts" and "length vs = length (tok_names ts)" and "CHR ''<'' \<notin> set acc"
    and "acc \<noteq> [] \<or> ts \<noteq> [] \<or> \<not> first"
  shows "join_index (segs acc first ts) vs url = Some (url @ acc @ fill ts vs)"
  using assms
proof (induction acc first ts arbitrary: vs url rule: segs.induct)
  case (1 acc first)
  then show ?case by (cases acc) auto
next
  case (2 acc first c ts)
  then show ?case using "2.IH" [of vs url] by auto
next
  case (3 acc first b ts)
  then obtain v ws where vs: "vs = v # ws" by (cases vs) auto
  obtain a as where "acc = a # as" "a \<noteq> CHR ''<''" using 3 by (cases acc) auto
  then show ?case using 3 vs by (auto simp: guarded_mono)
qed

lemma hd_parse_key:
  assumes "closed_key path" and "path \<noteq> []" and "hd path \<noteq> CHR ''<''"
  shows "\<exists>c ts. parse_key path = Chr c # ts"
  using assms by (cases path) (auto simp: parse_key.simps)



section \<open>Parameters by name\<close>

fun interleave :: "'a list \<Rightarrow> 'a list \<Rightarrow> 'a list" where
  "interleave (n # ns) (v # vs) = n # v # interleave ns vs"
| "interleave _ _ = []"

lemma length_interleave: "length ns = length vs \<Longrightarrow> length (interleave ns vs) = 2 * length ns"
  by (induction ns vs rule: interleave.induct) auto

lemma value_of_interleave:
  assumes "length ns = length vs" and "distinct ns" and "set ns \<inter> set vs = {}" and "i < length ns"
  shows "value_of (ns ! i) (interleave ns vs) = Some (vs ! i)"
  using assms
proof (induction ns vs arbitrary: i rule: interleave.induct)
  case (1 n ns v vs)
  show ?case
  proof (cases i)
    case (Suc j)
    with 1 have "ns ! j \<noteq> n" "ns ! j \<noteq> v" by auto
    with 1 Suc show ?thesis by auto
  qed simp
qed auto

lemma check_name_hit:
  assumes "i < length ps" and "fst (ps ! i) = n" and "\<And>j. j < i \<Longrightarrow> fst (ps ! j) \<noteq> n"
    and "case snd (ps ! i) of None \<Rightarrow> \<not> Contains v ''/'' | Some p \<Rightarrow> rx p v \<noteq> None"
  shows "check_name rx regexps k n (Some v) ps = Some None"
  using assms
proof (induction ps arbitrary: i)
  case (Cons p ps)
  show ?case
  proof (cases i)
    case 0
    with Cons.prems show ?thesis by (cases p) (auto split: option.splits)
  next
    case (Suc j)
    with Cons.prems(3) [of 0] have "fst p \<noteq> n" by simp
    moreover have "check_name rx regexps k n (Some v) ps = Some None"
      using Suc Cons.prems Cons.prems(3) [of "Suc _"] by (intro Cons.IH [of j]) auto
    ultimately show ?thesis by (cases p) auto
  qed
qed simp

lemma check_params_nth:
  assumes "check_params rx regexps vs = Some None" and "i < length vs"
  shows "i < length regexps \<and>
    (case regexps ! i of None \<Rightarrow> \<not> Contains (vs ! i) ''/'' | Some p \<Rightarrow> rx p (vs ! i) \<noteq> None)"
  using assms
proof (induction vs arbitrary: i regexps)
  case (Cons v vs)
  from Cons.prems(1) obtain re rs where re: "regexps = re # rs" by (cases regexps) auto
  with Cons.prems(1) have rest: "check_params rx rs vs = Some None"
    and here: "case re of None \<Rightarrow> \<not> Contains v ''/'' | Some p \<Rightarrow> rx p v \<noteq> None"
    by (auto split: option.splits if_splits)
  show ?case
  proof (cases i)
    case 0
    with re here show ?thesis by (cases re) auto
  next
    case (Suc j)
    with re Cons.IH [OF rest, of j] Cons.prems(2) show ?thesis by (cases "rs ! j") auto
  qed
qed simp

lemma check_names_interleave:
  assumes "k mod 2 = 0" and "length ns = length vs"
    and "\<And>i k. i < length ns \<Longrightarrow>
      check_name rx (snd (snd r)) k (ns ! i) (Some (vs ! i)) (zip (fst (snd r)) (snd (snd r))) = Some None"
  shows "check_names rx r k (interleave ns vs) = Some None"
  using assms
proof (induction ns vs arbitrary: k rule: interleave.induct)
  case (1 n ns v vs)
  have "check_names rx r (Suc (Suc k)) (interleave ns vs) = Some None"
    using 1(2-) 1(4) [of "Suc _"] by (intro 1(1)) auto
  with 1(2) 1(4) [of 0 k] show ?case by (simp add: mod_Suc)
qed auto

lemma join_names_index:
  assumes "\<And>i. i < length vs \<Longrightarrow> value_of (tok_names ts ! i) names = Some (vs ! i)"
    and "length vs = length (tok_names ts)" and "CHR ''<'' \<notin> set acc" and "Chr CHR ''<'' \<notin> set ts"
  shows "join_names (segs acc first ts) names url = join_index (segs acc first ts) vs url"
  using assms
proof (induction acc first ts arbitrary: vs url rule: segs.induct)
  case (1 acc first)
  then show ?case by (cases acc) auto
next
  case (2 acc first c ts)
  then show ?case by auto
next
  case (3 acc first b ts)
  then obtain v ws where vs: "vs = v # ws" by (cases vs) auto
  have v: "value_of (token_name b) names = Some v" using "3.prems"(1) [of 0] vs by simp
  have "join_names (segs [] False ts) names u = join_index (segs [] False ts) ws u" for u
    using "3.prems" "3.prems"(1) [of "Suc _"] vs by (intro "3.IH") auto
  then show ?case using 3 vs v by (cases acc) (auto simp: slice_def)
qed

text \<open>Where URLByIndex succeeds, URLByNames on the same values paired with the names of
  the route gives the same result, provided the names are distinct and none of them is also a value
  (the search for a name does not skip values).\<close>

theorem URLByNames_eq_URLByIndex:
  assumes "buildURLTemplate2 rc path = Some (segments, paramNames, regexps)" and "closed_key path"
    and "distinct paramNames" and "set paramNames \<inter> set params = {}"
    and "URLByIndex rx (segments, paramNames, regexps) params = Some (Inr url)"
  shows "URLByNames rx (segments, paramNames, regexps) (interleave paramNames params) = Some (Inr url)"
proof -
  let ?ts = "parse_key path" and ?r = "(segments, paramNames, regexps)"
  have r: "segments = segs [] True ?ts" "paramNames = tok_names ?ts" "regexps = tok_regexps ?ts"
    using assms(1) by (auto simp: buildURLTemplate2_eq split: if_splits)
  from assms(5) have len: "length paramNames = length params"
    and chk: "check_params rx regexps params = Some None" and join: "join_index segments params [] = Some url"
    by (auto simp: URLByIndex_def split: if_splits option.splits)
  have "length (tok_regexps ts) = length (tok_names ts)" for ts by (induction ts rule: tok_names.induct) auto
  then have lre: "length regexps = length paramNames" by (simp add: r)
  have "check_name rx regexps k (paramNames ! i) (Some (params ! i)) (zip paramNames regexps) = Some None"
    if "i < length paramNames" for i k
  proof (rule check_name_hit [of i])
    show "fst (zip paramNames regexps ! j) \<noteq> paramNames ! i" if "j < i" for j
      using that \<open>i < length paramNames\<close> lre nth_eq_iff_index_eq [OF assms(3), of j i] by simp
    show "case snd (zip paramNames regexps ! i) of None \<Rightarrow> \<not> Contains (params ! i) ''/''
        | Some p \<Rightarrow> rx p (params ! i) \<noteq> None"
      using that lre len check_params_nth [OF chk, of i] by (cases "regexps ! i") simp_all
  qed (use that lre in simp_all)
  then have "check_names rx ?r 0 (interleave paramNames params) = Some None"
    using len by (intro check_names_interleave) auto
  moreover have "join_names segments (interleave paramNames params) [] = join_index segments params []"
    unfolding r(1)
  proof (rule join_names_index)
    show "value_of (tok_names ?ts ! i) (interleave paramNames params) = Some (params ! i)" if "i < length params" for i
      using value_of_interleave [OF len assms(3,4), of i] that len r(2) by simp
  qed (use len r(2) assms(2) in \<open>simp_all add: closed_key_def\<close>)
  ultimately show ?thesis using length_interleave [OF len] join by (simp add: URLByNames_def)
qed

theorem URLByNames_eq_URLByIndex_witness:
  "URLByNames (\<lambda>p v. Some 0) ([''/'', ''<a>'', ''-'', ''<b>''], [''a'', ''b''], [None, None])
     [''a'', ''1'', ''b'', ''2''] = Some (Inr ''/1-2'')"
proof -
  have b: "buildURLTemplate2 (\<lambda>_. True) ''/<a>-<b>'' = Some ([''/'', ''<a>'', ''-'', ''<b>''], [''a'', ''b''], [None, None])"
    by (simp add: buildURLTemplate2_eq parse_key.simps tok_regex_def token_pattern_def token_name_def compiles_def)
  show ?thesis
    using URLByNames_eq_URLByIndex [OF b, of "[''1'', ''2'']" "\<lambda>p v. Some 0" "''/1-2''"]
    by (simp add: closed_key_def parse_key.simps URLByIndex_def Contains_def Let_def)
qed

section \<open>Where the code panics or loses a value\<close>

text \<open>A path with two adjacent tokens has an empty segment between them, and indexing it panics
  for all parameters that pass the checks.\<close>

theorem URLByIndex_adjacent_tokens_panic:
  "\<exists>r. buildURLTemplate2 (\<lambda>_. True) ''/<a><b:.*>'' = Some r \<and>
     URLByIndex (\<lambda>p v. Some 0) r [''1'', ''2''] = None"
  by (simp add: buildURLTemplate2_eq parse_key.simps tok_regex_def token_pattern_def token_name_def
      compiles_def URLByIndex_def Contains_def Let_def)

text \<open>The mismatch message of URLByNames takes the regular expression at the index of the name in the
  list of pairs: for the second parameter it is out of range, and the error becomes a panic.\<close>

theorem URLByNames_mismatch_panics:
  "URLByNames (\<lambda>p v. None) ([''/'', ''<a>'', ''/'', ''<b>''], [''a'', ''b''], [None, Some ''^[0-9]+''])
     [''a'', ''1'', ''b'', ''x''] = None"
  by (simp add: URLByNames_def Contains_def Let_def)

text \<open>URL steps through the pairs by one: a value that is also the name of a parameter is taken as
  a name, and the parameter gets the name of the next pair instead of its own value.\<close>

theorem URL_value_taken_as_name:
  "URL ''/<a>/<b>'' [''a'', ''b'', ''b'', ''x''] = ''/b/b''"
  by (simp add: URL_def QueryEscape_def quotedArgShouldEscape_def is_alnum_def)

end
