(* ===== verification/Context.thy ===== *)
theory Context
  imports Prelude
begin

text \<open>
  The request context and its handler chain (src/fasthttp-routing/context.go and error.go).

  A handler is Go code that gets the context. It is modelled by what it can do to the chain: read
  and change the fields of the context, call Next and go on with the error it returned, call
  Abort, panic, and return. The index of the running handler and the list of handlers are the
  fields index and handlers of Ctx; the list does not change while a request is handled. The
  machine also keeps a log of handler starts and of calls of Abort, which no handler can see.

  Next calls handlers, which call Next: \<open>next_loop\<close> has a bound on the depth of that recursion,
  and one more than the number of handlers is always enough (\<open>next_loop_returns\<close>).
\<close>

section \<open>Errors\<close>

text \<open>An error that implements HTTPError, with its status and message, and any other error.\<close>

datatype error = HttpError int bytes | PlainError bytes

definition error_text :: "error \<Rightarrow> bytes" where
  "error_text e = (case e of HttpError st m \<Rightarrow> m | PlainError m \<Rightarrow> m)"

section \<open>Handlers and the chain\<close>

datatype 's prog =
    Return "error option"
  | CallNext "error option \<Rightarrow> 's prog"
  | CallAbort "'s prog"
  | Modify "'s \<Rightarrow> 's" "'s prog"
  | Read "'s \<Rightarrow> 's prog"
  | Panic

datatype event = Start nat | Aborted

record 's machine =
  index :: int
  state :: 's
  log :: "event list"

text \<open>The result of a run: the returned error and the machine, or \<open>None\<close> for a panic.\<close>

type_synonym 's result = "(error option \<times> 's machine) go"

text \<open>Running the body of a handler; \<open>nx\<close> is the call of Next, \<open>n\<close> the number of handlers. The
  outer \<open>None\<close> is reached only if the bound of the loop is.\<close>

primrec exec :: "('s machine \<Rightarrow> 's result option) \<Rightarrow> nat \<Rightarrow> 's prog \<Rightarrow> 's machine \<Rightarrow> 's result option" where
  "exec nx n (Return e) m = Some (Some (e, m))"
| "exec nx n (CallNext k) m =
     (case nx m of
        None \<Rightarrow> None
      | Some None \<Rightarrow> Some None
      | Some (Some (e, m')) \<Rightarrow> exec nx n (k e) m')"
| "exec nx n (CallAbort p) m = exec nx n p (m\<lparr>index := int n, log := log m @ [Aborted]\<rparr>)"
| "exec nx n (Modify f p) m = exec nx n p (m\<lparr>state := f (state m)\<rparr>)"
| "exec nx n (Read k) m = exec nx n (k (state m)) m"
| "exec nx n Panic m = Some None"

text \<open>The loop of Next from the current index on.\<close>

fun next_loop :: "nat \<Rightarrow> 's prog list \<Rightarrow> 's machine \<Rightarrow> 's result option" where
  "next_loop 0 hs m = None"
| "next_loop (Suc f) hs m =
     (if index m < int (length hs) then
        (case exec (\<lambda>m. next_loop f hs (m\<lparr>index := index m + 1\<rparr>)) (length hs) (hs ! nat (index m))
                (m\<lparr>log := log m @ [Start (nat (index m))]\<rparr>) of
           None \<Rightarrow> None
         | Some None \<Rightarrow> Some None
         | Some (Some (Some e, m')) \<Rightarrow> Some (Some (Some e, m'))
         | Some (Some (None, m')) \<Rightarrow> next_loop f hs (m'\<lparr>index := index m' + 1\<rparr>))
      else Some (Some (None, m)))"

text \<open>Ctx.Next.\<close>

definition Next :: "'s prog list \<Rightarrow> 's machine \<Rightarrow> 's result option" where
  "Next hs m = next_loop (Suc (Suc (length hs))) hs (m\<lparr>index := index m + 1\<rparr>)"

section \<open>The chain returns\<close>

text \<open>A lower bound \<open>b\<close> on the index that no handler can undercut.\<close>

definition progress :: "int \<Rightarrow> 's result option \<Rightarrow> bool" where
  "progress b r \<longleftrightarrow> (\<exists>x. r = Some x \<and> (\<forall>e m. x = Some (e, m) \<longrightarrow> b \<le> index m))"

lemma exec_progress:
  assumes "\<And>m. b \<le> index m \<Longrightarrow> progress b (nx m)" and "b \<le> int n" and "b \<le> index m"
  shows "progress b (exec nx n p m)"
  using assms(3)
proof (induction p arbitrary: m)
  case (CallNext k)
  have "progress b (nx m)" using assms(1) CallNext.prems by blast
  then show ?case
    using CallNext.IH by (auto simp: progress_def split: option.splits)
next
  case (Modify f p)
  then show ?case using Modify.IH [of "m\<lparr>state := f (state m)\<rparr>"] by simp
qed (use assms(2) in \<open>auto simp: progress_def\<close>)

lemma next_loop_returns:
  assumes "0 \<le> index m" and "length hs < nat (index m) + f" and "0 < f"
  shows "progress (index m) (next_loop f hs m)"
  using assms
proof (induction f arbitrary: m rule: less_induct)
  case (less f)
  show ?case
  proof (cases "index m < int (length hs)")
    case False
    with less.prems show ?thesis by (cases f) (auto simp: progress_def)
  next
    case True
    with less.prems obtain g where f: "f = Suc g" by (cases f) auto
    let ?nx = "\<lambda>m. next_loop g hs (m\<lparr>index := index m + 1\<rparr>)"
    have later: "progress b (?nx m')" if "index m \<le> b" "b \<le> index m'" for m' b
    proof -
      have "0 < g" "length hs < nat (index m' + 1) + g" "0 \<le> index m'" using True less.prems f that by linarith+
      then have "progress (index m' + 1) (?nx m')"
        using less.IH [of g "m'\<lparr>index := index m' + 1\<rparr>"] f by simp
      then show ?thesis using that by (fastforce simp: progress_def)
    qed
    have "progress (index m) (exec ?nx (length hs) (hs ! nat (index m)) (m\<lparr>log := log m @ [Start (nat (index m))]\<rparr>))"
      using True later by (intro exec_progress) auto
    then show ?thesis
      using True later [of "index m"] by (auto simp: f progress_def split: option.splits)
  qed
qed

text \<open>Claim C4: Next always returns or panics in a handler: whatever the handlers do, including
  nested calls of Next and swallowed errors, the chain ends.\<close>

theorem Next_returns:
  assumes "- 1 \<le> index m"
  shows "\<exists>r. Next hs m = Some r"
  using next_loop_returns [of "m\<lparr>index := index m + 1\<rparr>" hs "Suc (Suc (length hs))"] assms
  by (auto simp: Next_def progress_def simp del: next_loop.simps)

theorem Next_returns_witness:
  "\<exists>r. Next [CallNext (\<lambda>e. CallNext (\<lambda>e. Return None)), CallAbort (CallNext Return)]
      \<lparr>index = - 1, state = (), log = []\<rparr> = Some r"
  using Next_returns [of "\<lparr>index = - 1, state = (), log = []\<rparr>"] by simp

section \<open>Order of the handlers\<close>

text \<open>The starts in a log.\<close>

fun starts :: "event list \<Rightarrow> nat list" where
  "starts [] = []"
| "starts (Start i # l) = i # starts l"
| "starts (Aborted # l) = starts l"

lemma starts_append [simp]: "starts (a @ b) = starts a @ starts b"
  by (induction a rule: starts.induct) auto

text \<open>What a run adds to the log: starts in increasing order, all at least \<open>b\<close> and before the final
  index, and none after an abort.\<close>

definition in_order :: "int \<Rightarrow> nat \<Rightarrow> event list \<Rightarrow> int \<Rightarrow> bool" where
  "in_order b n l i \<longleftrightarrow>
     sorted_wrt (<) (starts l) \<and> (\<forall>j\<in>set (starts l). b \<le> int j \<and> int j \<le> i \<and> j < n) \<and>
     (\<forall>xs ys. l = xs @ Aborted # ys \<longrightarrow> starts ys = []) \<and>
     (Aborted \<in> set l \<longrightarrow> int n \<le> i) \<and> b - 1 \<le> i"

lemma in_order_append:
  assumes "in_order b n l i" and "in_order (i + 1) n l' i'"
  shows "in_order b n (l @ l') i'"
proof -
  have late: "starts l' = []" if "Aborted \<in> set l"
  proof (rule ccontr)
    assume "starts l' \<noteq> []"
    then obtain j where "j \<in> set (starts l')" by (cases "starts l'") auto
    with that assms show False by (auto simp: in_order_def)
  qed
  have "starts ys = []" if "l @ l' = xs @ Aborted # ys" for xs ys
  proof -
    from that consider us where "l = xs @ Aborted # us" "ys = us @ l'" | us where "l' = us @ Aborted # ys"
      by (auto simp: append_eq_append_conv2 append_eq_Cons_conv)
    then show ?thesis
    proof cases
      case 1
      then show ?thesis using late assms(1) by (auto simp: in_order_def)
    next
      case 2
      then show ?thesis using assms(2) by (auto simp: in_order_def)
    qed
  qed
  moreover have "sorted_wrt (<) (starts l @ starts l')"
    using assms by (fastforce simp: in_order_def sorted_wrt_append)
  moreover have "b \<le> int j \<and> int j \<le> i' \<and> j < n" if "j \<in> set (starts l @ starts l')" for j
    using that assms by (fastforce simp: in_order_def)
  ultimately show ?thesis using assms by (auto simp: in_order_def)
qed

lemma in_order_abort:
  assumes "in_order b n l i" and "b \<le> int n + 1"
  shows "in_order b n (l @ [Aborted]) (int n)"
proof -
  have "starts ys = []" if "l @ [Aborted] = xs @ Aborted # ys" for xs ys
    using that assms(1) by (cases ys rule: rev_cases) (auto simp: in_order_def)
  then show ?thesis using assms by (fastforce simp: in_order_def)
qed

text \<open>Since the log was \<open>L\<close> only ordered events were added.\<close>

definition since :: "event list \<Rightarrow> int \<Rightarrow> nat \<Rightarrow> 's machine \<Rightarrow> bool" where
  "since L b n m \<longleftrightarrow> (\<exists>l. log m = L @ l \<and> in_order b n l (index m))"

lemma since_trans: "since L b n m \<Longrightarrow> since (log m) (index m + 1) n m' \<Longrightarrow> since L b n m'"
  by (auto simp: since_def intro: in_order_append)

lemma exec_since:
  assumes nx: "\<And>m e m'. nx m = Some (Some (e, m')) \<Longrightarrow> since L b n m \<Longrightarrow> since (log m) (index m + 1) n m'"
    and "b \<le> int n + 1"
  shows "since L b n m \<Longrightarrow> exec nx n p m = Some (Some (e, m')) \<Longrightarrow> since L b n m'"
proof (induction p arbitrary: m)
  case (CallNext k)
  then obtain e1 m1 where 1: "nx m = Some (Some (e1, m1))" "exec nx n (k e1) m1 = Some (Some (e, m'))"
    by (auto split: option.splits)
  have "since L b n m1" using since_trans [OF CallNext.prems(1) nx [OF 1(1) CallNext.prems(1)]] .
  then show ?case using CallNext.IH 1(2) by blast
next
  case (CallAbort p)
  have "since L b n (m\<lparr>index := int n, log := log m @ [Aborted]\<rparr>)"
    using CallAbort.prems(1) in_order_abort [OF _ assms(2)] by (auto simp: since_def)
  then show ?case using CallAbort by simp
next
  case (Modify f p)
  then show ?case using Modify.IH [of "m\<lparr>state := f (state m)\<rparr>"] by (simp add: since_def)
qed auto

lemma next_loop_since:
  "next_loop f hs m = Some (Some (e, m')) \<Longrightarrow> 0 \<le> index m \<Longrightarrow> since (log m) (index m) (length hs) m'"
proof (induction f arbitrary: m e m')
  case (Suc f)
  let ?n = "length hs" and ?nx = "\<lambda>m. next_loop f hs (m\<lparr>index := index m + 1\<rparr>)"
  let ?m0 = "m\<lparr>log := log m @ [Start (nat (index m))]\<rparr>"
  show ?case
  proof (cases "index m < int ?n")
    case False
    with Suc.prems show ?thesis by (auto simp: since_def in_order_def)
  next
    case True
    have nx: "since (log m2) (index m2 + 1) ?n m3"
      if "?nx m2 = Some (Some (e', m3))" "since (log m) (index m) ?n m2" for m2 m3 e'
    proof -
      have "0 \<le> index m2 + 1" using that(2) Suc.prems(2) by (auto simp: since_def in_order_def)
      then show ?thesis using Suc.IH [OF that(1)] by simp
    qed
    have start: "since (log m) (index m) ?n ?m0"
      using True Suc.prems(2) by (auto simp: since_def in_order_def Cons_eq_append_conv intro!: exI [of _ "[Start (nat (index m))]"])
    from Suc.prems(1) True obtain e1 m1
      where ex: "exec ?nx ?n (hs ! nat (index m)) ?m0 = Some (Some (e1, m1))"
        and rest: "e1 \<noteq> None \<and> m' = m1 \<or> e1 = None \<and> ?nx m1 = Some (Some (e, m'))"
      by (auto split: option.splits)
    have m1: "since (log m) (index m) ?n m1"
      using exec_since [OF nx _ start ex] True by simp
    from rest show ?thesis
    proof
      assume "e1 = None \<and> ?nx m1 = Some (Some (e, m'))"
      then show ?thesis using since_trans [OF m1 nx [OF _ m1]] by blast
    qed (use m1 in simp)
  qed
qed simp

text \<open>Claim C3: on every request the handlers start in the order of the chain, each at most once,
  and after a call of Abort no handler starts any more.\<close>

theorem Next_order:
  assumes "Next hs \<lparr>index = - 1, state = s, log = []\<rparr> = Some (Some (e, m))"
  shows "sorted_wrt (<) (starts (log m)) \<and> set (starts (log m)) \<subseteq> {..<length hs} \<and>
         (\<forall>xs ys. log m = xs @ Aborted # ys \<longrightarrow> starts ys = [])"
  using next_loop_since [of "Suc (Suc (length hs))" hs "\<lparr>index = 0, state = s, log = []\<rparr>" e m] assms
  by (auto simp: Next_def since_def in_order_def simp del: next_loop.simps)

theorem Next_order_witness:
  "\<exists>e m. Next [CallNext (\<lambda>e. Return e), CallAbort (Return None), Return None]
      \<lparr>index = - 1, state = (), log = []\<rparr> = Some (Some (e, m)) \<and>
     sorted_wrt (<) (starts (log m)) \<and> starts (log m) = [0, 1]"
proof -
  have n: "Next [CallNext (\<lambda>e. Return e), CallAbort (Return None), Return None]
      \<lparr>index = - 1, state = (), log = []\<rparr> =
    Some (Some (None, \<lparr>index = 5, state = (), log = [Start 0, Start 1, Aborted]\<rparr>))"
    by (simp add: Next_def numeral_eq_Suc)
  show ?thesis using Next_order [OF n] n by auto
qed

section \<open>Handlers that let the chain run\<close>

text \<open>A handler that never aborts, never panics and always returns nil.\<close>

primrec quiet :: "'s prog \<Rightarrow> bool" where
  "quiet (Return e) = (e = None)"
| "quiet (CallNext k) = (\<forall>e. quiet (k e))"
| "quiet (CallAbort p) = False"
| "quiet (Modify f p) = quiet p"
| "quiet (Read k) = (\<forall>s. quiet (k s))"
| "quiet Panic = False"

text \<open>The handlers that have started and those that will.\<close>

definition schedule :: "nat \<Rightarrow> 's machine \<Rightarrow> nat list" where
  "schedule n m = starts (log m) @ [nat (index m + 1)..<n]"

lemma exec_quiet:
  assumes "\<And>m. b \<le> index m \<Longrightarrow> \<exists>m'. nx m = Some (Some (None, m')) \<and> schedule n m' = schedule n m \<and> b \<le> index m'"
  shows "quiet p \<Longrightarrow> b \<le> index m \<Longrightarrow>
    \<exists>m'. exec nx n p m = Some (Some (None, m')) \<and> schedule n m' = schedule n m \<and> b \<le> index m'"
proof (induction p arbitrary: m)
  case (CallNext k)
  obtain m' where m': "nx m = Some (Some (None, m'))" "schedule n m' = schedule n m" "b \<le> index m'"
    using assms CallNext.prems by blast
  have "\<exists>m2. exec nx n (k None) m' = Some (Some (None, m2)) \<and> schedule n m2 = schedule n m' \<and> b \<le> index m2"
    using CallNext.prems m'(3) by (intro CallNext.IH) auto
  with m' show ?case by simp
next
  case (Modify f p)
  then show ?case using Modify.IH [of "m\<lparr>state := f (state m)\<rparr>"] by (simp add: schedule_def)
qed auto

lemma next_loop_quiet:
  assumes "\<forall>h\<in>set hs. quiet h" and "0 \<le> index m" and "length hs < nat (index m) + f" and "0 < f"
  shows "\<exists>m'. next_loop f hs m = Some (Some (None, m')) \<and> int (length hs) \<le> index m' \<and>
           starts (log m') = starts (log m) @ [nat (index m)..<length hs]"
  using assms(2-)
proof (induction f arbitrary: m rule: less_induct)
  case (less f)
  let ?n = "length hs"
  show ?case
  proof (cases "index m < int ?n")
    case False
    with less.prems show ?thesis by (cases f) auto
  next
    case True
    with less.prems obtain g where f: "f = Suc g" by (cases f) auto
    let ?nx = "\<lambda>m. next_loop g hs (m\<lparr>index := index m + 1\<rparr>)"
    let ?m0 = "m\<lparr>log := log m @ [Start (nat (index m))]\<rparr>"
    have later: "\<exists>m2. ?nx m1 = Some (Some (None, m2)) \<and> int ?n \<le> index m2 \<and> starts (log m2) = schedule ?n m1 \<and>
        schedule ?n m2 = schedule ?n m1 \<and> index m \<le> index m2"
      if "index m \<le> index m1" for m1
    proof -
      have "0 < g" "?n < nat (index m1 + 1) + g" "0 \<le> index m1" using True less.prems f that by linarith+
      then show ?thesis
        using less.IH [of g "m1\<lparr>index := index m1 + 1\<rparr>"] f True by (auto simp: schedule_def)
    qed
    have "quiet (hs ! nat (index m))" using assms(1) True less.prems(1) by (simp add: nat_less_iff)
    then obtain m1 where m1: "exec ?nx ?n (hs ! nat (index m)) ?m0 = Some (Some (None, m1))"
      "schedule ?n m1 = schedule ?n ?m0" "index m \<le> index m1"
      using exec_quiet [of "index m" ?nx ?n _ ?m0] later by fastforce
    have "schedule ?n ?m0 = starts (log m) @ [nat (index m)..<?n]"
      using True less.prems(1) by (simp add: schedule_def nat_add_distrib upt_conv_Cons nat_less_iff)
    with later [OF m1(3)] m1 True show ?thesis by (auto simp: f)
  qed
qed

text \<open>Claim C5: if no handler aborts, panics or returns an error, all handlers run, each once and in
  order, whether or not they call Next themselves.\<close>

theorem Next_runs_all:
  assumes "\<forall>h\<in>set hs. quiet h"
  shows "\<exists>m. Next hs \<lparr>index = - 1, state = s, log = []\<rparr> = Some (Some (None, m)) \<and>
             starts (log m) = [0..<length hs]"
  using next_loop_quiet [OF assms, of "\<lparr>index = 0, state = s, log = []\<rparr>" "Suc (Suc (length hs))"]
  by (auto simp: Next_def simp del: next_loop.simps)

theorem Next_runs_all_witness:
  "\<exists>m. Next [Return None, CallNext (\<lambda>e. Return None), Return None] \<lparr>index = - 1, state = (), log = []\<rparr> =
     Some (Some (None, m)) \<and> starts (log m) = [0, 1, 2]"
  using Next_runs_all [of "[Return None, CallNext (\<lambda>e. Return None), Return None]" "()"]
  by (simp add: upt_rec numeral_2_eq_2 del: next_loop.simps)

end
