(* ===== verification/Helpers.thy ===== *)
theory Helpers
  imports Prelude "HOL-Library.Multiset"
begin

text \<open>
  The helper packages of the repository (src/helpers): address splitting (utilnet), token hashes and
  random bytes (utilcrypt), path suffixes (utilos), ASCII lower case (utilconvert), the hole-moving
  quicksort (algo) and the canonical URL path (http.go).
\<close>

section \<open>Addresses: utilnet/ip.go\<close>

text \<open>The result is \<open>None\<close> for the panic on an empty address; a value is an error flag (the only
  error is InvalidIP), the address and the port as the named results are left.\<close>

definition SplitIpAndPort :: "bytes \<Rightarrow> (bool \<times> bytes \<times> bytes) go" where
  "SplitIpAndPort addr =
     (case addr of
        [] \<Rightarrow> None
      | c # _ \<Rightarrow>
        if c = CHR ''['' then
          (let i = Index addr '']''
           in if i = - 1 then Some (True, [], [])
              else if i = int (length addr) - 1 then Some (False, slice 1 (nat i) addr, [])
              else if addr ! (nat i + 1) = CHR '':'' then
                (let port = drop (nat i + 2) addr
                 in Some (port = [], slice 1 (nat i) addr, port))
              else Some (True, [], []))
        else
          (let colonCount = CountByte addr CHR '':''
           in if colonCount = 1 \<or> colonCount = 8 then
                (let i = LastIndex addr '':''
                 in Some (False, take (nat i) addr, drop (nat i + 1) addr))
              else if colonCount \<noteq> 0 then Some (True, [], [])
              else Some (False, addr, [])))"

lemma LastIndex_single:
  assumes "c \<notin> set t"
  shows "LastIndex (s @ c # t) [c] = int (length s)"
proof -
  have none: "LastIndex t [c] = - 1" using assms by (induction t) auto
  have "LastIndex (c # t) [c] = 0" by (simp add: none)
  then show ?thesis by (induction s) (auto simp: Let_def)
qed

lemma CountByte_append: "CountByte (s @ t) c = CountByte s c + CountByte t c"
  by (simp add: CountByte_def)

lemma CountByte_none: "c \<notin> set s \<Longrightarrow> CountByte s c = 0"
  by (induction s) (auto simp: CountByte_def)

lemma CountByte_Cons: "CountByte (c # s) d = (if c = d then 1 else 0) + CountByte s d"
  by (simp add: CountByte_def)

lemma Index_single: "c \<notin> set s \<Longrightarrow> Index (s @ c # t) [c] = int (length s)"
  by (induction s) (auto simp: Let_def)

text \<open>A host and a port joined the usual way are split again: \<open>host:port\<close> for a host without
  colons and brackets, and \<open>[host]:port\<close> for any host without a closing bracket (an IPv6
  address); the port must not be empty in the second form.\<close>

theorem SplitIpAndPort_join:
  assumes "CHR '':'' \<notin> set port"
  shows "(host \<noteq> [] \<and> hd host \<noteq> CHR ''['' \<and> CHR '':'' \<notin> set host \<longrightarrow>
            SplitIpAndPort (host @ '':'' @ port) = Some (False, host, port)) \<and>
         (CHR '']'' \<notin> set host \<and> port \<noteq> [] \<longrightarrow>
            SplitIpAndPort (''['' @ host @ '']:'' @ port) = Some (False, host, port))"
proof (intro conjI impI; elim conjE)
  assume h: "host \<noteq> []" "hd host \<noteq> CHR ''[''" "CHR '':'' \<notin> set host"
  then obtain c t where c: "host = c # t" by (cases host) auto
  have "CountByte (host @ '':'' @ port) CHR '':'' = 1"
    using h assms by (simp add: CountByte_append CountByte_Cons CountByte_none)
  then show "SplitIpAndPort (host @ '':'' @ port) = Some (False, host, port)"
    using h LastIndex_single [OF assms, of host] c
    by (auto simp: SplitIpAndPort_def Let_def nat_add_distrib simp del: LastIndex.simps split: list.splits)
next
  assume h: "CHR '']'' \<notin> set host" "port \<noteq> []"
  have "Index (''['' @ host @ '']:'' @ port) '']'' = int (length host) + 1"
    using Index_single [of "CHR '']''" "CHR ''['' # host" "CHR '':'' # port"] h by simp
  then show "SplitIpAndPort (''['' @ host @ '']:'' @ port) = Some (False, host, port)"
    using h by (simp add: SplitIpAndPort_def Let_def slice_def nat_add_distrib nth_append numeral_2_eq_2)
qed

theorem SplitIpAndPort_join_witness:
  "SplitIpAndPort (''::1'' @ '':'' @ ''80'') = Some (True, [], []) \<and>
   SplitIpAndPort (''['' @ ''::1'' @ '']:'' @ ''80'') = Some (False, ''::1'', ''80'')"
  using SplitIpAndPort_join [of "''80''" "''::1''"] by (simp add: SplitIpAndPort_def CountByte_def)

theorem SplitIpAndPort_empty: "SplitIpAndPort [] = None"
  by (simp add: SplitIpAndPort_def)

section \<open>Paths and letters: utilos/path.go, utilconvert/ascii.go\<close>

text \<open>PathSuffix: the loop goes from the last byte down, \<open>rest\<close> is the reversed part still to be
  read and \<open>suf\<close> the part after it.\<close>

fun path_suffix_loop :: "bytes \<Rightarrow> bytes \<Rightarrow> int \<Rightarrow> bytes option" where
  "path_suffix_loop [] suf k = None"
| "path_suffix_loop (c # rest) suf k =
     (if c = CHR ''/'' then if k - 1 = 0 then Some suf else path_suffix_loop rest (c # suf) (k - 1)
      else path_suffix_loop rest (c # suf) k)"

definition PathSuffix :: "bytes \<Rightarrow> int \<Rightarrow> bytes" where
  "PathSuffix path slashCount =
     (case path_suffix_loop (rev path) [] slashCount of None \<Rightarrow> path | Some s \<Rightarrow> s)"

definition ToLower :: "bytes \<Rightarrow> bytes" where
  "ToLower s = map (\<lambda>c. if CHR ''A'' \<le> c \<and> c \<le> CHR ''Z'' then mk_byte (byte_val c + 32) else c) s"

lemma path_suffix_loop_spec:
  "path_suffix_loop rest suf k = Some s \<Longrightarrow> 0 < k \<Longrightarrow>
     \<exists>pre. rev rest @ suf = pre @ CHR ''/'' # s \<and> int (CountByte s CHR ''/'') = int (CountByte suf CHR ''/'') + k - 1"
proof (induction rest suf k rule: path_suffix_loop.induct)
  case (2 c rest suf k)
  show ?case
  proof (cases "c = CHR ''/'' \<and> k - 1 = 0")
    case True
    with 2 show ?thesis by auto
  next
    case False
    then have "c = CHR ''/'' \<Longrightarrow> 0 < k - 1" using "2.prems"(2) by auto
    with 2 False show ?thesis by (auto simp: CountByte_Cons split: if_splits)
  qed
qed simp

lemma path_suffix_loop_none:
  "path_suffix_loop rest suf k = None \<Longrightarrow> 0 < k \<Longrightarrow> int (CountByte rest CHR ''/'') < k"
proof (induction rest suf k rule: path_suffix_loop.induct)
  case (2 c rest suf k)
  show ?case
  proof (cases "c = CHR ''/'' \<and> k - 1 = 0")
    case True
    with 2 show ?thesis by auto
  next
    case False
    then have "c = CHR ''/'' \<Longrightarrow> 0 < k - 1" using "2.prems"(2) by auto
    with 2 False show ?thesis by (auto simp: CountByte_Cons split: if_splits)
  qed
qed (simp add: CountByte_def)

text \<open>PathSuffix cuts a path after the slash that is the given number of slashes from the
  end, and returns the whole path when it has fewer slashes.\<close>

theorem PathSuffix_spec:
  assumes "0 < k"
  shows "(\<exists>pre. path = pre @ CHR ''/'' # PathSuffix path k \<and> int (CountByte (PathSuffix path k) CHR ''/'') = k - 1) \<or>
         PathSuffix path k = path \<and> int (CountByte path CHR ''/'') < k"
proof (cases "path_suffix_loop (rev path) [] k")
  case None
  then have "int (CountByte (rev path) CHR ''/'') < k" using assms by (rule path_suffix_loop_none)
  moreover have "CountByte (rev path) CHR ''/'' = CountByte path CHR ''/''"
    by (simp add: CountByte_def rev_filter [symmetric])
  ultimately show ?thesis using None by (simp add: PathSuffix_def)
next
  case (Some s)
  with path_suffix_loop_spec [OF Some assms] show ?thesis by (auto simp: PathSuffix_def CountByte_def)
qed

theorem PathSuffix_spec_witness:
  "(\<exists>pre. ''/a/b/c'' = pre @ CHR ''/'' # PathSuffix ''/a/b/c'' 2 \<and>
      int (CountByte (PathSuffix ''/a/b/c'' 2) CHR ''/'') = 1) \<and> PathSuffix ''/a/b/c'' 2 = ''b/c''"
  using PathSuffix_spec [of 2 "''/a/b/c''"] by (simp add: PathSuffix_def CountByte_def)

section \<open>Tokens: utilcrypt/utils.go\<close>

text \<open>The checksum is computed in uint16 arithmetic.\<close>

definition hash_sum :: "bytes \<Rightarrow> nat" where
  "hash_sum bs =
     (((byte_val (bs ! 0) * byte_val (bs ! 1)) mod 65536 + 99) mod 65536 * byte_val (bs ! 2)) mod 65536"

text \<open>AppendUint16 on \<open>bs[:len(bs)-2]\<close> writes the last two bytes of bs in place.\<close>

definition SimpleHash_AppendHash :: "bytes \<Rightarrow> bytes go" where
  "SimpleHash_AppendHash bs =
     (if length bs < 5 then None
      else Some (take (length bs - 2) bs @ [mk_byte (hash_sum bs mod 256), mk_byte (hash_sum bs div 256)]))"

definition SimpleHash_ValidateHash :: "bytes \<Rightarrow> bool" where
  "SimpleHash_ValidateHash bs =
     (if length bs < 3 then False
      else hash_sum bs = byte_val (bs ! (length bs - 2)) + 256 * byte_val (bs ! (length bs - 1)))"

definition SimpleHash_EncodedLen :: "int \<Rightarrow> int" where
  "SimpleHash_EncodedLen input = input + 2"

definition SimpleHash_DecodedLen :: "int \<Rightarrow> int" where
  "SimpleHash_DecodedLen input = input - 2"

lemma hash_sum_lt: "hash_sum bs < 65536"
  by (simp add: hash_sum_def)

lemma hash_sum_cong: "take 3 bs = take 3 bs' \<Longrightarrow> hash_sum bs = hash_sum bs'"
  unfolding hash_sum_def by (metis nth_take numeral_3_eq_3 less_Suc_eq zero_less_Suc One_nat_def numeral_2_eq_2)

lemma SimpleHash_appended:
  assumes "5 \<le> length bs"
  shows "\<exists>t. SimpleHash_AppendHash bs = Some t \<and> length t = length bs \<and> SimpleHash_ValidateHash t \<and>
           (\<forall>mid. SimpleHash_ValidateHash (take 3 t @ mid @ drop (length t - 2) t))"
proof -
  define t where "t = take (length bs - 2) bs @ [mk_byte (hash_sum bs mod 256), mk_byte (hash_sum bs div 256)]"
  have t: "SimpleHash_AppendHash bs = Some t" "length t = length bs"
    using assms by (simp_all add: SimpleHash_AppendHash_def t_def)
  have sum: "hash_sum t = hash_sum bs" using assms by (intro hash_sum_cong) (simp add: t_def)
  have tail: "drop (length t - 2) t = [mk_byte (hash_sum bs mod 256), mk_byte (hash_sum bs div 256)]"
    using assms t(2) by (simp add: t_def)
  have val: "byte_val (mk_byte (hash_sum bs mod 256)) + 256 * byte_val (mk_byte (hash_sum bs div 256)) = hash_sum bs"
    using hash_sum_lt [of bs] by (simp add: byte_val_mk_byte)
  have gen: "SimpleHash_ValidateHash (take 3 t @ mid @ drop (length t - 2) t)" for mid
  proof -
    have "length (take 3 t) = 3" using assms t(2) by simp
    moreover have "hash_sum (take 3 t @ mid @ drop (length t - 2) t) = hash_sum bs"
      using assms t(2) sum by (subst hash_sum_cong [of _ t]) simp_all
    ultimately show ?thesis
      unfolding SimpleHash_ValidateHash_def tail using val by (simp add: nth_append)
  qed
  have "take 3 t @ drop 3 (take (length t - 2) t) = take (length t - 2) t"
    using append_take_drop_id [of 3 "take (length t - 2) t"] assms t(2) by (simp add: min_absorb1)
  then have "take 3 t @ drop 3 (take (length t - 2) t) @ drop (length t - 2) t = t"
    by (metis append.assoc append_take_drop_id)
  with gen [of "drop 3 (take (length t - 2) t)"] have "SimpleHash_ValidateHash t" by simp
  with t gen show ?thesis by blast
qed

text \<open>A token with its hash appended in place keeps its length, validates, and still
  validates after any change of the bytes between the third one and the hash.\<close>

theorem SimpleHash_roundtrip:
  assumes "5 \<le> length bs"
  shows "\<exists>t. SimpleHash_AppendHash bs = Some t \<and> length t = length bs \<and> SimpleHash_ValidateHash t \<and>
           (\<forall>mid. SimpleHash_ValidateHash (take 3 t @ mid @ drop (length t - 2) t))"
  using assms by (rule SimpleHash_appended)

theorem SimpleHash_roundtrip_witness:
  "\<exists>t. SimpleHash_AppendHash ''secret'' = Some t \<and> SimpleHash_ValidateHash t"
  using SimpleHash_roundtrip [of "''secret''"] by auto

text \<open>The generator: \<open>rnd i\<close> are the eight bytes of the \<open>i\<close>-th random number.\<close>

definition copy_at :: "nat \<Rightarrow> bytes \<Rightarrow> nat \<Rightarrow> bytes \<Rightarrow> bytes" where
  "copy_at a bs limit src =
     (let n = min (length src) (limit - a) in take a bs @ take n src @ drop (a + n) bs)"

fun random_words :: "(nat \<Rightarrow> bytes) \<Rightarrow> nat \<Rightarrow> nat \<Rightarrow> bytes \<Rightarrow> bytes" where
  "random_words rnd i 0 bs = bs"
| "random_words rnd i (Suc k) bs = random_words rnd (i + 1) k (copy_at (i * 8) bs (length bs) (rnd i))"

definition DefaultRandomBytesGenerator :: "(nat \<Rightarrow> bytes) \<Rightarrow> bytes \<Rightarrow> bytes" where
  "DefaultRandomBytesGenerator rnd bs =
     (let size = length bs; bs1 = random_words rnd 0 (size div 8) bs
      in if size mod 8 > 0 then copy_at 0 bs1 (size - size mod 8) (rnd (size div 8)) else bs1)"

lemma random_words_tail:
  assumes "\<And>i. length (rnd i) = 8" and "(i + k) * 8 \<le> length bs"
  shows "length (random_words rnd i k bs) = length bs \<and>
         drop ((i + k) * 8) (random_words rnd i k bs) = drop ((i + k) * 8) bs"
  using assms(2)
proof (induction k arbitrary: i bs)
  case (Suc k)
  let ?bs = "copy_at (i * 8) bs (length bs) (rnd i)"
  have l: "length ?bs = length bs" "drop ((Suc i + k) * 8) ?bs = drop ((Suc i + k) * 8) bs"
    using Suc.prems assms(1) by (simp_all add: copy_at_def Let_def algebra_simps)
  with Suc.IH [of "Suc i" ?bs] Suc.prems show ?case by (simp add: algebra_simps)
qed simp

text \<open>When the length is not a multiple of eight, the last bytes of the buffer are never
  written: the random bytes for them overwrite the start of the buffer (or nothing) instead.\<close>

theorem random_tail_not_filled:
  assumes "\<And>i. length (rnd i) = 8"
  shows "drop (length bs - length bs mod 8) (DefaultRandomBytesGenerator rnd bs) =
         drop (length bs - length bs mod 8) bs"
proof -
  have m: "length bs - length bs mod 8 = length bs div 8 * 8" by (simp add: minus_mod_eq_div_mult)
  note w = random_words_tail [of rnd 0 "length bs div 8" bs, OF assms]
  have w': "length (random_words rnd 0 (length bs div 8) bs) = length bs"
    "drop (length bs div 8 * 8) (random_words rnd 0 (length bs div 8) bs) = drop (length bs div 8 * 8) bs"
    using w by simp_all
  show ?thesis
    unfolding DefaultRandomBytesGenerator_def Let_def m copy_at_def using w' by (simp add: min_def)
qed

theorem random_tail_not_filled_witness:
  "drop (length ''0123456789'' - length ''0123456789'' mod 8)
     (DefaultRandomBytesGenerator (\<lambda>_. ''abcdefgh'') ''0123456789'') = ''89''"
  using random_tail_not_filled [of "\<lambda>_. ''abcdefgh''" "''0123456789''"] by simp

section \<open>Sorting: algo/quickSort.go\<close>

text \<open>Whenever the test of the outer loop is evaluated the index p of the hole is i (both branches at
  the end of the body establish it), so the loop is written without p. The two inner loops are
  \<open>scan_right\<close> and \<open>scan_left\<close>. An index out of range panics.\<close>

fun scan_right :: "('a \<Rightarrow> 'a \<Rightarrow> int) \<Rightarrow> 'a list \<Rightarrow> 'a \<Rightarrow> nat \<Rightarrow> nat \<Rightarrow> nat" where
  "scan_right cmp s temp p j = (if cmp (s ! j) temp \<ge> 0 \<and> j > p then scan_right cmp s temp p (j - 1) else j)"

function scan_left :: "('a \<Rightarrow> 'a \<Rightarrow> int) \<Rightarrow> 'a list \<Rightarrow> 'a \<Rightarrow> nat \<Rightarrow> nat \<Rightarrow> nat" where
  "scan_left cmp s temp p i = (if cmp (s ! i) temp \<le> 0 \<and> i < p then scan_left cmp s temp p (i + 1) else i)"
  by pat_completeness auto
termination
  by (relation "measure (\<lambda>(cmp, s, temp, p, i). p - i)") auto

declare scan_right.simps [simp del] scan_left.simps [simp del]

lemma scan_right_spec:
  assumes "p \<le> j" and "j' = scan_right cmp s temp p j"
  shows "p \<le> j' \<and> j' \<le> j \<and> (\<forall>k. j' < k \<and> k \<le> j \<longrightarrow> cmp (s ! k) temp \<ge> 0) \<and> (j' \<noteq> p \<longrightarrow> cmp (s ! j') temp < 0)"
  using assms
proof (induction cmp s temp p j rule: scan_right.induct)
  case (1 cmp s temp p j)
  show ?case
  proof (cases "cmp (s ! j) temp \<ge> 0 \<and> j > p")
    case True
    then have eq: "j' = scan_right cmp s temp p (j - 1)" using 1(3) by (simp add: scan_right.simps [of cmp s temp p j])
    have ih: "p \<le> j' \<and> j' \<le> j - 1 \<and> (\<forall>k. j' < k \<and> k \<le> j - 1 \<longrightarrow> cmp (s ! k) temp \<ge> 0) \<and>
        (j' \<noteq> p \<longrightarrow> cmp (s ! j') temp < 0)"
      by (rule 1(1) [OF True _ eq]) (use True in linarith)
    have "cmp (s ! k) temp \<ge> 0" if "j' < k" "k \<le> j" for k
      using that ih True by (cases "k = j") auto
    with ih show ?thesis by auto
  next
    case False
    with 1(2,3) show ?thesis by (subst (asm) scan_right.simps) auto
  qed
qed

lemma scan_left_spec:
  assumes "i \<le> p" and "i' = scan_left cmp s temp p i"
  shows "i \<le> i' \<and> i' \<le> p \<and> (\<forall>k. i \<le> k \<and> k < i' \<longrightarrow> cmp (s ! k) temp \<le> 0) \<and> (i' \<noteq> p \<longrightarrow> cmp (s ! i') temp > 0)"
  using assms
proof (induction cmp s temp p i rule: scan_left.induct)
  case (1 cmp s temp p i)
  show ?case
  proof (cases "cmp (s ! i) temp \<le> 0 \<and> i < p")
    case True
    then have eq: "i' = scan_left cmp s temp p (i + 1)" using 1(3) by (simp add: scan_left.simps [of cmp s temp p i])
    have "k = i \<or> i + 1 \<le> k" if "i \<le> k" for k using that by linarith
    with 1(1) [OF True _ eq] True show ?thesis by (metis Suc_leI Suc_eq_plus1 less_imp_le add_leD1)
  next
    case False
    with 1(2,3) show ?thesis by (subst (asm) scan_left.simps) auto
  qed
qed

definition partition_step :: "('a \<Rightarrow> 'a \<Rightarrow> int) \<Rightarrow> 'a \<Rightarrow> 'a list \<Rightarrow> nat \<Rightarrow> nat \<Rightarrow> 'a list \<times> nat \<times> nat" where
  "partition_step cmp temp s i j =
     (let j1 = scan_right cmp s temp i j;
          s1 = (if j1 \<noteq> i then s[i := s ! j1] else s);
          i1 = scan_left cmp s1 temp j1 i;
          s2 = (if i1 \<noteq> j1 then s1[j1 := s1 ! i1] else s1)
      in (s2, i1, j1))"

lemma partition_step_progress:
  assumes "partition_step cmp temp s i j = (s2, i1, j1)" and "i < j" and "j < length s"
  shows "i \<le> i1 \<and> i1 \<le> j1 \<and> j1 \<le> j \<and> length s2 = length s \<and> j1 - i1 < j - i"
proof -
  define s1 where "s1 = (if j1 \<noteq> i then s[i := s ! j1] else s)"
  have j1: "j1 = scan_right cmp s temp i j" and i1: "i1 = scan_left cmp s1 temp j1 i"
    and s2: "s2 = (if i1 \<noteq> j1 then s1[j1 := s1 ! i1] else s1)"
    using assms(1) by (auto simp: partition_step_def Let_def s1_def)
  have r: "i \<le> j1" "j1 \<le> j" "j1 \<noteq> i \<longrightarrow> cmp (s ! j1) temp < 0"
    using scan_right_spec [OF _ j1] assms(2) by auto
  have l: "i \<le> i1" "i1 \<le> j1" "i1 \<noteq> j1 \<longrightarrow> cmp (s1 ! i1) temp > 0"
    using scan_left_spec [OF r(1) i1] by auto
  have "j1 \<noteq> i \<Longrightarrow> i1 \<noteq> i"
  proof
    assume "j1 \<noteq> i" "i1 = i"
    then have "s1 ! i1 = s ! j1" "i1 \<noteq> j1" using assms by (auto simp: s1_def)
    then show False using r(3) l(3) \<open>j1 \<noteq> i\<close> by simp
  qed
  then show ?thesis using r l assms(2) by (auto simp: s2 s1_def)
qed

function partition_loop :: "('a \<Rightarrow> 'a \<Rightarrow> int) \<Rightarrow> 'a \<Rightarrow> 'a list \<Rightarrow> nat \<Rightarrow> nat \<Rightarrow> ('a list \<times> nat) go" where
  "partition_loop cmp temp s i j =
     (if j > i then
        if j < length s then
          (case partition_step cmp temp s i j of (s2, i1, j1) \<Rightarrow> partition_loop cmp temp s2 i1 j1)
        else None
      else Some (s, i))"
  by pat_completeness auto
termination
  by (relation "measure (\<lambda>(cmp, temp, s, i, j). j - i)")
    (auto split: prod.splits dest: partition_step_progress)

declare partition_loop.simps [simp del]

text \<open>The comparison is a total preorder, as the callers' cmp.Compare is.\<close>

definition comparator :: "('a \<Rightarrow> 'a \<Rightarrow> int) \<Rightarrow> bool" where
  "comparator cmp \<longleftrightarrow>
     (\<forall>a b. cmp a b \<le> 0 \<longleftrightarrow> cmp b a \<ge> 0) \<and> (\<forall>a b c. cmp a b \<le> 0 \<longrightarrow> cmp b c \<le> 0 \<longrightarrow> cmp a c \<le> 0)"

text \<open>Around the hole: everything before it is at most, everything after j at least the pivot.\<close>

definition split_at :: "('a \<Rightarrow> 'a \<Rightarrow> int) \<Rightarrow> 'a \<Rightarrow> 'a list \<Rightarrow> nat \<Rightarrow> nat \<Rightarrow> bool" where
  "split_at cmp temp s i j \<longleftrightarrow>
     i \<le> j \<and> j < length s \<and> (\<forall>k<i. cmp (s ! k) temp \<le> 0) \<and> (\<forall>k. j < k \<and> k < length s \<longrightarrow> cmp (s ! k) temp \<ge> 0)"

lemma move_hole:
  assumes "i < length s" and "j < length s"
  shows "mset (s[i := s ! j, j := t]) = mset (s[i := t])"
proof (cases "i = j")
  case False
  then have "s[i := s ! j, j := t] = s[i := t, i := s[i := t] ! j, j := s[i := t] ! i]"
    using assms by (simp add: list_update_swap)
  moreover have "i < length (s[i := t])" "j < length (s[i := t])" using assms by simp_all
  ultimately show ?thesis by (metis mset_swap)
qed simp

lemma partition_step_split:
  assumes "partition_step cmp temp s i j = (s2, i1, j1)" and "split_at cmp temp s i j" and "i < j"
  shows "split_at cmp temp s2 i1 j1 \<and> mset (s2[i1 := temp]) = mset (s[i := temp])"
proof -
  define s1 where "s1 = (if j1 \<noteq> i then s[i := s ! j1] else s)"
  have j1: "j1 = scan_right cmp s temp i j" and i1: "i1 = scan_left cmp s1 temp j1 i"
    and s2: "s2 = (if i1 \<noteq> j1 then s1[j1 := s1 ! i1] else s1)"
    using assms(1) by (auto simp: partition_step_def Let_def s1_def)
  have sp: "j < length s" "\<And>k. k < i \<Longrightarrow> cmp (s ! k) temp \<le> 0"
    "\<And>k. j < k \<Longrightarrow> k < length s \<Longrightarrow> cmp (s ! k) temp \<ge> 0"
    using assms(2) by (auto simp: split_at_def)
  have r: "i \<le> j1" "j1 \<le> j" "\<And>k. j1 < k \<Longrightarrow> k \<le> j \<Longrightarrow> cmp (s ! k) temp \<ge> 0"
    using scan_right_spec [OF _ j1] assms(3) by auto
  have l: "i \<le> i1" "i1 \<le> j1" "\<And>k. i \<le> k \<Longrightarrow> k < i1 \<Longrightarrow> cmp (s1 ! k) temp \<le> 0" "i1 \<noteq> j1 \<Longrightarrow> cmp (s1 ! i1) temp > 0"
    using scan_left_spec [OF r(1) i1] by auto
  have left: "cmp (s2 ! k) temp \<le> 0" if "k < i1" for k
    using that sp(2) [of k] l(2) l(3) [of k] by (cases "k < i") (auto simp: s2 s1_def)
  have right: "cmp (s2 ! k) temp \<ge> 0" if "j1 < k" "k < length s" for k
    using that sp(3) [of k] r(1) r(3) [of k] by (cases "k \<le> j") (auto simp: s2 s1_def)
  have 1: "mset (s1[j1 := temp]) = mset (s[i := temp])"
    using move_hole [of i s j1 temp] sp(1) assms(3) r by (cases "j1 = i") (auto simp: s1_def)
  have "mset (s2[i1 := temp]) = mset (s1[j1 := temp])"
    using move_hole [of j1 s1 i1 temp] sp(1) l(2) r(2) by (cases "i1 = j1") (auto simp: s2 s1_def)
  with 1 left right l(2) r(2) sp(1) show ?thesis by (auto simp: split_at_def s2 s1_def)
qed

lemma partition_loop_spec:
  assumes "split_at cmp temp s i j"
  shows "\<exists>s' p. partition_loop cmp temp s i j = Some (s', p) \<and> split_at cmp temp s' p p \<and>
           length s' = length s \<and> mset (s'[p := temp]) = mset (s[i := temp])"
  using assms
proof (induction cmp temp s i j rule: partition_loop.induct)
  case (1 cmp temp s i j)
  show ?case
  proof (cases "j > i")
    case True
    obtain s2 i1 j1 where st: "partition_step cmp temp s i j = (s2, i1, j1)" by (cases "partition_step cmp temp s i j")
    have len: "j < length s" using 1(2) by (simp add: split_at_def)
    have sp: "split_at cmp temp s2 i1 j1" "mset (s2[i1 := temp]) = mset (s[i := temp])"
      using partition_step_split [OF st 1(2) True] by auto
    from 1(1) [OF True len st [symmetric] refl sp(1)] sp(2) partition_step_progress [OF st True len] True len st
    show ?thesis by (subst partition_loop.simps) auto
  next
    case False
    with 1(2) show ?thesis by (subst partition_loop.simps) (auto simp: split_at_def)
  qed
qed

text \<open>The recursive calls sort the two parts in place.\<close>

function quickSort :: "('a \<Rightarrow> 'a \<Rightarrow> int) \<Rightarrow> 'a list \<Rightarrow> 'a list go" where
  "quickSort cmp s =
     (if s = [] then None
      else
        (case partition_loop cmp (s ! 0) s 0 (length s - 1) of
           None \<Rightarrow> None
         | Some (s1, p) \<Rightarrow>
             (let s2 = s1[p := s ! 0]
              in if length s2 \<noteq> length s \<or> length s \<le> p then None
                 else Option.bind (if p > 1 then quickSort cmp (take p s2) else Some (take p s2))
                   (\<lambda>l. Option.bind (if length s - p > 2 then quickSort cmp (drop (p + 1) s2) else Some (drop (p + 1) s2))
                     (\<lambda>r. Some (l @ s2 ! p # r))))))"
  by pat_completeness auto
termination
  by (relation "measure (\<lambda>(cmp, s). length s)") auto

declare quickSort.simps [simp del]

text \<open>The guard on the lengths never fires: the partition keeps the length and ends inside the slice.\<close>

lemma short_sorted: "length xs \<le> 1 \<Longrightarrow> sorted_wrt P xs"
  by (cases xs) auto

text \<open>On every slice that is not empty quickSort returns, and the result is the sorted
  permutation of the input, for every comparison that is a total preorder.\<close>

theorem quickSort_sorts:
  assumes "comparator cmp" and "s \<noteq> []"
  shows "\<exists>s'. quickSort cmp s = Some s' \<and> mset s' = mset s \<and> sorted_wrt (\<lambda>a b. cmp a b \<le> 0) s'"
  using assms
proof (induction "length s" arbitrary: s rule: less_induct)
  case less
  let ?t = "s ! 0" and ?P = "\<lambda>a b. cmp a b \<le> 0"
  have "split_at cmp ?t s 0 (length s - 1)" using less.prems(2) by (auto simp: split_at_def)
  from partition_loop_spec [OF this] obtain s1 p where
    pl: "partition_loop cmp ?t s 0 (length s - 1) = Some (s1, p)" and sp: "split_at cmp ?t s1 p p"
    and len: "length s1 = length s" and m: "mset (s1[p := ?t]) = mset (s[0 := ?t])" by blast
  define s2 where "s2 = s1[p := ?t]"
  have p: "p < length s" using sp len by (simp add: split_at_def)
  have m2: "mset s2 = mset s" using m by (simp add: s2_def)
  have len2: "length s2 = length s" and mid: "s2 ! p = ?t" using len p by (simp_all add: s2_def)
  have ne: "s2 \<noteq> []" using len2 less.prems(2) by auto
  have part: "\<exists>l. (if c then quickSort cmp xs else Some xs) = Some l \<and> mset l = mset xs \<and> sorted_wrt ?P l"
    if "length xs < length s" "c \<Longrightarrow> xs \<noteq> []" "\<not> c \<Longrightarrow> length xs \<le> 1" for xs c
    using that less.hyps [of xs] less.prems(1) short_sorted [of xs] by (cases c) auto
  obtain l where l: "(if p > 1 then quickSort cmp (take p s2) else Some (take p s2)) = Some l"
    "mset l = mset (take p s2)" "sorted_wrt ?P l"
    using part [of "take p s2" "p > 1"] p len2 ne by auto
  obtain r where r: "(if length s - p > 2 then quickSort cmp (drop (p + 1) s2) else Some (drop (p + 1) s2)) = Some r"
    "mset r = mset (drop (p + 1) s2)" "sorted_wrt ?P r"
  proof -
    have "length (drop (p + 1) s2) < length s" "length s - p > 2 \<Longrightarrow> drop (p + 1) s2 \<noteq> []"
      "\<not> length s - p > 2 \<Longrightarrow> length (drop (p + 1) s2) \<le> 1" using p len2 by auto
    from part [OF this] that show ?thesis by blast
  qed
  have q: "quickSort cmp s = Some (l @ s2 ! p # r)"
    using l(1) r(1) less.prems(2) pl p len2 by (subst quickSort.simps) (auto simp: Let_def len simp flip: s2_def split: if_splits)
  have split: "s2 = take p s2 @ s2 ! p # drop (Suc p) s2" using p len2 by (simp add: id_take_nth_drop)
  have "mset (l @ s2 ! p # r) = mset (take p s2 @ s2 ! p # drop (Suc p) s2)" using l(2) r(2) by simp
  then have "mset (l @ s2 ! p # r) = mset s" using split m2 by simp
  moreover have low: "cmp x ?t \<le> 0" if "x \<in> set l" for x
  proof -
    have "x \<in> set (take p s2)" using that l(2) by (metis set_mset_mset)
    then obtain k where "k < p" "x = s2 ! k" by (auto simp: in_set_conv_nth)
    then show ?thesis using sp by (simp add: s2_def split_at_def)
  qed
  moreover have high: "cmp ?t x \<le> 0" if "x \<in> set r" for x
  proof -
    have "x \<in> set (drop (p + 1) s2)" using that r(2) by (metis set_mset_mset)
    then obtain k where "k < length s - (p + 1)" "x = s2 ! (p + 1 + k)" using len2 by (auto simp: in_set_conv_nth)
    then have "cmp x ?t \<ge> 0" using sp len by (simp add: s2_def split_at_def)
    then show ?thesis using less.prems(1) by (auto simp: comparator_def)
  qed
  moreover have "cmp x y \<le> 0" if "x \<in> set l" "y \<in> set r" for x y
    using low [OF that(1)] high [OF that(2)] less.prems(1) unfolding comparator_def by blast
  ultimately have "sorted_wrt ?P (l @ s2 ! p # r)" using l(3) r(3) mid by (simp add: sorted_wrt_append)
  with q \<open>mset (l @ s2 ! p # r) = mset s\<close> show ?case by blast
qed

theorem quickSort_sorts_witness:
  "\<exists>s'. quickSort (\<lambda>a b :: int. a - b) [3, 1, 2, 1] = Some s' \<and> mset s' = mset [3, 1, 2, 1] \<and>
     sorted_wrt (\<lambda>a b. a - b \<le> 0) s'"
  by (rule quickSort_sorts) (simp_all add: comparator_def)

section \<open>Canonical paths: http.go\<close>

text \<open>The lazily allocated buffer: \<open>[]\<close> while the output is a prefix of the input. Writing \<open>c\<close> at
  position \<open>w\<close>; an index out of range panics.\<close>

definition bufApp :: "bytes \<Rightarrow> bytes \<Rightarrow> nat \<Rightarrow> char \<Rightarrow> bytes go" where
  "bufApp buf s w c =
     (if buf = [] then
        if w < length s then
          (if s ! w = c then Some []
           else Some ((take w s @ replicate (length s - w) (mk_byte 0))[w := c]))
        else None
      else if w < length buf then Some (buf[w := c]) else None)"

text \<open>The backtracking loops of a \<open>..\<close> element: from \<open>w\<close> down to the last slash.\<close>

fun back_up :: "bytes \<Rightarrow> nat \<Rightarrow> nat" where
  "back_up s w = (if w > 1 \<and> s ! w \<noteq> CHR ''/'' then back_up s (w - 1) else w)"

declare back_up.simps [simp del]

text \<open>Copying an element: the buffer, the write and the read position after it.\<close>

function copy_elem :: "bytes \<Rightarrow> bytes \<Rightarrow> nat \<Rightarrow> nat \<Rightarrow> (bytes \<times> nat \<times> nat) go" where
  "copy_elem p buf w r =
     (if r < length p \<and> p ! r \<noteq> CHR ''/'' then
        Option.bind (bufApp buf p w (p ! r)) (\<lambda>buf'. copy_elem p buf' (w + 1) (r + 1))
      else Some (buf, w, r))"
  by pat_completeness auto
termination
  by (relation "measure (\<lambda>(p, buf, w, r). length p - r)") auto

declare copy_elem.simps [simp del]

lemma copy_elem_reads:
  "copy_elem p buf w r = Some (buf', w', r') \<Longrightarrow> r \<le> r' \<and> (r < length p \<and> p ! r \<noteq> CHR ''/'' \<longrightarrow> r < r')"
proof (induction p buf w r rule: copy_elem.induct)
  case (1 p buf w r)
  show ?case
  proof (cases "r < length p \<and> p ! r \<noteq> CHR ''/''")
    case True
    with "1.prems" obtain b where "bufApp buf p w (p ! r) = Some b" "copy_elem p b (w + 1) (r + 1) = Some (buf', w', r')"
      by (subst (asm) copy_elem.simps) (auto simp: bind_eq_Some_conv)
    with "1.IH" [OF True] show ?thesis by fastforce
  next
    case False
    with "1.prems" show ?thesis by (subst (asm) copy_elem.simps) auto
  qed
qed

text \<open>One round of the main loop: buffer, write position, read position, the flag trailing.\<close>

definition clean_step :: "bytes \<Rightarrow> bytes \<Rightarrow> nat \<Rightarrow> nat \<Rightarrow> bool \<Rightarrow> (bytes \<times> nat \<times> nat \<times> bool) go" where
  "clean_step p buf w r trailing =
     (if p ! r = CHR ''/'' then Some (buf, w, r + 1, trailing)
      else if p ! r = CHR ''.'' \<and> r + 1 = length p then Some (buf, w, r + 1, True)
      else if p ! r = CHR ''.'' \<and> p ! (r + 1) = CHR ''/'' then Some (buf, w, r + 2, trailing)
      else if p ! r = CHR ''.'' \<and> p ! (r + 1) = CHR ''.'' \<and> (r + 2 = length p \<or> p ! (r + 2) = CHR ''/'') then
        Some (buf, if w > 1 then back_up (if buf = [] then p else buf) (w - 1) else w, r + 3, trailing)
      else
        Option.bind (if w > 1 then map_option (\<lambda>b. (b, w + 1)) (bufApp buf p w CHR ''/'') else Some (buf, w))
          (\<lambda>(buf1, w1). map_option (\<lambda>(buf2, w2, r2). (buf2, w2, r2, trailing)) (copy_elem p buf1 w1 r)))"

lemma clean_step_reads: "clean_step p buf w r t = Some (buf', w', r', t') \<Longrightarrow> r < length p \<Longrightarrow> r < r'"
  by (auto simp: clean_step_def bind_eq_Some_conv dest: copy_elem_reads split: if_splits)

function clean_loop :: "bytes \<Rightarrow> bytes \<Rightarrow> nat \<Rightarrow> nat \<Rightarrow> bool \<Rightarrow> (bytes \<times> nat \<times> bool) go" where
  "clean_loop p buf w r trailing =
     (if r < length p then
        (case clean_step p buf w r trailing of
           None \<Rightarrow> None
         | Some (buf', w', r', trailing') \<Rightarrow> clean_loop p buf' w' r' trailing')
      else Some (buf, w, trailing))"
  by pat_completeness auto
termination
  by (relation "measure (\<lambda>(p, buf, w, r, t). length p - r)")
    (auto dest: clean_step_reads intro: diff_less_mono2)

declare clean_loop.simps [simp del]

definition CleanUrlPath :: "bytes \<Rightarrow> bytes go" where
  "CleanUrlPath p =
     (if p = [] then Some ''/''
      else
        (let n = length p;
             (buf, r) = (if p ! 0 \<noteq> CHR ''/'' then (CHR ''/'' # replicate n (mk_byte 0), 0) else ([], 1));
             trailing = (n > 1 \<and> p ! (n - 1) = CHR ''/'')
         in Option.bind (clean_loop p buf 1 r trailing)
              (\<lambda>(buf, w, trailing).
                 Option.bind (if trailing \<and> w > 1 then map_option (\<lambda>b. (b, w + 1)) (bufApp buf p w CHR ''/'')
                              else Some (buf, w))
                   (\<lambda>(buf, w). Some (take w (if buf = [] then p else buf))))))"

subsection \<open>Reference\<close>

text \<open>The elements between the slashes are put on a stack; empty and \<open>.\<close> elements are dropped, a
  \<open>..\<close> takes the last element away.\<close>

definition clean_elem :: "bytes \<Rightarrow> bytes list \<Rightarrow> bytes list" where
  "clean_elem e st =
     (if e = [] \<or> e = ''.'' then st else if e = ''..'' then butlast st else st @ [e])"

definition render :: "bytes list \<Rightarrow> bytes" where
  "render st = (if st = [] then ''/'' else concat (map ((#) CHR ''/'') st))"

definition clean_elems :: "bytes \<Rightarrow> bytes list \<Rightarrow> bytes list" where
  "clean_elems p st = fold clean_elem (Split p CHR ''/'') st"

definition clean_path :: "bytes \<Rightarrow> bytes" where
  "clean_path p =
     (let st = clean_elems p []
      in render st @
         (if st \<noteq> [] \<and> (length p > 1 \<and> last p = CHR ''/'' \<or> last (Split p CHR ''/'') = ''.'') then ''/'' else []))"

text \<open>The buffer stands for a list of \<open>w\<close> bytes written; \<open>k\<close> is one if the path got a slash in front.\<close>

definition written :: "bytes \<Rightarrow> nat \<Rightarrow> bytes \<Rightarrow> nat \<Rightarrow> bytes \<Rightarrow> bool" where
  "written p k buf w out \<longleftrightarrow>
     (if buf = [] then k = 0 else length buf = length p + k) \<and> w \<le> length p + k \<and>
     take w (if buf = [] then p else buf) = out"

lemma bufApp_written:
  assumes "written p k buf w out" and "w < length p + k"
  shows "\<exists>buf'. bufApp buf p w c = Some buf' \<and> written p k buf' (Suc w) (out @ [c])"
proof (cases "buf = []")
  case True
  with assms have w: "w < length p" "k = 0" "take w p = out" by (auto simp: written_def)
  show ?thesis
  proof (cases "p ! w = c")
    case eq: True
    with w True show ?thesis by (simp add: bufApp_def written_def take_Suc_conv_app_nth)
  next
    case False
    let ?b = "(take w p @ replicate (length p - w) (mk_byte 0))[w := c]"
    have "take (Suc w) ?b = out @ [c]" using w by (subst take_Suc_conv_app_nth) auto
    moreover have "?b \<noteq> []" using w by auto
    ultimately show ?thesis using w False True by (auto simp: bufApp_def written_def)
  qed
next
  case False
  with assms have "length buf = length p + k" "take w buf = out" by (auto simp: written_def)
  then have "take (Suc w) (buf[w := c]) = out @ [c]" using assms(2) by (subst take_Suc_conv_app_nth) auto
  with False assms show ?thesis by (auto simp: bufApp_def written_def)
qed

lemma written_length: "written p k buf w out \<Longrightarrow> length out = w"
  by (auto simp: written_def split: if_splits)

lemma copy_elem_written:
  assumes "written p k buf w out" and "drop r p = e @ rest" and "CHR ''/'' \<notin> set e"
    and "rest = [] \<or> hd rest = CHR ''/''" and "w + length e \<le> length p + k"
  shows "\<exists>buf'. copy_elem p buf w r = Some (buf', w + length e, r + length e) \<and>
           written p k buf' (w + length e) (out @ e)"
  using assms
proof (induction e arbitrary: buf w out r)
  case Nil
  have "\<not> (r < length p \<and> p ! r \<noteq> CHR ''/'')"
  proof (cases "drop r p")
    case (Cons c s)
    with Nil drop_ConsD [OF Cons] show ?thesis by auto
  qed auto
  then have "copy_elem p buf w r = Some (buf, w, r)" by (subst copy_elem.simps) auto
  with Nil show ?case by simp
next
  case (Cons c e)
  have d: "r < length p" "p ! r = c" "drop (Suc r) p = e @ rest"
    using drop_ConsD [of r p c "e @ rest"] Cons.prems(2) by auto
  obtain b where b: "bufApp buf p w c = Some b" "written p k b (Suc w) (out @ [c])"
    using bufApp_written [OF Cons.prems(1), of c] Cons.prems(5) by auto
  have "c \<noteq> CHR ''/''" using Cons.prems(3) by auto
  with Cons.IH [OF b(2) d(3)] Cons.prems b d show ?case by (subst copy_elem.simps) auto
qed

lemma Split_elem:
  assumes "sep \<notin> set e"
  shows "Split e sep = [e]" and "Split (e @ sep # s) sep = e # Split s sep"
  using assms by (induction e) auto

lemma clean_elems_simps:
  "clean_elems [] st = st"
  "clean_elems (CHR ''/'' # s) st = clean_elems s st"
  "CHR ''/'' \<notin> set e \<Longrightarrow> rest = [] \<or> hd rest = CHR ''/'' \<Longrightarrow>
     clean_elems (e @ rest) st = clean_elems rest (clean_elem e st)"
  by (auto simp: clean_elems_def clean_elem_def) (cases rest; auto simp: Split_elem clean_elem_def)+

lemma last_Split:
  "last (Split (CHR ''/'' # s) CHR ''/'') = last (Split s CHR ''/'')"
  "CHR ''/'' \<notin> set e \<Longrightarrow> rest = [] \<or> hd rest = CHR ''/'' \<Longrightarrow> e \<noteq> [] \<Longrightarrow>
     last (Split (e @ rest) CHR ''/'') = (if rest = [] then e else last (Split rest CHR ''/''))"
proof -
  show "last (Split (CHR ''/'' # s) CHR ''/'') = last (Split s CHR ''/'')" by simp
  assume "CHR ''/'' \<notin> set e" "rest = [] \<or> hd rest = CHR ''/''" "e \<noteq> []"
  then show "last (Split (e @ rest) CHR ''/'') = (if rest = [] then e else last (Split rest CHR ''/''))"
    by (cases rest) (auto simp: Split_elem)
qed

definition good_stack :: "bytes list \<Rightarrow> bool" where
  "good_stack st \<longleftrightarrow> (\<forall>e\<in>set st. e \<noteq> [] \<and> CHR ''/'' \<notin> set e \<and> e \<noteq> ''.'' \<and> e \<noteq> ''..'')"

lemma good_stack_step: "good_stack st \<Longrightarrow> CHR ''/'' \<notin> set e \<Longrightarrow> good_stack (clean_elem e st)"
  by (auto simp: good_stack_def clean_elem_def dest: in_set_butlastD)

lemma render_length: "good_stack st \<Longrightarrow> st \<noteq> [] \<Longrightarrow> 1 < length (render st)"
  by (cases st; cases "hd st") (auto simp: good_stack_def render_def)

lemma render_snoc: "render (st @ [e]) = (if st = [] then ''/'' @ e else render st @ ''/'' @ e)"
  by (auto simp: render_def)

text \<open>Backtracking ends at the last slash written, or behind the first one.\<close>

lemma back_up_elem:
  assumes "CHR ''/'' \<notin> set e" and "take (length pre + 1 + length e) s = pre @ CHR ''/'' # e"
  shows "back_up s (length pre + length e) = (if pre = [] then if e = [] then 0 else 1 else length pre)"
  using assms
proof (induction e rule: rev_induct)
  case Nil
  have "s ! length pre = take (length pre + 1) s ! length pre" by simp
  also have "\<dots> = CHR ''/''" using Nil.prems(2) by simp
  finally show ?case by (cases pre) (simp_all add: back_up.simps [of s 0] back_up.simps [of s "Suc _"])
next
  case (snoc c e)
  let ?w = "length pre + length (e @ [c])"
  have "s ! ?w = take (length pre + 1 + length (e @ [c])) s ! ?w" by (intro nth_take [symmetric]) simp
  also have "\<dots> = (pre @ CHR ''/'' # e @ [c]) ! ?w" by (simp only: snoc.prems(2))
  finally
  have c: "s ! ?w = c" by (simp add: nth_append)
  have pre: "take (length pre + 1 + length e) s = pre @ CHR ''/'' # e"
    using arg_cong [OF snoc.prems(2), of "take (length pre + 1 + length e)"] by (simp add: min_def)
  have "c \<noteq> CHR ''/''" using snoc.prems(1) by auto
  with c snoc.IH [OF _ pre] snoc.prems(1) show ?case
    by (cases "?w > 1") (auto simp: back_up.simps [of s "Suc (length pre + length e)"] back_up.simps [of s "Suc 0"])
qed

lemma back_up_written:
  assumes "written p k buf w (render (st @ [e]))" and "good_stack (st @ [e])"
  defines "w' \<equiv> back_up (if buf = [] then p else buf) (w - 1)"
  shows "written p k buf w' (render st) \<and> w' \<le> w"
proof -
  let ?s = "if buf = [] then p else buf"
  have e: "CHR ''/'' \<notin> set e" "e \<noteq> []" using assms(2) by (auto simp: good_stack_def)
  define pre where "pre = (if st = [] then [] else render st)"
  have out: "render (st @ [e]) = pre @ CHR ''/'' # e" by (auto simp: render_snoc pre_def)
  have w: "w = length pre + 1 + length e" using written_length [OF assms(1)] out by simp
  have t: "take w ?s = pre @ CHR ''/'' # e" using assms(1) out by (simp add: written_def)
  have "back_up ?s (w - 1) = (if pre = [] then 1 else length pre)"
    using back_up_elem [OF e(1), of pre ?s] t w e(2) by (cases e) auto
  moreover have "good_stack st" using assms(2) by (simp add: good_stack_def)
  then have pre: "pre = [] \<longleftrightarrow> st = []" using render_length [of st] by (cases "st = []") (auto simp: pre_def)
  ultimately have w': "w' = length (render st)"
    by (cases "st = []") (simp_all add: w'_def pre_def render_def [of "[]"])
  have le: "w' \<le> w" unfolding w' w by (cases "st = []") (simp_all add: pre_def render_def [of "[]"])
  have "take w' ?s = take w' (take w ?s)" using le by (simp add: min_def)
  also have "\<dots> = render st" unfolding t w' by (cases "st = []") (simp_all add: pre_def render_def [of "[]"])
  finally show ?thesis using assms(1) le by (auto simp: written_def)
qed

definition clean_inv :: "bytes \<Rightarrow> nat \<Rightarrow> bytes \<Rightarrow> nat \<Rightarrow> nat \<Rightarrow> bool \<Rightarrow> bytes list \<Rightarrow> bool" where
  "clean_inv p k buf w r t st \<longleftrightarrow>
     written p k buf w (render st) \<and> good_stack st \<and> w \<le> r + k \<and>
     (w > 1 \<and> r < length p \<and> p ! r \<noteq> CHR ''/'' \<longrightarrow> w < r + k) \<and>
     (t \<and> r < length p \<longrightarrow> last p = CHR ''/'') \<and> (t \<longrightarrow> w < length p + k)"

lemma clean_inv_w: "clean_inv p k buf w r t st \<Longrightarrow> 1 < w \<longleftrightarrow> st \<noteq> []"
  using written_length [of p k buf w "render st"] render_length [of st]
  by (cases "st = []") (auto simp: clean_inv_def render_def)

text \<open>What one round does: it reads one element and the stack follows.\<close>

lemma clean_step_correct:
  assumes inv: "clean_inv p k buf w r t st" and r: "r < length p"
  shows "\<exists>buf' w' r' t' st'. clean_step p buf w r t = Some (buf', w', r', t') \<and>
    clean_inv p k buf' w' r' t' st' \<and> clean_elems (drop r p) st = clean_elems (drop r' p) st' \<and>
    (t \<or> last (Split (drop r p) CHR ''/'') = ''.'') = (t' \<or> last (Split (drop r' p) CHR ''/'') = ''.'')"
proof -
  define e rest where "e = takeWhile (\<lambda>c. c \<noteq> CHR ''/'') (drop r p)"
    and "rest = dropWhile (\<lambda>c. c \<noteq> CHR ''/'') (drop r p)"
  have d: "drop r p = e @ rest" by (simp add: e_def rest_def)
  have e: "CHR ''/'' \<notin> set e" by (auto simp: e_def dest: set_takeWhileD)
  have rest: "rest = [] \<or> hd rest = CHR ''/''" using hd_dropWhile [of "\<lambda>c. c \<noteq> CHR ''/''" "drop r p"] by (auto simp: rest_def)
  have len: "length p = r + length e + length rest" using arg_cong [OF d, of length] r by simp
  have nth: "p ! (r + i) = (e @ rest) ! i" for i using d r by (metis less_imp_le nth_drop)
  have dr: "drop (r + i) p = drop i (e @ rest)" for i using d by (metis add.commute drop_drop)
  have inv': "written p k buf w (render st)" "good_stack st" "w \<le> r + k" "t \<Longrightarrow> last p = CHR ''/''" "t \<Longrightarrow> w < length p + k"
    using inv r by (auto simp: clean_inv_def)
  have split: "clean_elems (drop r p) st = clean_elems rest (clean_elem e st)"
    unfolding d by (rule clean_elems_simps(3) [OF e rest])
  consider "e = []" | "e = ''.''" "rest = []" | s where "e = ''.''" "rest = CHR ''/'' # s" | "e = ''..''"
    | "e \<noteq> []" "e \<noteq> ''.''" "e \<noteq> ''..''"
    using rest by (cases rest) auto
  then show ?thesis
  proof cases
    case 1
    then obtain s where s: "rest = CHR ''/'' # s" using rest len r by (cases rest) auto
    have "clean_step p buf w r t = Some (buf, w, r + 1, t)" using nth [of 0] 1 s by (simp add: clean_step_def)
    moreover have "clean_inv p k buf w (r + 1) t st" using inv by (auto simp: clean_inv_def)
    ultimately show ?thesis using dr [of 1] 1 s d by (auto simp: clean_elems_simps)
  next
    case 2
    have "clean_step p buf w r t = Some (buf, w, r + 1, True)" using nth [of 0] 2 len by (simp add: clean_step_def)
    moreover have "clean_inv p k buf w (r + 1) True st" using inv 2 len by (auto simp: clean_inv_def)
    moreover have "drop (r + 1) p = []" using dr [of 1] 2 by simp
    ultimately show ?thesis using 2 split d by (auto simp: clean_elems_simps clean_elem_def)
  next
    case 3
    have "clean_step p buf w r t = Some (buf, w, r + 2, t)"
      using nth [of 0] nth [of 1] 3 len by (simp add: clean_step_def)
    moreover have "clean_inv p k buf w (r + 2) t st" using inv by (auto simp: clean_inv_def)
    moreover have "drop (r + 2) p = s" using dr [of 2] 3 by simp
    ultimately show ?thesis using 3 split d by (auto simp: clean_elems_simps clean_elem_def)
  next
    case 4
    let ?w = "if w > 1 then back_up (if buf = [] then p else buf) (w - 1) else w"
    have "clean_step p buf w r t = Some (buf, ?w, r + 3, t)"
      using nth [of 0] nth [of 1] nth [of 2] 4 len rest
      by (cases rest) (auto simp: clean_step_def numeral_2_eq_2)
    moreover have wr: "written p k buf ?w (render (butlast st)) \<and> ?w \<le> w"
    proof (cases st rule: rev_cases)
      case Nil
      with inv'(1) clean_inv_w [OF inv] show ?thesis by simp
    next
      case (snoc st' x)
      with back_up_written [of p k buf w st' x] inv'(1,2) clean_inv_w [OF inv] show ?thesis by simp
    qed
    moreover have "good_stack (butlast st)" using inv'(2) by (auto simp: good_stack_def dest: in_set_butlastD)
    ultimately have "clean_inv p k buf ?w (r + 3) t (butlast st)" using inv' inv by (auto simp: clean_inv_def)
    moreover have "clean_elem e st = butlast st" using 4 by (simp add: clean_elem_def)
    moreover have "drop (r + 3) p = drop 1 rest" using dr [of 3] 4 by simp
    ultimately show ?thesis
      using \<open>clean_step p buf w r t = _\<close> 4 split d rest
      by (cases rest) (auto simp: clean_elems_simps)
  next
    case 5
    then obtain c e' where ce: "e = c # e'" "c \<noteq> CHR ''/''" using e by (cases e) auto
    have def: "p ! r = c" using nth [of 0] ce by simp
    have nodot: "\<not> (p ! r = CHR ''.'' \<and> r + 1 = length p)" "\<not> (p ! r = CHR ''.'' \<and> p ! (r + 1) = CHR ''/'')"
      "\<not> (p ! r = CHR ''.'' \<and> p ! (r + 1) = CHR ''.'' \<and> (r + 2 = length p \<or> p ! (r + 2) = CHR ''/''))"
      using 5 ce e len nth [of 1] nth [of 2] def rest
      by (cases e'; cases "tl e'"; cases rest; auto simp: numeral_2_eq_2)+
    let ?sl = "if w > 1 then ''/'' else []"
    have wlt: "w > 1 \<Longrightarrow> w < r + k" using inv r def ce by (auto simp: clean_inv_def)
    obtain b where b: "(if w > 1 then map_option (\<lambda>b. (b, w + 1)) (bufApp buf p w CHR ''/'') else Some (buf, w)) =
        Some (b, w + length ?sl)" "written p k b (w + length ?sl) (render st @ ?sl)"
      using bufApp_written [OF inv'(1), of "CHR ''/''"] wlt inv'(1) r by (cases "w > 1") auto
    have fit: "w + length ?sl + length e \<le> length p + k" "w + length ?sl \<le> r + k"
      using wlt inv'(3) len by (cases "w > 1"; simp)+
    obtain b2 where b2: "copy_elem p b (w + length ?sl) r = Some (b2, w + length ?sl + length e, r + length e)"
      "written p k b2 (w + length ?sl + length e) ((render st @ ?sl) @ e)"
      using copy_elem_written [OF b(2) d e rest fit(1)] by blast
    have "clean_step p buf w r t = Some (b2, w + length ?sl + length e, r + length e, t)"
      using ce(2) def b2(1) unfolding clean_step_def if_not_P [OF nodot(1)] if_not_P [OF nodot(2)]
        if_not_P [OF nodot(3)] b(1) by simp
    moreover have st: "clean_elem e st = st @ [e]" using 5 by (simp add: clean_elem_def)
    moreover have "(render st @ ?sl) @ e = render (st @ [e])"
      using clean_inv_w [OF inv] by (auto simp: render_snoc) (simp add: render_def)
    moreover have "clean_inv p k b2 (w + length ?sl + length e) (r + length e) t (st @ [e])"
    proof -
      have "p ! (r + length e) = CHR ''/''" if "r + length e < length p"
        using nth [of "length e"] rest that len by (cases rest) auto
      moreover have "w + length ?sl + length e < length p + k" if t
      proof -
        have "rest \<noteq> []"
        proof
          assume "rest = []"
          then have "last p = last e" using d r 5(1) by (metis append_Nil2 last_drop)
          then show False using inv'(4) [OF that] 5(1) e by (metis last_in_set)
        qed
        then show ?thesis using fit(2) len by (cases rest) auto
      qed
      ultimately show ?thesis
        using b2(2) inv'(2,4) fit 5 e good_stack_step [OF inv'(2) e]
        unfolding clean_inv_def st \<open>(render st @ ?sl) @ e = render (st @ [e])\<close> by auto
    qed
    moreover have "drop (r + length e) p = rest" using dr [of "length e"] by simp
    ultimately show ?thesis
      using 5 split d last_Split(2) [OF e rest 5(1)] by auto
  qed
qed

lemma clean_loop_correct:
  assumes "clean_inv p k buf w r t st"
  shows "\<exists>buf' w' t'. clean_loop p buf w r t = Some (buf', w', t') \<and>
    written p k buf' w' (render (clean_elems (drop r p) st)) \<and> good_stack (clean_elems (drop r p) st) \<and>
    t' = (t \<or> last (Split (drop r p) CHR ''/'') = ''.'') \<and> (t' \<longrightarrow> w' < length p + k)"
  using assms
proof (induction "length p - r" arbitrary: buf w r t st rule: less_induct)
  case less
  show ?case
  proof (cases "r < length p")
    case False
    with less.prems show ?thesis
      by (subst clean_loop.simps) (auto simp: clean_inv_def clean_elems_simps)
  next
    case True
    from clean_step_correct [OF less.prems True] obtain buf' w' r' t' st' where
      st: "clean_step p buf w r t = Some (buf', w', r', t')" "clean_inv p k buf' w' r' t' st'"
        "clean_elems (drop r p) st = clean_elems (drop r' p) st'"
        "(t \<or> last (Split (drop r p) CHR ''/'') = ''.'') = (t' \<or> last (Split (drop r' p) CHR ''/'') = ''.'')"
      by blast
    have "length p - r' < length p - r" using clean_step_reads [OF st(1) True] True by simp
    from less.hyps [OF this st(2)] st True show ?thesis by (subst clean_loop.simps) simp
  qed
qed

text \<open>The loop from the start of the path, with a buffer only if the leading slash is missing.\<close>

lemma clean_loop_start:
  assumes "p \<noteq> []" and "k = (if p ! 0 \<noteq> CHR ''/'' then 1 else 0 :: nat)" and "r = (if p ! 0 \<noteq> CHR ''/'' then 0 else 1 :: nat)"
    and "buf = (if p ! 0 \<noteq> CHR ''/'' then CHR ''/'' # replicate (length p) (mk_byte 0) else [])"
    and "t = (length p > 1 \<and> p ! (length p - 1) = CHR ''/'')"
  shows "\<exists>buf' w' t'. clean_loop p buf 1 r t = Some (buf', w', t') \<and>
    written p k buf' w' (render (clean_elems p [])) \<and> good_stack (clean_elems p []) \<and>
    t' = (t \<or> last (Split p CHR ''/'') = ''.'') \<and> (t' \<longrightarrow> w' < length p + k)"
proof -
  have "clean_inv p k buf 1 r t []"
    using assms by (cases p) (auto simp: clean_inv_def written_def render_def good_stack_def last_conv_nth)
  moreover have "clean_elems (drop r p) [] = clean_elems p []" "last (Split (drop r p) CHR ''/'') = last (Split p CHR ''/'')"
    using assms(1,3) by (cases p; auto simp: clean_elems_simps)+
  ultimately show ?thesis using clean_loop_correct [of p k buf 1 r t "[]"] by simp
qed

text \<open>Claim C36: CleanUrlPath never panics and computes the canonical path: the elements of the path
  with empty and \<open>.\<close> elements dropped and each \<open>..\<close> taking away the element before it, joined
  with slashes, with a slash at the end if the path ended in one or in a \<open>.\<close> element. The lazily
  allocated buffer makes no difference.\<close>

theorem CleanUrlPath_correct: "CleanUrlPath p = Some (clean_path p)"
proof (cases "p = []")
  case True
  then show ?thesis by (simp add: CleanUrlPath_def clean_path_def clean_elems_simps render_def)
next
  case ne: False
  let ?t = "length p > 1 \<and> p ! (length p - 1) = CHR ''/''"
  define k r buf where "k = (if p ! 0 \<noteq> CHR ''/'' then 1 else 0 :: nat)"
    and "r = (if p ! 0 \<noteq> CHR ''/'' then 0 else 1 :: nat)"
    and "buf = (if p ! 0 \<noteq> CHR ''/'' then CHR ''/'' # replicate (length p) (mk_byte 0) else [])"
  have last: "p ! (length p - 1) = last p" using ne by (simp add: last_conv_nth)
  obtain buf' w' t' where loop: "clean_loop p buf 1 r ?t = Some (buf', w', t')"
    and wr: "written p k buf' w' (render (clean_elems p []))" "good_stack (clean_elems p [])"
    and t': "t' = (?t \<or> last (Split p CHR ''/'') = ''.'')" "t' \<longrightarrow> w' < length p + k"
    using clean_loop_start [OF ne k_def r_def buf_def refl] by blast
  have w: "w' > 1 \<longleftrightarrow> clean_elems p [] \<noteq> []"
    using written_length [OF wr(1)] render_length [OF wr(2)] by (cases "clean_elems p [] = []") (auto simp: render_def)
  let ?sl = "if t' \<and> w' > 1 then ''/'' else []"
  obtain b where b: "(if t' \<and> w' > 1 then map_option (\<lambda>b. (b, w' + 1)) (bufApp buf' p w' CHR ''/'') else Some (buf', w')) =
      Some (b, w' + length ?sl)" "written p k b (w' + length ?sl) (render (clean_elems p []) @ ?sl)"
    using bufApp_written [OF wr(1), of "CHR ''/''"] t'(2) wr(1) by (cases "t' \<and> w' > 1") auto
  have start: "(if p ! 0 \<noteq> CHR ''/'' then (CHR ''/'' # replicate (length p) (mk_byte 0), 0) else ([], 1)) = (buf, r)"
    by (simp add: buf_def r_def)
  have "CleanUrlPath p = Some (take (w' + length ?sl) (if b = [] then p else b))"
    unfolding CleanUrlPath_def Let_def start case_prod_conv loop bind.simps b(1) using ne by simp
  then have "CleanUrlPath p = Some (render (clean_elems p []) @ ?sl)"
    using b(2) unfolding written_def by simp
  moreover have "render (clean_elems p []) @ ?sl = clean_path p" using t'(1) w last by (auto simp: clean_path_def)
  ultimately show ?thesis by simp
qed

end
