(* ===== verification/Xff.thy ===== *)
theory Xff
  imports Helpers Route
begin

text \<open>
  The forwarded-header middleware (src/fasthttp-routing/middleware/xff/xff.go) and the accessors of
  the context that use it: Host, IP, Port, Secure and Proto of src/fasthttp-routing/context.go.

  An IP address of package net is its text (the result of String); \<open>parse\<close> stands for
  net.ParseIP, a range of addresses for its Contains. The functions lower-case parts of the header
  Forwarded in place, and so do the definitions: they return the header as they leave it.
\<close>

section \<open>State\<close>

definition HEADER_FORWARDED :: nat where "HEADER_FORWARDED = 1"
definition HEADER_X_FORWARDED_FOR :: nat where "HEADER_X_FORWARDED_FOR = 2"
definition HEADER_X_FORWARDED_HOST :: nat where "HEADER_X_FORWARDED_HOST = 4"
definition HEADER_X_FORWARDED_PROTO :: nat where "HEADER_X_FORWARDED_PROTO = 8"
definition HEADER_X_FORWARDED_PORT :: nat where "HEADER_X_FORWARDED_PORT = 16"

definition has_flag :: "nat \<Rightarrow> nat \<Rightarrow> bool" where
  "has_flag flag s \<longleftrightarrow> odd (s div flag)"

record Config =
  TrustProxies :: "bytes list"
  iPRanges :: "(bytes \<Rightarrow> bool) list"
  TrustedHeaderSet :: nat

definition DefCfg :: Config where
  "DefCfg = \<lparr>TrustProxies = [], iPRanges = [],
     TrustedHeaderSet = HEADER_X_FORWARDED_FOR + HEADER_X_FORWARDED_HOST + HEADER_X_FORWARDED_PORT +
       HEADER_X_FORWARDED_PROTO\<rparr>"

datatype trust = FROMUNKNOWN | FROMUNTRUSTED | FROMTRUST

record xffInfo =
  xcfg :: Config
  trust :: trust

datatype secure = PROTOUNKNOW | PROTOUNSECURE | PROTOSECURE

text \<open>The fields of Ctx, the request and the response. The peer address is the text of its IP for a
  TCP or UDP address, and the whole address text otherwise.\<close>

datatype peer = IpAddr bytes | OtherAddr bytes

record ctx =
  Method :: bytes
  Path :: bytes
  host_header :: bytes
  header :: "bytes \<Rightarrow> bytes"
  RemoteAddr :: peer
  IsTLS :: bool
  status :: int
  Allow :: "bytes option"
  ContentType :: bytes
  body :: bytes
  XFFInfo :: "xffInfo option"
  RSecure :: secure
  RIP :: bytes
  RPort :: int
  RHost :: bytes
  cpnames :: "bytes list"
  cpvalues :: "bytes list"
  cdata :: "bytes \<Rightarrow> bytes option"
  croute :: "nat option"
  cbytes :: bytes

text \<open>Ctx.init sets the request; everything the context keeps from its last use stays, except what
  clear resets.\<close>

definition init_ctx :: "ctx \<Rightarrow> ctx \<Rightarrow> ctx" where
  "init_ctx req c =
     c\<lparr>Method := Method req, Path := Path req, host_header := host_header req, header := header req,
       RemoteAddr := RemoteAddr req, IsTLS := IsTLS req,
       status := status req, Allow := Allow req, ContentType := ContentType req, body := body req\<rparr>"

definition clear_ctx :: "ctx \<Rightarrow> ctx" where
  "clear_ctx c = c\<lparr>cdata := (\<lambda>_. None), croute := None\<rparr>"

section \<open>Trust\<close>

definition checkIp2 :: "bytes \<Rightarrow> (bytes \<Rightarrow> bool) list \<Rightarrow> bool" where
  "checkIp2 ip ranges \<longleftrightarrow> (\<exists>r\<in>set ranges. r ip)"

text \<open>For a peer that is neither TCP nor UDP the address is the nil IP, with an empty text.\<close>

definition checkIp :: "ctx \<Rightarrow> Config \<Rightarrow> bool" where
  "checkIp c cfg = checkIp2 (case RemoteAddr c of IpAddr ip \<Rightarrow> ip | OtherAddr _ \<Rightarrow> []) (iPRanges cfg)"

definition isFromTrustedProxy :: "xffInfo \<Rightarrow> ctx \<Rightarrow> bool \<times> xffInfo" where
  "isFromTrustedProxy x c =
     (if trust x \<noteq> FROMUNKNOWN then (trust x = FROMTRUST, x)
      else if TrustProxies (xcfg x) \<noteq> [] \<and> checkIp c (xcfg x) then (True, x\<lparr>trust := FROMTRUST\<rparr>)
      else (False, x\<lparr>trust := FROMUNTRUSTED\<rparr>))"

section \<open>Scanning the header Forwarded\<close>

text \<open>From position \<open>i\<close> on, look for the key (its first letter in either case); every window that
  starts with that letter is lower-cased in place. The result is the header and the position after
  the key.\<close>

function fwd_find :: "bytes \<Rightarrow> bytes \<Rightarrow> nat \<Rightarrow> bytes \<times> nat option" where
  "fwd_find key ff i =
     (if i < length ff then
        if ToLower [ff ! i] = [hd key] then
          if length ff - i < length key then (ff, None)
          else
            (let part = ToLower (slice i (i + length key) ff);
                 ff' = take i ff @ part @ drop (i + length key) ff
             in if part = key then (ff', Some (i + length key)) else fwd_find key ff' (i + 1))
        else fwd_find key ff (i + 1)
      else (ff, None))"
  by pat_completeness auto
termination
  by (relation "measure (\<lambda>(key, ff, i). length ff - i)") (auto simp: ToLower_def slice_def)

declare fwd_find.simps [simp del]

text \<open>A value goes up to the next comma or semicolon.\<close>

definition fwd_value :: "bytes \<Rightarrow> bytes" where
  "fwd_value after = takeWhile (\<lambda>c. c \<noteq> CHR '','' \<and> c \<noteq> CHR '';'') after"

definition fwd_get :: "bytes \<Rightarrow> bytes \<Rightarrow> bytes \<times> bytes" where
  "fwd_get key ff =
     (case fwd_find key ff 0 of
        (ff', None) \<Rightarrow> (ff', [])
      | (ff', Some a) \<Rightarrow> (ff', fwd_value (drop a ff')))"

text \<open>The scan for all \<open>for=\<close> entries. The entries are slices of the header that share its bytes, so
  they are kept as positions and read when the scan is over.\<close>

function fwd_all :: "bytes \<Rightarrow> nat \<Rightarrow> (nat \<times> nat) list \<Rightarrow> bytes \<times> (nat \<times> nat) list" where
  "fwd_all ff i acc =
     (if i < length ff then
        if ToLower [ff ! i] = ''f'' then
          if length ff - i < 4 then (ff, acc)
          else
            (let part = ToLower (slice i (i + 4) ff);
                 ff' = take i ff @ part @ drop (i + 4) ff
             in if part = ''for='' then
                  fwd_all ff' (i + 1) (acc @ [(i + 4, i + 4 + length (fwd_value (drop (i + 4) ff')))])
                else fwd_all ff' (i + 1) acc)
        else fwd_all ff (i + 1) acc
      else (ff, acc))"
  by pat_completeness auto
termination
  by (relation "measure (\<lambda>(ff, i, acc). length ff - i)") (auto simp: ToLower_def slice_def)

declare fwd_all.simps [simp del]

section \<open>The methods of xffInfo\<close>

text \<open>strconv.Atoi: an optional sign and at least one digit, in the range of int.\<close>

definition Atoi :: "bytes \<Rightarrow> int option" where
  "Atoi s =
     (let neg = (s \<noteq> [] \<and> hd s = CHR ''-'');
          ds = (if s \<noteq> [] \<and> (hd s = CHR ''-'' \<or> hd s = CHR ''+'') then tl s else s);
          n = foldl (\<lambda>a c. a * 10 + (int (byte_val c) - 48)) 0 ds
      in if ds = [] \<or> (\<exists>c\<in>set ds. c < CHR ''0'' \<or> CHR ''9'' < c) then None
         else if neg then if n \<le> 2 ^ 63 then Some (- n) else None
         else if n < 2 ^ 63 then Some n else None)"

definition set_header :: "bytes \<Rightarrow> bytes \<Rightarrow> ctx \<Rightarrow> ctx" where
  "set_header k v c = c\<lparr>header := (header c)(k := v)\<rparr>"

text \<open>The value of a forwarded header: the dedicated header first, then the key in Forwarded.\<close>

definition forwarded :: "Config \<Rightarrow> nat \<Rightarrow> bytes \<Rightarrow> bytes \<Rightarrow> ctx \<Rightarrow> bytes \<times> ctx" where
  "forwarded cfg flag name key c =
     (let v = (if has_flag flag (TrustedHeaderSet cfg) then header c name else [])
      in if v = [] \<and> has_flag HEADER_FORWARDED (TrustedHeaderSet cfg) then
           (let (ff, v') = fwd_get key (header c ''Forwarded'') in (v', set_header ''Forwarded'' ff c))
         else (v, c))"

text \<open>The work of Host once the proxy is known to be trusted.\<close>

definition xff_host :: "xffInfo \<Rightarrow> ctx \<Rightarrow> ctx go" where
  "xff_host x c =
     (let (forwardHost, c) = forwarded (xcfg x) HEADER_X_FORWARDED_HOST ''X-Forwarded-Host'' ''host='' c
      in if forwardHost \<noteq> [] then
           (case SplitIpAndPort forwardHost of
              None \<Rightarrow> None
            | Some (err, ip, port) \<Rightarrow>
                if err then Some c
                else
                  (let c1 = (case Atoi port of
                               Some i \<Rightarrow> if port \<noteq> [] then c\<lparr>RPort := - i\<rparr> else c
                             | None \<Rightarrow> c)
                   in Some (c1\<lparr>RHost := RHost c1 @ ip\<rparr>)))
         else Some c)"

definition store_xff :: "xffInfo \<Rightarrow> ctx \<Rightarrow> ctx" where
  "store_xff x c = c\<lparr>XFFInfo := Some x\<rparr>"

text \<open>The four methods, called through the field XFFInfo of the context.\<close>

definition xffInfo_Host :: "xffInfo \<Rightarrow> ctx \<Rightarrow> ctx go" where
  "xffInfo_Host x c =
     (case isFromTrustedProxy x c of
        (False, x') \<Rightarrow> Some (store_xff x' c)
      | (True, x') \<Rightarrow> xff_host x' (store_xff x' c))"

definition xffInfo_Port :: "xffInfo \<Rightarrow> ctx \<Rightarrow> ctx go" where
  "xffInfo_Port x c =
     (case isFromTrustedProxy x c of
        (False, x') \<Rightarrow> Some (store_xff x' c)
      | (True, x') \<Rightarrow>
          map_option
            (\<lambda>c1. let portByte = (if has_flag HEADER_X_FORWARDED_PORT (TrustedHeaderSet (xcfg x'))
                                  then header c1 ''X-Forwarded-Port'' else [])
                  in if portByte = [] then c1
                     else case Atoi portByte of Some i \<Rightarrow> c1\<lparr>RPort := i\<rparr> | None \<Rightarrow> c1)
            (xffInfo_Host x' (store_xff x' c)))"

text \<open>The last address that parses and is in no trusted range.\<close>

fun last_untrusted :: "(bytes \<Rightarrow> bytes option) \<Rightarrow> (bytes \<Rightarrow> bool) list \<Rightarrow> bytes list \<Rightarrow> bytes go" where
  "last_untrusted parse ranges [] = Some []"
| "last_untrusted parse ranges (ip # ips) =
     (case SplitIpAndPort ip of
        None \<Rightarrow> None
      | Some (err, ip2, _) \<Rightarrow>
          if err then last_untrusted parse ranges ips
          else
            (case parse ip2 of
               None \<Rightarrow> last_untrusted parse ranges ips
             | Some ipB \<Rightarrow> if checkIp2 ipB ranges then last_untrusted parse ranges ips else Some ipB))"

definition normalizeAndFilterClientIps ::
    "(bytes \<Rightarrow> bytes option) \<Rightarrow> bytes list \<Rightarrow> (bytes \<Rightarrow> bool) list \<Rightarrow> bytes go" where
  "normalizeAndFilterClientIps parse ips ipRange = last_untrusted parse ipRange (rev ips)"

definition xff_ip :: "(bytes \<Rightarrow> bytes option) \<Rightarrow> xffInfo \<Rightarrow> ctx \<Rightarrow> ctx go" where
  "xff_ip parse x c =
     (let cfg = xcfg x;
          xff = (if has_flag HEADER_X_FORWARDED_FOR (TrustedHeaderSet cfg) then header c ''X-Forwarded-For'' else []);
          (xffs, c1) =
            (if xff \<noteq> [] then (Split xff CHR '','', c)
             else if has_flag HEADER_FORWARDED (TrustedHeaderSet cfg) then
               (let (ff, ps) = fwd_all (header c ''Forwarded'') 0 []
                in (map (\<lambda>(a, b). slice a b ff) ps, set_header ''Forwarded'' ff c))
             else ([], c))
      in if xffs = [] then Some c1
         else map_option (\<lambda>realIp. c1\<lparr>RIP := RIP c1 @ realIp\<rparr>)
                (normalizeAndFilterClientIps parse xffs (iPRanges cfg)))"

definition xffInfo_IP :: "(bytes \<Rightarrow> bytes option) \<Rightarrow> xffInfo \<Rightarrow> ctx \<Rightarrow> ctx go" where
  "xffInfo_IP parse x c =
     (case isFromTrustedProxy x c of
        (False, x') \<Rightarrow> Some (store_xff x' c)
      | (True, x') \<Rightarrow> xff_ip parse x' (store_xff x' c))"

definition xffInfo_Secure :: "xffInfo \<Rightarrow> ctx \<Rightarrow> ctx" where
  "xffInfo_Secure x c =
     (case isFromTrustedProxy x c of
        (False, x') \<Rightarrow> store_xff x' c
      | (True, x') \<Rightarrow>
          (let (xfp, c1) = forwarded (xcfg x') HEADER_X_FORWARDED_PROTO ''X-Forwarded-Proto'' ''proto='' (store_xff x' c)
           in if xfp \<noteq> [] then
                c1\<lparr>RSecure := (if xfp \<in> set [''https'', ''on'', ''ssl'', ''1''] then PROTOSECURE else PROTOUNSECURE)\<rparr>
              else c1))"

section \<open>The accessors of Ctx\<close>

definition Ctx_Host :: "ctx \<Rightarrow> (bytes \<times> ctx) go" where
  "Ctx_Host c =
     (let direct = (\<lambda>c. map_option (\<lambda>(_, h, _). (h, c)) (SplitIpAndPort (host_header c)))
      in case XFFInfo c of
           None \<Rightarrow> direct c
         | Some x \<Rightarrow>
             if RHost c \<noteq> [] then Some (RHost c, c)
             else Option.bind (xffInfo_Host x c)
                    (\<lambda>c1. if RHost c1 \<noteq> [] then Some (RHost c1, c1) else direct c1))"

definition Ctx_IP :: "(bytes \<Rightarrow> bytes option) \<Rightarrow> ctx \<Rightarrow> (bytes \<times> ctx) go" where
  "Ctx_IP parse c =
     (let direct = (\<lambda>c. case RemoteAddr c of
                          IpAddr ip \<Rightarrow> Some (ip, c)
                        | OtherAddr a \<Rightarrow> map_option (\<lambda>(_, h, _). (h, c)) (SplitIpAndPort a))
      in case XFFInfo c of
           None \<Rightarrow> direct c
         | Some x \<Rightarrow>
             if RIP c \<noteq> [] then Some (RIP c, c)
             else Option.bind (xffInfo_IP parse x c)
                    (\<lambda>c1. if RIP c1 \<noteq> [] then Some (RIP c1, c1) else direct c1))"

definition Ctx_Secure :: "ctx \<Rightarrow> bool \<times> ctx" where
  "Ctx_Secure c =
     (case XFFInfo c of
        None \<Rightarrow> (IsTLS c, c)
      | Some x \<Rightarrow>
          if RSecure c \<noteq> PROTOUNKNOW then (RSecure c = PROTOSECURE, c)
          else
            (let c1 = xffInfo_Secure x c
             in if RSecure c1 \<noteq> PROTOUNKNOW then (RSecure c1 = PROTOSECURE, c1) else (IsTLS c1, c1)))"

definition Ctx_Proto :: "ctx \<Rightarrow> bytes \<times> ctx" where
  "Ctx_Proto c = (case Ctx_Secure c of (s, c1) \<Rightarrow> (if s then ''https'' else ''http'', c1))"

definition host_port :: "ctx \<Rightarrow> (int \<times> ctx) go" where
  "host_port c =
     (case SplitIpAndPort (host_header c) of
        None \<Rightarrow> None
      | Some (err, _, p) \<Rightarrow>
          (case (if \<not> err \<and> p \<noteq> [] then Atoi p else None) of
             Some port \<Rightarrow> Some (port, c)
           | None \<Rightarrow> (case Ctx_Secure c of (s, c1) \<Rightarrow> Some (if s then 443 else 80, c1))))"

definition Ctx_Port :: "ctx \<Rightarrow> (int \<times> ctx) go" where
  "Ctx_Port c =
     (case XFFInfo c of
        None \<Rightarrow> host_port c
      | Some x \<Rightarrow>
          if RPort c > 0 then Some (RPort c, c)
          else Option.bind (xffInfo_Port x c)
                 (\<lambda>c1. let c2 = (if RPort c1 < 0 then c1\<lparr>RPort := - RPort c1\<rparr> else c1)
                       in if RPort c2 \<noteq> 0 then Some (RPort c2, c2) else host_port c2))"

text \<open>The handler New returns attaches a fresh xffInfo to the context (a skipped request keeps what the
  context had).\<close>

definition xff_attach :: "Config \<Rightarrow> bool \<Rightarrow> ctx \<Rightarrow> ctx" where
  "xff_attach cfg skip c =
     (if skip then c else c\<lparr>XFFInfo := Some \<lparr>xcfg = cfg, trust = FROMUNKNOWN\<rparr>\<rparr>)"

section \<open>Properties\<close>

text \<open>A context as a first request finds it, with the middleware attached.\<close>

definition fresh_xff :: "Config \<Rightarrow> ctx \<Rightarrow> bool" where
  "fresh_xff cfg c \<longleftrightarrow>
     XFFInfo c = Some \<lparr>xcfg = cfg, trust = FROMUNKNOWN\<rparr> \<and> RIP c = [] \<and> RHost c = [] \<and> RPort c = 0 \<and>
     RSecure c = PROTOUNKNOW"

definition trusted_peer :: "Config \<Rightarrow> ctx \<Rightarrow> bool" where
  "trusted_peer cfg c \<longleftrightarrow> TrustProxies cfg \<noteq> [] \<and> checkIp c cfg"

lemma isFromTrustedProxy_fresh:
  "isFromTrustedProxy \<lparr>xcfg = cfg, trust = FROMUNKNOWN\<rparr> c =
     (if trusted_peer cfg c then (True, \<lparr>xcfg = cfg, trust = FROMTRUST\<rparr>)
      else (False, \<lparr>xcfg = cfg, trust = FROMUNTRUSTED\<rparr>))"
  by (simp add: isFromTrustedProxy_def trusted_peer_def)

lemma isFromTrustedProxy_known [simp]:
  "isFromTrustedProxy \<lparr>xcfg = cfg, trust = FROMTRUST\<rparr> c = (True, \<lparr>xcfg = cfg, trust = FROMTRUST\<rparr>)"
  by (simp add: isFromTrustedProxy_def)


text \<open>A request through a proxy at 10.0.0.1 that sets X-Forwarded-For.\<close>

definition sample_cfg :: Config where
  "sample_cfg = \<lparr>TrustProxies = [''10.0.0.1''], iPRanges = [\<lambda>ip. ip = ''10.0.0.1''], TrustedHeaderSet = 30\<rparr>"

definition sample_ctx :: "bytes \<Rightarrow> bytes \<Rightarrow> ctx" where
  "sample_ctx peer xff =
     \<lparr>Method = ''GET'', Path = ''/'', host_header = ''example.org'',
       header = (\<lambda>k. if k = ''X-Forwarded-For'' then xff else []), RemoteAddr = IpAddr peer, IsTLS = False,
       status = 200, Allow = None, ContentType = [], body = [],
       XFFInfo = Some \<lparr>xcfg = sample_cfg, trust = FROMUNKNOWN\<rparr>, RSecure = PROTOUNKNOW, RIP = [], RPort = 0, RHost = [],
       cpnames = [], cpvalues = [], cdata = (\<lambda>_. None), croute = None, cbytes = []\<rparr>"


text \<open>The address chosen from a list: every later entry is rejected, the chosen one is not.\<close>

definition rejected :: "(bytes \<Rightarrow> bytes option) \<Rightarrow> (bytes \<Rightarrow> bool) list \<Rightarrow> bytes \<Rightarrow> bool" where
  "rejected parse ranges e \<longleftrightarrow>
     (case SplitIpAndPort e of
        None \<Rightarrow> False
      | Some (err, ip, _) \<Rightarrow> err \<or> (case parse ip of None \<Rightarrow> True | Some a \<Rightarrow> checkIp2 a ranges))"

lemma last_untrusted_append:
  "\<forall>e\<in>set xs. rejected parse ranges e \<Longrightarrow>
     last_untrusted parse ranges (xs @ ys) = last_untrusted parse ranges ys"
  by (induction xs) (auto simp: rejected_def split: option.splits prod.splits)



section \<open>Where the code goes wrong\<close>

text \<open>Lists are usually written with a space after the comma. The entries are not trimmed, so all but
  the first fail to parse (an address does not start with a space), and the entry taken is the first
  one: the one the client can write itself, not the one the proxy saw.\<close>

theorem spaced_list_takes_first:
  assumes "\<And>s. parse (CHR '' '' # s) = None" and "parse ''6.6.6.6'' = Some ''6.6.6.6''"
  shows "\<exists>c1. Ctx_IP parse (sample_ctx ''10.0.0.1'' ''6.6.6.6, 1.2.3.4'') = Some (''6.6.6.6'', c1)"
  using assms
  by (simp add: Ctx_IP_def sample_ctx_def sample_cfg_def xffInfo_IP_def isFromTrustedProxy_def checkIp_def checkIp2_def
      xff_ip_def has_flag_def HEADER_X_FORWARDED_FOR_def store_xff_def normalizeAndFilterClientIps_def
      SplitIpAndPort_def CountByte_def Let_def)

text \<open>The context is pooled and clear does not reset the forwarded fields: the next request served with
  the same context gets the client address of the one before, whatever its peer is.\<close>

theorem stale_client_ip:
  assumes "RIP c \<noteq> []" and "XFFInfo (init_ctx req (clear_ctx c)) = Some x"
  shows "Ctx_IP parse (init_ctx req (clear_ctx c)) = Some (RIP c, init_ctx req (clear_ctx c))"
  using assms by (simp add: Ctx_IP_def init_ctx_def clear_ctx_def)

text \<open>Port calls Host of the middleware, which appends to the field that the first call of Ctx.Host has
  filled: asking for the host, the port and the host again gives the name twice.\<close>

theorem host_doubled_by_port:
  assumes "c = (sample_ctx ''10.0.0.1'' [])\<lparr>header := (\<lambda>k. if k = ''X-Forwarded-Host'' then ''a.org'' else [])\<rparr>"
  shows "\<exists>c1 c2 c3. Ctx_Host c = Some (''a.org'', c1) \<and> Ctx_Port c1 = Some (80, c2) \<and>
           Ctx_Host c2 = Some (''a.orga.org'', c3)"
  using assms
  by (simp add: Ctx_Host_def Ctx_Port_def sample_ctx_def sample_cfg_def xffInfo_Host_def xffInfo_Port_def
      isFromTrustedProxy_def checkIp_def checkIp2_def xff_host_def forwarded_def has_flag_def HEADER_X_FORWARDED_HOST_def
      HEADER_X_FORWARDED_PORT_def HEADER_X_FORWARDED_PROTO_def HEADER_FORWARDED_def store_xff_def host_port_def
      SplitIpAndPort_def CountByte_def Atoi_def Ctx_Secure_def xffInfo_Secure_def Let_def)

end
