(* ===== verification/Router.thy ===== *)
theory Router
  imports Context Xff "HOL-Library.AList"
begin

text \<open>
  The router, its groups and routes, and the handling of a request
  (src/fasthttp-routing/router.go, group.go, route.go, context.go, error.go).

  The pointers between routers, groups and routes are indices: \<open>groups\<close> and \<open>rheap\<close> are the
  allocated groups and routes, the group with index 0 is the one embedded in the router. The order
  in which Go iterates over the map of stores is not specified; it is the argument \<open>order\<close>.
  Contexts come from a pool: a request gets a new context, whose slice of values has the length
  maxParams has at that moment, or one that an earlier request has left behind.
\<close>

section \<open>Data\<close>

datatype handler = User "ctx prog" | MethodNotAllowedHandler | NotFoundHandler

type_synonym routeData = "handler list \<times> nat"

record RouteGroup =
  prefix_of :: bytes
  ghandlers :: "handler list"
  gname :: bytes

record Route =
  rgroup :: nat
  rname :: bytes
  rpath :: bytes
  template :: bytes
  methods :: "bytes list"
  rhandlers :: "handler list list"
  rparts :: parts

record Router =
  groups :: "RouteGroup list"
  rheap :: "Route list"
  routes_map :: "bytes \<Rightarrow> nat option"
  stores :: "(bytes \<times> routeData store) list"
  maxParams :: int
  routeCount :: nat
  notFound :: "handler list"
  notFoundHandlers :: "handler list"

definition Methods :: "bytes list" where
  "Methods = [''CONNECT'', ''DELETE'', ''GET'', ''HEAD'', ''OPTIONS'', ''PATCH'', ''POST'', ''PUT'', ''TRACE'']"

section \<open>Groups: group.go\<close>

definition newRouteGroup :: "bytes \<Rightarrow> handler list \<Rightarrow> RouteGroup" where
  "newRouteGroup p hs = \<lparr>prefix_of = p, ghandlers = hs, gname = []\<rparr>"

fun combineNames_loop :: "bytes list \<Rightarrow> bytes \<Rightarrow> bytes" where
  "combineNames_loop [] merged = merged"
| "combineNames_loop (name # names) merged =
     (if name = [] then combineNames_loop names merged
      else if merged \<noteq> [] then combineNames_loop names (merged @ ''.'' @ name)
      else combineNames_loop names name)"

definition combineNames :: "bytes list \<Rightarrow> bytes" where
  "combineNames names = combineNames_loop names []"

definition upd_group :: "nat \<Rightarrow> (RouteGroup \<Rightarrow> RouteGroup) \<Rightarrow> Router \<Rightarrow> Router" where
  "upd_group g f R = R\<lparr>groups := (groups R)[g := f (groups R ! g)]\<rparr>"

definition RouteGroup_Name :: "Router \<Rightarrow> nat \<Rightarrow> bytes \<Rightarrow> Router" where
  "RouteGroup_Name R g name = upd_group g (\<lambda>G. G\<lparr>gname := combineNames [gname G, name]\<rparr>) R"

definition RouteGroup_Use :: "Router \<Rightarrow> nat \<Rightarrow> handler list \<Rightarrow> Router" where
  "RouteGroup_Use R g hs = upd_group g (\<lambda>G. G\<lparr>ghandlers := ghandlers G @ hs\<rparr>) R"

text \<open>Group allocates the new group and names it.\<close>

definition RouteGroup_Group :: "Router \<Rightarrow> nat \<Rightarrow> bytes \<Rightarrow> handler list \<Rightarrow> Router \<times> nat" where
  "RouteGroup_Group R g p hs =
     (let G = groups R ! g;
          r1 = newRouteGroup (prefix_of G @ p) (if hs = [] then ghandlers G else hs);
          g1 = length (groups R)
      in (RouteGroup_Name (R\<lparr>groups := groups R @ [r1]\<rparr>) g1 (combineNames [gname G, gname r1]), g1))"

section \<open>The router: router.go\<close>

definition Router_NotFound :: "Router \<Rightarrow> handler list \<Rightarrow> Router" where
  "Router_NotFound R hs =
     R\<lparr>notFound := hs, notFoundHandlers := combineHandlers (ghandlers (groups R ! 0)) hs\<rparr>"

definition Router_Use :: "Router \<Rightarrow> handler list \<Rightarrow> Router" where
  "Router_Use R hs =
     (let R1 = RouteGroup_Use R 0 hs
      in R1\<lparr>notFoundHandlers := combineHandlers (ghandlers (groups R1 ! 0)) (notFound R1)\<rparr>)"

definition New :: Router where
  "New = Router_NotFound
     \<lparr>groups = [newRouteGroup [] []], rheap = [], routes_map = (\<lambda>_. None), stores = [], maxParams = 0,
       routeCount = 0, notFound = [], notFoundHandlers = []\<rparr>
     [MethodNotAllowedHandler, NotFoundHandler]"

definition Router_Route :: "Router \<Rightarrow> bytes \<Rightarrow> nat option" where
  "Router_Route R name = routes_map R name"

text \<open>add: the store of the method, created on first use.\<close>

definition Router_add :: "(bytes \<Rightarrow> bool) \<Rightarrow> Router \<Rightarrow> bytes \<Rightarrow> bytes \<Rightarrow> handler list \<Rightarrow> nat \<Rightarrow> Router go" where
  "Router_add rc R method path hs rid =
     (let store = (case map_of (stores R) method of None \<Rightarrow> newStore | Some s \<Rightarrow> s)
      in map_option
           (\<lambda>(s', n). R\<lparr>stores := AList.update method s' (stores R),
                        maxParams := (if n > maxParams R then n else maxParams R)\<rparr>)
           (store_Add rc store path (hs, rid)))"

section \<open>Routes: route.go\<close>

definition newRoute :: "(bytes \<Rightarrow> bool) \<Rightarrow> Router \<Rightarrow> bytes \<Rightarrow> nat \<Rightarrow> (Router \<times> nat) go" where
  "newRoute rc R path g =
     (let name = prefix_of (groups R ! g) @ path;
          p = (if HasSuffix name ''*'' then butlast name @ ''<*:.*>'' else name)
      in map_option
           (\<lambda>ps. let rid = length (rheap R);
                     r = \<lparr>rgroup = g, rname = name, rpath = p, template = buildURLTemplate p, methods = [],
                          rhandlers = [], rparts = ps\<rparr>
                 in (R\<lparr>rheap := rheap R @ [r], routes_map := (routes_map R)(name := Some rid)\<rparr>, rid))
           (buildURLTemplate2 rc p))"

definition upd_route :: "nat \<Rightarrow> (Route \<Rightarrow> Route) \<Rightarrow> Router \<Rightarrow> Router" where
  "upd_route rid f R = R\<lparr>rheap := (rheap R)[rid := f (rheap R ! rid)]\<rparr>"

definition Route_Name :: "Router \<Rightarrow> nat \<Rightarrow> bytes \<Rightarrow> Router" where
  "Route_Name R rid name =
     (let full = combineNames [gname (groups R ! rgroup (rheap R ! rid)), name];
          R1 = upd_route rid (\<lambda>r. r\<lparr>rname := full\<rparr>) R
      in R1\<lparr>routes_map := (routes_map R1)(full := Some rid)\<rparr>)"

text \<open>Route.add and the methods that call it with the name of their HTTP method.\<close>

definition Route_add :: "(bytes \<Rightarrow> bool) \<Rightarrow> Router \<Rightarrow> nat \<Rightarrow> bytes \<Rightarrow> handler list \<Rightarrow> Router go" where
  "Route_add rc R rid method hs =
     (let r = rheap R ! rid;
          hh = combineHandlers (ghandlers (groups R ! rgroup r)) hs;
          R1 = upd_route rid (\<lambda>r. r\<lparr>methods := methods r @ [method], rhandlers := rhandlers r @ [hh]\<rparr>)
                 (R\<lparr>routeCount := routeCount R + 1\<rparr>)
      in Router_add rc R1 method (rpath r) hh rid)"

definition Route_Get :: "(bytes \<Rightarrow> bool) \<Rightarrow> Router \<Rightarrow> nat \<Rightarrow> handler list \<Rightarrow> Router go" where
  "Route_Get rc R rid hs = Route_add rc R rid ''GET'' hs"

definition Route_Post :: "(bytes \<Rightarrow> bool) \<Rightarrow> Router \<Rightarrow> nat \<Rightarrow> handler list \<Rightarrow> Router go" where
  "Route_Post rc R rid hs = Route_add rc R rid ''POST'' hs"

definition Route_Put :: "(bytes \<Rightarrow> bool) \<Rightarrow> Router \<Rightarrow> nat \<Rightarrow> handler list \<Rightarrow> Router go" where
  "Route_Put rc R rid hs = Route_add rc R rid ''PUT'' hs"

definition Route_Patch :: "(bytes \<Rightarrow> bool) \<Rightarrow> Router \<Rightarrow> nat \<Rightarrow> handler list \<Rightarrow> Router go" where
  "Route_Patch rc R rid hs = Route_add rc R rid ''PATCH'' hs"

definition Route_Delete :: "(bytes \<Rightarrow> bool) \<Rightarrow> Router \<Rightarrow> nat \<Rightarrow> handler list \<Rightarrow> Router go" where
  "Route_Delete rc R rid hs = Route_add rc R rid ''DELETE'' hs"

definition Route_Connect :: "(bytes \<Rightarrow> bool) \<Rightarrow> Router \<Rightarrow> nat \<Rightarrow> handler list \<Rightarrow> Router go" where
  "Route_Connect rc R rid hs = Route_add rc R rid ''CONNECT'' hs"

definition Route_Head :: "(bytes \<Rightarrow> bool) \<Rightarrow> Router \<Rightarrow> nat \<Rightarrow> handler list \<Rightarrow> Router go" where
  "Route_Head rc R rid hs = Route_add rc R rid ''HEAD'' hs"

definition Route_Options :: "(bytes \<Rightarrow> bool) \<Rightarrow> Router \<Rightarrow> nat \<Rightarrow> handler list \<Rightarrow> Router go" where
  "Route_Options rc R rid hs = Route_add rc R rid ''OPTIONS'' hs"

definition Route_Trace :: "(bytes \<Rightarrow> bool) \<Rightarrow> Router \<Rightarrow> nat \<Rightarrow> handler list \<Rightarrow> Router go" where
  "Route_Trace rc R rid hs = Route_add rc R rid ''TRACE'' hs"

fun Route_add_all :: "(bytes \<Rightarrow> bool) \<Rightarrow> Router \<Rightarrow> nat \<Rightarrow> bytes list \<Rightarrow> handler list \<Rightarrow> Router go" where
  "Route_add_all rc R rid [] hs = Some R"
| "Route_add_all rc R rid (m # ms) hs =
     Option.bind (Route_add rc R rid m hs) (\<lambda>R'. Route_add_all rc R' rid ms hs)"

definition Route_To :: "(bytes \<Rightarrow> bool) \<Rightarrow> Router \<Rightarrow> nat \<Rightarrow> bytes \<Rightarrow> handler list \<Rightarrow> Router go" where
  "Route_To rc R rid ms hs = Route_add_all rc R rid (Split ms CHR '','') hs"

text \<open>The same for a new route of a group.\<close>

definition RouteGroup_Get ::
    "(bytes \<Rightarrow> bool) \<Rightarrow> Router \<Rightarrow> nat \<Rightarrow> bytes \<Rightarrow> handler list \<Rightarrow> (Router \<times> nat) go" where
  "RouteGroup_Get rc R g path hs =
     Option.bind (newRoute rc R path g)
       (\<lambda>(R1, rid). map_option (\<lambda>R2. (R2, rid)) (Route_Get rc R1 rid hs))"

definition RouteGroup_Post ::
    "(bytes \<Rightarrow> bool) \<Rightarrow> Router \<Rightarrow> nat \<Rightarrow> bytes \<Rightarrow> handler list \<Rightarrow> (Router \<times> nat) go" where
  "RouteGroup_Post rc R g path hs =
     Option.bind (newRoute rc R path g)
       (\<lambda>(R1, rid). map_option (\<lambda>R2. (R2, rid)) (Route_Post rc R1 rid hs))"

definition RouteGroup_Put ::
    "(bytes \<Rightarrow> bool) \<Rightarrow> Router \<Rightarrow> nat \<Rightarrow> bytes \<Rightarrow> handler list \<Rightarrow> (Router \<times> nat) go" where
  "RouteGroup_Put rc R g path hs =
     Option.bind (newRoute rc R path g)
       (\<lambda>(R1, rid). map_option (\<lambda>R2. (R2, rid)) (Route_Put rc R1 rid hs))"

definition RouteGroup_Patch ::
    "(bytes \<Rightarrow> bool) \<Rightarrow> Router \<Rightarrow> nat \<Rightarrow> bytes \<Rightarrow> handler list \<Rightarrow> (Router \<times> nat) go" where
  "RouteGroup_Patch rc R g path hs =
     Option.bind (newRoute rc R path g)
       (\<lambda>(R1, rid). map_option (\<lambda>R2. (R2, rid)) (Route_Patch rc R1 rid hs))"

definition RouteGroup_Delete ::
    "(bytes \<Rightarrow> bool) \<Rightarrow> Router \<Rightarrow> nat \<Rightarrow> bytes \<Rightarrow> handler list \<Rightarrow> (Router \<times> nat) go" where
  "RouteGroup_Delete rc R g path hs =
     Option.bind (newRoute rc R path g)
       (\<lambda>(R1, rid). map_option (\<lambda>R2. (R2, rid)) (Route_Delete rc R1 rid hs))"

definition RouteGroup_Connect ::
    "(bytes \<Rightarrow> bool) \<Rightarrow> Router \<Rightarrow> nat \<Rightarrow> bytes \<Rightarrow> handler list \<Rightarrow> (Router \<times> nat) go" where
  "RouteGroup_Connect rc R g path hs =
     Option.bind (newRoute rc R path g)
       (\<lambda>(R1, rid). map_option (\<lambda>R2. (R2, rid)) (Route_Connect rc R1 rid hs))"

definition RouteGroup_Head ::
    "(bytes \<Rightarrow> bool) \<Rightarrow> Router \<Rightarrow> nat \<Rightarrow> bytes \<Rightarrow> handler list \<Rightarrow> (Router \<times> nat) go" where
  "RouteGroup_Head rc R g path hs =
     Option.bind (newRoute rc R path g)
       (\<lambda>(R1, rid). map_option (\<lambda>R2. (R2, rid)) (Route_Head rc R1 rid hs))"

definition RouteGroup_Options ::
    "(bytes \<Rightarrow> bool) \<Rightarrow> Router \<Rightarrow> nat \<Rightarrow> bytes \<Rightarrow> handler list \<Rightarrow> (Router \<times> nat) go" where
  "RouteGroup_Options rc R g path hs =
     Option.bind (newRoute rc R path g)
       (\<lambda>(R1, rid). map_option (\<lambda>R2. (R2, rid)) (Route_Options rc R1 rid hs))"

definition RouteGroup_Trace ::
    "(bytes \<Rightarrow> bool) \<Rightarrow> Router \<Rightarrow> nat \<Rightarrow> bytes \<Rightarrow> handler list \<Rightarrow> (Router \<times> nat) go" where
  "RouteGroup_Trace rc R g path hs =
     Option.bind (newRoute rc R path g)
       (\<lambda>(R1, rid). map_option (\<lambda>R2. (R2, rid)) (Route_Trace rc R1 rid hs))"

definition RouteGroup_Any :: "(bytes \<Rightarrow> bool) \<Rightarrow> Router \<Rightarrow> nat \<Rightarrow> bytes \<Rightarrow> handler list \<Rightarrow> (Router \<times> nat) go" where
  "RouteGroup_Any rc R g path hs =
     Option.bind (newRoute rc R path g)
       (\<lambda>(R1, rid). map_option (\<lambda>R2. (R2, rid)) (Route_add_all rc R1 rid Methods hs))"

definition RouteGroup_To ::
    "(bytes \<Rightarrow> bool) \<Rightarrow> Router \<Rightarrow> nat \<Rightarrow> bytes \<Rightarrow> bytes \<Rightarrow> handler list \<Rightarrow> (Router \<times> nat) go" where
  "RouteGroup_To rc R g ms path hs =
     Option.bind (newRoute rc R path g)
       (\<lambda>(R1, rid). map_option (\<lambda>R2. (R2, rid)) (Route_add_all rc R1 rid (Split ms CHR '','') hs))"

section \<open>Handling a request\<close>

definition find ::
    "(bytes \<Rightarrow> bytes \<Rightarrow> nat option) \<Rightarrow> Router \<Rightarrow> bytes \<Rightarrow> bytes \<Rightarrow> bytes list \<Rightarrow>
     (handler list \<times> bytes list \<times> nat option \<times> bytes list) go" where
  "find rx R method path pv =
     (case map_of (stores R) method of
        None \<Rightarrow> Some (notFoundHandlers R, [], None, pv)
      | Some s \<Rightarrow>
          map_option
            (\<lambda>(hh, names, pv'). case hh of
                Some (hs, rid) \<Rightarrow> (hs, names, Some rid, pv')
              | None \<Rightarrow> (notFoundHandlers R, names, None, pv'))
            (store_Get rx s path pv))"

fun findAllowedMethods ::
    "(bytes \<Rightarrow> bytes \<Rightarrow> nat option) \<Rightarrow> Router \<Rightarrow> bytes list \<Rightarrow> bytes \<Rightarrow> ctx \<Rightarrow> ctx go" where
  "findAllowedMethods rx R [] path c = Some c"
| "findAllowedMethods rx R (m # ms) path c =
     (case map_of (stores R) m of
        None \<Rightarrow> findAllowedMethods rx R ms path c
      | Some s \<Rightarrow>
          Option.bind (store_Get rx s path (cpvalues c))
            (\<lambda>(d, _, pv). let c1 = c\<lparr>cpvalues := pv\<rparr>
               in findAllowedMethods rx R ms path
                    (if d \<noteq> None then c1\<lparr>cbytes := cbytes c1 @ m @ '',''\<rparr> else c1)))"

text \<open>http.StatusText of the two statuses the router itself creates errors for.\<close>

definition StatusText :: "int \<Rightarrow> bytes" where
  "StatusText st = (if st = 404 then ''Not Found'' else if st = 405 then ''Method Not Allowed'' else [])"

definition NewHTTPError :: "int \<Rightarrow> bytes list \<Rightarrow> error" where
  "NewHTTPError st message = HttpError st (case message of [] \<Rightarrow> StatusText st | m # _ \<Rightarrow> m)"

definition allow_response :: "ctx \<Rightarrow> ctx" where
  "allow_response c =
     (let b = cbytes c @ ''OPTIONS''
      in c\<lparr>cbytes := b, Allow := Some b, status := (if Method c \<noteq> ''OPTIONS'' then 405 else status c)\<rparr>)"

text \<open>The code of a handler; the two default handlers of the router are written as programs.\<close>

definition handler_prog ::
    "(bytes \<Rightarrow> bytes \<Rightarrow> nat option) \<Rightarrow> Router \<Rightarrow> bytes list \<Rightarrow> handler \<Rightarrow> ctx prog" where
  "handler_prog rx R order h =
     (case h of
        User p \<Rightarrow> p
      | NotFoundHandler \<Rightarrow> Return (Some (NewHTTPError 404 []))
      | MethodNotAllowedHandler \<Rightarrow>
          Read (\<lambda>c. case findAllowedMethods rx R order (Path c) c of
                 None \<Rightarrow> Panic
               | Some c1 \<Rightarrow>
                   if cbytes c1 = [] then Modify (\<lambda>_. c1) (Return None)
                   else Modify (\<lambda>_. allow_response c1) (CallAbort (Return None))))"

text \<open>Ctx.Error: a response has the default content type unless one was set, whether it is set here or
  supplied by the getter.\<close>

definition Ctx_Error :: "bytes \<Rightarrow> int \<Rightarrow> ctx \<Rightarrow> ctx" where
  "Ctx_Error msg st c =
     c\<lparr>body := msg, status := st,
       ContentType := (if ContentType c = [] then ''text/plain; charset=utf-8'' else ContentType c)\<rparr>"

definition handleError :: "ctx \<Rightarrow> error \<Rightarrow> ctx" where
  "handleError c e =
     (case e of HttpError st m \<Rightarrow> Ctx_Error m st c | PlainError m \<Rightarrow> Ctx_Error m 500 c)"

definition new_ctx :: "Router \<Rightarrow> ctx \<Rightarrow> ctx" where
  "new_ctx R c = c\<lparr>cpvalues := replicate (nat (maxParams R)) [], cbytes := [], XFFInfo := None, RSecure := PROTOUNKNOW,
     RIP := [], RPort := 0, RHost := [], cpnames := [], cdata := (\<lambda>_. None), croute := None\<rparr>"

text \<open>HandleRequest on the context \<open>c\<close> from the pool; the result is the context as it goes back into
  the pool, with the response in it, and the log of the chain.\<close>

definition HandleRequest ::
    "(bytes \<Rightarrow> bytes \<Rightarrow> nat option) \<Rightarrow> Router \<Rightarrow> bytes list \<Rightarrow> ctx \<Rightarrow> ctx \<Rightarrow> (ctx \<times> event list) go" where
  "HandleRequest rx R order req c =
     (let c1 = init_ctx req c
      in Option.bind (find rx R (Method c1) (Path c1) (cpvalues c1))
           (\<lambda>(hs, names, rid, pv).
              let c2 = c1\<lparr>cpnames := names, croute := rid, cpvalues := pv\<rparr>
              in case Next (map (handler_prog rx R order) hs) \<lparr>index = - 1, state = c2, log = []\<rparr> of
                   Some (Some (e, m)) \<Rightarrow>
                     Some (clear_ctx (case e of None \<Rightarrow> state m | Some err \<Rightarrow> handleError (state m) err), log m)
                 | _ \<Rightarrow> None))"

section \<open>Operations of the context: context.go\<close>

fun param_index :: "bytes list \<Rightarrow> bytes list \<Rightarrow> bytes \<Rightarrow> bytes go" where
  "param_index [] pv name = Some []"
| "param_index (n # ns) pv name =
     (if n = name then (case pv of [] \<Rightarrow> None | v # _ \<Rightarrow> Some v) else param_index ns (drop 1 pv) name)"

definition Ctx_Param :: "ctx \<Rightarrow> bytes \<Rightarrow> bytes go" where
  "Ctx_Param c name = param_index (cpnames c) (cpvalues c) name"

definition Ctx_Get :: "ctx \<Rightarrow> bytes \<Rightarrow> bytes option" where
  "Ctx_Get c name = cdata c name"

definition Ctx_Set :: "ctx \<Rightarrow> bytes \<Rightarrow> bytes \<Rightarrow> ctx" where
  "Ctx_Set c name v = c\<lparr>cdata := (cdata c)(name := Some v)\<rparr>"

definition Ctx_URL :: "Router \<Rightarrow> bytes \<Rightarrow> bytes list \<Rightarrow> bytes" where
  "Ctx_URL R name pairs =
     (case routes_map R name of None \<Rightarrow> [] | Some rid \<Rightarrow> URL (template (rheap R ! rid)) pairs)"

text \<open>Serialize on the kinds of data it distinguishes; \<open>sprint\<close> is fmt.Sprint.\<close>

datatype 'a item = Bytes bytes | Str bytes | Nil | Other 'a

definition Serialize :: "('a \<Rightarrow> bytes) \<Rightarrow> 'a item \<Rightarrow> bytes" where
  "Serialize sprint d = (case d of Bytes b \<Rightarrow> b | Str s \<Rightarrow> s | Nil \<Rightarrow> [] | Other x \<Rightarrow> sprint x)"

definition Ctx_WriteData :: "('a \<Rightarrow> bytes) \<Rightarrow> ctx \<Rightarrow> 'a item \<Rightarrow> ctx" where
  "Ctx_WriteData sprint c d = c\<lparr>body := body c @ Serialize sprint d\<rparr>"

section \<open>Registration and lookup\<close>

text \<open>Registrations, in order: method, path, handlers and route.\<close>

type_synonym registration = "bytes \<times> bytes \<times> handler list \<times> nat"

fun register :: "(bytes \<Rightarrow> bool) \<Rightarrow> Router \<Rightarrow> registration list \<Rightarrow> Router go" where
  "register rc R [] = Some R"
| "register rc R ((m, path, hs, rid) # regs) =
     Option.bind (Router_add rc R m path hs rid) (\<lambda>R'. register rc R' regs)"

definition regs_of :: "bytes \<Rightarrow> registration list \<Rightarrow> (bytes \<times> routeData) list" where
  "regs_of m regs = map snd (filter (\<lambda>r. fst r = m) regs)"

lemma regs_of_length: "length regs < n \<Longrightarrow> length (regs_of m regs) < n"
  unfolding regs_of_def length_map by (rule le_less_trans [OF length_filter_le])

lemma regs_of_append: "regs_of m (a @ b) = regs_of m a @ regs_of m b"
  by (simp add: regs_of_def)

definition good_regs :: "(bytes \<Rightarrow> bool) \<Rightarrow> registration list \<Rightarrow> bool" where
  "good_regs rc regs \<longleftrightarrow> (\<forall>(m, path, hs, rid) \<in> set regs. closed_key path \<and> compiles rc (parse_key path))"

text \<open>The stores hold the registrations of their method, with at most maxParams parameters each.\<close>

definition router_inv :: "Router \<Rightarrow> registration list \<Rightarrow> bool" where
  "router_inv R regs \<longleftrightarrow>
     0 \<le> maxParams R \<and>
     (\<forall>m. case map_of (stores R) m of
            None \<Rightarrow> regs_of m regs = []
          | Some s \<Rightarrow> store_inv (nat (maxParams R)) s (regs_of m regs))"

lemma store_inv_mono: "store_inv L s rs \<Longrightarrow> L \<le> L' \<Longrightarrow> store_inv L' s rs"
  using wf_mono [of L "length rs" "root s" L' "length rs"] by (auto simp: store_inv_def)

lemma router_invD:
  assumes "router_inv R regs"
  shows "map_of (stores R) m = None \<Longrightarrow> regs_of m regs = []"
    and "map_of (stores R) m = Some s \<Longrightarrow> store_inv (nat (maxParams R)) s (regs_of m regs)"
  using assms unfolding router_inv_def by (metis (mono_tags, lifting) option.case)+

lemma Router_add_inv:
  assumes inv: "router_inv R regs" and k: "closed_key path" "compiles rc (parse_key path)"
  shows "\<exists>R'. Router_add rc R m path hs rid = Some R' \<and> router_inv R' (regs @ [(m, path, hs, rid)]) \<and>
           notFoundHandlers R' = notFoundHandlers R"
proof -
  define s where "s = (case map_of (stores R) m of None \<Rightarrow> newStore | Some s \<Rightarrow> s)"
  let ?n = "int (param_count path)"
  define M where "M = (if ?n > maxParams R then ?n else maxParams R)"
  have M: "nat (maxParams R) \<le> nat M" "param_count path \<le> nat M" "0 \<le> M" using inv by (auto simp: M_def router_inv_def)
  have "store_inv (nat (maxParams R)) s (regs_of m regs)"
    using router_invD [OF inv, of m] newStore_inv by (cases "map_of (stores R) m") (simp_all add: s_def)
  then have "store_inv (nat M) s (regs_of m regs)" using M(1) by (rule store_inv_mono)
  from store_Add_correct [OF this k M(2)] obtain s' where
    s': "store_Add rc s path (hs, rid) = Some (s', ?n)" "store_inv (nat M) s' (regs_of m regs @ [(path, hs, rid)])" by blast
  let ?R = "R\<lparr>stores := AList.update m s' (stores R), maxParams := M\<rparr>"
  have "Router_add rc R m path hs rid = Some ?R"
    unfolding Router_add_def Let_def s_def [symmetric] s'(1) by (simp add: M_def)
  moreover have "router_inv ?R (regs @ [(m, path, hs, rid)])"
  proof -
    have "case map_of (AList.update m s' (stores R)) m' of
            None \<Rightarrow> regs_of m' (regs @ [(m, path, hs, rid)]) = []
          | Some s \<Rightarrow> store_inv (nat M) s (regs_of m' (regs @ [(m, path, hs, rid)]))" for m'
    proof (cases "m' = m")
      case True
      with s'(2) show ?thesis by (simp add: update_conv' regs_of_def)
    next
      case False
      then have "regs_of m' (regs @ [(m, path, hs, rid)]) = regs_of m' regs" by (simp add: regs_of_def)
      with False router_invD [OF inv, of m'] M(1) store_inv_mono [of "nat (maxParams R)"] show ?thesis
        by (cases "map_of (stores R) m'") (simp_all add: update_conv')
    qed
    with M(3) show ?thesis by (simp add: router_inv_def cong: option.case_cong)
  qed
  ultimately show ?thesis by auto
qed

lemma register_inv:
  assumes "router_inv R regs" and "good_regs rc regs'"
  shows "\<exists>R'. register rc R regs' = Some R' \<and> router_inv R' (regs @ regs') \<and> notFoundHandlers R' = notFoundHandlers R"
  using assms
proof (induction regs' arbitrary: R regs)
  case (Cons x regs')
  obtain m path hs rid where x: "x = (m, path, hs, rid)" by (cases x)
  from Cons.prems(2) x have k: "closed_key path" "compiles rc (parse_key path)" and g: "good_regs rc regs'"
    by (auto simp: good_regs_def)
  from Router_add_inv [OF Cons.prems(1) k] obtain R1 where
    "Router_add rc R m path hs rid = Some R1" "router_inv R1 (regs @ [(m, path, hs, rid)])" "notFoundHandlers R1 = notFoundHandlers R"
    by blast
  with Cons.IH [OF _ g] x show ?case by fastforce
qed simp

lemma New_inv: "router_inv New []"
  by (simp add: router_inv_def New_def Router_NotFound_def regs_of_def)

text \<open>What find promises for a method and a path.\<close>

definition dispatches ::
    "(bytes \<Rightarrow> bytes \<Rightarrow> nat option) \<Rightarrow> Router \<Rightarrow> registration list \<Rightarrow> bytes \<Rightarrow> bytes \<Rightarrow> bytes list \<Rightarrow> bool" where
  "dispatches rx R regs m path pv \<longleftrightarrow>
     (case first_match rx (regs_of m regs) path of
        None \<Rightarrow> \<exists>pv'. find rx R m path pv = Some (notFoundHandlers R, [], None, pv')
      | Some (key, hs, rid) \<Rightarrow>
          \<exists>vs pv'. match_toks rx (parse_key key) path = Some vs \<and>
            find rx R m path pv = Some (hs, tok_names (parse_key key), Some rid, pv') \<and> take (length vs) pv' = vs)"

lemma find_dispatches:
  assumes inv: "router_inv R regs" and "length regs < MaxInt32" and pv: "length pv = nat (maxParams R)"
  shows "dispatches rx R regs m path pv"
proof (cases "map_of (stores R) m")
  case None
  with inv have "regs_of m regs = []" by (rule router_invD)
  with None show ?thesis by (simp add: dispatches_def find_def first_match_def)
next
  case (Some s)
  with inv have s: "store_inv (nat (maxParams R)) s (regs_of m regs)" by (rule router_invD)
  have len: "length (regs_of m regs) < MaxInt32"
    using assms(2) by (rule regs_of_length)
  from store_Get_correct [OF s len, of pv rx path] pv Some show ?thesis
    by (cases "first_match rx (regs_of m regs) path") (auto simp: dispatches_def find_def)
qed


text \<open>A router can be extended while it serves, but a context from the pool keeps the length
  maxParams had when it was made: with a route of more parameters added later, a request that gets
  the old context panics.\<close>

theorem pooled_ctx_too_short:
  "\<exists>R1 R2. register (\<lambda>_. True) New [(''GET'', ''/a'', [], 0)] = Some R1 \<and>
     register (\<lambda>_. True) R1 [(''GET'', ''/b/<x>'', [], 1)] = Some R2 \<and>
     find (\<lambda>_ _. None) R2 ''GET'' ''/b/1'' (cpvalues (new_ctx R1 c)) = None"
  by (simp add: New_def Router_NotFound_def Router_add_def store_Add_def newStore_def add.simps addChild.simps add_param.simps
      find_def store_Get_def get.simps match_node_def match_param_def param_child_def token_pattern_def token_name_def
      new_ctx_def slice_def Let_def split_node_def MaxInt32_def)

section \<open>Requests without a route\<close>

definition serves :: "(bytes \<Rightarrow> bytes \<Rightarrow> nat option) \<Rightarrow> registration list \<Rightarrow> bytes \<Rightarrow> bytes \<Rightarrow> bool" where
  "serves rx regs path m \<longleftrightarrow> first_match rx (regs_of m regs) path \<noteq> None"

definition allowed :: "(bytes \<Rightarrow> bytes \<Rightarrow> nat option) \<Rightarrow> registration list \<Rightarrow> bytes \<Rightarrow> bytes list \<Rightarrow> bytes" where
  "allowed rx regs path order = concat (map (\<lambda>m. m @ '','') (filter (serves rx regs path) order))"

lemma findAllowedMethods_correct:
  assumes inv: "router_inv R regs" and len: "length regs < MaxInt32"
  shows "length (cpvalues c) = nat (maxParams R) \<Longrightarrow>
    \<exists>pv. findAllowedMethods rx R order path c =
           Some (c\<lparr>cpvalues := pv, cbytes := cbytes c @ allowed rx regs path order\<rparr>) \<and> length pv = length (cpvalues c)"
proof (induction order arbitrary: c)
  case Nil
  then show ?case by (intro exI [of _ "cpvalues c"]) (simp add: allowed_def)
next
  case (Cons m ms)
  show ?case
  proof (cases "map_of (stores R) m")
    case None
    then have "\<not> serves rx regs path m" using router_invD(1) [OF inv] by (simp add: serves_def first_match_def)
    with None Cons show ?thesis by (simp add: allowed_def)
  next
    case (Some s)
    have s: "store_inv (nat (maxParams R)) s (regs_of m regs)" using router_invD(2) [OF inv Some] .
    have l: "length (regs_of m regs) < MaxInt32"
      using len by (rule regs_of_length)
    from store_Get_correct [OF s l, of "cpvalues c" rx path] Cons.prems obtain d names pv where
      g: "store_Get rx s path (cpvalues c) = Some (d, names, pv)" and d: "d \<noteq> None \<longleftrightarrow> serves rx regs path m"
      by (auto simp: serves_def split: option.splits)
    have pv: "length pv = length (cpvalues c)" using store_Get_length [OF s l _ g] Cons.prems by simp
    let ?c = "if d \<noteq> None then c\<lparr>cpvalues := pv, cbytes := cbytes c @ m @ '',''\<rparr> else c\<lparr>cpvalues := pv\<rparr>"
    have "length (cpvalues ?c) = nat (maxParams R)" using pv Cons.prems by simp
    from Cons.IH [OF this] obtain pv2 where
      "findAllowedMethods rx R ms path ?c = Some (?c\<lparr>cpvalues := pv2, cbytes := cbytes ?c @ allowed rx regs path ms\<rparr>)"
      "length pv2 = length (cpvalues ?c)" by blast
    with Some g d pv show ?thesis
      by (intro exI [of _ pv2]) (auto simp: allowed_def Let_def)
  qed
qed

lemma new_ctx_sel: "cbytes (new_ctx R c) = []" "cpvalues (new_ctx R c) = replicate (nat (maxParams R)) []"
  by (simp_all add: new_ctx_def)

text \<open>The response to a request without a route depends on the bytes the context has already.\<close>

lemma unrouted_request:
  assumes inv: "router_inv R regs" and len: "length regs < MaxInt32"
    and nf: "notFoundHandlers R = [MethodNotAllowedHandler, NotFoundHandler]"
    and un: "\<not> serves rx regs (Path req) (Method req)" and pv: "length (cpvalues c) = nat (maxParams R)"
    and b_def: "b = cbytes c @ allowed rx regs (Path req) order"
  shows "\<exists>c' l. HandleRequest rx R order req c = Some (c', l) \<and>
    (if b = [] then status c' = 404 \<and> body c' = ''Not Found'' \<and> starts l = [0, 1]
     else Allow c' = Some (b @ ''OPTIONS'') \<and>
          status c' = (if Method req = ''OPTIONS'' then status req else 405) \<and> starts l = [0])"
proof -
  let ?c1 = "init_ctx req c"
  have c1: "Method ?c1 = Method req" "Path ?c1 = Path req" "cpvalues ?c1 = cpvalues c" "cbytes ?c1 = cbytes c"
    by (simp_all add: init_ctx_def)
  have "dispatches rx R regs (Method req) (Path req) (cpvalues c)" using find_dispatches [OF inv len pv] .
  moreover have "first_match rx (regs_of (Method req) regs) (Path req) = None" using un unfolding serves_def by blast
  ultimately obtain pv1 where f: "find rx R (Method req) (Path req) (cpvalues c) = Some (notFoundHandlers R, [], None, pv1)"
    by (auto simp: dispatches_def)
  have pv1: "length pv1 = nat (maxParams R)"
  proof (cases "map_of (stores R) (Method req)")
    case None
    with f pv show ?thesis by (simp add: find_def)
  next
    case (Some s)
    from f Some obtain d names where "store_Get rx s (Path req) (cpvalues c) = Some (d, names, pv1)"
      by (auto simp: find_def split: option.splits)
    from store_Get_length [OF router_invD(2) [OF inv Some] regs_of_length [OF len] _ this] pv show ?thesis by simp
  qed
  let ?c2 = "?c1\<lparr>cpnames := [], croute := None, cpvalues := pv1\<rparr>"
  obtain pv2 where a: "findAllowedMethods rx R order (Path req) ?c2 = Some (?c2\<lparr>cpvalues := pv2, cbytes := b\<rparr>)"
    using findAllowedMethods_correct [OF inv len, of ?c2 rx order "Path req"] pv1 c1(4) by (auto simp: b_def)
  have p2: "Path ?c2 = Path req" "Method ?c2 = Method req" "status ?c2 = status req"
    by (simp_all add: init_ctx_def)
  show ?thesis
    unfolding HandleRequest_def Let_def c1 f nf
    using a p2 by (simp add: handler_prog_def Next_def numeral_eq_Suc NewHTTPError_def StatusText_def handleError_def Ctx_Error_def
        clear_ctx_def allow_response_def Let_def)
qed


text \<open>the bytes of an Allow header stay in the context when it goes back into the pool. The
  next request without a route that gets this context is answered with 405 and the old list of
  methods, even if no method has a route for its path.\<close>

theorem stale_allow_header:
  assumes "router_inv R regs" and "length regs < MaxInt32"
    and "notFoundHandlers R = [MethodNotAllowedHandler, NotFoundHandler]"
    and "\<not> serves rx regs (Path req) (Method req)" and "filter (serves rx regs (Path req)) order = []"
    and "cbytes c \<noteq> []" and "length (cpvalues c) = nat (maxParams R)" and "Method req \<noteq> ''OPTIONS''"
  shows "\<exists>c' l. HandleRequest rx R order req (clear_ctx c) = Some (c', l) \<and> status c' = 405 \<and>
           Allow c' = Some (cbytes c @ ''OPTIONS'')"
  using unrouted_request [OF assms(1-4) _ refl, of "clear_ctx c" order] assms(5-8)
  by (auto simp: clear_ctx_def allowed_def)

section \<open>Witnesses\<close>

definition sample_regs :: "registration list" where
  "sample_regs = [(''GET'', ''/a'', [], 0), (''POST'', ''/a'', [], 1), (''GET'', ''/u/<id>'', [], 2)]"

lemma sample_regs_good: "good_regs (\<lambda>_. True) sample_regs"
  by (simp add: good_regs_def sample_regs_def closed_key_def compiles_def parse_key.simps)

lemma sample_regs_length: "length sample_regs < MaxInt32"
  by (simp add: sample_regs_def MaxInt32_def)

lemma sample_router:
  obtains R where "router_inv R sample_regs" "notFoundHandlers R = [MethodNotAllowedHandler, NotFoundHandler]"
  using register_inv [OF New_inv sample_regs_good]
  by (auto simp: New_def Router_NotFound_def combineHandlers_def newRouteGroup_def)



theorem stale_allow_header_witness:
  "\<exists>R c c' l. cbytes c = ''GET,OPTIONS'' \<and>
     HandleRequest (\<lambda>_ _. None) R [''POST'', ''GET''] ((sample_ctx [] [])\<lparr>Path := ''/none''\<rparr>) (clear_ctx c) = Some (c', l) \<and>
     status c' = 405 \<and> Allow c' = Some ''GET,OPTIONSOPTIONS''"
proof -
  obtain R where R: "router_inv R sample_regs" "notFoundHandlers R = [MethodNotAllowedHandler, NotFoundHandler]"
    by (rule sample_router)
  let ?c = "(new_ctx R (sample_ctx [] []))\<lparr>cbytes := ''GET,OPTIONS''\<rparr>"
  have "\<exists>c' l. HandleRequest (\<lambda>_ _. None) R [''POST'', ''GET''] ((sample_ctx [] [])\<lparr>Path := ''/none''\<rparr>) (clear_ctx ?c) = Some (c', l) \<and>
     status c' = 405 \<and> Allow c' = Some (cbytes ?c @ ''OPTIONS'')"
    by (rule stale_allow_header [OF R(1) sample_regs_length R(2)])
      (simp_all add: serves_def first_match_def regs_of_def sample_regs_def parse_key.simps new_ctx_def sample_ctx_def)
  then show ?thesis by - (rule exI [of _ R], rule exI [of _ ?c], simp)
qed

end
