(* ===== verification/Base64.thy ===== *)
theory Base64
  imports Prelude
begin

text \<open>
  The encoding base64.RawURLEncoding of Go's standard library, which session tokens are written in:
  the URL alphabet, no padding. Decoding skips carriage returns and line feeds and ignores the unused
  bits of the last character.
\<close>

definition b64_char :: "nat \<Rightarrow> char" where
  "b64_char n =
     (if n < 26 then mk_byte (n + 65) else if n < 52 then mk_byte (n + 71)
      else if n < 62 then mk_byte (n - 4) else if n = 62 then CHR ''-'' else CHR ''_'')"

definition b64_val :: "char \<Rightarrow> nat option" where
  "b64_val c =
     (let n = byte_val c
      in if 65 \<le> n \<and> n \<le> 90 then Some (n - 65)
         else if 97 \<le> n \<and> n \<le> 122 then Some (n - 71)
         else if 48 \<le> n \<and> n \<le> 57 then Some (n + 4)
         else if c = CHR ''-'' then Some 62
         else if c = CHR ''_'' then Some 63
         else None)"

fun b64_groups :: "nat list \<Rightarrow> nat list" where
  "b64_groups [] = []"
| "b64_groups [a] = [a div 4, a mod 4 * 16]"
| "b64_groups [a, b] = [a div 4, a mod 4 * 16 + b div 16, b mod 16 * 4]"
| "b64_groups (a # b # c # r) =
     [a div 4, a mod 4 * 16 + b div 16, b mod 16 * 4 + c div 64, c mod 64] @ b64_groups r"

definition RawURL_Encode :: "bytes \<Rightarrow> bytes" where
  "RawURL_Encode src = map b64_char (b64_groups (map byte_val src))"

fun b64_ungroup :: "nat list \<Rightarrow> nat list option" where
  "b64_ungroup [] = Some []"
| "b64_ungroup [w] = None"
| "b64_ungroup [w, x] = Some [w * 4 + x div 16]"
| "b64_ungroup [w, x, y] = Some [w * 4 + x div 16, x mod 16 * 16 + y div 4]"
| "b64_ungroup (w # x # y # z # r) =
     map_option (\<lambda>t. [w * 4 + x div 16, x mod 16 * 16 + y div 4, y mod 4 * 64 + z] @ t) (b64_ungroup r)"

definition RawURL_Decode :: "bytes \<Rightarrow> bytes option" where
  "RawURL_Decode src =
     (let vs = map b64_val (filter (\<lambda>c. c \<noteq> CHR 0x0A \<and> c \<noteq> CHR 0x0D) src)
      in if None \<in> set vs then None else map_option (map mk_byte) (b64_ungroup (map the vs)))"

definition RawURL_EncodedLen :: "nat \<Rightarrow> nat" where
  "RawURL_EncodedLen n = (n * 8 + 5) div 6"

lemma b64_char_table:
  assumes "n < 64"
  shows "b64_val (b64_char n) = Some n" and "b64_char n \<noteq> CHR 0x0A" and "b64_char n \<noteq> CHR 0x0D"
proof -
  consider "n < 26" | "26 \<le> n" "n < 52" | "52 \<le> n" "n < 62" | "n = 62" | "n = 63" using assms by linarith
  then have "b64_val (b64_char n) = Some n \<and> byte_val (b64_char n) \<noteq> 10 \<and> byte_val (b64_char n) \<noteq> 13"
    by cases (auto simp: b64_char_def b64_val_def Let_def byte_val_mk_byte)
  then show "b64_val (b64_char n) = Some n" "b64_char n \<noteq> CHR 0x0A" "b64_char n \<noteq> CHR 0x0D" by auto
qed

lemma sextets:
  fixes a b c :: nat
  assumes "a < 256" "b < 256" "c < 256"
  shows "a div 4 < 64" "a mod 4 * 16 + b div 16 < 64" "b mod 16 * 4 + c div 64 < 64" "c mod 64 < 64"
proof -
  have "a mod 4 < 4" "b div 16 < 16" "b mod 16 < 16" "c div 64 < 4" "a div 4 < 64" using assms by auto
  then show "a div 4 < 64" "a mod 4 * 16 + b div 16 < 64" "b mod 16 * 4 + c div 64 < 64" "c mod 64 < 64" by linarith+
qed

lemma b64_groups_lt: "\<forall>x\<in>set ns. x < 256 \<Longrightarrow> v \<in> set (b64_groups ns) \<Longrightarrow> v < 64"
proof (induction ns rule: b64_groups.induct)
  case (2 a)
  with sextets [of a 0 0] show ?case by auto
next
  case (3 a b)
  with sextets [of a b 0] show ?case by auto
next
  case (4 a b c r)
  with sextets [of a b c] show ?case by auto
qed simp

lemma octets:
  fixes a b c :: nat
  assumes "b < 256" "c < 256"
  shows "a div 4 * 4 + (a mod 4 * 16 + b div 16) div 16 = a"
    and "(a mod 4 * 16 + b div 16) mod 16 * 16 + (b mod 16 * 4 + c div 64) div 4 = b"
    and "(b mod 16 * 4 + c div 64) mod 4 * 64 + c mod 64 = c"
proof -
  have "b div 16 < 16" "c div 64 < 4" using assms by auto
  then have "(a mod 4 * 16 + b div 16) div 16 = a mod 4" "(a mod 4 * 16 + b div 16) mod 16 = b div 16"
    "(b mod 16 * 4 + c div 64) div 4 = b mod 16" "(b mod 16 * 4 + c div 64) mod 4 = c div 64" by auto
  then show "a div 4 * 4 + (a mod 4 * 16 + b div 16) div 16 = a"
    "(a mod 4 * 16 + b div 16) mod 16 * 16 + (b mod 16 * 4 + c div 64) div 4 = b"
    "(b mod 16 * 4 + c div 64) mod 4 * 64 + c mod 64 = c" by simp_all
qed

lemma b64_ungroup_groups: "\<forall>x\<in>set ns. x < 256 \<Longrightarrow> b64_ungroup (b64_groups ns) = Some ns"
proof (induction ns rule: b64_groups.induct)
  case (2 a)
  with octets(1) [of 0 0 a] show ?case by simp
next
  case (3 a b)
  with octets(1,2) [of b 0 a] show ?case by simp
next
  case (4 a b c r)
  with octets(1,2) [of b c a] octets(3) [of b c] show ?case by simp
qed simp

text \<open>Every byte string survives the encoding.\<close>

theorem RawURL_roundtrip: "RawURL_Decode (RawURL_Encode s) = Some s"
proof -
  let ?g = "b64_groups (map byte_val s)"
  have lt: "v < 64" if "v \<in> set ?g" for v using b64_groups_lt [OF _ that] by auto
  have "filter (\<lambda>c. c \<noteq> CHR 0x0A \<and> c \<noteq> CHR 0x0D) (map b64_char ?g) = map b64_char ?g"
    using lt b64_char_table(2,3) by (intro filter_True) auto
  moreover have "map b64_val (map b64_char ?g) = map Some ?g" using lt b64_char_table(1) by simp
  moreover have "b64_ungroup ?g = Some (map byte_val s)" by (rule b64_ungroup_groups) auto
  ultimately show ?thesis
    unfolding RawURL_Decode_def RawURL_Encode_def Let_def by (simp add: comp_def del: map_map) simp
qed

lemma length_b64_groups: "length (b64_groups ns) = (length ns * 8 + 5) div 6"
  by (induction ns rule: b64_groups.induct) auto

lemma length_RawURL_Encode: "length (RawURL_Encode s) = RawURL_EncodedLen (length s)"
  by (simp add: RawURL_Encode_def RawURL_EncodedLen_def length_b64_groups)

end
