(* ===== verification/Session.thy ===== *)
theory Session
  imports Dict Base64 Helpers Cookie "HOL-Library.AList"
begin

text \<open>
  The session middleware (src/fasthttp-routing/middleware/session: data.go, manager.go, scs.go).

  A session is a token, a CSRF token and a map of values. The token is a slice of a buffer that has
  the store prefix in front of it, and the store key is taken with unsafe pointer arithmetic from
  that buffer, without looking at the length of the token: \<open>Pooled b n\<close> is a token of length
  \<open>n\<close> in its buffer \<open>b\<close>, \<open>Heap b n\<close> one in a buffer of its own, to which it was moved because it did
  not fit; the key of such a token is read from memory in front of the buffer, and has no value here.
  The map of values is an association list with
  distinct keys, or \<open>None\<close> for the nil map.

  The store, the codec and the hash are interfaces in the code and fields of the manager here; the
  state of the store has the type variable \<open>'db\<close>. Random bytes are arguments. The code downstream
  of the middleware is a function on the session and the store.
\<close>

section \<open>Data\<close>

datatype Status = Unmodified | Modified | Destroyed

datatype ('f, 't) val =
  VString bytes | VBool bool | VInt int | VInt64 int | VInt32 int | VFloat 'f | VTime 't | VBytes bytes

type_synonym ('f, 't) vals = "(bytes \<times> ('f, 't) val) list"

datatype token = Pooled bytes nat | Heap bytes nat

definition tok_bytes :: "token \<Rightarrow> bytes" where
  "tok_bytes t = (case t of Pooled b n \<Rightarrow> take n b | Heap b n \<Rightarrow> take n b)"

record ('f, 't) Data =
  status :: Status
  token :: token
  csrfToken :: bytes
  csrfCap :: nat
  vals :: "('f, 't) vals option"
  started :: bool

definition sessionPrefix :: bytes where "sessionPrefix = ''scs:session:''"
definition CsrfTokenLen :: nat where "CsrfTokenLen = 20"
definition AppendHashCsrfTokenLen :: nat where "AppendHashCsrfTokenLen = CsrfTokenLen + 2"
definition UrlEncodedCsrfTokenLen :: nat where "UrlEncodedCsrfTokenLen = (AppendHashCsrfTokenLen * 8 + 5) div 6"
definition TokenLen :: nat where "TokenLen = 30"
definition AppendHashTokenLen :: nat where "AppendHashTokenLen = TokenLen + 2"
definition UrlEncodedTokenLen :: nat where "UrlEncodedTokenLen = (AppendHashTokenLen * 8 + 5) div 6"

lemmas token_lengths = CsrfTokenLen_def AppendHashCsrfTokenLen_def UrlEncodedCsrfTokenLen_def TokenLen_def
  AppendHashTokenLen_def UrlEncodedTokenLen_def

text \<open>The key under which the store knows a token: the prefix and the whole buffer.\<close>

definition tokenWithPrefix :: "token \<Rightarrow> bytes go" where
  "tokenWithPrefix t = (case t of Pooled b n \<Rightarrow> Some (sessionPrefix @ b) | Heap b n \<Rightarrow> None)"

section \<open>Interfaces\<close>

datatype found = StoreFailure | Missing | Found bytes

record 'db CtxStore =
  FindCtx :: "'db \<Rightarrow> bytes \<Rightarrow> found"
  CommitCtx :: "'db \<Rightarrow> bytes \<Rightarrow> bytes \<Rightarrow> int \<Rightarrow> bool \<Rightarrow> 'db \<times> bool"
  DeleteCtx :: "'db \<Rightarrow> bytes \<Rightarrow> 'db \<times> bool"

record ('db, 'f, 't) Manager =
  Lifetime :: int
  Find :: "'db \<Rightarrow> bytes \<Rightarrow> found"
  Commit :: "'db \<Rightarrow> bytes \<Rightarrow> bytes \<Rightarrow> int \<Rightarrow> bool \<Rightarrow> 'db \<times> bool"
  Delete :: "'db \<Rightarrow> bytes \<Rightarrow> 'db \<times> bool"
  ctx_store :: "'db CtxStore option"
  Encode :: "bytes \<Rightarrow> ('f, 't) vals option \<Rightarrow> bytes option"
  Decode :: "bytes \<Rightarrow> (bytes \<times> ('f, 't) vals option) option"
  AppendHash :: "bytes \<Rightarrow> bytes go"
  ValidateHash :: "bytes \<Rightarrow> bool"

text \<open>The second component of a result of the store is true for an error. Errors of the package are
  their kind.\<close>

datatype session_error = StoreError | EncodingError | DataError

section \<open>Tokens\<close>

definition GenerateToken2 ::
    "('db, 'f, 't) Manager \<Rightarrow> bytes option \<Rightarrow> nat \<Rightarrow> bytes \<Rightarrow> bytes go" where
  "GenerateToken2 M rnd len dst =
     (case rnd of
        None \<Rightarrow> None
      | Some r \<Rightarrow>
          if len < 2 \<or> length r \<noteq> len - 2 then None
          else
            Option.bind (AppendHash M (r @ replicate 2 (mk_byte 0)))
              (\<lambda>raw. let e = RawURL_Encode raw
                     in if length dst < length e then None else Some (e @ drop (length e) dst)))"

text \<open>Writing a generated token over the first \<open>n\<close> bytes of a token: the destination is
  \<open>d.token[:n]\<close>, which needs the capacity.\<close>

definition regenerate_buf :: "('db, 'f, 't) Manager \<Rightarrow> bytes option \<Rightarrow> bytes \<Rightarrow> bytes go" where
  "regenerate_buf M rnd b =
     (if length b < UrlEncodedTokenLen then None
      else map_option (\<lambda>e. e @ drop UrlEncodedTokenLen b)
             (GenerateToken2 M rnd AppendHashTokenLen (take UrlEncodedTokenLen b)))"

definition regenerate :: "('db, 'f, 't) Manager \<Rightarrow> bytes option \<Rightarrow> token \<Rightarrow> token go" where
  "regenerate M rnd t =
     (case t of
        Pooled b n \<Rightarrow> map_option (\<lambda>b'. Pooled b' UrlEncodedTokenLen) (regenerate_buf M rnd b)
      | Heap b n \<Rightarrow> map_option (\<lambda>b'. Heap b' UrlEncodedTokenLen) (regenerate_buf M rnd b))"

definition isValidToken :: "('db, 'f, 't) Manager \<Rightarrow> bytes \<Rightarrow> bool" where
  "isValidToken M t =
     (case RawURL_Decode t of None \<Rightarrow> False | Some raw \<Rightarrow> ValidateHash M raw)"

text \<open>\<open>append(d.token[:0], token...)\<close>: in the buffer if it fits.\<close>

definition append_token :: "token \<Rightarrow> bytes \<Rightarrow> token" where
  "append_token t s =
     (case t of
        Pooled b n \<Rightarrow> if length s \<le> length b then Pooled (overwrite b s) (length s) else Heap s (length s)
      | Heap b n \<Rightarrow> Heap (overwrite b s) (length s))"

definition Data_SetToken ::
    "('db, 'f, 't) Manager \<Rightarrow> bytes option \<Rightarrow> ('f, 't) Data \<Rightarrow> bytes \<Rightarrow> (bool \<times> ('f, 't) Data) go" where
  "Data_SetToken M rnd d t =
     (if t \<noteq> [] \<and> isValidToken M t then Some (False, d\<lparr>token := append_token (token d) t\<rparr>)
      else map_option (\<lambda>t'. (True, d\<lparr>token := t'\<rparr>)) (regenerate M rnd (token d)))"

section \<open>Calls of the store: manager.go\<close>

text \<open>The argument \<open>ctx\<close> says whether a context was passed.\<close>

definition doStoreFind :: "('db, 'f, 't) Manager \<Rightarrow> bool \<Rightarrow> 'db \<Rightarrow> token \<Rightarrow> found go" where
  "doStoreFind M ctx db t =
     map_option
       (\<lambda>k. case (if ctx then ctx_store M else None) of Some C \<Rightarrow> FindCtx C db k | None \<Rightarrow> Find M db k)
       (tokenWithPrefix t)"

definition doStoreCommit ::
    "('db, 'f, 't) Manager \<Rightarrow> bool \<Rightarrow> 'db \<Rightarrow> token \<Rightarrow> bytes \<Rightarrow> int \<Rightarrow> bool \<Rightarrow> ('db \<times> session_error option) go" where
  "doStoreCommit M ctx db t b expiry modified =
     map_option
       (\<lambda>k. let (db', err) = (case (if ctx then ctx_store M else None) of
                                 Some C \<Rightarrow> CommitCtx C db k b expiry modified
                               | None \<Rightarrow> Commit M db k b expiry modified)
            in (db', if err then Some StoreError else None))
       (tokenWithPrefix t)"

definition doStoreDelete :: "('db, 'f, 't) Manager \<Rightarrow> bool \<Rightarrow> 'db \<Rightarrow> token \<Rightarrow> ('db \<times> session_error option) go" where
  "doStoreDelete M ctx db t =
     map_option
       (\<lambda>k. let (db', err) = (case (if ctx then ctx_store M else None) of
                                 Some C \<Rightarrow> DeleteCtx C db k
                               | None \<Rightarrow> Delete M db k)
            in (db', if err then Some StoreError else None))
       (tokenWithPrefix t)"

definition Manager_Commit ::
    "('db, 'f, 't) Manager \<Rightarrow> bool \<Rightarrow> int \<Rightarrow> 'db \<Rightarrow> ('f, 't) Data \<Rightarrow> ('db \<times> session_error option) go" where
  "Manager_Commit M ctx now db d =
     (case Encode M (csrfToken d) (vals d) of
        None \<Rightarrow> Some (db, Some EncodingError)
      | Some b \<Rightarrow> doStoreCommit M ctx db (token d) b (now + Lifetime M) (status d = Modified))"

section \<open>Operations on the data: data.go\<close>

definition Data_reset :: "('f, 't) Data \<Rightarrow> ('f, 't) Data" where
  "Data_reset d =
     d\<lparr>token := (case token d of Pooled b n \<Rightarrow> Pooled b 0 | Heap b n \<Rightarrow> Heap b 0),
       csrfToken := [], vals := map_option (\<lambda>_. []) (vals d), status := Unmodified, started := False\<rparr>"

text \<open>Writing into the nil map panics.\<close>

definition Data_Put :: "('f, 't) Data \<Rightarrow> bytes \<Rightarrow> ('f, 't) val \<Rightarrow> ('f, 't) Data go" where
  "Data_Put d k v = map_option (\<lambda>m. d\<lparr>vals := Some (AList.update k v m), status := Modified\<rparr>) (vals d)"

definition the_vals :: "('f, 't) Data \<Rightarrow> ('f, 't) vals" where
  "the_vals d = (case vals d of None \<Rightarrow> [] | Some m \<Rightarrow> m)"

definition Data_Get :: "('f, 't) Data \<Rightarrow> bytes \<Rightarrow> ('f, 't) val option" where
  "Data_Get d k = map_of (the_vals d) k"

definition delete_val :: "('f, 't) Data \<Rightarrow> bytes \<Rightarrow> ('f, 't) Data" where
  "delete_val d k = d\<lparr>vals := map_option (AList.delete k) (vals d), status := Modified\<rparr>"

definition Data_Pop :: "('f, 't) Data \<Rightarrow> bytes \<Rightarrow> ('f, 't) val option \<times> ('f, 't) Data" where
  "Data_Pop d k = (case Data_Get d k of None \<Rightarrow> (None, d) | Some v \<Rightarrow> (Some v, delete_val d k))"

definition Data_Remove :: "('f, 't) Data \<Rightarrow> bytes \<Rightarrow> ('f, 't) Data" where
  "Data_Remove d k = (case Data_Get d k of None \<Rightarrow> d | Some v \<Rightarrow> delete_val d k)"

definition Data_Clear :: "('f, 't) Data \<Rightarrow> ('f, 't) Data" where
  "Data_Clear d = (if the_vals d = [] then d else d\<lparr>vals := Some [], status := Modified\<rparr>)"

definition Data_Exists :: "('f, 't) Data \<Rightarrow> bytes \<Rightarrow> bool" where
  "Data_Exists d k \<longleftrightarrow> Data_Get d k \<noteq> None"

text \<open>Keys lists the keys in the order of the map, which Go leaves open.\<close>

definition Data_Keys :: "('f, 't) Data \<Rightarrow> bytes list" where
  "Data_Keys d = map fst (the_vals d)"

definition Data_Flush :: "('f, 't) Data \<Rightarrow> ('f, 't) Data" where
  "Data_Flush d = d\<lparr>vals := map_option (\<lambda>_. []) (vals d)\<rparr>"

definition Data_GetString :: "('f, 't) Data \<Rightarrow> bytes \<Rightarrow> bytes" where
  "Data_GetString d k = (case Data_Get d k of Some (VString x) \<Rightarrow> x | _ \<Rightarrow> [])"

definition Data_GetBool :: "('f, 't) Data \<Rightarrow> bytes \<Rightarrow> bool" where
  "Data_GetBool d k = (case Data_Get d k of Some (VBool x) \<Rightarrow> x | _ \<Rightarrow> False)"

definition Data_GetInt :: "('f, 't) Data \<Rightarrow> bytes \<Rightarrow> int" where
  "Data_GetInt d k = (case Data_Get d k of Some (VInt x) \<Rightarrow> x | _ \<Rightarrow> 0)"

definition Data_GetInt64 :: "('f, 't) Data \<Rightarrow> bytes \<Rightarrow> int" where
  "Data_GetInt64 d k = (case Data_Get d k of Some (VInt64 x) \<Rightarrow> x | _ \<Rightarrow> 0)"

definition Data_GetInt32 :: "('f, 't) Data \<Rightarrow> bytes \<Rightarrow> int" where
  "Data_GetInt32 d k = (case Data_Get d k of Some (VInt32 x) \<Rightarrow> x | _ \<Rightarrow> 0)"

definition Data_GetFloat :: "('f :: zero, 't) Data \<Rightarrow> bytes \<Rightarrow> 'f" where
  "Data_GetFloat d k = (case Data_Get d k of Some (VFloat x) \<Rightarrow> x | _ \<Rightarrow> 0)"

definition Data_GetTime :: "('f, 't :: zero) Data \<Rightarrow> bytes \<Rightarrow> 't" where
  "Data_GetTime d k = (case Data_Get d k of Some (VTime x) \<Rightarrow> x | _ \<Rightarrow> 0)"

definition Data_PopString :: "('f, 't) Data \<Rightarrow> bytes \<Rightarrow> bytes \<times> ('f, 't) Data" where
  "Data_PopString d k = (case Data_Pop d k of (v, d') \<Rightarrow> (case v of Some (VString x) \<Rightarrow> x | _ \<Rightarrow> [], d'))"

definition Data_PopBool :: "('f, 't) Data \<Rightarrow> bytes \<Rightarrow> bool \<times> ('f, 't) Data" where
  "Data_PopBool d k = (case Data_Pop d k of (v, d') \<Rightarrow> (case v of Some (VBool x) \<Rightarrow> x | _ \<Rightarrow> False, d'))"

definition Data_PopInt :: "('f, 't) Data \<Rightarrow> bytes \<Rightarrow> int \<times> ('f, 't) Data" where
  "Data_PopInt d k = (case Data_Pop d k of (v, d') \<Rightarrow> (case v of Some (VInt x) \<Rightarrow> x | _ \<Rightarrow> 0, d'))"

definition Data_PopFloat :: "('f :: zero, 't) Data \<Rightarrow> bytes \<Rightarrow> 'f \<times> ('f, 't) Data" where
  "Data_PopFloat d k = (case Data_Pop d k of (v, d') \<Rightarrow> (case v of Some (VFloat x) \<Rightarrow> x | _ \<Rightarrow> 0, d'))"

definition Data_PopBytes :: "('f, 't) Data \<Rightarrow> bytes \<Rightarrow> bytes \<times> ('f, 't) Data" where
  "Data_PopBytes d k = (case Data_Pop d k of (v, d') \<Rightarrow> (case v of Some (VBytes x) \<Rightarrow> x | _ \<Rightarrow> [], d'))"

definition Data_PopTime :: "('f, 't :: zero) Data \<Rightarrow> bytes \<Rightarrow> 't \<times> ('f, 't) Data" where
  "Data_PopTime d k = (case Data_Pop d k of (v, d') \<Rightarrow> (case v of Some (VTime x) \<Rightarrow> x | _ \<Rightarrow> 0, d'))"

definition Data_RememberMe :: "('f, 't) Data \<Rightarrow> bool \<Rightarrow> ('f, 't) Data go" where
  "Data_RememberMe d b = Data_Put d ''__rememberMe'' (VBool b)"

section \<open>Loading, merging and renewing\<close>

text \<open>A decoding error leaves the nil slice and the nil map behind, and the corrupt entry is deleted.\<close>

definition Data_LoadSession ::
    "('db, 'f, 't) Manager \<Rightarrow> bool \<Rightarrow> 'db \<Rightarrow> ('f, 't) Data \<Rightarrow> ('db \<times> ('f, 't) Data \<times> session_error option) go" where
  "Data_LoadSession M ctx db d =
     (case doStoreFind M ctx db (token d) of
        None \<Rightarrow> None
      | Some StoreFailure \<Rightarrow> Some (db, d, Some StoreError)
      | Some Missing \<Rightarrow> Some (db, d, None)
      | Some (Found b) \<Rightarrow>
          (case Decode M b of
             Some (csrf, v) \<Rightarrow>
               Some (db, d\<lparr>csrfToken := csrf, csrfCap := max (csrfCap d) (length csrf), vals := v\<rparr>, None)
           | None \<Rightarrow>
               map_option (\<lambda>k. (fst (Delete M db k), d\<lparr>csrfToken := [], csrfCap := 0, vals := None\<rparr>, None))
                 (tokenWithPrefix (token d))))"

definition Data_Start ::
    "('db, 'f, 't) Manager \<Rightarrow> bytes option \<Rightarrow> bool \<Rightarrow> bool \<Rightarrow> 'db \<Rightarrow> ('f, 't) Data \<Rightarrow>
     ('db \<times> ('f, 't) Data \<times> session_error option) go" where
  "Data_Start M rnd newToken ctx db d =
     Option.bind (if newToken then Some (db, d, None) else Data_LoadSession M ctx db d)
       (\<lambda>(db1, d1, err).
          if err \<noteq> None then Some (db1, d1, err)
          else if csrfToken d1 = [] then
            if csrfCap d1 < UrlEncodedCsrfTokenLen then None
            else map_option (\<lambda>t. (db1, d1\<lparr>csrfToken := t, started := True\<rparr>, None))
                   (GenerateToken2 M rnd AppendHashCsrfTokenLen (replicate UrlEncodedCsrfTokenLen (mk_byte 0)))
          else Some (db1, d1\<lparr>started := True\<rparr>, None))"

text \<open>The values of the other session are taken where the key is new.\<close>

definition merge_vals :: "('f, 't) vals \<Rightarrow> ('f, 't) vals \<Rightarrow> ('f, 't) vals" where
  "merge_vals own other = own @ filter (\<lambda>(k, v). map_of own k = None) other"

definition Data_MergeSession ::
    "('db, 'f, 't) Manager \<Rightarrow> bool \<Rightarrow> 'db \<Rightarrow> ('f, 't) Data \<Rightarrow> token \<Rightarrow>
     ('db \<times> ('f, 't) Data \<times> session_error option) go" where
  "Data_MergeSession M ctx db d t =
     (if tok_bytes (token d) = tok_bytes t then Some (db, d, None)
      else
        (case doStoreFind M ctx db t of
           None \<Rightarrow> None
         | Some (Found b) \<Rightarrow>
             (case Decode M b of
                None \<Rightarrow> Some (db, d, Some DataError)
              | Some (_, v) \<Rightarrow>
                  (let new = (case v of None \<Rightarrow> [] | Some m \<Rightarrow> m)
                   in if vals d = None \<and> new \<noteq> [] then None
                      else map_option (\<lambda>(db', err).
                             (db', d\<lparr>vals := map_option (\<lambda>m. merge_vals m new) (vals d), status := Modified\<rparr>, err))
                             (doStoreDelete M ctx db t)))
         | Some _ \<Rightarrow> Some (db, d, None)))"

definition Data_Migrate ::
    "('db, 'f, 't) Manager \<Rightarrow> bytes option \<Rightarrow> 'db \<Rightarrow> ('f, 't) Data \<Rightarrow> bool \<Rightarrow> ('db \<times> ('f, 't) Data) go" where
  "Data_Migrate M rnd db d destroy =
     Option.bind (if destroy \<and> tok_bytes (token d) \<noteq> []
                  then map_option (\<lambda>k. fst (Delete M db k)) (tokenWithPrefix (token d)) else Some db)
       (\<lambda>db1. map_option (\<lambda>t. (db1, d\<lparr>token := t, status := Modified\<rparr>)) (regenerate M rnd (token d)))"

definition Data_RegenerateCsrfToken ::
    "('db, 'f, 't) Manager \<Rightarrow> bytes option \<Rightarrow> ('f, 't) Data \<Rightarrow> ('f, 't) Data go" where
  "Data_RegenerateCsrfToken M rnd d =
     map_option (\<lambda>t. d\<lparr>csrfToken := t\<rparr>) (GenerateToken2 M rnd CsrfTokenLen [])"

definition Data_Regenerate ::
    "('db, 'f, 't) Manager \<Rightarrow> bytes option \<Rightarrow> bytes option \<Rightarrow> 'db \<Rightarrow> ('f, 't) Data \<Rightarrow> bool \<Rightarrow> ('db \<times> ('f, 't) Data) go" where
  "Data_Regenerate M rnd rnd2 db d destroy =
     Option.bind (Data_Migrate M rnd db d destroy)
       (\<lambda>(db1, d1). map_option (\<lambda>d2. (db1, d2)) (Data_RegenerateCsrfToken M rnd2 d1))"

definition Data_Invalidate ::
    "('db, 'f, 't) Manager \<Rightarrow> bytes option \<Rightarrow> 'db \<Rightarrow> ('f, 't) Data \<Rightarrow> ('db \<times> ('f, 't) Data) go" where
  "Data_Invalidate M rnd db d = Data_Migrate M rnd db (Data_Flush d) True"

definition Manager_Destroy ::
    "('db, 'f, 't) Manager \<Rightarrow> bool \<Rightarrow> 'db \<Rightarrow> ('f, 't) Data \<Rightarrow> ('db \<times> ('f, 't) Data \<times> session_error option) go" where
  "Manager_Destroy M ctx db d =
     map_option
       (\<lambda>(db', err). if err \<noteq> None then (db', d, err) else (db', Data_reset (d\<lparr>status := Destroyed\<rparr>), None))
       (doStoreDelete M ctx db (token d))"

definition Manager_RenewToken ::
    "('db, 'f, 't) Manager \<Rightarrow> bytes option \<Rightarrow> 'db \<Rightarrow> ('f, 't) Data \<Rightarrow> ('db \<times> ('f, 't) Data) go" where
  "Manager_RenewToken M rnd db d = Data_Migrate M rnd db d True"

section \<open>The middleware: scs.go\<close>

record session_cfg =
  CokName :: bytes
  CokPath :: bytes
  CokDomain :: bytes
  CokSecure :: bool
  DisableCokHttpHttpOnly :: bool
  DisableCokPersist :: bool
  CokSameSite :: CookieSameSite
  LifetimeSeconds :: int

text \<open>What happens to the cookie of the client: nothing, a new value, or deletion.\<close>

datatype cookie_action = NoCookie | SetCookie "unit Cookie" | DelClientCookie bytes

definition addCookieToResponse :: "session_cfg \<Rightarrow> bytes \<Rightarrow> bool \<Rightarrow> cookie_action" where
  "addCookieToResponse cfg t rememberMe =
     (let cok = Cookie_SetValue (Cookie_SetKey AcquireCookie (CokName cfg)) t;
          cok = (if CokPath cfg \<noteq> [] then Cookie_SetPath cok (CokPath cfg) else cok);
          cok = (if CokDomain cfg \<noteq> [] then Cookie_SetDomain cok (CokDomain cfg) else cok);
          cok = (if CokSecure cfg then Cookie_SetSecure cok True else cok);
          cok = (if DisableCokHttpHttpOnly cfg then Cookie_SetHTTPOnly cok False else cok);
          cok = Cookie_SetSameSite cok (CokSameSite cfg)
      in SetCookie (if \<not> DisableCokPersist cfg \<or> rememberMe then Cookie_SetMaxAge cok (LifetimeSeconds cfg) else cok))"

text \<open>The pool: a new session has a buffer of zero bytes after the prefix and an empty map.\<close>

definition new_Data :: "bool \<Rightarrow> ('f, 't) Data" where
  "new_Data disableCsrf =
     \<lparr>status = Unmodified, token = Pooled (replicate UrlEncodedTokenLen (mk_byte 0)) 0, csrfToken = [],
       csrfCap = (if disableCsrf then 0 else UrlEncodedCsrfTokenLen), vals = Some [], started = False\<rparr>"

definition getSession ::
    "('db, 'f, 't) Manager \<Rightarrow> bytes option \<Rightarrow> ('f, 't) Data \<Rightarrow> bytes \<Rightarrow> (bool \<times> ('f, 't) Data) go" where
  "getSession M rnd pooled cookie = Data_SetToken M rnd pooled cookie"

text \<open>The rest of the chain: from the store and the session to the store, the session and the error it
  returns; \<open>None\<close> if it panics.\<close>

type_synonym ('db, 'f, 't, 'e) chain = "'db \<Rightarrow> ('f, 't) Data \<Rightarrow> ('db \<times> ('f, 't) Data \<times> 'e option) go"

definition handleStatefulRequest ::
    "('db, 'f, 't) Manager \<Rightarrow> session_cfg \<Rightarrow> int \<Rightarrow> bytes option \<Rightarrow> bool \<Rightarrow> ('db, 'f, 't, 'e) chain \<Rightarrow>
     'db \<Rightarrow> ('f, 't) Data \<Rightarrow> ('db \<times> ('f, 't) Data \<times> cookie_action \<times> (session_error + 'e) option) go" where
  "handleStatefulRequest M cfg now rnd newToken chain db d =
     (case Data_Start M rnd newToken False db d of
        None \<Rightarrow> None
      | Some (db1, d1, Some e) \<Rightarrow> Some (db1, d1, NoCookie, Some (Inl e))
      | Some (db1, d1, None) \<Rightarrow>
          (case chain db1 d1 of
             None \<Rightarrow> None
           | Some (db2, d2, err) \<Rightarrow>
               (case Manager_Commit M False now db2 d2 of
                  None \<Rightarrow> None
                | Some (db3, Some e) \<Rightarrow>
                    Some (db3, d2, NoCookie, Some (case err of None \<Rightarrow> Inl e | Some x \<Rightarrow> Inr x))
                | Some (db3, None) \<Rightarrow>
                    Some (db3, d2,
                      if status d2 = Destroyed then DelClientCookie (CokName cfg)
                      else addCookieToResponse cfg (tok_bytes (token d2)) (Data_GetBool d2 ''__rememberMe''),
                      map_option Inr err))))"

text \<open>Handle: a skipped request runs the rest of the chain without a session; otherwise the session goes
  back into the pool at the end.\<close>

definition Handle ::
    "('db, 'f, 't) Manager \<Rightarrow> session_cfg \<Rightarrow> int \<Rightarrow> bytes option \<Rightarrow> bytes option \<Rightarrow> bool \<Rightarrow>
     ('db \<Rightarrow> ('db \<times> 'e option) go) \<Rightarrow> ('db, 'f, 't, 'e) chain \<Rightarrow>
     'db \<Rightarrow> ('f, 't) Data \<Rightarrow> bytes \<Rightarrow> ('db \<times> ('f, 't) Data \<times> cookie_action \<times> (session_error + 'e) option) go" where
  "Handle M cfg now rnd rnd2 skip bare chain db pooled cookie =
     (if skip then map_option (\<lambda>(db', err). (db', pooled, NoCookie, map_option Inr err)) (bare db)
      else
        case getSession M rnd pooled cookie of
          None \<Rightarrow> None
        | Some (newToken, d) \<Rightarrow>
            map_option (\<lambda>(db', d', ck, err). (db', Data_reset d', ck, err))
              (handleStatefulRequest M cfg now rnd2 newToken chain db d))"

section \<open>The older token generator\<close>

text \<open>\<open>dst\<close> holds the bytes of the destination up to its capacity; \<open>H\<close> are the methods EncodedLen and
  AppendHash of the hash, if one is given. \<open>None\<close> is a panic.\<close>

definition GenerateToken ::
    "bytes option \<Rightarrow> nat \<Rightarrow> bytes \<Rightarrow> ((nat \<Rightarrow> nat) \<times> (bytes \<Rightarrow> bytes go)) option \<Rightarrow> bool \<Rightarrow> bytes go" where
  "GenerateToken rnd sz dst H urlencoded =
     (let rawTokenLen = (case H of Some (len, _) \<Rightarrow> len sz | None \<Rightarrow> sz);
          rawToken = (if \<not> urlencoded \<and> length dst \<ge> rawTokenLen then take rawTokenLen dst
                      else replicate rawTokenLen (mk_byte 0))
      in if rawTokenLen < sz then None
         else case rnd of
           None \<Rightarrow> None
         | Some r \<Rightarrow>
             if length r \<noteq> sz then None
             else
               map_option (\<lambda>raw. if urlencoded then RawURL_Encode raw else raw)
                 (case H of Some (_, app) \<Rightarrow> app (r @ drop sz rawToken) | None \<Rightarrow> Some (r @ drop sz rawToken)))"

end
