(* ===== verification/Session_Manager.thy ===== *)
theory Session_Manager
  imports Session
begin

text \<open>
  The session manager (src/fasthttp-routing/middleware/session/manager.go): the operations handlers call.
  Each takes the session out of the user values of the request, where the middleware has put it, and
  panics if there is none; the argument \<open>sd\<close> is that user value. Iterate visits all sessions of the store.
\<close>

definition sessionDataFromCxt :: "('f, 't) Data option \<Rightarrow> ('f, 't) Data go" where
  "sessionDataFromCxt sd = sd"

definition Manager_Put :: "('f, 't) Data option \<Rightarrow> bytes \<Rightarrow> ('f, 't) val \<Rightarrow> ('f, 't) Data go" where
  "Manager_Put c k v = Option.bind (sessionDataFromCxt c) (\<lambda>sd. Data_Put sd k v)"

definition Manager_Get :: "('f, 't) Data option \<Rightarrow> bytes \<Rightarrow> ('f, 't) val option go" where
  "Manager_Get c k = Option.bind (sessionDataFromCxt c) (\<lambda>sd. Some (Data_Get sd k))"

definition Manager_Pop :: "('f, 't) Data option \<Rightarrow> bytes \<Rightarrow> (('f, 't) val option \<times> ('f, 't) Data) go" where
  "Manager_Pop c k = Option.bind (sessionDataFromCxt c) (\<lambda>sd. Some (Data_Pop sd k))"

definition Manager_Remove :: "('f, 't) Data option \<Rightarrow> bytes \<Rightarrow> ('f, 't) Data go" where
  "Manager_Remove c k = Option.bind (sessionDataFromCxt c) (\<lambda>sd. Some (Data_Remove sd k))"

definition Manager_Clear :: "('f, 't) Data option \<Rightarrow> ('f, 't) Data go" where
  "Manager_Clear c = Option.bind (sessionDataFromCxt c) (\<lambda>sd. Some (Data_Clear sd))"

definition Manager_Exists :: "('f, 't) Data option \<Rightarrow> bytes \<Rightarrow> bool go" where
  "Manager_Exists c k = Option.bind (sessionDataFromCxt c) (\<lambda>sd. Some (Data_Exists sd k))"

definition Manager_Keys :: "('f, 't) Data option \<Rightarrow> bytes list go" where
  "Manager_Keys c = Option.bind (sessionDataFromCxt c) (\<lambda>sd. Some (Data_Keys sd))"

definition Manager_RenewToken_ctx ::
    "('db, 'f, 't) Manager \<Rightarrow> bytes option \<Rightarrow> 'db \<Rightarrow> ('f, 't) Data option \<Rightarrow> ('db \<times> ('f, 't) Data) go" where
  "Manager_RenewToken_ctx M rnd db c = Option.bind (sessionDataFromCxt c) (Manager_RenewToken M rnd db)"

definition Manager_MergeSession ::
    "('db, 'f, 't) Manager \<Rightarrow> bool \<Rightarrow> 'db \<Rightarrow> ('f, 't) Data option \<Rightarrow> token \<Rightarrow>
     ('db \<times> ('f, 't) Data \<times> session_error option) go" where
  "Manager_MergeSession M ctx db c t = Option.bind (sessionDataFromCxt c) (\<lambda>d. Data_MergeSession M ctx db d t)"

definition Manager_Status :: "('f, 't) Data option \<Rightarrow> Status go" where
  "Manager_Status c = Option.bind (sessionDataFromCxt c) (\<lambda>sd. Some (status sd))"

definition Manager_GetString :: "('f, 't) Data option \<Rightarrow> bytes \<Rightarrow> bytes go" where
  "Manager_GetString c k = Option.bind (sessionDataFromCxt c) (\<lambda>sd. Some (Data_GetString sd k))"

definition Manager_GetBool :: "('f, 't) Data option \<Rightarrow> bytes \<Rightarrow> bool go" where
  "Manager_GetBool c k = Option.bind (sessionDataFromCxt c) (\<lambda>sd. Some (Data_GetBool sd k))"

definition Manager_GetInt :: "('f, 't) Data option \<Rightarrow> bytes \<Rightarrow> int go" where
  "Manager_GetInt c k = Option.bind (sessionDataFromCxt c) (\<lambda>sd. Some (Data_GetInt sd k))"

definition Manager_GetInt64 :: "('f, 't) Data option \<Rightarrow> bytes \<Rightarrow> int go" where
  "Manager_GetInt64 c k = Option.bind (sessionDataFromCxt c) (\<lambda>sd. Some (Data_GetInt64 sd k))"

definition Manager_GetInt32 :: "('f, 't) Data option \<Rightarrow> bytes \<Rightarrow> int go" where
  "Manager_GetInt32 c k = Option.bind (sessionDataFromCxt c) (\<lambda>sd. Some (Data_GetInt32 sd k))"

definition Manager_GetFloat :: "('f :: zero, 't) Data option \<Rightarrow> bytes \<Rightarrow> 'f go" where
  "Manager_GetFloat c k = Option.bind (sessionDataFromCxt c) (\<lambda>sd. Some (Data_GetFloat sd k))"

definition Manager_GetTime :: "('f, 't :: zero) Data option \<Rightarrow> bytes \<Rightarrow> 't go" where
  "Manager_GetTime c k = Option.bind (sessionDataFromCxt c) (\<lambda>sd. Some (Data_GetTime sd k))"

definition Manager_PopString :: "('f, 't) Data option \<Rightarrow> bytes \<Rightarrow> (bytes \<times> ('f, 't) Data) go" where
  "Manager_PopString c k = Option.bind (sessionDataFromCxt c) (\<lambda>sd. Some (Data_PopString sd k))"

definition Manager_PopBool :: "('f, 't) Data option \<Rightarrow> bytes \<Rightarrow> (bool \<times> ('f, 't) Data) go" where
  "Manager_PopBool c k = Option.bind (sessionDataFromCxt c) (\<lambda>sd. Some (Data_PopBool sd k))"

definition Manager_PopInt :: "('f, 't) Data option \<Rightarrow> bytes \<Rightarrow> (int \<times> ('f, 't) Data) go" where
  "Manager_PopInt c k = Option.bind (sessionDataFromCxt c) (\<lambda>sd. Some (Data_PopInt sd k))"

definition Manager_PopFloat :: "('f :: zero, 't) Data option \<Rightarrow> bytes \<Rightarrow> ('f \<times> ('f, 't) Data) go" where
  "Manager_PopFloat c k = Option.bind (sessionDataFromCxt c) (\<lambda>sd. Some (Data_PopFloat sd k))"

definition Manager_PopBytes :: "('f, 't) Data option \<Rightarrow> bytes \<Rightarrow> (bytes \<times> ('f, 't) Data) go" where
  "Manager_PopBytes c k = Option.bind (sessionDataFromCxt c) (\<lambda>sd. Some (Data_PopBytes sd k))"

definition Manager_PopTime :: "('f, 't :: zero) Data option \<Rightarrow> bytes \<Rightarrow> ('t \<times> ('f, 't) Data) go" where
  "Manager_PopTime c k = Option.bind (sessionDataFromCxt c) (\<lambda>sd. Some (Data_PopTime sd k))"

definition Manager_RememberMe :: "('f, 't) Data option \<Rightarrow> bool \<Rightarrow> ('f, 't) Data go" where
  "Manager_RememberMe c b = Option.bind (sessionDataFromCxt c) (\<lambda>sd. Data_RememberMe sd b)"

definition Manager_generateToken ::
    "bytes option \<Rightarrow> nat \<Rightarrow> ((nat \<Rightarrow> nat) \<times> (bytes \<Rightarrow> bytes go)) option \<Rightarrow> bytes go" where
  "Manager_generateToken rnd IdSize H = GenerateToken rnd IdSize [] H True"

section \<open>Iteration\<close>

text \<open>The store may offer iteration, with and without a context; a store without panics. The result is
  the tokens with their data, or an error.\<close>

type_synonym all_sessions = "session_error + (bytes \<times> bytes) list"

definition doStoreAll :: "bool \<Rightarrow> all_sessions option \<Rightarrow> all_sessions option \<Rightarrow> all_sessions go" where
  "doStoreAll ctx all_ctx all_plain = (case (if ctx then all_ctx else None) of Some r \<Rightarrow> Some r | None \<Rightarrow> all_plain)"

text \<open>The function that is called for each session sees the session and changes it and a state of its own.\<close>

fun iterate_loop ::
    "('db, 'f, 't) Manager \<Rightarrow> ('s \<Rightarrow> ('f, 't) Data \<Rightarrow> 's \<times> ('f, 't) Data \<times> 'e option) \<Rightarrow>
     's \<Rightarrow> ('f, 't) Data \<Rightarrow> (bytes \<times> bytes) list \<Rightarrow> 's \<times> ('f, 't) Data \<times> (session_error + 'e) option" where
  "iterate_loop M fn s d [] = (s, d, None)"
| "iterate_loop M fn s d ((tk, b) # rest) =
     (let d1 = d\<lparr>token := append_token (token d) (tok_bytes (token d) @ tk)\<rparr>
      in case Decode M b of
           None \<Rightarrow> (s, d1\<lparr>csrfToken := [], csrfCap := 0, vals := None\<rparr>, Some (Inl DataError))
         | Some (csrf, v) \<Rightarrow>
             (case fn s (d1\<lparr>csrfToken := csrf, csrfCap := max (csrfCap d1) (length csrf), vals := v\<rparr>) of
                (s', d2, err) \<Rightarrow>
                  (case err of
                     Some e \<Rightarrow> (s', Data_reset d2, Some (Inr e))
                   | None \<Rightarrow> iterate_loop M fn s' (Data_reset d2) rest)))"

definition Manager_Iterate ::
    "('db, 'f, 't) Manager \<Rightarrow> bool \<Rightarrow> all_sessions option \<Rightarrow> all_sessions option \<Rightarrow>
     ('s \<Rightarrow> ('f, 't) Data \<Rightarrow> 's \<times> ('f, 't) Data \<times> 'e option) \<Rightarrow> 's \<Rightarrow> ('f, 't) Data \<Rightarrow>
     ('s \<times> ('f, 't) Data \<times> (session_error + 'e) option) go" where
  "Manager_Iterate M ctx all_ctx all_plain fn s pooled =
     map_option
       (\<lambda>r. case r of
              Inl e \<Rightarrow> (s, pooled, Some (Inl e))
            | Inr l \<Rightarrow> (case iterate_loop M fn s pooled l of (s', d, err) \<Rightarrow> (s', Data_reset d, err)))
       (doStoreAll ctx all_ctx all_plain)"

section \<open>Every session is visited once\<close>

lemma tok_append: "tok_bytes (append_token t s) = s"
  by (auto simp: tok_bytes_def append_token_def overwrite_def split: token.splits)

lemma tok_reset: "tok_bytes (token (Data_reset d)) = []"
  by (auto simp: tok_bytes_def Data_reset_def split: token.splits)

definition seen_session :: "('f, 't) Data \<Rightarrow> bytes \<times> bytes \<times> ('f, 't) vals option" where
  "seen_session d = (tok_bytes (token d), csrfToken d, vals d)"

lemma iterate_loop_visits:
  assumes "\<forall>(tk, b)\<in>set l. Decode M b \<noteq> None" and "tok_bytes (token d) = []"
  shows "\<exists>d'. iterate_loop M (\<lambda>s d. (s @ [seen_session d], g d, None :: 'e option)) s d l =
           (s @ map (\<lambda>(tk, b). (tk, the (Decode M b))) l, d', None)"
  using assms
proof (induction l arbitrary: s d)
  case (Cons x l)
  obtain tk b where x: "x = (tk, b)" by (cases x)
  with Cons.prems obtain c v where D: "Decode M b = Some (c, v)" by auto
  define d1 where "d1 = d\<lparr>token := append_token (token d) tk, csrfToken := c, csrfCap := max (csrfCap d) (length c), vals := v\<rparr>"
  have "seen_session d1 = (tk, c, v)" by (simp add: d1_def seen_session_def tok_append)
  with Cons.IH [of "Data_reset (g d1)" "s @ [(tk, c, v)]"] Cons.prems show ?case
    by (simp add: x D Let_def tok_reset flip: d1_def)
qed simp

text \<open>Iterating over the sessions of the store calls the function exactly once for each session, in
  the order of the list, with the token, the CSRF token and the values of that session, whatever the
  function does to the session it gets (\<open>g\<close>) and whatever the pooled object held before.\<close>

theorem Manager_Iterate_visits:
  assumes "all_plain = Some (Inr l)" and "\<forall>(tk, b)\<in>set l. Decode M b \<noteq> None" and "tok_bytes (token pooled) = []"
  shows "\<exists>d'. Manager_Iterate M False all_ctx all_plain (\<lambda>s d. (s @ [seen_session d], g d, None :: 'e option)) [] pooled =
           Some (map (\<lambda>(tk, b). (tk, the (Decode M b))) l, d', None) \<and> tok_bytes (token d') = []"
proof -
  obtain d' where "iterate_loop M (\<lambda>s d. (s @ [seen_session d], g d, None :: 'e option)) [] pooled l =
      (map (\<lambda>(tk, b). (tk, the (Decode M b))) l, d', None)"
    using iterate_loop_visits [OF assms(2,3), of g "[]"] by auto
  then show ?thesis
    using assms(1) by (simp add: Manager_Iterate_def doStoreAll_def tok_reset)
qed

theorem Manager_Iterate_visits_witness:
  "\<exists>d'. Manager_Iterate (\<lparr>Lifetime = 0, Find = (\<lambda>db k. Missing), Commit = (\<lambda>db k b e m. (db, False)),
       Delete = (\<lambda>db k. (db, False)), ctx_store = None, Encode = (\<lambda>c v. None), Decode = (\<lambda>b. Some (b, Some [])),
       AppendHash = Some, ValidateHash = (\<lambda>b. True)\<rparr> :: (unit, unit, unit) Manager) False None
       (Some (Inr [(''t1'', ''a''), (''t2'', ''b'')])) (\<lambda>s d. (s @ [seen_session d], d\<lparr>csrfToken := ''x''\<rparr>, None :: unit option))
       [] (new_Data False) =
     Some ([(''t1'', ''a'', Some []), (''t2'', ''b'', Some [])], d', None) \<and> tok_bytes (token d') = []"
  using Manager_Iterate_visits [of "Some (Inr [(''t1'', ''a''), (''t2'', ''b'')])" "[(''t1'', ''a''), (''t2'', ''b'')]"
      "\<lparr>Lifetime = 0, Find = (\<lambda>db k. Missing), Commit = (\<lambda>db k b e m. (db, False)),
       Delete = (\<lambda>db k. (db, False)), ctx_store = None, Encode = (\<lambda>c v. None), Decode = (\<lambda>b. Some (b, Some [])),
       AppendHash = Some, ValidateHash = (\<lambda>b. True)\<rparr> :: (unit, unit, unit) Manager"
      "new_Data False" None "\<lambda>d. d\<lparr>csrfToken := ''x''\<rparr>"]
  by (simp add: new_Data_def tok_bytes_def)

end
