(* ===== verification/Session_Correct.thy ===== *)
theory Session_Correct
  imports Session_Manager
begin

text \<open>
  Properties of the session middleware: generated tokens are accepted again, the values of a session
  are a finite map, every reachable session is well formed, and values written in one request are
  read in the next one.
\<close>

section \<open>Tokens\<close>

text \<open>What the session code needs of a hash.\<close>

locale token_hash =
  fixes append :: "bytes \<Rightarrow> bytes go" and validate :: "bytes \<Rightarrow> bool"
  assumes append_valid: "5 \<le> length bs \<Longrightarrow> \<exists>t. append bs = Some t \<and> length t = length bs \<and> validate t"
begin

lemma generated:
  assumes "AppendHash M = append" "ValidateHash M = validate"
    and "length r + 2 = len" "5 \<le> len" "length dst = RawURL_EncodedLen len"
  shows "\<exists>e. GenerateToken2 M (Some r) len dst = Some e \<and> length e = RawURL_EncodedLen len \<and> isValidToken M e"
proof -
  obtain t where t: "append (r @ replicate 2 (mk_byte 0)) = Some t" "length t = len" "validate t"
    using append_valid [of "r @ replicate 2 (mk_byte 0)"] assms(3,4) by auto
  have "length (RawURL_Encode t) = RawURL_EncodedLen len" by (simp add: length_RawURL_Encode t(2))
  then show ?thesis
    using t assms by (auto simp: GenerateToken2_def isValidToken_def RawURL_roundtrip Let_def)
qed

end

interpretation simple_hash: token_hash SimpleHash_AppendHash SimpleHash_ValidateHash
  by unfold_locales (use SimpleHash_appended in blast)

text \<open>A token that fills its buffer, as a generated one does: its key is the prefix and the token.\<close>

definition full_token :: "token \<Rightarrow> bool" where
  "full_token t \<longleftrightarrow> (case t of Pooled b n \<Rightarrow> length b = UrlEncodedTokenLen \<and> n = UrlEncodedTokenLen | Heap b n \<Rightarrow> False)"

lemma full_token_key: "full_token t \<Longrightarrow> tokenWithPrefix t = Some (sessionPrefix @ tok_bytes t)"
  by (auto simp: full_token_def tokenWithPrefix_def tok_bytes_def split: token.splits)

definition simple_hashed :: "('db, 'f, 't) Manager \<Rightarrow> bool" where
  "simple_hashed M \<longleftrightarrow> AppendHash M = SimpleHash_AppendHash \<and> ValidateHash M = SimpleHash_ValidateHash"

lemma encoded_lengths:
  "RawURL_EncodedLen AppendHashTokenLen = UrlEncodedTokenLen"
  "RawURL_EncodedLen AppendHashCsrfTokenLen = UrlEncodedCsrfTokenLen"
  by (simp_all add: RawURL_EncodedLen_def token_lengths)

lemma regenerate_buf_ok:
  assumes "simple_hashed M" "length r = TokenLen" "UrlEncodedTokenLen \<le> length b"
  shows "\<exists>e. regenerate_buf M (Some r) b = Some (e @ drop UrlEncodedTokenLen b) \<and> length e = UrlEncodedTokenLen \<and> isValidToken M e"
proof -
  obtain e where "GenerateToken2 M (Some r) AppendHashTokenLen (take UrlEncodedTokenLen b) = Some e"
    "length e = UrlEncodedTokenLen" "isValidToken M e"
    using simple_hash.generated [of M r AppendHashTokenLen "take UrlEncodedTokenLen b"] assms
    by (auto simp: simple_hashed_def encoded_lengths) (auto simp: token_lengths)
  then show ?thesis using assms(3) by (auto simp: regenerate_buf_def)
qed

lemma csrf_generated:
  assumes "simple_hashed M" "length r = CsrfTokenLen"
  shows "\<exists>e. GenerateToken2 M (Some r) AppendHashCsrfTokenLen (replicate UrlEncodedCsrfTokenLen (mk_byte 0)) = Some e \<and>
           length e = UrlEncodedCsrfTokenLen"
  using simple_hash.generated [of M r AppendHashCsrfTokenLen "replicate UrlEncodedCsrfTokenLen (mk_byte 0)"] assms
  by (auto simp: simple_hashed_def encoded_lengths) (auto simp: token_lengths)

section \<open>Well-formed sessions\<close>

definition token_ok :: "token \<Rightarrow> bool" where
  "token_ok t \<longleftrightarrow>
     (case t of
        Pooled b n \<Rightarrow> length b = UrlEncodedTokenLen \<and> n \<le> length b
      | Heap b n \<Rightarrow> UrlEncodedTokenLen \<le> length b \<and> n \<le> length b)"

definition session_ok :: "('f, 't) Data \<Rightarrow> bool" where
  "session_ok d \<longleftrightarrow>
     token_ok (token d) \<and> (\<exists>m. vals d = Some m \<and> distinct (map fst m)) \<and>
     UrlEncodedCsrfTokenLen \<le> csrfCap d \<and> length (csrfToken d) \<le> csrfCap d"

lemma token_ok_regenerate:
  assumes "token_ok t" "simple_hashed M" "length r = TokenLen"
  shows "\<exists>t'. regenerate M (Some r) t = Some t' \<and> token_ok t' \<and> isValidToken M (tok_bytes t') \<and>
           ((\<exists>b n. t = Pooled b n) \<longrightarrow> full_token t')"
proof (cases t)
  case (Pooled b n)
  with assms(1) have "length b = UrlEncodedTokenLen" by (simp add: token_ok_def)
  with regenerate_buf_ok [OF assms(2,3), of b] Pooled show ?thesis
    by (auto simp: regenerate_def token_ok_def tok_bytes_def full_token_def)
next
  case (Heap b n)
  with assms(1) have "UrlEncodedTokenLen \<le> length b" by (simp add: token_ok_def)
  with regenerate_buf_ok [OF assms(2,3), of b] Heap show ?thesis
    by (auto simp: regenerate_def token_ok_def tok_bytes_def)
qed

lemma regenerate_token_ok: "token_ok t \<Longrightarrow> regenerate M rnd t = Some t' \<Longrightarrow> token_ok t'"
  by (auto simp: regenerate_def regenerate_buf_def token_ok_def GenerateToken2_def Let_def
      split: token.splits if_splits option.splits bind_splits)

lemma append_token_ok: "token_ok t \<Longrightarrow> token_ok (append_token t s)"
  by (auto simp: token_ok_def append_token_def overwrite_def split: token.splits)

lemma reset_token_ok: "session_ok d \<Longrightarrow> session_ok (Data_reset d)"
  by (auto simp: session_ok_def token_ok_def Data_reset_def split: token.splits)

section \<open>The values are a finite map\<close>

definition vals_ok :: "('f, 't) Data \<Rightarrow> bool" where
  "vals_ok d \<longleftrightarrow> (\<exists>m. vals d = Some m \<and> distinct (map fst m))"

text \<open>Put as a total function on sessions with a map.\<close>

definition put_val :: "('f, 't) Data \<Rightarrow> bytes \<Rightarrow> ('f, 't) val \<Rightarrow> ('f, 't) Data" where
  "put_val d k v = (case Data_Put d k v of Some d' \<Rightarrow> d' | None \<Rightarrow> d)"

lemma Data_Put_ok: "vals_ok d \<Longrightarrow> Data_Put d k v = Some (put_val d k v)"
  by (auto simp: put_val_def Data_Put_def vals_ok_def)

lemma delete_val_ok: "vals_ok d \<Longrightarrow> vals_ok (delete_val d k)"
  by (auto simp: vals_ok_def delete_val_def distinct_delete)

lemma Data_Remove_ok: "vals_ok d \<Longrightarrow> vals_ok (Data_Remove d k)"
  using delete_val_ok by (auto simp: Data_Remove_def split: option.splits)

lemma Data_Get_Remove: "Data_Get (Data_Remove d k) = (Data_Get d)(k := None)"
proof (cases "vals d")
  case (Some m)
  then show ?thesis
    by (auto simp: Data_Remove_def Data_Get_def the_vals_def delete_val_def delete_conv' fun_eq_iff split: option.splits)
qed (auto simp: Data_Remove_def Data_Get_def the_vals_def delete_val_def fun_eq_iff split: option.splits)

interpretation session_vals: dict Data_Get put_val Data_Remove vals_ok
proof unfold_locales
  fix d :: "('f, 't) Data" and k v
  assume d: "vals_ok d"
  then obtain m where m: "vals d = Some m" "distinct (map fst m)" by (auto simp: vals_ok_def)
  show "Data_Get (put_val d k v) = (Data_Get d)(k \<mapsto> v)"
    using m by (auto simp: put_val_def Data_Put_def Data_Get_def the_vals_def update_conv')
  show "vals_ok (put_val d k v)"
    using m by (auto simp: put_val_def Data_Put_def vals_ok_def distinct_update)
  show "vals_ok (Data_Remove d k)" using d by (rule Data_Remove_ok)
  show "Data_Get (Data_Remove d k) = (Data_Get d)(k := None)" by (rule Data_Get_Remove)
qed

text \<open>A sequence of Put and Remove on a session.\<close>

fun run_ops :: "(bytes, ('f, 't) val) dict_op list \<Rightarrow> ('f, 't) Data \<Rightarrow> ('f, 't) Data go" where
  "run_ops [] d = Some d"
| "run_ops (Put k v # ops) d = Option.bind (Data_Put d k v) (run_ops ops)"
| "run_ops (Del k # ops) d = run_ops ops (Data_Remove d k)"

lemma run_ops_impl: "vals_ok d \<Longrightarrow> run_ops ops d = Some (impl_run put_val Data_Remove ops d)"
proof (induction ops arbitrary: d)
  case (Cons x ops)
  then show ?case
    by (cases x) (simp_all add: impl_run_def Data_Put_ok session_vals.ok_put session_vals.ok_del)
qed (simp add: impl_run_def)



section \<open>Reachable sessions\<close>

text \<open>What the store holds for a token decodes to a map.\<close>

definition readable :: "('db, 'f, 't) Manager \<Rightarrow> bool \<Rightarrow> 'db \<Rightarrow> token \<Rightarrow> bool" where
  "readable M ctx db t \<longleftrightarrow>
     (\<forall>b. doStoreFind M ctx db t = Some (Found b) \<longrightarrow> (\<exists>c m. Decode M b = Some (c, Some m) \<and> distinct (map fst m)))"

text \<open>The steps a pooled session object goes through in its life.\<close>

inductive session_step :: "('db, 'f, 't) Manager \<Rightarrow> ('f, 't) Data \<Rightarrow> ('f, 't) Data \<Rightarrow> bool" for M where
  put: "Data_Put d k v = Some d' \<Longrightarrow> session_step M d d'"
| remember: "Data_RememberMe d b = Some d' \<Longrightarrow> session_step M d d'"
| pop: "session_step M d (snd (Data_Pop d k))"
| remove: "session_step M d (Data_Remove d k)"
| clear: "session_step M d (Data_Clear d)"
| flush: "session_step M d (Data_Flush d)"
| reset: "session_step M d (Data_reset d)"
| set_token: "Data_SetToken M rnd d t = Some (b, d') \<Longrightarrow> session_step M d d'"
| start: "readable M ctx db (token d) \<Longrightarrow> Data_Start M rnd nt ctx db d = Some (db', d', e) \<Longrightarrow> session_step M d d'"
| merge: "readable M ctx db t \<Longrightarrow> Data_MergeSession M ctx db d t = Some (db', d', e) \<Longrightarrow> session_step M d d'"
| migrate: "Data_Migrate M rnd db d destroy = Some (db', d') \<Longrightarrow> session_step M d d'"
| invalidate: "Data_Invalidate M rnd db d = Some (db', d') \<Longrightarrow> session_step M d d'"
| destroy: "Manager_Destroy M ctx db d = Some (db', d', e) \<Longrightarrow> session_step M d d'"

inductive session_reach :: "('db, 'f, 't) Manager \<Rightarrow> ('f, 't) Data \<Rightarrow> bool" for M where
  new: "session_reach M (new_Data False)"
| step: "session_reach M d \<Longrightarrow> session_step M d d' \<Longrightarrow> session_reach M d'"

lemma session_ok_new: "session_ok (new_Data False)"
  by (simp add: session_ok_def new_Data_def token_ok_def)

lemma session_ok_vals: "session_ok d \<Longrightarrow> vals_ok d"
  by (simp add: session_ok_def vals_ok_def)

lemma session_ok_put: "session_ok d \<Longrightarrow> Data_Put d k v = Some d' \<Longrightarrow> session_ok d'"
  by (auto simp: session_ok_def Data_Put_def distinct_update)

lemma session_ok_delete: "session_ok d \<Longrightarrow> session_ok (delete_val d k)"
  by (auto simp: session_ok_def delete_val_def distinct_delete)

lemma session_ok_flush: "session_ok d \<Longrightarrow> session_ok (Data_Flush d)"
  by (auto simp: session_ok_def Data_Flush_def)

lemma session_ok_migrate: "session_ok d \<Longrightarrow> Data_Migrate M rnd db d destroy = Some (db', d') \<Longrightarrow> session_ok d'"
  by (auto simp: Data_Migrate_def session_ok_def regenerate_token_ok split: bind_splits if_splits)

lemma distinct_merge: "distinct (map fst own) \<Longrightarrow> distinct (map fst other) \<Longrightarrow> distinct (map fst (merge_vals own other))"
proof -
  assume d: "distinct (map fst own)" "distinct (map fst other)"
  have "distinct (map fst (filter (\<lambda>(k, v). map_of own k = None) other))" using d(2) by (rule distinct_map_filter)
  then show ?thesis using d(1) by (auto simp: merge_vals_def map_of_eq_None_iff intro: rev_image_eqI)
qed

lemma session_ok_load:
  assumes "session_ok d" "readable M ctx db (token d)" "Data_LoadSession M ctx db d = Some (db', d', e)"
  shows "session_ok d'"
  using assms
  by (auto simp: Data_LoadSession_def readable_def session_ok_def split: option.splits found.splits prod.splits)

lemma GenerateToken2_length: "GenerateToken2 M rnd len dst = Some e \<Longrightarrow> length e = length dst"
  by (auto simp: GenerateToken2_def Let_def split: option.splits if_splits bind_splits)

lemma session_ok_start:
  assumes "session_ok d" "readable M ctx db (token d)" "Data_Start M rnd nt ctx db d = Some (db', d', e)"
  shows "session_ok d'"
proof -
  from assms(3) obtain db1 d1 e1
    where 1: "(if nt then Some (db, d, None) else Data_LoadSession M ctx db d) = Some (db1, d1, e1)"
    by (auto simp: Data_Start_def split: bind_splits)
  have 2: "d' = d1 \<or> d' = d1\<lparr>started := True\<rparr> \<or>
      (\<exists>t. d' = d1\<lparr>csrfToken := t, started := True\<rparr> \<and> length t = UrlEncodedCsrfTokenLen)"
    using assms(3) unfolding Data_Start_def 1 by (auto split: if_splits dest!: GenerateToken2_length)
  have "session_ok d1" using 1 assms session_ok_load [OF assms(1,2)] by (auto split: if_splits)
  then show ?thesis using 2 by (auto simp: session_ok_def)
qed

lemma session_ok_merge:
  assumes "session_ok d" "readable M ctx db t" "Data_MergeSession M ctx db d t = Some (db', d', e)"
  shows "session_ok d'"
  using assms distinct_merge
  by (auto simp: Data_MergeSession_def readable_def session_ok_def Let_def split: if_splits option.splits found.splits prod.splits)

lemma session_step_ok: "session_step M d d' \<Longrightarrow> session_ok d \<Longrightarrow> session_ok d'"
proof (induction rule: session_step.induct)
  case (destroy ctx db d db' d' e)
  moreover have "session_ok (d\<lparr>status := Destroyed\<rparr>)" using destroy(2) by (simp add: session_ok_def)
  ultimately show ?case using reset_token_ok by (auto simp: Manager_Destroy_def split: if_splits)
next
  case (set_token rnd d t b d')
  then show ?case
    by (auto simp: Data_SetToken_def session_ok_def regenerate_token_ok append_token_ok split: if_splits)
next
  case (clear d)
  then show ?case by (auto simp: Data_Clear_def session_ok_def)
next
  case (invalidate rnd db d db' d')
  then show ?case using session_ok_migrate [OF session_ok_flush] by (simp add: Data_Invalidate_def)
next
  case (put d k v d')
  then show ?case using session_ok_put by blast
next
  case (remember d b d')
  then show ?case using session_ok_put unfolding Data_RememberMe_def by blast
next
  case (pop d k)
  then show ?case using session_ok_delete [of d k] by (simp add: Data_Pop_def split: option.splits)
next
  case (remove d k)
  then show ?case using session_ok_delete [of d k] by (simp add: Data_Remove_def split: option.splits)
qed (rule session_ok_flush reset_token_ok session_ok_start session_ok_merge session_ok_migrate; assumption)+

lemma session_reach_ok: "session_reach M d \<Longrightarrow> session_ok d"
  by (induction rule: session_reach.induct) (auto simp: session_ok_new session_step_ok)


text \<open>A manager over an in-memory store, whose codec knows one set of values.\<close>

definition mem_manager :: "(unit, unit) vals \<Rightarrow> ((bytes \<times> bytes) list, unit, unit) Manager" where
  "mem_manager m0 =
     \<lparr>Lifetime = 60, Find = (\<lambda>db k. case map_of db k of None \<Rightarrow> Missing | Some b \<Rightarrow> Found b),
       Commit = (\<lambda>db k b e m. (AList.update k b db, False)), Delete = (\<lambda>db k. (AList.delete k db, False)), ctx_store = None,
       Encode = (\<lambda>c v. if v = Some m0 then Some c else None), Decode = (\<lambda>b. Some (b, Some m0)),
       AppendHash = SimpleHash_AppendHash, ValidateHash = SimpleHash_ValidateHash\<rparr>"


section \<open>Values survive from one request to the next\<close>

definition pool_ok :: "('f, 't) Data \<Rightarrow> bool" where
  "pool_ok d \<longleftrightarrow>
     session_ok d \<and> (\<exists>b. token d = Pooled b 0) \<and> csrfToken d = [] \<and> vals d = Some [] \<and> status d = Unmodified \<and> \<not> started d"

lemma pool_ok_new: "pool_ok (new_Data False)"
  using session_ok_new by (auto simp: pool_ok_def new_Data_def)

text \<open>What the documentation of the interface Store promises of a Commit of modified data at time \<open>now\<close>, where
  it does not fail, and what a codec does to the values.\<close>

definition store_remembers :: "('db, 'f, 't) Manager \<Rightarrow> int \<Rightarrow> bool" where
  "store_remembers M now \<longleftrightarrow>
     (\<forall>db k b. \<exists>db'. Commit M db k b (now + Lifetime M) True = (db', False) \<and> Find M db' k = Found b)"

definition codec_keeps :: "('db, 'f, 't) Manager \<Rightarrow> ('f, 't) vals \<Rightarrow> bool" where
  "codec_keeps M v \<longleftrightarrow>
     (\<forall>csrf. \<exists>b v'. Encode M csrf (Some v) = Some b \<and> Decode M b = Some (csrf, Some v') \<and> map_of v' = map_of v)"

lemma put_val_fields:
  "token (put_val d k v) = token d" "csrfToken (put_val d k v) = csrfToken d" "csrfCap (put_val d k v) = csrfCap d"
  "token (Data_Remove d k) = token d" "csrfToken (Data_Remove d k) = csrfToken d" "csrfCap (Data_Remove d k) = csrfCap d"
  by (auto simp: put_val_def Data_Put_def Data_Remove_def delete_val_def split: option.splits)

lemma run_fields:
  "token (impl_run put_val Data_Remove ops d) = token d \<and> csrfToken (impl_run put_val Data_Remove ops d) = csrfToken d \<and>
   csrfCap (impl_run put_val Data_Remove ops d) = csrfCap d"
proof (induction ops arbitrary: d)
  case (Cons x ops)
  then show ?case by (cases x) (auto simp: impl_run_def put_val_fields)
qed (simp add: impl_run_def)

lemma run_vals_cong: "vals d = vals p \<Longrightarrow> vals (impl_run put_val Data_Remove ops d) = vals (impl_run put_val Data_Remove ops p)"
proof (induction ops arbitrary: d p)
  case (Cons x ops)
  have "vals (impl_step put_val Data_Remove x d) = vals (impl_step put_val Data_Remove x p)"
    using Cons.prems
    by (cases x) (auto simp: put_val_def Data_Put_def Data_Remove_def delete_val_def Data_Get_def the_vals_def split: option.splits)
  from Cons.IH [OF this] show ?case by (simp add: impl_run_def)
qed (simp add: impl_run_def)

lemma run_modified:
  "vals_ok d \<Longrightarrow> status d = Modified \<or> (\<exists>k v. Put k v \<in> set ops) \<Longrightarrow> status (impl_run put_val Data_Remove ops d) = Modified"
proof (induction ops arbitrary: d)
  case (Cons x ops)
  have ok: "vals_ok (impl_step put_val Data_Remove x d)" using Cons.prems(1) by (rule session_vals.ok_step)
  have "status (impl_step put_val Data_Remove x d) = Modified \<or> (\<exists>k v. Put k v \<in> set ops)"
    using Cons.prems
    by (cases x) (auto simp: put_val_def Data_Put_def vals_ok_def Data_Remove_def delete_val_def split: option.splits)
  from Cons.IH [OF ok this] show ?case by (simp add: impl_run_def)
qed (simp add: impl_run_def)

text \<open>A client without a valid cookie gets a new full token and a CSRF token.\<close>

lemma new_session:
  assumes "simple_hashed M" "length r = TokenLen" "length r2 = CsrfTokenLen" "pool_ok p"
  obtains t c where "getSession M (Some r) p [] = Some (True, p\<lparr>token := t\<rparr>)" "full_token t" "isValidToken M (tok_bytes t)"
    "Data_Start M (Some r2) True False db (p\<lparr>token := t\<rparr>) = Some (db, p\<lparr>token := t, csrfToken := c, started := True\<rparr>, None)"
    "length c = UrlEncodedCsrfTokenLen"
proof -
  obtain t where t: "regenerate M (Some r) (token p) = Some t" "full_token t" "isValidToken M (tok_bytes t)"
    using token_ok_regenerate [of "token p" M r] assms by (auto simp: pool_ok_def session_ok_def)
  obtain c where c: "GenerateToken2 M (Some r2) AppendHashCsrfTokenLen (replicate UrlEncodedCsrfTokenLen (mk_byte 0)) = Some c"
    "length c = UrlEncodedCsrfTokenLen" using csrf_generated [OF assms(1,3)] by blast
  show ?thesis
    using assms(4) t c
    by (intro that [of t c]) (auto simp: getSession_def Data_SetToken_def Data_Start_def pool_ok_def session_ok_def)
qed

text \<open>A client that sends a full token finds the session that was committed under it.\<close>

lemma stored_session:
  assumes "full_token t" "isValidToken M (tok_bytes t)" "pool_ok q"
    and "Find M db (sessionPrefix @ tok_bytes t) = Found b" "Decode M b = Some (c, Some v)" "c \<noteq> []"
  shows "\<exists>d0 d. getSession M r q (tok_bytes t) = Some (False, d0) \<and>
           Data_Start M r2 False False db d0 = Some (db, d, None) \<and> vals d = Some v \<and> csrfToken d = c \<and> tok_bytes (token d) = tok_bytes t"
proof -
  obtain s where s: "tok_bytes t = s" "length s = UrlEncodedTokenLen" "s \<noteq> []"
    using assms(1) by (cases t) (force simp: full_token_def tok_bytes_def token_lengths)+
  obtain bf where q: "token q = Pooled bf 0" "length bf = UrlEncodedTokenLen"
    using assms(3) by (auto simp: pool_ok_def session_ok_def token_ok_def)
  have "append_token (token q) s = Pooled s UrlEncodedTokenLen" using q s by (simp add: append_token_def overwrite_def)
  then show ?thesis
    using assms s
    by (simp add: getSession_def Data_SetToken_def Data_Start_def Data_LoadSession_def doStoreFind_def tokenWithPrefix_def tok_bytes_def)
qed

lemma pool_ok_reset:
  "session_ok d \<Longrightarrow> full_token (token d) \<Longrightarrow> pool_ok (Data_reset d)"
  using reset_token_ok [of d] by (auto simp: pool_ok_def Data_reset_def full_token_def session_ok_def split: token.splits)

lemma addCookie_value: "\<exists>ck. addCookieToResponse cfg s rm = SetCookie ck \<and> cValue ck = s \<and> \<not> httpOnly ck"
  by (auto simp: addCookieToResponse_def Let_def Cookie_SetValue_def Cookie_SetKey_def Cookie_SetPath_def Cookie_SetDomain_def
      Cookie_SetSecure_def Cookie_SetHTTPOnly_def Cookie_SetSameSite_def Cookie_SetMaxAge_def AcquireCookie_def)

text \<open>A handler that runs operations on the empty session of a new visitor.\<close>

lemma run_ops_fresh:
  assumes "vals d1 = Some []" and "d2 = impl_run put_val Data_Remove ops d1"
  shows "run_ops ops d1 = Some d2" and "vals_ok d2" and "vals d2 = Some (the_vals d2)"
    and "map_of (the_vals d2) = spec_run ops Map.empty"
    and "token d2 = token d1" and "csrfToken d2 = csrfToken d1" and "csrfCap d2 = csrfCap d1"
    and "Put k v \<in> set ops \<Longrightarrow> status d2 = Modified"
proof -
  have ok1: "vals_ok d1" using assms(1) by (simp add: vals_ok_def)
  have run: "run_ops ops d1 = Some d2" "vals_ok d2" "Data_Get d2 = spec_run ops (Data_Get d1)"
    using run_ops_impl [OF ok1] session_vals.run_refines [OF ok1] by (simp_all add: assms(2))
  then show "run_ops ops d1 = Some d2" "vals_ok d2" by auto
  show "vals d2 = Some (the_vals d2)" using run(2) by (auto simp: vals_ok_def the_vals_def)
  have "Data_Get d1 = Map.empty" using assms(1) by (simp add: fun_eq_iff Data_Get_def the_vals_def)
  with run show "map_of (the_vals d2) = spec_run ops Map.empty" by (simp add: Data_Get_def [abs_def])
  show "token d2 = token d1" "csrfToken d2 = csrfToken d1" "csrfCap d2 = csrfCap d1"
    using run_fields [of ops d1] by (simp_all add: assms(2))
  show "Put k v \<in> set ops \<Longrightarrow> status d2 = Modified" using run_modified [OF ok1, of ops] by (auto simp: assms(2))
qed



section \<open>Renewing and destroying a session\<close>

text \<open>What the documentation of Store promises of Delete, and that a Commit changes no other session.\<close>

definition store_forgets :: "('db, 'f, 't) Manager \<Rightarrow> bool" where
  "store_forgets M \<longleftrightarrow> (\<forall>db k. \<exists>db'. Delete M db k = (db', False) \<and> Find M db' k = Missing)"

definition commit_local :: "('db, 'f, 't) Manager \<Rightarrow> bool" where
  "commit_local M \<longleftrightarrow> (\<forall>db k k' b e m. k \<noteq> k' \<longrightarrow> Find M (fst (Commit M db k b e m)) k' = Find M db k')"



text \<open>a handler that destroys the session does not end it. Destroy resets the status it has just set, so
  the middleware takes the session for a live one: it commits it again under the deleted key and
  answers with a cookie of that name whose value is empty, where it should delete the cookie.\<close>

theorem Destroy_recreates_session:
  assumes "Data_Start M rnd newToken False db d = Some (db0, d1, None)" and "full_token (token d1)" and "vals d1 = Some m"
    and "Delete M db0 (sessionPrefix @ tok_bytes (token d1)) = (db1, False)" and "Encode M [] (Some []) = Some b"
    and "Commit M db1 (sessionPrefix @ tok_bytes (token d1)) b (now + Lifetime M) False = (db2, False)"
  shows "\<exists>d2 ck. handleStatefulRequest M cfg now rnd newToken
             (\<lambda>db d. map_option (\<lambda>(db', d', e). (db', d', e)) (Manager_Destroy M False db d)) db d =
             Some (db2, d2, SetCookie ck, None) \<and> cValue ck = []"
proof -
  obtain bf where tk: "token d1 = Pooled bf UrlEncodedTokenLen" "length bf = UrlEncodedTokenLen"
    using assms(2) by (cases "token d1") (auto simp: full_token_def)
  define d2 where "d2 = Data_reset (d1\<lparr>status := Destroyed\<rparr>)"
  have "Manager_Destroy M False db0 d1 = Some (db1, d2, None)"
    using full_token_key [OF assms(2)] assms(4) by (simp add: Manager_Destroy_def doStoreDelete_def d2_def)
  moreover have d2: "token d2 = Pooled bf 0" "csrfToken d2 = []" "vals d2 = Some []" "status d2 = Unmodified"
    using tk assms(3) by (simp_all add: d2_def Data_reset_def)
  moreover have "tok_bytes (token d1) = bf" using tk by (simp add: tok_bytes_def)
  then have "Manager_Commit M False now db1 d2 = Some (db2, None)"
    using assms(5,6) d2 by (simp add: Manager_Commit_def doStoreCommit_def tokenWithPrefix_def)
  moreover obtain ck where "addCookieToResponse cfg (tok_bytes (token d2)) (Data_GetBool d2 ''__rememberMe'') = SetCookie ck"
    "cValue ck = tok_bytes (token d2)" using addCookie_value by blast
  ultimately show ?thesis using assms(1) by (auto simp: handleStatefulRequest_def tok_bytes_def)
qed

theorem Destroy_recreates_session_witness:
  "\<exists>d2 ck. handleStatefulRequest (mem_manager []) \<lparr>CokName = ''sid'', CokPath = [], CokDomain = [], CokSecure = False,
        DisableCokHttpHttpOnly = False, DisableCokPersist = False, CokSameSite = CookieSameSiteLaxMode, LifetimeSeconds = 60\<rparr> 0
        None False (\<lambda>db d. map_option (\<lambda>(db', d', e). (db', d', e)) (Manager_Destroy (mem_manager []) False db d))
        [(sessionPrefix @ replicate UrlEncodedTokenLen CHR ''x'', ''csrf'')]
        ((new_Data False)\<lparr>token := Pooled (replicate UrlEncodedTokenLen CHR ''x'') UrlEncodedTokenLen\<rparr>) =
     Some ([(sessionPrefix @ replicate UrlEncodedTokenLen CHR ''x'', [])], d2, SetCookie ck, None) \<and> cValue ck = []"
proof -
  let ?x = "replicate UrlEncodedTokenLen CHR ''x''"
  let ?d = "(new_Data False)\<lparr>token := Pooled ?x UrlEncodedTokenLen\<rparr> :: (unit, unit) Data"
  let ?d1 = "?d\<lparr>csrfToken := ''csrf'', vals := Some [], started := True\<rparr>"
  let ?db = "[(sessionPrefix @ ?x, ''csrf'')]"
  have "Data_Start (mem_manager []) None False False ?db ?d = Some (?db, ?d1, None)"
    by (simp add: Data_Start_def Data_LoadSession_def doStoreFind_def tokenWithPrefix_def mem_manager_def new_Data_def token_lengths)
  moreover have "full_token (token ?d1)" "vals ?d1 = Some []" by (simp_all add: full_token_def)
  moreover have x: "tok_bytes (token ?d1) = ?x" by (simp add: tok_bytes_def)
  have "Delete (mem_manager []) ?db (sessionPrefix @ tok_bytes (token ?d1)) = ([], False)"
    unfolding x by (simp add: mem_manager_def)
  moreover have "Encode (mem_manager []) [] (Some []) = Some []" by (simp add: mem_manager_def)
  moreover have "Commit (mem_manager []) [] (sessionPrefix @ tok_bytes (token ?d1)) [] (0 + Lifetime (mem_manager [])) False =
      ([(sessionPrefix @ ?x, [])], False)" unfolding x by (simp add: mem_manager_def)
  ultimately show ?thesis by (rule Destroy_recreates_session)
qed

section \<open>Panics\<close>

text \<open>RegenerateCsrfToken passes a destination of length zero, and so it and Regenerate panic for every
  session and every outcome of the random generator.\<close>

theorem RegenerateCsrfToken_panics:
  assumes "simple_hashed M"
  shows "Data_RegenerateCsrfToken M rnd d = None \<and> Data_Regenerate M rnd' rnd db d destroy = None"
proof -
  have "GenerateToken2 M rnd CsrfTokenLen [] = None"
  proof (cases "GenerateToken2 M rnd CsrfTokenLen []")
    case (Some e)
    then obtain r raw where "SimpleHash_AppendHash (r @ replicate 2 (mk_byte 0)) = Some raw" "RawURL_Encode raw = []" "length r = 18"
      using assms by (auto simp: GenerateToken2_def simple_hashed_def token_lengths Let_def split: option.splits if_splits bind_splits)
    moreover have "length raw = length r + 2"
      using SimpleHash_appended [of "r @ replicate 2 (mk_byte 0)"] calculation by auto
    ultimately show ?thesis using length_RawURL_Encode [of raw] by (simp add: RawURL_EncodedLen_def)
  qed
  then show ?thesis by (auto simp: Data_RegenerateCsrfToken_def Data_Regenerate_def split: bind_splits)
qed

text \<open>A stored session that does not decode makes the start of the session panic: the failed decoding has
  replaced the buffer of the CSRF token by a nil slice.\<close>

theorem corrupt_session_panics:
  assumes "full_token (token d)" and "Find M db (sessionPrefix @ tok_bytes (token d)) = Found b" and "Decode M b = None"
  shows "Data_Start M rnd False False db d = None"
  using assms full_token_key [OF assms(1)]
  by (simp add: Data_Start_def Data_LoadSession_def doStoreFind_def token_lengths)

end
