(* ===== verification/Redis.thy ===== *)
theory Redis
  imports Session_Correct
begin

text \<open>
  The Redis store of sessions (src/fasthttp-routing/middleware/session/redisstore/redisstore.go). The
  client library is not part of the repository: its commands are the fields of \<open>redis\<close>, and what the
  documentation of Redis says of them is the predicate \<open>documented\<close>. Times are nanoseconds; commands
  take seconds.
\<close>

section \<open>The client\<close>

text \<open>A reply that is neither nil nor a string is \<open>GetOther\<close>. A boolean result is true for an error.\<close>

datatype get_reply = GetError | GetNil | GetOther | GetBytes bytes

record 'db redis =
  GET :: "'db \<Rightarrow> bytes \<Rightarrow> get_reply"
  SET_EXAT :: "'db \<Rightarrow> bytes \<Rightarrow> bytes \<Rightarrow> int \<Rightarrow> 'db \<times> bool"
  EXPIREAT :: "'db \<Rightarrow> bytes \<Rightarrow> int \<Rightarrow> 'db \<times> int option"
  DEL :: "'db \<Rightarrow> bytes \<Rightarrow> 'db \<times> bool"
  UNLINK :: "'db \<Rightarrow> bytes \<Rightarrow> 'db \<times> bool"
  SCAN :: "'db \<Rightarrow> nat \<Rightarrow> bytes \<Rightarrow> (nat \<times> bytes list) option"
  MGET :: "'db \<Rightarrow> bytes list \<Rightarrow> bytes list option"

definition Unix :: "int \<Rightarrow> int" where
  "Unix t = t div 10 ^ 9"

section \<open>The store\<close>

definition NewPrefix :: bytes where "NewPrefix = ''scs:session:''"

definition RedisStore_Find :: "'db redis \<Rightarrow> 'db \<Rightarrow> bytes \<Rightarrow> found" where
  "RedisStore_Find r db tokenWP =
     (case GET r db tokenWP of
        GetNil \<Rightarrow> Missing | GetError \<Rightarrow> StoreFailure | GetOther \<Rightarrow> StoreFailure | GetBytes b \<Rightarrow> Found b)"

definition RedisStore_FindCtx :: "'db redis \<Rightarrow> bytes \<Rightarrow> 'db \<Rightarrow> bytes \<Rightarrow> found" where
  "RedisStore_FindCtx r pre db tokenWP =
     (case GET r db (pre @ tokenWP) of
        GetNil \<Rightarrow> Missing | GetError \<Rightarrow> StoreFailure | GetOther \<Rightarrow> StoreFailure | GetBytes b \<Rightarrow> Found b)"

definition RedisStore_Commit :: "'db redis \<Rightarrow> 'db \<Rightarrow> bytes \<Rightarrow> bytes \<Rightarrow> int \<Rightarrow> bool \<Rightarrow> 'db \<times> bool" where
  "RedisStore_Commit r db tokenWP encodedData expiry modified =
     (if \<not> modified then
        case EXPIREAT r db tokenWP (Unix expiry) of
          (db', None) \<Rightarrow> (db', True)
        | (db', Some cnt) \<Rightarrow>
            if cnt \<noteq> 0 then (db', False) else SET_EXAT r db' tokenWP encodedData (Unix expiry)
      else SET_EXAT r db tokenWP encodedData (Unix expiry))"

definition RedisStore_CommitCtx :: "'db redis \<Rightarrow> 'db \<Rightarrow> bytes \<Rightarrow> bytes \<Rightarrow> int \<Rightarrow> bool \<Rightarrow> 'db \<times> bool" where
  "RedisStore_CommitCtx r db tokenWP encodedData expiry modified =
     (if \<not> modified then
        case EXPIREAT r db tokenWP (Unix expiry) of
          (db', None) \<Rightarrow> (db', True)
        | (db', Some cnt) \<Rightarrow>
            if cnt \<noteq> 0 then (db', False) else SET_EXAT r db' tokenWP encodedData (Unix expiry)
      else SET_EXAT r db tokenWP encodedData (Unix expiry))"

definition RedisStore_Delete :: "'db redis \<Rightarrow> bytes \<Rightarrow> 'db \<Rightarrow> bytes \<Rightarrow> 'db \<times> bool" where
  "RedisStore_Delete r pre db tokenWP =
     (case UNLINK r db (pre @ tokenWP) of
        (db', True) \<Rightarrow> DEL r db' (pre @ tokenWP)
      | (db', False) \<Rightarrow> (db', False))"

definition RedisStore_DeleteCtx :: "'db redis \<Rightarrow> 'db \<Rightarrow> bytes \<Rightarrow> 'db \<times> bool" where
  "RedisStore_DeleteCtx r db tokenWP = DEL r db tokenWP"

text \<open>The entries of one page: values that are empty are skipped, the prefix is cut off the keys.\<close>

definition add_page :: "bytes \<Rightarrow> bytes list \<Rightarrow> bytes list \<Rightarrow> (bytes \<times> bytes) list \<Rightarrow> (bytes \<times> bytes) list" where
  "add_page pre elems sega all =
     fold (\<lambda>(k, v) m. if v = [] then m else AList.update (drop (length pre) k) v m) (zip elems sega) all"

text \<open>The scan loops may not end: then the result is \<open>None\<close>. An error of the client is \<open>Inl ()\<close>.\<close>

partial_function (option) all_loop ::
    "'db redis \<Rightarrow> bytes \<Rightarrow> 'db \<Rightarrow> nat \<Rightarrow> (bytes \<times> bytes) list \<Rightarrow> (unit + (bytes \<times> bytes) list) option" where
  "all_loop r pre db cursor all =
     (case SCAN r db cursor (pre @ ''*'') of
        None \<Rightarrow> Some (Inl ())
      | Some (cursor', elems) \<Rightarrow>
          if cursor' = 0 then Some (Inr all)
          else if elems = [] then all_loop r pre db cursor' all
          else case MGET r db elems of
                 None \<Rightarrow> Some (Inl ())
               | Some sega \<Rightarrow> all_loop r pre db cursor' (add_page pre elems sega all))"

partial_function (option) all_ctx_loop ::
    "'db redis \<Rightarrow> bytes \<Rightarrow> 'db \<Rightarrow> nat \<Rightarrow> (bytes \<times> bytes) list \<Rightarrow> (unit + (bytes \<times> bytes) list) option" where
  "all_ctx_loop r pre db cursor all =
     (case SCAN r db cursor (pre @ ''*'') of
        None \<Rightarrow> Some (Inl ())
      | Some (cursor', elems) \<Rightarrow>
          if elems = [] then all_ctx_loop r pre db cursor all
          else case MGET r db elems of
                 None \<Rightarrow> Some (Inl ())
               | Some sega \<Rightarrow>
                   if cursor' = 0 then Some (Inr (add_page pre elems sega all))
                   else all_ctx_loop r pre db cursor' (add_page pre elems sega all))"

definition RedisStore_All :: "'db redis \<Rightarrow> bytes \<Rightarrow> 'db \<Rightarrow> (unit + (bytes \<times> bytes) list) option" where
  "RedisStore_All r pre db = all_loop r pre db 0 []"

definition RedisStore_AllCtx :: "'db redis \<Rightarrow> bytes \<Rightarrow> 'db \<Rightarrow> (unit + (bytes \<times> bytes) list) option" where
  "RedisStore_AllCtx r pre db = all_ctx_loop r pre db 0 []"

text \<open>A manager that uses the store.\<close>

definition redis_manager :: "'db redis \<Rightarrow> bytes \<Rightarrow> ('db, 'f, 't) Manager \<Rightarrow> ('db, 'f, 't) Manager" where
  "redis_manager r pre M =
     M\<lparr>Find := RedisStore_Find r, Commit := RedisStore_Commit r, Delete := RedisStore_Delete r pre,
       ctx_store := Some \<lparr>FindCtx = RedisStore_FindCtx r pre, CommitCtx = RedisStore_CommitCtx r, DeleteCtx = RedisStore_DeleteCtx r\<rparr>\<rparr>"

section \<open>What Redis documents\<close>

text \<open>\<open>live t\<close>: the time \<open>t\<close> has not passed.\<close>

definition documented :: "'db redis \<Rightarrow> (int \<Rightarrow> bool) \<Rightarrow> bool" where
  "documented r live \<longleftrightarrow>
     (\<forall>db k v t. live t \<longrightarrow> (\<exists>db'. SET_EXAT r db k v t = (db', False) \<and> GET r db' = (GET r db)(k := GetBytes v))) \<and>
     (\<forall>db k t. live t \<longrightarrow>
        (\<exists>db'. EXPIREAT r db k t = (db', Some (if GET r db k = GetNil then 0 else 1)) \<and> GET r db' = GET r db)) \<and>
     (\<forall>db k. \<exists>db'. DEL r db k = (db', False) \<and> GET r db' = (GET r db)(k := GetNil)) \<and>
     (\<forall>db k. \<exists>db'. UNLINK r db k = (db', False) \<and> GET r db' = (GET r db)(k := GetNil))"

text \<open>The Redis store keeps the promise of the interface for Commit: modified data is found again
  under its key, unmodified data leaves what is stored and is stored where nothing is, and no other
  key is touched. With it, sessions survive from one request to the next.\<close>

theorem redis_commit_correct:
  assumes "documented r live" and "live (Unix (now + Lifetime M))"
  shows "store_remembers (redis_manager r pre M) now \<and>
     (\<forall>db k b. \<exists>db'. RedisStore_Commit r db k b (now + Lifetime M) False = (db', False) \<and>
        RedisStore_Find r db' k = (if RedisStore_Find r db k = Missing then Found b else RedisStore_Find r db k) \<and>
        (\<forall>k'. k' \<noteq> k \<longrightarrow> RedisStore_Find r db' k' = RedisStore_Find r db k'))"
proof -
  let ?t = "Unix (now + Lifetime M)"
  have set: "\<exists>db'. SET_EXAT r db k v ?t = (db', False) \<and> GET r db' = (GET r db)(k := GetBytes v)" for db k v
    using assms unfolding documented_def by blast
  have exp: "\<exists>db'. EXPIREAT r db k ?t = (db', Some (if GET r db k = GetNil then 0 else 1)) \<and> GET r db' = GET r db" for db k
    using assms unfolding documented_def by blast
  have "store_remembers (redis_manager r pre M) now"
    unfolding store_remembers_def
  proof (intro allI)
    fix db k b
    from set [of db k b] show "\<exists>db'. Commit (redis_manager r pre M) db k b (now + Lifetime (redis_manager r pre M)) True = (db', False) \<and>
        Find (redis_manager r pre M) db' k = Found b"
      by (auto simp: redis_manager_def RedisStore_Commit_def RedisStore_Find_def)
  qed
  moreover have "\<exists>db'. RedisStore_Commit r db k b (now + Lifetime M) False = (db', False) \<and>
      RedisStore_Find r db' k = (if RedisStore_Find r db k = Missing then Found b else RedisStore_Find r db k) \<and>
      (\<forall>k'. k' \<noteq> k \<longrightarrow> RedisStore_Find r db' k' = RedisStore_Find r db k')" for db k b
  proof -
    obtain db1 where e: "EXPIREAT r db k ?t = (db1, Some (if GET r db k = GetNil then 0 else 1))" "GET r db1 = GET r db"
      using exp by blast
    obtain db2 where s: "SET_EXAT r db1 k b ?t = (db2, False)" "GET r db2 = (GET r db1)(k := GetBytes b)" using set by blast
    show ?thesis
      using e s by (cases "GET r db k") (auto simp: RedisStore_Commit_def RedisStore_Find_def)
  qed
  ultimately show ?thesis by blast
qed

text \<open>An in-memory Redis, to show that the documentation can be met.\<close>

definition mem_redis :: "((bytes \<times> bytes) list) redis" where
  "mem_redis =
     \<lparr>GET = (\<lambda>db k. case map_of db k of None \<Rightarrow> GetNil | Some b \<Rightarrow> GetBytes b),
       SET_EXAT = (\<lambda>db k v t. (AList.update k v db, False)),
       EXPIREAT = (\<lambda>db k t. (db, Some (if map_of db k = None then 0 else 1))),
       DEL = (\<lambda>db k. (AList.delete k db, False)), UNLINK = (\<lambda>db k. (AList.delete k db, False)),
       SCAN = (\<lambda>db c p. Some (0, map fst db)), MGET = (\<lambda>db ks. Some (map (\<lambda>k. case map_of db k of None \<Rightarrow> [] | Some v \<Rightarrow> v) ks))\<rparr>"

lemma mem_redis_documented: "documented mem_redis live"
  by (auto simp: documented_def mem_redis_def update_conv' delete_conv' fun_eq_iff split: option.splits)

theorem redis_commit_correct_witness:
  "store_remembers (redis_manager mem_redis NewPrefix (mem_manager [])) 0 \<and>
   RedisStore_Find mem_redis (fst (RedisStore_Commit mem_redis [] ''k'' ''v'' 60 False)) ''k'' = Found ''v''"
proof -
  have "Lifetime (mem_manager []) = 60" by (simp add: mem_manager_def)
  note L = this
  note R = redis_commit_correct [OF mem_redis_documented [of "\<lambda>t. True"] TrueI, where now = 0 and M = "mem_manager []" and pre = NewPrefix]
  have "RedisStore_Find mem_redis [] ''k'' = Missing" by (simp add: RedisStore_Find_def mem_redis_def)
  then have "RedisStore_Find mem_redis (fst (RedisStore_Commit mem_redis [] ''k'' ''v'' 60 False)) ''k'' = Found ''v''"
    using R [THEN conjunct2, THEN spec, of "[]", THEN spec, of "''k''", THEN spec, of "''v''"] L by auto
  with R show ?thesis by blast
qed

text \<open>Delete puts the prefix in front of a key that has it already, so it removes nothing: the data of
  a session that was deleted, for instance by RenewToken or Destroy, is found again under its key. The
  variants that take a context have the defect in Find: it does not find what CommitCtx stored.\<close>

theorem redis_delete_ineffective:
  assumes "documented r live" and "pre \<noteq> []" and "live (Unix expiry)"
  shows "snd (RedisStore_Delete r pre db k) = False \<and>
     RedisStore_Find r (fst (RedisStore_Delete r pre db k)) k = RedisStore_Find r db k \<and>
     RedisStore_FindCtx r pre (fst (RedisStore_CommitCtx r db k b expiry True)) k = RedisStore_FindCtx r pre db k"
proof -
  obtain db1 where "UNLINK r db (pre @ k) = (db1, False)" "GET r db1 = (GET r db)(pre @ k := GetNil)"
    using assms(1) unfolding documented_def by blast
  moreover obtain db2 where "SET_EXAT r db k b (Unix expiry) = (db2, False)" "GET r db2 = (GET r db)(k := GetBytes b)"
    using assms(1,3) unfolding documented_def by blast
  ultimately show ?thesis
    using assms(2) by (simp add: RedisStore_Delete_def RedisStore_Find_def RedisStore_FindCtx_def RedisStore_CommitCtx_def)
qed

theorem redis_delete_ineffective_witness:
  "RedisStore_Find mem_redis (fst (RedisStore_Delete mem_redis NewPrefix [(''scs:session:t'', ''data'')] ''scs:session:t'')) ''scs:session:t'' =
     Found ''data''"
  using redis_delete_ineffective [OF mem_redis_documented [of "\<lambda>t. True"], where pre = NewPrefix and expiry = 0 and
      db = "[(''scs:session:t'', ''data'')]" and k = "''scs:session:t''"]
  by (simp add: NewPrefix_def RedisStore_Find_def mem_redis_def)

text \<open>The page that ends the scan is dropped by All: if all keys fit into one page, as up to a thousand do,
  no session is found. AllCtx asks for the same page again when a page is empty, which a scan may
  always return, and never ends.\<close>

theorem redis_all_drops_last_page:
  assumes "SCAN r db 0 (pre @ ''*'') = Some (0, elems)"
  shows "RedisStore_All r pre db = Some (Inr [])"
  using assms by (simp add: RedisStore_All_def all_loop.simps)

theorem redis_all_ctx_loops:
  assumes "SCAN r db 0 (pre @ ''*'') = Some (c, [])"
  shows "RedisStore_AllCtx r pre db = None"
proof -
  have "\<not> (cursor = 0 \<and> r' = r \<and> db' = db \<and> pre' = pre)"
    if "all_ctx_loop r' pre' db' cursor all = Some y" for r' pre' db' cursor all y
    by (rule all_ctx_loop.raw_induct [of "\<lambda>r' pre' db' cursor all y. \<not> (cursor = 0 \<and> r' = r \<and> db' = db \<and> pre' = pre)", OF _ that])
      (use assms in \<open>auto split: option.splits prod.splits if_splits\<close>)
  then show ?thesis unfolding RedisStore_AllCtx_def by (cases "all_ctx_loop r pre db 0 []") blast+
qed

end
