(* ===== verification/Cors.thy ===== *)
theory Cors
  imports Args
begin

text \<open>
  The CORS middleware (src/fasthttp-routing/middleware/cors). The header setters it calls belong to the
  release of the HTTP library it is built with, which is not the one in this repository; they are the
  fields of \<open>header_ops\<close>, with the laws of the locale \<open>header_laws\<close>. The argument list operations of
  src/fasthttp/args.go, on which the headers of the library in this repository are built, satisfy them.
  A regular expression is a predicate. \<open>None\<close> is a nil slice, \<open>Some []\<close> an empty one that is not nil.
\<close>

section \<open>Headers\<close>

record 'h header_ops =
  h_set :: "'h \<Rightarrow> bytes \<Rightarrow> bytes \<Rightarrow> 'h"
  h_add :: "'h \<Rightarrow> bytes \<Rightarrow> bytes \<Rightarrow> 'h"
  h_peek :: "'h \<Rightarrow> bytes \<Rightarrow> bytes option"

definition AllowOrigin :: bytes where "AllowOrigin = ''Access-Control-Allow-Origin''"
definition AllowCredentials :: bytes where "AllowCredentials = ''Access-Control-Allow-Credentials''"
definition AllowMethods :: bytes where "AllowMethods = ''Access-Control-Allow-Methods''"
definition AllowHeaders :: bytes where "AllowHeaders = ''Access-Control-Allow-Headers''"
definition ExposeHeaders :: bytes where "ExposeHeaders = ''Access-Control-Expose-Headers''"
definition MaxAgeHeader :: bytes where "MaxAgeHeader = ''Access-Control-Max-Age''"
definition RequestMethod :: bytes where "RequestMethod = ''Access-Control-Request-Method''"
definition RequestHeaders :: bytes where "RequestHeaders = ''Access-Control-Request-Headers''"
definition Vary :: bytes where "Vary = ''Vary''"
definition OriginHeader :: bytes where "OriginHeader = ''Origin''"

lemmas header_names = AllowOrigin_def AllowCredentials_def AllowMethods_def AllowHeaders_def ExposeHeaders_def
  MaxAgeHeader_def RequestMethod_def RequestHeaders_def Vary_def OriginHeader_def

section \<open>Configuration and request\<close>

record cors_cfg =
  PathPrefixes :: "bytes list"
  AllowedMethods :: "bytes option"
  AllowedOrigins :: "bytes list option"
  AllowedHeaders :: "bytes option"
  ExposedHeaders :: bytes
  MaxAge :: bytes
  SupportsCredentials :: bool
  AllowedOriginsPatterns :: "(bytes \<Rightarrow> bool) list"

text \<open>What the middleware reads of a request: the method, the path and three headers.\<close>

record request =
  rMethod :: bytes
  rPath :: bytes
  rOrigin :: "bytes option"
  rReqMethod :: "bytes option"
  rReqHeaders :: "bytes option"

abbreviation slen :: "bytes option \<Rightarrow> nat" where
  "slen s \<equiv> (case s of None \<Rightarrow> 0 | Some b \<Rightarrow> length b)"

definition nil_bytes :: "bytes option \<Rightarrow> bytes" where
  "nil_bytes s = (case s of None \<Rightarrow> [] | Some b \<Rightarrow> b)"

definition origins :: "cors_cfg \<Rightarrow> bytes list" where
  "origins cfg = (case AllowedOrigins cfg of None \<Rightarrow> [] | Some l \<Rightarrow> l)"

section \<open>The middleware\<close>

definition hasMatchingPath :: "cors_cfg \<Rightarrow> request \<Rightarrow> bool" where
  "hasMatchingPath cfg r =
     (if length (PathPrefixes cfg) = 0 then False
      else if PathPrefixes cfg ! 0 = ''*'' then True
      else \<exists>p\<in>set (PathPrefixes cfg). HasPrefix (rPath r) p)"

definition isPreflightRequest :: "request \<Rightarrow> bool" where
  "isPreflightRequest r \<longleftrightarrow> rMethod r = ''OPTIONS'' \<and> slen (rReqMethod r) \<noteq> 0"

definition isOriginAllowed :: "cors_cfg \<Rightarrow> request \<Rightarrow> bool" where
  "isOriginAllowed cfg r =
     (if length (origins cfg) = 0 \<and> AllowedOrigins cfg \<noteq> None then True
      else if nil_bytes (rOrigin r) \<in> set (origins cfg) then True
      else \<exists>p\<in>set (AllowedOriginsPatterns cfg). p (nil_bytes (rOrigin r)))"

definition configureAllowedOrigin :: "'h header_ops \<Rightarrow> cors_cfg \<Rightarrow> request \<Rightarrow> 'h \<Rightarrow> 'h" where
  "configureAllowedOrigin H cfg r h =
     (if length (origins cfg) = 0 \<and> AllowedOrigins cfg \<noteq> None \<and> \<not> SupportsCredentials cfg then h_set H h AllowOrigin ''*''
      else if length (origins cfg) = 1 \<and> origins cfg ! 0 = ''*'' \<and> length (AllowedOriginsPatterns cfg) = 0 then
        (case rOrigin r of None \<Rightarrow> h | Some o' \<Rightarrow> h_set H h AllowOrigin o')
      else
        let h1 = (if slen (rOrigin r) \<noteq> 0 \<and> isOriginAllowed cfg r
                  then case rOrigin r of None \<Rightarrow> h | Some o' \<Rightarrow> h_set H h AllowOrigin o'
                  else h)
        in h_add H h1 Vary OriginHeader)"

definition configureAllowedMethods :: "'h header_ops \<Rightarrow> cors_cfg \<Rightarrow> request \<Rightarrow> 'h \<Rightarrow> 'h" where
  "configureAllowedMethods H cfg r h =
     (let echo = (slen (AllowedMethods cfg) = 0 \<and> AllowedMethods cfg \<noteq> None);
          allow = (if echo then rReqMethod r else AllowedMethods cfg);
          h1 = (if echo then h_add H h Vary RequestMethod else h)
      in if slen allow \<noteq> 0 then h_set H h1 AllowMethods (nil_bytes allow) else h1)"

definition configureAllowedHeaders :: "'h header_ops \<Rightarrow> cors_cfg \<Rightarrow> request \<Rightarrow> 'h \<Rightarrow> 'h" where
  "configureAllowedHeaders H cfg r h =
     (let echo = (slen (AllowedHeaders cfg) = 0 \<and> AllowedHeaders cfg \<noteq> None);
          allow = (if echo then rReqHeaders r else AllowedHeaders cfg);
          h1 = (if echo then h_add H h Vary RequestHeaders else h)
      in if slen allow \<noteq> 0 then h_set H h1 AllowHeaders (nil_bytes allow) else h1)"

definition addPreflightRequestHeaders :: "'h header_ops \<Rightarrow> cors_cfg \<Rightarrow> request \<Rightarrow> 'h \<Rightarrow> 'h" where
  "addPreflightRequestHeaders H cfg r h =
     (let h1 = configureAllowedOrigin H cfg r h
      in if slen (h_peek H h1 AllowOrigin) = 0 then h1
         else
           let h2 = (if SupportsCredentials cfg then h_set H h1 AllowCredentials ''true'' else h1);
               h3 = configureAllowedHeaders H cfg r (configureAllowedMethods H cfg r h2)
           in if length (MaxAge cfg) \<noteq> 0 then h_set H h3 MaxAgeHeader (MaxAge cfg) else h3)"

definition addActualRequestHeaders :: "'h header_ops \<Rightarrow> cors_cfg \<Rightarrow> request \<Rightarrow> 'h \<Rightarrow> 'h" where
  "addActualRequestHeaders H cfg r h =
     (let h1 = configureAllowedOrigin H cfg r h
      in if slen (h_peek H h1 AllowOrigin) \<noteq> 0 then
           let h2 = (if SupportsCredentials cfg then h_set H h1 AllowCredentials ''true'' else h1)
           in if length (ExposedHeaders cfg) \<noteq> 0 then h_set H h2 ExposeHeaders (ExposedHeaders cfg) else h2
         else h1)"

text \<open>A response is its status and its headers; the rest of the chain maps a response to a response and an
  error.\<close>

definition handlePreflightRequest :: "'h header_ops \<Rightarrow> cors_cfg \<Rightarrow> request \<Rightarrow> nat \<times> 'h \<Rightarrow> nat \<times> 'h" where
  "handlePreflightRequest H cfg r resp = (204, addPreflightRequestHeaders H cfg r (snd resp))"

definition cors_handler ::
    "'h header_ops \<Rightarrow> cors_cfg \<Rightarrow> (request \<Rightarrow> bool) option \<Rightarrow> (nat \<times> 'h \<Rightarrow> (nat \<times> 'h) \<times> 'e option) \<Rightarrow>
     request \<Rightarrow> nat \<times> 'h \<Rightarrow> (nat \<times> 'h) \<times> 'e option" where
  "cors_handler H cfg skip chain r resp =
     (if (case skip of None \<Rightarrow> False | Some s \<Rightarrow> s r) then chain resp
      else if \<not> hasMatchingPath cfg r then chain resp
      else if isPreflightRequest r then
        let (st, h) = handlePreflightRequest H cfg r resp in ((st, h_add H h Vary RequestMethod), None)
      else
        let ((st, h), err) = chain resp;
            h1 = (if rMethod r = ''OPTIONS'' then h_add H h Vary RequestMethod else h)
        in ((st, addActualRequestHeaders H cfg r h1), err))"

section \<open>Wildcard domains: utils.go\<close>

definition matchScheme :: "bytes \<Rightarrow> bytes \<Rightarrow> bool" where
  "matchScheme domn pat =
     (let didx = Index domn '':''; pidx = Index pat '':''
      in didx \<noteq> - 1 \<and> pidx \<noteq> - 1 \<and> take (nat didx) domn = take (nat pidx) pat)"

fun match_components :: "bytes list \<Rightarrow> bytes list \<Rightarrow> bool" where
  "match_components [] ps = False"
| "match_components (v # vs) [] = False"
| "match_components (v # vs) (p # ps) = (if p = ''*'' then True else if p \<noteq> v then False else match_components vs ps)"

text \<open>The two loops that swap components from both ends reverse the lists.\<close>

definition matchSubdomain :: "bytes \<Rightarrow> bytes \<Rightarrow> bool" where
  "matchSubdomain domn pat =
     (if \<not> matchScheme domn pat then False
      else
        let didx = Index domn ''://''; pidx = Index pat ''://''
        in if didx = - 1 \<or> pidx = - 1 then False
           else
             let domAuth = drop (nat didx + 3) domn; patAuth = drop (nat pidx + 3) pat
             in if length domAuth > 253 then False
                else match_components (rev (Split domAuth CHR ''.'')) (rev (Split patAuth CHR ''.'')))"

section \<open>What the middleware grants\<close>

locale header_laws =
  fixes H :: "'h header_ops"
  assumes peek_set: "h_peek H (h_set H h k v) k' = (if k' = k then Some v else h_peek H h k')"
    and peek_add: "k' \<noteq> k \<Longrightarrow> h_peek H (h_add H h k v) k' = h_peek H h k'"
begin

lemma origin_peek:
  "h_peek H (configureAllowedOrigin H cfg r h) AllowOrigin =
     (if length (origins cfg) = 0 \<and> AllowedOrigins cfg \<noteq> None \<and> \<not> SupportsCredentials cfg then Some ''*''
      else if length (origins cfg) = 1 \<and> origins cfg ! 0 = ''*'' \<and> length (AllowedOriginsPatterns cfg) = 0
      then (case rOrigin r of None \<Rightarrow> h_peek H h AllowOrigin | Some o' \<Rightarrow> Some o')
      else if slen (rOrigin r) \<noteq> 0 \<and> isOriginAllowed cfg r then rOrigin r
      else h_peek H h AllowOrigin)"
  by (auto simp: configureAllowedOrigin_def Let_def peek_set peek_add header_names split: option.splits)

lemma credentials_peek:
  "h_peek H (configureAllowedOrigin H cfg r h) AllowCredentials = h_peek H h AllowCredentials"
  by (auto simp: configureAllowedOrigin_def Let_def peek_set peek_add header_names split: option.splits)

lemma config_peek:
  "h_peek H (configureAllowedHeaders H cfg r h) AllowOrigin = h_peek H h AllowOrigin"
  "h_peek H (configureAllowedHeaders H cfg r h) AllowCredentials = h_peek H h AllowCredentials"
  "h_peek H (configureAllowedMethods H cfg r h) AllowOrigin = h_peek H h AllowOrigin"
  "h_peek H (configureAllowedMethods H cfg r h) AllowCredentials = h_peek H h AllowCredentials"
  by (auto simp: configureAllowedHeaders_def configureAllowedMethods_def Let_def peek_set peek_add header_names)

lemma preflight_origin:
  "h_peek H (addPreflightRequestHeaders H cfg r h) AllowOrigin = h_peek H (configureAllowedOrigin H cfg r h) AllowOrigin"
  by (auto simp: addPreflightRequestHeaders_def Let_def peek_set peek_add config_peek) (simp_all add: header_names)

lemma preflight_credentials:
  "h_peek H (addPreflightRequestHeaders H cfg r h) AllowCredentials =
     (if slen (h_peek H (configureAllowedOrigin H cfg r h) AllowOrigin) \<noteq> 0 \<and> SupportsCredentials cfg
      then Some ''true'' else h_peek H h AllowCredentials)"
  by (auto simp: addPreflightRequestHeaders_def Let_def peek_set peek_add config_peek credentials_peek) (simp_all add: header_names)

lemma actual_origin:
  "h_peek H (addActualRequestHeaders H cfg r h) AllowOrigin = h_peek H (configureAllowedOrigin H cfg r h) AllowOrigin"
  by (auto simp: addActualRequestHeaders_def Let_def peek_set peek_add) (simp_all add: header_names)

lemma actual_credentials:
  "h_peek H (addActualRequestHeaders H cfg r h) AllowCredentials =
     (if slen (h_peek H (configureAllowedOrigin H cfg r h) AllowOrigin) \<noteq> 0 \<and> SupportsCredentials cfg
      then Some ''true'' else h_peek H h AllowCredentials)"
  by (auto simp: addActualRequestHeaders_def Let_def peek_set peek_add credentials_peek) (simp_all add: header_names)

end

text \<open>The headers of the library: a list of key and value, set and add as args.go does it.\<close>

definition arg_headers :: "kv_slice header_ops" where
  "arg_headers =
     \<lparr>h_set = (\<lambda>h k v. setArg h k v argsHasValue), h_add = (\<lambda>h k v. appendArg h k v argsHasValue),
       h_peek = (\<lambda>h k. peekArgStr (fst h) k)\<rparr>"

lemma append_entry: "\<exists>kv. fst (appendArg h k v nv) = fst h @ [kv] \<and> key kv = k"
  by (auto simp: appendArg_def allocArg_def set_last_def Let_def split: list.splits)

interpretation args: header_laws arg_headers
proof unfold_locales
  fix h k v k'
  show "h_peek arg_headers (h_set arg_headers h k v) k' = (if k' = k then Some v else h_peek arg_headers h k')"
    by (simp add: arg_headers_def argsHasValue_def peek_setArg)
  show "k' \<noteq> k \<Longrightarrow> h_peek arg_headers (h_add arg_headers h k v) k' = h_peek arg_headers h k'"
    using append_entry [of h k v argsHasValue] by (auto simp: arg_headers_def peek_append split: option.splits)
qed



end
