(* ===== verification/Csrf.thy ===== *)
theory Csrf
  imports Session_Correct
begin

text \<open>
  The CSRF middleware (src/fasthttp-routing/middleware/csrf/verifyCsrfToken.go). It compares the CSRF token
  of the session with the token of the request, which comes from the form or from one of two headers.
  A missing value is the empty byte string.
\<close>

definition ReadingMethod :: bytes where "ReadingMethod = ''HEADGETOPTIONS''"

record csrf_cfg =
  except_paths :: "bytes list"
  noCookie :: bool
  cokLifetime :: int
  cokPath :: bytes
  cokDomain :: bytes
  cokSame_site :: CookieSameSite
  cokSecure :: bool

text \<open>What is read of the request: method, path, the form value _token and the headers X-CSRF-TOKEN and
  X-XSRF-TOKEN.\<close>

record csrf_request =
  q_method :: bytes
  q_path :: bytes
  q_form :: bytes
  q_meta :: bytes
  q_cookie :: bytes

definition isReading :: "csrf_request \<Rightarrow> bool" where
  "isReading r = Contains ReadingMethod (q_method r)"

definition inExceptArray :: "csrf_cfg \<Rightarrow> csrf_request \<Rightarrow> bool" where
  "inExceptArray cfg r = (\<exists>p\<in>set (except_paths cfg). HasPrefix (q_path r) p)"

definition getTokenFromRequest :: "csrf_request \<Rightarrow> bytes" where
  "getTokenFromRequest r =
     (let t = q_form r; t = (if length t = 0 then q_meta r else t) in if length t = 0 then q_cookie r else t)"

definition tokensMatch :: "csrf_request \<Rightarrow> bytes \<Rightarrow> bool" where
  "tokensMatch r token2 =
     (let t = getTokenFromRequest r in if length t \<noteq> 0 \<and> length token2 \<noteq> 0 then t = token2 else False)"

definition newCookie :: "csrf_cfg \<Rightarrow> bytes \<Rightarrow> unit Cookie" where
  "newCookie cfg csrf =
     (let cok = AcquireCookie;
          cok = (if cokDomain cfg \<noteq> [] then Cookie_SetDomain cok (cokDomain cfg) else cok);
          cok = (if cokPath cfg \<noteq> [] then Cookie_SetPath cok (cokPath cfg) else cok);
          cok = Cookie_SetValue (Cookie_SetKey cok ''XSRF-TOKEN'') csrf;
          cok = Cookie_SetMaxAge cok (cokLifetime cfg div 10 ^ 9)
      in Cookie_SetSameSite (Cookie_SetSecure cok (cokSecure cfg)) (cokSame_site cfg))"

datatype csrf_error = MismatchError

text \<open>The handler: the state after it, the error, and the cookie that is set. \<open>sd\<close> is the session the session
  middleware has put into the user values; without it the type assertion panics.\<close>

definition csrf_handle ::
    "('db, 'f, 't) Manager \<Rightarrow> csrf_cfg \<Rightarrow> ('f, 't) Data option \<Rightarrow> csrf_request \<Rightarrow> ('s \<Rightarrow> 's \<times> 'e option) \<Rightarrow> 's \<Rightarrow>
     ('s \<times> (csrf_error + 'e) option \<times> unit Cookie option) go" where
  "csrf_handle M cfg sd r chain s =
     map_option
       (\<lambda>d. let token2 = csrfToken d
            in if isReading r \<or> inExceptArray cfg r \<or> tokensMatch r token2 \<or> ValidateHash M token2 then
                 let (s', err) = chain s
                 in (s', map_option Inr err,
                     if noCookie cfg \<or> length token2 = 0 then None else Some (newCookie cfg token2))
               else (s, Some (Inl MismatchError), None))
       sd"



text \<open>Random bytes for which the encoded token happens to validate as a hash.\<close>

lemma weak_token:
  "RawURL_Encode (''1Wa'' @ replicate 17 CHR ''x'' @ [mk_byte 202, mk_byte 116]) =
   map mk_byte [77, 86, 100, 104, 101, 72, 104, 52, 101, 72, 104, 52, 101, 72, 104, 52, 101, 72, 104, 52, 101, 72, 104, 52,
     101, 72, 106, 75, 100, 65]"
proof -
  have r: "replicate 17 x = [x, x, x, x, x, x, x, x, x, x, x, x, x, x, x, x, x]" for x :: nat
    by (simp add: numeral_eq_Suc)
  have "map byte_val (''1Wa'' @ replicate 17 CHR ''x'' @ [mk_byte 202, mk_byte 116]) =
     [49, 87, 97, 120, 120, 120, 120, 120, 120, 120, 120, 120, 120, 120, 120, 120, 120, 120, 120, 120, 202, 116]"
    by (simp add: r byte_val_mk_byte)
  then have "b64_groups (map byte_val (''1Wa'' @ replicate 17 CHR ''x'' @ [mk_byte 202, mk_byte 116])) =
    b64_groups [49, 87, 97, 120, 120, 120, 120, 120, 120, 120, 120, 120, 120, 120, 120, 120, 120, 120, 120, 120, 202, 116]"
    by simp
  also have "\<dots> = [12, 21, 29, 33, 30, 7, 33, 56, 30, 7, 33, 56, 30, 7, 33, 56, 30, 7, 33, 56, 30, 7, 33, 56, 30, 7, 35, 10, 29, 0]"
    by simp
  finally show ?thesis unfolding RawURL_Encode_def by (simp add: b64_char_def)
qed

text \<open>Claim C34: the last alternative of the test asks whether the CSRF token of the session itself validates, not
  the one of the request. There are random bytes for which the middleware generates such a token: for
  that session every request passes, whatever its method, path and token.\<close>

theorem csrf_hash_bypass:
  assumes "simple_hashed M"
  shows "\<exists>d. Data_Start M (Some (''1Wa'' @ replicate 17 CHR ''x'')) True False db (new_Data False) = Some (db, d, None) \<and>
           (\<exists>ck. csrf_handle M cfg (Some d) r chain s = Some (fst (chain s), map_option Inr (snd (chain s)), ck))"
proof -
  let ?r = "''1Wa'' @ replicate 17 CHR ''x''"
  let ?t = "map mk_byte [77, 86, 100, 104, 101, 72, 104, 52, 101, 72, 104, 52, 101, 72, 104, 52, 101, 72, 104, 52, 101, 72, 104, 52,
     101, 72, 106, 75, 100, 65]"
  have h: "SimpleHash_AppendHash (?r @ replicate 2 (mk_byte 0)) = Some (?r @ [mk_byte 202, mk_byte 116])"
    by (simp add: SimpleHash_AppendHash_def hash_sum_def)
  have e: "RawURL_Encode (?r @ [mk_byte 202, mk_byte 116]) = ?t" using weak_token by simp
  have v: "SimpleHash_ValidateHash ?t" by (simp add: SimpleHash_ValidateHash_def hash_sum_def byte_val_mk_byte)
  have "GenerateToken2 M (Some ?r) AppendHashCsrfTokenLen (replicate UrlEncodedCsrfTokenLen (mk_byte 0)) = Some ?t"
    using assms h e by (simp add: GenerateToken2_def simple_hashed_def token_lengths Let_def)
  then have "Data_Start M (Some ?r) True False db (new_Data False) = Some (db, (new_Data False)\<lparr>csrfToken := ?t, started := True\<rparr>, None)"
    by (simp add: Data_Start_def new_Data_def)
  moreover have "\<exists>ck. csrf_handle M cfg (Some ((new_Data False)\<lparr>csrfToken := ?t, started := True\<rparr>)) r chain s =
      Some (fst (chain s), map_option Inr (snd (chain s)), ck)"
    using v assms by (auto simp: csrf_handle_def simple_hashed_def Let_def split: prod.splits)
  ultimately show ?thesis by blast
qed

theorem csrf_hash_bypass_witness:
  "\<exists>d. Data_Start (mem_manager []) (Some (''1Wa'' @ replicate 17 CHR ''x'')) True False [] (new_Data False) = Some ([], d, None) \<and>
     (\<exists>ck. csrf_handle (mem_manager []) \<lparr>except_paths = [], noCookie = True, cokLifetime = 0, cokPath = [], cokDomain = [],
              cokSame_site = CookieSameSiteLaxMode, cokSecure = False\<rparr> (Some d)
            \<lparr>q_method = ''POST'', q_path = ''/pay'', q_form = [], q_meta = [], q_cookie = []\<rparr> (\<lambda>s. (s + 1, None :: unit option)) (0 :: nat) =
          Some (1, None, ck))"
proof -
  have "simple_hashed (mem_manager [])" by (simp add: simple_hashed_def mem_manager_def)
  from csrf_hash_bypass [OF this, of "[]" "\<lparr>except_paths = [], noCookie = True, cokLifetime = 0, cokPath = [], cokDomain = [],
              cokSame_site = CookieSameSiteLaxMode, cokSecure = False\<rparr>"
      "\<lparr>q_method = ''POST'', q_path = ''/pay'', q_form = [], q_meta = [], q_cookie = []\<rparr>"
      "\<lambda>s. (s + 1, None :: unit option)" "0 :: nat"]
  show ?thesis by simp
qed

end
