(* ===== verification/Negotiate.thy ===== *)
theory Negotiate
  imports Prelude "HOL-Library.Word" "HOL-Library.Multiset" "HOL-Library.Product_Lexorder"
begin

unbundle bit_operations_syntax

text \<open>
  Content negotiation and conditional requests of the router (src/fasthttp-routing/helpers.go). The functions
  it calls from other modules are the fields of \<open>nego\<close>: the number parser of the HTTP library, and the media type
  and case-insensitive comparison of the utilities of fiber. Floating-point numbers are a parameter type with
  their comparisons; a statement about the order of qualities excludes the value that is not a number. An
  index out of range is \<open>None\<close>.
\<close>

section \<open>Parameters\<close>

record 'q nego =
  ParseUfloat :: "bytes \<Rightarrow> 'q option"
  q_zero :: 'q
  q_one :: 'q
  q_less :: "'q \<Rightarrow> 'q \<Rightarrow> bool"
  q_eq :: "'q \<Rightarrow> 'q \<Rightarrow> bool"
  GetMIME :: "bytes \<Rightarrow> bytes"
  EqualFold :: "bytes \<Rightarrow> bytes \<Rightarrow> bool"

definition TrimLeft :: "bytes \<Rightarrow> bytes" where
  "TrimLeft s = dropWhile (\<lambda>ch. ch = CHR '' '') s"

definition TrimRight :: "bytes \<Rightarrow> bytes" where
  "TrimRight s = rev (dropWhile (\<lambda>ch. ch = CHR '' '') (rev s))"

section \<open>Small helpers\<close>

definition defaultString :: "bytes \<Rightarrow> bytes list \<Rightarrow> bytes" where
  "defaultString value defaultValue = (if length value = 0 \<and> length defaultValue > 0 then defaultValue ! 0 else value)"

definition getGroupPath :: "bytes \<Rightarrow> bytes \<Rightarrow> bytes" where
  "getGroupPath pre path =
     (if length path = 0 then pre
      else let path = (if path ! 0 \<noteq> CHR ''/'' then ''/'' @ path else path)
           in rev (dropWhile (\<lambda>ch. ch = CHR ''/'') (rev pre)) @ path)"

definition acceptsOffer :: "bytes \<Rightarrow> bytes \<Rightarrow> bytes \<Rightarrow> bool go" where
  "acceptsOffer spec offer specParams =
     Some (if length spec \<ge> 1 \<and> spec ! (length spec - 1) = CHR ''*'' then True else HasPrefix spec offer)"

definition matchEtag :: "bytes \<Rightarrow> bytes \<Rightarrow> bool" where
  "matchEtag s etag \<longleftrightarrow> s = etag \<or> s = ''W/'' @ etag \<or> ''W/'' @ s = etag"

definition parseAddr :: "bytes \<Rightarrow> bytes \<times> bytes" where
  "parseAddr raw =
     (let i = LastIndex raw '':'' in if i \<noteq> - 1 then (take (nat i) raw, drop (nat i + 1) raw) else (raw, []))"

definition noCacheValue :: bytes where "noCacheValue = ''no-cache''"

definition isNoCache :: "bytes \<Rightarrow> bool go" where
  "isNoCache cacheControl =
     (let i = Index cacheControl noCacheValue
      in if i = - 1 then Some False
         else if i > 0 \<and> \<not> (cacheControl ! nat (i - 1) = CHR '' '' \<or> cacheControl ! nat (i - 1) = CHR '','') then Some False
         else if nat i + length noCacheValue = length cacheControl then Some True
         else if nat i + length noCacheValue > length cacheControl then None
         else Some (cacheControl ! (nat i + length noCacheValue) = CHR '',''))"

definition IsMethodSafe :: "bytes \<Rightarrow> bool" where
  "IsMethodSafe m \<longleftrightarrow> m \<in> {''GET'', ''HEAD'', ''OPTIONS'', ''TRACE''}"

definition IsMethodIdempotent :: "bytes \<Rightarrow> bool" where
  "IsMethodIdempotent m \<longleftrightarrow> IsMethodSafe m \<or> m \<in> {''PUT'', ''DELETE''}"

text \<open>The bytes allowed in a token: a bitmap of 128 bits, tested in two words. A shift by 64 or more gives zero, and the
  subtraction wraps at 256.\<close>

definition tchar_mask :: nat where
  "tchar_mask =
     fold (\<lambda>c m. m OR push_bit c 1) (map byte_val ''!#$%&*+-.^_`|~'' @ [39])
       (push_bit 48 (2 ^ 10 - 1) OR push_bit 97 (2 ^ 26 - 1) OR push_bit 65 (2 ^ 26 - 1))"

definition validHeaderFieldByte :: "char \<Rightarrow> bool" where
  "validHeaderFieldByte ch \<longleftrightarrow>
     (let c = byte_val ch
      in (push_bit c 1 AND word_of_nat (take_bit 64 tchar_mask)) OR
         (push_bit ((c + 192) mod 256) 1 AND word_of_nat (drop_bit 64 tchar_mask)) \<noteq> (0 :: 64 word))"

definition tchar :: "nat \<Rightarrow> bool" where
  "tchar n \<longleftrightarrow> 48 \<le> n \<and> n \<le> 57 \<or> 65 \<le> n \<and> n \<le> 90 \<or> 97 \<le> n \<and> n \<le> 122 \<or>
     n \<in> {33, 35, 36, 37, 38, 39, 42, 43, 45, 46, 94, 95, 96, 124, 126}"

lemma bit_run: "bit (push_bit a (2 ^ l - 1) :: nat) n \<longleftrightarrow> a \<le> n \<and> n < a + l"
proof -
  have "(2 ^ l - 1 :: nat) = mask l" by (simp add: mask_eq_exp_minus_1)
  then show ?thesis by (auto simp only: bit_push_bit_iff bit_mask_iff) auto
qed

lemma bit_tchar_mask: "bit tchar_mask n \<longleftrightarrow> tchar n"
proof -
  have f: "bit (fold (\<lambda>c m. m OR push_bit c 1) cs m) n \<longleftrightarrow> bit m n \<or> n \<in> set cs" for cs and m :: nat
    by (induction cs arbitrary: m) (auto simp: bit_or_iff bit_exp_iff)
  have chars: "set (map byte_val ''!#$%&*+-.^_`|~'' @ [39]) = {33, 35, 36, 37, 38, 39, 42, 43, 45, 46, 94, 95, 96, 124, 126}"
    by (simp add: insert_commute)
  have ends: "n < 48 + 10 \<longleftrightarrow> n \<le> 57" "n < 97 + 26 \<longleftrightarrow> n \<le> 122" "n < 65 + 26 \<longleftrightarrow> n \<le> 90" by auto
  show ?thesis
    unfolding tchar_mask_def f bit_or_iff bit_run tchar_def chars ends by blast
qed

lemma and_shifted_1: "(push_bit n 1 AND w :: 64 word) = (if bit w n then push_bit n 1 else 0)"
  by (rule bit_word_eqI) (auto simp: bit_and_iff bit_exp_iff)

lemma shifted_1_eq_0: "(push_bit n 1 :: 64 word) = 0 \<longleftrightarrow> 64 \<le> n"
proof -
  have "bit (push_bit n 1 :: 64 word) n \<longleftrightarrow> n < 64" by (simp add: bit_exp_iff)
  moreover have "64 \<le> n \<Longrightarrow> (push_bit n 1 :: 64 word) = 0" by (rule bit_word_eqI) (simp add: bit_exp_iff)
  ultimately show ?thesis by (metis bit_0_eq bot_apply bot_bool_def not_le)
qed

text \<open>The bitmap test is membership in the token characters of the standard.\<close>

lemma validHeaderFieldByte_tchar: "validHeaderFieldByte ch \<longleftrightarrow> tchar (byte_val ch)"
proof -
  define n where "n = byte_val ch"
  have w: "bit (word_of_nat m :: 64 word) i \<longleftrightarrow> i < 64 \<and> bit m i" for m i
    using bit_word_of_int_iff [of "int m", where 'a = 64] by (auto simp: bit_of_nat_iff_bit)
  have or0: "(a OR b) = 0 \<longleftrightarrow> a = 0 \<and> b = 0" for a b :: "64 word" by (simp add: or_eq_0_iff)
  have "validHeaderFieldByte ch \<longleftrightarrow> n < 64 \<and> tchar n \<or> (n + 192) mod 256 < 64 \<and> tchar ((n + 192) mod 256 + 64)"
    unfolding validHeaderFieldByte_def Let_def n_def [symmetric] or0 and_shifted_1
    by (auto simp: shifted_1_eq_0 w bit_take_bit_iff bit_drop_bit_eq bit_tchar_mask add.commute)
  also have "\<dots> \<longleftrightarrow> tchar n"
  proof (cases "n < 64")
    case True
    then have "(n + 192) mod 256 = n + 192" by simp
    with True show ?thesis by simp
  next
    case False
    moreover have "n < 256" by (simp add: n_def)
    ultimately have "(n + 192) mod 256 = n - 64" by (simp add: mod_if)
    with False show ?thesis by (auto simp: tchar_def)
  qed
  finally show ?thesis by (simp add: n_def)
qed

section \<open>Lists in headers\<close>

text \<open>getSplicedStrList: the elements between commas, each without leading blanks. The start of an element is an
  8-bit number. The loop over the runes meets every comma and the end at their byte positions.\<close>

fun splice_loop :: "bytes \<Rightarrow> nat \<Rightarrow> bytes \<Rightarrow> nat \<Rightarrow> bytes list" where
  "splice_loop headerValue index [] lastElementEndsAt = [TrimLeft (Prelude.slice lastElementEndsAt index headerValue)]"
| "splice_loop headerValue index (ch # rest) lastElementEndsAt =
     (if ch = CHR '','' then
        TrimLeft (Prelude.slice lastElementEndsAt index headerValue) #
          splice_loop headerValue (Suc index) rest (Suc index mod 256)
      else splice_loop headerValue (Suc index) rest lastElementEndsAt)"

definition getSplicedStrList :: "bytes \<Rightarrow> bytes list" where
  "getSplicedStrList headerValue = (if headerValue = [] then [] else splice_loop headerValue 0 headerValue 0)"

text \<open>forEachMediaRange: the end of a media range. A backslash in a quoted string toggles \<open>escaping\<close>, which nothing
  else resets.\<close>

fun range_end :: "bytes \<Rightarrow> nat \<Rightarrow> bool \<Rightarrow> nat" where
  "range_end [] quotes escaping = 0"
| "range_end (ch # rest) quotes escaping =
     (if ch = CHR '','' \<and> even quotes then 0
      else Suc (range_end rest
             (if ch = CHR 34 \<and> \<not> escaping then quotes + 1 else quotes)
             (if ch = CHR 92 \<and> odd quotes then \<not> escaping else escaping)))"

definition range_len :: "bool \<Rightarrow> bytes \<Rightarrow> nat" where
  "range_len hasDQuote hdr =
     (if hasDQuote then range_end hdr 0 False
      else let n = IndexByte hdr CHR '','' in if n = - 1 then length hdr else nat n)"

lemma TrimLeft_length: "length (TrimLeft s) \<le> length s"
  by (simp add: TrimLeft_def length_dropWhile_le)

text \<open>The media ranges the functor is called with, in order.\<close>

function media_ranges :: "bool \<Rightarrow> bytes \<Rightarrow> bytes list" where
  "media_ranges hasDQuote hdr =
     (if length hdr > 0 then
        let hdr1 = TrimLeft hdr; n = range_len hasDQuote hdr1
        in take n hdr1 # (if n \<ge> length hdr1 then [] else media_ranges hasDQuote (drop (n + 1) hdr1))
      else [])"
  by pat_completeness auto
termination
proof (relation "measure (\<lambda>(_, hdr). length hdr)")
  fix hasDQuote and hdr hdr1 :: bytes and n
  assume "hdr1 = TrimLeft hdr" "\<not> n \<ge> length hdr1" "length hdr > 0"
  with TrimLeft_length [of hdr] show "((hasDQuote, drop (n + 1) hdr1), hasDQuote, hdr) \<in> measure (\<lambda>(_, hdr). length hdr)" by simp
qed simp

declare media_ranges.simps [simp del]

definition forEachMediaRange :: "bytes \<Rightarrow> bytes list" where
  "forEachMediaRange hdr = media_ranges (IndexByte hdr CHR 34 \<noteq> - 1) hdr"

text \<open>forEachParameter: the position of the closing quote.\<close>

fun end_quote :: "bytes \<Rightarrow> bool \<Rightarrow> nat option" where
  "end_quote [] escaping = None"
| "end_quote (ch # rest) escaping =
     (if ch = CHR 34 \<and> \<not> escaping then Some 0
      else map_option Suc (end_quote rest (ch = CHR 92 \<and> \<not> escaping)))"

text \<open>One round of its loop: the name, the value and the rest, \<open>None\<close> where the loop returns.\<close>

definition next_parameter :: "bytes \<Rightarrow> (bytes \<times> bytes \<times> bytes) option" where
  "next_parameter params0 =
     (let params1 = TrimLeft params0
      in if params1 = [] \<or> params1 ! 0 \<noteq> CHR '';'' then None
         else let params = TrimLeft (tl params1); n = length (takeWhile validHeaderFieldByte params)
              in if params = [] \<or> n = 0 then None
                 else if n + 1 \<ge> length params \<or> params ! n \<noteq> CHR ''='' then None
                 else let param = take n params; n1 = n + 1
                      in if params ! n1 = CHR 34 then
                           (case end_quote (drop (n1 + 1) params) False of
                              None \<Rightarrow> None
                            | Some e \<Rightarrow> Some (param, Prelude.slice (n1 + 1) (n1 + 1 + e) params, drop (n1 + 1 + e + 1) params))
                         else if validHeaderFieldByte (params ! n1) then
                           let k = length (takeWhile validHeaderFieldByte (drop n1 params))
                           in Some (param, Prelude.slice n1 (n1 + k) params, drop (n1 + k) params)
                         else None)"

lemma next_parameter_shorter [termination_simp]:
  "next_parameter params = Some (p, v, rest) \<Longrightarrow> length rest < length params"
  using TrimLeft_length [of params] TrimLeft_length [of "tl (TrimLeft params)"]
  by (auto simp: next_parameter_def Let_def split: if_splits option.splits)

fun forEachParameter :: "('s \<Rightarrow> bytes \<Rightarrow> bytes \<Rightarrow> 's \<times> bool) \<Rightarrow> bytes \<Rightarrow> 's \<Rightarrow> 's" where
  "forEachParameter functor params s =
     (case next_parameter params of
        None \<Rightarrow> s
      | Some (p, v, rest) \<Rightarrow> let (s', cont) = functor s p v in if cont then forEachParameter functor rest s' else s')"

declare forEachParameter.simps [simp del]

section \<open>Matching an offer\<close>

text \<open>The first loop of paramsMatch, with the early exits of the callback.\<close>

fun set_param :: "'q nego \<Rightarrow> (bytes \<times> bytes) list \<Rightarrow> bytes \<Rightarrow> bytes \<Rightarrow> (bytes \<times> bytes) list option" where
  "set_param N [] s1 s2 = None"
| "set_param N (sp # sps) s1 s2 =
     (if EqualFold N s1 (fst sp) then Some ((fst sp, s2) # sps) else map_option ((#) sp) (set_param N sps s1 s2))"

definition spec_param :: "'q nego \<Rightarrow> (bytes \<times> bytes) list \<Rightarrow> bytes \<Rightarrow> bytes \<Rightarrow> (bytes \<times> bytes) list \<times> bool" where
  "spec_param N sps s1 s2 =
     (if s1 = ''q'' \<or> s1 = ''Q'' then (sps, False)
      else case set_param N sps s1 s2 of Some sps' \<Rightarrow> (sps', False) | None \<Rightarrow> (sps @ [(s1, s2)], True))"

text \<open>The callback of the second loop: whether the parameter was found and whether the values matched.\<close>

definition offer_param :: "'q nego \<Rightarrow> bytes \<times> bytes \<Rightarrow> bool \<times> bool \<Rightarrow> bytes \<Rightarrow> bytes \<Rightarrow> (bool \<times> bool) \<times> bool" where
  "offer_param N sp st offerParam offerVal =
     (if EqualFold N (fst sp) offerParam then ((True, EqualFold N (snd sp) offerVal), False) else (st, True))"

fun all_params_match :: "'q nego \<Rightarrow> (bytes \<times> bytes) list \<Rightarrow> bytes \<Rightarrow> bool \<Rightarrow> bool" where
  "all_params_match N [] offerParams allMatch = allMatch"
| "all_params_match N (sp # sps) offerParams allMatch =
     (let (foundParam, allMatch') = forEachParameter (offer_param N sp) offerParams (False, allMatch)
      in if \<not> foundParam \<or> \<not> allMatch' then False else all_params_match N sps offerParams allMatch')"

definition paramsMatch :: "'q nego \<Rightarrow> bytes \<Rightarrow> bytes \<Rightarrow> bool" where
  "paramsMatch N specParamStr offerParams =
     (if specParamStr = [] then True
      else all_params_match N (forEachParameter (spec_param N) specParamStr []) offerParams True)"

definition acceptsOfferType :: "'q nego \<Rightarrow> bytes \<Rightarrow> bytes \<Rightarrow> bytes \<Rightarrow> bool go" where
  "acceptsOfferType N spec offerType specParams =
     (let i = IndexByte offerType CHR '';'';
          offerMime = (if i = - 1 then offerType else take (nat i) offerType);
          offerParams = (if i = - 1 then [] else drop (nat i) offerType)
      in if spec = ''*/*'' then Some (paramsMatch N specParams offerParams)
         else let mimetype = (if IndexByte offerMime CHR ''/'' \<noteq> - 1 then offerMime else GetMIME N offerMime)
              in if spec = mimetype then Some (paramsMatch N specParams offerParams)
                 else let s = IndexByte mimetype CHR ''/''
                      in if s < 0 then None
                         else if HasPrefix spec (take (nat s) mimetype) \<and> (drop (nat s) spec = ''/*'' \<or> drop (nat s) mimetype = ''/*'')
                         then Some (paramsMatch N specParams offerParams)
                         else Some False)"

section \<open>Choosing an offer\<close>

record 'q acceptedType =
  spec :: bytes
  quality :: 'q
  specificity :: nat
  order :: nat
  params :: bytes

definition specificity_of :: "bytes \<Rightarrow> nat" where
  "specificity_of sp =
     (if sp = ''*/*'' \<or> sp = ''*'' then 1 else if HasSuffix sp ''/*'' then 2
      else if IndexByte sp CHR ''/'' \<noteq> - 1 then 3 else 4)"

text \<open>The callback for the parameters of a media range: quality and whether there are other parameters.\<close>

definition quality_param :: "'q nego \<Rightarrow> 'q \<times> bool \<Rightarrow> bytes \<Rightarrow> bytes \<Rightarrow> ('q \<times> bool) \<times> bool" where
  "quality_param N st param val =
     (if param = ''q'' \<or> param = ''Q'' then
        ((case ParseUfloat N val of Some q \<Rightarrow> (q, snd st) | None \<Rightarrow> st), False)
      else ((fst st, True), True))"

text \<open>The media range number \<open>ord\<close>, \<open>None\<close> if it is skipped.\<close>

definition accepted_type :: "'q nego \<Rightarrow> nat \<Rightarrow> bytes \<Rightarrow> 'q acceptedType option" where
  "accepted_type N ord accept =
     (let i = IndexByte accept CHR '';'';
          sp = (if i = - 1 then accept else take (nat i) accept);
          ps = (if i = - 1 then [] else drop (nat i) accept);
          (qual, hasParams) =
            (if i = - 1 then (q_one N, False)
             else if HasPrefix ps '';q='' \<and> IndexByte (drop 3 ps) CHR '';'' = - 1 then
               (case ParseUfloat N (TrimRight (drop 3 ps)) of Some q \<Rightarrow> q | None \<Rightarrow> q_one N, False)
             else forEachParameter (quality_param N) ps (q_one N, False))
      in if i \<noteq> - 1 \<and> q_eq N qual (q_zero N) then None
         else Some \<lparr>spec = TrimRight sp, quality = qual, specificity = specificity_of (TrimRight sp), order = ord,
                    params = (if hasParams then ps else [])\<rparr>)"

text \<open>The condition of the binary search: \<open>a\<close> goes after \<open>b\<close>.\<close>

definition goes_after :: "'q nego \<Rightarrow> 'q acceptedType \<Rightarrow> 'q acceptedType \<Rightarrow> bool" where
  "goes_after N a b \<longleftrightarrow>
     q_less N (quality a) (quality b) \<or>
     q_eq N (quality a) (quality b) \<and> specificity a < specificity b \<or>
     q_eq N (quality a) (quality b) \<and> specificity a < specificity b \<and> length (params a) < length (params b) \<or>
     q_eq N (quality a) (quality b) \<and> specificity a = specificity b \<and> length (params a) = length (params b) \<and> order a > order b"

function place :: "'q nego \<Rightarrow> 'q acceptedType list \<Rightarrow> 'q acceptedType \<Rightarrow> int \<Rightarrow> int \<Rightarrow> int" where
  "place N ats a lo hi =
     (if lo \<le> hi then
        let mid = (lo + hi) div 2
        in if goes_after N a (ats ! nat mid) then place N ats a (mid + 1) hi else place N ats a lo (mid - 1)
      else lo)"
  by pat_completeness auto
termination by (relation "measure (\<lambda>(N, ats, a, lo, hi). nat (hi - lo + 1))") auto

declare place.simps [simp del]

fun sink :: "nat \<Rightarrow> nat \<Rightarrow> 'a list \<Rightarrow> 'a list" where
  "sink lo 0 xs = xs"
| "sink lo (Suc j) xs = (if Suc j > lo then sink lo j (xs[j := xs ! Suc j, Suc j := xs ! j]) else xs)"

fun sort_loop :: "'q nego \<Rightarrow> nat \<Rightarrow> nat \<Rightarrow> 'q acceptedType list \<Rightarrow> 'q acceptedType list" where
  "sort_loop N i 0 ats = ats"
| "sort_loop N i (Suc k) ats = sort_loop N (Suc i) k (sink (nat (place N ats (ats ! i) 0 (int i - 1))) i ats)"

definition sortAcceptedTypes :: "'q nego \<Rightarrow> 'q acceptedType list \<Rightarrow> 'q acceptedType list" where
  "sortAcceptedTypes N ats = (if length ats < 2 then ats else sort_loop N 1 (length ats - 1) ats)"

text \<open>The search for the first offer that matches, in the order of the accepted types.\<close>

fun first_offer :: "(bytes \<Rightarrow> bytes \<Rightarrow> bytes \<Rightarrow> bool go) \<Rightarrow> 'q acceptedType \<Rightarrow> bytes list \<Rightarrow> bytes option go" where
  "first_offer acc a [] = Some None"
| "first_offer acc a (off # offs) =
     (if length off = 0 then first_offer acc a offs
      else case acc (spec a) off (params a) of
             None \<Rightarrow> None
           | Some True \<Rightarrow> Some (Some off)
           | Some False \<Rightarrow> first_offer acc a offs)"

fun find_offer :: "(bytes \<Rightarrow> bytes \<Rightarrow> bytes \<Rightarrow> bool go) \<Rightarrow> 'q acceptedType list \<Rightarrow> bytes list \<Rightarrow> bytes go" where
  "find_offer acc [] offers = Some []"
| "find_offer acc (a # as) offers =
     (case first_offer acc a offers of
        None \<Rightarrow> None
      | Some (Some off) \<Rightarrow> Some off
      | Some None \<Rightarrow> find_offer acc as offers)"

definition accepted_types :: "'q nego \<Rightarrow> bytes \<Rightarrow> 'q acceptedType list" where
  "accepted_types N hdr =
     List.map_filter (\<lambda>(ord, accept). accepted_type N ord accept)
       (zip [1..<length (forEachMediaRange hdr) + 1] (forEachMediaRange hdr))"

definition getOffer :: "'q nego \<Rightarrow> bytes \<Rightarrow> (bytes \<Rightarrow> bytes \<Rightarrow> bytes \<Rightarrow> bool go) \<Rightarrow> bytes list \<Rightarrow> bytes go" where
  "getOffer N hdr isAccepted offers =
     (if length offers = 0 then Some []
      else if hdr = [] then Some (offers ! 0)
      else let ats = accepted_types N hdr
           in find_offer isAccepted (if length ats > 1 then sortAcceptedTypes N ats else ats) offers)"

section \<open>Conditional requests\<close>

text \<open>isEtagStale: the loop at position \<open>i\<close>.\<close>

fun etag_loop :: "bytes \<Rightarrow> bytes \<Rightarrow> nat \<Rightarrow> bytes \<Rightarrow> nat \<Rightarrow> nat \<Rightarrow> bool" where
  "etag_loop etag noneMatch i [] start fin = (\<not> matchEtag (Prelude.slice start fin noneMatch) etag)"
| "etag_loop etag noneMatch i (ch # rest) start fin =
     (if ch = CHR '' '' then
        if start = fin then etag_loop etag noneMatch (Suc i) rest (Suc i) (Suc i)
        else etag_loop etag noneMatch (Suc i) rest start fin
      else if ch = CHR '','' then
        if matchEtag (Prelude.slice start fin noneMatch) etag then False
        else etag_loop etag noneMatch (Suc i) rest (Suc i) (Suc i)
      else etag_loop etag noneMatch (Suc i) rest start (Suc i))"

definition isEtagStale :: "bytes \<Rightarrow> bytes \<Rightarrow> bool" where
  "isEtagStale etag noneMatch = etag_loop etag noneMatch 0 noneMatch 0 0"

section \<open>The order of the accepted types\<close>

definition q_ordered :: "('q :: linorder) nego \<Rightarrow> bool" where
  "q_ordered N \<longleftrightarrow> q_less N = (<) \<and> q_eq N = (=)"

definition rank :: "('q :: linorder) acceptedType \<Rightarrow> 'q \<times> nat" where
  "rank a = (quality a, specificity a)"

lemma goes_after_rank:
  assumes "q_ordered N"
  shows "goes_after N a b \<longleftrightarrow>
    rank a < rank b \<or> rank a = rank b \<and> length (params a) = length (params b) \<and> order a > order b"
  using assms by (auto simp: goes_after_def q_ordered_def rank_def)

text \<open>A test that splits the positions into those before and those from some place on; the search finds a place that
  is consistent with every test it made.\<close>

lemma place_between:
  assumes "0 \<le> lo" and "hi < int n" and "lo \<le> hi + 1"
    and "\<And>j. j < n \<Longrightarrow> goes_after N a (ats ! j) \<Longrightarrow> \<forall>k\<le>j. P k"
    and "\<And>j. j < n \<Longrightarrow> \<not> goes_after N a (ats ! j) \<Longrightarrow> \<forall>k. j \<le> k \<longrightarrow> k < n \<longrightarrow> Q k"
    and "\<forall>k. int k < lo \<longrightarrow> P k" and "\<forall>k. hi < int k \<longrightarrow> k < n \<longrightarrow> Q k"
  shows "let r = place N ats a lo hi in lo \<le> r \<and> r \<le> hi + 1 \<and> (\<forall>k. int k < r \<longrightarrow> P k) \<and> (\<forall>k. r \<le> int k \<longrightarrow> k < n \<longrightarrow> Q k)"
  using assms(1-3,6,7)
proof (induction "nat (hi - lo + 1)" arbitrary: lo hi rule: less_induct)
  case less
  define mid where "mid = (lo + hi) div 2"
  show ?case
  proof (cases "lo \<le> hi")
    case True
    then have m: "lo \<le> mid" "mid \<le> hi" "nat mid < n" using less.prems(1,2) by (auto simp: mid_def)
    show ?thesis
    proof (cases "goes_after N a (ats ! nat mid)")
      case T: True
      have "\<forall>k. int k < mid + 1 \<longrightarrow> P k" using assms(4) [OF m(3) T] by auto
      then have "let r = place N ats a (mid + 1) hi in
          mid + 1 \<le> r \<and> r \<le> hi + 1 \<and> (\<forall>k. int k < r \<longrightarrow> P k) \<and> (\<forall>k. r \<le> int k \<longrightarrow> k < n \<longrightarrow> Q k)"
        using less.prems m by (intro less.hyps) auto
      with True T m show ?thesis by (subst (1) place.simps) (auto simp: Let_def mid_def [symmetric])
    next
      case F: False
      have "\<forall>k. mid - 1 < int k \<longrightarrow> k < n \<longrightarrow> Q k" using assms(5) [OF m(3) F] by auto
      then have "let r = place N ats a lo (mid - 1) in
          lo \<le> r \<and> r \<le> mid - 1 + 1 \<and> (\<forall>k. int k < r \<longrightarrow> P k) \<and> (\<forall>k. r \<le> int k \<longrightarrow> k < n \<longrightarrow> Q k)"
        using less.prems m by (intro less.hyps) auto
      with True F m show ?thesis by (subst (1) place.simps) (auto simp: Let_def mid_def [symmetric])
    qed
  next
    case False
    with less.prems show ?thesis by (auto simp: place.simps Let_def)
  qed
qed

lemma sink_rotates:
  "lo \<le> j \<Longrightarrow> j < length xs \<Longrightarrow> sink lo j xs = take lo xs @ xs ! j # drop lo (take j xs) @ drop (Suc j) xs"
proof (induction j arbitrary: xs)
  case 0
  then show ?case by (cases xs) auto
next
  case (Suc j)
  show ?case
  proof (cases "Suc j > lo")
    case True
    let ?ys = "xs[j := xs ! Suc j, Suc j := xs ! j]"
    have t: "take (Suc j) xs = take j xs @ [xs ! j]" using Suc.prems by (simp add: take_Suc_conv_app_nth)
    have d: "drop (Suc j) ?ys = xs ! j # drop (Suc (Suc j)) xs"
      using Suc.prems by (simp add: Cons_nth_drop_Suc [symmetric, of "Suc j"] drop_update_cancel)
    have "sink lo (Suc j) xs = take lo ?ys @ ?ys ! j # drop lo (take j ?ys) @ drop (Suc j) ?ys"
      using True Suc.prems by (simp add: Suc.IH)
    also have "\<dots> = take lo xs @ xs ! Suc j # drop lo (take j xs) @ xs ! j # drop (Suc (Suc j)) xs"
      using True Suc.prems by (simp add: d)
    also have "\<dots> = take lo xs @ xs ! Suc j # drop lo (take (Suc j) xs) @ drop (Suc (Suc j)) xs"
      using True Suc.prems by (simp add: t)
    finally show ?thesis .
  next
    case False
    with Suc.prems have "lo = Suc j" by simp
    with Suc.prems show ?thesis by (simp add: id_take_nth_drop [symmetric])
  qed
qed

text \<open>One round: an element is inserted into the sorted front part.\<close>

definition desc :: "('q :: linorder) acceptedType list \<Rightarrow> bool" where
  "desc xs \<longleftrightarrow> sorted_wrt (\<lambda>a b. rank a \<ge> rank b) xs"

definition stable_desc :: "('q :: linorder) acceptedType list \<Rightarrow> bool" where
  "stable_desc xs \<longleftrightarrow> sorted_wrt (\<lambda>a b. rank a > rank b \<or> rank a = rank b \<and> order a < order b) xs"

lemma desc_nth: "desc xs \<Longrightarrow> j \<le> k \<Longrightarrow> k < length xs \<Longrightarrow> rank (xs ! k) \<le> rank (xs ! j)"
  unfolding desc_def by (metis le_neq_implies_less order_refl sorted_wrt_nth_less)

lemma place_desc:
  assumes "q_ordered N" and "desc (take i ats)" and "i \<le> length ats"
  shows "let r = nat (place N ats a 0 (int i - 1)) in
           r \<le> i \<and> (\<forall>k<r. rank a \<le> rank (ats ! k)) \<and> (\<forall>k. r \<le> k \<longrightarrow> k < i \<longrightarrow> rank (ats ! k) \<le> rank a)"
proof -
  have d: "rank (ats ! k) \<le> rank (ats ! j)" if "j \<le> k" "k < i" for j k
    using desc_nth [OF assms(2), of j k] that assms(3) by simp
  have "let r = place N ats a 0 (int i - 1) in
      0 \<le> r \<and> r \<le> int i - 1 + 1 \<and> (\<forall>k. int k < r \<longrightarrow> rank a \<le> rank (ats ! k)) \<and>
      (\<forall>k. r \<le> int k \<longrightarrow> k < i \<longrightarrow> rank (ats ! k) \<le> rank a)"
  proof (rule place_between)
    fix j
    assume j: "j < i"
    show "goes_after N a (ats ! j) \<Longrightarrow> \<forall>k\<le>j. rank a \<le> rank (ats ! k)"
      using d [OF _ j] unfolding goes_after_rank [OF assms(1)] by (auto intro: order_trans [OF less_imp_le])
    show "\<not> goes_after N a (ats ! j) \<Longrightarrow> \<forall>k. j \<le> k \<longrightarrow> k < i \<longrightarrow> rank (ats ! k) \<le> rank a"
      using d [of j] unfolding goes_after_rank [OF assms(1)] by (auto simp: not_less intro: order_trans)
  qed auto
  then show ?thesis by (auto simp: Let_def)
qed

lemma place_stable:
  assumes "q_ordered N" and "stable_desc (take i ats)" and "i \<le> length ats"
    and "\<And>k. k < i \<Longrightarrow> length (params (ats ! k)) = length (params a) \<and> order (ats ! k) < order a"
  shows "let r = nat (place N ats a 0 (int i - 1)) in
           r \<le> i \<and> (\<forall>k<r. rank a \<le> rank (ats ! k)) \<and> (\<forall>k. r \<le> k \<longrightarrow> k < i \<longrightarrow> rank (ats ! k) < rank a)"
proof -
  have d: "rank (ats ! k) \<le> rank (ats ! j)" if "j \<le> k" "k < i" for j k
  proof -
    have "desc (take i ats)" using assms(2) unfolding desc_def stable_desc_def by (rule sorted_wrt_mono_rel [rotated]) auto
    from desc_nth [OF this, of j k] that assms(3) show ?thesis by simp
  qed
  have g: "goes_after N a (ats ! j) \<longleftrightarrow> rank a \<le> rank (ats ! j)" if "j < i" for j
    using assms(4) [OF that] unfolding goes_after_rank [OF assms(1)] by (auto simp: le_less)
  have "let r = place N ats a 0 (int i - 1) in
      0 \<le> r \<and> r \<le> int i - 1 + 1 \<and> (\<forall>k. int k < r \<longrightarrow> rank a \<le> rank (ats ! k)) \<and>
      (\<forall>k. r \<le> int k \<longrightarrow> k < i \<longrightarrow> rank (ats ! k) < rank a)"
  proof (rule place_between)
    fix j
    assume j: "j < i"
    show "goes_after N a (ats ! j) \<Longrightarrow> \<forall>k\<le>j. rank a \<le> rank (ats ! k)"
      using d j unfolding g [OF j] by (meson le_less_trans order_trans)
    show "\<not> goes_after N a (ats ! j) \<Longrightarrow> \<forall>k. j \<le> k \<longrightarrow> k < i \<longrightarrow> rank (ats ! k) < rank a"
      using d unfolding g [OF j] by (meson linorder_not_le le_less_trans)
  qed auto
  then show ?thesis by (auto simp: Let_def)
qed

lemma insert_sorted_wrt:
  assumes "sorted_wrt R (take i xs)" and "i < length xs" and "r \<le> i"
    and "\<forall>k<r. R (xs ! k) (xs ! i)" and "\<forall>k. r \<le> k \<longrightarrow> k < i \<longrightarrow> R (xs ! i) (xs ! k)"
  shows "sorted_wrt R (take (Suc i) (sink r i xs))" and "mset (sink r i xs) = mset xs"
    and "drop (Suc i) (sink r i xs) = drop (Suc i) xs"
proof -
  have s: "sink r i xs = take r xs @ xs ! i # drop r (take i xs) @ drop (Suc i) xs" by (rule sink_rotates [OF assms(3,2)])
  have split: "take i xs = take r xs @ drop r (take i xs)" using assms(3) by (metis append_take_drop_id min.absorb1 take_take)
  have t: "take (Suc i) (sink r i xs) = take r xs @ xs ! i # drop r (take i xs)"
    using assms(2,3) by (simp add: s Suc_diff_le)
  have "\<forall>x\<in>set (take r xs). R x (xs ! i)" using assms(2-4) by (auto simp: in_set_conv_nth)
  moreover have "\<forall>x\<in>set (drop r (take i xs)). R (xs ! i) x" using assms(2,3,5) by (auto simp: in_set_conv_nth)
  moreover have "sorted_wrt R (take r xs @ drop r (take i xs))" using assms(1) split by simp
  ultimately show "sorted_wrt R (take (Suc i) (sink r i xs))" unfolding t by (auto simp: sorted_wrt_append)
  show "drop (Suc i) (sink r i xs) = drop (Suc i) xs"
    using assms(2,3) by (simp add: s Suc_diff_le)
  have "mset xs = mset (take i xs) + mset (xs ! i # drop (Suc i) xs)"
    using assms(2) by (metis id_take_nth_drop mset_append)
  moreover have "mset (take i xs) = mset (take r xs) + mset (drop r (take i xs))" using split by (metis mset_append)
  ultimately show "mset (sink r i xs) = mset xs" unfolding s by simp
qed

lemma sort_loop_desc:
  assumes "q_ordered N"
  shows "i + k = length ats \<Longrightarrow> desc (take i ats) \<Longrightarrow> desc (sort_loop N i k ats) \<and> mset (sort_loop N i k ats) = mset ats"
proof (induction k arbitrary: i ats)
  case (Suc k)
  define r where "r = nat (place N ats (ats ! i) 0 (int i - 1))"
  have p: "r \<le> i" "\<forall>k<r. rank (ats ! i) \<le> rank (ats ! k)" "\<forall>k. r \<le> k \<longrightarrow> k < i \<longrightarrow> rank (ats ! k) \<le> rank (ats ! i)"
    using place_desc [OF assms Suc.prems(2), of "ats ! i"] Suc.prems(1) by (simp_all add: r_def Let_def)
  note ins = insert_sorted_wrt [where R = "\<lambda>a b. rank a \<ge> rank b", OF Suc.prems(2) [unfolded desc_def] _ p]
  have "length (sink r i ats) = length ats" using ins(2) Suc.prems(1) by (metis add_Suc_right less_add_Suc1 size_mset)
  with Suc.IH [of "Suc i" "sink r i ats"] ins Suc.prems(1) show ?case by (simp add: r_def desc_def)
qed simp

lemma sortAcceptedTypes_desc:
  assumes "q_ordered N"
  shows "desc (sortAcceptedTypes N ats) \<and> mset (sortAcceptedTypes N ats) = mset ats"
proof (cases "length ats < 2")
  case True
  then show ?thesis by (cases ats) (auto simp: sortAcceptedTypes_def desc_def)
next
  case False
  have "desc (take 1 ats)" by (cases ats) (auto simp: desc_def)
  with sort_loop_desc [OF assms, of 1 "length ats - 1" ats] False show ?thesis by (simp add: sortAcceptedTypes_def)
qed

text \<open>In a request without parameters other than the quality, as \<open>getOffer\<close> numbers the types, the order is stable.\<close>

definition in_sequence :: "nat \<Rightarrow> 'q acceptedType list \<Rightarrow> bool" where
  "in_sequence i ats \<longleftrightarrow>
     (\<forall>x\<in>set (take i ats). \<forall>y\<in>set (drop i ats). order x < order y) \<and> sorted_wrt (\<lambda>x y. order x < order y) (drop i ats)"

lemma sort_loop_stable:
  assumes "q_ordered N"
  shows "i + k = length ats \<Longrightarrow> stable_desc (take i ats) \<Longrightarrow> in_sequence i ats \<Longrightarrow> \<forall>x\<in>set ats. length (params x) = l \<Longrightarrow>
    stable_desc (sort_loop N i k ats)"
proof (induction k arbitrary: i ats)
  case (Suc k)
  define a r where "a = ats ! i" and "r = nat (place N ats (ats ! i) 0 (int i - 1))"
  have i: "i < length ats" using Suc.prems(1) by simp
  have d: "drop i ats = a # drop (Suc i) ats" unfolding a_def using i by (rule Cons_nth_drop_Suc [symmetric])
  have front: "length (params (ats ! k)) = length (params a) \<and> order (ats ! k) < order a" if "k < i" for k
  proof -
    have "ats ! k \<in> set (take i ats)" using that i by (auto simp: in_set_conv_nth)
    then have "order (ats ! k) < order a" using Suc.prems(3) d by (auto simp: in_sequence_def)
    moreover have "ats ! k \<in> set ats" "a \<in> set ats" using that i by (auto simp: a_def)
    then have "length (params (ats ! k)) = length (params a)" using Suc.prems(4) by auto
    ultimately show ?thesis by simp
  qed
  have p: "r \<le> i" "\<forall>k<r. rank a \<le> rank (ats ! k)" "\<forall>k. r \<le> k \<longrightarrow> k < i \<longrightarrow> rank (ats ! k) < rank a"
    using place_stable [OF assms Suc.prems(2), of a] front i by (simp_all add: r_def a_def Let_def)
  note ins = insert_sorted_wrt [OF Suc.prems(2) [unfolded stable_desc_def] i p(1)]
  have R: "\<forall>k<r. rank (ats ! k) > rank (ats ! i) \<or> rank (ats ! k) = rank (ats ! i) \<and> order (ats ! k) < order (ats ! i)"
    "\<forall>k. r \<le> k \<longrightarrow> k < i \<longrightarrow> rank (ats ! i) > rank (ats ! k) \<or> rank (ats ! i) = rank (ats ! k) \<and> order (ats ! i) < order (ats ! k)"
    using p front by (auto simp: a_def le_less)
  note ins = ins [OF R]
  let ?s = "sink r i ats"
  have l: "length ?s = length ats" "set ?s = set ats" using ins(2) by (metis size_mset, metis set_mset_mset)
  have "take (Suc i) ?s @ drop (Suc i) ats = ?s" using ins(3) by (metis append_take_drop_id)
  then have "mset (take (Suc i) ?s) + mset (drop (Suc i) ats) = mset (take (Suc i) ats) + mset (drop (Suc i) ats)"
    using ins(2) by (metis append_take_drop_id mset_append)
  then have "set (take (Suc i) ?s) = set (take (Suc i) ats)" by (metis add_right_cancel set_mset_mset)
  then have "in_sequence (Suc i) ?s"
    using Suc.prems(3) i ins(3) d by (auto simp: in_sequence_def take_Suc_conv_app_nth a_def)
  with Suc.IH [of "Suc i" ?s] ins(1) l Suc.prems(1,4) show ?case by (simp add: r_def stable_desc_def)
qed simp

lemma accepted_types_orders: "sorted_wrt (\<lambda>x y. order x < order y) (accepted_types N hdr)"
proof -
  define f where "f = (\<lambda>(n, b). accepted_type N n b)"
  have o: "accepted_type N n b = Some a \<Longrightarrow> order a = n" for n b a
    by (auto simp: accepted_type_def Let_def split: prod.splits if_splits)
  have "sorted_wrt (\<lambda>x y. order x < order y) (List.map_filter f (zip [m..<m + length bs] bs)) \<and>
      (\<forall>a\<in>set (List.map_filter f (zip [m..<m + length bs] bs)). m \<le> order a)" for m and bs
  proof (induction bs arbitrary: m)
    case (Cons b bs)
    let ?t = "List.map_filter f (zip [Suc m..<Suc m + length bs] bs)"
    have "[m..<m + length (b # bs)] = m # [Suc m..<Suc m + length bs]" by (simp add: upt_conv_Cons del: upt_Suc)
    then have e: "List.map_filter f (zip [m..<m + length (b # bs)] (b # bs)) =
        (case accepted_type N m b of None \<Rightarrow> ?t | Some a \<Rightarrow> a # ?t)"
      by (simp only: zip_Cons_Cons List.map_filter_simps) (simp add: f_def)
    have t: "sorted_wrt (\<lambda>x y. order x < order y) ?t" "\<forall>a\<in>set ?t. m < order a" using Cons [of "Suc m"] by (auto simp: Suc_le_eq)
    show ?case
    proof (cases "accepted_type N m b")
      case None
      with t show ?thesis unfolding e by (simp add: less_imp_le)
    next
      case (Some a)
      with t o [OF Some] show ?thesis unfolding e by (simp add: less_imp_le)
    qed
  qed (simp add: List.map_filter_simps)
  from this [of 1 "forEachMediaRange hdr"] show ?thesis by (simp add: accepted_types_def f_def add.commute)
qed

lemma first_offer_Some:
  assumes "\<And>off. acc (spec a) off (params a) \<noteq> None"
  shows "first_offer acc a offers = Some (find (\<lambda>off. off \<noteq> [] \<and> acc (spec a) off (params a) = Some True) offers)"
proof (induction offers)
  case (Cons off offers)
  obtain b where "acc (spec a) off (params a) = Some b" using assms by fastforce
  with Cons show ?case by (cases b) auto
qed simp

definition matches :: "(bytes \<Rightarrow> bytes \<Rightarrow> bytes \<Rightarrow> bool go) \<Rightarrow> 'q acceptedType \<Rightarrow> bytes \<Rightarrow> bool" where
  "matches acc a off \<longleftrightarrow> off \<noteq> [] \<and> acc (spec a) off (params a) = Some True"

text \<open>An offer that one of the types accepts, such that no type of a higher rank accepts any offer.\<close>

definition best_offer ::
    "(bytes \<Rightarrow> bytes \<Rightarrow> bytes \<Rightarrow> bool go) \<Rightarrow> ('q :: linorder) acceptedType set \<Rightarrow> bytes list \<Rightarrow> bytes \<Rightarrow> bool" where
  "best_offer acc A offers r \<longleftrightarrow>
     r \<in> set offers \<and> (\<exists>a\<in>A. matches acc a r \<and> (\<forall>a'\<in>A. \<forall>off\<in>set offers. matches acc a' off \<longrightarrow> rank a' \<le> rank a))"

lemma find_offer_best:
  assumes "\<And>s off ps. acc s off ps \<noteq> None" and "desc ats"
  shows "\<exists>r. find_offer acc ats offers = Some r \<and>
    (best_offer acc (set ats) offers r \<or> r = [] \<and> (\<forall>a\<in>set ats. \<forall>off\<in>set offers. \<not> matches acc a off))"
  using assms(2)
proof (induction ats)
  case (Cons a ats)
  let ?f = "find (\<lambda>off. off \<noteq> [] \<and> acc (spec a) off (params a) = Some True) offers"
  have f: "first_offer acc a offers = Some ?f" using assms(1) by (rule first_offer_Some)
  show ?case
  proof (cases ?f)
    case None
    then have n: "\<forall>off\<in>set offers. \<not> matches acc a off" by (auto simp: find_None_iff matches_def)
    then have "best_offer acc (set ats) offers r \<Longrightarrow> best_offer acc (set (a # ats)) offers r" for r
      by (auto simp: best_offer_def)
    with Cons None f n show ?thesis by (auto simp: desc_def)
  next
    case (Some off)
    then have off: "off \<in> set offers" "matches acc a off" by (auto simp: find_Some_iff matches_def)
    moreover have "\<forall>a'\<in>set (a # ats). rank a' \<le> rank a" using Cons.prems by (auto simp: desc_def)
    ultimately have "best_offer acc (set (a # ats)) offers off" by (auto simp: best_offer_def)
    with f Some show ?thesis by simp
  qed
qed simp

text \<open>Claim C25: if a header is present and the matching function does not panic, getOffer returns an offer that a media range
  of the header accepts, and no media range that accepts any of the offers has a higher quality, or the same
  quality and is more specific; if no offer is accepted it returns the empty string.\<close>

theorem getOffer_best:
  assumes "q_ordered N" and "hdr \<noteq> []" and "offers \<noteq> []" and "\<And>s off ps. acc s off ps \<noteq> None"
  shows "\<exists>r. getOffer N hdr acc offers = Some r \<and>
    (best_offer acc (set (accepted_types N hdr)) offers r \<or>
     r = [] \<and> (\<forall>a\<in>set (accepted_types N hdr). \<forall>off\<in>set offers. \<not> matches acc a off))"
proof -
  let ?ats = "accepted_types N hdr"
  define s where "s = (if length ?ats > 1 then sortAcceptedTypes N ?ats else ?ats)"
  have "desc ?ats" if "\<not> length ?ats > 1" using that by (cases ?ats) (auto simp: desc_def)
  with sortAcceptedTypes_desc [OF assms(1), of ?ats] have "desc s" "mset s = mset ?ats" by (auto simp: s_def)
  then have "desc s" "set s = set ?ats" by (auto dest: mset_eq_setD)
  moreover have "getOffer N hdr acc offers = find_offer acc s offers" using assms(2,3) by (simp add: getOffer_def s_def Let_def)
  ultimately show ?thesis using find_offer_best [of acc s offers, OF assms(4)] by simp
qed

text \<open>sorting the accepted types of a header permutes them into the descending order of quality and specificity; if
  no media range has parameters other than the quality, types of equal rank keep their order in the header.\<close>

theorem sortAcceptedTypes_sorts:
  assumes "q_ordered N"
  shows "mset (sortAcceptedTypes N ats) = mset ats \<and> desc (sortAcceptedTypes N ats) \<and>
    ((\<forall>a\<in>set (accepted_types N hdr). params a = []) \<longrightarrow> stable_desc (sortAcceptedTypes N (accepted_types N hdr)))"
proof -
  let ?ats = "accepted_types N hdr"
  have "stable_desc (sortAcceptedTypes N ?ats)" if p: "\<forall>a\<in>set ?ats. params a = []"
  proof (cases "length ?ats < 2")
    case True
    then show ?thesis by (cases ?ats) (auto simp: sortAcceptedTypes_def stable_desc_def)
  next
    case False
    then obtain a as where a: "?ats = a # as" by (cases ?ats) auto
    have "stable_desc (take 1 ?ats)" "in_sequence 1 ?ats"
      using accepted_types_orders [of N hdr] by (auto simp: a stable_desc_def in_sequence_def)
    with sort_loop_stable [OF assms, of 1 "length ?ats - 1" ?ats 0] False p show ?thesis by (simp add: sortAcceptedTypes_def)
  qed
  with sortAcceptedTypes_desc [OF assms] show ?thesis by blast
qed

text \<open>A concrete negotiation: numbers of one digit, no extension types, case-sensitive comparison.\<close>

definition sample_nego :: "nat nego" where
  "sample_nego =
     \<lparr>ParseUfloat = (\<lambda>b. case b of [d] \<Rightarrow> Some (byte_val d - 48) | _ \<Rightarrow> None), q_zero = 0, q_one = 1, q_less = (<), q_eq = (=),
      GetMIME = (\<lambda>_. ''a/b''), EqualFold = (=)\<rparr>"

lemma sample_ordered: "q_ordered sample_nego"
  by (simp add: q_ordered_def sample_nego_def)

lemma sample_types:
  "accepted_types sample_nego ''a/b,c/d;q=2'' =
     [\<lparr>spec = ''a/b'', quality = 1, specificity = 3, order = 1, params = []\<rparr>,
      \<lparr>spec = ''c/d'', quality = 2, specificity = 3, order = 2, params = []\<rparr>]"
proof -
  have "forEachMediaRange ''a/b,c/d;q=2'' = [''a/b'', ''c/d;q=2'']"
    by (simp add: forEachMediaRange_def media_ranges.simps IndexByte_def TrimLeft_def range_len_def Let_def)
  then show ?thesis
    by (simp add: accepted_types_def List.map_filter_simps accepted_type_def sample_nego_def IndexByte_def HasPrefix_def
        TrimRight_def specificity_of_def HasSuffix_def Let_def numeral_2_eq_2)
qed

theorem getOffer_best_witness:
  "\<exists>r. getOffer sample_nego ''a/b,c/d;q=2'' (\<lambda>s off ps. Some (s = off)) [''a/b'', ''c/d''] = Some r \<and>
     best_offer (\<lambda>s off ps. Some (s = off)) (set (accepted_types sample_nego ''a/b,c/d;q=2'')) [''a/b'', ''c/d''] r"
proof -
  let ?acc = "\<lambda>s off ps :: bytes. Some (s = off)"
  have "\<exists>a\<in>set (accepted_types sample_nego ''a/b,c/d;q=2''). \<exists>off\<in>set [''a/b'', ''c/d'']. matches ?acc a off"
    by (simp add: sample_types matches_def)
  with getOffer_best [OF sample_ordered, of "''a/b,c/d;q=2''" "[''a/b'', ''c/d'']" ?acc] show ?thesis by auto
qed

theorem sortAcceptedTypes_sorts_witness:
  "stable_desc (sortAcceptedTypes sample_nego (accepted_types sample_nego ''a/b,c/d;q=2''))"
  using sortAcceptedTypes_sorts [OF sample_ordered, of "[]" "''a/b,c/d;q=2''"] by (simp add: sample_types)

section \<open>Conditional requests\<close>

text \<open>The elements of the list without the blanks around them.\<close>

definition trimmed :: "bytes \<Rightarrow> bytes" where
  "trimmed s = TrimRight (TrimLeft s)"

lemma trimmed_snoc:
  "trimmed (s @ [CHR '' '']) = trimmed s"
  "ch \<noteq> CHR '' '' \<Longrightarrow> trimmed (s @ [ch]) = TrimLeft s @ [ch]"
proof -
  have l: "TrimLeft (s @ [x]) = (if TrimLeft s = [] \<and> x = CHR '' '' then [] else TrimLeft s @ [x])" for x
    by (induction s) (auto simp: TrimLeft_def)
  have r: "TrimRight (t @ [CHR '' '']) = TrimRight t" "x \<noteq> CHR '' '' \<Longrightarrow> TrimRight (t @ [x]) = t @ [x]" for t x
    by (simp_all add: TrimRight_def)
  show "trimmed (s @ [CHR '' '']) = trimmed s" by (simp add: trimmed_def l r)
  show "ch \<noteq> CHR '' '' \<Longrightarrow> trimmed (s @ [ch]) = TrimLeft s @ [ch]" by (simp add: trimmed_def l r)
qed

text \<open>While the loop is inside an element, \<open>seg\<close> is its part so far.\<close>

definition etag_inv :: "bytes \<Rightarrow> bytes \<Rightarrow> nat \<Rightarrow> nat \<Rightarrow> nat \<Rightarrow> bool" where
  "etag_inv h seg i start fin \<longleftrightarrow>
     start \<le> fin \<and> fin \<le> i \<and> Prelude.slice start fin h = trimmed seg \<and>
     (start = fin \<longrightarrow> start = i) \<and> Prelude.slice start i h = TrimLeft seg"

lemma slice_empty: "Prelude.slice a a h = []"
  by (simp add: Prelude.slice_def)

lemma etag_inv_step:
  assumes "etag_inv h seg i start fin" and "i < length h" and "h ! i = ch" and "ch \<noteq> CHR '',''"
  shows "if ch = CHR '' '' \<and> start = fin then etag_inv h (seg @ [ch]) (Suc i) (Suc i) (Suc i)
         else if ch = CHR '' '' then etag_inv h (seg @ [ch]) (Suc i) start fin
         else etag_inv h (seg @ [ch]) (Suc i) start (Suc i)"
proof -
  have s: "Prelude.slice start (Suc i) h = TrimLeft seg @ [ch]"
    using assms by (simp add: etag_inv_def slice_step)
  have t: "TrimLeft (seg @ [ch]) = (if TrimLeft seg = [] \<and> ch = CHR '' '' then [] else TrimLeft seg @ [ch])"
    by (induction seg) (auto simp: TrimLeft_def)
  have e: "start = fin \<longleftrightarrow> TrimLeft seg = []"
  proof
    assume "start = fin"
    with assms(1) show "TrimLeft seg = []" by (auto simp: etag_inv_def slice_empty)
  next
    assume "TrimLeft seg = []"
    with assms(1,2) show "start = fin" by (auto simp: etag_inv_def Prelude.slice_def)
  qed
  show ?thesis using assms s t e by (auto simp: etag_inv_def trimmed_snoc slice_empty)
qed

lemma Split_single: "sep \<notin> set w \<Longrightarrow> Split w sep = [w]"
  by (induction w) auto

lemma etag_loop_spec:
  "rest = drop i h \<Longrightarrow> i \<le> length h \<Longrightarrow> etag_inv h seg i start fin \<Longrightarrow> CHR '','' \<notin> set seg \<Longrightarrow>
     etag_loop etag h i rest start fin \<longleftrightarrow> (\<forall>e\<in>set (Split (seg @ rest) CHR '',''). \<not> matchEtag (trimmed e) etag)"
proof (induction rest arbitrary: i seg start fin)
  case Nil
  then show ?case by (simp add: etag_inv_def Split_single)
next
  case (Cons ch rest)
  then have i: "i < length h" "h ! i = ch" "rest = drop (Suc i) h" by (metis drop_ConsD)+
  show ?case
  proof (cases "ch = CHR '',''")
    case True
    have "etag_inv h [] (Suc i) (Suc i) (Suc i)" by (simp add: etag_inv_def slice_empty trimmed_def TrimLeft_def TrimRight_def)
    moreover have "Split (seg @ ch # rest) CHR '','' = seg # Split rest CHR '',''"
      using Cons.prems(4) True by (induction seg) (auto split: list.splits)
    ultimately show ?thesis using True i Cons.IH [of "Suc i" "[]" "Suc i" "Suc i"] Cons.prems(3) by (auto simp: etag_inv_def)
  next
    case False
    then have "CHR '','' \<notin> set (seg @ [ch])" using Cons.prems(4) by auto
    then show ?thesis
      using etag_inv_step [OF Cons.prems(3) i(1,2) False] False i Cons.IH [of "Suc i" "seg @ [ch]"] by (auto split: if_splits)
  qed
qed

text \<open>An entity tag is stale exactly if no element of the comma-separated If-None-Match list, without the blanks
  around it, is the tag itself, weak or not.\<close>

theorem isEtagStale_spec:
  "isEtagStale etag noneMatch = (filter (\<lambda>e. matchEtag (trimmed e) etag) (Split noneMatch CHR '','') = [])"
proof -
  have "etag_inv noneMatch [] 0 0 0" by (simp add: etag_inv_def slice_empty trimmed_def TrimLeft_def TrimRight_def)
  then show ?thesis
    using etag_loop_spec [of noneMatch 0 noneMatch "[]" 0 0 etag] by (auto simp: isEtagStale_def filter_empty_conv)
qed

section \<open>Where the code differs from its comments\<close>

text \<open>The comment of the sorting function says that a type with parameters comes before an equivalent one without. The
  condition for it compares specificities with less instead of equal and is never reached: of two types of
  the same rank that differ in the length of their parameters, the later one comes first.\<close>

theorem sort_ignores_params:
  fixes a b :: "('q :: linorder) acceptedType"
  assumes "q_ordered N" and "rank a = rank b" and "length (params a) \<noteq> length (params b)"
  shows "sortAcceptedTypes N [a, b] = [b, a]"
  using assms goes_after_rank [of N b a]
  by (simp add: sortAcceptedTypes_def place.simps)

text \<open>The positions in getSplicedStrList are 8-bit numbers: behind the 256th byte an element starts too early.\<close>

theorem getSplicedStrList_wraps:
  assumes "length h = 255" and "CHR '','' \<notin> set h"
  shows "getSplicedStrList (h @ '',b'') = [TrimLeft h, TrimLeft (h @ '',b'')]"
proof -
  have skip: "CHR '','' \<notin> set t \<Longrightarrow> splice_loop hv i (t @ r) l = splice_loop hv (i + length t) r l" for hv i t r l
    by (induction t arbitrary: i) auto
  have "getSplicedStrList (h @ '',b'') = splice_loop (h @ '',b'') 255 '',b'' 0"
    using skip [OF assms(2), of "h @ '',b''" 0 "'',b''" 0] assms(1) by (simp add: getSplicedStrList_def)
  then show ?thesis using assms(1) by (simp add: Prelude.slice_def)
qed

end
