(* ===== verification/Workerpool.thy ===== *)
theory Workerpool
  imports Prelude "HOL-Library.Multiset"
begin

text \<open>
  The worker pool of the server (src/fasthttp/workerpool.go). Its goroutines share the fields under one
  lock; the model is a transition system whose steps are the critical sections and the channel operations,
  interleaved in any order. A worker channel is an index into \<open>workers\<close>; \<open>outbox\<close> holds the sends that a
  goroutine is about to do, \<open>creating\<close> the calls of getCh that have counted a new worker and not yet
  started it. Stop sends while it holds the lock; the model lets other steps happen in between, which
  only adds behaviour. A channel has room for one message, and the rendezvous of an unbuffered channel is
  a send that is followed at once by its receipt. The pool of channels may hand out any channel that was
  put into it, or a new one. Times are integers.
\<close>

section \<open>State\<close>

datatype 'c phase = Waiting | Serving 'c | Releasing | Exiting | Leaving | InPool

record 'c workerChan =
  lastUseTime :: int
  ch :: "'c option list"
  phase :: "'c phase"

datatype 'c event = StateHijacked 'c | StateClosed 'c | Printf 'c

text \<open>What the connection handler returns: nil, errHijacked, or another error with its text and whether it
  is ErrBadTrailer.\<close>

datatype serve_err = NoErr | ErrHijacked | ServeErr bytes bool

record 'c workerPool =
  MaxWorkersCount :: int
  LogAllErrors :: bool
  MaxIdleWorkerDuration :: int
  workersCount :: int
  mustStop :: bool
  ready :: "nat list"
  stopCh :: bool
  workers :: "'c workerChan list"
  outbox :: "(nat \<times> 'c option) list"
  creating :: "'c list"
  accepted :: "'c list"
  events :: "'c event list"

abbreviation worker :: "'c workerPool \<Rightarrow> nat \<Rightarrow> 'c workerChan" where
  "worker p w \<equiv> workers p ! w"

abbreviation set_phase :: "nat \<Rightarrow> 'c phase \<Rightarrow> 'c workerPool \<Rightarrow> 'c workerPool" where
  "set_phase w f p \<equiv> p\<lparr>workers := (workers p)[w := (worker p w)\<lparr>phase := f\<rparr>]\<rparr>"

section \<open>Critical sections\<close>

definition wp_Start :: "'c workerPool \<Rightarrow> 'c workerPool" where
  "wp_Start p = (if stopCh p then p else p\<lparr>stopCh := True\<rparr>)"

definition wp_Stop :: "'c workerPool \<Rightarrow> 'c workerPool" where
  "wp_Stop p =
     (if \<not> stopCh p then p
      else p\<lparr>stopCh := False, outbox := outbox p @ map (\<lambda>w. (w, None)) (ready p), ready := [], mustStop := True\<rparr>)"

definition getMaxIdleWorkerDuration :: "'c workerPool \<Rightarrow> int" where
  "getMaxIdleWorkerDuration p =
     (if MaxIdleWorkerDuration p \<le> 0 then 10 * 10 ^ 9 else MaxIdleWorkerDuration p)"

text \<open>The binary search for the last worker that may be stopped; the indices it reads lie between \<open>l\<close> and
  \<open>r\<close>.\<close>

function clean_search :: "int \<Rightarrow> int list \<Rightarrow> int \<Rightarrow> int \<Rightarrow> int" where
  "clean_search crit ts l r =
     (if l \<le> r then
        let mid = (l + r) div 2
        in if crit > ts ! nat mid then clean_search crit ts (mid + 1) r else clean_search crit ts l (mid - 1)
      else r)"
  by pat_completeness auto
termination by (relation "measure (\<lambda>(crit, ts, l, r). nat (r - l + 1))") auto

declare clean_search.simps [simp del]

text \<open>The time is read before the lock is taken: \<open>now\<close> is any time up to that of the critical section.\<close>

definition clean :: "int \<Rightarrow> 'c workerPool \<Rightarrow> 'c workerPool" where
  "clean now p =
     (let criticalTime = now - getMaxIdleWorkerDuration p;
          ts = map (\<lambda>w. lastUseTime (worker p w)) (ready p);
          i = clean_search criticalTime ts 0 (int (length ts) - 1)
      in if i = - 1 then p
         else p\<lparr>ready := drop (nat (i + 1)) (ready p),
                outbox := outbox p @ map (\<lambda>w. (w, None)) (take (nat (i + 1)) (ready p))\<rparr>)"

text \<open>The critical section of getCh: no worker, a new worker that is only counted so far, or a ready one.\<close>

datatype ch_choice = NoCh | NewCh | ReadyCh nat

definition getCh :: "'c workerPool \<Rightarrow> 'c workerPool \<times> ch_choice" where
  "getCh p =
     (if ready p = [] then
        if workersCount p < MaxWorkersCount p then (p\<lparr>workersCount := workersCount p + 1\<rparr>, NewCh) else (p, NoCh)
      else (p\<lparr>ready := butlast (ready p)\<rparr>, ReadyCh (last (ready p))))"

text \<open>Serve: the pool and whether the connection is accepted. The send to the worker is still to come.\<close>

definition Serve :: "'c \<Rightarrow> 'c workerPool \<Rightarrow> 'c workerPool \<times> bool" where
  "Serve c p =
     (case getCh p of
        (p1, NoCh) \<Rightarrow> (p1, False)
      | (p1, NewCh) \<Rightarrow> (p1\<lparr>creating := creating p1 @ [c], accepted := accepted p1 @ [c]\<rparr>, True)
      | (p1, ReadyCh w) \<Rightarrow> (p1\<lparr>outbox := outbox p1 @ [(w, Some c)], accepted := accepted p1 @ [c]\<rparr>, True))"

lemma Serve_cases:
  "Serve c p =
     (if ready p = [] then
        if workersCount p < MaxWorkersCount p
        then (p\<lparr>workersCount := workersCount p + 1, creating := creating p @ [c], accepted := accepted p @ [c]\<rparr>, True)
        else (p, False)
      else (p\<lparr>ready := butlast (ready p), outbox := outbox p @ [(last (ready p), Some c)],
               accepted := accepted p @ [c]\<rparr>, True))"
  by (simp add: Serve_def getCh_def)

text \<open>The rest of getCh for a new worker: a new channel, or one of the pool.\<close>

definition spawn_new :: "'c \<Rightarrow> 'c workerPool \<Rightarrow> 'c workerPool" where
  "spawn_new c p =
     p\<lparr>creating := remove1 c (creating p), workers := workers p @ [\<lparr>lastUseTime = 0, ch = [], phase = Waiting\<rparr>],
       outbox := outbox p @ [(length (workers p), Some c)]\<rparr>"

definition spawn_old :: "nat \<Rightarrow> 'c \<Rightarrow> 'c workerPool \<Rightarrow> 'c workerPool" where
  "spawn_old w c p =
     set_phase w Waiting (p\<lparr>creating := remove1 c (creating p), outbox := outbox p @ [(w, Some c)]\<rparr>)"

text \<open>A send: one of the outstanding sends reaches its channel.\<close>

definition send :: "nat \<Rightarrow> 'c option \<Rightarrow> 'c workerPool \<Rightarrow> 'c workerPool" where
  "send w m p =
     p\<lparr>outbox := remove1 (w, m) (outbox p),
       workers := (workers p)[w := (worker p w)\<lparr>ch := ch (worker p w) @ [m]\<rparr>]\<rparr>"

section \<open>The worker: workerFunc\<close>

definition receive :: "nat \<Rightarrow> 'c workerPool \<Rightarrow> 'c workerPool" where
  "receive w p =
     p\<lparr>workers := (workers p)[w := (worker p w)\<lparr>ch := tl (ch (worker p w)),
         phase := (case hd (ch (worker p w)) of None \<Rightarrow> Exiting | Some c \<Rightarrow> Serving c)\<rparr>]\<rparr>"

definition logs_error :: "bool \<Rightarrow> serve_err \<Rightarrow> bool" where
  "logs_error logAll err =
     (case err of
        ServeErr errStr badTrailer \<Rightarrow>
          logAll \<or> \<not> (Contains errStr ''broken pipe'' \<or> Contains errStr ''reset by peer'' \<or>
                      Contains errStr ''request headers: small read buffer'' \<or> Contains errStr ''unexpected EOF'' \<or>
                      Contains errStr ''i/o timeout'' \<or> badTrailer)
      | _ \<Rightarrow> False)"

text \<open>The end of a connection, up to the time that release stores before it takes the lock.\<close>

definition served :: "nat \<Rightarrow> 'c \<Rightarrow> serve_err \<Rightarrow> int \<Rightarrow> 'c workerPool \<Rightarrow> 'c workerPool" where
  "served w c err now p =
     p\<lparr>events := events p @ (if logs_error (LogAllErrors p) err then [Printf c] else []) @
         [if err = ErrHijacked then StateHijacked c else StateClosed c],
       workers := (workers p)[w := (worker p w)\<lparr>lastUseTime := now, phase := Releasing\<rparr>]\<rparr>"

definition release :: "nat \<Rightarrow> 'c workerPool \<Rightarrow> 'c workerPool" where
  "release w p =
     (if mustStop p then set_phase w Exiting p else set_phase w Waiting (p\<lparr>ready := ready p @ [w]\<rparr>))"

definition exit_worker :: "nat \<Rightarrow> 'c workerPool \<Rightarrow> 'c workerPool" where
  "exit_worker w p = set_phase w Leaving (p\<lparr>workersCount := workersCount p - 1\<rparr>)"

section \<open>Interleavings\<close>

inductive pool_step :: "'c workerPool \<Rightarrow> 'c workerPool \<Rightarrow> bool" where
  Start: "pool_step p (wp_Start p)"
| Stop: "pool_step p (wp_Stop p)"
| Clean: "pool_step p (clean now p)"
| ServeConn: "pool_step p (fst (Serve c p))"
| SpawnNew: "c \<in> set (creating p) \<Longrightarrow> pool_step p (spawn_new c p)"
| SpawnOld: "c \<in> set (creating p) \<Longrightarrow> w < length (workers p) \<Longrightarrow> phase (worker p w) = InPool \<Longrightarrow> pool_step p (spawn_old w c p)"
| Send: "(w, m) \<in> set (outbox p) \<Longrightarrow> ch (worker p w) = [] \<Longrightarrow> pool_step p (send w m p)"
| Receive: "w < length (workers p) \<Longrightarrow> phase (worker p w) = Waiting \<Longrightarrow> ch (worker p w) \<noteq> [] \<Longrightarrow> pool_step p (receive w p)"
| Served: "w < length (workers p) \<Longrightarrow> phase (worker p w) = Serving c \<Longrightarrow> pool_step p (served w c err now p)"
| Release: "w < length (workers p) \<Longrightarrow> phase (worker p w) = Releasing \<Longrightarrow> pool_step p (release w p)"
| Exit: "w < length (workers p) \<Longrightarrow> phase (worker p w) = Exiting \<Longrightarrow> pool_step p (exit_worker w p)"
| PutBack: "w < length (workers p) \<Longrightarrow> phase (worker p w) = Leaving \<Longrightarrow> pool_step p (set_phase w InPool p)"

text \<open>A pool as the server makes it.\<close>

definition new_pool :: "int \<Rightarrow> bool \<Rightarrow> int \<Rightarrow> 'c workerPool" where
  "new_pool maxWorkers logAll maxIdle =
     \<lparr>MaxWorkersCount = maxWorkers, LogAllErrors = logAll, MaxIdleWorkerDuration = maxIdle, workersCount = 0,
      mustStop = False, ready = [], stopCh = False, workers = [], outbox = [], creating = [], accepted = [], events = []\<rparr>"

inductive pool_reach :: "'c workerPool \<Rightarrow> bool" where
  init: "pool_reach (new_pool maxWorkers logAll maxIdle)"
| step: "pool_reach p \<Longrightarrow> pool_step p p' \<Longrightarrow> pool_reach p'"

section \<open>The invariant\<close>

text \<open>The messages a channel is still to deliver to its worker.\<close>

definition msgs :: "'c workerPool \<Rightarrow> nat \<Rightarrow> 'c option list" where
  "msgs p w = ch (worker p w) @ map snd (filter (\<lambda>x. fst x = w) (outbox p))"

text \<open>A waiting worker is listed as ready or exactly one message is on its way to it; no other worker is
  ready, and no message is on its way to it.\<close>

definition slot_ok :: "'c workerPool \<Rightarrow> nat \<Rightarrow> bool" where
  "slot_ok p w \<longleftrightarrow>
     (w \<in> set (ready p) \<longrightarrow> phase (worker p w) = Waiting \<and> msgs p w = []) \<and>
     (w \<notin> set (ready p) \<longrightarrow> phase (worker p w) = Waiting \<longrightarrow> length (msgs p w) = 1) \<and>
     (phase (worker p w) \<noteq> Waiting \<longrightarrow> msgs p w = [])"

definition live :: "'c workerChan \<Rightarrow> int" where
  "live w = (case phase w of Leaving \<Rightarrow> 0 | InPool \<Rightarrow> 0 | _ \<Rightarrow> 1)"

definition msg_conn :: "'c option \<Rightarrow> 'c multiset" where
  "msg_conn m = (case m of None \<Rightarrow> {#} | Some c \<Rightarrow> {#c#})"

definition held :: "'c workerChan \<Rightarrow> 'c multiset" where
  "held w = sum_list (map msg_conn (ch w)) + (case phase w of Serving c \<Rightarrow> {#c#} | _ \<Rightarrow> {#})"

definition ended :: "'c event \<Rightarrow> 'c multiset" where
  "ended e = (case e of StateHijacked c \<Rightarrow> {#c#} | StateClosed c \<Rightarrow> {#c#} | Printf c \<Rightarrow> {#})"

definition slots_ok :: "'c workerPool \<Rightarrow> bool" where
  "slots_ok p \<longleftrightarrow> distinct (ready p) \<and> set (ready p) \<subseteq> {..<length (workers p)} \<and>
     fst ` set (outbox p) \<subseteq> {..<length (workers p)} \<and> (\<forall>w<length (workers p). slot_ok p w)"

definition count_ok :: "'c workerPool \<Rightarrow> bool" where
  "count_ok p \<longleftrightarrow> workersCount p = sum_list (map live (workers p)) + int (length (creating p)) \<and>
     workersCount p \<le> max 0 (MaxWorkersCount p)"

definition conns_ok :: "'c workerPool \<Rightarrow> bool" where
  "conns_ok p \<longleftrightarrow>
     mset (accepted p) = mset (creating p) + sum_list (map (\<lambda>x. msg_conn (snd x)) (outbox p)) +
       sum_list (map held (workers p)) + sum_list (map ended (events p))"

section \<open>Every step keeps the invariant\<close>

lemma sum_list_update:
  fixes f :: "'a \<Rightarrow> 'b :: comm_monoid_add"
  shows "i < length xs \<Longrightarrow> sum_list (map f (xs[i := y])) + f (xs ! i) = sum_list (map f xs) + f y"
proof (induction xs arbitrary: i)
  case (Cons x xs)
  show ?case
  proof (cases i)
    case 0
    then show ?thesis by (simp add: ac_simps)
  next
    case (Suc k)
    with Cons show ?thesis by (simp add: add.assoc)
  qed
qed simp

lemma live_update:
  "w < length ws \<Longrightarrow> sum_list (map live (ws[w := v])) = sum_list (map live ws) + live v - live (ws ! w)"
  using sum_list_update [of w ws live v] by simp

lemma held_update:
  "w < length ws \<Longrightarrow> sum_list (map held (ws[w := v])) + held (ws ! w) = sum_list (map held ws) + held v"
  by (rule sum_list_update)

text \<open>The search stays in the list, and in a sorted list it finds the border between the times before the
  critical one and the others.\<close>

lemma clean_search_range:
  assumes "- 1 \<le> r" and "l \<le> r + 1" and "0 \<le> l"
  shows "l - 1 \<le> clean_search crit ts l r \<and> clean_search crit ts l r \<le> r"
  using assms
proof (induction crit ts l r rule: clean_search.induct)
  case (1 crit ts l r)
  define mid where "mid = (l + r) div 2"
  show ?case
  proof (cases "l \<le> r")
    case True
    then have "l \<le> mid" "mid \<le> r" by (auto simp: mid_def)
    with 1 True show ?thesis
      by (subst (1 2) clean_search.simps) (auto simp: Let_def mid_def [symmetric])
  next
    case False
    with 1 show ?thesis by (simp add: clean_search.simps)
  qed
qed

lemma clean_search_sorted:
  assumes "sorted ts" and "0 \<le> l" and "r < int (length ts)" and "l \<le> r + 1"
    and "\<forall>j<nat l. ts ! j < crit" and "\<forall>j. nat (r + 1) \<le> j \<longrightarrow> j < length ts \<longrightarrow> \<not> ts ! j < crit"
  shows "let i = clean_search crit ts l r in
           (\<forall>j<nat (i + 1). ts ! j < crit) \<and> (\<forall>j. nat (i + 1) \<le> j \<longrightarrow> j < length ts \<longrightarrow> \<not> ts ! j < crit)"
  using assms
proof (induction crit ts l r rule: clean_search.induct)
  case (1 crit ts l r)
  define mid where "mid = (l + r) div 2"
  show ?case
  proof (cases "l \<le> r")
    case True
    then have m: "l \<le> mid" "mid \<le> r" by (auto simp: mid_def)
    show ?thesis
    proof (cases "crit > ts ! nat mid")
      case T: True
      have "\<forall>j<nat (mid + 1). ts ! j < crit"
      proof (intro allI impI)
        fix j assume "j < nat (mid + 1)"
        then have "j \<le> nat mid" "nat mid < length ts" using m 1(4,5) by auto
        then have "ts ! j \<le> ts ! nat mid" using 1(3) sorted_nth_mono by blast
        with T show "ts ! j < crit" by linarith
      qed
      then show ?thesis
        using 1(1) [OF True mid_def T] 1(3-) True m T by (subst clean_search.simps) (simp add: Let_def mid_def [symmetric])
    next
      case F: False
      have "\<not> ts ! j < crit" if "nat (mid - 1 + 1) \<le> j" "j < length ts" for j
      proof -
        have "ts ! nat mid \<le> ts ! j" using that 1(3) sorted_nth_mono by auto
        with F show ?thesis by linarith
      qed
      then show ?thesis
        using 1(2) [OF True mid_def F] 1(3-) True m F by (subst clean_search.simps) (simp add: Let_def mid_def [symmetric])
    qed
  next
    case False
    with 1(3-) have "nat (r + 1) = nat l" by simp
    with False 1(3-) show ?thesis by (simp add: clean_search.simps Let_def)
  qed
qed

lemma slots_okI:
  assumes "distinct (ready p)" and "\<And>w. w \<in> set (ready p) \<Longrightarrow> w < length (workers p)"
    and "\<And>w m. (w, m) \<in> set (outbox p) \<Longrightarrow> w < length (workers p)"
    and "\<And>w. w < length (workers p) \<Longrightarrow> slot_ok p w"
  shows "slots_ok p"
  using assms by (force simp: slots_ok_def)

lemma slots_okD:
  assumes "slots_ok p"
  shows "distinct (ready p)" and "w \<in> set (ready p) \<Longrightarrow> w < length (workers p)"
    and "(w, m) \<in> set (outbox p) \<Longrightarrow> w < length (workers p)" and "w < length (workers p) \<Longrightarrow> slot_ok p w"
  using assms by (force simp: slots_ok_def)+

text \<open>Taking workers out of the ready list and sending each of them a message.\<close>

lemma notify_none:
  "map snd (filter (\<lambda>x. fst x = w) (map (\<lambda>w. (w, None)) ws)) = replicate (count_list ws w) None"
  by (induction ws) auto

lemma distinct_count_list: "distinct xs \<Longrightarrow> count_list xs x = (if x \<in> set xs then 1 else 0)"
  by (induction xs) auto

lemma notify_slots:
  assumes "slots_ok p" and "ready p = stop @ keep"
  shows "slots_ok (p\<lparr>ready := keep, outbox := outbox p @ map (\<lambda>w. (w, None)) stop\<rparr>)"
proof (rule slots_okI)
  note D = slots_okD [OF assms(1)]
  have d: "distinct stop" "distinct keep" "set stop \<inter> set keep = {}" using D(1) assms(2) by auto
  fix w
  assume w: "w < length (workers (p\<lparr>ready := keep, outbox := outbox p @ map (\<lambda>w. (w, None)) stop\<rparr>))"
  show "slot_ok (p\<lparr>ready := keep, outbox := outbox p @ map (\<lambda>w. (w, None)) stop\<rparr>) w"
    using D(4) [of w] w d assms(2)
    by (auto simp: slot_ok_def msgs_def notify_none distinct_count_list split: if_splits)
qed (use slots_okD [OF assms(1)] assms(2) in auto)

lemmas slots_defs = slots_ok_def slot_ok_def msgs_def

lemma Stop_slots:
  assumes "slots_ok p"
  shows "slots_ok (wp_Stop p)"
  using notify_slots [OF assms, of "ready p" "[]"] assms by (simp add: wp_Stop_def slots_defs)

lemma Clean_slots: "slots_ok p \<Longrightarrow> slots_ok (clean now p)"
  using notify_slots [of p "take n (ready p)" "drop n (ready p)" for n] by (auto simp: clean_def Let_def)

lemma Serve_slots:
  assumes "slots_ok p"
  shows "slots_ok (fst (Serve c p))"
proof (cases "ready p = []")
  case True
  with assms show ?thesis by (simp add: Serve_cases slots_defs)
next
  case False
  then obtain ws l where r: "ready p = ws @ [l]" by (metis append_butlast_last_id)
  note D = slots_okD [OF assms]
  let ?p = "fst (Serve c p)"
  have p': "ready ?p = ws" "workers ?p = workers p" "outbox ?p = outbox p @ [(l, Some c)]"
    by (simp_all add: Serve_cases r)
  show ?thesis
  proof (rule slots_okI)
    fix w
    assume "w < length (workers ?p)"
    then show "slot_ok ?p w" using D(1) D(4) [of w] unfolding slot_ok_def msgs_def p' r by (auto split: if_splits)
  next
    fix w m
    assume "(w, m) \<in> set (outbox ?p)"
    then show "w < length (workers ?p)" using D(2,3) unfolding p' r by auto
  qed (use D r p' in auto)
qed

lemma spawn_new_slots:
  assumes "slots_ok p"
  shows "slots_ok (spawn_new c p)"
proof (rule slots_okI)
  note D = slots_okD [OF assms]
  let ?n = "length (workers p)"
  have none: "filter (\<lambda>x. fst x = ?n) (outbox p) = []" using D(3) by (force simp: filter_empty_conv)
  fix w
  assume "w < length (workers (spawn_new c p))"
  then consider "w = ?n" | "w < ?n" "w \<noteq> ?n" by (force simp: spawn_new_def)
  then show "slot_ok (spawn_new c p) w"
    using D(4) [of w] D(2) [of w] none by cases (auto simp: slot_ok_def msgs_def spawn_new_def nth_append)
next
  fix w m
  assume "(w, m) \<in> set (outbox (spawn_new c p))"
  then show "w < length (workers (spawn_new c p))" using slots_okD(3) [OF assms] by (fastforce simp: spawn_new_def)
next
  fix w
  assume "w \<in> set (ready (spawn_new c p))"
  then show "w < length (workers (spawn_new c p))" using slots_okD(2) [OF assms] by (fastforce simp: spawn_new_def)
qed (use slots_okD [OF assms] in \<open>simp add: spawn_new_def\<close>)

text \<open>A step of one worker, or of a goroutine that deals with it, leaves the slots of the others alone.\<close>

lemma one_slot:
  assumes "slots_ok p" and "w < length (workers p)" and "workers p' = (workers p)[w := v]"
    and "\<And>u. u \<noteq> w \<Longrightarrow> u \<in> set (ready p') \<longleftrightarrow> u \<in> set (ready p)" and "distinct (ready p')"
    and "\<And>u. u \<noteq> w \<Longrightarrow> filter (\<lambda>x. fst x = u) (outbox p') = filter (\<lambda>x. fst x = u) (outbox p)"
    and "slot_ok p' w"
  shows "slots_ok p'"
proof (rule slots_okI)
  note D = slots_okD [OF assms(1)]
  fix u
  assume "u < length (workers p')"
  then show "slot_ok p' u"
    using D(4) [of u] assms(4,6) [of u] assms(3,7) by (cases "u = w") (simp_all add: slot_ok_def msgs_def)
next
  note D = slots_okD [OF assms(1)]
  fix u m
  assume "(u, m) \<in> set (outbox p')"
  then have "(u, m) \<in> set (filter (\<lambda>x. fst x = u) (outbox p'))" by simp
  then have "u = w \<or> (u, m) \<in> set (outbox p)" using assms(6) [of u] by (cases "u = w") auto
  then show "u < length (workers p')" using D(3) assms(2,3) by auto
next
  fix u
  assume "u \<in> set (ready p')"
  then have "u = w \<or> u \<in> set (ready p)" using assms(4) by blast
  then show "u < length (workers p')" using slots_okD(2) [OF assms(1)] assms(2,3) by auto
qed (rule assms(5))

lemma spawn_old_slots:
  assumes "slots_ok p" and "w < length (workers p)" and "phase (worker p w) = InPool"
  shows "slots_ok (spawn_old w c p)"
  using assms slots_okD [OF assms(1)]
  by (intro one_slot [OF assms(1,2)]) (auto simp: spawn_old_def slot_ok_def msgs_def)

lemma filter_remove1_other: "\<not> P x \<Longrightarrow> filter P (remove1 x xs) = filter P xs"
  by (induction xs) auto

lemma send_slots:
  assumes "slots_ok p" and "(w, m) \<in> set (outbox p)" and "ch (worker p w) = []"
  shows "slots_ok (send w m p)"
proof (rule one_slot [OF assms(1)])
  note D = slots_okD [OF assms(1)]
  show w: "w < length (workers p)" by (rule D(3) [OF assms(2)])
  have f: "(w, m) \<in> set (filter (\<lambda>x. fst x = w) (outbox p))" using assms(2) by simp
  have ok: "slot_ok p w" by (rule D(4) [OF w])
  then have "length (filter (\<lambda>x. fst x = w) (outbox p)) = 1" "phase (worker p w) = Waiting" "w \<notin> set (ready p)"
    using f assms(3) by (auto simp: slot_ok_def msgs_def filter_empty_conv)
  moreover from this(1) obtain y where y: "filter (\<lambda>x. fst x = w) (outbox p) = [y]" by (auto simp: length_Suc_conv)
  with f have "filter (\<lambda>x. fst x = w) (outbox p) = [(w, m)]" unfolding y by simp
  then have "filter (\<lambda>x. fst x = w) (remove1 (w, m) (outbox p)) = []"
    by (simp add: filter_remove1)
  ultimately show "slot_ok (send w m p) w" using w assms(3) by (simp add: slot_ok_def msgs_def send_def)
qed (use slots_okD [OF assms(1)] in \<open>auto simp: send_def filter_remove1_other\<close>)

lemma receive_slots:
  assumes "slots_ok p" and "w < length (workers p)" and "phase (worker p w) = Waiting" and "ch (worker p w) \<noteq> []"
  shows "slots_ok (receive w p)"
proof (rule one_slot [OF assms(1,2)])
  have "slot_ok p w" by (rule slots_okD(4) [OF assms(1,2)])
  then have "w \<notin> set (ready p)" "length (ch (worker p w)) = 1" "filter (\<lambda>x. fst x = w) (outbox p) = []"
    using assms(3,4) by (cases "ch (worker p w)"; auto simp: slot_ok_def msgs_def)+
  then show "slot_ok (receive w p) w"
    using assms(2,4) by (cases "ch (worker p w)") (auto simp: slot_ok_def msgs_def receive_def split: option.splits)
qed (use slots_okD [OF assms(1)] in \<open>auto simp: receive_def\<close>)

text \<open>The other steps of a worker that is not waiting.\<close>

lemma busy_slots:
  assumes "slots_ok p" and "w < length (workers p)" and "phase (worker p w) \<noteq> Waiting"
  shows "slots_ok (served w c err now p)" and "slots_ok (release w p)" and "slots_ok (exit_worker w p)"
    and "slots_ok (set_phase w InPool p)"
proof -
  note D = slots_okD [OF assms(1)]
  have ok: "w \<notin> set (ready p)" "msgs p w = []" using D(4) [OF assms(2)] assms(3) by (auto simp: slot_ok_def)
  show "slots_ok (served w c err now p)"
    using D ok assms(2) by (intro one_slot [OF assms(1,2)]) (auto simp: served_def slot_ok_def msgs_def)
  show "slots_ok (release w p)"
    using D ok assms(2)
    by (cases "mustStop p"; intro one_slot [OF assms(1,2)]) (auto simp: release_def slot_ok_def msgs_def)
  show "slots_ok (exit_worker w p)"
    using D ok assms(2) by (intro one_slot [OF assms(1,2)]) (auto simp: exit_worker_def slot_ok_def msgs_def)
  show "slots_ok (set_phase w InPool p)"
    using D ok assms(2) by (intro one_slot [OF assms(1,2)]) (auto simp: slot_ok_def msgs_def)
qed

lemma step_slots: "pool_step p p' \<Longrightarrow> slots_ok p \<Longrightarrow> slots_ok p'"
proof (induction rule: pool_step.induct)
  case (Start p)
  then show ?case by (simp add: wp_Start_def slots_defs)
qed (simp_all add: Stop_slots Clean_slots Serve_slots spawn_new_slots spawn_old_slots send_slots receive_slots busy_slots)

text \<open>The counter: a worker is counted from getCh to the end of workerFunc.\<close>

lemmas worker_live = live_def live_update sum_list_map_remove1 length_remove1

lemma creating_remove1: "c \<in> set (creating p) \<Longrightarrow> int (length (remove1 c (creating p))) = int (length (creating p)) - 1"
  by (simp add: length_remove1) (metis One_nat_def Suc_leI length_pos_if_in_set of_nat_diff of_nat_1)

lemma step_count: "pool_step p p' \<Longrightarrow> slots_ok p \<Longrightarrow> count_ok p \<Longrightarrow> count_ok p'"
proof (induction rule: pool_step.induct)
  case (ServeConn p c)
  then show ?case by (auto simp: count_ok_def Serve_cases)
next
  case (SpawnNew c p)
  then show ?case by (simp add: count_ok_def spawn_new_def live_def creating_remove1)
next
  case (SpawnOld c p w)
  then show ?case by (simp add: count_ok_def spawn_old_def live_def live_update creating_remove1)
next
  case (Send w m p)
  then have "w < length (workers p)" by (blast dest: slots_okD)
  with Send show ?case by (simp add: count_ok_def send_def live_def live_update)
next
  case (Receive w p)
  then show ?case by (simp add: count_ok_def receive_def live_def live_update split: option.splits)
next
  case (Served w p c err now)
  then show ?case by (simp add: count_ok_def served_def live_def live_update)
next
  case (Release w p)
  then show ?case by (simp add: count_ok_def release_def live_def live_update)
next
  case (Exit w p)
  then show ?case by (simp add: count_ok_def exit_worker_def live_def live_update)
next
  case (PutBack w p)
  then show ?case by (simp add: count_ok_def live_def live_update)
qed (simp_all add: count_ok_def wp_Start_def wp_Stop_def clean_def Let_def)

text \<open>The connections.\<close>

lemma notify_conns: "sum_list (map ((\<lambda>x. msg_conn (snd x)) \<circ> (\<lambda>w. (w, None))) ws) = {#}"
  by (induction ws) (auto simp: msg_conn_def)

lemma creating_split:
  assumes "c \<in> set (creating p)"
  obtains M where "mset (creating p) = add_mset c M"
  using assms multi_member_split [of c "mset (creating p)"] by auto

lemma held_sum:
  "w < length (workers p) \<Longrightarrow> held v = held (worker p w) + d \<Longrightarrow>
     sum_list (map held ((workers p)[w := v])) = sum_list (map held (workers p)) + d"
  using held_update [of w "workers p" v] by (simp add: ac_simps)

lemma step_conns: "pool_step p p' \<Longrightarrow> slots_ok p \<Longrightarrow> conns_ok p \<Longrightarrow> conns_ok p'"
proof (induction rule: pool_step.induct)
  case (Stop p)
  then show ?case by (simp add: conns_ok_def wp_Stop_def notify_conns)
next
  case (Clean p now)
  then show ?case by (simp add: conns_ok_def clean_def Let_def notify_conns)
next
  case (ServeConn p c)
  then show ?case by (auto simp: conns_ok_def Serve_cases msg_conn_def)
next
  case (SpawnNew c p)
  from SpawnNew(1) obtain M where "mset (creating p) = add_mset c M" by (rule creating_split)
  with SpawnNew show ?case by (simp add: conns_ok_def spawn_new_def held_def msg_conn_def)
next
  case (SpawnOld c p w)
  from SpawnOld(1) obtain M where M: "mset (creating p) = add_mset c M" by (rule creating_split)
  have "sum_list (map held ((workers p)[w := (worker p w)\<lparr>phase := Waiting\<rparr>])) = sum_list (map held (workers p))"
    using held_sum [of w p "(worker p w)\<lparr>phase := Waiting\<rparr>" "{#}"] SpawnOld by (simp add: held_def)
  with SpawnOld M show ?case by (simp add: conns_ok_def spawn_old_def msg_conn_def)
next
  case (Send w m p)
  then have w: "w < length (workers p)" by (blast dest: slots_okD)
  have "sum_list (map held ((workers p)[w := (worker p w)\<lparr>ch := ch (worker p w) @ [m]\<rparr>])) =
      sum_list (map held (workers p)) + msg_conn m"
    by (rule held_sum [OF w]) (simp add: held_def)
  with Send show ?case
    using sum_list_map_remove1 [OF Send(1), of "\<lambda>x. msg_conn (snd x)"] by (simp add: conns_ok_def send_def ac_simps)
next
  case (Receive w p)
  then obtain m ms where m: "ch (worker p w) = m # ms" by (cases "ch (worker p w)") auto
  have "sum_list (map held ((workers p)[w := (worker p w)\<lparr>ch := ms, phase := (case m of None \<Rightarrow> Exiting | Some c \<Rightarrow> Serving c)\<rparr>])) =
      sum_list (map held (workers p)) + {#}"
    by (rule held_sum) (use Receive m in \<open>auto simp: held_def msg_conn_def split: option.splits\<close>)
  with Receive m show ?case by (simp add: conns_ok_def receive_def)
next
  case (Served w p c err now)
  have "sum_list (map held ((workers p)[w := (worker p w)\<lparr>lastUseTime := now, phase := Releasing\<rparr>])) + {#c#} =
      sum_list (map held (workers p))"
    using held_update [of w "workers p" "(worker p w)\<lparr>lastUseTime := now, phase := Releasing\<rparr>"] Served by (simp add: held_def)
  with Served show ?case by (simp add: conns_ok_def served_def ended_def)
next
  case (Release w p)
  have "sum_list (map held ((workers p)[w := (worker p w)\<lparr>phase := f\<rparr>])) = sum_list (map held (workers p)) + {#}"
    if "f = Waiting \<or> f = Exiting" for f
    by (rule held_sum) (use Release that in \<open>auto simp: held_def\<close>)
  with Release show ?case by (simp add: conns_ok_def release_def)
next
  case (Exit w p)
  have "sum_list (map held ((workers p)[w := (worker p w)\<lparr>phase := Leaving\<rparr>])) = sum_list (map held (workers p)) + {#}"
    by (rule held_sum) (use Exit in \<open>auto simp: held_def\<close>)
  with Exit show ?case by (simp add: conns_ok_def exit_worker_def)
next
  case (PutBack w p)
  have "sum_list (map held ((workers p)[w := (worker p w)\<lparr>phase := InPool\<rparr>])) = sum_list (map held (workers p)) + {#}"
    by (rule held_sum) (use PutBack in \<open>auto simp: held_def\<close>)
  with PutBack show ?case by (simp add: conns_ok_def)
qed (simp add: conns_ok_def wp_Start_def)

lemma reach_ok: "pool_reach p \<Longrightarrow> slots_ok p \<and> count_ok p \<and> conns_ok p"
proof (induction rule: pool_reach.induct)
  case (init maxWorkers logAll maxIdle)
  then show ?case by (simp add: new_pool_def slots_ok_def count_ok_def conns_ok_def)
next
  case (step p p')
  then show ?case using step_slots step_count step_conns by blast
qed

section \<open>Properties\<close>

lemma live_count: "sum_list (map live ws) = int (length (filter (\<lambda>w. phase w \<notin> {Leaving, InPool}) ws))"
  by (induction ws) (auto simp: live_def split: phase.splits)

text \<open>Claim C8: in every interleaving of the goroutines the counter is the number of workers that run or are about
  to be started and stays within the maximum; a send to a worker never blocks, since the worker waits on
  an empty channel; a waiting worker is listed as ready or has exactly one message on its way, so none is
  lost; and a connection is refused only when the maximum is reached and no worker is idle.\<close>

theorem workerPool_invariant:
  assumes "pool_reach p"
  shows "workersCount p = int (length (filter (\<lambda>w. phase w \<notin> {Leaving, InPool}) (workers p)) + length (creating p)) \<and>
    workersCount p \<le> max 0 (MaxWorkersCount p) \<and>
    (\<forall>(w, m)\<in>set (outbox p). w < length (workers p) \<and> phase (worker p w) = Waiting \<and> ch (worker p w) = []) \<and>
    (\<forall>w<length (workers p). phase (worker p w) = Waiting \<longrightarrow> w \<in> set (ready p) \<or> length (msgs p w) = 1) \<and>
    (\<not> snd (Serve c p) \<longrightarrow> MaxWorkersCount p \<le> workersCount p \<and>
       (\<forall>w<length (workers p). phase (worker p w) = Waiting \<longrightarrow> msgs p w \<noteq> []))"
proof -
  have ok: "slots_ok p" "count_ok p" using reach_ok [OF assms] by auto
  note D = slots_okD [OF ok(1)]
  have "workersCount p = int (length (filter (\<lambda>w. phase w \<notin> {Leaving, InPool}) (workers p)) + length (creating p))"
    "workersCount p \<le> max 0 (MaxWorkersCount p)" using ok(2) by (simp_all add: count_ok_def live_count)
  moreover have "w < length (workers p) \<and> phase (worker p w) = Waiting \<and> ch (worker p w) = []"
    if "(w, m) \<in> set (outbox p)" for w m
  proof -
    have "w < length (workers p)" "m \<in> snd ` set (filter (\<lambda>x. fst x = w) (outbox p))" using that by (force dest: D(3))+
    then show ?thesis
      using D(4) [of w] by (cases "filter (\<lambda>x. fst x = w) (outbox p)") (auto simp: slot_ok_def msgs_def)
  qed
  moreover have "\<forall>w<length (workers p). phase (worker p w) = Waiting \<longrightarrow> w \<in> set (ready p) \<or> length (msgs p w) = 1"
    using D(4) by (auto simp: slot_ok_def)
  moreover have "\<not> snd (Serve c p) \<longrightarrow> MaxWorkersCount p \<le> workersCount p \<and>
      (\<forall>w<length (workers p). phase (worker p w) = Waiting \<longrightarrow> msgs p w \<noteq> [])"
    using D(4) by (fastforce simp: Serve_cases slot_ok_def split: if_splits)
  ultimately show ?thesis by blast
qed

text \<open>Claim C7: no connection is lost and none is served twice: an accepted connection is, as often as it was
  accepted, one of those about to be given to a new worker, on their way to a worker, being served, or
  closed or hijacked.\<close>

theorem workerPool_conns:
  assumes "pool_reach p"
  shows "mset (accepted p) =
      mset (creating p) + sum_list (map (\<lambda>x. msg_conn (snd x)) (outbox p)) +
      sum_list (map held (workers p)) + sum_list (map ended (events p))"
  using reach_ok [OF assms] by (simp add: conns_ok_def)

definition idle_too_long :: "int \<Rightarrow> 'c workerPool \<Rightarrow> nat \<Rightarrow> bool" where
  "idle_too_long now p w \<longleftrightarrow> now - lastUseTime (worker p w) > getMaxIdleWorkerDuration p"

text \<open>with the ready workers in the order of their last use, the binary search of clean stops exactly
  the workers that were idle for longer than the limit.\<close>

theorem clean_stops_idle:
  assumes "sorted (map (\<lambda>w. lastUseTime (worker p w)) (ready p))"
  shows "ready (clean now p) = filter (\<lambda>w. \<not> idle_too_long now p w) (ready p) \<and>
         outbox (clean now p) = outbox p @ map (\<lambda>w. (w, None)) (filter (idle_too_long now p) (ready p))"
proof -
  let ?ts = "map (\<lambda>w. lastUseTime (worker p w)) (ready p)"
  define crit i where "crit = now - getMaxIdleWorkerDuration p" and "i = clean_search crit ?ts 0 (int (length ?ts) - 1)"
  define n where "n = nat (i + 1)"
  have range: "- 1 \<le> i" "i \<le> int (length ?ts) - 1"
    using clean_search_range [of "int (length ?ts) - 1" 0 crit ?ts] by (auto simp: i_def)
  have "(\<forall>j<n. ?ts ! j < crit) \<and> (\<forall>j. n \<le> j \<longrightarrow> j < length ?ts \<longrightarrow> \<not> ?ts ! j < crit)"
    using clean_search_sorted [OF assms, of 0 "int (length ?ts) - 1" crit] by (simp add: i_def n_def Let_def)
  moreover have "j < length ?ts \<Longrightarrow> ?ts ! j < crit \<longleftrightarrow> idle_too_long now p (ready p ! j)" for j
    by (auto simp: idle_too_long_def crit_def)
  moreover have "n \<le> length ?ts" using range by (simp add: n_def)
  ultimately have "\<forall>w\<in>set (take n (ready p)). idle_too_long now p w" "\<forall>w\<in>set (drop n (ready p)). \<not> idle_too_long now p w"
    by (auto simp: in_set_conv_nth)
  then have f: "filter (idle_too_long now p) (ready p) = take n (ready p)"
    "filter (\<lambda>w. \<not> idle_too_long now p w) (ready p) = drop n (ready p)"
    by (subst append_take_drop_id [of n, symmetric], unfold filter_append, simp)+
  show ?thesis unfolding f by (auto simp: clean_def Let_def n_def i_def crit_def)
qed

section \<open>A run\<close>

text \<open>A pool of one worker that gets a connection, serves it and is ready again while a second connection is
  on its way to it.\<close>

definition run1 :: "nat workerPool" where
  "run1 = spawn_new 7 (fst (Serve 7 (new_pool 1 False 0)))"

definition run2 :: "nat workerPool" where
  "run2 = fst (Serve 8 (release 0 (served 0 7 NoErr 100 (receive 0 (send 0 (Some 7) run1)))))"

lemmas run_defs = Serve_cases spawn_new_def send_def receive_def served_def release_def new_pool_def logs_error_def

lemma run1_reach: "pool_reach run1"
proof -
  have "pool_reach (fst (Serve 7 (new_pool 1 False 0)))" by (rule pool_reach.step [OF pool_reach.init ServeConn])
  then show ?thesis unfolding run1_def by (rule pool_reach.step) (rule SpawnNew, simp add: run_defs)
qed

lemma run1_eq:
  "run1 = (new_pool 1 False 0)\<lparr>workersCount := 1, workers := [\<lparr>lastUseTime = 0, ch = [], phase = Waiting\<rparr>],
     outbox := [(0, Some 7)], accepted := [7]\<rparr>"
  by (simp add: run1_def run_defs)

lemma run2_reach: "pool_reach run2"
proof -
  let ?a = "send 0 (Some 7) run1"
  have "pool_reach ?a" by (rule pool_reach.step [OF run1_reach]) (rule Send, simp_all add: run1_eq)
  then have "pool_reach (receive 0 ?a)" by (rule pool_reach.step) (rule Receive, simp_all add: run1_eq run_defs)
  then have "pool_reach (served 0 7 NoErr 100 (receive 0 ?a))"
    by (rule pool_reach.step) (rule Served, simp_all add: run1_eq run_defs)
  then have "pool_reach (release 0 (served 0 7 NoErr 100 (receive 0 ?a)))"
    by (rule pool_reach.step) (rule Release, simp_all add: run1_eq run_defs)
  then show ?thesis unfolding run2_def by (rule pool_reach.step) (rule ServeConn)
qed

lemma run2_eq:
  "run2 = (new_pool 1 False 0)\<lparr>workersCount := 1, workers := [\<lparr>lastUseTime = 100, ch = [], phase = Waiting\<rparr>],
     outbox := [(0, Some 8)], accepted := [7, 8], events := [StateClosed 7]\<rparr>"
  by (simp add: run2_def run1_eq run_defs)

theorem workerPool_invariant_witness:
  "pool_reach run2 \<and> workersCount run2 = 1 \<and> \<not> snd (Serve 9 run2) \<and> MaxWorkersCount run2 \<le> workersCount run2"
proof -
  have n: "\<not> snd (Serve 9 run2)" by (simp add: run2_eq run_defs)
  then show ?thesis using workerPool_invariant [OF run2_reach, of 9] run2_reach by (auto simp: run2_eq run_defs)
qed

theorem workerPool_conns_witness:
  "{#7, 8#} = mset (creating run2) + {#8#} + sum_list (map held (workers run2)) + sum_list (map ended (events run2))"
  using workerPool_conns [OF run2_reach] by (simp add: run2_eq run_defs msg_conn_def)

theorem clean_stops_idle_witness:
  "let p = (new_pool 2 False 50 :: nat workerPool)\<lparr>ready := [0, 1],
       workers := [\<lparr>lastUseTime = 10, ch = [], phase = Waiting\<rparr>, \<lparr>lastUseTime = 90, ch = [], phase = Waiting\<rparr>]\<rparr>
   in ready (clean 100 p) = [1] \<and> outbox (clean 100 p) = [(0, None)]"
  using clean_stops_idle [of "(new_pool 2 False 50 :: nat workerPool)\<lparr>ready := [0, 1],
       workers := [\<lparr>lastUseTime = 10, ch = [], phase = Waiting\<rparr>, \<lparr>lastUseTime = 90, ch = [], phase = Waiting\<rparr>]\<rparr>" 100]
  by (simp add: new_pool_def idle_too_long_def getMaxIdleWorkerDuration_def)

end
