(* ===== verification/Peripconn.thy ===== *)
theory Peripconn
  imports Prelude "HOL-Library.AList" "HOL-Library.Word" "HOL-Library.Multiset"
begin

unbundle bit_operations_syntax

text \<open>
  The limit of connections per client address: the counter of src/fasthttp/peripconn.go and wrapPerIPConn of
  server.go. The counter has its own lock; registering a connection and deciding about it are separate
  steps, between which other connections are registered, decided and closed.
\<close>

section \<open>Addresses as numbers\<close>

definition ip2uint32 :: "bytes \<Rightarrow> 32 word" where
  "ip2uint32 ip =
     (if length ip \<noteq> 4 then 0
      else push_bit 24 (word_of_nat (byte_val (ip ! 0))) OR push_bit 16 (word_of_nat (byte_val (ip ! 1))) OR
           push_bit 8 (word_of_nat (byte_val (ip ! 2))) OR word_of_nat (byte_val (ip ! 3)))"

definition uint322ip :: "32 word \<Rightarrow> bytes" where
  "uint322ip ip = map (\<lambda>s. mk_byte (unat (drop_bit s ip))) [24, 16, 8, 0]"

lemma bit_byte: "bit (word_of_nat (unat w mod 256) :: 32 word) n \<longleftrightarrow> n < 8 \<and> bit w n"
  for w :: "32 word"
proof -
  have "(word_of_nat (unat w mod 256) :: 32 word) = take_bit 8 w"
    by (simp add: take_bit_eq_mod word_arith_nat_mod)
  then show ?thesis by (simp add: bit_take_bit_iff)
qed

text \<open>Reading the bytes of an address gives the address back.\<close>

theorem ip2uint32_uint322ip: "ip2uint32 (uint322ip ip) = ip"
proof (rule bit_word_eqI)
  fix n
  assume "n < LENGTH(32)"
  then consider "n < 8" | "8 \<le> n" "n < 16" | "16 \<le> n" "n < 24" | "24 \<le> n" "n < 32" by fastforce
  then show "bit (ip2uint32 (uint322ip ip)) n = bit ip n"
    by cases (auto simp: ip2uint32_def uint322ip_def bit_or_iff bit_push_bit_iff bit_byte bit_drop_bit_eq)
qed

section \<open>The counter\<close>

text \<open>The map from addresses to counts, \<open>None\<close> for nil; a missing address reads as zero.\<close>

type_synonym counter = "(32 word \<times> int) list option"

definition conn_count :: "counter \<Rightarrow> 32 word \<Rightarrow> int" where
  "conn_count m ip = (case m of None \<Rightarrow> 0 | Some l \<Rightarrow> (case map_of l ip of None \<Rightarrow> 0 | Some n \<Rightarrow> n))"

definition Register :: "32 word \<Rightarrow> counter \<Rightarrow> counter \<times> int" where
  "Register ip m =
     (let m1 = (case m of None \<Rightarrow> [] | Some l \<Rightarrow> l);
          n = conn_count (Some m1) ip + 1
      in (Some (AList.update ip n m1), n))"

definition Unregister :: "32 word \<Rightarrow> counter \<Rightarrow> counter go" where
  "Unregister ip m =
     map_option (\<lambda>l. let n = conn_count m ip - 1; n = (if n < 0 then 0 else n) in Some (AList.update ip n l)) m"

lemma conn_count_Register:
  "snd (Register ip m) = conn_count m ip + 1"
  "conn_count (fst (Register ip m)) = (conn_count m)(ip := conn_count m ip + 1)"
  by (auto simp: Register_def conn_count_def Let_def update_conv' fun_eq_iff split: option.splits)

lemma conn_count_Unregister:
  "Unregister ip (Some l) = Some m' \<Longrightarrow> conn_count m' = (conn_count (Some l))(ip := max 0 (conn_count (Some l) ip - 1))"
  by (auto simp: Unregister_def conn_count_def Let_def update_conv' fun_eq_iff max_def split: option.splits if_splits)

section \<open>Connections\<close>

text \<open>The calls of wrapPerIPConn that have registered and not decided, with the count they were given; the
  connections that are wrapped and open, those of address zero, which are not counted, and the number of refusals.\<close>

record conns =
  cc :: counter
  pending :: "(32 word \<times> int) list"
  open_conns :: "32 word list"
  unlimited :: nat
  refused :: nat

definition wrap_register :: "32 word \<Rightarrow> conns \<Rightarrow> conns" where
  "wrap_register ip s =
     (if ip = 0 then s\<lparr>unlimited := unlimited s + 1\<rparr>
      else let (m, n) = Register ip (cc s) in s\<lparr>cc := m, pending := pending s @ [(ip, n)]\<rparr>)"

text \<open>The rest of wrapPerIPConn: over the limit, or a wrapped connection.\<close>

definition wrap_decide :: "int \<Rightarrow> 32 word \<times> int \<Rightarrow> conns \<Rightarrow> conns go" where
  "wrap_decide MaxConnsPerIP pn s =
     (if snd pn > MaxConnsPerIP then
        map_option (\<lambda>m. s\<lparr>cc := m, pending := remove1 pn (pending s), refused := refused s + 1\<rparr>) (Unregister (fst pn) (cc s))
      else Some (s\<lparr>pending := remove1 pn (pending s), open_conns := open_conns s @ [fst pn]\<rparr>))"

definition perIPConn_Close :: "32 word \<Rightarrow> conns \<Rightarrow> conns go" where
  "perIPConn_Close ip s =
     map_option (\<lambda>m. s\<lparr>cc := m, open_conns := remove1 ip (open_conns s)\<rparr>) (Unregister ip (cc s))"

inductive conn_reach :: "int \<Rightarrow> conns \<Rightarrow> bool" for mx where
  start: "conn_reach mx \<lparr>cc = None, pending = [], open_conns = [], unlimited = 0, refused = 0\<rparr>"
| reg: "conn_reach mx s \<Longrightarrow> conn_reach mx (wrap_register ip s)"
| decide: "conn_reach mx s \<Longrightarrow> pn \<in> set (pending s) \<Longrightarrow> wrap_decide mx pn s = Some s' \<Longrightarrow> conn_reach mx s'"
| close: "conn_reach mx s \<Longrightarrow> ip \<in> set (open_conns s) \<Longrightarrow> perIPConn_Close ip s = Some s' \<Longrightarrow> conn_reach mx s'"

text \<open>The counter is the number of pending and open connections of an address, and those that are open or will be
  are at most as many as the limit: the count that the last of them was given included all others.\<close>

definition admitted :: "int \<Rightarrow> conns \<Rightarrow> 32 word \<Rightarrow> nat" where
  "admitted mx s ip = count_list (open_conns s) ip + length (filter (\<lambda>pn. fst pn = ip \<and> snd pn \<le> mx) (pending s))"

definition conns_inv :: "int \<Rightarrow> conns \<Rightarrow> bool" where
  "conns_inv mx s \<longleftrightarrow>
     (\<forall>ip. conn_count (cc s) ip = int (count_list (open_conns s) ip + length (filter (\<lambda>pn. fst pn = ip) (pending s)))) \<and>
     (\<forall>ip. int (admitted mx s ip) \<le> max 0 mx) \<and>
     (open_conns s \<noteq> [] \<or> pending s \<noteq> [] \<longrightarrow> cc s \<noteq> None)"

lemma conns_invI:
  assumes "\<And>ip. conn_count (cc s) ip = int (count_list (open_conns s) ip + length (filter (\<lambda>pn. fst pn = ip) (pending s)))"
    and "\<And>ip. int (admitted mx s ip) \<le> max 0 mx" and "cc s \<noteq> None"
  shows "conns_inv mx s"
  using assms by (simp add: conns_inv_def)

lemma conns_invD:
  assumes "conns_inv mx s"
  shows "conn_count (cc s) ip = int (count_list (open_conns s) ip + length (filter (\<lambda>pn. fst pn = ip) (pending s)))"
    and "int (admitted mx s ip) \<le> max 0 mx" and "open_conns s \<noteq> [] \<or> pending s \<noteq> [] \<Longrightarrow> cc s \<noteq> None"
  using assms by (simp_all add: conns_inv_def)

lemma count_list_remove1: "x \<in> set xs \<Longrightarrow> count_list (remove1 x xs) y + (if y = x then 1 else 0) = count_list xs y"
  by (induction xs) auto

lemma length_filter_remove1:
  "x \<in> set xs \<Longrightarrow> length (filter P (remove1 x xs)) + (if P x then 1 else 0) = length (filter P xs)"
  by (induction xs) auto

lemma length_filter_mono: "(\<And>x. P x \<Longrightarrow> Q x) \<Longrightarrow> length (filter P xs) \<le> length (filter Q xs)"
  by (induction xs) auto

lemma admitted_le_count: "conns_inv mx s \<Longrightarrow> int (admitted mx s ip) \<le> conn_count (cc s) ip"
  by (auto simp: conns_inv_def admitted_def intro: length_filter_mono)

lemma unregister_count:
  assumes "conns_inv mx s" and "cc s \<noteq> None" and "Unregister ip (cc s) = Some m" and "0 < conn_count (cc s) ip"
  shows "conn_count m = (conn_count (cc s))(ip := conn_count (cc s) ip - 1)" and "m \<noteq> None"
proof -
  from assms(2) obtain l where l: "cc s = Some l" by auto
  show "conn_count m = (conn_count (cc s))(ip := conn_count (cc s) ip - 1)"
    using conn_count_Unregister [of ip l m] assms(3,4) l by simp
  show "m \<noteq> None" using assms(3) l by (auto simp: Unregister_def Let_def)
qed

lemma wrap_register_inv:
  assumes "conns_inv mx s"
  shows "conns_inv mx (wrap_register ip s)"
proof (cases "ip = 0")
  case True
  with assms show ?thesis by (simp add: wrap_register_def conns_inv_def admitted_def)
next
  case False
  obtain m n where r: "Register ip (cc s) = (m, n)" by fastforce
  have c: "n = conn_count (cc s) ip + 1" "conn_count m = (conn_count (cc s))(ip := n)" "m \<noteq> None"
    using conn_count_Register [of ip "cc s"] r by (auto simp: Register_def Let_def)
  let ?s = "wrap_register ip s"
  have s': "cc ?s = m" "pending ?s = pending s @ [(ip, n)]" "open_conns ?s = open_conns s"
    using False r by (simp_all add: wrap_register_def)
  note D = conns_invD [OF assms]
  show ?thesis
  proof (rule conns_invI)
    fix ip'
    show "conn_count (cc ?s) ip' = int (count_list (open_conns ?s) ip' + length (filter (\<lambda>pn. fst pn = ip') (pending ?s)))"
      using D(1) [of ip'] by (cases "ip' = ip") (simp_all add: s' c(2), simp_all add: c(1))
    have "admitted mx ?s ip' = admitted mx s ip' + (if ip' = ip \<and> n \<le> mx then 1 else 0)" by (simp add: admitted_def s')
    then show "int (admitted mx ?s ip') \<le> max 0 mx"
      using D(2) [of ip'] admitted_le_count [OF assms, of ip] c(1) by (cases "ip' = ip \<and> n \<le> mx") auto
  qed (simp add: s' c)
qed

lemma decide_inv:
  assumes "conns_inv mx s" and "pn \<in> set (pending s)"
  shows "\<exists>s'. wrap_decide mx pn s = Some s' \<and> conns_inv mx s'"
proof -
  note D = conns_invD [OF assms(1)]
  have ne: "cc s \<noteq> None" using assms(2) by (intro D(3)) auto
  note f = length_filter_remove1 [OF assms(2)]
  have pos: "0 < conn_count (cc s) (fst pn)" using D(1) [of "fst pn"] f [of "\<lambda>q. fst q = fst pn"] by simp
  show ?thesis
  proof (cases "snd pn > mx")
    case True
    from ne obtain m where m: "Unregister (fst pn) (cc s) = Some m" by (auto simp: Unregister_def)
    note u = unregister_count [OF assms(1) ne m pos]
    let ?s = "s\<lparr>cc := m, pending := remove1 pn (pending s), refused := refused s + 1\<rparr>"
    have "conns_inv mx ?s"
    proof (rule conns_invI)
      fix ip
      show "conn_count (cc ?s) ip = int (count_list (open_conns ?s) ip + length (filter (\<lambda>pn. fst pn = ip) (pending ?s)))"
        using D(1) [of ip] f [of "\<lambda>q. fst q = ip"] u(1) by (cases "ip = fst pn") auto
      show "int (admitted mx ?s ip) \<le> max 0 mx"
        using D(2) [of ip] f [of "\<lambda>q. fst q = ip \<and> snd q \<le> mx"] True by (simp add: admitted_def)
    qed (use u in simp)
    with m True show ?thesis by (simp add: wrap_decide_def)
  next
    case False
    let ?s = "s\<lparr>pending := remove1 pn (pending s), open_conns := open_conns s @ [fst pn]\<rparr>"
    have "conns_inv mx ?s"
    proof (rule conns_invI)
      fix ip
      show "conn_count (cc ?s) ip = int (count_list (open_conns ?s) ip + length (filter (\<lambda>pn. fst pn = ip) (pending ?s)))"
        using D(1) [of ip] f [of "\<lambda>q. fst q = ip"] by (cases "ip = fst pn") auto
      show "int (admitted mx ?s ip) \<le> max 0 mx"
        using D(2) [of ip] f [of "\<lambda>q. fst q = ip \<and> snd q \<le> mx"] False by (cases "ip = fst pn") (auto simp: admitted_def)
    qed (use ne in simp)
    with False show ?thesis by (simp add: wrap_decide_def)
  qed
qed

lemma close_inv:
  assumes "conns_inv mx s" and "ip \<in> set (open_conns s)"
  shows "\<exists>s'. perIPConn_Close ip s = Some s' \<and> conns_inv mx s'"
proof -
  note D = conns_invD [OF assms(1)]
  have ne: "cc s \<noteq> None" using assms(2) by (intro D(3)) auto
  note f = count_list_remove1 [OF assms(2)]
  have pos: "0 < conn_count (cc s) ip" using D(1) [of ip] f [of ip] by simp
  from ne obtain m where m: "Unregister ip (cc s) = Some m" by (auto simp: Unregister_def)
  note u = unregister_count [OF assms(1) ne m pos]
  let ?s = "s\<lparr>cc := m, open_conns := remove1 ip (open_conns s)\<rparr>"
  have "conns_inv mx ?s"
  proof (rule conns_invI)
    fix ip'
    show "conn_count (cc ?s) ip' = int (count_list (open_conns ?s) ip' + length (filter (\<lambda>pn. fst pn = ip') (pending ?s)))"
      using D(1) [of ip'] f [of ip'] u(1) by (cases "ip' = ip") auto
    show "int (admitted mx ?s ip') \<le> max 0 mx"
      using D(2) [of ip'] f [of ip'] by (simp add: admitted_def split: if_splits)
  qed (use u in simp)
  with m show ?thesis by (simp add: perIPConn_Close_def)
qed

lemma conn_reach_inv: "conn_reach mx s \<Longrightarrow> conns_inv mx s"
proof (induction rule: conn_reach.induct)
  case start
  then show ?case by (simp add: conns_inv_def admitted_def conn_count_def)
next
  case (decide s pn s')
  then show ?case using decide_inv by fastforce
next
  case (close s ip s')
  then show ?case using close_inv by fastforce
qed (rule wrap_register_inv)

text \<open>Claim C26: however registrations, decisions and closes interleave, an address other than zero never has more open
  connections than the limit; the counter is exact, so closing a connection always makes room again; and
  neither deciding nor closing ever panics.\<close>

theorem perIP_limit:
  assumes "conn_reach mx s"
  shows "int (count_list (open_conns s) ip) \<le> max 0 mx \<and>
    conn_count (cc s) ip = int (count_list (open_conns s) ip + length (filter (\<lambda>pn. fst pn = ip) (pending s))) \<and>
    (pn \<in> set (pending s) \<longrightarrow> wrap_decide mx pn s \<noteq> None) \<and>
    (ip \<in> set (open_conns s) \<longrightarrow> perIPConn_Close ip s \<noteq> None)"
proof -
  have inv: "conns_inv mx s" by (rule conn_reach_inv [OF assms])
  moreover from this have "int (count_list (open_conns s) ip) \<le> max 0 mx"
    unfolding conns_inv_def admitted_def by (smt (verit) of_nat_0_le_iff of_nat_add)
  ultimately show ?thesis using decide_inv [OF inv, of pn] close_inv [OF inv, of ip] conns_invD(1) [OF inv, of ip] by auto
qed

theorem perIP_limit_witness:
  "let s = wrap_register 5 \<lparr>cc = None, pending = [], open_conns = [], unlimited = 0, refused = 0\<rparr>
   in conn_reach 1 s \<and> conn_count (cc s) 5 = 1 \<and> wrap_decide 1 (5, 1) s \<noteq> None"
proof -
  let ?s = "wrap_register 5 \<lparr>cc = None, pending = [], open_conns = [], unlimited = 0, refused = 0\<rparr>"
  have "conn_reach 1 ?s" by (rule conn_reach.reg [OF conn_reach.start])
  moreover have "(5, 1) \<in> set (pending ?s)"
    by (simp add: wrap_register_def Register_def conn_count_def)
  ultimately show ?thesis
    using perIP_limit [of 1 ?s 5 "(5, 1)"] by (simp add: wrap_register_def Register_def conn_count_def Let_def)
qed

end
