(* ===== verification/Userdata.thy ===== *)
theory Userdata
  imports Prelude Dict "HOL-Library.Multiset"
begin

text \<open>
  The user values of a request (src/fasthttp/userdata.go and the methods of RequestCtx in server.go that
  forward to it). A key is any comparable value; a byte slice is taken for the string of its bytes. A value
  is any value, \<open>None\<close> being nil. The capacity behind the slice, which Set reuses and which is never read, is
  not part of the model.
\<close>

text \<open>Keys as they are stored, and as they are passed.\<close>

datatype 'k stored_key = StrKey bytes | OtherKey 'k

datatype 'k any_key = Stored "'k stored_key" | BytesKey bytes

fun norm_key :: "'k any_key \<Rightarrow> 'k stored_key" where
  "norm_key (Stored k) = k"
| "norm_key (BytesKey b) = StrKey b"

type_synonym ('k, 'v) userData = "('k stored_key \<times> 'v option) list"

fun ud_set :: "('k, 'v) userData \<Rightarrow> 'k stored_key \<Rightarrow> 'v option \<Rightarrow> ('k, 'v) userData option" where
  "ud_set [] k v = None"
| "ud_set (kv # d) k v = (if fst kv = k then Some ((k, v) # d) else map_option ((#) kv) (ud_set d k v))"

definition userData_Set :: "('k, 'v) userData \<Rightarrow> 'k any_key \<Rightarrow> 'v option \<Rightarrow> ('k, 'v) userData" where
  "userData_Set d key v =
     (case ud_set d (norm_key key) v of
        Some d' \<Rightarrow> d'
      | None \<Rightarrow> if v = None then d else d @ [(norm_key key, v)])"

fun ud_get :: "('k, 'v) userData \<Rightarrow> 'k stored_key \<Rightarrow> 'v option" where
  "ud_get [] k = None"
| "ud_get (kv # d) k = (if fst kv = k then snd kv else ud_get d k)"

definition userData_Get :: "('k, 'v) userData \<Rightarrow> 'k any_key \<Rightarrow> 'v option" where
  "userData_Get d key = ud_get d (norm_key key)"

text \<open>Reset: the emptied slice and the values that are closed.\<close>

definition userData_Reset :: "('v \<Rightarrow> bool) \<Rightarrow> ('k, 'v) userData \<Rightarrow> ('k, 'v) userData \<times> 'v list" where
  "userData_Reset closer d = ([], filter closer (List.map_filter snd d))"

text \<open>Remove moves the last entry to the place of the removed one.\<close>

function ud_remove :: "nat \<Rightarrow> ('k, 'v) userData \<Rightarrow> 'k stored_key \<Rightarrow> ('k, 'v) userData" where
  "ud_remove i d k =
     (if i < length d then
        if fst (d ! i) = k then butlast (d[i := last d]) else ud_remove (Suc i) d k
      else d)"
  by pat_completeness auto
termination by (relation "measure (\<lambda>(i, d, k). length d - i)") auto

declare ud_remove.simps [simp del]

definition userData_Remove :: "('k, 'v) userData \<Rightarrow> 'k any_key \<Rightarrow> ('k, 'v) userData" where
  "userData_Remove d key = ud_remove 0 d (norm_key key)"

text \<open>The visitors get the entries in this order.\<close>

definition VisitUserValues :: "('k, 'v) userData \<Rightarrow> (bytes \<times> 'v option) list" where
  "VisitUserValues d = List.map_filter (\<lambda>kv. case fst kv of StrKey s \<Rightarrow> Some (s, snd kv) | OtherKey _ \<Rightarrow> None) d"

definition VisitUserValuesAll :: "('k, 'v) userData \<Rightarrow> ('k stored_key \<times> 'v option) list" where
  "VisitUserValuesAll d = d"

section \<open>Keys stay distinct\<close>

definition distinct_keys :: "('k, 'v) userData \<Rightarrow> bool" where
  "distinct_keys d \<longleftrightarrow> distinct (map fst d)"

lemma ud_set_None: "ud_set d k v = None \<longleftrightarrow> k \<notin> fst ` set d"
  by (induction d) auto

lemma ud_set_Some: "ud_set d k v = Some d' \<Longrightarrow> map fst d' = map fst d \<and> ud_get d' = (ud_get d)(k := v)"
  by (induction d arbitrary: d') (auto split: if_splits)

lemma ud_get_none: "k \<notin> fst ` set d \<Longrightarrow> ud_get d k = None"
  by (induction d) auto

lemma ud_get_append: "ud_get (d @ e) k = (if k \<in> fst ` set d then ud_get d k else ud_get e k)"
  by (induction d) auto

lemma ud_remove_absent: "k \<notin> fst ` set (drop i d) \<Longrightarrow> ud_remove i d k = d"
proof (induction i d k rule: ud_remove.induct)
  case (1 i d k)
  show ?case
  proof (cases "i < length d")
    case True
    then have "drop i d = d ! i # drop (Suc i) d" by (rule Cons_nth_drop_Suc [symmetric])
    with 1 True show ?thesis by (subst ud_remove.simps) auto
  next
    case False
    then show ?thesis by (simp add: ud_remove.simps)
  qed
qed

lemma ud_remove_present:
  "k \<notin> fst ` set xs \<Longrightarrow> i \<le> length xs \<Longrightarrow>
     ud_remove i (xs @ (k, v) # ys) k = xs @ (if ys = [] then [] else last ys # butlast ys)"
proof (induction "length xs - i" arbitrary: i)
  case 0
  then have "i = length xs" by simp
  then show ?case by (subst ud_remove.simps) (auto simp: butlast_append)
next
  case (Suc n)
  then have i: "i < length xs" by simp
  then have "fst (xs ! i) \<noteq> k" using Suc.prems(1) nth_mem by blast
  with i Suc show ?case by (subst ud_remove.simps) (simp add: nth_append)
qed

lemma ud_remove_perm:
  assumes "distinct_keys d"
  shows "mset (ud_remove 0 d k) = mset (filter (\<lambda>kv. fst kv \<noteq> k) d)"
proof (cases "k \<in> fst ` set d")
  case True
  then obtain v where "(k, v) \<in> set d" by force
  then obtain xs ys where d: "d = xs @ (k, v) # ys" by (auto simp: in_set_conv_decomp)
  with assms have n: "k \<notin> fst ` set xs" "k \<notin> fst ` set ys" by (auto simp: distinct_keys_def)
  then have f: "filter (\<lambda>kv. fst kv \<noteq> k) xs = xs" "filter (\<lambda>kv. fst kv \<noteq> k) ys = ys"
    by (auto simp: filter_id_conv)
  show ?thesis
    using ud_remove_present [OF n(1), of 0 v ys] f unfolding d
    by (cases ys rule: rev_cases) simp_all
next
  case False
  moreover from this have "filter (\<lambda>kv. fst kv \<noteq> k) d = d" by (auto simp: filter_id_conv)
  ultimately show ?thesis using ud_remove_absent [of k 0 d] by simp
qed

text \<open>With distinct keys the order of the entries does not matter for a lookup.\<close>

lemma ud_get_mem: "distinct_keys d \<Longrightarrow> (k, v) \<in> set d \<Longrightarrow> ud_get d k = v"
  by (induction d) (auto simp: distinct_keys_def image_iff)

lemma ud_get_mset:
  assumes "distinct_keys d" and "mset d' = mset d"
  shows "ud_get d' = ud_get d" and "distinct_keys d'"
proof -
  have m: "mset (map fst d') = mset (map fst d)" using assms(2) by simp
  then show d': "distinct_keys d'" using assms(1) unfolding distinct_keys_def by (metis mset_eq_imp_distinct_iff)
  have s: "set d' = set d" using assms(2) by (metis set_mset_mset)
  show "ud_get d' = ud_get d"
  proof
    fix k
    show "ud_get d' k = ud_get d k"
    proof (cases "k \<in> fst ` set d")
      case True
      then obtain v where "(k, v) \<in> set d" by force
      with assms(1) d' s show ?thesis using ud_get_mem by metis
    qed (simp add: ud_get_none s)
  qed
qed

lemma ud_get_filter: "ud_get (filter (\<lambda>kv. fst kv \<noteq> k) d) = (ud_get d)(k := None)"
  by (induction d) auto

lemma userData_Get_Remove:
  assumes "distinct_keys d"
  shows "ud_get (userData_Remove d key) = (ud_get d)(norm_key key := None)" and "distinct_keys (userData_Remove d key)"
proof -
  have f: "distinct_keys (filter (\<lambda>kv. fst kv \<noteq> norm_key key) d)"
    using assms by (simp add: distinct_keys_def distinct_map_filter)
  note m = ud_get_mset [OF f ud_remove_perm [OF assms]]
  show "ud_get (userData_Remove d key) = (ud_get d)(norm_key key := None)" "distinct_keys (userData_Remove d key)"
    using m by (simp_all add: userData_Remove_def ud_get_filter)
qed

lemma userData_Get_Set:
  assumes "distinct_keys d"
  shows "ud_get (userData_Set d key v) = (ud_get d)(norm_key key := v)" and "distinct_keys (userData_Set d key v)"
proof -
  have "ud_get (userData_Set d key v) = (ud_get d)(norm_key key := v) \<and> distinct_keys (userData_Set d key v)"
  proof (cases "ud_set d (norm_key key) v")
    case None
    then have "norm_key key \<notin> fst ` set d" by (simp add: ud_set_None)
    with None assms show ?thesis
      by (auto simp: userData_Set_def distinct_keys_def ud_get_append ud_get_none fun_eq_iff)
  next
    case (Some d')
    with ud_set_Some [OF Some] assms show ?thesis by (simp add: userData_Set_def distinct_keys_def)
  qed
  then show "ud_get (userData_Set d key v) = (ud_get d)(norm_key key := v)" "distinct_keys (userData_Set d key v)" by auto
qed

interpretation user_values: dict ud_get "\<lambda>d k v. userData_Set d (Stored k) (Some v)" "\<lambda>d k. userData_Remove d (Stored k)" distinct_keys
  by unfold_locales (simp_all add: userData_Get_Set userData_Get_Remove)

text \<open>Operations with keys of any form, setting a value to nil included, and what they do to a map.\<close>

datatype ('k, 'v) ud_op = USet "'k any_key" "'v option" | URemove "'k any_key"

fun ud_step :: "('k, 'v) ud_op \<Rightarrow> ('k, 'v) userData \<Rightarrow> ('k, 'v) userData" where
  "ud_step (USet k v) d = userData_Set d k v"
| "ud_step (URemove k) d = userData_Remove d k"

fun ud_spec :: "('k, 'v) ud_op \<Rightarrow> ('k stored_key \<Rightarrow> 'v option) \<Rightarrow> ('k stored_key \<Rightarrow> 'v option)" where
  "ud_spec (USet k v) m = m(norm_key k := v)"
| "ud_spec (URemove k) m = m(norm_key k := None)"

lemma ud_step_refines: "distinct_keys d \<Longrightarrow> distinct_keys (ud_step x d) \<and> ud_get (ud_step x d) = ud_spec x (ud_get d)"
  by (cases x) (auto simp: userData_Get_Set userData_Get_Remove)

lemma ud_run_refines: "distinct_keys d \<Longrightarrow> distinct_keys (fold ud_step ops d) \<and> ud_get (fold ud_step ops d) = fold ud_spec ops (ud_get d)"
  by (induction ops arbitrary: d) (auto simp: ud_step_refines)

text \<open>Claim C28: any sequence of Set and Remove on fresh user values, with string, byte slice and other keys, is read
  back as from a map on the normalised keys: removal, which reorders the entries, loses no other value,
  a nil value reads as an absent one, and every entry is visited with the value Get returns for its key.\<close>

theorem userData_refine_map:
  "userData_Get (fold ud_step ops []) key = fold ud_spec ops (\<lambda>_. None) (norm_key key) \<and>
   distinct (map fst (VisitUserValuesAll (fold ud_step ops []))) \<and>
   map (\<lambda>kv. userData_Get (fold ud_step ops []) (Stored (fst kv))) (VisitUserValuesAll (fold ud_step ops [])) =
     map snd (VisitUserValuesAll (fold ud_step ops []))"
proof -
  have e: "ud_get [] = (\<lambda>_. None)" by auto
  have r: "distinct_keys (fold ud_step ops [])" "ud_get (fold ud_step ops []) = fold ud_spec ops (\<lambda>_. None)"
    using ud_run_refines [of "[]" ops] by (simp_all add: distinct_keys_def e)
  then show ?thesis
    using ud_get_mem [OF r(1)] by (auto simp: userData_Get_def VisitUserValuesAll_def distinct_keys_def)
qed

end
