(* ===== verification/Round2.thy ===== *)
theory Round2
  imports Prelude "HOL-Library.Word"
begin

unbundle bit_operations_syntax

text \<open>
  Rounding the capacity of a buffer up to a power of two (src/fasthttp/round2_64.go), on 64-bit words.
\<close>

definition smear :: "nat \<Rightarrow> 64 word \<Rightarrow> 64 word" where
  "smear k x = x OR drop_bit k x"

definition roundUpForSliceCap :: "int \<Rightarrow> int" where
  "roundUpForSliceCap n =
     (if n \<le> 0 then 0
      else if n > 100 * 1024 * 1024 then n
      else let x = word_of_int (n - 1) :: 64 word;
               x = smear 1 x; x = smear 2 x; x = smear 4 x; x = smear 8 x; x = smear 16 x
           in sint (x + 1))"

text \<open>A bit of the smeared word is set if one of the next \<open>k\<close> bits of the original one is.\<close>

definition smeared :: "nat \<Rightarrow> 64 word \<Rightarrow> 64 word \<Rightarrow> bool" where
  "smeared k x y \<longleftrightarrow> (\<forall>i. bit y i \<longleftrightarrow> (\<exists>j<k. bit x (i + j)))"

lemma smeared_double:
  assumes "smeared k x y"
  shows "smeared (2 * k) x (smear k y)"
proof -
  have "(\<exists>j<2 * k. bit x (i + j)) \<longleftrightarrow> (\<exists>j<k. bit x (i + j)) \<or> (\<exists>j<k. bit x (i + k + j))" (is "?l \<longleftrightarrow> ?r") for i
  proof
    assume ?l
    then obtain j where j: "j < 2 * k" "bit x (i + j)" by blast
    show ?r
    proof (cases "j < k")
      case False
      with j have "j - k < k" "bit x (i + k + (j - k))" by (auto simp: algebra_simps)
      then show ?thesis by blast
    qed (use j in blast)
  next
    assume ?r
    then show ?l
    proof
      assume "\<exists>j<k. bit x (i + k + j)"
      then obtain j where "j < k" "bit x (i + (k + j))" by (auto simp: add.assoc)
      then show ?l by (intro exI [of _ "k + j"]) auto
    next
      assume "\<exists>j<k. bit x (i + j)"
      then obtain j where "j < k" "bit x (i + j)" by blast
      then show ?l by (intro exI [of _ j]) auto
    qed
  qed
  with assms show ?thesis by (auto simp: smeared_def smear_def bit_or_iff bit_drop_bit_eq add.commute)
qed

lemma smeared_32: "smeared 32 x (smear 16 (smear 8 (smear 4 (smear 2 (smear 1 x)))))"
proof -
  have "smeared 1 x x" by (simp add: smeared_def)
  from smeared_double [OF this] have "smeared 2 x (smear 1 x)" by simp
  from smeared_double [OF this] have "smeared 4 x (smear 2 (smear 1 x))" by simp
  from smeared_double [OF this] have "smeared 8 x (smear 4 (smear 2 (smear 1 x)))" by simp
  from smeared_double [OF this] have "smeared 16 x (smear 8 (smear 4 (smear 2 (smear 1 x))))" by simp
  from smeared_double [OF this] show ?thesis by simp
qed

text \<open>The length of the binary representation: the number of bits up to the highest one that is set.\<close>

lemma bit_length:
  fixes m :: nat
  obtains k where "m < 2 ^ k" and "k = 0 \<or> 2 ^ (k - 1) \<le> m"
proof -
  define k where "k = (LEAST k. m < 2 ^ k)"
  have "m < 2 ^ m" by (rule less_exp)
  then have "m < 2 ^ k" unfolding k_def by (rule LeastI)
  moreover have "k = 0 \<or> 2 ^ (k - 1) \<le> m"
    using not_less_Least [of "k - 1" "\<lambda>k. m < 2 ^ k"] by (cases k) (auto simp: k_def not_less)
  ultimately show thesis by (rule that)
qed

lemma smeared_mask:
  assumes "smeared 32 (word_of_nat m) y" and "m < 2 ^ k" and "k = 0 \<or> 2 ^ (k - 1) \<le> m" and "k \<le> 32"
  shows "y = mask k"
proof (rule bit_word_eqI)
  have above: "\<not> bit m i" if "k \<le> i" for i
    using assms(2) that by (metis bit_take_bit_iff take_bit_nat_eq_self_iff not_less)
  have top: "bit m (k - 1)" if "0 < k"
  proof -
    have "m div 2 ^ (k - 1) = 1"
    proof (rule div_nat_eqI)
      show "2 ^ (k - 1) * 1 \<le> m" using assms(3) that by simp
      show "m < 2 ^ (k - 1) * Suc 1" using assms(2) that by (cases k) auto
    qed
    then show ?thesis by (simp add: bit_iff_odd)
  qed
  fix i
  assume "i < LENGTH(64)"
  have "bit y i \<longleftrightarrow> (\<exists>j<32. bit m (i + j) \<and> i + j < 64)"
    using assms(1) bit_word_of_int_iff [of "int m", where 'a = 64] by (auto simp: smeared_def bit_of_nat_iff_bit)
  also have "\<dots> \<longleftrightarrow> i < k"
  proof
    assume "\<exists>j<32. bit m (i + j) \<and> i + j < 64"
    then show "i < k" using above by (meson le_add1 le_trans not_less)
  next
    assume i: "i < k"
    then have "bit m (i + (k - 1 - i))" using top by simp
    with i assms(4) show "\<exists>j<32. bit m (i + j) \<and> i + j < 64" by (intro exI [of _ "k - 1 - i"]) auto
  qed
  finally show "bit y i \<longleftrightarrow> bit (mask k :: 64 word) i" using assms(4) by (auto simp: bit_mask_iff)
qed

text \<open>Up to 100 megabytes the capacity is the least power of two that holds the requested number of bytes,
  less than twice that number; above it is the number itself. The result is never smaller than the
  request.\<close>

theorem roundUpForSliceCap_least:
  assumes "0 < n"
  shows "n \<le> roundUpForSliceCap n \<and>
    (n \<le> 104857600 \<longrightarrow> (\<exists>k. roundUpForSliceCap n = 2 ^ k \<and> (\<forall>j. n \<le> 2 ^ j \<longrightarrow> k \<le> j)) \<and> roundUpForSliceCap n < 2 * n) \<and>
    (104857600 < n \<longrightarrow> roundUpForSliceCap n = n)"
proof (cases "n \<le> 104857600")
  case True
  define m where "m = nat (n - 1)"
  obtain k where k: "m < 2 ^ k" "k = 0 \<or> 2 ^ (k - 1) \<le> m" by (rule bit_length)
  have "k \<le> 27"
  proof (rule ccontr)
    assume "\<not> k \<le> 27"
    then have "(2 :: nat) ^ 27 \<le> 2 ^ (k - 1)" "k \<noteq> 0" by (intro power_increasing, simp_all)
    moreover have "m < 2 ^ 27" using True by (simp add: m_def)
    ultimately show False using k(2) by linarith
  qed
  have w: "(word_of_int (n - 1) :: 64 word) = word_of_nat m" using assms by (simp add: m_def)
  have y: "smear 16 (smear 8 (smear 4 (smear 2 (smear 1 (word_of_nat m))))) = mask k"
    using smeared_mask [OF smeared_32 k] \<open>k \<le> 27\<close> by simp
  have "(mask k + 1 :: 64 word) = 2 ^ k" by (simp add: mask_eq_decr_exp)
  moreover have "sint (2 ^ k :: 64 word) = 2 ^ k"
  proof -
    have "(2 :: int) ^ k \<le> 2 ^ 27" using \<open>k \<le> 27\<close> by (intro power_increasing) auto
    then have "(2 :: int) ^ k < 2 ^ 63" by simp
    moreover have "- (2 ^ 63) \<le> (2 :: int) ^ k" by (rule order_trans [of _ 0]) simp_all
    ultimately have "signed_take_bit 63 ((2 :: int) ^ k) = 2 ^ k" by (intro signed_take_bit_int_eq_self)
    then show ?thesis using sint_sbintrunc' [of "2 ^ k", where 'a = 64] by simp
  qed
  ultimately have r: "roundUpForSliceCap n = 2 ^ k"
    using True assms w y by (simp add: roundUpForSliceCap_def Let_def)
  have nm: "n = int m + 1" using assms by (simp add: m_def)
  have le: "n \<le> 2 ^ k" using k(1) nm by (metis of_nat_less_iff of_nat_numeral of_nat_power zless_imp_add1_zle)
  have lt: "k = 0 \<or> 2 ^ (k - 1) < n" using k(2) nm by (metis add.commute of_nat_le_iff of_nat_numeral of_nat_power zle_add1_eq_le)
  have "k \<le> j" if "n \<le> 2 ^ j" for j
  proof (rule ccontr)
    assume "\<not> k \<le> j"
    then have "(2 :: int) ^ j \<le> 2 ^ (k - 1)" "k \<noteq> 0" by auto
    with lt that show False by linarith
  qed
  moreover have "2 ^ k < 2 * n" using lt assms by (cases k) auto
  ultimately show ?thesis using True le r by auto
qed (simp add: roundUpForSliceCap_def)

theorem roundUpForSliceCap_least_witness: "1000 \<le> roundUpForSliceCap 1000 \<and> roundUpForSliceCap 1000 < 2000"
  using roundUpForSliceCap_least [of 1000] by auto

end
