(* ===== verification/Lbclient.thy ===== *)
theory Lbclient
  imports Prelude "HOL-Library.Word" "HOL-Library.Product_Lexorder"
begin

text \<open>
  The load-balancing client (src/fasthttp/lbclient.go). The clients it balances are given by their number of
  pending requests, a parameter, since they belong to the program that uses it. The penalty of a client is an
  unsigned 32-bit counter and its total an unsigned 64-bit one. Timers that end a penalty fire at any later
  time.
\<close>

section \<open>State\<close>

record 'c lbClient =
  c :: 'c
  penalty :: "32 word"
  total :: "64 word"

record 'c LBClient =
  Clients :: "'c list"
  cs :: "'c lbClient list"
  once_done :: bool

definition maxPenalty :: "32 word" where "maxPenalty = 300"

definition new_lbClient :: "'c \<Rightarrow> 'c lbClient" where
  "new_lbClient x = \<lparr>c = x, penalty = 0, total = 0\<rparr>"

text \<open>init panics without clients.\<close>

definition LB_init :: "'c LBClient \<Rightarrow> 'c LBClient go" where
  "LB_init L = (if length (Clients L) = 0 then None else Some (L\<lparr>cs := cs L @ map new_lbClient (Clients L)\<rparr>))"

definition AddClient :: "'c \<Rightarrow> 'c LBClient \<Rightarrow> 'c LBClient \<times> nat" where
  "AddClient x L = (let L' = L\<lparr>cs := cs L @ [new_lbClient x]\<rparr> in (L', length (cs L')))"

text \<open>The loop of RemoveClients compacts the slice in place; \<open>None\<close> is a nil pointer.\<close>

fun remove_loop :: "('c \<Rightarrow> bool) \<Rightarrow> nat \<Rightarrow> nat \<Rightarrow> 'c lbClient list \<Rightarrow> 'c lbClient option list \<Rightarrow> nat \<times> 'c lbClient option list" where
  "remove_loop rc idx n [] arr = (n, arr)"
| "remove_loop rc idx n (x # xs) arr =
     (let arr1 = arr[idx := None]
      in if rc (c x) then remove_loop rc (Suc idx) n xs arr1
         else remove_loop rc (Suc idx) (Suc n) xs (arr1[n := Some x]))"

definition RemoveClients :: "('c \<Rightarrow> bool) \<Rightarrow> 'c LBClient \<Rightarrow> 'c LBClient go" where
  "RemoveClients rc L =
     (let (n, arr) = remove_loop rc 0 0 (cs L) (map Some (cs L))
      in if None \<in> set (take n arr) then None else Some (L\<lparr>cs := map the (take n arr)\<rparr>))"

definition PendingRequests :: "('c \<Rightarrow> int) \<Rightarrow> 'c lbClient \<Rightarrow> int" where
  "PendingRequests pend x = pend (c x) + uint (penalty x)"

text \<open>The loop of get with the position of the least loaded client so far.\<close>

fun get_loop :: "('c \<Rightarrow> int) \<Rightarrow> 'c lbClient list \<Rightarrow> nat \<Rightarrow> nat \<Rightarrow> int \<Rightarrow> 64 word \<Rightarrow> nat" where
  "get_loop pend [] i minC minN minT = minC"
| "get_loop pend (x # xs) i minC minN minT =
     (let n = PendingRequests pend x; t = total x
      in if n < minN \<or> n = minN \<and> t < minT then get_loop pend xs (Suc i) i n t
         else get_loop pend xs (Suc i) minC minN minT)"

text \<open>get: the position of the chosen client; the once is done even if init panics.\<close>

definition LB_get :: "('c \<Rightarrow> int) \<Rightarrow> 'c LBClient \<Rightarrow> ('c LBClient \<times> nat) go" where
  "LB_get pend L =
     Option.bind (if once_done L then Some L else map_option (\<lambda>L. L\<lparr>once_done := True\<rparr>) (LB_init L))
       (\<lambda>L1. case cs L1 of
          [] \<Rightarrow> None
        | x # xs \<Rightarrow> Some (L1, get_loop pend xs 1 0 (PendingRequests pend x) (total x)))"

definition incPenalty :: "'c lbClient \<Rightarrow> 'c lbClient \<times> 32 word" where
  "incPenalty x = (let m = penalty x + 1 in (x\<lparr>penalty := m\<rparr>, m))"

definition decPenalty :: "'c lbClient \<Rightarrow> 'c lbClient" where
  "decPenalty x = x\<lparr>penalty := penalty x + (- 1)\<rparr>"

section \<open>The choice of a client\<close>

definition load :: "('c \<Rightarrow> int) \<Rightarrow> 'c lbClient \<Rightarrow> int \<times> 64 word" where
  "load pend x = (PendingRequests pend x, total x)"

lemma get_loop_min:
  assumes "k < length ys" and "i = length ys" and "load pend (ys ! k) = (minN, minT)"
    and "\<forall>y\<in>set ys. load pend (ys ! k) \<le> load pend y" and "\<forall>j<k. load pend (ys ! k) < load pend (ys ! j)"
  shows "let r = get_loop pend xs i k minN minT; zs = ys @ xs in
           r < length zs \<and> (\<forall>y\<in>set zs. load pend (zs ! r) \<le> load pend y) \<and> (\<forall>j<r. load pend (zs ! r) < load pend (zs ! j))"
  using assms
proof (induction xs arbitrary: ys i k minN minT)
  case Nil
  then show ?case by simp
next
  case (Cons x xs)
  show ?case
  proof (cases "load pend x < load pend (ys ! k)")
    case True
    then have "\<forall>y\<in>set (ys @ [x]). load pend ((ys @ [x]) ! i) \<le> load pend y"
      "\<forall>j<i. load pend ((ys @ [x]) ! i) < load pend ((ys @ [x]) ! j)"
      using Cons.prems(2,4) nth_mem [of _ ys] by (auto simp: nth_append intro: less_imp_le dest: less_le_trans)
    then have "let r = get_loop pend xs (Suc i) i (PendingRequests pend x) (total x); zs = (ys @ [x]) @ xs in
        r < length zs \<and> (\<forall>y\<in>set zs. load pend (zs ! r) \<le> load pend y) \<and> (\<forall>j<r. load pend (zs ! r) < load pend (zs ! j))"
      using Cons.prems(2) by (intro Cons.IH) (auto simp: load_def)
    moreover have "get_loop pend (x # xs) i k minN minT = get_loop pend xs (Suc i) i (PendingRequests pend x) (total x)"
      using True Cons.prems(3) by (auto simp: load_def Let_def)
    ultimately show ?thesis by simp
  next
    case False
    then have "let r = get_loop pend xs (Suc i) k minN minT; zs = (ys @ [x]) @ xs in
        r < length zs \<and> (\<forall>y\<in>set zs. load pend (zs ! r) \<le> load pend y) \<and> (\<forall>j<r. load pend (zs ! r) < load pend (zs ! j))"
      using Cons.prems by (intro Cons.IH) (auto simp: nth_append not_less)
    moreover have "get_loop pend (x # xs) i k minN minT = get_loop pend xs (Suc i) k minN minT"
      using False Cons.prems(3) by (auto simp: load_def Let_def)
    ultimately show ?thesis by simp
  qed
qed

text \<open>Get returns the first of the clients with the least load, where the load is the number of pending requests
  with the penalty, and among equals the number of requests served so far; before the first call the
  configured clients are added behind those of AddClient.\<close>

theorem LB_get_least_loaded:
  assumes "LB_get pend L = Some (L', k)"
  shows "cs L' = cs L @ (if once_done L then [] else map new_lbClient (Clients L)) \<and> k < length (cs L') \<and>
    (\<forall>y\<in>set (cs L'). load pend (cs L' ! k) \<le> load pend y) \<and> (\<forall>j<k. load pend (cs L' ! k) < load pend (cs L' ! j))"
proof -
  from assms have L': "cs L' = cs L @ (if once_done L then [] else map new_lbClient (Clients L))"
    by (auto simp: LB_get_def LB_init_def split: bind_splits if_splits list.splits)
  from assms obtain x xs where x: "cs L' = x # xs" "k = get_loop pend xs 1 0 (PendingRequests pend x) (total x)"
    by (auto simp: LB_get_def split: bind_splits list.splits)
  have "let r = get_loop pend xs 1 0 (PendingRequests pend x) (total x); zs = [x] @ xs in
      r < length zs \<and> (\<forall>y\<in>set zs. load pend (zs ! r) \<le> load pend y) \<and> (\<forall>j<r. load pend (zs ! r) < load pend (zs ! j))"
    by (rule get_loop_min) (simp_all add: load_def)
  with L' x show ?thesis by (simp add: Let_def)
qed

theorem LB_get_least_loaded_witness:
  "\<exists>L'. LB_get (\<lambda>n. n) \<lparr>Clients = [3, 1, 1], cs = [], once_done = False\<rparr> = Some (L', 1) \<and> length (cs L') = 3"
proof -
  have "LB_get (\<lambda>n. n) \<lparr>Clients = [3, 1, 1], cs = [], once_done = False\<rparr> =
      Some (\<lparr>Clients = [3, 1, 1], cs = map new_lbClient [3, 1, 1], once_done = True\<rparr>, 1)"
    by (simp add: LB_get_def LB_init_def new_lbClient_def PendingRequests_def)
  with LB_get_least_loaded [OF this] show ?thesis by auto
qed

section \<open>Removing clients\<close>

lemma remove_loop_filter:
  assumes "length keep = n" and "n \<le> idx" and "arr = map Some keep @ junk @ map Some xs"
    and "length arr = idx + length xs"
  shows "\<exists>junk'. remove_loop rc idx n xs arr =
      (length (keep @ filter (\<lambda>x. \<not> rc (c x)) xs), map Some (keep @ filter (\<lambda>x. \<not> rc (c x)) xs) @ junk')"
  using assms
proof (induction xs arbitrary: keep junk idx n arr)
  case Nil
  then show ?case by auto
next
  case (Cons x xs)
  then have l: "length junk = idx - n" by simp
  have a: "arr[idx := None] = map Some keep @ junk @ None # map Some xs"
    using Cons.prems l by (simp add: list_update_append)
  show ?case
  proof (cases "rc (c x)")
    case True
    with Cons.prems a l show ?thesis
      using Cons.IH [of keep n "Suc idx" "arr[idx := None]" "junk @ [None]"] by (auto simp: Let_def)
  next
    case False
    obtain j js where j: "junk @ [None] = j # js" by (cases junk) auto
    have "(arr[idx := None])[n := Some x] = map Some (keep @ [x]) @ js @ map Some xs"
    proof -
      have "arr[idx := None] = map Some keep @ (j # js) @ map Some xs" unfolding a j [symmetric] by simp
      then show ?thesis using Cons.prems(1) by (simp add: list_update_append)
    qed
    moreover have "length js = length junk" using arg_cong [OF j, of length] by simp
    ultimately show ?thesis
      using False Cons.prems Cons.IH [of "keep @ [x]" "Suc n" "Suc idx" "(arr[idx := None])[n := Some x]" js]
      by (auto simp: Let_def)
  qed
qed

text \<open>RemoveClients never panics and keeps exactly the clients the callback does not name, in their order.\<close>

theorem RemoveClients_filter: "RemoveClients rc L = Some (L\<lparr>cs := filter (\<lambda>x. \<not> rc (c x)) (cs L)\<rparr>)"
proof -
  obtain junk where "remove_loop rc 0 0 (cs L) (map Some (cs L)) =
      (length (filter (\<lambda>x. \<not> rc (c x)) (cs L)), map Some (filter (\<lambda>x. \<not> rc (c x)) (cs L)) @ junk)"
    using remove_loop_filter [of "[]" 0 0 "map Some (cs L)" "[]" "cs L" rc] by auto
  then show ?thesis by (auto simp: RemoveClients_def)
qed

section \<open>Penalties\<close>

text \<open>Requests of one client end concurrently. Those that fail increment the penalty and either start a timer that
  will end it or, over the limit, are about to take it back; \<open>timers\<close> and \<open>undos\<close> count them.\<close>

record 'c penalised =
  client :: "'c lbClient"
  timers :: nat
  undos :: nat

text \<open>The end of a request, by whether it was healthy.\<close>

definition finish_request :: "bool \<Rightarrow> 'c penalised \<Rightarrow> 'c penalised" where
  "finish_request healthy s =
     (if healthy then s\<lparr>client := (client s)\<lparr>total := total (client s) + 1\<rparr>\<rparr>
      else let (x, m) = incPenalty (client s)
           in if m > maxPenalty then s\<lparr>client := x, undos := undos s + 1\<rparr> else s\<lparr>client := x, timers := timers s + 1\<rparr>)"

definition undo_penalty :: "'c penalised \<Rightarrow> 'c penalised" where
  "undo_penalty s =
     (let x = decPenalty (client s) in s\<lparr>client := x\<lparr>total := total x + 1\<rparr>, undos := undos s - 1\<rparr>)"

definition fire_timer :: "'c penalised \<Rightarrow> 'c penalised" where
  "fire_timer s = s\<lparr>client := decPenalty (client s), timers := timers s - 1\<rparr>"

text \<open>Fewer than \<open>2 ^ 31\<close> goroutines are between the increment and the decrement at a time.\<close>

inductive penalty_reach :: "'c penalised \<Rightarrow> bool" where
  fresh: "penalty_reach \<lparr>client = new_lbClient x, timers = 0, undos = 0\<rparr>"
| finish: "penalty_reach s \<Longrightarrow> undos s < 2 ^ 31 \<Longrightarrow> penalty_reach (finish_request healthy s)"
| undo: "penalty_reach s \<Longrightarrow> undos s > 0 \<Longrightarrow> penalty_reach (undo_penalty s)"
| fire: "penalty_reach s \<Longrightarrow> timers s > 0 \<Longrightarrow> penalty_reach (fire_timer s)"

lemma unat_dec: "0 < unat w \<Longrightarrow> unat (w + (- 1)) = unat w - 1"
  for w :: "32 word"
  by (metis diff_add_cancel add_uminus_conv_diff unat_minus_one unat_gt_0 neq0_conv unat_0)

lemma penalty_inv:
  "penalty_reach s \<Longrightarrow> unat (penalty (client s)) = timers s + undos s \<and> timers s \<le> 300 \<and> undos s \<le> 2 ^ 31"
proof (induction rule: penalty_reach.induct)
  case (finish s healthy)
  let ?w = "penalty (client s)"
  have u: "unat (?w + 1) = unat ?w + 1" using finish by (intro unat_word_ariths(1) [THEN trans]) (simp add: unat_arith_simps)
  have "?w + 1 > maxPenalty \<longleftrightarrow> unat ?w + 1 > 300" unfolding word_less_nat_alt u by (simp add: maxPenalty_def)
  with finish u show ?case by (auto simp: finish_request_def incPenalty_def Let_def)
next
  case (undo s)
  then show ?case using unat_dec [of "penalty (client s)"] by (auto simp: undo_penalty_def decPenalty_def Let_def)
next
  case (fire s)
  then show ?case using unat_dec [of "penalty (client s)"] by (auto simp: fire_timer_def decPenalty_def)
qed (simp add: new_lbClient_def)

text \<open>The penalty of a client never underflows or wraps, and once the requests that went over the limit have
  taken theirs back it is the number of running timers and at most 300; so when all timers have fired it is zero
  again.\<close>

theorem penalty_bounded:
  assumes "penalty_reach s"
  shows "unat (penalty (client s)) = timers s + undos s \<and> timers s \<le> 300 \<and> (undos s = 0 \<longrightarrow> penalty (client s) \<le> maxPenalty)"
  using penalty_inv [OF assms] by (auto simp: word_le_nat_alt maxPenalty_def)

theorem penalty_bounded_witness:
  "let s = finish_request False \<lparr>client = new_lbClient (), timers = 0, undos = 0\<rparr>
   in penalty_reach s \<and> unat (penalty (client s)) = 1 \<and> penalty (client s) \<le> maxPenalty"
proof -
  let ?s = "finish_request False \<lparr>client = new_lbClient (), timers = 0, undos = 0\<rparr>"
  have r: "penalty_reach ?s" by (rule penalty_reach.finish [OF penalty_reach.fresh]) simp
  moreover have "timers ?s = 1" "undos ?s = 0"
    by (simp_all add: finish_request_def incPenalty_def new_lbClient_def maxPenalty_def)
  ultimately show ?thesis using penalty_bounded [OF r] by simp
qed

end
