(* ===== verification/Header_Scan.thy ===== *)
theory Header_Scan
  imports Cookie
begin

text \<open>
  The layer of src/fasthttp/header.go below the request and response headers: normalisation of
  header names and values, the scanner of header lines, comma-separated header values, the lines
  of a message, trailers and Content-Length.

  The scanner works in place on the buffer of the reader: it rewrites the names and moves what
  follows a folded value to the left. The model keeps the whole array. Its part before the unread
  slice \<open>hs_b\<close> is \<open>hs_done\<close>, the part behind the end of that slice is \<open>hs_after\<close>, so that the
  array is always \<open>hs_done @ hs_b @ hs_after\<close>.
\<close>

unbundle bit_operations_syntax

abbreviation rChar :: char where "rChar \<equiv> CHR 13"
abbreviation nChar :: char where "nChar \<equiv> CHR 10"
abbreviation tChar :: char where "tChar \<equiv> CHR 9"

section \<open>Header names and constant values\<close>

definition strCRLF :: bytes where "strCRLF = [rChar, nChar]"
definition strHTTP10 :: bytes where "strHTTP10 = ''HTTP/1.0''"
definition strHTTP11 :: bytes where "strHTTP11 = ''HTTP/1.1''"
definition strColonSpace :: bytes where "strColonSpace = '': ''"
definition strCommaSpace :: bytes where "strCommaSpace = '', ''"
definition strExpect :: bytes where "strExpect = ''Expect''"
definition strConnection :: bytes where "strConnection = ''Connection''"
definition strContentLength :: bytes where "strContentLength = ''Content-Length''"
definition strContentType :: bytes where "strContentType = ''Content-Type''"
definition strDate :: bytes where "strDate = ''Date''"
definition strHost :: bytes where "strHost = ''Host''"
definition strReferer :: bytes where "strReferer = ''Referer''"
definition strServer :: bytes where "strServer = ''Server''"
definition strTransferEncoding :: bytes where "strTransferEncoding = ''Transfer-Encoding''"
definition strContentEncoding :: bytes where "strContentEncoding = ''Content-Encoding''"
definition strUserAgent :: bytes where "strUserAgent = ''User-Agent''"
definition strCookie :: bytes where "strCookie = ''Cookie''"
definition strSetCookie :: bytes where "strSetCookie = ''Set-Cookie''"
definition strLastModified :: bytes where "strLastModified = ''Last-Modified''"
definition strRange :: bytes where "strRange = ''Range''"
definition strContentRange :: bytes where "strContentRange = ''Content-Range''"
definition strAuthorization :: bytes where "strAuthorization = ''Authorization''"
definition strTE :: bytes where "strTE = ''TE''"
definition strTrailer :: bytes where "strTrailer = ''Trailer''"
definition strMaxForwards :: bytes where "strMaxForwards = ''Max-Forwards''"
definition strProxyConnection :: bytes where "strProxyConnection = ''Proxy-Connection''"
definition strProxyAuthenticate :: bytes where "strProxyAuthenticate = ''Proxy-Authenticate''"
definition strProxyAuthorization :: bytes where "strProxyAuthorization = ''Proxy-Authorization''"
definition strWWWAuthenticate :: bytes where "strWWWAuthenticate = ''WWW-Authenticate''"
definition strVary :: bytes where "strVary = ''Vary''"
definition strClose :: bytes where "strClose = ''close''"
definition strKeepAlive :: bytes where "strKeepAlive = ''keep-alive''"
definition strUpgrade :: bytes where "strUpgrade = ''Upgrade''"
definition strChunked :: bytes where "strChunked = ''chunked''"
definition strIdentity :: bytes where "strIdentity = ''identity''"
definition strPostArgsContentType :: bytes where "strPostArgsContentType = ''application/x-www-form-urlencoded''"
definition strMultipartFormData :: bytes where "strMultipartFormData = ''multipart/form-data''"
definition strBoundary :: bytes where "strBoundary = ''boundary''"
definition strBytes :: bytes where "strBytes = ''bytes''"

lemmas header_strings = strCRLF_def strHTTP10_def strHTTP11_def strColonSpace_def strCommaSpace_def strExpect_def
  strConnection_def strContentLength_def strContentType_def strDate_def strHost_def strReferer_def strServer_def
  strTransferEncoding_def strContentEncoding_def strUserAgent_def strCookie_def strSetCookie_def strLastModified_def
  strRange_def strContentRange_def strAuthorization_def strTE_def strTrailer_def strMaxForwards_def
  strProxyConnection_def strProxyAuthenticate_def strProxyAuthorization_def strWWWAuthenticate_def strVary_def
  strClose_def strKeepAlive_def strUpgrade_def strChunked_def strIdentity_def strPostArgsContentType_def
  strMultipartFormData_def strBoundary_def strBytes_def

section \<open>Errors\<close>

text \<open>The errors of the header parsers. Where a message quotes the whole buffer unless
  secureErrorLogMessage is set, the constructor has the quoted bytes as an option.\<close>

datatype content_length_error = BadUint int_error | errNonNumericChars

datatype header_error =
  errNeedMore | errInvalidName | InvalidHeaderKey bytes | InvalidTrailerKey bytes | ForbiddenTrailerKey bytes
| ErrBadTrailer | ContentLengthError content_length_error | TrailerEOF | NoMethod "bytes option"
| EmptyRequestURI "bytes option" | NoWhitespace "bytes option" | BadStatusCode int_error "bytes option"
| StatusCodeTrailing "bytes option"

section \<open>Normalisation\<close>

text \<open>The loop of normalizeHeaderKey from index 1 on.\<close>

fun normalize_tail :: "bytes \<Rightarrow> bytes" where
  "normalize_tail [] = []"
| "normalize_tail [c] = (if c = CHR ''-'' then [c] else [toLowerTable c])"
| "normalize_tail (c # d # r) =
     (if c = CHR ''-'' then c # toUpperTable d # normalize_tail r else toLowerTable c # normalize_tail (d # r))"

definition normalizeHeaderKey :: "bytes \<Rightarrow> bool \<Rightarrow> bytes" where
  "normalizeHeaderKey b disableNormalizing =
     (if disableNormalizing then b
      else case b of [] \<Rightarrow> [] | c # r \<Rightarrow> toUpperTable c # normalize_tail r)"

definition AppendNormalizedHeaderKey :: "bytes \<Rightarrow> bytes \<Rightarrow> bytes" where
  "AppendNormalizedHeaderKey dst k = dst @ normalizeHeaderKey k False"

definition AppendNormalizedHeaderKeyBytes :: "bytes \<Rightarrow> bytes \<Rightarrow> bytes" where
  "AppendNormalizedHeaderKeyBytes dst k = AppendNormalizedHeaderKey dst k"

definition blank_newline :: "char \<Rightarrow> char" where
  "blank_newline c = (if c = rChar \<or> c = nChar then CHR '' '' else c)"

definition removeNewLines :: "bytes \<Rightarrow> bytes" where
  "removeNewLines raw =
     (let foundR = IndexByte raw rChar; foundN = IndexByte raw nChar
      in if foundN \<noteq> - 1 then
           let start = (if foundR > foundN then foundN else if foundR \<noteq> - 1 then foundR else 0)
           in take (nat start) raw @ map blank_newline (drop (nat start) raw)
         else if foundR \<noteq> - 1 then take (nat foundR) raw @ map blank_newline (drop (nat foundR) raw)
         else raw)"

definition getHeaderKeyBytes :: "bytes \<Rightarrow> bool \<Rightarrow> bytes" where
  "getHeaderKeyBytes k disableNormalizing = normalizeHeaderKey k disableNormalizing"

text \<open>initHeaderKV fills the scratch entry bufKV with the normalised name and the value on one line.\<close>

definition initHeaderKV :: "bytes \<Rightarrow> bytes \<Rightarrow> bool \<Rightarrow> bytes \<times> bytes" where
  "initHeaderKV k v disableNormalizing = (getHeaderKeyBytes k disableNormalizing, removeNewLines v)"

text \<open>The loop of normalizeHeaderValue: the bytes written and the number of bytes dropped.\<close>

fun unfold_loop :: "bytes \<Rightarrow> bool \<Rightarrow> bytes \<times> nat" where
  "unfold_loop [] lineStart = ([], 0)"
| "unfold_loop (c # r) lineStart =
     (if c = rChar \<or> c = nChar then
        (let (nv, shrunk) = unfold_loop r (lineStart \<or> c = nChar) in (nv, Suc shrunk))
      else if lineStart \<and> c = tChar then (let (nv, shrunk) = unfold_loop r lineStart in (CHR '' '' # nv, shrunk))
      else (let (nv, shrunk) = unfold_loop r False in (c # nv, shrunk)))"

text \<open>The results are the value, where the rest starts in the array \<open>ob\<close>, how long the array is
  without the bytes that are now stale, the header length and the array. A value that is empty gives
  the zero values of the named results.\<close>

definition normalizeHeaderValue :: "bytes \<Rightarrow> bytes \<Rightarrow> int \<Rightarrow> bytes \<times> nat \<times> nat \<times> int \<times> bytes" where
  "normalizeHeaderValue ov ob headerLength =
     (if length ov = 0 then (ov, length ob, length ob, 0, ob)
      else
        let (nv, shrunk) = unfold_loop ov False;
            write = length nv;
            ob1 = nv @ drop write ob;
            ob2 = take write ob1 @ drop (write + shrunk) ob1 @ drop (length ob - shrunk) ob1;
            skip = (if ob2 ! write = rChar then (if ob2 ! (write + 1) = nChar then 2 else 1)
                    else if ob2 ! write = nChar then 1 else 0)
        in (nv, write + skip, length ob - shrunk, headerLength - int shrunk, ob2))"

section \<open>The scanner of header lines\<close>

record headerScanner =
  hs_done :: bytes
  hs_b :: bytes
  hs_after :: bytes
  hs_key :: bytes
  hs_value :: bytes
  hs_err :: "header_error option"
  hs_hLen :: int
  hs_disableNormalizing :: bool
  nextColon :: int
  nextNewLine :: int
  initialized :: bool

definition new_scanner :: "bytes \<Rightarrow> bool \<Rightarrow> headerScanner" where
  "new_scanner b disableNormalizing =
     \<lparr>hs_done = [], hs_b = b, hs_after = [], hs_key = [], hs_value = [], hs_err = None, hs_hLen = 0,
      hs_disableNormalizing = disableNormalizing, nextColon = 0, nextNewLine = 0, initialized = False\<rparr>"

definition hs_array :: "headerScanner \<Rightarrow> bytes" where
  "hs_array s = hs_done s @ hs_b s @ hs_after s"

text \<open>Moving the start of the unread slice by \<open>n\<close> bytes.\<close>

definition advance :: "nat \<Rightarrow> headerScanner \<Rightarrow> headerScanner" where
  "advance n s =
     s\<lparr>hs_done := hs_done s @ take n (hs_b s), hs_b := drop n (hs_b s), hs_hLen := hs_hLen s + int n\<rparr>"

text \<open>The index of the colon of the line, known from the previous call or searched for.\<close>

definition find_colon :: "headerScanner \<Rightarrow> header_error + nat" where
  "find_colon s =
     (if nextColon s \<ge> 0 then Inr (nat (nextColon s))
      else
        let n = IndexByte (hs_b s) CHR '':''; x = IndexByte (hs_b s) nChar
        in if x < 0 then Inl errNeedMore
           else if x < n then Inl errInvalidName
           else if n < 0 then Inl errNeedMore
           else Inr (nat n))"

text \<open>The name up to the colon at \<open>n\<close>, normalised in place, and the spaces behind the colon.\<close>

definition scan_key :: "nat \<Rightarrow> headerScanner \<Rightarrow> headerScanner" where
  "scan_key n s =
     (let k = normalizeHeaderKey (take n (hs_b s)) (hs_disableNormalizing s);
          b = k @ drop n (hs_b s);
          sp = length (takeWhile (\<lambda>c. c = CHR '' '') (drop (n + 1) b))
      in advance (n + 1 + sp)
           (s\<lparr>hs_b := b, hs_key := k, nextColon := - 1, nextNewLine := nextNewLine s - int sp\<rparr>))"

text \<open>The loop over the lines of a folded value: the end of its last line, whether it has more than
  one, and the next colon and newline when the line behind it has a colon.\<close>

function value_lines :: "bytes \<Rightarrow> nat \<Rightarrow> bool \<Rightarrow> nat \<times> bool \<times> (int \<times> int) option" where
  "value_lines b n multi =
     (if n + 1 \<ge> length b then (n, multi, None)
      else if b ! (n + 1) \<noteq> CHR '' '' \<and> b ! (n + 1) \<noteq> tChar then (n, multi, None)
      else
        let d = IndexByte (drop (n + 1) b) nChar
        in if d \<le> 0 then (n, multi, None)
           else if d = 1 \<and> b ! (n + 1) = rChar then (n, multi, None)
           else
             let e = n + nat d + 1; c = IndexByte (slice (n + 1) e b) CHR '':''
             in if c \<ge> 0 then (n, multi, Some (c, d - c - 1)) else value_lines b e True)"
  by pat_completeness auto
termination
  by (relation "measure (\<lambda>(b, n, multi). length b - n)") auto

declare value_lines.simps [simp del]

text \<open>The value without its line end and trailing spaces.\<close>

definition trim_value :: "bytes \<Rightarrow> bytes" where
  "trim_value v =
     (let v1 = (if v \<noteq> [] \<and> last v = rChar then butlast v else v)
      in rev (dropWhile (\<lambda>c. c = CHR '' '') (rev v1)))"

text \<open>The end of next: the value up to index \<open>n\<close>.\<close>

definition take_value :: "nat \<Rightarrow> bool \<Rightarrow> headerScanner \<Rightarrow> headerScanner" where
  "take_value n multi s =
     (let v = trim_value (take n (hs_b s))
      in if multi then
           (let (nv, start, fin, hLen, ob) = normalizeHeaderValue v (hs_b s) (hs_hLen s + int n + 1)
            in s\<lparr>hs_done := hs_done s @ take start ob, hs_b := slice start fin ob,
                 hs_after := drop fin ob @ hs_after s, hs_value := nv, hs_hLen := hLen\<rparr>)
         else (advance (n + 1) s)\<lparr>hs_value := v\<rparr>)"

definition scan_value :: "headerScanner \<Rightarrow> bool \<times> headerScanner" where
  "scan_value s =
     (let n = (if nextNewLine s \<ge> 0 then nextNewLine s else IndexByte (hs_b s) nChar);
          s = (if nextNewLine s \<ge> 0 then s\<lparr>nextNewLine := - 1\<rparr> else s)
      in if n < 0 then (False, s\<lparr>hs_err := Some errNeedMore\<rparr>)
         else
           let (m, multi, cn) = value_lines (hs_b s) (nat n) False;
               s1 = (case cn of None \<Rightarrow> s | Some (c, l) \<Rightarrow> s\<lparr>nextColon := c, nextNewLine := l\<rparr>)
           in if m \<ge> length (hs_b s1) then (False, s1\<lparr>hs_err := Some errNeedMore\<rparr>)
              else (True, take_value m multi s1))"

definition headerScanner_next :: "headerScanner \<Rightarrow> bool \<times> headerScanner" where
  "headerScanner_next s0 =
     (let s = (if \<not> initialized s0 then s0\<lparr>nextColon := - 1, nextNewLine := - 1, initialized := True\<rparr> else s0);
          b = hs_b s
      in if length b \<ge> 2 \<and> b ! 0 = rChar \<and> b ! 1 = nChar then (False, advance 2 s)
         else if length b \<ge> 1 \<and> b ! 0 = nChar then (False, advance 1 s)
         else case find_colon s of
                Inl e \<Rightarrow> (False, s\<lparr>hs_err := Some e\<rparr>)
              | Inr n \<Rightarrow> scan_value (scan_key n s))"

text \<open>A call that finds a header line leaves less to read.\<close>

lemma length_normalize_tail [simp]: "length (normalize_tail b) = length b"
  by (induction b rule: normalize_tail.induct) auto

lemma length_normalizeHeaderKey [simp]: "length (normalizeHeaderKey b d) = length b"
  by (simp add: normalizeHeaderKey_def split: list.split)

lemma unfold_loop_length: "unfold_loop v l = (nv, k) \<Longrightarrow> length nv + k = length v"
  by (induction v l arbitrary: nv k rule: unfold_loop.induct) (auto split: if_splits prod.splits)

lemma take_value_shorter:
  assumes "n < length (hs_b s)"
  shows "length (hs_b (take_value n multi s)) \<le> length (hs_b s)"
proof (cases multi)
  case True
  then show ?thesis
    by (auto simp: take_value_def normalizeHeaderValue_def Let_def length_slice split: prod.splits)
next
  case False
  then show ?thesis by (simp add: take_value_def advance_def Let_def)
qed

lemma scan_value_shorter:
  "scan_value s = (True, s') \<Longrightarrow> hs_b s \<noteq> [] \<and> length (hs_b s') \<le> length (hs_b s)"
  by (auto simp: scan_value_def Let_def split: if_splits prod.splits option.splits
      intro!: order_trans [OF take_value_shorter])

lemma scan_key_shorter: "hs_b (scan_key n s) \<noteq> [] \<Longrightarrow> length (hs_b (scan_key n s)) < length (hs_b s)"
  by (auto simp: scan_key_def Let_def advance_def)

lemma headerScanner_next_shorter:
  assumes "headerScanner_next s = (True, s')"
  shows "length (hs_b s') < length (hs_b s)"
proof -
  define t where "t = (if \<not> initialized s then s\<lparr>nextColon := - 1, nextNewLine := - 1, initialized := True\<rparr> else s)"
  from assms obtain n where t: "scan_value (scan_key n t) = (True, s')"
    unfolding headerScanner_next_def Let_def t_def [symmetric] by (auto split: if_splits sum.splits)
  have "hs_b t = hs_b s" by (simp add: t_def)
  with scan_value_shorter [OF t] scan_key_shorter [of n t] show ?thesis by simp
qed

section \<open>Comma-separated values\<close>

fun strip_left :: "bytes \<Rightarrow> bytes" where
  "strip_left b = dropWhile (\<lambda>c. c = CHR '' '') b"

definition stripSpace :: "bytes \<Rightarrow> bytes" where
  "stripSpace b = rev (strip_left (rev (strip_left b)))"

text \<open>One call of next: the value and what is left to scan.\<close>

definition headerValueScanner_next :: "bytes \<Rightarrow> (bytes \<times> bytes) option" where
  "headerValueScanner_next b =
     (if length b = 0 then None
      else let n = IndexByte b CHR '',''
           in if n < 0 then Some (stripSpace b, [])
              else Some (stripSpace (take (nat n) b), drop (nat n + 1) b))"

lemma headerValueScanner_next_shorter: "headerValueScanner_next b = Some (v, r) \<Longrightarrow> length r < length b"
  by (auto simp: headerValueScanner_next_def Let_def split: if_splits)

function hasHeaderValue :: "bytes \<Rightarrow> bytes \<Rightarrow> bool" where
  "hasHeaderValue s v =
     (case headerValueScanner_next s of
        None \<Rightarrow> False
      | Some (x, r) \<Rightarrow> (if caseInsensitiveCompare x v then True else hasHeaderValue r v))"
  by pat_completeness auto
termination
  by (relation "measure (\<lambda>(s, v). length s)") (auto dest: headerValueScanner_next_shorter)

declare hasHeaderValue.simps [simp del]

section \<open>Lines of a message\<close>

definition nextLine :: "bytes \<Rightarrow> header_error + (bytes \<times> bytes)" where
  "nextLine b =
     (let nNext = IndexByte b nChar
      in if nNext < 0 then Inl errNeedMore
         else let n = nat nNext; m = (if n > 0 \<and> b ! (n - 1) = rChar then n - 1 else n)
              in Inr (take m b, drop (n + 1) b))"

lemma nextLine_shorter: "nextLine b = Inr (l, r) \<Longrightarrow> length r < length b"
  by (cases b) (auto simp: nextLine_def Let_def IndexByte_def split: if_splits)

text \<open>The loop at the start of both parseFirstLine: the first line that is not empty and what follows it.\<close>

function first_line :: "bytes \<Rightarrow> header_error + (bytes \<times> bytes)" where
  "first_line bNext =
     (case nextLine bNext of
        Inl e \<Rightarrow> Inl e
      | Inr (b, bNext') \<Rightarrow> (if length b = 0 then first_line bNext' else Inr (b, bNext')))"
  by pat_completeness auto
termination
  by (relation "measure length") (auto dest: nextLine_shorter)

declare first_line.simps [simp del]

text \<open>The loop of readRawHeaders: \<open>n\<close> bytes of \<open>buf\<close> end in a line, \<open>b\<close> follows them.\<close>

function raw_loop :: "nat \<Rightarrow> bytes \<Rightarrow> nat option" where
  "raw_loop n b =
     (let i = IndexByte b nChar
      in if i < 0 then None
         else let m = nat i + 1
              in if (m = 2 \<and> b ! 0 = rChar) \<or> m = 1 then Some (n + m) else raw_loop (n + m) (drop m b))"
  by pat_completeness auto
termination
  by (relation "measure (\<lambda>(n, b). length b)") (auto simp: IndexByte_def Let_def split: if_splits)

declare raw_loop.simps [simp del]

definition readRawHeaders :: "bytes \<Rightarrow> bytes \<Rightarrow> bytes \<times> nat \<times> header_error option" where
  "readRawHeaders dst buffer =
     (let n = IndexByte buffer nChar
      in if n < 0 then ([], 0, Some errNeedMore)
         else if n = 1 \<and> buffer ! 0 = rChar \<or> n = 0 then (dst, nat n + 1, None)
         else case raw_loop (nat n + 1) (drop (nat n + 1) buffer) of
                None \<Rightarrow> (dst, 0, Some errNeedMore)
              | Some m \<Rightarrow> (dst @ take m buffer, m, None))"

definition appendHeaderLine :: "bytes \<Rightarrow> bytes \<Rightarrow> bytes \<Rightarrow> bytes" where
  "appendHeaderLine dst k v = dst @ k @ strColonSpace @ v @ strCRLF"

fun appendArgsKeyBytes :: "bytes \<Rightarrow> argsKV list \<Rightarrow> bytes \<Rightarrow> bytes" where
  "appendArgsKeyBytes dst [] sep = dst"
| "appendArgsKeyBytes dst (kv # kvs) sep =
     appendArgsKeyBytes (dst @ key kv @ (if kvs \<noteq> [] then sep else [])) kvs sep"

section \<open>Content-Length\<close>

definition parseContentLength :: "bytes \<Rightarrow> int \<times> content_length_error option" where
  "parseContentLength b =
     (let (v, n, err) = parseUintBuf b
      in case err of
           Some e \<Rightarrow> (- 1, Some (BadUint e))
         | None \<Rightarrow> (if n \<noteq> length b then (- 1, Some errNonNumericChars) else (v, None)))"

section \<open>Trailers\<close>

definition isBadTrailer :: "bytes \<Rightarrow> bool" where
  "isBadTrailer k =
     (if length k = 0 then True
      else
        let x = or20 (k ! 0)
        in if x = CHR ''a'' then caseInsensitiveCompare k strAuthorization
           else if x = CHR ''c'' then
             (if length k > length strContentType \<and> caseInsensitiveCompare (take 8 k) (take 8 strContentType) then
                caseInsensitiveCompare (drop 8 k) (drop 8 strContentEncoding) \<or>
                caseInsensitiveCompare (drop 8 k) (drop 8 strContentLength) \<or>
                caseInsensitiveCompare (drop 8 k) (drop 8 strContentType) \<or>
                caseInsensitiveCompare (drop 8 k) (drop 8 strContentRange)
              else caseInsensitiveCompare k strConnection)
           else if x = CHR ''e'' then caseInsensitiveCompare k strExpect
           else if x = CHR ''h'' then caseInsensitiveCompare k strHost
           else if x = CHR ''k'' then caseInsensitiveCompare k strKeepAlive
           else if x = CHR ''m'' then caseInsensitiveCompare k strMaxForwards
           else if x = CHR ''p'' then
             (if length k > length strProxyConnection \<and> caseInsensitiveCompare (take 6 k) (take 6 strProxyConnection) then
                caseInsensitiveCompare (drop 6 k) (drop 6 strProxyConnection) \<or>
                caseInsensitiveCompare (drop 6 k) (drop 6 strProxyAuthenticate) \<or>
                caseInsensitiveCompare (drop 6 k) (drop 6 strProxyAuthorization)
              else False)
           else if x = CHR ''r'' then caseInsensitiveCompare k strRange
           else if x = CHR ''t'' then
             caseInsensitiveCompare k strTE \<or> caseInsensitiveCompare k strTrailer \<or>
             caseInsensitiveCompare k strTransferEncoding
           else if x = CHR ''w'' then caseInsensitiveCompare k strWWWAuthenticate
           else False)"

text \<open>The loop of both AddTrailerBytes over what is left of the list of names.\<close>

function add_trailer_loop :: "bool \<Rightarrow> bytes \<Rightarrow> kv_slice \<Rightarrow> header_error option \<Rightarrow> kv_slice \<times> header_error option" where
  "add_trailer_loop disableNormalizing t trailer err =
     (if length t = 0 then (trailer, err)
      else
        let n = IndexByte t CHR '',''; i = (if n < 0 then length t else nat n); k = stripSpace (take i t)
        in if isBadTrailer k then add_trailer_loop disableNormalizing (drop (i + 1) t) trailer (Some ErrBadTrailer)
           else add_trailer_loop disableNormalizing (drop (i + 1) t)
                  (appendArgBytes trailer (normalizeHeaderKey k disableNormalizing) [] argsNoValue) err)"
  by pat_completeness auto
termination
  by (relation "measure (\<lambda>(d, t, trailer, err). length t)") auto

declare add_trailer_loop.simps [simp del]

text \<open>The loop of both parseTrailer: the scanner, the header slice and the last error.\<close>

function trailer_loop ::
  "headerScanner \<Rightarrow> kv_slice \<Rightarrow> header_error option \<Rightarrow> headerScanner \<times> kv_slice \<times> header_error option" where
  "trailer_loop s h err =
     (case headerScanner_next s of
        (False, s') \<Rightarrow> (s', h, err)
      | (True, s') \<Rightarrow>
          (if length (hs_key s') > 0 then
             if IndexByte (hs_key s') CHR '' '' \<noteq> - 1 \<or> IndexByte (hs_key s') tChar \<noteq> - 1 then
               trailer_loop s' h (Some (InvalidTrailerKey (hs_key s')))
             else if isBadTrailer (hs_key s') then trailer_loop s' h (Some (ForbiddenTrailerKey (hs_key s')))
             else trailer_loop s' (appendArgBytes h (hs_key s') (hs_value s') argsHasValue) err
           else trailer_loop s' h err))"
  by pat_completeness auto
termination
  by (relation "measure (\<lambda>(s, h, err). length (hs_b s))") (auto dest!: headerScanner_next_shorter [OF sym])

declare trailer_loop.simps [simp del]

text \<open>parseTrailer reads \<open>buf[0]\<close>, which panics on an empty buffer. The results are the header slice, the
  number of bytes read or the error, and the buffer.\<close>

definition parse_trailer :: "bool \<Rightarrow> kv_slice \<Rightarrow> bytes \<Rightarrow> (kv_slice \<times> (header_error + int) \<times> bytes) go" where
  "parse_trailer disableNormalizing h buffer =
     (if length buffer = 0 then None
      else
        let skip = length strCRLF + 1
        in if buffer ! 0 = CHR ''0'' \<and> length buffer < skip then Some (h, Inl TrailerEOF, buffer)
           else
             let skipped = (if buffer ! 0 = CHR ''0'' then take skip buffer else []);
                 (s, h', err) = trailer_loop (new_scanner (drop (length skipped) buffer) disableNormalizing) h None
             in Some (h', (case hs_err s of
                             Some e \<Rightarrow> Inl e
                           | None \<Rightarrow> (case err of Some e \<Rightarrow> Inl e | None \<Rightarrow> Inr (hs_hLen s))),
                      skipped @ hs_array s))"

section \<open>Parameters of a header value\<close>

definition validHeaderFieldByte :: "char \<Rightarrow> bool" where
  "validHeaderFieldByte c \<longleftrightarrow> byte_val c < 128 \<and> tcharTable c"

text \<open>A quoted value: its bytes as they are, and what follows from the closing quote on.\<close>

fun quoted_loop :: "bool \<Rightarrow> bytes \<Rightarrow> (bytes \<times> bytes) option" where
  "quoted_loop escaping [] = None"
| "quoted_loop escaping (c # r) =
     (if c = CHR 34 \<and> \<not> escaping then Some ([], c # r)
      else map_option (\<lambda>(v, rest). (c # v, rest)) (quoted_loop (c = CHR 92 \<and> \<not> escaping) r))"

lemma quoted_loop_length: "quoted_loop e b = Some (v, rest) \<Longrightarrow> length b = length v + length rest \<and> rest \<noteq> []"
  by (induction e b arbitrary: v rule: quoted_loop.induct) (auto split: if_splits)

text \<open>The name of the next parameter and what follows its equals sign, which is not empty.\<close>

definition next_param :: "bytes \<Rightarrow> (bytes \<times> bytes) option" where
  "next_param b =
     (case dropWhile (\<lambda>c. c \<noteq> CHR '';'') b of
        [] \<Rightarrow> None
      | _ # b \<Rightarrow>
          (let b = dropWhile (\<lambda>c. c = CHR '' '') b;
               n = length (takeWhile validHeaderFieldByte b)
           in if n = 0 then None
              else if n \<ge> length b - 1 \<or> b ! n \<noteq> CHR ''='' then None
              else Some (take n b, drop (n + 1) b)))"

lemma next_param_length: "next_param b = Some (k, r) \<Longrightarrow> length r < length b \<and> r \<noteq> []"
proof -
  assume p: "next_param b = Some (k, r)"
  then obtain c b1 where c: "dropWhile (\<lambda>c. c \<noteq> CHR '';'') b = c # b1"
    by (auto simp: next_param_def split: list.splits)
  have l: "length (dropWhile (\<lambda>c. c = CHR '' '') b1) < length b"
    using length_dropWhile_le [of "\<lambda>c. c = CHR '' ''" b1] length_dropWhile_le [of "\<lambda>c. c \<noteq> CHR '';''" b] c
    by simp
  with p c show ?thesis by (auto simp: next_param_def Let_def split: if_splits)
qed

function VisitHeaderParams :: "(bytes \<Rightarrow> bytes \<Rightarrow> 's \<Rightarrow> bool \<times> 's) \<Rightarrow> bytes \<Rightarrow> 's \<Rightarrow> 's" where
  "VisitHeaderParams f b st =
     (case next_param b of
        None \<Rightarrow> st
      | Some (k, r) \<Rightarrow>
          if validHeaderFieldByte (hd r) then
            (case f k (takeWhile validHeaderFieldByte r) st of
               (False, st') \<Rightarrow> st'
             | (True, st') \<Rightarrow> VisitHeaderParams f (dropWhile validHeaderFieldByte r) st')
          else if hd r = CHR 34 then
            (case quoted_loop False (tl r) of
               None \<Rightarrow> st
             | Some (v, rest) \<Rightarrow>
                 (case f k v st of (False, st') \<Rightarrow> st' | (True, st') \<Rightarrow> VisitHeaderParams f (tl rest) st'))
          else st)"
  by pat_completeness auto
termination
proof (relation "measure (\<lambda>(f, b, st). length b)")
  fix f :: "bytes \<Rightarrow> bytes \<Rightarrow> 's \<Rightarrow> bool \<times> 's" and b st x k r y x' st'
  assume "next_param b = Some x" "(k, r) = x"
  then have l: "length r < length b" using next_param_length [of b k r] by auto
  show "((f, dropWhile validHeaderFieldByte r, st'), f, b, st) \<in> measure (\<lambda>(f, b, st). length b)"
    using l length_dropWhile_le [of validHeaderFieldByte r] by simp
next
  fix f :: "bytes \<Rightarrow> bytes \<Rightarrow> 's \<Rightarrow> bool \<times> 's" and b st x k r q v rest y x' st'
  assume "next_param b = Some x" "(k, r) = x" "quoted_loop False (tl r) = Some q" "(v, rest) = q"
  then show "((f, tl rest, st'), f, b, st) \<in> measure (\<lambda>(f, b, st). length b)"
    using next_param_length [of b k r] quoted_loop_length [of False "tl r" v rest] by auto
qed simp

declare VisitHeaderParams.simps [simp del]

lemma visit_params_example:
  "VisitHeaderParams (\<lambda>k v st. (True, st @ [(k, v)])) ''text/plain;charset=utf-8;q=0.39'' [] =
     [(''charset'', ''utf-8''), (''q'', ''0.39'')]"
  by code_simp

end
