(* ===== verification/Request_Header.thy ===== *)
theory Request_Header
  imports Header_Scan
begin

text \<open>
  The request header (RequestHeader of src/fasthttp/header.go): its fields and every operation on them,
  the text of the header and the parser of that text. The scratch entry bufKV is rewritten on every use
  and is not part of the state. A getter that may return a nil slice returns the empty list for it.
  The name of an operation is that of its method behind \<open>RequestHeader_\<close>.
\<close>

unbundle bit_operations_syntax

section \<open>State\<close>

record RequestHeader =
  q_disableNormalizing :: bool
  q_noHTTP11 :: bool
  q_connectionClose :: bool
  q_noDefaultContentType :: bool
  q_disableSpecialHeader :: bool
  q_cookiesCollected :: bool
  q_contentLength :: int
  q_contentLengthBytes :: bytes
  q_secureErrorLogMessage :: bool
  q_method :: bytes
  q_requestURI :: bytes
  q_proto :: bytes
  q_host :: bytes
  q_contentType :: bytes
  q_userAgent :: bytes
  q_mulHeader :: "bytes list"
  q_h :: kv_slice
  q_trailer :: kv_slice
  q_cookies :: kv_slice
  q_rawHeaders :: bytes

text \<open>The zero value of the struct.\<close>

definition zero_request_header :: RequestHeader where
  "zero_request_header =
     \<lparr>q_disableNormalizing = False, q_noHTTP11 = False, q_connectionClose = False, q_noDefaultContentType = False,
      q_disableSpecialHeader = False, q_cookiesCollected = False, q_contentLength = 0, q_contentLengthBytes = [],
      q_secureErrorLogMessage = False, q_method = [], q_requestURI = [], q_proto = [], q_host = [],
      q_contentType = [], q_userAgent = [], q_mulHeader = [], q_h = ([], []), q_trailer = ([], []),
      q_cookies = ([], []), q_rawHeaders = []\<rparr>"

text \<open>The slice cut to length 0: its entries become stale.\<close>

definition cut0 :: "kv_slice \<Rightarrow> kv_slice" where
  "cut0 h = ([], fst h @ snd h)"

definition MethodGet :: bytes where "MethodGet = ''GET''"
definition MethodHead :: bytes where "MethodHead = ''HEAD''"
definition MethodPost :: bytes where "MethodPost = ''POST''"
definition MethodPut :: bytes where "MethodPut = ''PUT''"
definition MethodPatch :: bytes where "MethodPatch = ''PATCH''"
definition MethodDelete :: bytes where "MethodDelete = ''DELETE''"
definition MethodConnect :: bytes where "MethodConnect = ''CONNECT''"
definition MethodOptions :: bytes where "MethodOptions = ''OPTIONS''"
definition MethodTrace :: bytes where "MethodTrace = ''TRACE''"

lemmas method_names = MethodGet_def MethodHead_def MethodPost_def MethodPut_def MethodPatch_def MethodDelete_def
  MethodConnect_def MethodOptions_def MethodTrace_def

section \<open>Cookies\<close>

text \<open>The loop of collectCookies at index \<open>i\<close>: a Cookie entry is parsed and moved behind the slice.\<close>

function collect_loop :: "nat \<Rightarrow> kv_slice \<Rightarrow> kv_slice \<Rightarrow> kv_slice \<times> kv_slice" where
  "collect_loop i (h, sp) cookies =
     (if i < length h then
        (if caseInsensitiveCompare (key (h ! i)) strCookie then
           collect_loop i (take i h @ drop (Suc i) h, h ! i # sp) (parseRequestCookies cookies (val (h ! i)))
         else collect_loop (Suc i) (h, sp) cookies)
      else ((h, sp), cookies))"
  by pat_completeness auto
termination
  by (relation "measure (\<lambda>(i, (h, sp), cookies). length h - i)") auto

declare collect_loop.simps [simp del]

definition RequestHeader_collectCookies :: "RequestHeader \<Rightarrow> RequestHeader" where
  "RequestHeader_collectCookies h =
     (if q_cookiesCollected h then h
      else let (hs, cs) = collect_loop 0 (q_h h) (q_cookies h)
           in h\<lparr>q_h := hs, q_cookies := cs, q_cookiesCollected := True\<rparr>)"

definition RequestHeader_Cookie :: "RequestHeader \<Rightarrow> bytes \<Rightarrow> bytes option \<times> RequestHeader" where
  "RequestHeader_Cookie h k =
     (let h = RequestHeader_collectCookies h in (peekArgStr (fst (q_cookies h)) k, h))"

definition RequestHeader_CookieBytes :: "RequestHeader \<Rightarrow> bytes \<Rightarrow> bytes option \<times> RequestHeader" where
  "RequestHeader_CookieBytes h k =
     (let h = RequestHeader_collectCookies h in (peekArgBytes (fst (q_cookies h)) k, h))"

definition RequestHeader_SetCookie :: "RequestHeader \<Rightarrow> bytes \<Rightarrow> bytes \<Rightarrow> RequestHeader" where
  "RequestHeader_SetCookie h k v =
     (let h = RequestHeader_collectCookies h in h\<lparr>q_cookies := setArg (q_cookies h) k v argsHasValue\<rparr>)"

definition RequestHeader_SetCookieBytesK :: "RequestHeader \<Rightarrow> bytes \<Rightarrow> bytes \<Rightarrow> RequestHeader" where
  "RequestHeader_SetCookieBytesK h k v = RequestHeader_SetCookie h k v"

definition RequestHeader_SetCookieBytesKV :: "RequestHeader \<Rightarrow> bytes \<Rightarrow> bytes \<Rightarrow> RequestHeader" where
  "RequestHeader_SetCookieBytesKV h k v = RequestHeader_SetCookie h k v"

definition RequestHeader_DelCookie :: "RequestHeader \<Rightarrow> bytes \<Rightarrow> RequestHeader" where
  "RequestHeader_DelCookie h k =
     (let h = RequestHeader_collectCookies h in h\<lparr>q_cookies := delAllArgs (q_cookies h) k\<rparr>)"

definition RequestHeader_DelCookieBytes :: "RequestHeader \<Rightarrow> bytes \<Rightarrow> RequestHeader" where
  "RequestHeader_DelCookieBytes h k = RequestHeader_DelCookie h k"

definition RequestHeader_DelAllCookies :: "RequestHeader \<Rightarrow> RequestHeader" where
  "RequestHeader_DelAllCookies h =
     (let h = RequestHeader_collectCookies h in h\<lparr>q_cookies := cut0 (q_cookies h)\<rparr>)"

section \<open>Setters and getters\<close>

definition RequestHeader_setNonSpecial :: "RequestHeader \<Rightarrow> bytes \<Rightarrow> bytes \<Rightarrow> RequestHeader" where
  "RequestHeader_setNonSpecial h k v = h\<lparr>q_h := setArgBytes (q_h h) k v argsHasValue\<rparr>"

definition RequestHeader_SetByteRange :: "RequestHeader \<Rightarrow> int \<Rightarrow> int \<Rightarrow> RequestHeader go" where
  "RequestHeader_SetByteRange h startPos endPos =
     (let b = strBytes @ ''='';
          start = (if startPos \<ge> 0 then AppendUint b startPos else Some b);
          fin = (if startPos \<ge> 0 then endPos else wrap64 (- startPos))
      in map_option (RequestHeader_setNonSpecial h strRange)
           (Option.bind start (\<lambda>b. let b = b @ ''-'' in if fin \<ge> 0 then AppendUint b fin else Some b)))"

definition RequestHeader_ConnectionClose :: "RequestHeader \<Rightarrow> bool" where
  "RequestHeader_ConnectionClose h = q_connectionClose h"

definition RequestHeader_SetConnectionClose :: "RequestHeader \<Rightarrow> RequestHeader" where
  "RequestHeader_SetConnectionClose h = h\<lparr>q_connectionClose := True\<rparr>"

definition RequestHeader_ResetConnectionClose :: "RequestHeader \<Rightarrow> RequestHeader" where
  "RequestHeader_ResetConnectionClose h =
     (if q_connectionClose h
      then h\<lparr>q_connectionClose := False, q_h := delAllArgsBytes (q_h h) strConnection\<rparr> else h)"

definition RequestHeader_realContentLength :: "RequestHeader \<Rightarrow> int" where
  "RequestHeader_realContentLength h = q_contentLength h"

definition RequestHeader_ContentLength :: "RequestHeader \<Rightarrow> int" where
  "RequestHeader_ContentLength h = RequestHeader_realContentLength h"

definition RequestHeader_SetContentLength :: "RequestHeader \<Rightarrow> int \<Rightarrow> RequestHeader go" where
  "RequestHeader_SetContentLength h contentLength =
     (let h = h\<lparr>q_contentLength := contentLength\<rparr>
      in if contentLength \<ge> 0 then
           map_option (\<lambda>b. h\<lparr>q_contentLengthBytes := b, q_h := delAllArgsBytes (q_h h) strTransferEncoding\<rparr>)
             (AppendUint [] contentLength)
         else
           Some (h\<lparr>q_contentLengthBytes := [],
                   q_h := setArgBytes (q_h h) strTransferEncoding strChunked argsHasValue\<rparr>))"

definition RequestHeader_ContentType :: "RequestHeader \<Rightarrow> bytes" where
  "RequestHeader_ContentType h =
     (if q_disableSpecialHeader h then nil_or (peekArgBytes (fst (q_h h)) strContentType) else q_contentType h)"

definition RequestHeader_SetContentType :: "RequestHeader \<Rightarrow> bytes \<Rightarrow> RequestHeader" where
  "RequestHeader_SetContentType h v = h\<lparr>q_contentType := v\<rparr>"

definition RequestHeader_SetContentTypeBytes :: "RequestHeader \<Rightarrow> bytes \<Rightarrow> RequestHeader" where
  "RequestHeader_SetContentTypeBytes h v = h\<lparr>q_contentType := v\<rparr>"

definition RequestHeader_ContentEncoding :: "RequestHeader \<Rightarrow> bytes" where
  "RequestHeader_ContentEncoding h = nil_or (peekArgBytes (fst (q_h h)) strContentEncoding)"

definition RequestHeader_SetContentEncodingBytes :: "RequestHeader \<Rightarrow> bytes \<Rightarrow> RequestHeader" where
  "RequestHeader_SetContentEncodingBytes h v = RequestHeader_setNonSpecial h strContentEncoding v"

definition RequestHeader_SetMultipartFormBoundary :: "RequestHeader \<Rightarrow> bytes \<Rightarrow> RequestHeader" where
  "RequestHeader_SetMultipartFormBoundary h boundary =
     RequestHeader_SetContentTypeBytes h (strMultipartFormData @ ''; '' @ strBoundary @ ''='' @ boundary)"

definition RequestHeader_SetMultipartFormBoundaryBytes :: "RequestHeader \<Rightarrow> bytes \<Rightarrow> RequestHeader" where
  "RequestHeader_SetMultipartFormBoundaryBytes h boundary =
     RequestHeader_SetContentTypeBytes h (strMultipartFormData @ ''; '' @ strBoundary @ ''='' @ boundary)"

text \<open>The loop of MultipartFormBoundary: \<open>n\<close> is the index of the semicolon in \<open>b\<close>.\<close>

function boundary_loop :: "nat \<Rightarrow> bytes \<Rightarrow> bytes option" where
  "boundary_loop n b =
     (if length b > 0 then
        let m = n + 1;
            b1 = drop (m + length (takeWhile (\<lambda>c. c = CHR '' '') (drop m b))) b
        in if \<not> HasPrefix b1 strBoundary then
             (let i = IndexByte b1 CHR '';'' in if i < 0 then None else boundary_loop (nat i) b1)
           else
             let b2 = drop (length strBoundary) b1
             in if length b2 = 0 \<or> b2 ! 0 \<noteq> CHR ''='' then None
                else
                  let b3 = drop 1 b2;
                      i = IndexByte b3 CHR '';'';
                      b4 = (if i \<ge> 0 then take (nat i) b3 else b3)
                  in Some (if length b4 > 1 \<and> b4 ! 0 = CHR 34 \<and> b4 ! (length b4 - 1) = CHR 34
                           then slice 1 (length b4 - 1) b4 else b4)
      else None)"
  by pat_completeness auto
termination
  by (relation "measure (\<lambda>(n, b). length b)") auto

declare boundary_loop.simps [simp del]

definition RequestHeader_MultipartFormBoundary :: "RequestHeader \<Rightarrow> bytes option" where
  "RequestHeader_MultipartFormBoundary h =
     (let b = RequestHeader_ContentType h
      in if \<not> HasPrefix b strMultipartFormData then None
         else
           let b = drop (length strMultipartFormData) b
           in if length b = 0 \<or> b ! 0 \<noteq> CHR '';'' then None else boundary_loop 0 b)"

definition RequestHeader_Host :: "RequestHeader \<Rightarrow> bytes" where
  "RequestHeader_Host h =
     (if q_disableSpecialHeader h then nil_or (peekArgBytes (fst (q_h h)) strHost) else q_host h)"

definition RequestHeader_SetHost :: "RequestHeader \<Rightarrow> bytes \<Rightarrow> RequestHeader" where
  "RequestHeader_SetHost h v = h\<lparr>q_host := v\<rparr>"

definition RequestHeader_SetHostBytes :: "RequestHeader \<Rightarrow> bytes \<Rightarrow> RequestHeader" where
  "RequestHeader_SetHostBytes h v = h\<lparr>q_host := v\<rparr>"

definition RequestHeader_UserAgent :: "RequestHeader \<Rightarrow> bytes" where
  "RequestHeader_UserAgent h =
     (if q_disableSpecialHeader h then nil_or (peekArgBytes (fst (q_h h)) strUserAgent) else q_userAgent h)"

definition RequestHeader_SetUserAgent :: "RequestHeader \<Rightarrow> bytes \<Rightarrow> RequestHeader" where
  "RequestHeader_SetUserAgent h v = h\<lparr>q_userAgent := v\<rparr>"

definition RequestHeader_SetUserAgentBytes :: "RequestHeader \<Rightarrow> bytes \<Rightarrow> RequestHeader" where
  "RequestHeader_SetUserAgentBytes h v = h\<lparr>q_userAgent := v\<rparr>"

definition RequestHeader_Referer :: "RequestHeader \<Rightarrow> bytes" where
  "RequestHeader_Referer h = nil_or (peekArgBytes (fst (q_h h)) strReferer)"

definition RequestHeader_SetRefererBytes :: "RequestHeader \<Rightarrow> bytes \<Rightarrow> RequestHeader" where
  "RequestHeader_SetRefererBytes h v = RequestHeader_setNonSpecial h strReferer v"

definition RequestHeader_Method :: "RequestHeader \<Rightarrow> bytes" where
  "RequestHeader_Method h = (if length (q_method h) = 0 then MethodGet else q_method h)"

definition RequestHeader_SetMethod :: "RequestHeader \<Rightarrow> bytes \<Rightarrow> RequestHeader" where
  "RequestHeader_SetMethod h v = h\<lparr>q_method := v\<rparr>"

definition RequestHeader_SetMethodBytes :: "RequestHeader \<Rightarrow> bytes \<Rightarrow> RequestHeader" where
  "RequestHeader_SetMethodBytes h v = h\<lparr>q_method := v\<rparr>"

definition RequestHeader_Protocol :: "RequestHeader \<Rightarrow> bytes" where
  "RequestHeader_Protocol h = (if length (q_proto h) = 0 then strHTTP11 else q_proto h)"

definition RequestHeader_SetProtocol :: "RequestHeader \<Rightarrow> bytes \<Rightarrow> RequestHeader" where
  "RequestHeader_SetProtocol h v = h\<lparr>q_proto := v, q_noHTTP11 := v \<noteq> strHTTP11\<rparr>"

definition RequestHeader_SetProtocolBytes :: "RequestHeader \<Rightarrow> bytes \<Rightarrow> RequestHeader" where
  "RequestHeader_SetProtocolBytes h v = h\<lparr>q_proto := v, q_noHTTP11 := v \<noteq> strHTTP11\<rparr>"

definition RequestHeader_RequestURI :: "RequestHeader \<Rightarrow> bytes" where
  "RequestHeader_RequestURI h = (if length (q_requestURI h) = 0 then ''/'' else q_requestURI h)"

definition RequestHeader_SetRequestURI :: "RequestHeader \<Rightarrow> bytes \<Rightarrow> RequestHeader" where
  "RequestHeader_SetRequestURI h v = h\<lparr>q_requestURI := v\<rparr>"

definition RequestHeader_SetRequestURIBytes :: "RequestHeader \<Rightarrow> bytes \<Rightarrow> RequestHeader" where
  "RequestHeader_SetRequestURIBytes h v = h\<lparr>q_requestURI := v\<rparr>"

definition RequestHeader_AddTrailerBytes :: "RequestHeader \<Rightarrow> bytes \<Rightarrow> header_error option \<times> RequestHeader" where
  "RequestHeader_AddTrailerBytes h t =
     (let (tr, err) = add_trailer_loop (q_disableNormalizing h) t (q_trailer h) None in (err, h\<lparr>q_trailer := tr\<rparr>))"

definition RequestHeader_AddTrailer :: "RequestHeader \<Rightarrow> bytes \<Rightarrow> header_error option \<times> RequestHeader" where
  "RequestHeader_AddTrailer h t = RequestHeader_AddTrailerBytes h t"

definition RequestHeader_SetTrailerBytes :: "RequestHeader \<Rightarrow> bytes \<Rightarrow> header_error option \<times> RequestHeader" where
  "RequestHeader_SetTrailerBytes h t = RequestHeader_AddTrailerBytes (h\<lparr>q_trailer := cut0 (q_trailer h)\<rparr>) t"

definition RequestHeader_SetTrailer :: "RequestHeader \<Rightarrow> bytes \<Rightarrow> header_error option \<times> RequestHeader" where
  "RequestHeader_SetTrailer h t = RequestHeader_SetTrailerBytes h t"

definition RequestHeader_IsGet :: "RequestHeader \<Rightarrow> bool" where "RequestHeader_IsGet h \<longleftrightarrow> RequestHeader_Method h = MethodGet"
definition RequestHeader_IsPost :: "RequestHeader \<Rightarrow> bool" where "RequestHeader_IsPost h \<longleftrightarrow> RequestHeader_Method h = MethodPost"
definition RequestHeader_IsPut :: "RequestHeader \<Rightarrow> bool" where "RequestHeader_IsPut h \<longleftrightarrow> RequestHeader_Method h = MethodPut"
definition RequestHeader_IsHead :: "RequestHeader \<Rightarrow> bool" where "RequestHeader_IsHead h \<longleftrightarrow> RequestHeader_Method h = MethodHead"
definition RequestHeader_IsDelete :: "RequestHeader \<Rightarrow> bool" where "RequestHeader_IsDelete h \<longleftrightarrow> RequestHeader_Method h = MethodDelete"
definition RequestHeader_IsConnect :: "RequestHeader \<Rightarrow> bool" where "RequestHeader_IsConnect h \<longleftrightarrow> RequestHeader_Method h = MethodConnect"
definition RequestHeader_IsOptions :: "RequestHeader \<Rightarrow> bool" where "RequestHeader_IsOptions h \<longleftrightarrow> RequestHeader_Method h = MethodOptions"
definition RequestHeader_IsTrace :: "RequestHeader \<Rightarrow> bool" where "RequestHeader_IsTrace h \<longleftrightarrow> RequestHeader_Method h = MethodTrace"
definition RequestHeader_IsPatch :: "RequestHeader \<Rightarrow> bool" where "RequestHeader_IsPatch h \<longleftrightarrow> RequestHeader_Method h = MethodPatch"
definition RequestHeader_IsHTTP11 :: "RequestHeader \<Rightarrow> bool" where "RequestHeader_IsHTTP11 h \<longleftrightarrow> \<not> q_noHTTP11 h"

definition RequestHeader_ignoreBody :: "RequestHeader \<Rightarrow> bool" where
  "RequestHeader_ignoreBody h \<longleftrightarrow> RequestHeader_IsGet h \<or> RequestHeader_IsHead h"

definition RequestHeader_DisableSpecialHeader :: "RequestHeader \<Rightarrow> RequestHeader" where
  "RequestHeader_DisableSpecialHeader h = h\<lparr>q_disableSpecialHeader := True\<rparr>"

definition RequestHeader_EnableSpecialHeader :: "RequestHeader \<Rightarrow> RequestHeader" where
  "RequestHeader_EnableSpecialHeader h = h\<lparr>q_disableSpecialHeader := False\<rparr>"

definition RequestHeader_DisableNormalizing :: "RequestHeader \<Rightarrow> RequestHeader" where
  "RequestHeader_DisableNormalizing h = h\<lparr>q_disableNormalizing := True\<rparr>"

definition RequestHeader_EnableNormalizing :: "RequestHeader \<Rightarrow> RequestHeader" where
  "RequestHeader_EnableNormalizing h = h\<lparr>q_disableNormalizing := False\<rparr>"

definition RequestHeader_SetNoDefaultContentType :: "RequestHeader \<Rightarrow> bool \<Rightarrow> RequestHeader" where
  "RequestHeader_SetNoDefaultContentType h b = h\<lparr>q_noDefaultContentType := b\<rparr>"

section \<open>Reset and copy\<close>

definition RequestHeader_resetSkipNormalize :: "RequestHeader \<Rightarrow> RequestHeader" where
  "RequestHeader_resetSkipNormalize h =
     h\<lparr>q_noHTTP11 := False, q_connectionClose := False, q_contentLength := 0, q_contentLengthBytes := [],
       q_method := [], q_proto := [], q_requestURI := [], q_host := [], q_contentType := [], q_userAgent := [],
       q_trailer := cut0 (q_trailer h), q_mulHeader := [], q_h := cut0 (q_h h), q_cookies := cut0 (q_cookies h),
       q_cookiesCollected := False, q_rawHeaders := []\<rparr>"

definition RequestHeader_Reset :: "RequestHeader \<Rightarrow> RequestHeader" where
  "RequestHeader_Reset h =
     RequestHeader_resetSkipNormalize
       (RequestHeader_SetNoDefaultContentType (h\<lparr>q_disableSpecialHeader := False, q_disableNormalizing := False\<rparr>) False)"

text \<open>Appending copies of the entries of \<open>src\<close>; they overwrite the stale entries of the slice.\<close>

definition append_entries :: "kv_slice \<Rightarrow> argsKV list \<Rightarrow> kv_slice" where
  "append_entries h src = (fst h @ src, drop (length src) (snd h))"

text \<open>\<open>RequestHeader_CopyTo h dst\<close> is \<open>dst\<close> after \<open>h.CopyTo(dst)\<close>.\<close>

definition RequestHeader_CopyTo :: "RequestHeader \<Rightarrow> RequestHeader \<Rightarrow> RequestHeader" where
  "RequestHeader_CopyTo h dst =
     (let dst = RequestHeader_Reset dst
      in dst\<lparr>q_disableNormalizing := q_disableNormalizing h, q_noHTTP11 := q_noHTTP11 h,
             q_connectionClose := q_connectionClose h, q_noDefaultContentType := q_noDefaultContentType h,
             q_contentLength := q_contentLength h,
             q_contentLengthBytes := q_contentLengthBytes dst @ q_contentLengthBytes h,
             q_method := q_method dst @ q_method h, q_proto := q_proto dst @ q_proto h,
             q_requestURI := q_requestURI dst @ q_requestURI h, q_host := q_host dst @ q_host h,
             q_contentType := q_contentType dst @ q_contentType h, q_userAgent := q_userAgent dst @ q_userAgent h,
             q_trailer := append_entries (q_trailer dst) (fst (q_trailer h)),
             q_h := copyArgs (q_h dst) (fst (q_h h)), q_cookies := copyArgs (q_cookies dst) (fst (q_cookies h)),
             q_cookiesCollected := q_cookiesCollected h, q_rawHeaders := q_rawHeaders dst @ q_rawHeaders h\<rparr>)"

section \<open>Lookup\<close>

text \<open>The names of the trailer, separated by commas.\<close>

abbreviation trailer_names :: "kv_slice \<Rightarrow> bytes" where
  "trailer_names t \<equiv> appendArgsKeyBytes [] (fst t) strCommaSpace"

definition RequestHeader_peek :: "RequestHeader \<Rightarrow> bytes \<Rightarrow> bytes" where
  "RequestHeader_peek h k =
     (if k = strHost then RequestHeader_Host h
      else if k = strContentType then RequestHeader_ContentType h
      else if k = strUserAgent then RequestHeader_UserAgent h
      else if k = strConnection then
        (if RequestHeader_ConnectionClose h then strClose else nil_or (peekArgBytes (fst (q_h h)) k))
      else if k = strContentLength then q_contentLengthBytes h
      else if k = strCookie then
        (if q_cookiesCollected h then appendRequestCookieBytes [] (fst (q_cookies h))
         else nil_or (peekArgBytes (fst (q_h h)) k))
      else if k = strTrailer then trailer_names (q_trailer h)
      else nil_or (peekArgBytes (fst (q_h h)) k))"

definition RequestHeader_Peek :: "RequestHeader \<Rightarrow> bytes \<Rightarrow> bytes" where
  "RequestHeader_Peek h k = RequestHeader_peek h (getHeaderKeyBytes k (q_disableNormalizing h))"

definition RequestHeader_PeekBytes :: "RequestHeader \<Rightarrow> bytes \<Rightarrow> bytes" where
  "RequestHeader_PeekBytes h k = RequestHeader_peek h (normalizeHeaderKey k (q_disableNormalizing h))"

text \<open>The values that peekAll appends to mulHeader, which it empties first.\<close>

definition RequestHeader_peekAll :: "RequestHeader \<Rightarrow> bytes \<Rightarrow> bytes list \<times> RequestHeader" where
  "RequestHeader_peekAll h k =
     (let nonempty = (\<lambda>v. if length v > 0 then [v] else []);
          m = (if k = strHost then nonempty (RequestHeader_Host h)
               else if k = strContentType then nonempty (RequestHeader_ContentType h)
               else if k = strUserAgent then nonempty (RequestHeader_UserAgent h)
               else if k = strConnection then
                 (if RequestHeader_ConnectionClose h then [strClose] else peekAllArgBytesToDst [] (fst (q_h h)) k)
               else if k = strContentLength then [q_contentLengthBytes h]
               else if k = strCookie then
                 (if q_cookiesCollected h then [appendRequestCookieBytes [] (fst (q_cookies h))]
                  else peekAllArgBytesToDst [] (fst (q_h h)) k)
               else if k = strTrailer then [trailer_names (q_trailer h)]
               else peekAllArgBytesToDst [] (fst (q_h h)) k)
      in (m, h\<lparr>q_mulHeader := m\<rparr>))"

definition RequestHeader_PeekAll :: "RequestHeader \<Rightarrow> bytes \<Rightarrow> bytes list \<times> RequestHeader" where
  "RequestHeader_PeekAll h k = RequestHeader_peekAll h (getHeaderKeyBytes k (q_disableNormalizing h))"

definition RequestHeader_PeekKeys :: "RequestHeader \<Rightarrow> bytes list \<times> RequestHeader" where
  "RequestHeader_PeekKeys h = (let m = peekArgsKeys [] (fst (q_h h)) in (m, h\<lparr>q_mulHeader := m\<rparr>))"

definition RequestHeader_PeekTrailerKeys :: "RequestHeader \<Rightarrow> bytes list \<times> RequestHeader" where
  "RequestHeader_PeekTrailerKeys h = (let m = peekArgsKeys [] (fst (q_trailer h)) in (m, h\<lparr>q_mulHeader := m\<rparr>))"

definition RequestHeader_ConnectionUpgrade :: "RequestHeader \<Rightarrow> bool" where
  "RequestHeader_ConnectionUpgrade h = hasHeaderValue (RequestHeader_Peek h strConnection) strUpgrade"

definition strAcceptEncoding :: bytes where "strAcceptEncoding = ''Accept-Encoding''"

definition RequestHeader_HasAcceptEncodingBytes :: "RequestHeader \<Rightarrow> bytes \<Rightarrow> bool" where
  "RequestHeader_HasAcceptEncodingBytes h acceptEncoding =
     (let ae = RequestHeader_peek h strAcceptEncoding; n = Index ae acceptEncoding
      in if n < 0 then False
         else
           let b = drop (nat n + length acceptEncoding) ae
           in if length b > 0 \<and> b ! 0 \<noteq> CHR '','' then False
              else if n = 0 then True
              else ae ! (nat n - 1) = CHR '' '')"

definition RequestHeader_HasAcceptEncoding :: "RequestHeader \<Rightarrow> bytes \<Rightarrow> bool" where
  "RequestHeader_HasAcceptEncoding h acceptEncoding = RequestHeader_HasAcceptEncodingBytes h acceptEncoding"

section \<open>Visiting\<close>

definition RequestHeader_VisitAll ::
  "RequestHeader \<Rightarrow> (bytes \<Rightarrow> bytes \<Rightarrow> 's \<Rightarrow> 's) \<Rightarrow> 's \<Rightarrow> 's \<times> RequestHeader" where
  "RequestHeader_VisitAll h f s =
     (let call = (\<lambda>k v s. if length v > 0 then f k v s else s);
          s = call strHost (RequestHeader_Host h) s;
          s = call strContentLength (q_contentLengthBytes h) s;
          s = call strContentType (RequestHeader_ContentType h) s;
          s = call strUserAgent (RequestHeader_UserAgent h) s;
          s = (if length (fst (q_trailer h)) > 0 then f strTrailer (trailer_names (q_trailer h)) s else s);
          h = RequestHeader_collectCookies h;
          s = (if length (fst (q_cookies h)) > 0
               then f strCookie (appendRequestCookieBytes [] (fst (q_cookies h))) s else s);
          s = visitArgs (fst (q_h h)) f s;
          s = (if RequestHeader_ConnectionClose h then f strConnection strClose s else s)
      in (s, h))"

definition RequestHeader_Len :: "RequestHeader \<Rightarrow> nat \<times> RequestHeader" where
  "RequestHeader_Len h = RequestHeader_VisitAll h (\<lambda>k v n. n + 1) 0"

definition RequestHeader_VisitAllTrailer :: "RequestHeader \<Rightarrow> (bytes \<Rightarrow> 's \<Rightarrow> 's) \<Rightarrow> 's \<Rightarrow> 's" where
  "RequestHeader_VisitAllTrailer h f s = visitArgsKey (fst (q_trailer h)) f s"

definition RequestHeader_VisitAllCookie ::
  "RequestHeader \<Rightarrow> (bytes \<Rightarrow> bytes \<Rightarrow> 's \<Rightarrow> 's) \<Rightarrow> 's \<Rightarrow> 's \<times> RequestHeader" where
  "RequestHeader_VisitAllCookie h f s =
     (let h = RequestHeader_collectCookies h in (visitArgs (fst (q_cookies h)) f s, h))"

function visit_order_loop :: "headerScanner \<Rightarrow> (bytes \<Rightarrow> bytes \<Rightarrow> 's \<Rightarrow> 's) \<Rightarrow> 's \<Rightarrow> headerScanner \<times> 's" where
  "visit_order_loop sc f s =
     (case headerScanner_next sc of
        (False, sc') \<Rightarrow> (sc', s)
      | (True, sc') \<Rightarrow> visit_order_loop sc' f (if length (hs_key sc') > 0 then f (hs_key sc') (hs_value sc') s else s))"
  by pat_completeness auto
termination
  by (relation "measure (\<lambda>(sc, f, s). length (hs_b sc))") (auto dest!: headerScanner_next_shorter [OF sym])

declare visit_order_loop.simps [simp del]

text \<open>The scanner works on rawHeaders in place.\<close>

definition RequestHeader_VisitAllInOrder ::
  "RequestHeader \<Rightarrow> (bytes \<Rightarrow> bytes \<Rightarrow> 's \<Rightarrow> 's) \<Rightarrow> 's \<Rightarrow> 's \<times> RequestHeader" where
  "RequestHeader_VisitAllInOrder h f s =
     (let (sc, s') = visit_order_loop (new_scanner (q_rawHeaders h) (q_disableNormalizing h)) f s
      in (s', h\<lparr>q_rawHeaders := hs_array sc\<rparr>))"

section \<open>Del, Set and Add\<close>

definition RequestHeader_del :: "RequestHeader \<Rightarrow> bytes \<Rightarrow> RequestHeader" where
  "RequestHeader_del h k =
     (let h = (if k = strHost then h\<lparr>q_host := []\<rparr>
               else if k = strContentType then h\<lparr>q_contentType := []\<rparr>
               else if k = strUserAgent then h\<lparr>q_userAgent := []\<rparr>
               else if k = strCookie then h\<lparr>q_cookies := cut0 (q_cookies h)\<rparr>
               else if k = strContentLength then h\<lparr>q_contentLength := 0, q_contentLengthBytes := []\<rparr>
               else if k = strConnection then h\<lparr>q_connectionClose := False\<rparr>
               else if k = strTrailer then h\<lparr>q_trailer := cut0 (q_trailer h)\<rparr>
               else h)
      in h\<lparr>q_h := delAllArgsBytes (q_h h) k\<rparr>)"

definition RequestHeader_Del :: "RequestHeader \<Rightarrow> bytes \<Rightarrow> RequestHeader" where
  "RequestHeader_Del h k = RequestHeader_del h (getHeaderKeyBytes k (q_disableNormalizing h))"

definition RequestHeader_DelBytes :: "RequestHeader \<Rightarrow> bytes \<Rightarrow> RequestHeader" where
  "RequestHeader_DelBytes h k = RequestHeader_del h (normalizeHeaderKey k (q_disableNormalizing h))"

definition RequestHeader_setSpecialHeader :: "RequestHeader \<Rightarrow> bytes \<Rightarrow> bytes \<Rightarrow> bool \<times> RequestHeader" where
  "RequestHeader_setSpecialHeader h k v =
     (if length k = 0 \<or> q_disableSpecialHeader h then (False, h)
      else
        let x = or20 (k ! 0)
        in if x = CHR ''c'' then
             (if caseInsensitiveCompare strContentType k then (True, RequestHeader_SetContentTypeBytes h v)
              else if caseInsensitiveCompare strContentLength k then
                (True, case parseContentLength v of
                         (n, None) \<Rightarrow> h\<lparr>q_contentLength := n, q_contentLengthBytes := v\<rparr>
                       | (n, Some e) \<Rightarrow> h)
              else if caseInsensitiveCompare strConnection k then
                (True, if strClose = v then RequestHeader_SetConnectionClose h
                       else RequestHeader_setNonSpecial (RequestHeader_ResetConnectionClose h) k v)
              else if caseInsensitiveCompare strCookie k then
                (True, let h = RequestHeader_collectCookies h
                       in h\<lparr>q_cookies := parseRequestCookies (q_cookies h) v\<rparr>)
              else (False, h))
           else if x = CHR ''t'' then
             (if caseInsensitiveCompare strTransferEncoding k then (True, h)
              else if caseInsensitiveCompare strTrailer k then (True, snd (RequestHeader_SetTrailerBytes h v))
              else (False, h))
           else if x = CHR ''h'' then
             (if caseInsensitiveCompare strHost k then (True, RequestHeader_SetHostBytes h v) else (False, h))
           else if x = CHR ''u'' then
             (if caseInsensitiveCompare strUserAgent k then (True, RequestHeader_SetUserAgentBytes h v) else (False, h))
           else (False, h))"

definition RequestHeader_SetCanonical :: "RequestHeader \<Rightarrow> bytes \<Rightarrow> bytes \<Rightarrow> RequestHeader" where
  "RequestHeader_SetCanonical h k v =
     (case RequestHeader_setSpecialHeader h k v of
        (True, h') \<Rightarrow> h'
      | (False, h') \<Rightarrow> RequestHeader_setNonSpecial h' k v)"

definition RequestHeader_Set :: "RequestHeader \<Rightarrow> bytes \<Rightarrow> bytes \<Rightarrow> RequestHeader" where
  "RequestHeader_Set h k v =
     (let (k', v') = initHeaderKV k v (q_disableNormalizing h) in RequestHeader_SetCanonical h k' v')"

definition RequestHeader_SetBytesKV :: "RequestHeader \<Rightarrow> bytes \<Rightarrow> bytes \<Rightarrow> RequestHeader" where
  "RequestHeader_SetBytesKV h k v = RequestHeader_SetCanonical h (normalizeHeaderKey k (q_disableNormalizing h)) v"

definition RequestHeader_SetBytesK :: "RequestHeader \<Rightarrow> bytes \<Rightarrow> bytes \<Rightarrow> RequestHeader" where
  "RequestHeader_SetBytesK h k v = RequestHeader_SetBytesKV h k v"

definition RequestHeader_SetBytesV :: "RequestHeader \<Rightarrow> bytes \<Rightarrow> bytes \<Rightarrow> RequestHeader" where
  "RequestHeader_SetBytesV h k v = RequestHeader_SetCanonical h (getHeaderKeyBytes k (q_disableNormalizing h)) v"

definition RequestHeader_AddBytesKV :: "RequestHeader \<Rightarrow> bytes \<Rightarrow> bytes \<Rightarrow> RequestHeader" where
  "RequestHeader_AddBytesKV h k v =
     (case RequestHeader_setSpecialHeader h k v of
        (True, h') \<Rightarrow> h'
      | (False, h') \<Rightarrow>
          h'\<lparr>q_h := appendArgBytes (q_h h') (getHeaderKeyBytes k (q_disableNormalizing h')) v argsHasValue\<rparr>)"

definition RequestHeader_Add :: "RequestHeader \<Rightarrow> bytes \<Rightarrow> bytes \<Rightarrow> RequestHeader" where
  "RequestHeader_Add h k v = RequestHeader_AddBytesKV h k v"

definition RequestHeader_AddBytesK :: "RequestHeader \<Rightarrow> bytes \<Rightarrow> bytes \<Rightarrow> RequestHeader" where
  "RequestHeader_AddBytesK h k v = RequestHeader_AddBytesKV h k v"

definition RequestHeader_AddBytesV :: "RequestHeader \<Rightarrow> bytes \<Rightarrow> bytes \<Rightarrow> RequestHeader" where
  "RequestHeader_AddBytesV h k v = RequestHeader_AddBytesKV h k v"

definition RequestHeader_SetContentEncoding :: "RequestHeader \<Rightarrow> bytes \<Rightarrow> RequestHeader" where
  "RequestHeader_SetContentEncoding h v = RequestHeader_SetBytesK h strContentEncoding v"

definition RequestHeader_SetReferer :: "RequestHeader \<Rightarrow> bytes \<Rightarrow> RequestHeader" where
  "RequestHeader_SetReferer h v = RequestHeader_SetBytesK h strReferer v"

section \<open>Text of the header\<close>

definition strDefaultContentType :: bytes where "strDefaultContentType = ''application/octet-stream''"

text \<open>The loop over the entries; the ones whose name is in the trailer are left out.\<close>

fun append_entries_loop :: "argsKV list \<Rightarrow> bytes \<Rightarrow> argsKV list \<Rightarrow> bytes" where
  "append_entries_loop trailer dst [] = dst"
| "append_entries_loop trailer dst (kv # kvs) =
     append_entries_loop trailer
       (if \<exists>t\<in>set trailer. key kv = key t then dst else appendHeaderLine dst (key kv) (val kv)) kvs"

definition RequestHeader_AppendBytes :: "RequestHeader \<Rightarrow> bytes \<Rightarrow> bytes" where
  "RequestHeader_AppendBytes h dst =
     (let special = \<not> q_disableSpecialHeader h;
          dst = dst @ RequestHeader_Method h @ '' '' @ RequestHeader_RequestURI h @ '' '' @ RequestHeader_Protocol h @ strCRLF;
          userAgent = RequestHeader_UserAgent h;
          dst = (if length userAgent > 0 \<and> special then appendHeaderLine dst strUserAgent userAgent else dst);
          host = RequestHeader_Host h;
          dst = (if length host > 0 \<and> special then appendHeaderLine dst strHost host else dst);
          contentType = RequestHeader_ContentType h;
          contentType = (if \<not> q_noDefaultContentType h \<and> length contentType = 0 \<and> \<not> RequestHeader_ignoreBody h
                         then strDefaultContentType else contentType);
          dst = (if length contentType > 0 \<and> special then appendHeaderLine dst strContentType contentType else dst);
          dst = (if length (q_contentLengthBytes h) > 0 \<and> special
                 then appendHeaderLine dst strContentLength (q_contentLengthBytes h) else dst);
          dst = append_entries_loop (fst (q_trailer h)) dst (fst (q_h h));
          dst = (if length (fst (q_trailer h)) > 0
                 then appendHeaderLine dst strTrailer (trailer_names (q_trailer h)) else dst);
          dst = (if length (fst (q_cookies h)) > 0 \<and> special
                 then appendRequestCookieBytes (dst @ strCookie @ strColonSpace) (fst (q_cookies h)) @ strCRLF else dst);
          dst = (if RequestHeader_ConnectionClose h \<and> special then appendHeaderLine dst strConnection strClose else dst)
      in dst @ strCRLF)"

definition RequestHeader_Header :: "RequestHeader \<Rightarrow> bytes" where
  "RequestHeader_Header h = RequestHeader_AppendBytes h []"

definition RequestHeader_String :: "RequestHeader \<Rightarrow> bytes" where
  "RequestHeader_String h = RequestHeader_Header h"

definition RequestHeader_RawHeaders :: "RequestHeader \<Rightarrow> bytes" where
  "RequestHeader_RawHeaders h = q_rawHeaders h"

fun request_trailer_loop :: "RequestHeader \<Rightarrow> bytes \<Rightarrow> argsKV list \<Rightarrow> bytes" where
  "request_trailer_loop h dst [] = dst"
| "request_trailer_loop h dst (t # ts) =
     request_trailer_loop h (appendHeaderLine dst (key t) (RequestHeader_peek h (key t))) ts"

definition RequestHeader_TrailerHeader :: "RequestHeader \<Rightarrow> bytes" where
  "RequestHeader_TrailerHeader h = request_trailer_loop h [] (fst (q_trailer h)) @ strCRLF"

section \<open>Parsing\<close>

definition RequestHeader_parseFirstLine :: "RequestHeader \<Rightarrow> bytes \<Rightarrow> (header_error + nat) \<times> RequestHeader" where
  "RequestHeader_parseFirstLine h buffer =
     (let quoted = (if q_secureErrorLogMessage h then None else Some buffer)
      in case first_line buffer of
           Inl e \<Rightarrow> (Inl e, h)
         | Inr (b, bNext) \<Rightarrow>
             let n = IndexByte b CHR '' ''
             in if n \<le> 0 then (Inl (NoMethod quoted), h)
                else
                  let h = h\<lparr>q_method := take (nat n) b\<rparr>;
                      b = drop (nat n + 1) b;
                      n = LastIndexByte b CHR '' ''
                  in if n = 0 then (Inl (EmptyRequestURI quoted), h)
                     else
                       let (noHTTP11, m, proto) =
                             (if n < 0 then (True, length b, strHTTP10)
                              else if drop (nat n + 1) b \<noteq> strHTTP11 then (True, nat n, drop (nat n + 1) b)
                              else (q_noHTTP11 h, nat n, strHTTP11))
                       in (Inr (length buffer - length bNext),
                           h\<lparr>q_noHTTP11 := noHTTP11, q_proto := proto, q_requestURI := take m b\<rparr>))"

text \<open>The body of the loop of parseHeaders for one header line; the error is the one kept so far.\<close>

definition request_header_line ::
  "RequestHeader \<Rightarrow> header_error option \<Rightarrow> bytes \<Rightarrow> bytes \<Rightarrow> RequestHeader \<times> header_error option" where
  "request_header_line h err k v =
     (let keep = (\<lambda>e. if err = None then Some e else err);
          store = h\<lparr>q_h := appendArgBytes (q_h h) k v argsHasValue\<rparr>
      in if length k > 0 then
           if IndexByte k CHR '' '' \<noteq> - 1 \<or> IndexByte k tChar \<noteq> - 1 then (h, Some (InvalidHeaderKey k))
           else if q_disableSpecialHeader h then (store, err)
           else
             let x = or20 (k ! 0)
             in if x = CHR ''h'' \<and> caseInsensitiveCompare k strHost then (h\<lparr>q_host := v\<rparr>, err)
                else if x = CHR ''u'' \<and> caseInsensitiveCompare k strUserAgent then (h\<lparr>q_userAgent := v\<rparr>, err)
                else if x = CHR ''c'' \<and> caseInsensitiveCompare k strContentType then (h\<lparr>q_contentType := v\<rparr>, err)
                else if x = CHR ''c'' \<and> caseInsensitiveCompare k strContentLength then
                  (if q_contentLength h \<noteq> - 1 then
                     case parseContentLength v of
                       (n, Some e) \<Rightarrow> (h\<lparr>q_contentLength := - 2\<rparr>, keep (ContentLengthError e))
                     | (n, None) \<Rightarrow> (h\<lparr>q_contentLength := n, q_contentLengthBytes := v\<rparr>, err)
                   else (h, err))
                else if x = CHR ''c'' \<and> caseInsensitiveCompare k strConnection then
                  (if v = strClose then (h\<lparr>q_connectionClose := True\<rparr>, err)
                   else (store\<lparr>q_connectionClose := False\<rparr>, err))
                else if x = CHR ''t'' \<and> caseInsensitiveCompare k strTransferEncoding then
                  (if v \<noteq> strIdentity then
                     (h\<lparr>q_contentLength := - 1, q_h := setArgBytes (q_h h) strTransferEncoding strChunked argsHasValue\<rparr>,
                      err)
                   else (h, err))
                else if x = CHR ''t'' \<and> caseInsensitiveCompare k strTrailer then
                  (case RequestHeader_SetTrailerBytes h v of
                     (None, h') \<Rightarrow> (h', err)
                   | (Some e, h') \<Rightarrow> (h', keep e))
                else (store, err)
         else (store, err))"

function request_headers_loop ::
  "headerScanner \<Rightarrow> RequestHeader \<Rightarrow> header_error option \<Rightarrow> headerScanner \<times> RequestHeader \<times> header_error option" where
  "request_headers_loop s h err =
     (case headerScanner_next s of
        (False, s') \<Rightarrow> (s', h, err)
      | (True, s') \<Rightarrow>
          (let (h', err') = request_header_line h err (hs_key s') (hs_value s') in request_headers_loop s' h' err'))"
  by pat_completeness auto
termination
  by (relation "measure (\<lambda>(s, h, err). length (hs_b s))") (auto dest!: headerScanner_next_shorter [OF sym])

declare request_headers_loop.simps [simp del]

text \<open>After the loop of parseHeaders.\<close>

definition request_headers_end :: "headerScanner \<Rightarrow> RequestHeader \<Rightarrow> header_error option \<Rightarrow> (header_error + int) \<times> RequestHeader" where
  "request_headers_end s h err =
     (case (case err of Some e \<Rightarrow> Some e | None \<Rightarrow> hs_err s) of
        Some e \<Rightarrow> (Inl e, h\<lparr>q_connectionClose := True\<rparr>)
      | None \<Rightarrow>
          (let h = (if q_contentLength h < 0 then h\<lparr>q_contentLengthBytes := []\<rparr> else h);
               h = (if q_noHTTP11 h \<and> \<not> q_connectionClose h
                    then h\<lparr>q_connectionClose :=
                             \<not> hasHeaderValue (nil_or (peekArgBytes (fst (q_h h)) strConnection)) strKeepAlive\<rparr>
                    else h)
           in (Inr (hs_hLen s), h)))"

text \<open>The results are the length of the headers or the error, the header and the buffer.\<close>

definition RequestHeader_parseHeaders :: "RequestHeader \<Rightarrow> bytes \<Rightarrow> (header_error + int) \<times> RequestHeader \<times> bytes" where
  "RequestHeader_parseHeaders h buffer =
     (let (s, h, err) = request_headers_loop (new_scanner buffer (q_disableNormalizing h)) (h\<lparr>q_contentLength := - 2\<rparr>) None;
          (r, h) = request_headers_end s h err
      in (r, h, hs_array s))"

definition RequestHeader_parse :: "RequestHeader \<Rightarrow> bytes \<Rightarrow> (header_error + int) \<times> RequestHeader \<times> bytes" where
  "RequestHeader_parse h buffer =
     (case RequestHeader_parseFirstLine h buffer of
        (Inl e, h) \<Rightarrow> (Inl e, h, buffer)
      | (Inr m, h) \<Rightarrow>
          (let (raw, n, err) = readRawHeaders [] (drop m buffer); h = h\<lparr>q_rawHeaders := raw\<rparr>
           in case err of
                Some e \<Rightarrow> (Inl e, h, buffer)
              | None \<Rightarrow>
                  (let (r, h, buffer') = RequestHeader_parseHeaders h (drop m buffer)
                   in (map_sum id (\<lambda>n. int m + n) r, h, take m buffer @ buffer'))))"

definition RequestHeader_parseTrailer :: "RequestHeader \<Rightarrow> bytes \<Rightarrow> ((header_error + int) \<times> RequestHeader \<times> bytes) go" where
  "RequestHeader_parseTrailer h buffer =
     map_option (\<lambda>(hs, r, buffer'). (r, h\<lparr>q_h := hs\<rparr>, buffer')) (parse_trailer (q_disableNormalizing h) (q_h h) buffer)"

end
