(* ===== verification/Response_Header.thy ===== *)
theory Response_Header
  imports Request_Header
begin

text \<open>
  The response header (ResponseHeader of src/fasthttp/header.go) and the status line
  (src/fasthttp/status.go), modelled like the request header. The date of the server, a global variable
  that a goroutine renews every second, is the argument \<open>serverDate\<close> of the operations that print it.
\<close>

unbundle bit_operations_syntax

section \<open>Status codes\<close>

definition statusMessages :: "(int \<times> bytes) list" where
  "statusMessages =
     [(100, ''Continue''), (101, ''Switching Protocols''), (102, ''Processing''),
      (103, ''Early Hints''), (200, ''OK''), (201, ''Created''), (202, ''Accepted''),
      (203, ''Non-Authoritative Information''), (204, ''No Content''), (205, ''Reset Content''),
      (206, ''Partial Content''), (207, ''Multi-Status''), (208, ''Already Reported''),
      (226, ''IM Used''), (300, ''Multiple Choices''), (301, ''Moved Permanently''),
      (302, ''Found''), (303, ''See Other''), (304, ''Not Modified''), (305, ''Use Proxy''),
      (307, ''Temporary Redirect''), (308, ''Permanent Redirect''), (400, ''Bad Request''),
      (401, ''Unauthorized''), (402, ''Payment Required''), (403, ''Forbidden''),
      (404, ''Not Found''), (405, ''Method Not Allowed''), (406, ''Not Acceptable''),
      (407, ''Proxy Authentication Required''), (408, ''Request Timeout''), (409, ''Conflict''),
      (410, ''Gone''), (411, ''Length Required''), (412, ''Precondition Failed''),
      (413, ''Request Entity Too Large''), (414, ''Request URI Too Long''),
      (415, ''Unsupported Media Type''), (416, ''Requested Range Not Satisfiable''),
      (417, ''Expectation Failed''), (418, ''I'' @ CHR 39 # ''m a teapot''),
      (421, ''Misdirected Request''), (422, ''Unprocessable Entity''), (423, ''Locked''),
      (424, ''Failed Dependency''), (426, ''Upgrade Required''), (428, ''Precondition Required''),
      (429, ''Too Many Requests''), (431, ''Request Header Fields Too Large''),
      (451, ''Unavailable For Legal Reasons''), (500, ''Internal Server Error''),
      (501, ''Not Implemented''), (502, ''Bad Gateway''), (503, ''Service Unavailable''),
      (504, ''Gateway Timeout''), (505, ''HTTP Version Not Supported''),
      (506, ''Variant Also Negotiates''), (507, ''Insufficient Storage''), (508, ''Loop Detected''),
      (510, ''Not Extended''), (511, ''Network Authentication Required'')]"

definition unknownStatusCode :: bytes where "unknownStatusCode = ''Unknown Status Code''"

definition StatusMessage :: "int \<Rightarrow> bytes" where
  "StatusMessage statusCode =
     (if statusCode < 100 \<or> statusCode > 511 then unknownStatusCode
      else case map_of statusMessages statusCode of Some s \<Rightarrow> s | None \<Rightarrow> unknownStatusCode)"

text \<open>strconv.AppendInt in base 10.\<close>

definition AppendInt :: "bytes \<Rightarrow> int \<Rightarrow> bytes" where
  "AppendInt dst i = dst @ (if i < 0 then ''-'' else []) @ append_uint_loop (nat \<bar>i\<bar>) []"

definition formatStatusLine :: "bytes \<Rightarrow> bytes \<Rightarrow> int \<Rightarrow> bytes \<Rightarrow> bytes" where
  "formatStatusLine dst protocol statusCode statusText =
     AppendInt (dst @ protocol @ '' '') statusCode @ '' '' @
     (if length statusText = 0 then StatusMessage statusCode else statusText) @ strCRLF"

section \<open>State\<close>

record ResponseHeader =
  p_disableNormalizing :: bool
  p_noHTTP11 :: bool
  p_connectionClose :: bool
  p_noDefaultContentType :: bool
  p_noDefaultDate :: bool
  p_statusCode :: int
  p_statusMessage :: bytes
  p_protocol :: bytes
  p_contentLength :: int
  p_contentLengthBytes :: bytes
  p_secureErrorLogMessage :: bool
  p_contentType :: bytes
  p_contentEncoding :: bytes
  p_server :: bytes
  p_mulHeader :: "bytes list"
  p_h :: kv_slice
  p_trailer :: kv_slice
  p_cookies :: kv_slice

definition zero_response_header :: ResponseHeader where
  "zero_response_header =
     \<lparr>p_disableNormalizing = False, p_noHTTP11 = False, p_connectionClose = False, p_noDefaultContentType = False,
      p_noDefaultDate = False, p_statusCode = 0, p_statusMessage = [], p_protocol = [], p_contentLength = 0,
      p_contentLengthBytes = [], p_secureErrorLogMessage = False, p_contentType = [], p_contentEncoding = [],
      p_server = [], p_mulHeader = [], p_h = ([], []), p_trailer = ([], []), p_cookies = ([], [])\<rparr>"

section \<open>Setters and getters\<close>

definition ResponseHeader_setNonSpecial :: "ResponseHeader \<Rightarrow> bytes \<Rightarrow> bytes \<Rightarrow> ResponseHeader" where
  "ResponseHeader_setNonSpecial h k v = h\<lparr>p_h := setArgBytes (p_h h) k v argsHasValue\<rparr>"

definition ResponseHeader_SetContentRange :: "ResponseHeader \<Rightarrow> int \<Rightarrow> int \<Rightarrow> int \<Rightarrow> ResponseHeader go" where
  "ResponseHeader_SetContentRange h startPos endPos contentLength =
     map_option (ResponseHeader_setNonSpecial h strContentRange)
       (Option.bind (AppendUint (strBytes @ '' '') startPos) (\<lambda>b.
        Option.bind (AppendUint (b @ ''-'') endPos) (\<lambda>b. AppendUint (b @ ''/'') contentLength)))"

definition ResponseHeader_StatusCode :: "ResponseHeader \<Rightarrow> int" where
  "ResponseHeader_StatusCode h = (if p_statusCode h = 0 then 200 else p_statusCode h)"

definition ResponseHeader_SetStatusCode :: "ResponseHeader \<Rightarrow> int \<Rightarrow> ResponseHeader" where
  "ResponseHeader_SetStatusCode h v = h\<lparr>p_statusCode := v\<rparr>"

definition ResponseHeader_StatusMessage :: "ResponseHeader \<Rightarrow> bytes" where
  "ResponseHeader_StatusMessage h = p_statusMessage h"

definition ResponseHeader_SetStatusMessage :: "ResponseHeader \<Rightarrow> bytes \<Rightarrow> ResponseHeader" where
  "ResponseHeader_SetStatusMessage h v = h\<lparr>p_statusMessage := v\<rparr>"

definition ResponseHeader_Protocol :: "ResponseHeader \<Rightarrow> bytes" where
  "ResponseHeader_Protocol h = (if length (p_protocol h) > 0 then p_protocol h else strHTTP11)"

definition ResponseHeader_SetProtocol :: "ResponseHeader \<Rightarrow> bytes \<Rightarrow> ResponseHeader" where
  "ResponseHeader_SetProtocol h v = h\<lparr>p_protocol := v\<rparr>"

definition ResponseHeader_SetLastModified :: "'t time_lib \<Rightarrow> ResponseHeader \<Rightarrow> 't \<Rightarrow> ResponseHeader" where
  "ResponseHeader_SetLastModified T h t = ResponseHeader_setNonSpecial h strLastModified (AppendHTTPDate T t)"

definition ResponseHeader_ConnectionClose :: "ResponseHeader \<Rightarrow> bool" where
  "ResponseHeader_ConnectionClose h = p_connectionClose h"

definition ResponseHeader_SetConnectionClose :: "ResponseHeader \<Rightarrow> ResponseHeader" where
  "ResponseHeader_SetConnectionClose h = h\<lparr>p_connectionClose := True\<rparr>"

definition ResponseHeader_ResetConnectionClose :: "ResponseHeader \<Rightarrow> ResponseHeader" where
  "ResponseHeader_ResetConnectionClose h =
     (if p_connectionClose h
      then h\<lparr>p_connectionClose := False, p_h := delAllArgsBytes (p_h h) strConnection\<rparr> else h)"

definition ResponseHeader_PeekCookie :: "ResponseHeader \<Rightarrow> bytes \<Rightarrow> bytes option" where
  "ResponseHeader_PeekCookie h k = peekArgStr (fst (p_cookies h)) k"

definition ResponseHeader_ContentLength :: "ResponseHeader \<Rightarrow> int" where
  "ResponseHeader_ContentLength h = p_contentLength h"

definition ResponseHeader_mustSkipContentLength :: "ResponseHeader \<Rightarrow> bool" where
  "ResponseHeader_mustSkipContentLength h =
     (let statusCode = ResponseHeader_StatusCode h
      in if statusCode < 100 \<or> statusCode = 200 then False
         else statusCode = 304 \<or> statusCode = 204 \<or> statusCode < 200)"

definition ResponseHeader_SetContentLength :: "ResponseHeader \<Rightarrow> int \<Rightarrow> ResponseHeader go" where
  "ResponseHeader_SetContentLength h contentLength =
     (if ResponseHeader_mustSkipContentLength h then Some h
      else
        let h = h\<lparr>p_contentLength := contentLength\<rparr>
        in if contentLength \<ge> 0 then
             map_option (\<lambda>b. h\<lparr>p_contentLengthBytes := b, p_h := delAllArgsBytes (p_h h) strTransferEncoding\<rparr>)
               (AppendUint [] contentLength)
           else
             let h = h\<lparr>p_contentLengthBytes := []\<rparr>;
                 h = (if contentLength = - 2 then ResponseHeader_SetConnectionClose h else h);
                 v = (if contentLength = - 2 then strIdentity else strChunked)
             in Some (h\<lparr>p_h := setArgBytes (p_h h) strTransferEncoding v argsHasValue\<rparr>))"

definition defaultContentType :: bytes where "defaultContentType = ''text/plain; charset=utf-8''"

definition ResponseHeader_ContentType :: "ResponseHeader \<Rightarrow> bytes" where
  "ResponseHeader_ContentType h =
     (if \<not> p_noDefaultContentType h \<and> length (p_contentType h) = 0 then defaultContentType else p_contentType h)"

definition ResponseHeader_isCompressibleContentType :: "ResponseHeader \<Rightarrow> bool" where
  "ResponseHeader_isCompressibleContentType h =
     (let contentType = ResponseHeader_ContentType h
      in HasPrefix contentType ''text/'' \<or> HasPrefix contentType ''application/'' \<or>
         HasPrefix contentType ''image/svg'' \<or> HasPrefix contentType ''image/x-icon'' \<or>
         HasPrefix contentType ''font/'' \<or> HasPrefix contentType ''multipart/'')"

definition ResponseHeader_SetContentType :: "ResponseHeader \<Rightarrow> bytes \<Rightarrow> ResponseHeader" where
  "ResponseHeader_SetContentType h v = h\<lparr>p_contentType := v\<rparr>"

definition ResponseHeader_SetContentTypeBytes :: "ResponseHeader \<Rightarrow> bytes \<Rightarrow> ResponseHeader" where
  "ResponseHeader_SetContentTypeBytes h v = h\<lparr>p_contentType := v\<rparr>"

definition ResponseHeader_ContentEncoding :: "ResponseHeader \<Rightarrow> bytes" where
  "ResponseHeader_ContentEncoding h = p_contentEncoding h"

definition ResponseHeader_SetContentEncoding :: "ResponseHeader \<Rightarrow> bytes \<Rightarrow> ResponseHeader" where
  "ResponseHeader_SetContentEncoding h v = h\<lparr>p_contentEncoding := v\<rparr>"

definition ResponseHeader_SetContentEncodingBytes :: "ResponseHeader \<Rightarrow> bytes \<Rightarrow> ResponseHeader" where
  "ResponseHeader_SetContentEncodingBytes h v = h\<lparr>p_contentEncoding := v\<rparr>"

definition ResponseHeader_Server :: "ResponseHeader \<Rightarrow> bytes" where
  "ResponseHeader_Server h = p_server h"

definition ResponseHeader_SetServer :: "ResponseHeader \<Rightarrow> bytes \<Rightarrow> ResponseHeader" where
  "ResponseHeader_SetServer h v = h\<lparr>p_server := v\<rparr>"

definition ResponseHeader_SetServerBytes :: "ResponseHeader \<Rightarrow> bytes \<Rightarrow> ResponseHeader" where
  "ResponseHeader_SetServerBytes h v = h\<lparr>p_server := v\<rparr>"

definition ResponseHeader_AddTrailerBytes :: "ResponseHeader \<Rightarrow> bytes \<Rightarrow> header_error option \<times> ResponseHeader" where
  "ResponseHeader_AddTrailerBytes h t =
     (let (tr, err) = add_trailer_loop (p_disableNormalizing h) t (p_trailer h) None in (err, h\<lparr>p_trailer := tr\<rparr>))"

definition ResponseHeader_AddTrailer :: "ResponseHeader \<Rightarrow> bytes \<Rightarrow> header_error option \<times> ResponseHeader" where
  "ResponseHeader_AddTrailer h t = ResponseHeader_AddTrailerBytes h t"

definition ResponseHeader_SetTrailerBytes :: "ResponseHeader \<Rightarrow> bytes \<Rightarrow> header_error option \<times> ResponseHeader" where
  "ResponseHeader_SetTrailerBytes h t = ResponseHeader_AddTrailerBytes (h\<lparr>p_trailer := cut0 (p_trailer h)\<rparr>) t"

definition ResponseHeader_SetTrailer :: "ResponseHeader \<Rightarrow> bytes \<Rightarrow> header_error option \<times> ResponseHeader" where
  "ResponseHeader_SetTrailer h t = ResponseHeader_SetTrailerBytes h t"

definition ResponseHeader_IsHTTP11 :: "ResponseHeader \<Rightarrow> bool" where
  "ResponseHeader_IsHTTP11 h \<longleftrightarrow> \<not> p_noHTTP11 h"

definition ResponseHeader_DisableNormalizing :: "ResponseHeader \<Rightarrow> ResponseHeader" where
  "ResponseHeader_DisableNormalizing h = h\<lparr>p_disableNormalizing := True\<rparr>"

definition ResponseHeader_EnableNormalizing :: "ResponseHeader \<Rightarrow> ResponseHeader" where
  "ResponseHeader_EnableNormalizing h = h\<lparr>p_disableNormalizing := False\<rparr>"

definition ResponseHeader_SetNoDefaultContentType :: "ResponseHeader \<Rightarrow> bool \<Rightarrow> ResponseHeader" where
  "ResponseHeader_SetNoDefaultContentType h v = h\<lparr>p_noDefaultContentType := v\<rparr>"

section \<open>Reset and copy\<close>

definition ResponseHeader_resetSkipNormalize :: "ResponseHeader \<Rightarrow> ResponseHeader" where
  "ResponseHeader_resetSkipNormalize h =
     h\<lparr>p_noHTTP11 := False, p_connectionClose := False, p_statusCode := 0, p_statusMessage := [], p_protocol := [],
       p_contentLength := 0, p_contentLengthBytes := [], p_contentType := [], p_contentEncoding := [],
       p_server := [], p_h := cut0 (p_h h), p_cookies := cut0 (p_cookies h), p_trailer := cut0 (p_trailer h),
       p_mulHeader := []\<rparr>"

definition ResponseHeader_Reset :: "ResponseHeader \<Rightarrow> ResponseHeader" where
  "ResponseHeader_Reset h =
     ResponseHeader_resetSkipNormalize
       ((ResponseHeader_SetNoDefaultContentType (h\<lparr>p_disableNormalizing := False\<rparr>) False)\<lparr>p_noDefaultDate := False\<rparr>)"

text \<open>\<open>ResponseHeader_CopyTo h dst\<close> is \<open>dst\<close> after \<open>h.CopyTo(dst)\<close>.\<close>

definition ResponseHeader_CopyTo :: "ResponseHeader \<Rightarrow> ResponseHeader \<Rightarrow> ResponseHeader" where
  "ResponseHeader_CopyTo h dst =
     (let dst = ResponseHeader_Reset dst
      in dst\<lparr>p_disableNormalizing := p_disableNormalizing h, p_noHTTP11 := p_noHTTP11 h,
             p_connectionClose := p_connectionClose h, p_noDefaultContentType := p_noDefaultContentType h,
             p_noDefaultDate := p_noDefaultDate h, p_statusCode := p_statusCode h,
             p_statusMessage := p_statusMessage dst @ p_statusMessage h, p_protocol := p_protocol dst @ p_protocol h,
             p_contentLength := p_contentLength h,
             p_contentLengthBytes := p_contentLengthBytes dst @ p_contentLengthBytes h,
             p_contentType := p_contentType dst @ p_contentType h,
             p_contentEncoding := p_contentEncoding dst @ p_contentEncoding h,
             p_server := p_server dst @ p_server h, p_h := copyArgs (p_h dst) (fst (p_h h)),
             p_cookies := copyArgs (p_cookies dst) (fst (p_cookies h)),
             p_trailer := copyArgs (p_trailer dst) (fst (p_trailer h))\<rparr>)"

section \<open>Lookup and visiting\<close>

definition ResponseHeader_peek :: "ResponseHeader \<Rightarrow> bytes \<Rightarrow> bytes" where
  "ResponseHeader_peek h k =
     (if k = strContentType then ResponseHeader_ContentType h
      else if k = strContentEncoding then ResponseHeader_ContentEncoding h
      else if k = strServer then ResponseHeader_Server h
      else if k = strConnection then
        (if ResponseHeader_ConnectionClose h then strClose else nil_or (peekArgBytes (fst (p_h h)) k))
      else if k = strContentLength then p_contentLengthBytes h
      else if k = strSetCookie then appendResponseCookieBytes [] (fst (p_cookies h))
      else if k = strTrailer then trailer_names (p_trailer h)
      else nil_or (peekArgBytes (fst (p_h h)) k))"

definition ResponseHeader_Peek :: "ResponseHeader \<Rightarrow> bytes \<Rightarrow> bytes" where
  "ResponseHeader_Peek h k = ResponseHeader_peek h (getHeaderKeyBytes k (p_disableNormalizing h))"

definition ResponseHeader_PeekBytes :: "ResponseHeader \<Rightarrow> bytes \<Rightarrow> bytes" where
  "ResponseHeader_PeekBytes h k = ResponseHeader_peek h (normalizeHeaderKey k (p_disableNormalizing h))"

definition ResponseHeader_peekAll :: "ResponseHeader \<Rightarrow> bytes \<Rightarrow> bytes list \<times> ResponseHeader" where
  "ResponseHeader_peekAll h k =
     (let nonempty = (\<lambda>v. if length v > 0 then [v] else []);
          m = (if k = strContentType then nonempty (ResponseHeader_ContentType h)
               else if k = strContentEncoding then nonempty (ResponseHeader_ContentEncoding h)
               else if k = strServer then nonempty (ResponseHeader_Server h)
               else if k = strConnection then
                 (if ResponseHeader_ConnectionClose h then [strClose] else peekAllArgBytesToDst [] (fst (p_h h)) k)
               else if k = strContentLength then [p_contentLengthBytes h]
               else if k = strSetCookie then [appendResponseCookieBytes [] (fst (p_cookies h))]
               else if k = strTrailer then [trailer_names (p_trailer h)]
               else peekAllArgBytesToDst [] (fst (p_h h)) k)
      in (m, h\<lparr>p_mulHeader := m\<rparr>))"

definition ResponseHeader_PeekAll :: "ResponseHeader \<Rightarrow> bytes \<Rightarrow> bytes list \<times> ResponseHeader" where
  "ResponseHeader_PeekAll h k = ResponseHeader_peekAll h (getHeaderKeyBytes k (p_disableNormalizing h))"

definition ResponseHeader_PeekKeys :: "ResponseHeader \<Rightarrow> bytes list \<times> ResponseHeader" where
  "ResponseHeader_PeekKeys h = (let m = peekArgsKeys [] (fst (p_h h)) in (m, h\<lparr>p_mulHeader := m\<rparr>))"

definition ResponseHeader_PeekTrailerKeys :: "ResponseHeader \<Rightarrow> bytes list \<times> ResponseHeader" where
  "ResponseHeader_PeekTrailerKeys h = (let m = peekArgsKeys [] (fst (p_trailer h)) in (m, h\<lparr>p_mulHeader := m\<rparr>))"

definition ResponseHeader_ConnectionUpgrade :: "ResponseHeader \<Rightarrow> bool" where
  "ResponseHeader_ConnectionUpgrade h = hasHeaderValue (ResponseHeader_Peek h strConnection) strUpgrade"

definition ResponseHeader_VisitAll :: "ResponseHeader \<Rightarrow> (bytes \<Rightarrow> bytes \<Rightarrow> 's \<Rightarrow> 's) \<Rightarrow> 's \<Rightarrow> 's" where
  "ResponseHeader_VisitAll h f s =
     (let call = (\<lambda>k v s. if length v > 0 then f k v s else s);
          s = call strContentLength (p_contentLengthBytes h) s;
          s = call strContentType (ResponseHeader_ContentType h) s;
          s = call strContentEncoding (ResponseHeader_ContentEncoding h) s;
          s = call strServer (ResponseHeader_Server h) s;
          s = (if length (fst (p_cookies h)) > 0
               then visitArgs (fst (p_cookies h)) (\<lambda>k v s. f strSetCookie v s) s else s);
          s = (if length (fst (p_trailer h)) > 0 then f strTrailer (trailer_names (p_trailer h)) s else s);
          s = visitArgs (fst (p_h h)) f s
      in if ResponseHeader_ConnectionClose h then f strConnection strClose s else s)"

definition ResponseHeader_Len :: "ResponseHeader \<Rightarrow> nat" where
  "ResponseHeader_Len h = ResponseHeader_VisitAll h (\<lambda>k v n. n + 1) 0"

definition ResponseHeader_VisitAllTrailer :: "ResponseHeader \<Rightarrow> (bytes \<Rightarrow> 's \<Rightarrow> 's) \<Rightarrow> 's \<Rightarrow> 's" where
  "ResponseHeader_VisitAllTrailer h f s = visitArgsKey (fst (p_trailer h)) f s"

definition ResponseHeader_VisitAllCookie :: "ResponseHeader \<Rightarrow> (bytes \<Rightarrow> bytes \<Rightarrow> 's \<Rightarrow> 's) \<Rightarrow> 's \<Rightarrow> 's" where
  "ResponseHeader_VisitAllCookie h f s = visitArgs (fst (p_cookies h)) f s"

section \<open>Del, Set and Add\<close>

definition ResponseHeader_del :: "ResponseHeader \<Rightarrow> bytes \<Rightarrow> ResponseHeader" where
  "ResponseHeader_del h k =
     (let h = (if k = strContentType then h\<lparr>p_contentType := []\<rparr>
               else if k = strContentEncoding then h\<lparr>p_contentEncoding := []\<rparr>
               else if k = strServer then h\<lparr>p_server := []\<rparr>
               else if k = strSetCookie then h\<lparr>p_cookies := cut0 (p_cookies h)\<rparr>
               else if k = strContentLength then h\<lparr>p_contentLength := 0, p_contentLengthBytes := []\<rparr>
               else if k = strConnection then h\<lparr>p_connectionClose := False\<rparr>
               else if k = strTrailer then h\<lparr>p_trailer := cut0 (p_trailer h)\<rparr>
               else h)
      in h\<lparr>p_h := delAllArgsBytes (p_h h) k\<rparr>)"

definition ResponseHeader_Del :: "ResponseHeader \<Rightarrow> bytes \<Rightarrow> ResponseHeader" where
  "ResponseHeader_Del h k = ResponseHeader_del h (getHeaderKeyBytes k (p_disableNormalizing h))"

definition ResponseHeader_DelBytes :: "ResponseHeader \<Rightarrow> bytes \<Rightarrow> ResponseHeader" where
  "ResponseHeader_DelBytes h k = ResponseHeader_del h (normalizeHeaderKey k (p_disableNormalizing h))"

text \<open>A Set-Cookie line adds an entry with the name of the cookie.\<close>

definition add_set_cookie :: "ResponseHeader \<Rightarrow> bytes \<Rightarrow> ResponseHeader" where
  "add_set_cookie h v =
     (let cs = allocArg (p_cookies h)
      in h\<lparr>p_cookies := set_last cs ((last_kv cs)\<lparr>key := getCookieKey v, val := v\<rparr>)\<rparr>)"

definition ResponseHeader_setSpecialHeader :: "ResponseHeader \<Rightarrow> bytes \<Rightarrow> bytes \<Rightarrow> bool \<times> ResponseHeader" where
  "ResponseHeader_setSpecialHeader h k v =
     (if length k = 0 then (False, h)
      else
        let x = or20 (k ! 0)
        in if x = CHR ''c'' then
             (if caseInsensitiveCompare strContentType k then (True, ResponseHeader_SetContentTypeBytes h v)
              else if caseInsensitiveCompare strContentLength k then
                (True, case parseContentLength v of
                         (n, None) \<Rightarrow> h\<lparr>p_contentLength := n, p_contentLengthBytes := v\<rparr>
                       | (n, Some e) \<Rightarrow> h)
              else if caseInsensitiveCompare strContentEncoding k then
                (True, ResponseHeader_SetContentEncodingBytes h v)
              else if caseInsensitiveCompare strConnection k then
                (True, if strClose = v then ResponseHeader_SetConnectionClose h
                       else ResponseHeader_setNonSpecial (ResponseHeader_ResetConnectionClose h) k v)
              else (False, h))
           else if x = CHR ''s'' then
             (if caseInsensitiveCompare strServer k then (True, ResponseHeader_SetServerBytes h v)
              else if caseInsensitiveCompare strSetCookie k then (True, add_set_cookie h v)
              else (False, h))
           else if x = CHR ''t'' then
             (if caseInsensitiveCompare strTransferEncoding k then (True, h)
              else if caseInsensitiveCompare strTrailer k then (True, snd (ResponseHeader_SetTrailerBytes h v))
              else (False, h))
           else if x = CHR ''d'' then (caseInsensitiveCompare strDate k, h)
           else (False, h))"

definition ResponseHeader_SetCanonical :: "ResponseHeader \<Rightarrow> bytes \<Rightarrow> bytes \<Rightarrow> ResponseHeader" where
  "ResponseHeader_SetCanonical h k v =
     (case ResponseHeader_setSpecialHeader h k v of
        (True, h') \<Rightarrow> h'
      | (False, h') \<Rightarrow> ResponseHeader_setNonSpecial h' k v)"

definition ResponseHeader_Set :: "ResponseHeader \<Rightarrow> bytes \<Rightarrow> bytes \<Rightarrow> ResponseHeader" where
  "ResponseHeader_Set h k v =
     (let (k', v') = initHeaderKV k v (p_disableNormalizing h) in ResponseHeader_SetCanonical h k' v')"

definition ResponseHeader_SetBytesKV :: "ResponseHeader \<Rightarrow> bytes \<Rightarrow> bytes \<Rightarrow> ResponseHeader" where
  "ResponseHeader_SetBytesKV h k v = ResponseHeader_SetCanonical h (normalizeHeaderKey k (p_disableNormalizing h)) v"

definition ResponseHeader_SetBytesK :: "ResponseHeader \<Rightarrow> bytes \<Rightarrow> bytes \<Rightarrow> ResponseHeader" where
  "ResponseHeader_SetBytesK h k v = ResponseHeader_SetBytesKV h k v"

definition ResponseHeader_SetBytesV :: "ResponseHeader \<Rightarrow> bytes \<Rightarrow> bytes \<Rightarrow> ResponseHeader" where
  "ResponseHeader_SetBytesV h k v = ResponseHeader_SetCanonical h (getHeaderKeyBytes k (p_disableNormalizing h)) v"

definition ResponseHeader_AddBytesKV :: "ResponseHeader \<Rightarrow> bytes \<Rightarrow> bytes \<Rightarrow> ResponseHeader" where
  "ResponseHeader_AddBytesKV h k v =
     (case ResponseHeader_setSpecialHeader h k v of
        (True, h') \<Rightarrow> h'
      | (False, h') \<Rightarrow>
          h'\<lparr>p_h := appendArgBytes (p_h h') (getHeaderKeyBytes k (p_disableNormalizing h')) v argsHasValue\<rparr>)"

definition ResponseHeader_Add :: "ResponseHeader \<Rightarrow> bytes \<Rightarrow> bytes \<Rightarrow> ResponseHeader" where
  "ResponseHeader_Add h k v = ResponseHeader_AddBytesKV h k v"

definition ResponseHeader_AddBytesK :: "ResponseHeader \<Rightarrow> bytes \<Rightarrow> bytes \<Rightarrow> ResponseHeader" where
  "ResponseHeader_AddBytesK h k v = ResponseHeader_AddBytesKV h k v"

definition ResponseHeader_AddBytesV :: "ResponseHeader \<Rightarrow> bytes \<Rightarrow> bytes \<Rightarrow> ResponseHeader" where
  "ResponseHeader_AddBytesV h k v = ResponseHeader_AddBytesKV h k v"

definition ResponseHeader_addVaryBytes :: "ResponseHeader \<Rightarrow> bytes \<Rightarrow> ResponseHeader" where
  "ResponseHeader_addVaryBytes h x =
     (let v = ResponseHeader_peek h strVary
      in if length v = 0 then ResponseHeader_SetBytesV h strVary x
         else if \<not> Contains v x then ResponseHeader_SetBytesV h strVary (v @ '','' @ x)
         else h)"

definition ResponseHeader_SetCookie :: "'t time_lib \<Rightarrow> ResponseHeader \<Rightarrow> 't Cookie \<Rightarrow> ResponseHeader go" where
  "ResponseHeader_SetCookie T h cookie =
     map_option (\<lambda>v. h\<lparr>p_cookies := setArgBytes (p_cookies h) (cKey cookie) v argsHasValue\<rparr>) (Cookie_Cookie T cookie)"

definition ResponseHeader_DelCookie :: "ResponseHeader \<Rightarrow> bytes \<Rightarrow> ResponseHeader" where
  "ResponseHeader_DelCookie h k = h\<lparr>p_cookies := delAllArgs (p_cookies h) k\<rparr>"

definition ResponseHeader_DelCookieBytes :: "ResponseHeader \<Rightarrow> bytes \<Rightarrow> ResponseHeader" where
  "ResponseHeader_DelCookieBytes h k = ResponseHeader_DelCookie h k"

definition ResponseHeader_DelAllCookies :: "ResponseHeader \<Rightarrow> ResponseHeader" where
  "ResponseHeader_DelAllCookies h = h\<lparr>p_cookies := cut0 (p_cookies h)\<rparr>"

text \<open>The time CookieExpireDelete is the argument \<open>expireDelete\<close>.\<close>

definition ResponseHeader_DelClientCookie :: "'t time_lib \<Rightarrow> 't \<Rightarrow> ResponseHeader \<Rightarrow> bytes \<Rightarrow> ResponseHeader go" where
  "ResponseHeader_DelClientCookie T expireDelete h k =
     ResponseHeader_SetCookie T (ResponseHeader_DelCookie h k)
       (Cookie_SetExpire (Cookie_SetKey AcquireCookie k) (Some expireDelete))"

definition ResponseHeader_DelClientCookieBytes :: "'t time_lib \<Rightarrow> 't \<Rightarrow> ResponseHeader \<Rightarrow> bytes \<Rightarrow> ResponseHeader go" where
  "ResponseHeader_DelClientCookieBytes T expireDelete h k = ResponseHeader_DelClientCookie T expireDelete h k"

definition ResponseHeader_Cookie :: "'t time_lib \<Rightarrow> ResponseHeader \<Rightarrow> 't Cookie \<Rightarrow> bool \<times> 't Cookie" where
  "ResponseHeader_Cookie T h cookie =
     (case peekArgBytes (fst (p_cookies h)) (cKey cookie) of
        None \<Rightarrow> (False, cookie)
      | Some v \<Rightarrow> (True, snd (Cookie_ParseBytes T cookie v)))"

section \<open>Text of the header\<close>

definition ResponseHeader_appendStatusLine :: "ResponseHeader \<Rightarrow> bytes \<Rightarrow> bytes" where
  "ResponseHeader_appendStatusLine h dst =
     (let statusCode = ResponseHeader_StatusCode h;
          statusCode = (if statusCode < 0 then 200 else statusCode)
      in formatStatusLine dst (ResponseHeader_Protocol h) statusCode (ResponseHeader_StatusMessage h))"

text \<open>The loop over the entries: names of the trailer are left out, and Date unless the default date is off.\<close>

fun append_response_loop :: "argsKV list \<Rightarrow> bool \<Rightarrow> bytes \<Rightarrow> argsKV list \<Rightarrow> bytes" where
  "append_response_loop trailer noDefaultDate dst [] = dst"
| "append_response_loop trailer noDefaultDate dst (kv # kvs) =
     append_response_loop trailer noDefaultDate
       (if \<not> (\<exists>t\<in>set trailer. key kv = key t) \<and> (noDefaultDate \<or> key kv \<noteq> strDate)
        then appendHeaderLine dst (key kv) (val kv) else dst) kvs"

fun append_set_cookies :: "bytes \<Rightarrow> argsKV list \<Rightarrow> bytes" where
  "append_set_cookies dst [] = dst"
| "append_set_cookies dst (kv # kvs) = append_set_cookies (appendHeaderLine dst strSetCookie (val kv)) kvs"

text \<open>AppendBytes starts from \<open>dst[:0]\<close>.\<close>

definition ResponseHeader_AppendBytes :: "bytes \<Rightarrow> ResponseHeader \<Rightarrow> bytes \<Rightarrow> bytes" where
  "ResponseHeader_AppendBytes serverDate h dst =
     (let dst = ResponseHeader_appendStatusLine h [];
          dst = (if length (ResponseHeader_Server h) \<noteq> 0 then appendHeaderLine dst strServer (ResponseHeader_Server h) else dst);
          dst = (if \<not> p_noDefaultDate h then appendHeaderLine dst strDate serverDate else dst);
          dst = (if (ResponseHeader_ContentLength h \<noteq> 0 \<or> length (p_contentType h) > 0) \<and>
                    length (ResponseHeader_ContentType h) > 0
                 then appendHeaderLine dst strContentType (ResponseHeader_ContentType h) else dst);
          dst = (if length (ResponseHeader_ContentEncoding h) > 0
                 then appendHeaderLine dst strContentEncoding (ResponseHeader_ContentEncoding h) else dst);
          dst = (if length (p_contentLengthBytes h) > 0
                 then appendHeaderLine dst strContentLength (p_contentLengthBytes h) else dst);
          dst = append_response_loop (fst (p_trailer h)) (p_noDefaultDate h) dst (fst (p_h h));
          dst = (if length (fst (p_trailer h)) > 0
                 then appendHeaderLine dst strTrailer (trailer_names (p_trailer h)) else dst);
          dst = append_set_cookies dst (fst (p_cookies h));
          dst = (if ResponseHeader_ConnectionClose h then appendHeaderLine dst strConnection strClose else dst)
      in dst @ strCRLF)"

definition ResponseHeader_Header :: "bytes \<Rightarrow> ResponseHeader \<Rightarrow> bytes" where
  "ResponseHeader_Header serverDate h = ResponseHeader_AppendBytes serverDate h []"

definition ResponseHeader_String :: "bytes \<Rightarrow> ResponseHeader \<Rightarrow> bytes" where
  "ResponseHeader_String serverDate h = ResponseHeader_Header serverDate h"

fun response_trailer_loop :: "ResponseHeader \<Rightarrow> bytes \<Rightarrow> argsKV list \<Rightarrow> bytes" where
  "response_trailer_loop h dst [] = dst"
| "response_trailer_loop h dst (t # ts) =
     response_trailer_loop h (appendHeaderLine dst (key t) (ResponseHeader_peek h (key t))) ts"

definition ResponseHeader_TrailerHeader :: "ResponseHeader \<Rightarrow> bytes" where
  "ResponseHeader_TrailerHeader h = response_trailer_loop h [] (fst (p_trailer h)) @ strCRLF"

section \<open>Parsing\<close>

definition ResponseHeader_parseFirstLine :: "ResponseHeader \<Rightarrow> bytes \<Rightarrow> (header_error + nat) \<times> ResponseHeader" where
  "ResponseHeader_parseFirstLine h buffer =
     (let quoted = (if p_secureErrorLogMessage h then None else Some buffer)
      in case first_line buffer of
           Inl e \<Rightarrow> (Inl e, h)
         | Inr (b, bNext) \<Rightarrow>
             let n = IndexByte b CHR '' ''
             in if n < 0 then (Inl (NoWhitespace quoted), h)
                else
                  let h = h\<lparr>p_noHTTP11 := take (nat n) b \<noteq> strHTTP11\<rparr>;
                      b = drop (nat n + 1) b;
                      (code, n, err) = parseUintBuf b;
                      h = h\<lparr>p_statusCode := code\<rparr>
                  in case err of
                       Some e \<Rightarrow> (Inl (BadStatusCode e quoted), h)
                     | None \<Rightarrow>
                         if length b > n \<and> b ! n \<noteq> CHR '' '' then (Inl (StatusCodeTrailing quoted), h)
                         else (Inr (length buffer - length bNext),
                               if length b > n + 1 then ResponseHeader_SetStatusMessage h (drop (n + 1) b) else h))"

text \<open>The body of the loop of parseHeaders for one header line.\<close>

definition response_header_line :: "ResponseHeader \<Rightarrow> header_error option \<Rightarrow> bytes \<Rightarrow> bytes \<Rightarrow> ResponseHeader \<times> header_error option" where
  "response_header_line h err k v =
     (let store = h\<lparr>p_h := appendArgBytes (p_h h) k v argsHasValue\<rparr>
      in if length k > 0 then
           let x = or20 (k ! 0)
           in if x = CHR ''c'' \<and> caseInsensitiveCompare k strContentType then (h\<lparr>p_contentType := v\<rparr>, err)
              else if x = CHR ''c'' \<and> caseInsensitiveCompare k strContentEncoding then (h\<lparr>p_contentEncoding := v\<rparr>, err)
              else if x = CHR ''c'' \<and> caseInsensitiveCompare k strContentLength then
                (if p_contentLength h \<noteq> - 1 then
                   case parseContentLength v of
                     (n, Some e) \<Rightarrow> (h\<lparr>p_contentLength := - 2\<rparr>, Some (ContentLengthError e))
                   | (n, None) \<Rightarrow> (h\<lparr>p_contentLength := n, p_contentLengthBytes := v\<rparr>, None)
                 else (h, err))
              else if x = CHR ''c'' \<and> caseInsensitiveCompare k strConnection then
                (if v = strClose then (h\<lparr>p_connectionClose := True\<rparr>, err)
                 else (store\<lparr>p_connectionClose := False\<rparr>, err))
              else if x = CHR ''s'' \<and> caseInsensitiveCompare k strServer then (h\<lparr>p_server := v\<rparr>, err)
              else if x = CHR ''s'' \<and> caseInsensitiveCompare k strSetCookie then (add_set_cookie h v, err)
              else if x = CHR ''t'' \<and> caseInsensitiveCompare k strTransferEncoding then
                (if length v > 0 \<and> v \<noteq> strIdentity then
                   (h\<lparr>p_contentLength := - 1, p_h := setArgBytes (p_h h) strTransferEncoding strChunked argsHasValue\<rparr>,
                    err)
                 else (h, err))
              else if x = CHR ''t'' \<and> caseInsensitiveCompare k strTrailer then
                (let (e, h') = ResponseHeader_SetTrailerBytes h v in (h', e))
              else (store, err)
         else (h, err))"

function response_headers_loop ::
  "headerScanner \<Rightarrow> ResponseHeader \<Rightarrow> header_error option \<Rightarrow> headerScanner \<times> ResponseHeader \<times> header_error option" where
  "response_headers_loop s h err =
     (case headerScanner_next s of
        (False, s') \<Rightarrow> (s', h, err)
      | (True, s') \<Rightarrow>
          (let (h', err') = response_header_line h err (hs_key s') (hs_value s') in response_headers_loop s' h' err'))"
  by pat_completeness auto
termination
  by (relation "measure (\<lambda>(s, h, err). length (hs_b s))") (auto dest!: headerScanner_next_shorter [OF sym])

declare response_headers_loop.simps [simp del]

text \<open>After the loop of parseHeaders: the number of bytes is the length of the buffer without what is unread.\<close>

definition response_headers_end :: "bytes \<Rightarrow> headerScanner \<Rightarrow> ResponseHeader \<Rightarrow> header_error option \<Rightarrow> (header_error + nat) \<times> ResponseHeader" where
  "response_headers_end buffer s h err =
     (case hs_err s of
        Some e \<Rightarrow> (Inl e, h\<lparr>p_connectionClose := True\<rparr>)
      | None \<Rightarrow>
          (let h = (if p_contentLength h < 0 then h\<lparr>p_contentLengthBytes := []\<rparr> else h);
               h = (if p_contentLength h = - 2 \<and> \<not> ResponseHeader_ConnectionUpgrade h \<and>
                       \<not> ResponseHeader_mustSkipContentLength h
                    then h\<lparr>p_h := setArgBytes (p_h h) strTransferEncoding strIdentity argsHasValue,
                           p_connectionClose := True\<rparr>
                    else h);
               h = (if p_noHTTP11 h \<and> \<not> p_connectionClose h
                    then h\<lparr>p_connectionClose :=
                             \<not> hasHeaderValue (nil_or (peekArgBytes (fst (p_h h)) strConnection)) strKeepAlive\<rparr>
                    else h)
           in (case err of Some e \<Rightarrow> Inl e | None \<Rightarrow> Inr (length buffer - length (hs_b s)), h)))"

definition ResponseHeader_parseHeaders :: "ResponseHeader \<Rightarrow> bytes \<Rightarrow> (header_error + nat) \<times> ResponseHeader \<times> bytes" where
  "ResponseHeader_parseHeaders h buffer =
     (let (s, h, err) = response_headers_loop (new_scanner buffer (p_disableNormalizing h)) (h\<lparr>p_contentLength := - 2\<rparr>) None;
          (r, h) = response_headers_end buffer s h err
      in (r, h, hs_array s))"

definition ResponseHeader_parse :: "ResponseHeader \<Rightarrow> bytes \<Rightarrow> (header_error + nat) \<times> ResponseHeader \<times> bytes" where
  "ResponseHeader_parse h buffer =
     (case ResponseHeader_parseFirstLine h buffer of
        (Inl e, h) \<Rightarrow> (Inl e, h, buffer)
      | (Inr m, h) \<Rightarrow>
          (let (r, h, buffer') = ResponseHeader_parseHeaders h (drop m buffer)
           in (map_sum id (\<lambda>n. m + n) r, h, take m buffer @ buffer')))"

definition ResponseHeader_parseTrailer :: "ResponseHeader \<Rightarrow> bytes \<Rightarrow> ((header_error + int) \<times> ResponseHeader \<times> bytes) go" where
  "ResponseHeader_parseTrailer h buffer =
     map_option (\<lambda>(hs, r, buffer'). (r, h\<lparr>p_h := hs\<rparr>, buffer')) (parse_trailer (p_disableNormalizing h) (p_h h) buffer)"

end
