(* ===== verification/Header_Lines.thy ===== *)
theory Header_Lines
  imports Response_Header
begin

text \<open>
  What the scanner of header lines computes. The reference is \<open>line_kv\<close>: a line is split at its first
  colon, the name is normalised, the value loses the spaces around it. On a block of lines none of which
  continues the previous one, the scanner with its cached positions and in-place rewriting finds exactly
  these pairs, stops behind the blank line and counts the bytes of the block.
\<close>

section \<open>Bytes of header names\<close>

text \<open>Equations for evaluation.\<close>

lemma wrap64_code [code]: "wrap64 x = (x + 9223372036854775808) mod 18446744073709551616 - 9223372036854775808"
  by (simp add: wrap64_def)

lemma or20_code [code]: "or20 (Char b0 b1 b2 b3 b4 b5 b6 b7) = Char b0 b1 b2 b3 b4 True b6 b7"
  by (cases b0; cases b1; cases b2; cases b3; cases b4; cases b5; cases b6; cases b7;
      simp add: or20_def char_of_eq_iff numeral_2_eq_2 [symmetric] numeral_3_eq_3 [symmetric])

lemma toUpper_lower: "toUpperTable (toLowerTable c) = toUpperTable c"
  by (auto simp: toUpperTable_def toLowerTable_def byte_order of_char_of go_simps)

lemma toLower_upper: "toLowerTable (toUpperTable c) = toLowerTable c"
  by (auto simp: toUpperTable_def toLowerTable_def byte_order of_char_of go_simps)

lemma toUpper_idem [simp]: "toUpperTable (toUpperTable c) = toUpperTable c"
  by (auto simp: toUpperTable_def byte_order of_char_of go_simps)

lemma toLower_idem [simp]: "toLowerTable (toLowerTable c) = toLowerTable c"
  by (auto simp: toLowerTable_def byte_order of_char_of go_simps)

lemma toLower_eq_iff:
  assumes "\<not> (c \<ge> CHR ''a'' \<and> c \<le> CHR ''z'')" and "\<not> (c \<ge> CHR ''A'' \<and> c \<le> CHR ''Z'')"
  shows "toLowerTable x = c \<longleftrightarrow> x = c" and "toUpperTable x = c \<longleftrightarrow> x = c"
  using assms by (auto simp: toLowerTable_def toUpperTable_def byte_order of_char_of go_simps)

lemma case_dash [simp]: "toLowerTable x = CHR ''-'' \<longleftrightarrow> x = CHR ''-''" "toUpperTable x = CHR ''-'' \<longleftrightarrow> x = CHR ''-''"
  by (simp_all add: toLower_eq_iff byte_order)

lemma normalize_tail_idem: "normalize_tail (normalize_tail b) = normalize_tail b"
proof (induction b rule: normalize_tail.induct)
  case (3 c d r)
  then show ?case
    by (cases "normalize_tail (d # r)") (auto dest: arg_cong [of _ _ length])
qed auto

lemma normalizeHeaderKey_idem: "normalizeHeaderKey (normalizeHeaderKey b d) d = normalizeHeaderKey b d"
  by (auto simp: normalizeHeaderKey_def normalize_tail_idem split: list.split)

text \<open>A byte without case is kept.\<close>

definition caseless :: "char \<Rightarrow> bool" where
  "caseless c \<longleftrightarrow> \<not> (c \<ge> CHR ''a'' \<and> c \<le> CHR ''z'') \<and> \<not> (c \<ge> CHR ''A'' \<and> c \<le> CHR ''Z'')"

lemma normalize_tail_mem: "caseless c \<Longrightarrow> c \<in> set (normalize_tail b) \<longleftrightarrow> c \<in> set b"
  by (induction b rule: normalize_tail.induct) (auto simp: caseless_def toLower_eq_iff eq_commute [of c])

lemma normalizeHeaderKey_mem: "caseless c \<Longrightarrow> c \<in> set (normalizeHeaderKey b d) \<longleftrightarrow> c \<in> set b"
  by (cases b) (auto simp: normalizeHeaderKey_def normalize_tail_mem caseless_def toLower_eq_iff eq_commute [of c])

lemma caseless_seps [simp]: "caseless CHR '':''" "caseless nChar" "caseless rChar" "caseless CHR '' ''" "caseless tChar"
  "caseless CHR ''-''"
  by (simp_all add: caseless_def byte_order)

text \<open>The names that differ in case only are the ones with the same normal form.\<close>

lemma normalize_tail_lower: "map toLowerTable (normalize_tail b) = map toLowerTable b"
  by (induction b rule: normalize_tail.induct) (auto simp: toLower_upper)

lemma normalize_tail_of_lower: "normalize_tail (map toLowerTable b) = normalize_tail b"
  by (induction b rule: normalize_tail.induct) (auto simp: toUpper_lower)

lemma normalize_eq_iff:
  "normalizeHeaderKey a False = normalizeHeaderKey b False \<longleftrightarrow> map toLowerTable a = map toLowerTable b"
proof -
  have lower: "map toLowerTable (normalizeHeaderKey x False) = map toLowerTable x" for x
    by (auto simp: normalizeHeaderKey_def normalize_tail_lower toLower_upper split: list.split)
  have of_lower: "normalizeHeaderKey (map toLowerTable x) False = normalizeHeaderKey x False" for x
    by (auto simp: normalizeHeaderKey_def normalize_tail_of_lower toUpper_lower split: list.split)
  show ?thesis by (metis lower of_lower)
qed

section \<open>One line\<close>

definition line_kv :: "bool \<Rightarrow> bytes \<Rightarrow> bytes \<times> bytes" where
  "line_kv disableNormalizing l =
     (let k = takeWhile (\<lambda>c. c \<noteq> CHR '':'') l; v = tl (dropWhile (\<lambda>c. c \<noteq> CHR '':'') l)
      in (normalizeHeaderKey k disableNormalizing, trim_value (dropWhile (\<lambda>c. c = CHR '' '') v)))"

text \<open>The bytes of the line after the scanner rewrote the name.\<close>

definition line_bytes :: "bool \<Rightarrow> bytes \<Rightarrow> bytes" where
  "line_bytes disableNormalizing l =
     fst (line_kv disableNormalizing l) @ dropWhile (\<lambda>c. c \<noteq> CHR '':'') l"

definition header_line :: "bytes \<Rightarrow> bool" where
  "header_line l \<longleftrightarrow> CHR '':'' \<in> set l \<and> nChar \<notin> set l \<and> hd l \<notin> {CHR '' '', tChar}"

text \<open>A scanner between two lines.\<close>

definition at_line :: "headerScanner \<Rightarrow> bool" where
  "at_line s \<longleftrightarrow> initialized s \<longrightarrow> nextColon s = - 1 \<and> nextNewLine s < 0"

definition unfolded :: "bytes \<Rightarrow> bool" where
  "unfolded r \<longleftrightarrow> r = [] \<or> hd r \<notin> {CHR '' '', tChar}"

lemma line_split:
  assumes "CHR '':'' \<in> set l"
  obtains k w where "l = k @ CHR '':'' # w" and "CHR '':'' \<notin> set k"
    and "takeWhile (\<lambda>c. c \<noteq> CHR '':'') l = k" and "dropWhile (\<lambda>c. c \<noteq> CHR '':'') l = CHR '':'' # w"
  using assms split_list_first [of "CHR '':''" l] takeWhile_neq_append dropWhile_neq_append by metis

lemma find_colon_line:
  assumes "hs_b s = k @ CHR '':'' # w @ nChar # r" "CHR '':'' \<notin> set k" "nChar \<notin> set k" "nextColon s < 0"
  shows "find_colon s = Inr (length k)"
proof -
  have colon: "IndexByte (hs_b s) CHR '':'' = int (length k)" using assms IndexByte_append by simp
  have mem: "nChar \<in> set (hs_b s)" using assms by simp
  then obtain xs ys where x: "hs_b s = xs @ nChar # ys" "nChar \<notin> set xs" "IndexByte (hs_b s) nChar = int (length xs)"
    by (rule IndexByte_split)
  have "length k < length xs"
  proof (rule ccontr)
    assume "\<not> length k < length xs"
    then have "hs_b s ! length xs \<in> set (k @ '':'')" using assms(1)
      by (auto simp: nth_append not_less le_less)
    with x assms show False by simp
  qed
  with colon x assms show ?thesis by (simp add: find_colon_def)
qed

lemma value_lines_unfolded:
  assumes "unfolded r"
  shows "value_lines (w @ nChar # r) (length w) False = (length w, False, None)"
  using assms by (subst value_lines.simps) (cases r; simp add: nth_append unfolded_def)

lemma dropWhile_space_append:
  "dropWhile (\<lambda>c. c = CHR '' '') (w @ nChar # r) = dropWhile (\<lambda>c. c = CHR '' '') w @ nChar # r"
  by (induction w) auto

lemma scan_value_line:
  assumes "hs_b s = w @ nChar # r" "nChar \<notin> set w" "unfolded r" "nextNewLine s < 0"
  shows "scan_value s = (True, (advance (Suc (length w)) s)\<lparr>hs_value := trim_value w\<rparr>)"
  using assms IndexByte_append [of nChar w r] value_lines_unfolded [of r w]
  by (simp add: scan_value_def take_value_def)

lemma scan_key_line:
  assumes "hs_b s = k @ CHR '':'' # w @ nChar # r"
  defines "v \<equiv> dropWhile (\<lambda>c. c = CHR '' '') w"
  shows "scan_key (length k) s =
     s\<lparr>hs_done := hs_done s @ normalizeHeaderKey k (hs_disableNormalizing s) @ CHR '':'' # takeWhile (\<lambda>c. c = CHR '' '') w,
       hs_b := v @ nChar # r, hs_key := normalizeHeaderKey k (hs_disableNormalizing s),
       hs_hLen := hs_hLen s + int (length k + 1 + length (takeWhile (\<lambda>c. c = CHR '' '') w)), nextColon := - 1,
       nextNewLine := nextNewLine s - int (length (takeWhile (\<lambda>c. c = CHR '' '') w))\<rparr>"
proof -
  have tw: "takeWhile (\<lambda>c. c = CHR '' '') (w @ nChar # r) = takeWhile (\<lambda>c. c = CHR '' '') w" by (induction w) auto
  have "take (length (takeWhile (\<lambda>c. c = CHR '' '') w)) (w @ nChar # r) = takeWhile (\<lambda>c. c = CHR '' '') w"
    by (metis append.assoc append_eq_conv_conj takeWhile_dropWhile_id)
  moreover have "drop (length (takeWhile (\<lambda>c. c = CHR '' '') w)) (w @ nChar # r) = v @ nChar # r"
    by (metis append.assoc append_eq_conv_conj takeWhile_dropWhile_id v_def)
  ultimately show ?thesis using assms(1) by (simp add: scan_key_def advance_def tw Let_def add.commute)
qed

text \<open>The state behind a line.\<close>

definition behind_line :: "bytes \<Rightarrow> bytes \<Rightarrow> headerScanner \<Rightarrow> headerScanner \<Rightarrow> bool" where
  "behind_line l r s s' \<longleftrightarrow>
     at_line s' \<and> hs_b s' = r \<and> (hs_key s', hs_value s') = line_kv (hs_disableNormalizing s) l \<and>
     hs_done s' = hs_done s @ line_bytes (hs_disableNormalizing s) l @ [nChar] \<and>
     hs_hLen s' = hs_hLen s + int (length l) + 1 \<and> hs_err s' = hs_err s \<and> hs_after s' = hs_after s \<and>
     hs_disableNormalizing s' = hs_disableNormalizing s"

lemma header_line_start:
  assumes "header_line l"
  shows "l \<noteq> []" and "l \<noteq> [rChar]" and "hd l \<noteq> nChar" and "hd (l @ x) = hd l"
  using assms by (cases l; auto simp: header_line_def)+

lemma next_skips_start:
  assumes "header_line l" and "hs_b s = l @ nChar # r"
  shows "\<not> (length (hs_b s) \<ge> 2 \<and> hs_b s ! 0 = rChar \<and> hs_b s ! 1 = nChar)"
    and "\<not> (length (hs_b s) \<ge> 1 \<and> hs_b s ! 0 = nChar)"
proof -
  from header_line_start [OF assms(1)] obtain c l' where l: "l = c # l'" by (cases l) auto
  with assms have "nChar \<notin> set l" "l \<noteq> [rChar]" using header_line_start [OF assms(1)]
    by (auto simp: header_line_def)
  with l assms(2) show "\<not> (length (hs_b s) \<ge> 2 \<and> hs_b s ! 0 = rChar \<and> hs_b s ! 1 = nChar)"
    and "\<not> (length (hs_b s) \<ge> 1 \<and> hs_b s ! 0 = nChar)"
    by (cases l'; auto)+
qed

lemma headerScanner_next_line:
  assumes s: "at_line s" and b: "hs_b s = l @ nChar # r" and l: "header_line l" and r: "unfolded r"
  shows "\<exists>s'. headerScanner_next s = (True, s') \<and> behind_line l r s s'"
proof -
  define t where "t = (if \<not> initialized s then s\<lparr>nextColon := - 1, nextNewLine := - 1, initialized := True\<rparr> else s)"
  have t: "hs_b t = hs_b s" "nextColon t = - 1" "nextNewLine t < 0" "initialized t" "hs_done t = hs_done s"
    "hs_hLen t = hs_hLen s" "hs_err t = hs_err s" "hs_after t = hs_after s"
    "hs_disableNormalizing t = hs_disableNormalizing s"
    using s by (auto simp: t_def at_line_def)
  from l have "CHR '':'' \<in> set l" by (simp add: header_line_def)
  then obtain k w where k: "l = k @ CHR '':'' # w" "CHR '':'' \<notin> set k"
    "takeWhile (\<lambda>c. c \<noteq> CHR '':'') l = k" "dropWhile (\<lambda>c. c \<noteq> CHR '':'') l = CHR '':'' # w"
    by (rule line_split)
  define v where "v = dropWhile (\<lambda>c. c = CHR '' '') w"
  have nl: "nChar \<notin> set k" "nChar \<notin> set w" using l k by (auto simp: header_line_def)
  have v: "nChar \<notin> set v" using nl set_dropWhileD unfolding v_def by metis
  have colon: "find_colon t = Inr (length k)" using find_colon_line [of t k w r] b k nl t by simp
  have next_eq: "headerScanner_next s = scan_value (scan_key (length k) t)"
    unfolding headerScanner_next_def Let_def t_def [symmetric]
    using next_skips_start [OF l, of t r] b t(1) colon by auto
  have len: "length (takeWhile (\<lambda>c. c = CHR '' '') w) + length v = length w"
    by (metis length_append takeWhile_dropWhile_id v_def)
  have key: "scan_key (length k) t =
     t\<lparr>hs_done := hs_done t @ normalizeHeaderKey k (hs_disableNormalizing t) @ CHR '':'' # takeWhile (\<lambda>c. c = CHR '' '') w,
       hs_b := v @ nChar # r, hs_key := normalizeHeaderKey k (hs_disableNormalizing t),
       hs_hLen := hs_hLen t + int (length k + 1 + length (takeWhile (\<lambda>c. c = CHR '' '') w)), nextColon := - 1,
       nextNewLine := nextNewLine t - int (length (takeWhile (\<lambda>c. c = CHR '' '') w))\<rparr>" (is "_ = ?u")
    using scan_key_line [of t k w r] b k t by (simp add: v_def)
  have "scan_value ?u = (True, (advance (Suc (length v)) ?u)\<lparr>hs_value := trim_value v\<rparr>)"
    by (rule scan_value_line) (use v r t in auto)
  moreover have "behind_line l r s ((advance (Suc (length v)) ?u)\<lparr>hs_value := trim_value v\<rparr>)"
    using t k len takeWhile_dropWhile_id [of "\<lambda>c. c = CHR '' ''" w]
    by (auto simp: behind_line_def advance_def at_line_def line_kv_def line_bytes_def v_def [symmetric])
  ultimately show ?thesis by (simp only: next_eq key) blast
qed

section \<open>A block of lines\<close>

definition header_text :: "bytes list \<Rightarrow> bytes \<Rightarrow> bytes" where
  "header_text ls e = concat (map (\<lambda>l. l @ [nChar]) ls) @ e @ [nChar]"

lemma next_at_blank:
  assumes "hs_b s = e @ nChar # r" and "e = [] \<or> e = [rChar]"
  shows "\<exists>s'. headerScanner_next s = (False, s') \<and> hs_b s' = r \<and> hs_err s' = hs_err s \<and> hs_after s' = hs_after s \<and>
              hs_done s' = hs_done s @ e @ [nChar] \<and> hs_hLen s' = hs_hLen s + int (length e) + 1"
  using assms by (auto simp: headerScanner_next_def advance_def)

lemma unfolded_text:
  assumes "\<forall>l\<in>set ls. header_line l" and "e = [] \<or> e = [rChar]"
  shows "unfolded (header_text ls e @ r)"
  using assms header_line_start(1,4) by (cases ls) (auto simp: unfolded_def header_text_def header_line_def)

text \<open>What the scanner has done with a whole block.\<close>

definition behind_block :: "bytes list \<Rightarrow> bytes \<Rightarrow> bytes \<Rightarrow> headerScanner \<Rightarrow> headerScanner \<Rightarrow> bool" where
  "behind_block ls e r s s' \<longleftrightarrow>
     hs_b s' = r \<and> hs_err s' = hs_err s \<and> hs_after s' = hs_after s \<and>
     length (hs_done s') = length (hs_done s) + length (header_text ls e) \<and>
     hs_hLen s' = hs_hLen s + int (length (header_text ls e))"

lemma behind_block_blank:
  assumes "hs_b s = e @ nChar # r" and "e = [] \<or> e = [rChar]"
  shows "\<exists>s'. headerScanner_next s = (False, s') \<and> behind_block [] e r s s'"
  using next_at_blank [OF assms] by (auto simp: behind_block_def header_text_def)

lemma length_line_bytes: "CHR '':'' \<in> set l \<Longrightarrow> length (line_bytes d l) = length l"
  by (simp add: line_bytes_def line_kv_def) (metis length_append takeWhile_dropWhile_id)

lemma behind_block_line:
  assumes "behind_line l (header_text ls e @ r) s s1" and "behind_block ls e r s1 s2" and "header_line l"
  shows "behind_block (l # ls) e r s s2"
  using assms by (simp add: behind_block_def behind_line_def length_line_bytes header_line_def header_text_def)

text \<open>The pairs of the lines, handed to the body of a loop one by one.\<close>

definition on_lines :: "bool \<Rightarrow> ('h \<Rightarrow> 'e \<Rightarrow> bytes \<Rightarrow> bytes \<Rightarrow> 'h \<times> 'e) \<Rightarrow> bytes list \<Rightarrow> 'h \<times> 'e \<Rightarrow> 'h \<times> 'e" where
  "on_lines d body ls he =
     fold (\<lambda>l (h, err). body h err (fst (line_kv d l)) (snd (line_kv d l))) ls he"

text \<open>The loops over the header lines of requests, responses and trailers differ in what they do with a
  line. Each asks the scanner for the next line until there is none.\<close>

locale header_loop =
  fixes loop :: "headerScanner \<Rightarrow> 'h \<Rightarrow> 'e \<Rightarrow> headerScanner \<times> 'h \<times> 'e"
    and body :: "'h \<Rightarrow> 'e \<Rightarrow> bytes \<Rightarrow> bytes \<Rightarrow> 'h \<times> 'e"
  assumes loop_more: "headerScanner_next s = (True, s') \<Longrightarrow>
            loop s h err = (case body h err (hs_key s') (hs_value s') of (h', err') \<Rightarrow> loop s' h' err')"
    and loop_stop: "headerScanner_next s = (False, s') \<Longrightarrow> loop s h err = (s', h, err)"
begin

lemma loop_block:
  assumes "at_line s" and "hs_b s = header_text ls e @ r" and "\<forall>l\<in>set ls. header_line l" and "e = [] \<or> e = [rChar]"
  shows "\<exists>s'. loop s h err = (s', on_lines (hs_disableNormalizing s) body ls (h, err)) \<and> behind_block ls e r s s'"
  using assms
proof (induction ls arbitrary: s h err)
  case Nil
  then have "hs_b s = e @ nChar # r" by (simp add: header_text_def)
  from behind_block_blank [OF this Nil(4)] show ?case
    by (auto simp: loop_stop on_lines_def)
next
  case (Cons l ls)
  have b: "hs_b s = l @ nChar # header_text ls e @ r" using Cons.prems by (simp add: header_text_def)
  have ls: "header_line l" "\<forall>l\<in>set ls. header_line l" using Cons.prems by auto
  from headerScanner_next_line [OF Cons.prems(1) b ls(1) unfolded_text [OF ls(2) Cons.prems(4)]]
  obtain s1 where s1: "headerScanner_next s = (True, s1)" "behind_line l (header_text ls e @ r) s s1" by blast
  obtain h1 err1 where h1: "body h err (hs_key s1) (hs_value s1) = (h1, err1)" by fastforce
  from s1(2) have st: "at_line s1" "hs_b s1 = header_text ls e @ r" "hs_disableNormalizing s1 = hs_disableNormalizing s"
    "line_kv (hs_disableNormalizing s) l = (hs_key s1, hs_value s1)"
    by (simp_all add: behind_line_def)
  from Cons.IH [OF st(1,2) ls(2) Cons.prems(4), of h1 err1] obtain s2 where
    s2: "loop s1 h1 err1 = (s2, on_lines (hs_disableNormalizing s1) body ls (h1, err1))"
    "behind_block ls e r s1 s2" by blast
  have "loop s h err = (s2, on_lines (hs_disableNormalizing s) body (l # ls) (h, err))"
    using h1 s2(1) st by (simp add: loop_more [OF s1(1)] on_lines_def)
  with behind_block_line [OF s1(2) s2(2) ls(1)] show ?case by blast
qed

lemma loop_block_new:
  assumes "\<forall>l\<in>set ls. header_line l" and "e = [] \<or> e = [rChar]"
  shows "\<exists>s'. loop (new_scanner (header_text ls e @ r) d) h err = (s', on_lines d body ls (h, err)) \<and>
              hs_b s' = r \<and> hs_err s' = None \<and> hs_after s' = [] \<and> length (hs_done s') = length (header_text ls e) \<and>
              hs_hLen s' = int (length (header_text ls e))"
proof -
  have "at_line (new_scanner (header_text ls e @ r) d)" by (simp add: at_line_def new_scanner_def)
  from loop_block [OF this _ assms, of r h err] show ?thesis by (auto simp: new_scanner_def behind_block_def)
qed

end

text \<open>The body of the loop over a trailer.\<close>

definition trailer_line :: "kv_slice \<Rightarrow> header_error option \<Rightarrow> bytes \<Rightarrow> bytes \<Rightarrow> kv_slice \<times> header_error option" where
  "trailer_line h err k v =
     (if length k > 0 then
        if IndexByte k CHR '' '' \<noteq> - 1 \<or> IndexByte k tChar \<noteq> - 1 then (h, Some (InvalidTrailerKey k))
        else if isBadTrailer k then (h, Some (ForbiddenTrailerKey k))
        else (appendArgBytes h k v argsHasValue, err)
      else (h, err))"

interpretation request_loop: header_loop request_headers_loop request_header_line
  by unfold_locales (simp_all add: request_headers_loop.simps split: prod.split)

interpretation response_loop: header_loop response_headers_loop response_header_line
  by unfold_locales (simp_all add: response_headers_loop.simps split: prod.split)

interpretation trailers: header_loop trailer_loop trailer_line
  by unfold_locales (simp_all add: trailer_loop.simps trailer_line_def)

text \<open>Two names that the checks for forbidden trailers were written for pass them.\<close>

lemma forbidden_trailers_accepted:
  "\<not> isBadTrailer strContentType" "\<not> isBadTrailer strProxyConnection"
  "isBadTrailer strContentLength" "isBadTrailer strTransferEncoding" "isBadTrailer strProxyAuthenticate"
  by code_simp+

end
