(* ===== verification/Header_Read.thy ===== *)
theory Header_Read
  imports Header_Lines
begin

text \<open>
  Reading headers and trailers from a connection (Read, readLoop, tryRead, ReadTrailer and
  tryReadTrailer of src/fasthttp/header.go).

  The reader is bufio.Reader of the standard library as the code uses it: a buffer of a fixed size,
  the pieces that the following reads of the connection deliver, and the error it ends with. The parsers
  rewrite the buffer in place, so a failed attempt leaves what it wrote for the next one.
\<close>

section \<open>The buffered reader\<close>

datatype conn_error = EOF | Timeout | OtherError bytes

datatype peek_error = ConnError conn_error | ErrBufferFull

record reader =
  rd_buf :: bytes
  rd_src :: "bytes list"
  rd_end :: conn_error
  rd_size :: nat

definition Buffered :: "reader \<Rightarrow> nat" where
  "Buffered r = length (rd_buf r)"

text \<open>What is still to come, as a measure: every read shortens it.\<close>

definition rd_left :: "reader \<Rightarrow> nat" where
  "rd_left r = sum_list (map (\<lambda>c. Suc (length c)) (rd_src r))"

text \<open>One read of the connection into the free part of the buffer.\<close>

definition fill :: "reader \<Rightarrow> conn_error option \<times> reader" where
  "fill r =
     (case rd_src r of
        [] \<Rightarrow> (Some (rd_end r), r)
      | c # cs \<Rightarrow>
          (let room = rd_size r - length (rd_buf r)
           in (None, r\<lparr>rd_buf := rd_buf r @ take room c,
                       rd_src := (if length c \<le> room then cs else drop room c # cs)\<rparr>)))"

function fill_loop :: "nat \<Rightarrow> reader \<Rightarrow> conn_error option \<times> reader" where
  "fill_loop n r =
     (if length (rd_buf r) < n \<and> length (rd_buf r) < rd_size r then
        (case fill r of (Some e, r') \<Rightarrow> (Some e, r') | (None, r') \<Rightarrow> fill_loop n r')
      else (None, r))"
  by pat_completeness auto
termination
  by (relation "measure (\<lambda>(n, r). rd_left r)")
    (auto simp: fill_def rd_left_def Let_def split: list.splits if_splits)

declare fill_loop.simps [simp del]

definition Peek :: "nat \<Rightarrow> reader \<Rightarrow> bytes \<times> peek_error option \<times> reader" where
  "Peek n r =
     (let (e, r) = fill_loop n r
      in if n > rd_size r then (rd_buf r, Some ErrBufferFull, r)
         else if length (rd_buf r) < n then
           (rd_buf r, Some (case e of Some c \<Rightarrow> ConnError c | None \<Rightarrow> ErrBufferFull), r)
         else (take n (rd_buf r), None, r))"

text \<open>mustDiscard panics when fewer bytes are buffered.\<close>

definition mustDiscard :: "int \<Rightarrow> reader \<Rightarrow> reader go" where
  "mustDiscard n r =
     (if 0 \<le> n \<and> n \<le> int (length (rd_buf r)) then Some (r\<lparr>rd_buf := drop (nat n) (rd_buf r)\<rparr>) else None)"

section \<open>Errors\<close>

text \<open>An error message that quotes the buffer keeps its size and, unless the secure mode hides it, the
  two ends of its contents.\<close>

datatype cause = ParseCause header_error | PeekCause peek_error | errSmallBuffer

datatype message_type = RequestType | ResponseType

datatype read_error =
  ReadEOF | ErrTimeout | ReadNeedMore | ErrNothingRead peek_error | ReadFailed peek_error
| HeaderErrorMsg message_type cause nat "(bytes \<times> bytes) option"
| ErrSmallBuffer "read_error option"

definition bufferSnippet :: "bytes \<Rightarrow> bytes \<times> bytes" where
  "bufferSnippet b =
     (let n = length b; start = 200; fin = int n - 200
      in if start \<ge> fin then (b, []) else (take (nat start) b, drop (nat fin) b))"

definition isOnlyCRLF :: "bytes \<Rightarrow> bool" where
  "isOnlyCRLF b \<longleftrightarrow> list_all (\<lambda>ch. ch = rChar \<or> ch = nChar) b"

definition headerErrorMsg :: "message_type \<Rightarrow> cause \<Rightarrow> bytes \<Rightarrow> bool \<Rightarrow> read_error" where
  "headerErrorMsg typ err b secureErrorLogMessage =
     HeaderErrorMsg typ err (length b) (if secureErrorLogMessage then None else Some (bufferSnippet b))"

definition headerError :: "message_type \<Rightarrow> peek_error option \<Rightarrow> header_error \<Rightarrow> bytes \<Rightarrow> bool \<Rightarrow> read_error" where
  "headerError typ err errParse b secureErrorLogMessage =
     (if errParse \<noteq> errNeedMore then headerErrorMsg typ (ParseCause errParse) b secureErrorLogMessage
      else case err of
             None \<Rightarrow> ReadNeedMore
           | Some e \<Rightarrow>
               if isOnlyCRLF b then ReadEOF
               else if e \<noteq> ErrBufferFull then headerErrorMsg typ (PeekCause e) b secureErrorLogMessage
               else ErrSmallBuffer (Some (headerErrorMsg typ errSmallBuffer b secureErrorLogMessage)))"

section \<open>Request headers\<close>

text \<open>The part of tryRead behind the peek, shared by the four copies of it: the parser runs on the whole
  buffer and rewrites it; on success the bytes it read are discarded.\<close>

definition parse_buffered ::
  "message_type \<Rightarrow> bool \<Rightarrow> peek_error option \<Rightarrow> (header_error + int) \<times> 'h \<times> bytes \<Rightarrow> reader \<Rightarrow>
     (read_error option \<times> 'h \<times> reader) go" where
  "parse_buffered typ secureErrorLogMessage err parsed r =
     (case parsed of (res, h, b) \<Rightarrow>
        (let r' = r\<lparr>rd_buf := b\<rparr>
         in case res of
              Inl e \<Rightarrow> Some (Some (headerError typ err e b secureErrorLogMessage), h, r')
            | Inr n \<Rightarrow> map_option (\<lambda>r''. (None, h, r'')) (mustDiscard n r')))"

definition RequestHeader_tryRead ::
  "RequestHeader \<Rightarrow> reader \<Rightarrow> nat \<Rightarrow> (read_error option \<times> RequestHeader \<times> reader) go" where
  "RequestHeader_tryRead h r n =
     (let h = RequestHeader_resetSkipNormalize h; (b, err, r) = Peek n r
      in if length b = 0 then
           (case err of
              Some (ConnError EOF) \<Rightarrow> Some (Some ReadEOF, h, r)
            | None \<Rightarrow> None
            | Some ErrBufferFull \<Rightarrow> Some (Some (ErrSmallBuffer None), h, r)
            | Some e \<Rightarrow> Some (Some (if n = 1 then ErrNothingRead e else ReadFailed e), h, r))
         else parse_buffered RequestType (q_secureErrorLogMessage h) err (RequestHeader_parse h (rd_buf r)) r)"

text \<open>Every turn of the loop that asks for more got all the bytes it peeked for.\<close>

lemma fill_progress:
  assumes "fill r = (None, r')" and "length (rd_buf r) < rd_size r"
  shows "rd_left r' < rd_left r" and "rd_size r' = rd_size r" and "rd_end r' = rd_end r"
    and "rd_buf r' @ concat (rd_src r') = rd_buf r @ concat (rd_src r)"
    and "length (rd_buf r) \<le> length (rd_buf r')" and "length (rd_buf r') \<le> rd_size r"
  using assms by (auto simp: fill_def rd_left_def Let_def split: list.splits if_splits)

lemma fill_loop_progress:
  assumes "fill_loop n r = (e, r')"
  shows "rd_left r' \<le> rd_left r \<and> (r' \<noteq> r \<longrightarrow> rd_left r' < rd_left r)"
  using assms
proof (induction n r arbitrary: e r' rule: fill_loop.induct)
  case (1 n r)
  show ?case
  proof (cases "length (rd_buf r) < n \<and> length (rd_buf r) < rd_size r")
    case True
    show ?thesis
    proof (cases "fill r")
      case (Pair e1 r1)
      then show ?thesis
      proof (cases e1)
        case None
        with 1 True Pair fill_progress(1) [of r r1] show ?thesis
          by (fastforce simp: fill_loop.simps [of n r])
      next
        case (Some c)
        with 1 True Pair show ?thesis
          by (auto simp: fill_loop.simps [of n r] fill_def Let_def split: list.splits)
      qed
    qed
  next
    case False
    with 1 show ?thesis by (auto simp: fill_loop.simps [of n r])
  qed
qed

lemma Peek_progress:
  assumes "Peek n r = (b, None, r')"
  shows "n \<le> length (rd_buf r')" and "rd_left r' \<le> rd_left r"
    and "length (rd_buf r) < n \<Longrightarrow> rd_left r' < rd_left r"
proof -
  obtain e where l: "fill_loop n r = (e, r')" "n \<le> length (rd_buf r')"
    using assms by (auto simp: Peek_def Let_def split: prod.splits if_splits)
  from fill_loop_progress [OF l(1)] l(2)
  show "n \<le> length (rd_buf r')" "rd_left r' \<le> rd_left r" "length (rd_buf r) < n \<Longrightarrow> rd_left r' < rd_left r"
    by auto
qed

lemma headerError_need_more: "headerError typ err e b s = ReadNeedMore \<Longrightarrow> err = None"
  by (auto simp: headerError_def headerErrorMsg_def split: if_splits option.splits)

lemma parse_buffered_need_more:
  "parse_buffered typ s err parsed r = Some (Some ReadNeedMore, h', r') \<Longrightarrow> err = None \<and> rd_left r' = rd_left r"
  by (auto simp: parse_buffered_def Let_def rd_left_def split: prod.splits sum.splits dest: headerError_need_more)

definition loop_measure :: "nat \<Rightarrow> reader \<Rightarrow> nat" where
  "loop_measure n r = 2 * rd_left r + (if n \<le> Buffered r then 1 else 0)"

lemma loop_measure_decreases:
  assumes "Peek n r = (b, None, r1)" and "rd_left r' = rd_left r1"
  shows "loop_measure (Suc (Buffered r')) r' < loop_measure n r"
  using Peek_progress [OF assms(1)] assms(2) by (auto simp: loop_measure_def Buffered_def)

lemma RequestHeader_tryRead_more:
  assumes "RequestHeader_tryRead h r n = Some (Some ReadNeedMore, h', r')"
  shows "loop_measure (Suc (Buffered r')) r' < loop_measure n r"
proof -
  obtain b err r1 where pk: "Peek n r = (b, err, r1)" by (cases "Peek n r") auto
  with assms obtain pr where "parse_buffered RequestType (q_secureErrorLogMessage h) err pr r1 = Some (Some ReadNeedMore, h', r')"
    by (auto simp: RequestHeader_tryRead_def RequestHeader_resetSkipNormalize_def Let_def
        split: if_splits option.splits peek_error.splits conn_error.splits)
  from parse_buffered_need_more [OF this] pk show ?thesis using loop_measure_decreases by blast
qed

function request_read_loop ::
  "RequestHeader \<Rightarrow> reader \<Rightarrow> nat \<Rightarrow> bool \<Rightarrow> (read_error option \<times> RequestHeader \<times> reader) go" where
  "request_read_loop h r n waitForMore =
     (case RequestHeader_tryRead h r n of
        None \<Rightarrow> None
      | Some (None, h', r') \<Rightarrow> Some (None, h', r')
      | Some (Some err, h', r') \<Rightarrow>
          (if \<not> waitForMore \<or> err \<noteq> ReadNeedMore then Some (Some err, RequestHeader_resetSkipNormalize h', r')
           else request_read_loop h' r' (Buffered r' + 1) waitForMore))"
  by pat_completeness auto
termination
  by (relation "measure (\<lambda>(h, r, n, w). loop_measure n r)") (auto intro: RequestHeader_tryRead_more)

declare request_read_loop.simps [simp del]

definition RequestHeader_readLoop :: "RequestHeader \<Rightarrow> reader \<Rightarrow> bool \<Rightarrow> (read_error option \<times> RequestHeader \<times> reader) go" where
  "RequestHeader_readLoop h r waitForMore = request_read_loop h r 1 waitForMore"

definition RequestHeader_Read :: "RequestHeader \<Rightarrow> reader \<Rightarrow> (read_error option \<times> RequestHeader \<times> reader) go" where
  "RequestHeader_Read h r = RequestHeader_readLoop h r True"

section \<open>Response headers\<close>

text \<open>What tryRead of responses and both tryReadTrailer do when nothing is buffered.\<close>

definition nothing_peeked :: "peek_error option \<Rightarrow> nat \<Rightarrow> read_error go" where
  "nothing_peeked err n =
     (case err of
        Some (ConnError Timeout) \<Rightarrow> Some ErrTimeout
      | _ \<Rightarrow>
          (if n = 1 \<or> err = Some (ConnError EOF) then Some ReadEOF
           else case err of
                  Some ErrBufferFull \<Rightarrow> Some (ErrSmallBuffer None)
                | Some e \<Rightarrow> Some (ReadFailed e)
                | None \<Rightarrow> None))"

definition ResponseHeader_tryRead ::
  "ResponseHeader \<Rightarrow> reader \<Rightarrow> nat \<Rightarrow> (read_error option \<times> ResponseHeader \<times> reader) go" where
  "ResponseHeader_tryRead h r n =
     (let h = ResponseHeader_resetSkipNormalize h; (b, err, r) = Peek n r
      in if length b = 0 then map_option (\<lambda>e. (Some e, h, r)) (nothing_peeked err n)
         else parse_buffered ResponseType (p_secureErrorLogMessage h) err
                (let (res, h, b) = ResponseHeader_parse h (rd_buf r) in (map_sum id int res, h, b)) r)"

lemma nothing_peeked_final: "nothing_peeked err n \<noteq> Some ReadNeedMore"
  by (auto simp: nothing_peeked_def split: option.splits peek_error.splits conn_error.splits)

lemma ResponseHeader_tryRead_more:
  assumes "ResponseHeader_tryRead h r n = Some (Some ReadNeedMore, h', r')"
  shows "loop_measure (Suc (Buffered r')) r' < loop_measure n r"
proof -
  obtain b err r1 where pk: "Peek n r = (b, err, r1)" by (cases "Peek n r") auto
  with assms obtain pr where "parse_buffered ResponseType (p_secureErrorLogMessage h) err pr r1 = Some (Some ReadNeedMore, h', r')"
    by (auto simp: ResponseHeader_tryRead_def ResponseHeader_resetSkipNormalize_def Let_def nothing_peeked_final
        split: if_splits)
  from parse_buffered_need_more [OF this] pk show ?thesis using loop_measure_decreases by blast
qed

function response_read_loop ::
  "ResponseHeader \<Rightarrow> reader \<Rightarrow> nat \<Rightarrow> (read_error option \<times> ResponseHeader \<times> reader) go" where
  "response_read_loop h r n =
     (case ResponseHeader_tryRead h r n of
        None \<Rightarrow> None
      | Some (None, h', r') \<Rightarrow> Some (None, h', r')
      | Some (Some err, h', r') \<Rightarrow>
          (if err \<noteq> ReadNeedMore then Some (Some err, ResponseHeader_resetSkipNormalize h', r')
           else response_read_loop h' r' (Buffered r' + 1)))"
  by pat_completeness auto
termination
  by (relation "measure (\<lambda>(h, r, n). loop_measure n r)") (auto intro: ResponseHeader_tryRead_more)

declare response_read_loop.simps [simp del]

definition ResponseHeader_Read :: "ResponseHeader \<Rightarrow> reader \<Rightarrow> (read_error option \<times> ResponseHeader \<times> reader) go" where
  "ResponseHeader_Read h r = response_read_loop h r 1"

section \<open>Trailers\<close>

text \<open>Both tryReadTrailer: a parse error at the end of the connection is reported as that end.\<close>

definition try_read_trailer ::
  "message_type \<Rightarrow> bool \<Rightarrow> (bytes \<Rightarrow> ((header_error + int) \<times> 'h \<times> bytes) go) \<Rightarrow> 'h \<Rightarrow> reader \<Rightarrow> nat \<Rightarrow>
     (read_error option \<times> 'h \<times> reader) go" where
  "try_read_trailer typ secureErrorLogMessage parse h r n =
     (let (b, err, r) = Peek n r
      in if length b = 0 then map_option (\<lambda>e. (Some e, h, r)) (nothing_peeked err n)
         else case parse (rd_buf r) of
                None \<Rightarrow> None
              | Some (Inl e, h', b') \<Rightarrow>
                  (if err = Some (ConnError EOF) then Some (Some ReadEOF, h', r\<lparr>rd_buf := b'\<rparr>)
                   else parse_buffered typ secureErrorLogMessage err (Inl e, h', b') r)
              | Some (Inr m, h', b') \<Rightarrow> parse_buffered typ secureErrorLogMessage err (Inr m, h', b') r)"

lemma try_read_trailer_more:
  assumes "try_read_trailer typ sec parse h r n = Some (Some ReadNeedMore, h', r')"
  shows "loop_measure (Suc (Buffered r')) r' < loop_measure n r"
proof -
  obtain b err r1 where pk: "Peek n r = (b, err, r1)" by (cases "Peek n r") auto
  with assms obtain pr where "parse_buffered typ sec err pr r1 = Some (Some ReadNeedMore, h', r')"
    by (auto simp: try_read_trailer_def Let_def nothing_peeked_final split: if_splits option.splits sum.splits)
  from parse_buffered_need_more [OF this] pk show ?thesis using loop_measure_decreases by blast
qed

definition RequestHeader_tryReadTrailer ::
  "RequestHeader \<Rightarrow> reader \<Rightarrow> nat \<Rightarrow> (read_error option \<times> RequestHeader \<times> reader) go" where
  "RequestHeader_tryReadTrailer h r n =
     try_read_trailer RequestType (q_secureErrorLogMessage h) (RequestHeader_parseTrailer h) h r n"

definition ResponseHeader_tryReadTrailer ::
  "ResponseHeader \<Rightarrow> reader \<Rightarrow> nat \<Rightarrow> (read_error option \<times> ResponseHeader \<times> reader) go" where
  "ResponseHeader_tryReadTrailer h r n =
     try_read_trailer ResponseType (p_secureErrorLogMessage h) (ResponseHeader_parseTrailer h) h r n"

function request_trailer_read_loop ::
  "RequestHeader \<Rightarrow> reader \<Rightarrow> nat \<Rightarrow> (read_error option \<times> RequestHeader \<times> reader) go" where
  "request_trailer_read_loop h r n =
     (case RequestHeader_tryReadTrailer h r n of
        None \<Rightarrow> None
      | Some (None, h', r') \<Rightarrow> Some (None, h', r')
      | Some (Some err, h', r') \<Rightarrow>
          (if err \<noteq> ReadNeedMore then Some (Some err, h', r')
           else request_trailer_read_loop h' r' (Buffered r' + 1)))"
  by pat_completeness auto
termination
  by (relation "measure (\<lambda>(h, r, n). loop_measure n r)")
    (auto simp: RequestHeader_tryReadTrailer_def intro: try_read_trailer_more)

declare request_trailer_read_loop.simps [simp del]

definition RequestHeader_ReadTrailer :: "RequestHeader \<Rightarrow> reader \<Rightarrow> (read_error option \<times> RequestHeader \<times> reader) go" where
  "RequestHeader_ReadTrailer h r = request_trailer_read_loop h r 1"

function response_trailer_read_loop ::
  "ResponseHeader \<Rightarrow> reader \<Rightarrow> nat \<Rightarrow> (read_error option \<times> ResponseHeader \<times> reader) go" where
  "response_trailer_read_loop h r n =
     (case ResponseHeader_tryReadTrailer h r n of
        None \<Rightarrow> None
      | Some (None, h', r') \<Rightarrow> Some (None, h', r')
      | Some (Some err, h', r') \<Rightarrow>
          (if err \<noteq> ReadNeedMore then Some (Some err, h', r')
           else response_trailer_read_loop h' r' (Buffered r' + 1)))"
  by pat_completeness auto
termination
  by (relation "measure (\<lambda>(h, r, n). loop_measure n r)")
    (auto simp: ResponseHeader_tryReadTrailer_def intro: try_read_trailer_more)

declare response_trailer_read_loop.simps [simp del]

definition ResponseHeader_ReadTrailer :: "ResponseHeader \<Rightarrow> reader \<Rightarrow> (read_error option \<times> ResponseHeader \<times> reader) go" where
  "ResponseHeader_ReadTrailer h r = response_trailer_read_loop h r 1"

end
