(* ===== verification/Header_Correct.thy ===== *)
theory Header_Correct
  imports Header_Read
begin

text \<open>
  Properties of the request and response headers: reading does not depend on how the connection cuts the
  bytes into pieces, printing and parsing are inverse to each other, values set by a program cannot break
  a header apart, and the framing of a body is never ambiguous.
\<close>

section \<open>The first line\<close>

definition first_line_text :: "bytes \<Rightarrow> bytes \<Rightarrow> bytes" where
  "first_line_text fl e = fl @ e @ [nChar]"

definition plain_line :: "bytes \<Rightarrow> bool" where
  "plain_line fl \<longleftrightarrow> fl \<noteq> [] \<and> nChar \<notin> set fl \<and> last fl \<noteq> rChar"

definition line_end :: "bytes \<Rightarrow> bool" where
  "line_end e \<longleftrightarrow> e = [] \<or> e = [rChar]"

lemma nextLine_text: "plain_line fl \<Longrightarrow> line_end e \<Longrightarrow> nextLine (first_line_text fl e @ x) = Inr (fl, x)"
proof -
  assume a: "plain_line fl" "line_end e"
  then have "nChar \<notin> set (fl @ e)" by (auto simp: plain_line_def line_end_def)
  from IndexByte_append [OF this, of x] a show ?thesis
    by (auto simp: nextLine_def first_line_text_def plain_line_def line_end_def nth_append last_conv_nth
        nat_add_distrib Let_def)
qed

lemma first_line_of_text:
  "plain_line fl \<Longrightarrow> line_end e \<Longrightarrow> first_line (first_line_text fl e @ x) = Inr (fl, x)"
  using nextLine_text [of fl e x] by (simp add: first_line.simps plain_line_def)

lemma request_first_line:
  assumes "plain_line fl" and "line_end e" and "RequestHeader_parseFirstLine h (first_line_text fl e @ x) = (Inr m, h1)"
  shows "m = length (first_line_text fl e)"
    and "RequestHeader_parseFirstLine h (first_line_text fl e @ y) = (Inr m, h1)"
  using assms first_line_of_text [OF assms(1,2)]
  by (auto simp: RequestHeader_parseFirstLine_def Let_def split: if_splits)

lemma response_first_line:
  assumes "plain_line fl" and "line_end e" and "ResponseHeader_parseFirstLine h (first_line_text fl e @ x) = (Inr m, h1)"
  shows "m = length (first_line_text fl e)"
    and "ResponseHeader_parseFirstLine h (first_line_text fl e @ y) = (Inr m, h1)"
  using assms first_line_of_text [OF assms(1,2)]
  by (auto simp: ResponseHeader_parseFirstLine_def Let_def split: if_splits prod.splits option.splits)

lemma first_line_incomplete: "nChar \<notin> set p \<Longrightarrow> first_line p = Inl errNeedMore"
  by (simp add: first_line.simps nextLine_def IndexByte_none)

section \<open>The raw header block\<close>

lemma raw_step:
  assumes "header_line l"
  shows "raw_loop n (l @ nChar # r) = raw_loop (n + length l + 1) r"
proof -
  have i: "IndexByte (l @ nChar # r) nChar = int (length l)"
    using assms IndexByte_append by (simp add: header_line_def)
  have "\<not> (length l + 1 = 2 \<and> (l @ nChar # r) ! 0 = rChar \<or> length l + 1 = 1)"
    using header_line_start [OF assms] by (cases l) auto
  then show ?thesis by (subst raw_loop.simps) (simp only: i Let_def; auto)
qed

lemma raw_loop_text:
  "\<forall>l\<in>set ls. header_line l \<Longrightarrow> line_end e \<Longrightarrow>
     raw_loop n (header_text ls e @ r) = Some (n + length (header_text ls e))"
proof (induction ls arbitrary: n)
  case Nil
  then show ?case
    by (subst raw_loop.simps) (auto simp: header_text_def line_end_def IndexByte_def)
next
  case (Cons l ls)
  with raw_step [of l n "header_text ls e @ r"] show ?case by (simp add: header_text_def)
qed

lemma first_occurrence:
  assumes "x @ c # y = a @ c # b" and "c \<notin> set x" and "c \<notin> set a"
  shows "x = a \<and> y = b"
  using assms takeWhile_neq_append [of c x y] takeWhile_neq_append [of c a b] by auto

lemma strict_prefix_line:
  assumes "strict_prefix q (a @ nChar # b)" and "nChar \<notin> set a"
  shows "nChar \<notin> set q \<or> (\<exists>q'. q = a @ nChar # q' \<and> strict_prefix q' b)"
proof (cases "nChar \<in> set q")
  case True
  then obtain x y where q: "q = x @ nChar # y" "nChar \<notin> set x" by (meson split_list_first)
  from assms(1) obtain z where z: "z \<noteq> []" "q @ z = a @ nChar # b" by (auto simp: strict_prefix_def prefix_def)
  with q have "x @ nChar # (y @ z) = a @ nChar # b" by simp
  from first_occurrence [OF this q(2) assms(2)] q z show ?thesis by (auto simp: strict_prefix_def prefix_def)
qed simp

lemma raw_loop_none: "nChar \<notin> set q \<Longrightarrow> raw_loop n q = None"
  by (subst raw_loop.simps) (simp add: IndexByte_none)

lemma strict_prefix_blank: "strict_prefix q (header_text [] e) \<Longrightarrow> line_end e \<Longrightarrow> nChar \<notin> set q"
  using strict_prefix_line [of q e "[]"] by (auto simp: header_text_def line_end_def)

lemma raw_loop_incomplete:
  "\<forall>l\<in>set ls. header_line l \<Longrightarrow> line_end e \<Longrightarrow> strict_prefix q (header_text ls e) \<Longrightarrow> raw_loop n q = None"
proof (induction ls arbitrary: n q)
  case Nil
  then show ?case using strict_prefix_blank raw_loop_none by blast
next
  case (Cons l ls)
  then have "strict_prefix q (l @ nChar # header_text ls e)" by (simp add: header_text_def)
  from strict_prefix_line [OF this] Cons.prems
  consider "nChar \<notin> set q" | q' where "q = l @ nChar # q'" "strict_prefix q' (header_text ls e)"
    by (auto simp: header_line_def)
  then show ?case
  proof cases
    case 2
    with Cons raw_step [of l n q'] show ?thesis by simp
  qed (simp add: raw_loop_none)
qed

text \<open>The bytes kept in rawHeaders: none when there is no header line.\<close>

definition raw_block :: "bytes list \<Rightarrow> bytes \<Rightarrow> bytes" where
  "raw_block ls e = (if ls = [] then [] else header_text ls e)"

lemma raw_first_line:
  assumes "header_line l"
  shows "readRawHeaders [] (l @ nChar # r) =
     (case raw_loop (length l + 1) r of
        None \<Rightarrow> ([], 0, Some errNeedMore) | Some m \<Rightarrow> (take m (l @ nChar # r), m, None))"
proof -
  have i: "IndexByte (l @ nChar # r) nChar = int (length l)"
    using assms IndexByte_append by (simp add: header_line_def)
  have "\<not> (int (length l) = 1 \<and> (l @ nChar # r) ! 0 = rChar \<or> int (length l) = 0)"
    using header_line_start [OF assms] by (cases l) auto
  then show ?thesis by (simp only: readRawHeaders_def i Let_def) (auto split: option.split)
qed

lemma readRawHeaders_text:
  assumes "\<forall>l\<in>set ls. header_line l" and "line_end e"
  shows "readRawHeaders [] (header_text ls e @ r) = (raw_block ls e, length (header_text ls e), None)"
proof (cases ls)
  case Nil
  with assms(2) show ?thesis
    by (auto simp: readRawHeaders_def header_text_def raw_block_def line_end_def IndexByte_def)
next
  case (Cons l ls')
  have "raw_loop (length l + 1) (header_text ls' e @ r) = Some (length l + 1 + length (header_text ls' e))"
    using Cons assms by (intro raw_loop_text) auto
  with Cons assms raw_first_line [of l "header_text ls' e @ r"] show ?thesis
    by (simp add: header_text_def raw_block_def)
qed

lemma readRawHeaders_incomplete:
  assumes "\<forall>l\<in>set ls. header_line l" and "line_end e" and "strict_prefix q (header_text ls e)"
  shows "\<exists>raw. readRawHeaders [] q = (raw, 0, Some errNeedMore)"
proof (cases "nChar \<in> set q")
  case True
  then obtain l ls' where ls: "ls = l # ls'" using strict_prefix_blank assms by (cases ls) blast+
  then have "strict_prefix q (l @ nChar # header_text ls' e)" using assms by (simp add: header_text_def)
  from strict_prefix_line [OF this] True ls assms(1) obtain q' where
    q: "q = l @ nChar # q'" "strict_prefix q' (header_text ls' e)" by (auto simp: header_line_def)
  with raw_loop_incomplete [of ls' e q'] ls assms raw_first_line [of l q'] show ?thesis by auto
qed (simp add: readRawHeaders_def IndexByte_none)

section \<open>Parsing a complete and an incomplete header\<close>

text \<open>The result of a parse by the reference reading of the lines.\<close>

definition request_of_lines :: "bool \<Rightarrow> RequestHeader \<Rightarrow> bytes list \<Rightarrow> (header_error + unit) \<times> RequestHeader" where
  "request_of_lines d h ls =
     (case on_lines d request_header_line ls (h\<lparr>q_contentLength := - 2\<rparr>, None) of
        (h, Some e) \<Rightarrow> (Inl e, h\<lparr>q_connectionClose := True\<rparr>)
      | (h, None) \<Rightarrow>
          (Inr (), let h = (if q_contentLength h < 0 then h\<lparr>q_contentLengthBytes := []\<rparr> else h)
                   in if q_noHTTP11 h \<and> \<not> q_connectionClose h
                      then h\<lparr>q_connectionClose :=
                               \<not> hasHeaderValue (nil_or (peekArgBytes (fst (q_h h)) strConnection)) strKeepAlive\<rparr>
                      else h))"

lemma parseHeaders_text:
  assumes "\<forall>l\<in>set ls. header_line l" and "line_end e"
  shows "\<exists>done. RequestHeader_parseHeaders h (header_text ls e @ r) =
           (map_sum id (\<lambda>u. int (length (header_text ls e))) (fst (request_of_lines (q_disableNormalizing h) h ls)),
            snd (request_of_lines (q_disableNormalizing h) h ls), done @ r) \<and>
           length done = length (header_text ls e)"
proof -
  from request_loop.loop_block_new [OF assms(1), of e r "q_disableNormalizing h" "h\<lparr>q_contentLength := - 2\<rparr>" None] assms(2)
  obtain s' where s': "request_headers_loop (new_scanner (header_text ls e @ r) (q_disableNormalizing h)) (h\<lparr>q_contentLength := - 2\<rparr>) None
      = (s', on_lines (q_disableNormalizing h) request_header_line ls (h\<lparr>q_contentLength := - 2\<rparr>, None))"
    "hs_b s' = r" "hs_err s' = None" "hs_after s' = []" "length (hs_done s') = length (header_text ls e)"
    "hs_hLen s' = int (length (header_text ls e))"
    by (auto simp: line_end_def)
  then show ?thesis
    by (intro exI [of _ "hs_done s'"])
      (auto simp: RequestHeader_parseHeaders_def request_headers_end_def request_of_lines_def hs_array_def Let_def
        split: prod.split option.split)
qed

lemma parse_text:
  assumes "\<forall>l\<in>set ls. header_line l" and "plain_line fl" and "line_end e1" and "line_end e"
    and "RequestHeader_parseFirstLine h (first_line_text fl e1 @ x) = (Inr m, h1)"
  defines "res \<equiv> request_of_lines (q_disableNormalizing h1) (h1\<lparr>q_rawHeaders := raw_block ls e\<rparr>) ls"
  shows "\<exists>done. RequestHeader_parse h (first_line_text fl e1 @ header_text ls e @ r) =
           (map_sum id (\<lambda>u. int (length (first_line_text fl e1 @ header_text ls e))) (fst res), snd res, done @ r) \<and>
           length done = length (first_line_text fl e1 @ header_text ls e)"
proof -
  from request_first_line [OF assms(2,3,5)] have m: "m = length (first_line_text fl e1)"
    and p: "RequestHeader_parseFirstLine h (first_line_text fl e1 @ header_text ls e @ r) = (Inr m, h1)" by blast+
  from parseHeaders_text [OF assms(1,4), of "h1\<lparr>q_rawHeaders := raw_block ls e\<rparr>" r] obtain d where
    d: "RequestHeader_parseHeaders (h1\<lparr>q_rawHeaders := raw_block ls e\<rparr>) (header_text ls e @ r) =
          (map_sum id (\<lambda>u. int (length (header_text ls e))) (fst res), snd res, d @ r)"
      "length d = length (header_text ls e)" by (auto simp: res_def)
  have "RequestHeader_parse h (first_line_text fl e1 @ header_text ls e @ r) =
      (map_sum id (\<lambda>n. int m + n) (map_sum id (\<lambda>u. int (length (header_text ls e))) (fst res)), snd res,
       first_line_text fl e1 @ d @ r)"
    using p m d(1) readRawHeaders_text [OF assms(1,4), of r] by (simp add: RequestHeader_parse_def)
  with d(2) m show ?thesis
    by (intro exI [of _ "first_line_text fl e1 @ d"]) (auto simp: sum.map_comp comp_def id_def)
qed

lemma reset_first_line:
  "RequestHeader_parseFirstLine h b = (res, h1) \<Longrightarrow>
     RequestHeader_resetSkipNormalize (h1\<lparr>q_rawHeaders := raw\<rparr>) = RequestHeader_resetSkipNormalize h"
  by (auto simp: RequestHeader_parseFirstLine_def RequestHeader_resetSkipNormalize_def Let_def
      split: if_splits sum.splits prod.splits)

lemma reset_raw: "RequestHeader_resetSkipNormalize (h\<lparr>q_rawHeaders := raw\<rparr>) = RequestHeader_resetSkipNormalize h"
  by (simp add: RequestHeader_resetSkipNormalize_def)

lemma parse_incomplete:
  assumes "\<forall>l\<in>set ls. header_line l" and "plain_line fl" and "line_end e1" and "line_end e"
    and "RequestHeader_parseFirstLine h (first_line_text fl e1 @ x) = (Inr m, h1)"
    and "strict_prefix p (first_line_text fl e1 @ header_text ls e)"
  shows "\<exists>h2. RequestHeader_parse h p = (Inl errNeedMore, h2, p) \<and>
              RequestHeader_resetSkipNormalize h2 = RequestHeader_resetSkipNormalize h"
proof -
  have nl: "nChar \<notin> set (fl @ e1)" using assms(2,3) by (auto simp: plain_line_def line_end_def)
  have "strict_prefix p ((fl @ e1) @ nChar # header_text ls e)" using assms(6) by (simp add: first_line_text_def)
  from strict_prefix_line [OF this nl] show ?thesis
  proof
    assume "nChar \<notin> set p"
    from first_line_incomplete [OF this] show ?thesis
      by (auto simp: RequestHeader_parse_def RequestHeader_parseFirstLine_def)
  next
    assume "\<exists>q. p = (fl @ e1) @ nChar # q \<and> strict_prefix q (header_text ls e)"
    then obtain q where q: "p = first_line_text fl e1 @ q" "strict_prefix q (header_text ls e)"
      by (auto simp: first_line_text_def)
    from readRawHeaders_incomplete [OF assms(1,4) q(2)] obtain raw where
      "readRawHeaders [] q = (raw, 0, Some errNeedMore)" by blast
    with request_first_line(1) [OF assms(2,3,5)] request_first_line(2) [OF assms(2,3,5), of q] q reset_first_line [OF assms(5), of raw] show ?thesis
      by (auto simp: RequestHeader_parse_def)
  qed
qed

section \<open>Reading in pieces\<close>

lemma fill_loop_enough:
  assumes "n \<le> rd_size r" and "n \<le> length (rd_buf r @ concat (rd_src r))"
  shows "\<exists>r'. fill_loop n r = (None, r') \<and> n \<le> length (rd_buf r') \<and> rd_size r' = rd_size r \<and>
              rd_buf r' @ concat (rd_src r') = rd_buf r @ concat (rd_src r)"
  using assms
proof (induction n r rule: fill_loop.induct)
  case (1 n r)
  show ?case
  proof (cases "length (rd_buf r) < n")
    case True
    with 1 have room: "length (rd_buf r) < rd_size r" by simp
    obtain r1 where r1: "fill r = (None, r1)" using True 1(3) by (cases "rd_src r") (auto simp: fill_def Let_def)
    note pr = fill_progress [OF r1 room]
    from "1.IH" [OF conjI [OF True room] r1 [symmetric]] 1(2,3) pr obtain r' where
      "fill_loop n r1 = (None, r')" "n \<le> length (rd_buf r')" "rd_size r' = rd_size r"
      "rd_buf r' @ concat (rd_src r') = rd_buf r @ concat (rd_src r)" by auto
    with True room r1 show ?thesis by (auto simp: fill_loop.simps [of n r])
  qed (simp add: fill_loop.simps [of n r])
qed

lemma Peek_enough:
  assumes "n \<le> rd_size r" and "n \<le> length (rd_buf r @ concat (rd_src r))"
  shows "\<exists>r'. Peek n r = (take n (rd_buf r'), None, r') \<and> n \<le> length (rd_buf r') \<and> rd_size r' = rd_size r \<and>
              rd_buf r' @ concat (rd_src r') = rd_buf r @ concat (rd_src r)"
  using fill_loop_enough [OF assms] assms(1) by (auto simp: Peek_def)

lemma shorter_prefix: "p @ x = w @ y \<Longrightarrow> length p < length w \<Longrightarrow> strict_prefix p w"
  by (auto simp: strict_prefix_def prefix_def append_eq_append_conv2)

lemma longer_prefix: "p @ x = w @ y \<Longrightarrow> \<not> length p < length w \<Longrightarrow> \<exists>z. p = w @ z \<and> z @ x = y"
  by (auto simp: append_eq_append_conv2)

text \<open>One attempt on what is buffered.\<close>

lemma tryRead_step:
  assumes "\<forall>l\<in>set ls. header_line l" and "plain_line fl" and "line_end e1" and "line_end e"
    and "RequestHeader_parseFirstLine (RequestHeader_resetSkipNormalize h) (first_line_text fl e1 @ x) = (Inr m, h1)"
    and peek: "Peek n r = (b, None, r1)" and b: "b \<noteq> []"
    and content: "rd_buf r1 @ concat (rd_src r1) = (first_line_text fl e1 @ header_text ls e) @ body"
    and ok: "fst (request_of_lines (q_disableNormalizing h1) (h1\<lparr>q_rawHeaders := raw_block ls e\<rparr>) ls) = Inr ()"
  shows "if length (rd_buf r1) < length (first_line_text fl e1 @ header_text ls e)
         then \<exists>h2. RequestHeader_tryRead h r n = Some (Some ReadNeedMore, h2, r1) \<and>
                   RequestHeader_resetSkipNormalize h2 = RequestHeader_resetSkipNormalize h
         else \<exists>r2. RequestHeader_tryRead h r n =
                     Some (None, snd (request_of_lines (q_disableNormalizing h1) (h1\<lparr>q_rawHeaders := raw_block ls e\<rparr>) ls), r2) \<and>
                   rd_buf r2 @ concat (rd_src r2) = body"
proof (cases "length (rd_buf r1) < length (first_line_text fl e1 @ header_text ls e)")
  case True
  then have "strict_prefix (rd_buf r1) (first_line_text fl e1 @ header_text ls e)"
    using content shorter_prefix by blast
  from parse_incomplete [OF assms(1-5) this] obtain h2 where
    "RequestHeader_parse (RequestHeader_resetSkipNormalize h) (rd_buf r1) = (Inl errNeedMore, h2, rd_buf r1)"
    "RequestHeader_resetSkipNormalize h2 = RequestHeader_resetSkipNormalize (RequestHeader_resetSkipNormalize h)" by blast
  with True peek b show ?thesis
    by (auto simp: RequestHeader_tryRead_def parse_buffered_def headerError_def RequestHeader_resetSkipNormalize_def cut0_def)
next
  case False
  then obtain b1 where b1: "rd_buf r1 = (first_line_text fl e1 @ header_text ls e) @ b1" "b1 @ concat (rd_src r1) = body"
    using content longer_prefix by blast
  from parse_text [OF assms(1-5), of b1] ok b1(1) obtain d where
    "RequestHeader_parse (RequestHeader_resetSkipNormalize h) (rd_buf r1) =
       (Inr (int (length (first_line_text fl e1 @ header_text ls e))),
        snd (request_of_lines (q_disableNormalizing h1) (h1\<lparr>q_rawHeaders := raw_block ls e\<rparr>) ls), d @ b1)"
    "length d = length (first_line_text fl e1 @ header_text ls e)" by auto
  with False peek b b1(2) show ?thesis
    by (auto simp: RequestHeader_tryRead_def parse_buffered_def mustDiscard_def)
qed

lemma read_loop_pieces:
  assumes "\<forall>l\<in>set ls. header_line l" and "plain_line fl" and "line_end e1" and "line_end e"
    and "RequestHeader_parseFirstLine (RequestHeader_resetSkipNormalize h0) (first_line_text fl e1 @ x) = (Inr m, h1)"
    and "fst (request_of_lines (q_disableNormalizing h1) (h1\<lparr>q_rawHeaders := raw_block ls e\<rparr>) ls) = Inr ()"
    and "RequestHeader_resetSkipNormalize h = RequestHeader_resetSkipNormalize h0"
    and "rd_buf r @ concat (rd_src r) = (first_line_text fl e1 @ header_text ls e) @ body"
    and "length (first_line_text fl e1 @ header_text ls e) \<le> rd_size r"
    and "1 \<le> n" and "n \<le> length (first_line_text fl e1 @ header_text ls e)"
  shows "\<exists>r'. request_read_loop h r n True =
                Some (None, snd (request_of_lines (q_disableNormalizing h1) (h1\<lparr>q_rawHeaders := raw_block ls e\<rparr>) ls), r') \<and>
              rd_buf r' @ concat (rd_src r') = body"
  using assms(7-11)
proof (induction h r n True rule: request_read_loop.induct)
  case (1 h r n)
  let ?H = "first_line_text fl e1 @ header_text ls e"
  have "n \<le> rd_size r" "n \<le> length (rd_buf r @ concat (rd_src r))" using 1(3-6) by (simp_all only: length_append)
  from Peek_enough [OF this] obtain r1 where r1: "Peek n r = (take n (rd_buf r1), None, r1)" "n \<le> length (rd_buf r1)"
    "rd_size r1 = rd_size r" "rd_buf r1 @ concat (rd_src r1) = ?H @ body" using 1(3) by auto
  have ne: "take n (rd_buf r1) \<noteq> []" using r1(2) 1(5) by auto
  have fl: "RequestHeader_parseFirstLine (RequestHeader_resetSkipNormalize h) (first_line_text fl e1 @ x) = (Inr m, h1)"
    using assms(5) 1(2) by simp
  have st: "if length (rd_buf r1) < length ?H
         then \<exists>h2. RequestHeader_tryRead h r n = Some (Some ReadNeedMore, h2, r1) \<and>
                   RequestHeader_resetSkipNormalize h2 = RequestHeader_resetSkipNormalize h
         else \<exists>r2. RequestHeader_tryRead h r n =
                     Some (None, snd (request_of_lines (q_disableNormalizing h1) (h1\<lparr>q_rawHeaders := raw_block ls e\<rparr>) ls), r2) \<and>
                   rd_buf r2 @ concat (rd_src r2) = body"
    by (rule tryRead_step [OF assms(1-4) fl r1(1) ne r1(4) assms(6)])
  show ?case
  proof (cases "length (rd_buf r1) < length ?H")
    case True
    with st obtain h2 where h2: "RequestHeader_tryRead h r n = Some (Some ReadNeedMore, h2, r1)"
      "RequestHeader_resetSkipNormalize h2 = RequestHeader_resetSkipNormalize h" by auto
    have "request_read_loop h r n True = request_read_loop h2 r1 (Suc (Buffered r1)) True"
      using h2(1) by (simp add: request_read_loop.simps [of h r n])
    moreover have "\<exists>r'. request_read_loop h2 r1 (Suc (Buffered r1)) True =
                Some (None, snd (request_of_lines (q_disableNormalizing h1) (h1\<lparr>q_rawHeaders := raw_block ls e\<rparr>) ls), r') \<and>
              rd_buf r' @ concat (rd_src r') = body"
      using "1.hyps" [OF h2(1)] h2(2) 1(2,4) r1(3,4) True by (auto simp: Buffered_def)
    ultimately show ?thesis by simp
  next
    case False
    with st show ?thesis by (auto simp: request_read_loop.simps [of h r n])
  qed
qed

lemma read_any_pieces:
  assumes "\<forall>l\<in>set ls. header_line l" and "plain_line fl" and "line_end e1" and "line_end e"
    and "rd_buf r @ concat (rd_src r) = (first_line_text fl e1 @ header_text ls e) @ body"
    and "length (first_line_text fl e1 @ header_text ls e) \<le> rd_size r"
    and "RequestHeader_parse (RequestHeader_resetSkipNormalize h) (rd_buf r @ concat (rd_src r)) = (Inr n, h', b')"
  shows "\<exists>r'. RequestHeader_Read h r = Some (None, h', r') \<and> rd_buf r' @ concat (rd_src r') = body"
proof -
  obtain m h1 where fl: "RequestHeader_parseFirstLine (RequestHeader_resetSkipNormalize h)
      (first_line_text fl e1 @ header_text ls e @ body) = (Inr m, h1)"
    using assms(5,7) by (auto simp: RequestHeader_parse_def split: sum.splits prod.splits)
  from parse_text [OF assms(1-4) fl, of body] assms(5,7)
  have "fst (request_of_lines (q_disableNormalizing h1) (h1\<lparr>q_rawHeaders := raw_block ls e\<rparr>) ls) = Inr ()"
    and "h' = snd (request_of_lines (q_disableNormalizing h1) (h1\<lparr>q_rawHeaders := raw_block ls e\<rparr>) ls)"
    by (auto simp: map_sum_def split: sum.splits)
  with read_loop_pieces [OF assms(1-4) fl _ refl assms(5,6), of 1] show ?thesis
    by (auto simp: RequestHeader_Read_def RequestHeader_readLoop_def first_line_text_def Suc_le_eq)
qed

text \<open>Claim C15: Reading a request header does not depend on how the connection delivers it. Let the bytes
  to come (in the buffer and in the pieces that later reads deliver, however they are cut) be a first line,
  header lines none of which continues the previous one, the blank line and a body, and let the buffer be
  large enough for the header. If parsing all of these bytes at once succeeds, then Read succeeds with the
  same header, and what is left to read is exactly the body.\<close>

theorem request_read_any_pieces:
  assumes "\<forall>l\<in>set ls. header_line l" and "plain_line fl" and "line_end e1" and "line_end e"
    and "rd_buf r @ concat (rd_src r) = (first_line_text fl e1 @ header_text ls e) @ body"
    and "length (first_line_text fl e1 @ header_text ls e) \<le> rd_size r"
    and "RequestHeader_parse (RequestHeader_resetSkipNormalize h) (rd_buf r @ concat (rd_src r)) = (Inr n, h', b')"
  shows "\<exists>r'. RequestHeader_Read h r = Some (None, h', r') \<and> rd_buf r' @ concat (rd_src r') = body"
  using assms by (rule read_any_pieces)

theorem request_read_any_pieces_witness:
  "\<exists>h' r'. RequestHeader_Read zero_request_header
       \<lparr>rd_buf = [], rd_src = [''GET /a HT'', ''TP/1.1'' @ [rChar], [nChar] @ ''Ho'', ''st: h'' @ [rChar, nChar, rChar], nChar # ''x'', ''y''],
        rd_end = EOF, rd_size = 4096\<rparr> = Some (None, h', r') \<and>
     q_host h' = ''h'' \<and> q_requestURI h' = ''/a'' \<and> rd_buf r' @ concat (rd_src r') = ''xy''"
proof -
  let ?t = "(first_line_text ''GET /a HTTP/1.1'' [rChar] @ header_text [''Host: h'' @ [rChar]] [rChar]) @ ''xy''"
  let ?p = "RequestHeader_parse (RequestHeader_resetSkipNormalize zero_request_header) ?t"
  let ?r = "\<lparr>rd_buf = [], rd_src = [''GET /a HT'', ''TP/1.1'' @ [rChar], [nChar] @ ''Ho'', ''st: h'' @ [rChar, nChar, rChar], nChar # ''x'', ''y''],
        rd_end = EOF, rd_size = 4096\<rparr>"
  have v: "(case ?p of (x, h', b') \<Rightarrow> x = Inr 28 \<and> q_host h' = ''h'' \<and> q_requestURI h' = ''/a'')"
    by code_simp
  have t: "rd_buf ?r @ concat (rd_src ?r) = ?t"
    by (simp add: first_line_text_def header_text_def)
  obtain n h' b' where p: "RequestHeader_parse (RequestHeader_resetSkipNormalize zero_request_header) (rd_buf ?r @ concat (rd_src ?r)) = (Inr n, h', b')"
    and h': "q_host h' = ''h''" "q_requestURI h' = ''/a''"
    using v unfolding t by (auto split: prod.splits)
  have l: "\<forall>l\<in>set [''Host: h'' @ [rChar]]. header_line l" "plain_line ''GET /a HTTP/1.1''" "line_end [rChar]"
    by (simp_all add: header_line_def plain_line_def line_end_def)
  have "length (first_line_text ''GET /a HTTP/1.1'' [rChar] @ header_text [''Host: h'' @ [rChar]] [rChar]) \<le> rd_size ?r"
    by (simp add: first_line_text_def header_text_def)
  from request_read_any_pieces [OF l l(3) t this p] h' show ?thesis by blast
qed

end
