(* ===== verification/Header_Safe.thy ===== *)
theory Header_Safe
  imports Header_Read
begin

text \<open>
  Reading a request header or a trailer never panics, whatever bytes arrive and however they are cut: the
  number of bytes to discard is never larger than what is buffered. The count of the scanner is right
  except behind a folded value with trailing spaces; there the rest starts with a space, and the next line
  cannot be accepted.
\<close>

definition aligned :: "headerScanner \<Rightarrow> bool" where
  "aligned s \<longleftrightarrow> hs_hLen s = int (length (hs_done s))"

definition misaligned :: "headerScanner \<Rightarrow> bool" where
  "misaligned s \<longleftrightarrow>
     initialized s \<and> nextColon s \<noteq> 0 \<and>
     (\<exists>sp r. hs_b s = CHR '' '' # sp @ nChar # r \<and> CHR '':'' \<notin> set sp \<and> nChar \<notin> set sp)"

lemma advance_aligned: "aligned s \<Longrightarrow> n \<le> length (hs_b s) \<Longrightarrow> aligned (advance n s)"
  by (simp add: aligned_def advance_def)

lemma IndexByte_nth: "0 \<le> IndexByte s c \<Longrightarrow> nat (IndexByte s c) < length s \<and> s ! nat (IndexByte s c) = c"
  using nth_length_takeWhile [of "\<lambda>x. x \<noteq> c" s] by (auto simp: IndexByte_def Let_def split: if_splits)

section \<open>The end of a folded value\<close>

lemma value_lines_end:
  assumes "value_lines b n multi = (m, multi', cn)" and "n < length b" and "b ! n = nChar"
    and "multi \<longrightarrow> nChar \<in> set (take n b)"
  shows "m < length b \<and> b ! m = nChar \<and> (multi' \<longrightarrow> nChar \<in> set (take m b)) \<and>
         (\<forall>c l. cn = Some (c, l) \<longrightarrow>
           0 < c \<and> 0 \<le> l \<and> nat (c + 1 + l) < length (drop (m + 1) b) \<and> drop (m + 1) b ! nat (c + 1 + l) = nChar)"
  using assms
proof (induction b n multi arbitrary: m multi' cn rule: value_lines.induct)
  case (1 b n multi)
  show ?case
  proof (cases "n + 1 \<ge> length b \<or> b ! (n + 1) \<noteq> CHR '' '' \<and> b ! (n + 1) \<noteq> tChar")
    case True
    with 1(2-5) show ?thesis by (subst (asm) value_lines.simps) (auto split: if_splits)
  next
    case False
    define d where "d = IndexByte (drop (n + 1) b) nChar"
    define e where "e = n + nat d + 1"
    define c where "c = IndexByte (slice (n + 1) e b) CHR '':''"
    have eq: "value_lines b n multi =
        (if d \<le> 0 \<or> d = 1 \<and> b ! (n + 1) = rChar then (n, multi, None)
         else if c \<ge> 0 then (n, multi, Some (c, d - c - 1)) else value_lines b e True)"
      using False by (subst value_lines.simps) (auto simp: Let_def d_def e_def c_def)
    show ?thesis
    proof (cases "d \<le> 0 \<or> d = 1 \<and> b ! (n + 1) = rChar")
      case True
      with 1(2-5) show ?thesis unfolding eq by auto
    next
      case pos: False
      then have "nChar \<in> set (drop (n + 1) b)" using IndexByte_negative [of "drop (n + 1) b" nChar] by (auto simp: d_def)
      then obtain xs ys where x: "drop (n + 1) b = xs @ nChar # ys" "d = int (length xs)"
        using IndexByte_split by (metis d_def)
      have xs: "slice (n + 1) e b = xs" "xs \<noteq> []" "hd xs = b ! (n + 1)"
        using x pos False nth_drop [of "n + 1" b 0] by (auto simp: slice_def e_def hd_conv_nth nth_append split: if_splits)
      have e: "e < length b" "b ! e = nChar"
        using x(2) arg_cong [OF x(1), of length] arg_cong [OF x(1), of "\<lambda>l. l ! length xs"] False
        by (auto simp: e_def add.commute)
      show ?thesis
      proof (cases "c \<ge> 0")
        case True
        then obtain ys zs where c: "xs = ys @ CHR '':'' # zs" "c = int (length ys)"
          using xs IndexByte_negative [of xs "CHR '':''"] IndexByte_split [of "CHR '':''" xs] by (metis c_def not_less)
        have "c \<noteq> 0" using c xs False by (cases ys) auto
        moreover have "nat (c + 1 + (d - c - 1)) = length xs" using x(2) by simp
        moreover have "length xs < length (drop (n + 1) b)" "drop (n + 1) b ! length xs = nChar" "length ys < length xs"
          by (simp_all only: x(1) nth_append_length) (simp_all add: c(1))
        ultimately show ?thesis using 1(2-5) True pos c(2) unfolding eq x(2) by auto
      next
        case False
        have vl: "value_lines b e True = (m, multi', cn)" using 1(2) False pos unfolding eq by auto
        have "nChar \<in> set (take e b)"
          using 1(3,4) e(1) by (auto simp: in_set_conv_nth e_def intro!: exI [of _ n])
        with e vl show ?thesis
          by (intro "1.IH" [OF _ _ d_def _ _ e_def c_def]) (use False pos \<open>\<not> (n + 1 \<ge> length b \<or> _)\<close> in auto)
      qed
    qed
  qed
qed

lemma trim_value_split:
  "\<exists>sp t. v = trim_value v @ sp @ t \<and> set sp \<subseteq> {CHR '' ''} \<and> (t = [] \<or> t = [rChar])"
proof -
  define v1 where "v1 = (if v \<noteq> [] \<and> last v = rChar then butlast v else v)"
  have "v = v1 @ (if v \<noteq> [] \<and> last v = rChar then [rChar] else [])"
    by (auto simp: v1_def) (metis append_butlast_last_id)
  moreover have "v1 = rev (dropWhile (\<lambda>c. c = CHR '' '') (rev v1)) @ rev (takeWhile (\<lambda>c. c = CHR '' '') (rev v1))"
    by (metis rev_append rev_rev_ident takeWhile_dropWhile_id)
  moreover have "trim_value v = rev (dropWhile (\<lambda>c. c = CHR '' '') (rev v1))" by (simp add: trim_value_def v1_def)
  ultimately show ?thesis
    by (intro exI [of _ "rev (takeWhile (\<lambda>c. c = CHR '' '') (rev v1))"] exI [of _ "if v \<noteq> [] \<and> last v = rChar then [rChar] else []"])
      (auto dest: set_takeWhileD)
qed

text \<open>Behind a folded value the scanner is at the next line, or it is misaligned.\<close>

lemma take_value_multi:
  assumes "m < length (hs_b s)" and "hs_b s ! m = nChar" and "aligned s" and "initialized s" and "nextColon s \<noteq> 0"
  shows "aligned (take_value m True s) \<and> hs_b (take_value m True s) = drop (m + 1) (hs_b s) \<or>
         misaligned (take_value m True s) \<or> trim_value (take m (hs_b s)) = []"
proof -
  define b where "b = hs_b s"
  define v where "v = trim_value (take m b)"
  obtain sp t where sp: "take m b = v @ sp @ t" "set sp \<subseteq> {CHR '' ''}" "t = [] \<or> t = [rChar]"
    using trim_value_split [of "take m b"] by (auto simp: v_def)
  define r where "r = drop (m + 1) b"
  have b: "b = v @ sp @ t @ nChar # r"
    using assms(1,2) sp(1) id_take_nth_drop [of m b] by (simp add: b_def [symmetric] r_def)
  obtain nv k where u: "unfold_loop v False = (nv, k)" by fastforce
  have len: "length nv + k = length v" using unfold_loop_length [OF u] .
  define w where "w = sp @ t @ nChar # r"
  have ob1: "drop (length nv + k) (nv @ drop (length nv) b) = w"
    using len b by (simp add: w_def)
  show ?thesis
  proof (cases "v = []")
    case False
    define z where "z = drop (length b - k) (nv @ drop (length nv) b)"
    define skip where "skip = (if (nv @ w @ z) ! length nv = rChar then (if (nv @ w @ z) ! (length nv + 1) = nChar then 2 else 1)
                    else if (nv @ w @ z) ! length nv = nChar then 1 else (0::nat))"
    have nrm: "normalizeHeaderValue v b h = (nv, length nv + skip, length b - k, h - int k, nv @ w @ z)" for h
      using False u ob1 by (simp add: normalizeHeaderValue_def skip_def z_def Let_def)
    have fin: "length b - k = length nv + length w" using b len by (simp add: w_def)
    have tv: "take_value m True s = s\<lparr>hs_done := hs_done s @ take (length nv + skip) (nv @ w @ z),
        hs_b := slice (length nv + skip) (length nv + length w) (nv @ w @ z),
        hs_after := drop (length nv + length w) (nv @ w @ z) @ hs_after s, hs_value := nv,
        hs_hLen := hs_hLen s + int m + 1 - int k\<rparr>"
      using nrm fin by (simp add: take_value_def b_def [symmetric] v_def [symmetric])
    have m: "m = length v + length sp + length t"
      using assms(1) arg_cong [OF sp(1), of length] by (simp add: b_def)
    show ?thesis
    proof (cases sp)
      case Nil
      then have "skip = length t + 1" using sp(3) by (auto simp: skip_def w_def nth_append)
      then have "aligned (take_value m True s)"
        unfolding tv using assms(3) m len Nil by (simp add: aligned_def w_def)
      moreover have "hs_b (take_value m True s) = drop (m + 1) (hs_b s)"
        unfolding tv using \<open>skip = length t + 1\<close> Nil by (simp add: slice_def w_def r_def b_def)
      ultimately show ?thesis by simp
    next
      case (Cons c sp')
      then have c: "c = CHR '' ''" using sp(2) by auto
      then have "skip = 0" using Cons by (simp add: skip_def w_def nth_append)
      then have "hs_b (take_value m True s) = CHR '' '' # (sp' @ t) @ nChar # r"
        using Cons c by (simp add: tv slice_def w_def)
      moreover have "CHR '':'' \<notin> set (sp' @ t)" "nChar \<notin> set (sp' @ t)" using sp Cons by auto
      ultimately have "misaligned (take_value m True s)"
        using assms(4,5) unfolding misaligned_def
        by (intro conjI exI [of _ "sp' @ t"] exI [of _ r]) (simp_all add: tv)
      then show ?thesis by simp
    qed
  qed (simp add: v_def b_def)
qed

section \<open>One call of the scanner\<close>

definition cache_ok :: "headerScanner \<Rightarrow> bool" where
  "cache_ok s \<longleftrightarrow>
     nextColon s < 0 \<and> nextNewLine s < 0 \<or>
     0 < nextColon s \<and> 0 \<le> nextNewLine s \<and> nat (nextColon s + 1 + nextNewLine s) < length (hs_b s) \<and>
     hs_b s ! nat (nextColon s + 1 + nextNewLine s) = nChar"

definition good :: "headerScanner \<Rightarrow> bool" where
  "good s \<longleftrightarrow> aligned s \<and> (initialized s \<longrightarrow> cache_ok s)"

lemma trim_value_newline: "nChar \<in> set v \<Longrightarrow> trim_value v \<noteq> []"
  using trim_value_split [of v] by (auto dest: arg_cong [of v _ set])

lemma take_value_fields [simp]:
  "initialized (take_value m multi s) = initialized s" "nextColon (take_value m multi s) = nextColon s"
  "nextNewLine (take_value m multi s) = nextNewLine s" "hs_err (take_value m multi s) = hs_err s"
  "hs_key (take_value m multi s) = hs_key s"
  by (simp_all add: take_value_def advance_def Let_def split: prod.split)

lemma take_value_single:
  assumes "m < length (hs_b s)"
  shows "hs_b (take_value m False s) = drop (m + 1) (hs_b s)" and "aligned s \<Longrightarrow> aligned (take_value m False s)"
  using assms by (simp_all add: take_value_def advance_def aligned_def)

lemma take_value_rest:
  assumes "m < length (hs_b s)" and "hs_b s ! m = nChar" and "aligned s" and "initialized s" and "nextColon s \<noteq> 0"
    and "multi \<longrightarrow> nChar \<in> set (take m (hs_b s))"
  shows "aligned (take_value m multi s) \<and> hs_b (take_value m multi s) = drop (m + 1) (hs_b s) \<or>
         misaligned (take_value m multi s)"
proof (cases multi)
  case True
  then have "trim_value (take m (hs_b s)) \<noteq> []" using assms(6) trim_value_newline by blast
  with True take_value_multi [OF assms(1-5)] show ?thesis by auto
next
  case False
  with take_value_single [OF assms(1)] assms(3) show ?thesis by simp
qed

lemma scan_value_good:
  assumes "aligned s" and "initialized s" and "nextColon s = - 1"
    and "nextNewLine s \<ge> 0 \<Longrightarrow> nat (nextNewLine s) < length (hs_b s) \<and> hs_b s ! nat (nextNewLine s) = nChar"
    and "scan_value s = (ok, s')"
  shows "if ok then good s' \<or> misaligned s' else hs_err s' \<noteq> None"
proof -
  define n where "n = (if nextNewLine s \<ge> 0 then nextNewLine s else IndexByte (hs_b s) nChar)"
  define t where "t = (if nextNewLine s \<ge> 0 then s\<lparr>nextNewLine := - 1\<rparr> else s)"
  have t: "hs_b t = hs_b s" "aligned t" "initialized t" "nextColon t = - 1" "nextNewLine t < 0"
    using assms(1-3) by (auto simp: t_def aligned_def)
  obtain m multi cn where vl: "value_lines (hs_b t) (nat n) False = (m, multi, cn)" by (metis prod_cases3)
  define u where "u = (case cn of None \<Rightarrow> t | Some (c, l) \<Rightarrow> t\<lparr>nextColon := c, nextNewLine := l\<rparr>)"
  have sv: "scan_value s =
      (if n < 0 then (False, t\<lparr>hs_err := Some errNeedMore\<rparr>)
       else if m \<ge> length (hs_b u) then (False, u\<lparr>hs_err := Some errNeedMore\<rparr>)
       else (True, take_value m multi u))"
    unfolding scan_value_def Let_def n_def [symmetric] t_def [symmetric] by (simp add: vl u_def split: option.split prod.split)
  show ?thesis
  proof (cases "n < 0")
    case True
    with sv assms(5) show ?thesis by auto
  next
    case False
    have "nat n < length (hs_b t) \<and> hs_b t ! nat n = nChar"
      using assms(4) False t(1) IndexByte_nth [of "hs_b s" nChar] by (auto simp: n_def split: if_splits)
    from value_lines_end [OF vl conjunct1 [OF this] conjunct2 [OF this]]
    have m: "m < length (hs_b t)" "hs_b t ! m = nChar" "multi \<longrightarrow> nChar \<in> set (take m (hs_b t))"
      and cn: "\<And>c l. cn = Some (c, l) \<Longrightarrow>
           0 < c \<and> 0 \<le> l \<and> nat (c + 1 + l) < length (drop (m + 1) (hs_b t)) \<and> drop (m + 1) (hs_b t) ! nat (c + 1 + l) = nChar"
      by auto
    have u: "hs_b u = hs_b t" "aligned u" "initialized u" "nextColon u \<noteq> 0"
      using t cn by (auto simp: u_def aligned_def split: option.split)
    have s': "ok" "s' = take_value m multi u" using sv assms(5) False m(1) u(1) by auto
    from take_value_rest [of m u multi] m u
    have "aligned s' \<and> hs_b s' = drop (m + 1) (hs_b t) \<or> misaligned s'" by (simp add: s'(2))
    moreover have "cache_ok s'" if "hs_b s' = drop (m + 1) (hs_b t)"
      using that t cn by (cases cn) (auto simp: cache_ok_def s'(2) u_def)
    ultimately show ?thesis using s'(1) by (auto simp: good_def)
  qed
qed

lemma takeWhile_le: "i < length xs \<Longrightarrow> \<not> P (xs ! i) \<Longrightarrow> length (takeWhile P xs) \<le> i"
  by (metis linorder_not_less nth_mem set_takeWhileD takeWhile_nth)

lemma find_colon_range:
  assumes "cache_ok s" and "find_colon s = Inr n"
  shows "n < length (hs_b s)" and "nextNewLine s \<ge> 0 \<Longrightarrow> nextColon s = int n"
  using assms IndexByte_nth [of "hs_b s" "CHR '':''"]
  by (auto simp: find_colon_def cache_ok_def Let_def split: if_splits)

lemma scan_key_good:
  assumes "aligned s" and "cache_ok s" and "find_colon s = Inr n"
  shows "aligned (scan_key n s)"
    and "nextNewLine (scan_key n s) \<ge> 0 \<Longrightarrow>
           nat (nextNewLine (scan_key n s)) < length (hs_b (scan_key n s)) \<and>
           hs_b (scan_key n s) ! nat (nextNewLine (scan_key n s)) = nChar"
proof -
  define sp where "sp = length (takeWhile (\<lambda>c. c = CHR '' '') (drop (n + 1) (hs_b s)))"
  have n: "n < length (hs_b s)" using find_colon_range [OF assms(2,3)] by simp
  have dr: "drop (n + 1) (normalizeHeaderKey (take n (hs_b s)) d @ drop n (hs_b s)) = drop (n + 1) (hs_b s)" for d
    using n by simp
  have sk: "hs_b (scan_key n s) = drop (n + 1 + sp) (hs_b s)" "nextNewLine (scan_key n s) = nextNewLine s - int sp"
    using n dr by (simp_all add: scan_key_def Let_def advance_def sp_def add.commute)
  have sp: "n + 1 + sp \<le> length (hs_b s)"
    using n length_takeWhile_le [of "\<lambda>c. c = CHR '' ''" "drop (n + 1) (hs_b s)"] by (simp add: sp_def)
  show "aligned (scan_key n s)"
    using assms(1) n sp by (simp add: scan_key_def Let_def advance_def aligned_def sp_def)
  assume nl: "nextNewLine (scan_key n s) \<ge> 0"
  then have c: "nextColon s = int n" "nextNewLine s \<ge> 0" using find_colon_range [OF assms(2,3)] sk(2) by auto
  with assms(2) have at: "n + 1 + nat (nextNewLine s) < length (hs_b s)" "hs_b s ! (n + 1 + nat (nextNewLine s)) = nChar"
    by (auto simp: cache_ok_def nat_add_distrib)
  show "nat (nextNewLine (scan_key n s)) < length (hs_b (scan_key n s)) \<and>
           hs_b (scan_key n s) ! nat (nextNewLine (scan_key n s)) = nChar"
    using nl at sp by (simp add: sk nat_diff_distrib' add.commute)
qed

lemma next_good:
  assumes "good s" and "headerScanner_next s = (ok, s')"
  shows "if ok then good s' \<or> misaligned s' else hs_err s' \<noteq> None \<or> aligned s'"
proof -
  define t where "t = (if \<not> initialized s then s\<lparr>nextColon := - 1, nextNewLine := - 1, initialized := True\<rparr> else s)"
  have t: "aligned t" "initialized t" "cache_ok t"
    using assms(1) by (auto simp: t_def good_def aligned_def cache_ok_def)
  have nx: "headerScanner_next s =
     (if length (hs_b t) \<ge> 2 \<and> hs_b t ! 0 = rChar \<and> hs_b t ! 1 = nChar then (False, advance 2 t)
         else if length (hs_b t) \<ge> 1 \<and> hs_b t ! 0 = nChar then (False, advance 1 t)
         else case find_colon t of
                Inl e \<Rightarrow> (False, t\<lparr>hs_err := Some e\<rparr>)
              | Inr n \<Rightarrow> scan_value (scan_key n t))"
    unfolding headerScanner_next_def Let_def t_def [symmetric] by simp
  show ?thesis
  proof (cases "find_colon t")
    case (Inl e)
    with assms(2) t(1) show ?thesis unfolding nx by (auto split: if_splits intro: advance_aligned)
  next
    case (Inr n)
    have u: "initialized (scan_key n t)" "nextColon (scan_key n t) = - 1" using t(2)
      by (simp_all add: scan_key_def Let_def advance_def)
    from scan_value_good [OF scan_key_good(1) [OF t(1,3) Inr] u scan_key_good(2) [OF t(1,3) Inr]] assms(2) t(1) Inr
    show ?thesis unfolding nx by (auto split: if_splits intro: advance_aligned)
  qed
qed

lemma next_misaligned:
  assumes "misaligned s" and "headerScanner_next s = (ok, s')"
  shows "if ok then CHR '' '' \<in> set (hs_key s') else hs_err s' \<noteq> None"
proof -
  from assms(1) obtain sp r where b: "hs_b s = CHR '' '' # sp @ nChar # r" "CHR '':'' \<notin> set sp" "nChar \<notin> set sp"
    and s: "initialized s" "nextColon s \<noteq> 0" by (auto simp: misaligned_def)
  have nx: "headerScanner_next s = (case find_colon s of
                Inl e \<Rightarrow> (False, s\<lparr>hs_err := Some e\<rparr>)
              | Inr n \<Rightarrow> scan_value (scan_key n s))"
    using s(1) b(1) by (simp add: headerScanner_next_def)
  have x: "IndexByte (hs_b s) nChar = int (length (CHR '' '' # sp))"
    using IndexByte_append [of nChar "CHR '' '' # sp" r] b by simp
  have colon: "IndexByte (hs_b s) CHR '':'' < 0 \<or> IndexByte (hs_b s) CHR '':'' > int (length (CHR '' '' # sp))"
  proof (rule ccontr)
    define n where "n = nat (IndexByte (hs_b s) CHR '':'')"
    assume a: "\<not> ?thesis"
    then have "hs_b s ! n = CHR '':''" "n \<le> length (CHR '' '' # sp)"
      using IndexByte_nth [of "hs_b s" "CHR '':''"] by (auto simp: n_def)
    moreover have "hs_b s = (CHR '' '' # sp @ [nChar]) @ r" using b by simp
    ultimately have "CHR '':'' \<in> set (CHR '' '' # sp @ [nChar])"
      by (metis in_set_conv_nth le_imp_less_Suc length_append_singleton append_Cons nth_append)
    with b(2) show False by simp
  qed
  show ?thesis
  proof (cases "find_colon s")
    case (Inl e)
    with nx assms(2) show ?thesis by simp
  next
    case (Inr n)
    with x colon s(2) have n: "0 < n" by (auto simp: find_colon_def Let_def split: if_splits)
    have key: "hs_key (scan_key n s) = normalizeHeaderKey (take n (hs_b s)) (hs_disableNormalizing s)"
      by (simp add: scan_key_def Let_def advance_def)
    have "CHR '' '' \<in> set (hs_key (scan_key n s))"
      using n b(1) unfolding key by (simp add: normalizeHeaderKey_mem take_Cons')
    with nx Inr assms(2) show ?thesis
      by (auto simp: scan_value_def Let_def split: if_splits prod.splits option.splits)
  qed
qed

section \<open>The loops that reject names with spaces\<close>

locale strict_header_loop = header_loop loop body
  for loop :: "headerScanner \<Rightarrow> 'h \<Rightarrow> 'x option \<Rightarrow> headerScanner \<times> 'h \<times> 'x option"
    and body :: "'h \<Rightarrow> 'x option \<Rightarrow> bytes \<Rightarrow> bytes \<Rightarrow> 'h \<times> 'x option" +
  assumes sticky: "err \<noteq> None \<Longrightarrow> snd (body h err k v) \<noteq> None"
    and spaced: "CHR '' '' \<in> set k \<Longrightarrow> snd (body h err k v) \<noteq> None"
begin

lemma loop_error:
  "err \<noteq> None \<or> misaligned s \<Longrightarrow> loop s h err = (s', h', err') \<Longrightarrow> err' \<noteq> None \<or> hs_err s' \<noteq> None"
proof (induction "length (hs_b s)" arbitrary: s h err rule: less_induct)
  case less
  obtain ok t where t: "headerScanner_next s = (ok, t)" by fastforce
  show ?case
  proof (cases ok)
    case True
    obtain h1 err1 where b: "body h err (hs_key t) (hs_value t) = (h1, err1)" by fastforce
    have "err1 \<noteq> None"
      using less.prems(1) sticky [of err h "hs_key t" "hs_value t"] spaced [of "hs_key t" h err "hs_value t"] next_misaligned [of s ok t] t True b
      by auto
    with less.hyps [of t err1 h1] less.prems(2) t True b headerScanner_next_shorter [of s t] show ?thesis
      by (auto simp: loop_more)
  next
    case False
    with t less.prems next_misaligned [of s ok t] show ?thesis by (auto simp: loop_stop)
  qed
qed

lemma loop_aligned:
  "good s \<Longrightarrow> loop s h err = (s', h', None) \<Longrightarrow> hs_err s' = None \<Longrightarrow> aligned s'"
proof (induction "length (hs_b s)" arbitrary: s h err rule: less_induct)
  case less
  obtain ok t where t: "headerScanner_next s = (ok, t)" by fastforce
  note nx = next_good [OF less.prems(1) t]
  show ?case
  proof (cases ok)
    case True
    obtain h1 err1 where b: "body h err (hs_key t) (hs_value t) = (h1, err1)" by fastforce
    have l: "loop t h1 err1 = (s', h', None)" using less.prems(2) t True b by (simp add: loop_more)
    have "good t" using nx True l less.prems(3) loop_error [of err1 t h1] by auto
    from less.hyps [OF _ this l less.prems(3)] headerScanner_next_shorter [of s t] t True show ?thesis by simp
  next
    case False
    with t nx less.prems show ?thesis by (auto simp: loop_stop)
  qed
qed

lemma loop_count:
  assumes "loop (new_scanner b d) h None = (s', h', None)" and "hs_err s' = None"
  shows "0 \<le> hs_hLen s' \<and> hs_hLen s' \<le> int (length (hs_array s'))"
proof -
  have "good (new_scanner b d)" by (simp add: good_def new_scanner_def aligned_def)
  from loop_aligned [OF this assms] show ?thesis by (simp add: aligned_def hs_array_def)
qed

end

lemma IndexByte_mem: "IndexByte k c \<noteq> - 1 \<longleftrightarrow> c \<in> set k"
  using IndexByte_negative [of k c] IndexByte_ge [of k c] by auto

interpretation request_strict: strict_header_loop request_headers_loop request_header_line
proof unfold_locales
  fix err :: "header_error option" and h k v
  show "err \<noteq> None \<Longrightarrow> snd (request_header_line h err k v) \<noteq> None"
    by (auto simp: request_header_line_def Let_def split: option.split prod.split)
  show "CHR '' '' \<in> set k \<Longrightarrow> snd (request_header_line h err k v) \<noteq> None"
    by (auto simp: request_header_line_def Let_def IndexByte_mem)
qed

interpretation trailer_strict: strict_header_loop trailer_loop trailer_line
  by unfold_locales (auto simp: trailer_line_def IndexByte_mem)

section \<open>No panic\<close>

lemma parseHeaders_count:
  assumes "RequestHeader_parseHeaders h b = (Inr n, h', b')"
  shows "0 \<le> n \<and> n \<le> int (length b')"
proof -
  obtain s h1 err where l: "request_headers_loop (new_scanner b (q_disableNormalizing h)) (h\<lparr>q_contentLength := - 2\<rparr>) None = (s, h1, err)"
    by (metis prod_cases3)
  with assms have "err = None" "hs_err s = None" "n = hs_hLen s" "b' = hs_array s"
    by (auto simp: RequestHeader_parseHeaders_def request_headers_end_def Let_def split: option.splits prod.splits)
  with request_strict.loop_count [of b "q_disableNormalizing h" _ s h1] l show ?thesis by simp
qed

lemma parse_count:
  assumes "RequestHeader_parse h b = (Inr n, h', b')"
  shows "0 \<le> n \<and> n \<le> int (length b')"
proof -
  obtain m h1 where m: "RequestHeader_parseFirstLine h b = (Inr m, h1)"
    using assms by (auto simp: RequestHeader_parse_def split: sum.splits prod.splits)
  then have "m \<le> length b" by (auto simp: RequestHeader_parseFirstLine_def Let_def split: sum.splits prod.splits if_splits)
  with assms m parseHeaders_count show ?thesis
    by (fastforce simp: RequestHeader_parse_def Let_def map_sum_def split: sum.splits prod.splits option.splits)
qed

lemma trailer_count:
  assumes "parse_trailer d h b = Some (h', Inr n, b')"
  shows "0 \<le> n \<and> n \<le> int (length b')"
proof -
  define sk where "sk = (if b ! 0 = CHR ''0'' then take (length strCRLF + 1) b else [])"
  obtain s h1 err where l: "trailer_loop (new_scanner (drop (length sk) b) d) h None = (s, h1, err)" by (metis prod_cases3)
  with assms have "err = None" "hs_err s = None" "n = hs_hLen s" "b' = sk @ hs_array s"
    by (auto simp: parse_trailer_def Let_def sk_def split: option.splits prod.splits if_splits)
  with trailer_strict.loop_count [of "drop (length sk) b" d h s h1] l show ?thesis by simp
qed

lemma parse_buffered_total:
  assumes "\<And>n h b. parsed = (Inr n, h, b) \<Longrightarrow> 0 \<le> n \<and> n \<le> int (length b)"
  shows "parse_buffered typ sec err parsed r \<noteq> None"
  using assms by (auto simp: parse_buffered_def mustDiscard_def Let_def split: prod.split sum.split)

lemma Peek_empty: "Peek n r = ([], err, r') \<Longrightarrow> 1 \<le> n \<Longrightarrow> err \<noteq> None"
  by (auto simp: Peek_def Let_def split: prod.splits if_splits)

lemma tryRead_total: "1 \<le> n \<Longrightarrow> RequestHeader_tryRead h r n \<noteq> None"
proof -
  assume n: "1 \<le> n"
  obtain b err r1 where p: "Peek n r = (b, err, r1)" by (metis prod_cases3)
  show ?thesis
  proof (cases "b = []")
    case True
    with p n Peek_empty [of n r err r1] show ?thesis
      by (auto simp: RequestHeader_tryRead_def Let_def split: option.split peek_error.split conn_error.split)
  next
    case False
    have "parse_buffered RequestType sec err (RequestHeader_parse h1 (rd_buf r1)) r1 \<noteq> None" for sec h1
      by (rule parse_buffered_total) (rule parse_count)
    with False p show ?thesis by (simp add: RequestHeader_tryRead_def Let_def del: not_None_eq)
  qed
qed

text \<open>Reading a request header never panics: for every state of the header, every content of the buffer, every
  sequence of pieces the connection delivers and every error it ends with, the read loop returns.\<close>

lemma request_read_loop_total: "1 \<le> n \<Longrightarrow> request_read_loop h r n w \<noteq> None"
proof (induction h r n w rule: request_read_loop.induct)
  case (1 h r n w)
  obtain x where x: "RequestHeader_tryRead h r n = Some x" using tryRead_total [OF 1(2), of h r] by auto
  with 1(1) show ?case
    by (cases x) (auto simp: request_read_loop.simps [of h r n w] split: option.split)
qed

lemma request_header_total: "RequestHeader_readLoop h r w \<noteq> None" "RequestHeader_Read h r \<noteq> None"
  using request_read_loop_total [of 1 h r] by (simp_all add: RequestHeader_Read_def RequestHeader_readLoop_def del: not_None_eq)

lemma nothing_peeked_total: "err \<noteq> None \<Longrightarrow> nothing_peeked err n \<noteq> None"
  by (auto simp: nothing_peeked_def split: option.split peek_error.split conn_error.split)

lemma try_read_trailer_total:
  assumes "1 \<le> n" and "\<And>b. b \<noteq> [] \<Longrightarrow> parse b \<noteq> None"
    and "\<And>b m h b'. parse b = Some (Inr m, h, b') \<Longrightarrow> 0 \<le> m \<and> m \<le> int (length b')"
  shows "try_read_trailer typ sec parse h r n \<noteq> None"
proof -
  obtain b err r1 where p: "Peek n r = (b, err, r1)" by (metis prod_cases3)
  show ?thesis
  proof (cases "b = []")
    case True
    with p assms(1) Peek_empty [of n r err r1] nothing_peeked_total [of err n] show ?thesis
      by (auto simp: try_read_trailer_def)
  next
    case False
    then have "rd_buf r1 \<noteq> []" using p by (auto simp: Peek_def Let_def split: prod.splits if_splits)
    with assms(2) obtain res h' b' where q: "parse (rd_buf r1) = Some (res, h', b')" by (metis not_None_eq prod_cases3)
    have "parse_buffered typ sec err (res, h', b') r1 \<noteq> None"
      by (rule parse_buffered_total) (use q assms(3) in auto)
    with False p q show ?thesis by (auto simp: try_read_trailer_def split: sum.split)
  qed
qed

lemma parse_trailer_total: "b \<noteq> [] \<Longrightarrow> parse_trailer d h b \<noteq> None"
  by (auto simp: parse_trailer_def Let_def split: prod.split)

lemma request_trailer_no_panic: "RequestHeader_ReadTrailer h r \<noteq> None"
proof -
  have tr: "1 \<le> n \<Longrightarrow> RequestHeader_tryReadTrailer h r n \<noteq> None" for n h r
    unfolding RequestHeader_tryReadTrailer_def RequestHeader_parseTrailer_def
    by (intro try_read_trailer_total) (auto simp: parse_trailer_total dest: trailer_count)
  have "1 \<le> n \<Longrightarrow> request_trailer_read_loop h r n \<noteq> None" for n
  proof (induction h r n rule: request_trailer_read_loop.induct)
    case (1 h r n)
    obtain x where "RequestHeader_tryReadTrailer h r n = Some x" using tr [OF 1(2), of h r] by auto
    with 1(1) show ?case
      by (cases x) (auto simp: request_trailer_read_loop.simps [of h r n] split: option.split)
  qed
  then show ?thesis by (simp add: RequestHeader_ReadTrailer_def)
qed

lemma response_trailer_no_panic: "ResponseHeader_ReadTrailer h r \<noteq> None"
proof -
  have tr: "1 \<le> n \<Longrightarrow> ResponseHeader_tryReadTrailer h r n \<noteq> None" for n h r
    unfolding ResponseHeader_tryReadTrailer_def ResponseHeader_parseTrailer_def
    by (intro try_read_trailer_total) (auto simp: parse_trailer_total dest: trailer_count)
  have "1 \<le> n \<Longrightarrow> response_trailer_read_loop h r n \<noteq> None" for n
  proof (induction h r n rule: response_trailer_read_loop.induct)
    case (1 h r n)
    obtain x where "ResponseHeader_tryReadTrailer h r n = Some x" using tr [OF 1(2), of h r] by auto
    with 1(1) show ?case
      by (cases x) (auto simp: response_trailer_read_loop.simps [of h r n] split: option.split)
  qed
  then show ?thesis by (simp add: ResponseHeader_ReadTrailer_def)
qed

section \<open>Folded values\<close>


text \<open>The response parser counts the bytes from the other end and loses the first bytes of the body; a
  response that arrives in two pieces ends at a stale blank line, its Content-Length becomes part of the body.\<close>

lemma folded_response_value:
  "case ResponseHeader_Read zero_response_header
     \<lparr>rd_buf = [], rd_src = [''HTTP/1.1 200 OK'' @ strCRLF @ ''A: b'' @ strCRLF @ '' c'' @ strCRLF @ ''X: y'' @ strCRLF,
        ''Content-Length: 5'' @ strCRLF @ strCRLF @ ''hello''], rd_end = EOF, rd_size = 4096\<rparr> of
     Some (None, h, r) \<Rightarrow> p_contentLength h = - 2 \<and>
       rd_buf r = ''Content-Length: 5'' @ strCRLF @ strCRLF @ ''hello'' \<and> rd_src r = []
   | _ \<Rightarrow> False"
  by code_simp

lemma folded_response_body:
  "case ResponseHeader_Read zero_response_header
     \<lparr>rd_buf = [], rd_src = [''HTTP/1.1 200 OK'' @ strCRLF @ ''A: b'' @ strCRLF @ '' c'' @ strCRLF @
        ''Content-Length: 5'' @ strCRLF @ strCRLF @ ''hello''], rd_end = EOF, rd_size = 4096\<rparr> of
     Some (None, h, r) \<Rightarrow> p_contentLength h = 5 \<and> rd_buf r = ''llolo'' \<and> rd_src r = []
   | _ \<Rightarrow> False"
  by code_simp

text \<open>With a space behind the folded value the complete header is taken for an incomplete one.\<close>

lemma folded_value_trailing_space:
  "fst (RequestHeader_parse zero_request_header
     (''GET / HTTP/1.1'' @ strCRLF @ ''A: b'' @ strCRLF @ '' c '' @ strCRLF @ strCRLF)) = Inl errNeedMore"
  by code_simp

end
