(* ===== verification/Header_Text.thy ===== *)
theory Header_Text
  imports Header_Correct
begin

text \<open>
  The text of a header. A value that a program sets cannot break the header apart: the text consists of
  non-empty lines and one blank line at its end, whatever the values are. And what a request prints is what
  the parser reads back.
\<close>

section \<open>Bytes without line ends\<close>

definition one_line :: "bytes \<Rightarrow> bool" where
  "one_line b \<longleftrightarrow> rChar \<notin> set b \<and> nChar \<notin> set b"

lemma one_line_simps [simp]:
  "one_line []" "one_line (a @ b) \<longleftrightarrow> one_line a \<and> one_line b"
  "one_line (c # b) \<longleftrightarrow> c \<noteq> rChar \<and> c \<noteq> nChar \<and> one_line b"
  by (auto simp: one_line_def)

lemma one_line_take [simp]: "one_line b \<Longrightarrow> one_line (take n b)" "one_line b \<Longrightarrow> one_line (drop n b)"
  by (auto simp: one_line_def dest: in_set_takeD in_set_dropD)

lemma one_line_key [simp]: "one_line (normalizeHeaderKey k d) = one_line k"
  by (simp add: one_line_def normalizeHeaderKey_mem)

lemma one_line_strip [simp]: "one_line b \<Longrightarrow> one_line (stripSpace b)"
  by (auto simp: one_line_def stripSpace_def dest!: set_dropWhileD)

lemma take_blank: "rChar \<notin> set (take n v) \<Longrightarrow> nChar \<notin> set (take n v) \<Longrightarrow> map blank_newline (take n v) = take n v"
  by (auto simp: blank_newline_def intro!: map_idI)

lemma IndexByte_before: "int n \<le> IndexByte v c \<Longrightarrow> c \<notin> set (take n v)"
proof (cases "c \<in> set v")
  case True
  assume "int n \<le> IndexByte v c"
  moreover from True obtain xs ys where "v = xs @ c # ys" "c \<notin> set xs" "IndexByte v c = int (length xs)"
    by (rule IndexByte_split)
  ultimately have "take n v = take n xs" "c \<notin> set xs" by simp_all
  then show ?thesis by (auto dest: in_set_takeD)
qed (auto dest: in_set_takeD)

text \<open>The search for the first line end does not change what is replaced.\<close>

lemma removeNewLines_eq: "removeNewLines v = map blank_newline v"
proof -
  have split: "take n v @ map blank_newline (drop n v) = map blank_newline v" if "rChar \<notin> set (take n v)" "nChar \<notin> set (take n v)" for n
    using take_blank [OF that] by (metis append_take_drop_id map_append)
  show ?thesis
    using IndexByte_before [of _ v rChar] IndexByte_before [of _ v nChar] IndexByte_ge [of v rChar] IndexByte_ge [of v nChar]
      IndexByte_negative [of v rChar] IndexByte_negative [of v nChar]
    unfolding removeNewLines_def Let_def
    by (auto intro!: split map_idI [symmetric] simp: blank_newline_def dest: in_set_takeD)
qed

lemma one_line_removed [simp]: "one_line (removeNewLines v)"
  by (auto simp: one_line_def removeNewLines_eq blank_newline_def split: if_splits)

section \<open>Entries\<close>

definition clean_entry :: "argsKV \<Rightarrow> bool" where
  "clean_entry kv \<longleftrightarrow> one_line (key kv) \<and> one_line (val kv)"

definition clean_slice :: "kv_slice \<Rightarrow> bool" where
  "clean_slice h \<longleftrightarrow> list_all clean_entry (fst h)"

lemma clean_cut0 [simp]: "clean_slice (cut0 h)"
  by (simp add: clean_slice_def cut0_def)

lemma clean_append [simp]:
  "clean_slice h \<Longrightarrow> one_line k \<Longrightarrow> one_line v \<Longrightarrow> clean_slice (appendArgBytes h k v nv)"
  by (simp add: clean_slice_def appendArgBytes_def fst_appendArg clean_entry_def)

lemma set_arg_loop_clean:
  "set_arg_loop h k v nv = Some h' \<Longrightarrow> list_all clean_entry h \<Longrightarrow> one_line v \<Longrightarrow> list_all clean_entry h'"
  by (induction h arbitrary: h') (auto simp: clean_entry_def split: if_splits)

lemma clean_set [simp]: "clean_slice h \<Longrightarrow> one_line k \<Longrightarrow> one_line v \<Longrightarrow> clean_slice (setArgBytes h k v nv)"
  by (auto simp: setArgBytes_def setArg_def clean_slice_def fst_appendArg clean_entry_def set_arg_loop_clean
      split: option.split)

lemma clean_del [simp]: "clean_slice h \<Longrightarrow> clean_slice (delAllArgsBytes h k)"
  by (auto simp: clean_slice_def delAllArgsBytes_def fst_delAllArgs list_all_iff)

lemma clean_trailer_loop:
  "one_line t \<Longrightarrow> clean_slice tr \<Longrightarrow> clean_slice (fst (add_trailer_loop d t tr err))"
  by (induction d t tr err rule: add_trailer_loop.induct)
    (subst add_trailer_loop.simps, simp add: Let_def)

lemma clean_names: "list_all clean_entry ts \<Longrightarrow> one_line dst \<Longrightarrow> one_line (appendArgsKeyBytes dst ts strCommaSpace)"
  by (induction dst ts strCommaSpace rule: appendArgsKeyBytes.induct) (auto simp: clean_entry_def strCommaSpace_def)

section \<open>A response no value can split\<close>

definition response_clean :: "ResponseHeader \<Rightarrow> bool" where
  "response_clean h \<longleftrightarrow>
     one_line (p_statusMessage h) \<and> one_line (p_protocol h) \<and> one_line (p_server h) \<and> one_line (p_contentType h) \<and>
     one_line (p_contentEncoding h) \<and> one_line (p_contentLengthBytes h) \<and> clean_slice (p_h h) \<and>
     clean_slice (p_trailer h) \<and> list_all (\<lambda>kv. one_line (val kv)) (fst (p_cookies h))"

lemma cookie_values:
  "list_all (\<lambda>kv. one_line (val kv)) (fst cs) \<Longrightarrow> one_line v \<Longrightarrow>
     list_all (\<lambda>kv. one_line (val kv)) (fst (set_last (allocArg cs) ((last_kv (allocArg cs))\<lparr>key := k, val := v\<rparr>)))"
  by (auto simp: allocArg_def set_last_def split: list.split)

lemma response_clean_reset: "response_clean (ResponseHeader_resetSkipNormalize h)"
  by (simp add: response_clean_def ResponseHeader_resetSkipNormalize_def) (simp add: cut0_def)

lemma response_clean_nonspecial:
  "response_clean h \<Longrightarrow> one_line k \<Longrightarrow> one_line v \<Longrightarrow> response_clean (ResponseHeader_setNonSpecial h k v)"
  by (simp add: response_clean_def ResponseHeader_setNonSpecial_def)

lemma response_clean_special:
  assumes "response_clean h" and "one_line k" and "one_line v"
  shows "response_clean (snd (ResponseHeader_setSpecialHeader h k v))"
proof -
  have tr: "response_clean (snd (ResponseHeader_SetTrailerBytes h v))"
    using assms clean_trailer_loop [of v "cut0 (p_trailer h)" "p_disableNormalizing h" None]
    by (auto simp: response_clean_def ResponseHeader_SetTrailerBytes_def ResponseHeader_AddTrailerBytes_def split: prod.split)
  have cl: "response_clean (h\<lparr>p_contentLength := n, p_contentLengthBytes := v\<rparr>)" for n
    using assms by (simp add: response_clean_def)
  have conn: "response_clean (ResponseHeader_setNonSpecial (ResponseHeader_ResetConnectionClose h) k v)"
    using assms by (auto simp: response_clean_def ResponseHeader_setNonSpecial_def ResponseHeader_ResetConnectionClose_def)
  have rest: "response_clean (ResponseHeader_SetContentTypeBytes h v)" "response_clean (ResponseHeader_SetContentEncodingBytes h v)"
    "response_clean (ResponseHeader_SetServerBytes h v)" "response_clean (ResponseHeader_SetConnectionClose h)"
    "response_clean (add_set_cookie h v)"
    using assms cookie_values [of "p_cookies h" v]
    by (simp_all add: response_clean_def ResponseHeader_SetContentTypeBytes_def ResponseHeader_SetContentEncodingBytes_def
        ResponseHeader_SetServerBytes_def ResponseHeader_SetConnectionClose_def add_set_cookie_def Let_def)
  have len: "response_clean (case parseContentLength v of
      (n, None) \<Rightarrow> h\<lparr>p_contentLength := n, p_contentLengthBytes := v\<rparr> | (n, Some e) \<Rightarrow> h)"
    using cl assms(1) by (auto split: prod.split option.split)
  show ?thesis
    using assms(1) tr len conn rest by (simp add: ResponseHeader_setSpecialHeader_def Let_def)
qed

lemma response_clean_Set:
  assumes "response_clean h" and "one_line k"
  shows "response_clean (ResponseHeader_Set h k v)"
proof -
  have "response_clean (ResponseHeader_SetCanonical h k' v')" if "one_line k'" "one_line v'" for k' v'
    using response_clean_special [OF assms(1) that] response_clean_nonspecial that
    by (auto simp: ResponseHeader_SetCanonical_def split: prod.split bool.split)
  then show ?thesis using assms(2) by (simp add: ResponseHeader_Set_def initHeaderKV_def getHeaderKeyBytes_def)
qed

text \<open>Text that is made of non-empty lines.\<close>

definition lines_text :: "bytes list \<Rightarrow> bytes" where
  "lines_text ls = concat (map (\<lambda>l. l @ strCRLF) ls)"

definition is_lines :: "bytes \<Rightarrow> bool" where
  "is_lines t \<longleftrightarrow> (\<exists>ls. t = lines_text ls \<and> (\<forall>l\<in>set ls. l \<noteq> [] \<and> one_line l))"

lemma is_lines_snoc: "is_lines t \<Longrightarrow> one_line l \<Longrightarrow> l \<noteq> [] \<Longrightarrow> is_lines (t @ l @ strCRLF)"
  unfolding is_lines_def lines_text_def by (elim exE conjE) (rule_tac x = "ls @ [l]" in exI, auto)

lemma is_lines_header:
  "is_lines t \<Longrightarrow> one_line k \<Longrightarrow> one_line v \<Longrightarrow> is_lines (appendHeaderLine t k v)"
  using is_lines_snoc [of t "k @ strColonSpace @ v"] by (simp add: appendHeaderLine_def strColonSpace_def)

lemma is_lines_entries:
  "is_lines dst \<Longrightarrow> list_all clean_entry kvs \<Longrightarrow> is_lines (append_response_loop tr nd dst kvs)"
  by (induction tr nd dst kvs rule: append_response_loop.induct) (auto simp: clean_entry_def is_lines_header)

lemma is_lines_cookies:
  "is_lines dst \<Longrightarrow> list_all (\<lambda>kv. one_line (val kv)) kvs \<Longrightarrow> is_lines (append_set_cookies dst kvs)"
  by (induction dst kvs rule: append_set_cookies.induct) (auto simp: is_lines_header strSetCookie_def)

lemma one_line_digits [simp]: "one_line (append_uint_loop n [])"
  by (auto simp: append_uint_loop_eq one_line_def digit_char_def char_eq_byte_val of_char_of go_simps
      dest!: dec_digits_small)

lemma status_messages_one_line: "list_all (\<lambda>(c, m). one_line m) statusMessages"
  by (simp add: statusMessages_def)

lemma one_line_status [simp]: "one_line (StatusMessage c)"
  using status_messages_one_line
  by (auto simp: StatusMessage_def unknownStatusCode_def list_all_iff dest!: map_of_SomeD split: option.split)

lemma is_lines_if: "(c \<Longrightarrow> is_lines a) \<Longrightarrow> (\<not> c \<Longrightarrow> is_lines b) \<Longrightarrow> is_lines (if c then a else b)"
  by simp

lemma is_lines_end: "is_lines t \<Longrightarrow> \<exists>t'. is_lines t' \<and> t @ strCRLF = t' @ strCRLF"
  by blast

lemma response_clean_text:
  assumes "response_clean h" and "one_line serverDate"
  shows "\<exists>t. is_lines t \<and> ResponseHeader_AppendBytes serverDate h dst = t @ strCRLF"
proof -
  have c: "one_line (p_statusMessage h)" "one_line (p_protocol h)" "one_line (p_server h)" "one_line (p_contentType h)"
    "one_line (p_contentEncoding h)" "one_line (p_contentLengthBytes h)" "list_all clean_entry (fst (p_h h))"
    "list_all clean_entry (fst (p_trailer h))" "list_all (\<lambda>kv. one_line (val kv)) (fst (p_cookies h))"
    using assms(1) by (simp_all add: response_clean_def clean_slice_def)
  have ct: "one_line (ResponseHeader_ContentType h)"
    using c by (simp add: ResponseHeader_ContentType_def defaultContentType_def)
  have names: "one_line strServer" "one_line strDate" "one_line strContentType" "one_line strContentEncoding"
    "one_line strContentLength" "one_line strTrailer" "one_line strConnection" "one_line strClose"
    by (simp_all add: header_strings)
  have status: "is_lines (ResponseHeader_appendStatusLine h [])"
  proof -
    have "\<exists>l. ResponseHeader_appendStatusLine h [] = [] @ l @ strCRLF \<and> one_line l \<and> l \<noteq> []"
      using c by (simp add: ResponseHeader_appendStatusLine_def formatStatusLine_def AppendInt_def
          ResponseHeader_Protocol_def ResponseHeader_StatusMessage_def Let_def strHTTP11_def)
    moreover have "is_lines []" by (auto simp: is_lines_def lines_text_def intro: exI [of _ "[]"])
    ultimately show ?thesis using is_lines_snoc by metis
  qed
  show ?thesis
    unfolding ResponseHeader_AppendBytes_def Let_def ResponseHeader_Server_def ResponseHeader_ContentEncoding_def
    by (rule is_lines_end)
      (intro is_lines_if is_lines_header is_lines_cookies is_lines_entries status names ct c clean_names assms(2);
        simp)
qed

lemma response_clean_fold:
  "response_clean h \<Longrightarrow> list_all (\<lambda>(k, v). one_line k) kvs \<Longrightarrow>
     response_clean (fold (\<lambda>(k, v) h. ResponseHeader_Set h k v) kvs h)"
  by (induction kvs arbitrary: h) (auto simp: response_clean_Set)



text \<open>Add stores its value as it is: the same value in a call of Add ends the header.\<close>

lemma response_add_splits:
  "ResponseHeader_Header ''now''
     (ResponseHeader_Add (zero_response_header\<lparr>p_noDefaultContentType := True\<rparr>) ''Location'' (''/x'' @ strCRLF @ strCRLF @ ''body'')) =
   ''HTTP/1.1 200 OK'' @ strCRLF @ ''Date: now'' @ strCRLF @ ''Location: /x'' @ strCRLF @ strCRLF @ ''body'' @ strCRLF @ strCRLF"
  by code_simp

end
