(* ===== verification/Header_Roundtrip.thy ===== *)
theory Header_Roundtrip
  imports Header_Correct
begin

text \<open>
  A request header that is printed and parsed comes back: the first line, the special headers, the other
  entries in their order, the cookies as one Cookie entry, and the number of bytes of the text.
\<close>

section \<open>Printed lines\<close>

definition print_line :: "bytes \<times> bytes \<Rightarrow> bytes" where
  "print_line p = fst p @ strColonSpace @ snd p @ [rChar]"

definition clean_name :: "bytes \<Rightarrow> bool" where
  "clean_name k \<longleftrightarrow> k \<noteq> [] \<and> list_all (\<lambda>c. c \<noteq> CHR '':'' \<and> c \<noteq> CHR '' '' \<and> c \<noteq> tChar \<and> c \<noteq> nChar) k"

definition clean_value :: "bytes \<Rightarrow> bool" where
  "clean_value v \<longleftrightarrow> nChar \<notin> set v \<and> (v \<noteq> [] \<longrightarrow> hd v \<noteq> CHR '' '' \<and> last v \<noteq> CHR '' '')"

lemma clean_name_mem:
  "clean_name k \<Longrightarrow> CHR '':'' \<notin> set k" "clean_name k \<Longrightarrow> CHR '' '' \<notin> set k" "clean_name k \<Longrightarrow> tChar \<notin> set k"
  "clean_name k \<Longrightarrow> nChar \<notin> set k" "clean_name k \<Longrightarrow> k \<noteq> []"
  by (auto simp: clean_name_def list_all_iff)

lemma header_line_print: "clean_name k \<Longrightarrow> clean_value v \<Longrightarrow> header_line (print_line (k, v))"
  by (cases k) (auto simp: header_line_def print_line_def clean_name_def clean_value_def strColonSpace_def list_all_iff)

lemma trim_clean: "clean_value v \<Longrightarrow> trim_value (v @ [rChar]) = v"
  by (cases v rule: rev_cases) (auto simp: trim_value_def clean_value_def butlast_append)

lemma line_kv_print:
  assumes "clean_name k" and "clean_value v"
  shows "line_kv d (print_line (k, v)) = (normalizeHeaderKey k d, v)"
proof -
  have "takeWhile (\<lambda>c. c \<noteq> CHR '':'') (print_line (k, v)) = k"
    using takeWhile_neq_append [OF clean_name_mem(1) [OF assms(1)]] by (simp add: print_line_def strColonSpace_def)
  moreover have "dropWhile (\<lambda>c. c \<noteq> CHR '':'') (print_line (k, v)) = CHR '':'' # CHR '' '' # v @ [rChar]"
    using dropWhile_neq_append [OF clean_name_mem(1) [OF assms(1)]] by (simp add: print_line_def strColonSpace_def)
  moreover have "dropWhile (\<lambda>c. c = CHR '' '') (v @ [rChar]) = v @ [rChar]"
    using assms(2) by (cases v) (auto simp: clean_value_def)
  ultimately show ?thesis using trim_clean [OF assms(2)] by (simp add: line_kv_def)
qed

definition clean_pair :: "bool \<Rightarrow> bytes \<times> bytes \<Rightarrow> bool" where
  "clean_pair d p \<longleftrightarrow> clean_name (fst p) \<and> clean_value (snd p) \<and> normalizeHeaderKey (fst p) d = fst p"

lemma header_line_pair: "clean_pair d p \<Longrightarrow> header_line (print_line p)"
  by (cases p) (simp add: clean_pair_def header_line_print)

lemma on_printed_lines:
  "list_all (clean_pair d) ps \<Longrightarrow> on_lines d body (map print_line ps) he = fold (\<lambda>(k, v) (h, err). body h err k v) ps he"
  by (induction ps arbitrary: he) (auto simp: on_lines_def clean_pair_def line_kv_print split: prod.split)

section \<open>The pairs a request prints\<close>

definition opt_pair :: "bytes \<Rightarrow> bytes \<Rightarrow> (bytes \<times> bytes) list" where
  "opt_pair k v = (if v = [] then [] else [(k, v)])"

definition sent_content_type :: "RequestHeader \<Rightarrow> bytes" where
  "sent_content_type h =
     (if \<not> q_noDefaultContentType h \<and> q_contentType h = [] \<and> \<not> RequestHeader_ignoreBody h
      then strDefaultContentType else q_contentType h)"

definition sent_cookies :: "RequestHeader \<Rightarrow> (bytes \<times> bytes) list" where
  "sent_cookies h =
     (if fst (q_cookies h) = [] then [] else [(strCookie, appendRequestCookieBytes [] (fst (q_cookies h)))])"

definition request_pairs :: "RequestHeader \<Rightarrow> (bytes \<times> bytes) list" where
  "request_pairs h =
     opt_pair strUserAgent (q_userAgent h) @ opt_pair strHost (q_host h) @ opt_pair strContentType (sent_content_type h) @
     opt_pair strContentLength (q_contentLengthBytes h) @ pairs (q_h h) @ sent_cookies h @
     (if q_connectionClose h then [(strConnection, strClose)] else [])"

definition request_line :: "RequestHeader \<Rightarrow> bytes" where
  "request_line h = RequestHeader_Method h @ '' '' @ RequestHeader_RequestURI h @ '' '' @ RequestHeader_Protocol h"

definition printed :: "(bytes \<times> bytes) list \<Rightarrow> bytes" where
  "printed ps = concat (map (\<lambda>p. print_line p @ [nChar]) ps)"

lemma printed_append: "printed (ps @ qs) = printed ps @ printed qs"
  by (simp add: printed_def)

lemma append_line: "appendHeaderLine dst k v = dst @ printed [(k, v)]"
  by (simp add: appendHeaderLine_def printed_def print_line_def strCRLF_def)

lemma append_entries_text: "append_entries_loop [] dst kvs = dst @ printed (map (\<lambda>kv. (key kv, val kv)) kvs)"
  by (induction kvs arbitrary: dst) (auto simp: append_line printed_def)

lemma cookie_text_append: "appendRequestCookieBytes (a @ b) kvs = a @ appendRequestCookieBytes b kvs"
proof (induction kvs arbitrary: b)
  case (Cons kv kvs)
  define x where "x = (if length (key kv) > 0 then key kv @ ''='' else []) @ val kv @ (if kvs \<noteq> [] then ''; '' else [])"
  have "appendRequestCookieBytes d (kv # kvs) = appendRequestCookieBytes (d @ x) kvs" for d by (simp add: x_def)
  with Cons.IH [of "b @ x"] show ?case by simp
qed simp

lemma printed_opt: "(if length v > 0 \<and> True then appendHeaderLine dst k v else dst) = dst @ printed (opt_pair k v)"
  by (simp add: opt_pair_def append_line printed_def)

lemma printed_cookies:
  "(if length (fst (q_cookies h)) > 0 \<and> True
    then appendRequestCookieBytes (dst @ strCookie @ strColonSpace) (fst (q_cookies h)) @ strCRLF else dst) =
   dst @ printed (sent_cookies h)"
  using cookie_text_append [of "dst @ strCookie @ strColonSpace" "[]" "fst (q_cookies h)"]
  by (simp add: sent_cookies_def printed_def print_line_def strCRLF_def)

lemma printed_close:
  "(if q_connectionClose h \<and> True then appendHeaderLine dst strConnection strClose else dst) =
   dst @ printed (if q_connectionClose h then [(strConnection, strClose)] else [])"
  by (simp add: append_line printed_def)

lemma request_text:
  assumes "\<not> q_disableSpecialHeader h" and "fst (q_trailer h) = []"
  shows "RequestHeader_AppendBytes h [] =
           first_line_text (request_line h) [rChar] @ header_text (map print_line (request_pairs h)) [rChar]"
proof -
  have sp: "(\<not> q_disableSpecialHeader h) = True" "(length (fst (q_trailer h)) > 0) = False" using assms by simp_all
  have get: "RequestHeader_UserAgent h = q_userAgent h" "RequestHeader_Host h = q_host h"
    "RequestHeader_ContentType h = q_contentType h" "RequestHeader_ConnectionClose h = q_connectionClose h"
    using assms by (simp_all add: RequestHeader_UserAgent_def RequestHeader_Host_def RequestHeader_ContentType_def
        RequestHeader_ConnectionClose_def)
  have ct: "(if \<not> q_noDefaultContentType h \<and> length (q_contentType h) = 0 \<and> \<not> RequestHeader_ignoreBody h
      then strDefaultContentType else q_contentType h) = sent_content_type h"
    by (simp add: sent_content_type_def)
  have "RequestHeader_AppendBytes h [] = (request_line h @ strCRLF) @ printed (request_pairs h) @ strCRLF"
    unfolding RequestHeader_AppendBytes_def Let_def sp get ct assms(2) if_False printed_opt append_entries_text printed_cookies
      printed_close request_pairs_def printed_append request_line_def by simp
  then show ?thesis by (simp add: header_text_def first_line_text_def printed_def strCRLF_def comp_def)
qed

section \<open>Reading the pairs back\<close>

definition ordinary_name :: "bytes \<Rightarrow> bool" where
  "ordinary_name k \<longleftrightarrow>
     list_all (\<lambda>s. \<not> caseInsensitiveCompare k s)
       [strHost, strUserAgent, strContentType, strContentLength, strConnection, strTransferEncoding, strTrailer]"

lemma no_space_names:
  "IndexByte strHost CHR '' '' = - 1" "IndexByte strHost tChar = - 1" "IndexByte strUserAgent CHR '' '' = - 1"
  "IndexByte strUserAgent tChar = - 1" "IndexByte strContentType CHR '' '' = - 1" "IndexByte strContentType tChar = - 1"
  "IndexByte strContentLength CHR '' '' = - 1" "IndexByte strContentLength tChar = - 1"
  "IndexByte strConnection CHR '' '' = - 1" "IndexByte strConnection tChar = - 1"
  by (simp_all add: IndexByte_none header_strings)

lemma special_first_bytes:
  "or20 (strHost ! 0) = CHR ''h''" "or20 (strUserAgent ! 0) = CHR ''u''" "or20 (strContentType ! 0) = CHR ''c''"
  "or20 (strContentLength ! 0) = CHR ''c''" "or20 (strConnection ! 0) = CHR ''c''"
  by code_simp+

lemma special_nonempty: "strHost \<noteq> []" "strUserAgent \<noteq> []" "strContentType \<noteq> []" "strContentLength \<noteq> []" "strConnection \<noteq> []"
  by (simp_all add: header_strings)

lemma special_different:
  "\<not> caseInsensitiveCompare strContentLength strContentType" "\<not> caseInsensitiveCompare strConnection strContentType"
  "\<not> caseInsensitiveCompare strConnection strContentLength"
  by code_simp+

lemmas special_facts = no_space_names special_first_bytes special_nonempty special_different

lemma read_host: "\<not> q_disableSpecialHeader h \<Longrightarrow> request_header_line h None strHost v = (h\<lparr>q_host := v\<rparr>, None)"
  by (simp add: request_header_line_def special_facts)

lemma read_agent: "\<not> q_disableSpecialHeader h \<Longrightarrow> request_header_line h None strUserAgent v = (h\<lparr>q_userAgent := v\<rparr>, None)"
  by (simp add: request_header_line_def special_facts)

lemma read_type: "\<not> q_disableSpecialHeader h \<Longrightarrow> request_header_line h None strContentType v = (h\<lparr>q_contentType := v\<rparr>, None)"
  by (simp add: request_header_line_def special_facts)

lemma read_length:
  "\<not> q_disableSpecialHeader h \<Longrightarrow> q_contentLength h \<noteq> - 1 \<Longrightarrow> parseContentLength v = (n, None) \<Longrightarrow>
     request_header_line h None strContentLength v = (h\<lparr>q_contentLength := n, q_contentLengthBytes := v\<rparr>, None)"
  by (simp add: request_header_line_def special_facts)

lemma read_close:
  "\<not> q_disableSpecialHeader h \<Longrightarrow> request_header_line h None strConnection strClose = (h\<lparr>q_connectionClose := True\<rparr>, None)"
  by (simp add: request_header_line_def special_facts)

lemma read_ordinary:
  "\<not> q_disableSpecialHeader h \<Longrightarrow> clean_name k \<Longrightarrow> ordinary_name k \<Longrightarrow>
     request_header_line h None k v = (h\<lparr>q_h := appendArgBytes (q_h h) k v argsHasValue\<rparr>, None)"
  using clean_name_mem [of k] by (simp add: request_header_line_def ordinary_name_def IndexByte_none)

definition read_pairs :: "(bytes \<times> bytes) list \<Rightarrow> RequestHeader \<times> header_error option \<Rightarrow> RequestHeader \<times> header_error option" where
  "read_pairs ps he = fold (\<lambda>(k, v) (h, err). request_header_line h err k v) ps he"

lemma read_pairs_append: "read_pairs (ps @ qs) he = read_pairs qs (read_pairs ps he)"
  by (simp add: read_pairs_def)

lemma read_entries:
  "\<not> q_disableSpecialHeader h \<Longrightarrow> list_all (\<lambda>p. clean_name (fst p) \<and> ordinary_name (fst p)) ps \<Longrightarrow>
     \<exists>hs. read_pairs ps (h, None) = (h\<lparr>q_h := hs\<rparr>, None) \<and> pairs hs = pairs (q_h h) @ ps"
proof (induction ps arbitrary: h)
  case Nil
  then show ?case by (intro exI [of _ "q_h h"]) (simp add: read_pairs_def)
next
  case (Cons p ps)
  obtain k v where p: "p = (k, v)" by fastforce
  define g where "g = h\<lparr>q_h := appendArgBytes (q_h h) k v argsHasValue\<rparr>"
  have g: "\<not> q_disableSpecialHeader g" "pairs (q_h g) = pairs (q_h h) @ [(k, v)]"
    using Cons.prems by (simp_all add: g_def appendArgBytes_def fst_appendArg argsHasValue_def)
  have "read_pairs (p # ps) (h, None) = read_pairs ps (g, None)"
    using Cons.prems by (simp add: read_pairs_def p g_def read_ordinary)
  with Cons.IH [OF g(1)] Cons.prems(2) g(2) p show ?case by (auto simp: g_def)
qed

lemma same_update:
  "q_userAgent h = [] \<Longrightarrow> h\<lparr>q_userAgent := []\<rparr> = h" "q_host h = [] \<Longrightarrow> h\<lparr>q_host := []\<rparr> = h"
  "q_contentType h = [] \<Longrightarrow> h\<lparr>q_contentType := []\<rparr> = h"
  "q_contentLength h = - 2 \<Longrightarrow> q_contentLengthBytes h = [] \<Longrightarrow> h\<lparr>q_contentLength := - 2, q_contentLengthBytes := []\<rparr> = h"
  by (cases h; simp)+

lemma read_single: "read_pairs (opt_pair k v) (h, None) = (if v = [] then (h, None) else request_header_line h None k v)"
  by (simp add: read_pairs_def opt_pair_def)

lemma read_opt:
  "\<not> q_disableSpecialHeader h \<Longrightarrow> q_userAgent h = [] \<Longrightarrow> read_pairs (opt_pair strUserAgent v) (h, None) = (h\<lparr>q_userAgent := v\<rparr>, None)"
  "\<not> q_disableSpecialHeader h \<Longrightarrow> q_host h = [] \<Longrightarrow> read_pairs (opt_pair strHost v) (h, None) = (h\<lparr>q_host := v\<rparr>, None)"
  "\<not> q_disableSpecialHeader h \<Longrightarrow> q_contentType h = [] \<Longrightarrow> read_pairs (opt_pair strContentType v) (h, None) = (h\<lparr>q_contentType := v\<rparr>, None)"
  unfolding read_single by (cases "v = []"; simp add: read_agent read_host read_type same_update)+

lemma read_opt_length:
  "\<not> q_disableSpecialHeader h \<Longrightarrow> q_contentLength h = - 2 \<Longrightarrow> q_contentLengthBytes h = [] \<Longrightarrow>
     (v \<noteq> [] \<Longrightarrow> parseContentLength v = (n, None)) \<Longrightarrow>
     read_pairs (opt_pair strContentLength v) (h, None) =
       (h\<lparr>q_contentLength := (if v = [] then - 2 else n), q_contentLengthBytes := v\<rparr>, None)"
  unfolding read_single by (cases "v = []"; simp add: read_length same_update)

section \<open>The round trip\<close>

text \<open>What can be sent: one line for everything, names without separators in their normal form, values
  without spaces around them, and no trailer.\<close>

definition sendable :: "RequestHeader \<Rightarrow> bool" where
  "sendable h \<longleftrightarrow>
     \<not> q_disableSpecialHeader h \<and> fst (q_trailer h) = [] \<and>
     CHR '' '' \<notin> set (RequestHeader_Method h) \<and> nChar \<notin> set (request_line h) \<and>
     CHR '' '' \<notin> set (RequestHeader_Protocol h) \<and> last (RequestHeader_Protocol h) \<noteq> rChar \<and>
     clean_value (q_userAgent h) \<and> clean_value (q_host h) \<and> clean_value (q_contentType h) \<and>
     clean_value (q_contentLengthBytes h) \<and>
     (q_contentLengthBytes h \<noteq> [] \<longrightarrow> 0 \<le> q_contentLength h \<and> parseContentLength (q_contentLengthBytes h) = (q_contentLength h, None)) \<and>
     list_all (\<lambda>p. clean_pair False p \<and> ordinary_name (fst p)) (pairs (q_h h)) \<and>
     clean_value (appendRequestCookieBytes [] (fst (q_cookies h)))"

lemma line_parts_nonempty: "RequestHeader_Method h \<noteq> []" "RequestHeader_RequestURI h \<noteq> []" "RequestHeader_Protocol h \<noteq> []"
  by (auto simp: RequestHeader_Method_def RequestHeader_RequestURI_def RequestHeader_Protocol_def MethodGet_def strHTTP11_def)

lemma parse_request_line:
  assumes "sendable h"
  shows "RequestHeader_parseFirstLine g (first_line_text (request_line h) [rChar] @ x) =
     (Inr (length (first_line_text (request_line h) [rChar])),
      g\<lparr>q_method := RequestHeader_Method h, q_requestURI := RequestHeader_RequestURI h, q_proto := RequestHeader_Protocol h,
        q_noHTTP11 := (if RequestHeader_Protocol h = strHTTP11 then q_noHTTP11 g else True)\<rparr>)"
    and "plain_line (request_line h)"
proof -
  show pl: "plain_line (request_line h)"
    using assms line_parts_nonempty [of h] by (auto simp: plain_line_def sendable_def request_line_def)
  define m u p where "m = RequestHeader_Method h" and "u = RequestHeader_RequestURI h" and "p = RequestHeader_Protocol h"
  have ne: "m \<noteq> []" "u \<noteq> []" "CHR '' '' \<notin> set m" "CHR '' '' \<notin> set p"
    using assms line_parts_nonempty [of h] by (simp_all add: m_def u_def p_def sendable_def)
  have rl: "request_line h = m @ CHR '' '' # u @ CHR '' '' # p" by (simp add: request_line_def m_def u_def p_def)
  have i1: "IndexByte (m @ CHR '' '' # u @ CHR '' '' # p) CHR '' '' = int (length m)" using IndexByte_append ne(3) by simp
  have i2: "LastIndexByte (u @ CHR '' '' # p) CHR '' '' = int (length u)" using LastIndexByte_append ne(4) by simp
  have fl: "first_line (first_line_text (request_line h) [rChar] @ x) = Inr (m @ CHR '' '' # u @ CHR '' '' # p, x)"
    using first_line_of_text [OF pl, of "[rChar]" x] rl by (simp add: line_end_def)
  show "RequestHeader_parseFirstLine g (first_line_text (request_line h) [rChar] @ x) =
     (Inr (length (first_line_text (request_line h) [rChar])),
      g\<lparr>q_method := RequestHeader_Method h, q_requestURI := RequestHeader_RequestURI h, q_proto := RequestHeader_Protocol h,
        q_noHTTP11 := (if RequestHeader_Protocol h = strHTTP11 then q_noHTTP11 g else True)\<rparr>)"
    unfolding m_def [symmetric] u_def [symmetric] p_def [symmetric]
    using ne by (simp add: RequestHeader_parseFirstLine_def fl i1 i2 nat_add_distrib)
qed

lemma sendable_pairs: "sendable h \<Longrightarrow> list_all (clean_pair False) (request_pairs h)"
proof -
  assume h: "sendable h"
  have names: "clean_name s \<and> normalizeHeaderKey s False = s"
    if "s \<in> {strUserAgent, strHost, strContentType, strContentLength, strCookie, strConnection}" for s
    using that by (elim insertE emptyE; hypsubst; code_simp)
  have sent: "clean_value strClose" "clean_value (sent_content_type h)"
    using h by (simp_all add: clean_value_def strClose_def strDefaultContentType_def sent_content_type_def sendable_def)
  have opt: "list_all (clean_pair False) (opt_pair k v)" if "clean_name k \<and> normalizeHeaderKey k False = k" "clean_value v" for k v
    using that by (simp add: opt_pair_def clean_pair_def)
  have entries: "list_all (clean_pair False) (pairs (q_h h))"
    using h unfolding sendable_def by (metis (no_types, lifting) list.pred_mono_strong)
  show ?thesis
    unfolding request_pairs_def list_all_append
    by (intro conjI opt entries names) (use h sent names in \<open>simp_all add: sendable_def sent_cookies_def clean_pair_def\<close>)
qed

lemma read_all_pairs:
  assumes "sendable h" and g: "\<not> q_disableSpecialHeader g" "q_userAgent g = []" "q_host g = []" "q_contentType g = []"
    "q_contentLength g = - 2" "q_contentLengthBytes g = []" "fst (q_h g) = []" "\<not> q_connectionClose g"
  shows "\<exists>hs. read_pairs (request_pairs h) (g, None) =
     (g\<lparr>q_userAgent := q_userAgent h, q_host := q_host h, q_contentType := sent_content_type h,
        q_contentLength := (if q_contentLengthBytes h = [] then - 2 else q_contentLength h),
        q_contentLengthBytes := q_contentLengthBytes h, q_h := hs, q_connectionClose := q_connectionClose h\<rparr>, None) \<and>
     pairs hs = pairs (q_h h) @ sent_cookies h"
proof -
  define g3 where "g3 = g\<lparr>q_userAgent := q_userAgent h, q_host := q_host h, q_contentType := sent_content_type h\<rparr>"
  define g4 where "g4 = g3\<lparr>q_contentLength := (if q_contentLengthBytes h = [] then - 2 else q_contentLength h),
    q_contentLengthBytes := q_contentLengthBytes h\<rparr>"
  have g3: "read_pairs (opt_pair strUserAgent (q_userAgent h) @ opt_pair strHost (q_host h) @ opt_pair strContentType (sent_content_type h))
      (g, None) = (g3, None)"
    using g by (simp add: read_pairs_append read_opt g3_def)
  have g4: "read_pairs (opt_pair strContentLength (q_contentLengthBytes h)) (g3, None) = (g4, None)"
    using assms(1) g read_opt_length [of g3 "q_contentLengthBytes h" "q_contentLength h"]
    by (simp add: g3_def g4_def sendable_def)
  have ordinary: "list_all (\<lambda>p. clean_name (fst p) \<and> ordinary_name (fst p)) (pairs (q_h h))"
    using assms(1) by (auto simp: sendable_def clean_pair_def list_all_iff)
  have "clean_name strCookie" "ordinary_name strCookie" by code_simp+
  then have "list_all (\<lambda>p. clean_name (fst p) \<and> ordinary_name (fst p)) (pairs (q_h h) @ sent_cookies h)"
    using ordinary by (simp add: sent_cookies_def)
  moreover have "\<not> q_disableSpecialHeader g4" "fst (q_h g4) = []" using g by (simp_all add: g3_def g4_def)
  ultimately obtain hs where hs: "read_pairs (pairs (q_h h) @ sent_cookies h) (g4, None) = (g4\<lparr>q_h := hs\<rparr>, None)"
    "pairs hs = pairs (q_h h) @ sent_cookies h"
    using read_entries [of g4 "pairs (q_h h) @ sent_cookies h"] by auto
  have "read_pairs (if q_connectionClose h then [(strConnection, strClose)] else []) (g4\<lparr>q_h := hs\<rparr>, None) =
      (g4\<lparr>q_h := hs, q_connectionClose := q_connectionClose h\<rparr>, None)"
  proof (cases "q_connectionClose h")
    case True
    then show ?thesis using read_close [of "g4\<lparr>q_h := hs\<rparr>"] g by (simp add: read_pairs_def g4_def g3_def)
  next
    case False
    have "q_connectionClose g4 = False" using g by (simp add: g4_def g3_def)
    with False show ?thesis by (cases g4) (simp add: read_pairs_def)
  qed
  then have "read_pairs (request_pairs h) (g, None) = (g4\<lparr>q_h := hs, q_connectionClose := q_connectionClose h\<rparr>, None)"
    using g3 g4 hs(1) unfolding request_pairs_def read_pairs_append by simp
  with hs(2) show ?thesis by (intro exI [of _ hs]) (simp add: g4_def g3_def)
qed

lemma reset_fields:
  "\<not> q_disableSpecialHeader (RequestHeader_Reset g)" "\<not> q_disableNormalizing (RequestHeader_Reset g)"
  "q_userAgent (RequestHeader_Reset g) = []" "q_host (RequestHeader_Reset g) = []" "q_contentType (RequestHeader_Reset g) = []"
  "q_contentLengthBytes (RequestHeader_Reset g) = []" "fst (q_h (RequestHeader_Reset g)) = []"
  "\<not> q_connectionClose (RequestHeader_Reset g)" "\<not> q_noHTTP11 (RequestHeader_Reset g)"
  by (simp_all add: RequestHeader_Reset_def RequestHeader_resetSkipNormalize_def RequestHeader_SetNoDefaultContentType_def cut0_def)

text \<open>An ordinary entry never answers for Connection.\<close>

lemma no_connection_entry:
  assumes "pairs hs = pairs (q_h h) @ sent_cookies h" and "sendable h"
  shows "peekArgBytes (fst hs) strConnection = None"
proof -
  have "strConnection \<notin> key ` set (fst hs)"
  proof
    assume "strConnection \<in> key ` set (fst hs)"
    then have "strConnection \<in> fst ` set (pairs hs)" by force
    then have "strConnection \<in> fst ` set (pairs (q_h h)) \<or> strConnection = strCookie"
      using assms(1) by (auto simp: sent_cookies_def split: if_splits)
    with assms(2) show False by (auto simp: sendable_def ordinary_name_def list_all_iff header_strings)
  qed
  moreover have "k \<notin> key ` set kvs \<Longrightarrow> peekArgStr kvs k = None" for k kvs by (induction kvs) auto
  ultimately show ?thesis by (simp add: peekArgBytes_def)
qed

lemma print_parse:
  assumes "sendable h"
  shows "\<exists>h' done. RequestHeader_parse (RequestHeader_Reset g) (RequestHeader_AppendBytes h [] @ body) =
                (Inr (int (length (RequestHeader_AppendBytes h []))), h', done @ body) \<and>
              length done = length (RequestHeader_AppendBytes h []) \<and>
              q_method h' = RequestHeader_Method h \<and> q_requestURI h' = RequestHeader_RequestURI h \<and>
              q_proto h' = RequestHeader_Protocol h \<and> q_host h' = q_host h \<and> q_userAgent h' = q_userAgent h \<and>
              q_contentType h' = sent_content_type h \<and> q_contentLengthBytes h' = q_contentLengthBytes h \<and>
              q_contentLength h' = (if q_contentLengthBytes h = [] then - 2 else q_contentLength h) \<and>
              pairs (q_h h') = pairs (q_h h) @ sent_cookies h \<and>
              q_connectionClose h' = (q_connectionClose h \<or> RequestHeader_Protocol h \<noteq> strHTTP11) \<and>
              \<not> q_disableSpecialHeader h'"
proof -
  define ls where "ls = map print_line (request_pairs h)"
  define g1 where "g1 = (RequestHeader_Reset g)\<lparr>q_method := RequestHeader_Method h,
    q_requestURI := RequestHeader_RequestURI h, q_proto := RequestHeader_Protocol h,
    q_noHTTP11 := (if RequestHeader_Protocol h = strHTTP11 then q_noHTTP11 (RequestHeader_Reset g) else True)\<rparr>"
  define g2 where "g2 = g1\<lparr>q_rawHeaders := raw_block ls [rChar]\<rparr>"
  note clean = sendable_pairs [OF assms]
  have lines: "\<forall>l\<in>set ls. header_line l"
    using clean by (auto simp: ls_def list_all_iff intro: header_line_pair)
  have whole: "RequestHeader_AppendBytes h [] = first_line_text (request_line h) [rChar] @ header_text ls [rChar]"
    using request_text [of h] assms by (simp add: sendable_def ls_def)
  have end_ok: "line_end [rChar]" by (simp add: line_end_def)
  from parse_request_line(1) [OF assms, of "RequestHeader_Reset g" "[]"] parse_request_line(2) [OF assms] have fl:
    "RequestHeader_parseFirstLine (RequestHeader_Reset g) (first_line_text (request_line h) [rChar] @ []) =
       (Inr (length (first_line_text (request_line h) [rChar])), g1)" "plain_line (request_line h)"
    by (simp_all add: g1_def)
  have d: "\<not> q_disableNormalizing g2" "\<not> q_disableNormalizing g1" by (simp_all add: g2_def g1_def reset_fields)
  have on: "on_lines False request_header_line ls he = read_pairs (request_pairs h) he" for he
    by (simp only: ls_def on_printed_lines [OF clean] read_pairs_def)
  have ready: "\<not> q_disableSpecialHeader (g2\<lparr>q_contentLength := - 2\<rparr>)" "q_userAgent (g2\<lparr>q_contentLength := - 2\<rparr>) = []"
    "q_host (g2\<lparr>q_contentLength := - 2\<rparr>) = []" "q_contentType (g2\<lparr>q_contentLength := - 2\<rparr>) = []"
    "q_contentLength (g2\<lparr>q_contentLength := - 2\<rparr>) = - 2" "q_contentLengthBytes (g2\<lparr>q_contentLength := - 2\<rparr>) = []"
    "fst (q_h (g2\<lparr>q_contentLength := - 2\<rparr>)) = []" "\<not> q_connectionClose (g2\<lparr>q_contentLength := - 2\<rparr>)"
    by (simp_all add: g2_def g1_def reset_fields)
  obtain hs where hs: "on_lines False request_header_line ls (g2\<lparr>q_contentLength := - 2\<rparr>, None) =
     (g2\<lparr>q_userAgent := q_userAgent h, q_host := q_host h, q_contentType := sent_content_type h,
        q_contentLength := (if q_contentLengthBytes h = [] then - 2 else q_contentLength h),
        q_contentLengthBytes := q_contentLengthBytes h, q_h := hs, q_connectionClose := q_connectionClose h\<rparr>, None)"
    "pairs hs = pairs (q_h h) @ sent_cookies h"
    using read_all_pairs [OF assms ready] unfolding on by auto
  have kept: "\<not> q_contentLength h < 0" if "q_contentLengthBytes h \<noteq> []" using assms that by (simp add: sendable_def)
  define h' where "h' = snd (request_of_lines False g2 ls)"
  have r: "fst (request_of_lines False g2 ls) = Inr ()" by (simp add: request_of_lines_def hs(1))
  have h': "q_method h' = RequestHeader_Method h \<and> q_requestURI h' = RequestHeader_RequestURI h \<and>
              q_proto h' = RequestHeader_Protocol h \<and> q_host h' = q_host h \<and> q_userAgent h' = q_userAgent h \<and>
              q_contentType h' = sent_content_type h \<and> q_contentLengthBytes h' = q_contentLengthBytes h \<and>
              q_contentLength h' = (if q_contentLengthBytes h = [] then - 2 else q_contentLength h) \<and>
              pairs (q_h h') = pairs (q_h h) @ sent_cookies h \<and>
              q_connectionClose h' = (q_connectionClose h \<or> RequestHeader_Protocol h \<noteq> strHTTP11) \<and>
              \<not> q_disableSpecialHeader h'"
    using hs(2) kept no_connection_entry [OF hs(2) assms]
    unfolding h'_def request_of_lines_def hs(1)
    by (simp add: Let_def g2_def g1_def reset_fields nil_or_def hasHeaderValue.simps [of "[]"] headerValueScanner_next_def)
  from parse_text [OF lines fl(2) end_ok end_ok fl(1), of body] r d obtain dn where
    "RequestHeader_parse (RequestHeader_Reset g) (RequestHeader_AppendBytes h [] @ body) =
       (Inr (int (length (RequestHeader_AppendBytes h []))), h', dn @ body)"
    "length dn = length (RequestHeader_AppendBytes h [])"
    by (auto simp: whole h'_def g2_def [symmetric])
  with h' show ?thesis by blast
qed

lemma sendable_text:
  assumes "sendable h"
  obtains fl ls where "RequestHeader_AppendBytes h [] = first_line_text fl [rChar] @ header_text ls [rChar]"
    and "\<forall>l\<in>set ls. header_line l" and "plain_line fl"
proof
  show "RequestHeader_AppendBytes h [] = first_line_text (request_line h) [rChar] @ header_text (map print_line (request_pairs h)) [rChar]"
    using request_text [of h] assms by (simp add: sendable_def)
  show "\<forall>l\<in>set (map print_line (request_pairs h)). header_line l"
    using sendable_pairs [OF assms] by (auto simp: list_all_iff intro: header_line_pair)
  show "plain_line (request_line h)" by (rule parse_request_line(2) [OF assms])
qed

text \<open>A printed header is read from any pieces of a connection.\<close>

lemma print_read:
  assumes "sendable h" and "rd_buf r @ concat (rd_src r) = RequestHeader_AppendBytes h [] @ body"
    and "length (RequestHeader_AppendBytes h []) \<le> rd_size r"
  shows "\<exists>h' r'. RequestHeader_Read (RequestHeader_Reset g) r = Some (None, h', r') \<and> rd_buf r' @ concat (rd_src r') = body \<and>
              q_method h' = RequestHeader_Method h \<and> q_requestURI h' = RequestHeader_RequestURI h \<and>
              q_proto h' = RequestHeader_Protocol h \<and> q_host h' = q_host h \<and> q_userAgent h' = q_userAgent h \<and>
              q_contentType h' = sent_content_type h \<and> q_contentLengthBytes h' = q_contentLengthBytes h \<and>
              q_contentLength h' = (if q_contentLengthBytes h = [] then - 2 else q_contentLength h) \<and>
              pairs (q_h h') = pairs (q_h h) @ sent_cookies h \<and>
              q_connectionClose h' = (q_connectionClose h \<or> RequestHeader_Protocol h \<noteq> strHTTP11) \<and>
              \<not> q_disableSpecialHeader h'"
proof -
  obtain fl ls where t: "RequestHeader_AppendBytes h [] = first_line_text fl [rChar] @ header_text ls [rChar]"
    "\<forall>l\<in>set ls. header_line l" "plain_line fl" by (rule sendable_text [OF assms(1)])
  have e: "line_end [rChar]" by (simp add: line_end_def)
  have g: "RequestHeader_resetSkipNormalize (RequestHeader_Reset g) = RequestHeader_Reset g"
    by (simp add: RequestHeader_Reset_def RequestHeader_resetSkipNormalize_def cut0_def)
  from print_parse [OF assms(1), of g body] obtain h' dn where
    p: "RequestHeader_parse (RequestHeader_Reset g) (RequestHeader_AppendBytes h [] @ body) =
                (Inr (int (length (RequestHeader_AppendBytes h []))), h', dn @ body)" and
    h': "q_method h' = RequestHeader_Method h" "q_requestURI h' = RequestHeader_RequestURI h"
              "q_proto h' = RequestHeader_Protocol h" "q_host h' = q_host h" "q_userAgent h' = q_userAgent h"
              "q_contentType h' = sent_content_type h" "q_contentLengthBytes h' = q_contentLengthBytes h"
              "q_contentLength h' = (if q_contentLengthBytes h = [] then - 2 else q_contentLength h)"
              "pairs (q_h h') = pairs (q_h h) @ sent_cookies h"
              "q_connectionClose h' = (q_connectionClose h \<or> RequestHeader_Protocol h \<noteq> strHTTP11)"
              "\<not> q_disableSpecialHeader h'" by blast
  from read_any_pieces [OF t(2,3) e e assms(2) [unfolded t(1)] assms(3) [unfolded t(1)], of "RequestHeader_Reset g"] p assms(2)
  obtain r' where "RequestHeader_Read (RequestHeader_Reset g) r = Some (None, h', r')" "rd_buf r' @ concat (rd_src r') = body"
    unfolding g by (metis t(1))
  with h' show ?thesis by blast
qed

text \<open>Claim C16: A printed request header parses back to the same request. For a header that can be sent (every
  part on one line, names without separators and in their normal form, values without spaces around them, no
  trailer) and any reset receiver, parsing the text followed by any body succeeds, reads exactly the bytes of
  the text, and yields the method, the request URI, the protocol, the host, the user agent, the content type,
  the content length and the connection state of the sender, and its other entries in order, followed by the
  cookies as one Cookie entry.\<close>

theorem request_print_parse:
  assumes "sendable h"
  shows "\<exists>h' done. RequestHeader_parse (RequestHeader_Reset g) (RequestHeader_AppendBytes h [] @ body) =
                (Inr (int (length (RequestHeader_AppendBytes h []))), h', done @ body) \<and>
              length done = length (RequestHeader_AppendBytes h []) \<and>
              q_method h' = RequestHeader_Method h \<and> q_requestURI h' = RequestHeader_RequestURI h \<and>
              q_proto h' = RequestHeader_Protocol h \<and> q_host h' = q_host h \<and> q_userAgent h' = q_userAgent h \<and>
              q_contentType h' = sent_content_type h \<and> q_contentLengthBytes h' = q_contentLengthBytes h \<and>
              q_contentLength h' = (if q_contentLengthBytes h = [] then - 2 else q_contentLength h) \<and>
              pairs (q_h h') = pairs (q_h h) @ sent_cookies h \<and>
              q_connectionClose h' = (q_connectionClose h \<or> RequestHeader_Protocol h \<noteq> strHTTP11)"
  using print_parse [OF assms, of g body] by blast

theorem request_print_parse_witness:
  "let h = RequestHeader_Set (RequestHeader_Set (RequestHeader_SetHost zero_request_header ''a.example'') ''x-id'' ''7'')
             ''User-Agent'' ''test''
   in \<exists>h'. (\<exists>dn. RequestHeader_parse (RequestHeader_Reset zero_request_header) (RequestHeader_AppendBytes h [] @ ''body'') =
              (Inr (int (length (RequestHeader_AppendBytes h []))), h', dn @ ''body'')) \<and>
           q_host h' = ''a.example'' \<and> q_userAgent h' = ''test'' \<and> pairs (q_h h') = [(''X-Id'', ''7'')]"
proof -
  define h where "h = RequestHeader_Set (RequestHeader_Set (RequestHeader_SetHost zero_request_header ''a.example'') ''x-id'' ''7'')
             ''User-Agent'' ''test''"
  have h: "q_host h = ''a.example''" "q_userAgent h = ''test''" "pairs (q_h h) = [(''X-Id'', ''7'')]" "sent_cookies h = []"
    unfolding h_def by code_simp+
  have "sendable h" unfolding h_def by code_simp
  from request_print_parse [OF this, of zero_request_header "''body''"] h show ?thesis
    unfolding h_def [symmetric] Let_def by (elim exE conjE) (intro exI conjI, assumption, simp_all)
qed

end
