(* ===== verification/Header_Map.thy ===== *)
theory Header_Map
  imports Header_Correct
begin

text \<open>
  Set, Del and Peek of the two headers as a map from header names to values. Names are the same when their
  normal forms are, that is, when they differ in case only; the value is kept on one line. The special
  headers have fields of their own; the names that have none are the ordinary ones.
\<close>

section \<open>Names and case\<close>

lemma or20_case: "\<forall>c. or20 (toLowerTable c) = or20 c \<and> or20 (toUpperTable c) = or20 c"
  by code_simp

lemma or20_lower [simp]: "or20 (toLowerTable c) = or20 c" "or20 (toUpperTable c) = or20 c"
  using or20_case by auto

lemma compare_map: "caseInsensitiveCompare a b \<longleftrightarrow> map or20 a = map or20 b"
  unfolding caseInsensitiveCompare_def by (auto simp: list_all2_conv_all_nth list_eq_iff_nth_eq)

lemma map_or20_tail: "map or20 (normalize_tail b) = map or20 b"
  by (induction b rule: normalize_tail.induct) auto

lemma compare_normalize [simp]: "caseInsensitiveCompare (normalizeHeaderKey k d) s = caseInsensitiveCompare k s"
  by (auto simp: compare_map normalizeHeaderKey_def map_or20_tail split: list.split)

lemma compare_sym: "caseInsensitiveCompare a b = caseInsensitiveCompare b a"
  by (auto simp: compare_map)

lemma not_alike: "list_all (\<lambda>s. \<not> caseInsensitiveCompare k s) ss \<Longrightarrow> list_all (\<lambda>s. k \<noteq> s) ss"
  by (auto simp: list_all_iff)

section \<open>The contract\<close>

fun header_spec_step :: "(bytes \<Rightarrow> bytes) \<Rightarrow> (bytes, bytes) dict_op \<Rightarrow> (bytes \<Rightarrow> bytes) \<Rightarrow> (bytes \<Rightarrow> bytes)" where
  "header_spec_step norm (Put k v) m = m(norm k := removeNewLines v)"
| "header_spec_step norm (dict_op.Del k) m = m(norm k := [])"

definition op_key :: "(bytes, bytes) dict_op \<Rightarrow> bytes" where
  "op_key x = (case x of Put k v \<Rightarrow> k | dict_op.Del k \<Rightarrow> k)"

locale header_map =
  fixes peek :: "'h \<Rightarrow> bytes \<Rightarrow> bytes"
    and set_op :: "'h \<Rightarrow> bytes \<Rightarrow> bytes \<Rightarrow> 'h"
    and del_op :: "'h \<Rightarrow> bytes \<Rightarrow> 'h"
    and norm :: "'h \<Rightarrow> bytes \<Rightarrow> bytes"
    and raw :: "'h \<Rightarrow> bytes \<Rightarrow> bytes"
    and ordinary :: "bytes \<Rightarrow> bool"
  assumes peek_raw: "ordinary k \<Longrightarrow> peek h k = raw h (norm h k)"
    and raw_set: "ordinary k \<Longrightarrow> raw (set_op h k v) = (raw h)(norm h k := removeNewLines v)"
    and raw_del: "ordinary k \<Longrightarrow> raw (del_op h k) = (raw h)(norm h k := [])"
    and norm_set: "ordinary k \<Longrightarrow> norm (set_op h k v) = norm h"
    and norm_del: "ordinary k \<Longrightarrow> norm (del_op h k) = norm h"
begin

lemma run_refines:
  "list_all (\<lambda>x. ordinary (op_key x)) ops \<Longrightarrow>
     norm (impl_run set_op del_op ops h) = norm h \<and>
     raw (impl_run set_op del_op ops h) = fold (header_spec_step (norm h)) ops (raw h)"
proof (induction ops arbitrary: h)
  case (Cons x ops)
  define h1 where "h1 = impl_step set_op del_op x h"
  have h1: "norm h1 = norm h" "raw h1 = header_spec_step (norm h) x (raw h)"
    using Cons.prems by (cases x; auto simp: h1_def op_key_def raw_set raw_del norm_set norm_del)+
  have "impl_run set_op del_op (x # ops) h = impl_run set_op del_op ops h1"
    by (simp add: impl_run_def h1_def)
  with Cons.IH [of h1] Cons.prems h1 show ?case by simp
qed (simp add: impl_run_def)

lemma peek_refines:
  "list_all (\<lambda>x. ordinary (op_key x)) ops \<Longrightarrow> ordinary k \<Longrightarrow>
     peek (impl_run set_op del_op ops h) k = fold (header_spec_step (norm h)) ops (raw h) (norm h k)"
  using run_refines [of ops h] peek_raw [of k "impl_run set_op del_op ops h"] by simp

lemma peek_set: "ordinary k \<Longrightarrow> ordinary k' \<Longrightarrow> peek (set_op h k v) k' = (if norm h k = norm h k' then removeNewLines v else peek h k')"
  by (simp add: peek_raw raw_set norm_set)

end

section \<open>Requests\<close>

definition request_ordinary :: "bytes \<Rightarrow> bool" where
  "request_ordinary k \<longleftrightarrow>
     list_all (\<lambda>s. \<not> caseInsensitiveCompare k s)
       [strHost, strUserAgent, strContentType, strContentLength, strConnection, strCookie, strTransferEncoding, strTrailer]"

lemma request_ordinary_norm [simp]: "request_ordinary (normalizeHeaderKey k d) = request_ordinary k"
  by (simp add: request_ordinary_def)

lemma request_not_special: "request_ordinary k \<Longrightarrow> RequestHeader_setSpecialHeader h k v = (False, h)"
  by (simp add: request_ordinary_def RequestHeader_setSpecialHeader_def Let_def compare_sym [of _ k])

lemma request_peek_entries: "request_ordinary k \<Longrightarrow> RequestHeader_peek h k = nil_or (peekArgStr (fst (q_h h)) k)"
  by (auto simp: request_ordinary_def RequestHeader_peek_def peekArgBytes_def)

interpretation request_map: header_map RequestHeader_Peek RequestHeader_Set RequestHeader_Del
  "\<lambda>h k. normalizeHeaderKey k (q_disableNormalizing h)" "\<lambda>h n. nil_or (peekArgStr (fst (q_h h)) n)" request_ordinary
proof unfold_locales
  fix h :: RequestHeader and k v
  assume k: "request_ordinary k"
  have n: "request_ordinary (normalizeHeaderKey k (q_disableNormalizing h))" using k by simp
  have st: "RequestHeader_Set h k v = RequestHeader_setNonSpecial h (normalizeHeaderKey k (q_disableNormalizing h)) (removeNewLines v)"
    using request_not_special [OF n]
    by (simp add: RequestHeader_Set_def initHeaderKV_def getHeaderKeyBytes_def RequestHeader_SetCanonical_def)
  have dl: "RequestHeader_Del h k = h\<lparr>q_h := delAllArgsBytes (q_h h) (normalizeHeaderKey k (q_disableNormalizing h))\<rparr>"
    using not_alike [OF n [unfolded request_ordinary_def]]
    by (simp add: RequestHeader_Del_def getHeaderKeyBytes_def RequestHeader_del_def)
  show "RequestHeader_Peek h k = nil_or (peekArgStr (fst (q_h h)) (normalizeHeaderKey k (q_disableNormalizing h)))"
    using request_peek_entries [OF n] by (simp add: RequestHeader_Peek_def getHeaderKeyBytes_def)
  show "(\<lambda>n. nil_or (peekArgStr (fst (q_h (RequestHeader_Set h k v))) n)) =
      (\<lambda>n. nil_or (peekArgStr (fst (q_h h)) n))(normalizeHeaderKey k (q_disableNormalizing h) := removeNewLines v)"
    by (auto simp: st RequestHeader_setNonSpecial_def setArgBytes_def argsHasValue_def peek_setArg nil_or_def fun_eq_iff)
  show "(\<lambda>n. nil_or (peekArgStr (fst (q_h (RequestHeader_Del h k))) n)) =
      (\<lambda>n. nil_or (peekArgStr (fst (q_h h)) n))(normalizeHeaderKey k (q_disableNormalizing h) := [])"
    by (auto simp: dl delAllArgsBytes_def fst_delAllArgs peek_filter nil_or_def fun_eq_iff)
  show "(\<lambda>n. normalizeHeaderKey n (q_disableNormalizing (RequestHeader_Set h k v))) =
      (\<lambda>n. normalizeHeaderKey n (q_disableNormalizing h))"
    by (simp add: st RequestHeader_setNonSpecial_def)
  show "(\<lambda>n. normalizeHeaderKey n (q_disableNormalizing (RequestHeader_Del h k))) =
      (\<lambda>n. normalizeHeaderKey n (q_disableNormalizing h))"
    by (simp add: dl)
qed

section \<open>Responses\<close>

definition response_ordinary :: "bytes \<Rightarrow> bool" where
  "response_ordinary k \<longleftrightarrow>
     list_all (\<lambda>s. \<not> caseInsensitiveCompare k s)
       [strContentType, strContentLength, strContentEncoding, strConnection, strServer, strSetCookie, strTransferEncoding,
        strTrailer, strDate]"

lemma response_ordinary_norm [simp]: "response_ordinary (normalizeHeaderKey k d) = response_ordinary k"
  by (simp add: response_ordinary_def)

lemma response_not_special: "response_ordinary k \<Longrightarrow> ResponseHeader_setSpecialHeader h k v = (False, h)"
  by (simp add: response_ordinary_def ResponseHeader_setSpecialHeader_def Let_def compare_sym [of _ k])

lemma response_peek_entries: "response_ordinary k \<Longrightarrow> ResponseHeader_peek h k = nil_or (peekArgStr (fst (p_h h)) k)"
  by (auto simp: response_ordinary_def ResponseHeader_peek_def peekArgBytes_def)

interpretation response_map: header_map ResponseHeader_Peek ResponseHeader_Set ResponseHeader_Del
  "\<lambda>h k. normalizeHeaderKey k (p_disableNormalizing h)" "\<lambda>h n. nil_or (peekArgStr (fst (p_h h)) n)" response_ordinary
proof unfold_locales
  fix h :: ResponseHeader and k v
  assume k: "response_ordinary k"
  have n: "response_ordinary (normalizeHeaderKey k (p_disableNormalizing h))" using k by simp
  have st: "ResponseHeader_Set h k v = ResponseHeader_setNonSpecial h (normalizeHeaderKey k (p_disableNormalizing h)) (removeNewLines v)"
    using response_not_special [OF n]
    by (simp add: ResponseHeader_Set_def initHeaderKV_def getHeaderKeyBytes_def ResponseHeader_SetCanonical_def)
  have dl: "ResponseHeader_Del h k = h\<lparr>p_h := delAllArgsBytes (p_h h) (normalizeHeaderKey k (p_disableNormalizing h))\<rparr>"
    using not_alike [OF n [unfolded response_ordinary_def]]
    by (simp add: ResponseHeader_Del_def getHeaderKeyBytes_def ResponseHeader_del_def)
  show "ResponseHeader_Peek h k = nil_or (peekArgStr (fst (p_h h)) (normalizeHeaderKey k (p_disableNormalizing h)))"
    using response_peek_entries [OF n] by (simp add: ResponseHeader_Peek_def getHeaderKeyBytes_def)
  show "(\<lambda>n. nil_or (peekArgStr (fst (p_h (ResponseHeader_Set h k v))) n)) =
      (\<lambda>n. nil_or (peekArgStr (fst (p_h h)) n))(normalizeHeaderKey k (p_disableNormalizing h) := removeNewLines v)"
    by (auto simp: st ResponseHeader_setNonSpecial_def setArgBytes_def argsHasValue_def peek_setArg nil_or_def fun_eq_iff)
  show "(\<lambda>n. nil_or (peekArgStr (fst (p_h (ResponseHeader_Del h k))) n)) =
      (\<lambda>n. nil_or (peekArgStr (fst (p_h h)) n))(normalizeHeaderKey k (p_disableNormalizing h) := [])"
    by (auto simp: dl delAllArgsBytes_def fst_delAllArgs peek_filter nil_or_def fun_eq_iff)
  show "(\<lambda>n. normalizeHeaderKey n (p_disableNormalizing (ResponseHeader_Set h k v))) =
      (\<lambda>n. normalizeHeaderKey n (p_disableNormalizing h))"
    by (simp add: st ResponseHeader_setNonSpecial_def)
  show "(\<lambda>n. normalizeHeaderKey n (p_disableNormalizing (ResponseHeader_Del h k))) =
      (\<lambda>n. normalizeHeaderKey n (p_disableNormalizing h))"
    by (simp add: dl)
qed

text \<open>Claim C18: The headers of a response refine a map from names to values. After any sequence of Set and Del
  with ordinary names, Peek of an ordinary name gives what the same sequence leaves in a map that is keyed by
  the normal form of the name and holds the value with its line ends blanked.\<close>

theorem response_headers_refine_map:
  assumes "list_all (\<lambda>x. response_ordinary (op_key x)) ops" and "response_ordinary k"
  shows "ResponseHeader_Peek (impl_run ResponseHeader_Set ResponseHeader_Del ops h) k =
         fold (header_spec_step (\<lambda>k. normalizeHeaderKey k (p_disableNormalizing h))) ops
           (\<lambda>n. nil_or (peekArgStr (fst (p_h h)) n)) (normalizeHeaderKey k (p_disableNormalizing h))"
  by (rule response_map.peek_refines [OF assms])

theorem response_headers_refine_map_witness:
  "ResponseHeader_Peek (impl_run ResponseHeader_Set ResponseHeader_Del
      [Put ''location'' ''/a'', Put ''x-id'' (''7'' @ [nChar]), dict_op.Del ''LOCATION''] zero_response_header) ''X-ID'' = ''7 ''"
proof -
  have o: "list_all (\<lambda>x. response_ordinary (op_key x))
      [Put ''location'' ''/a'', Put ''x-id'' (''7'' @ [nChar]), dict_op.Del ''LOCATION'']" "response_ordinary ''X-ID''"
    by code_simp+
  show ?thesis by (subst response_headers_refine_map [OF o]) code_simp
qed

end
