(* ===== verification/Body.thy ===== *)
theory Body
  imports Header_Read Round2
begin

text \<open>
  Message bodies on a buffered connection (the lower part of src/fasthttp/http.go and streaming.go): reading
  bodies of known length, chunked bodies and bodies that end with the connection, the stream that hands a
  body to a handler piece by piece, and writing chunked bodies.

  A slice with its capacity is a pair of its bytes and the capacity; the bytes behind its length are never
  seen, since the code cuts the slice to what it has read. A panic is \<open>None\<close>. Writes to the connection succeed.
\<close>

section \<open>Reading from the buffered connection\<close>

text \<open>Read of bufio.Reader: at most one read of the connection, which goes past the buffer when the
  destination is at least as large. A piece that is empty is a read of no bytes without an error.\<close>

definition Read :: "nat \<Rightarrow> reader \<Rightarrow> bytes \<times> conn_error option \<times> reader" where
  "Read n r =
     (if n = 0 then ([], None, r)
      else if rd_buf r \<noteq> [] then (take n (rd_buf r), None, r\<lparr>rd_buf := drop n (rd_buf r)\<rparr>)
      else case rd_src r of
             [] \<Rightarrow> ([], Some (rd_end r), r)
           | c # cs \<Rightarrow>
               if n \<ge> rd_size r then
                 (take n c, None, r\<lparr>rd_src := (if length c \<le> n then cs else drop n c # cs)\<rparr>)
               else
                 (take n (take (rd_size r) c), None,
                  r\<lparr>rd_buf := drop n (take (rd_size r) c),
                    rd_src := (if length c \<le> rd_size r then cs else drop (rd_size r) c # cs)\<rparr>))"

text \<open>ReadByte of bufio.Reader; its buffer is never of size 0. UnreadByte puts the byte back.\<close>

definition ReadByte :: "reader \<Rightarrow> (conn_error + char) \<times> reader" where
  "ReadByte r =
     (case fill_loop 1 r of
        (Some e, r') \<Rightarrow> (Inl e, r')
      | (None, r') \<Rightarrow> (case rd_buf r' of [] \<Rightarrow> (Inl (rd_end r'), r') | c # b \<Rightarrow> (Inr c, r'\<lparr>rd_buf := b\<rparr>)))"

definition UnreadByte :: "char \<Rightarrow> reader \<Rightarrow> reader" where
  "UnreadByte c r = r\<lparr>rd_buf := c # rd_buf r\<rparr>"

text \<open>All that is still to be read; every read of a byte shortens it.\<close>

definition rd_total :: "reader \<Rightarrow> nat" where
  "rd_total r = length (rd_buf r) + rd_left r"

lemma fill_total: "fill r = (None, r') \<Longrightarrow> rd_total r' \<le> rd_total r"
  by (auto simp: fill_def rd_total_def rd_left_def Let_def split: list.splits)

lemma fill_loop_total: "rd_total (snd (fill_loop n r)) \<le> rd_total r"
proof (induction n r rule: fill_loop.induct)
  case (1 n r)
  show ?case
  proof (cases "length (rd_buf r) < n \<and> length (rd_buf r) < rd_size r")
    case True
    obtain e r1 where f: "fill r = (e, r1)" by force
    show ?thesis
    proof (cases e)
      case None
      with 1 True f fill_total [of r r1] show ?thesis by (auto simp: fill_loop.simps [of n r])
    next
      case (Some a)
      with f have "r1 = r" by (auto simp: fill_def Let_def split: list.splits)
      with Some True f show ?thesis by (auto simp: fill_loop.simps [of n r])
    qed
  qed (auto simp: fill_loop.simps [of n r])
qed

lemma ReadByte_total: "ReadByte r = (Inr c, r') \<Longrightarrow> rd_total r' < rd_total r"
  using fill_loop_total [of 1 r]
  by (auto simp: ReadByte_def rd_total_def rd_left_def split: prod.splits option.splits list.splits)

lemma ReadByte_total_le: "rd_total (snd (ReadByte r)) \<le> rd_total r"
  using fill_loop_total [of 1 r]
  by (auto simp: ReadByte_def rd_total_def rd_left_def split: prod.splits option.splits list.splits)

lemma UnreadByte_total: "ReadByte r = (Inr c, r') \<Longrightarrow> rd_total (UnreadByte c r') \<le> rd_total r"
  using ReadByte_total [of r c r'] by (simp add: UnreadByte_def rd_total_def rd_left_def)

lemma Read_total: "Read n r = (b, e, r') \<Longrightarrow> rd_total r' + length b \<le> rd_total r"
  by (auto simp: Read_def rd_total_def rd_left_def split: list.splits if_splits)

lemma Read_length: "Read n r = (b, e, r') \<Longrightarrow> length b \<le> n"
  by (auto simp: Read_def split: list.splits if_splits)

section \<open>Errors\<close>

datatype broken_chunk = CannotRead char conn_error | UnexpectedChar char char | NoCrlf

datatype body_error =
  BodyConn conn_error | ErrUnexpectedEOF | ErrBodyTooLarge | NoBytes | ErrBrokenChunk broken_chunk
| HexNum hex_error | errChunkedStream | TrailerError read_error

section \<open>Chunk sizes\<close>

function read_hex_bytes :: "reader \<Rightarrow> nat \<Rightarrow> int \<Rightarrow> (body_error + int) \<times> reader" where
  "read_hex_bytes r i n =
     (case ReadByte r of
        (Inl e, r') \<Rightarrow> (if e = EOF \<and> i > 0 then Inr n else Inl (BodyConn e), r')
      | (Inr c, r') \<Rightarrow>
          (let k = hex2intTable c
           in if k = 16 then
                (if i = 0 then (Inl (HexNum errEmptyHexNum), r') else (Inr n, UnreadByte c r'))
              else if i \<ge> maxHexIntChars then (Inl (HexNum errTooLargeHexNum), r')
              else read_hex_bytes r' (Suc i) (push_bit 4 n OR int k)))"
  by pat_completeness auto
termination
  by (relation "measure (\<lambda>(r, i, n). rd_total r)") (auto dest: ReadByte_total [OF sym])

declare read_hex_bytes.simps [simp del]

text \<open>The bytes behind the size up to the carriage return are skipped.\<close>

function skip_extension :: "reader \<Rightarrow> (body_error + unit) \<times> reader" where
  "skip_extension r =
     (case ReadByte r of
        (Inl e, r') \<Rightarrow> (Inl (ErrBrokenChunk (CannotRead rChar e)), r')
      | (Inr c, r') \<Rightarrow> if c \<noteq> rChar then skip_extension r' else (Inr (), UnreadByte c r'))"
  by pat_completeness auto
termination
  by (relation "measure rd_total") (auto dest: ReadByte_total [OF sym])

declare skip_extension.simps [simp del]

fun expect_bytes :: "bytes \<Rightarrow> reader \<Rightarrow> (body_error + unit) \<times> reader" where
  "expect_bytes [] r = (Inr (), r)"
| "expect_bytes (x # xs) r =
     (case ReadByte r of
        (Inl e, r') \<Rightarrow> (Inl (ErrBrokenChunk (CannotRead x e)), r')
      | (Inr c, r') \<Rightarrow>
          if c \<noteq> x then (Inl (ErrBrokenChunk (UnexpectedChar c x)), r') else expect_bytes xs r')"

definition readCrLf :: "reader \<Rightarrow> (body_error + unit) \<times> reader" where
  "readCrLf r = expect_bytes [rChar, nChar] r"

definition parseChunkSize :: "reader \<Rightarrow> (body_error + int) \<times> reader" where
  "parseChunkSize r =
     (case read_hex_bytes r 0 0 of
        (Inl e, r') \<Rightarrow> (Inl e, r')
      | (Inr n, r') \<Rightarrow>
          (case skip_extension r' of
             (Inl e, r'') \<Rightarrow> (Inl e, r'')
           | (Inr _, r'') \<Rightarrow>
               (case readCrLf r'' of (Inl e, r3) \<Rightarrow> (Inl e, r3) | (Inr _, r3) \<Rightarrow> (Inr n, r3))))"

lemma read_hex_bytes_total: "rd_total (snd (read_hex_bytes r i n)) \<le> rd_total r"
proof (induction r i n rule: read_hex_bytes.induct)
  case (1 r i n)
  obtain x r' where x: "ReadByte r = (x, r')" by force
  show ?case
  proof (cases x)
    case (Inl e)
    with x ReadByte_total_le [of r] show ?thesis by (auto simp: read_hex_bytes.simps [of r i n])
  next
    case (Inr c)
    with x have c: "ReadByte r = (Inr c, r')" by simp
    show ?thesis using "1.IH" [OF c [symmetric] refl refl] ReadByte_total [OF c] UnreadByte_total [OF c] c
      by (force simp: read_hex_bytes.simps [of r i n] Let_def)
  qed
qed

lemma skip_extension_total: "rd_total (snd (skip_extension r)) \<le> rd_total r"
proof (induction r rule: skip_extension.induct)
  case (1 r)
  obtain x r' where x: "ReadByte r = (x, r')" by force
  show ?case
  proof (cases x)
    case (Inl e)
    with x ReadByte_total_le [of r] show ?thesis by (auto simp: skip_extension.simps [of r])
  next
    case (Inr c)
    with x have c: "ReadByte r = (Inr c, r')" by simp
    show ?thesis using "1.IH" [OF c [symmetric] refl] ReadByte_total [OF c] UnreadByte_total [OF c] c
      by (force simp: skip_extension.simps [of r])
  qed
qed

lemma readCrLf_total: "readCrLf r = (Inr u, r') \<Longrightarrow> rd_total r' < rd_total r"
  using ReadByte_total [of r rChar] by (fastforce simp: readCrLf_def dest: ReadByte_total split: prod.splits sum.splits if_splits)

lemma parseChunkSize_total: "parseChunkSize r = (Inr n, r') \<Longrightarrow> rd_total r' < rd_total r"
proof -
  assume "parseChunkSize r = (Inr n, r')"
  then obtain r1 r2 u v where s: "read_hex_bytes r 0 0 = (Inr n, r1)" "skip_extension r1 = (Inr u, r2)" "readCrLf r2 = (Inr v, r')"
    by (auto simp: parseChunkSize_def split: prod.splits sum.splits)
  show ?thesis
    using read_hex_bytes_total [of r 0 0] skip_extension_total [of r1] readCrLf_total [OF s(3)] s(1,2) by simp
qed

section \<open>Bodies of known length\<close>

text \<open>A slice of more bytes than the address space of the runtime holds cannot be made: make panics.\<close>

definition maxAlloc :: int where "maxAlloc = 2 ^ 48"

type_synonym slice_cap = "bytes \<times> nat"

function fixed_loop :: "nat \<Rightarrow> bytes \<Rightarrow> reader \<Rightarrow> bytes \<times> body_error option \<times> reader" where
  "fixed_loop need dst r =
     (case Read need r of (b, err, r') \<Rightarrow>
        if b = [] then
          (dst, Some (case err of Some EOF \<Rightarrow> ErrUnexpectedEOF | Some e \<Rightarrow> BodyConn e | None \<Rightarrow> NoBytes), r')
        else if length b \<ge> need then (dst @ b, None, r')
        else fixed_loop (need - length b) (dst @ b) r')"
  by pat_completeness auto
termination
  by (relation "measure (\<lambda>(need, dst, r). need)") auto

declare fixed_loop.simps [simp del]

text \<open>A negative length makes the code slice behind the end, which panics.\<close>

definition appendBodyFixedSize :: "reader \<Rightarrow> slice_cap \<Rightarrow> int \<Rightarrow> (slice_cap \<times> body_error option \<times> reader) go" where
  "appendBodyFixedSize r dst n =
     (if n = 0 then Some (dst, None, r)
      else
        let dstLen = wrap64 (int (length (fst dst)) + n);
            cap = (if int (snd dst) < dstLen then roundUpForSliceCap dstLen else int (snd dst))
        in if dstLen < int (length (fst dst)) \<or> int (snd dst) < dstLen \<and> cap > maxAlloc then None
           else let (b, err, r') = fixed_loop (nat n) (fst dst) r in Some ((b, nat cap), err, r'))"

definition readBody :: "reader \<Rightarrow> int \<Rightarrow> int \<Rightarrow> slice_cap \<Rightarrow> (slice_cap \<times> body_error option \<times> reader) go" where
  "readBody r contentLength maxBodySize dst =
     (if maxBodySize > 0 \<and> contentLength > maxBodySize then Some (dst, Some ErrBodyTooLarge, r)
      else appendBodyFixedSize r dst contentLength)"

section \<open>Bodies up to the end of the connection\<close>

function identity_loop :: "int \<Rightarrow> bytes \<Rightarrow> nat \<Rightarrow> reader \<Rightarrow> (slice_cap \<times> body_error option \<times> reader) go" where
  "identity_loop maxBodySize dst len r =
     (case Read (len - length dst) r of (b, err, r') \<Rightarrow>
        if b = [] then
          Some ((dst, len), (case err of Some EOF \<Rightarrow> None | Some e \<Rightarrow> Some (BodyConn e) | None \<Rightarrow> Some NoBytes), r')
        else
          let dst = dst @ b; offset = int (length dst)
          in if maxBodySize > 0 \<and> offset > maxBodySize then Some ((dst, len), Some ErrBodyTooLarge, r')
             else if len = length dst then
               let n = roundUpForSliceCap (wrap64 (2 * offset));
                   n = (if maxBodySize > 0 \<and> n > maxBodySize then wrap64 (maxBodySize + 1) else n)
               in if n < 0 \<or> n > maxAlloc then None else identity_loop maxBodySize dst (nat n) r'
             else identity_loop maxBodySize dst len r')"
  by pat_completeness auto
termination
  by (relation "measure (\<lambda>(m, dst, len, r). rd_total r)")
    (auto dest!: Read_total [OF sym] simp: neq_Nil_conv)

declare identity_loop.simps [simp del]

definition readBodyIdentity :: "reader \<Rightarrow> int \<Rightarrow> slice_cap \<Rightarrow> (slice_cap \<times> body_error option \<times> reader) go" where
  "readBodyIdentity r maxBodySize dst =
     identity_loop maxBodySize [] (if snd dst = 0 then 1024 else snd dst) r"

section \<open>Chunked bodies\<close>

lemma fixed_loop_total: "rd_total (snd (snd (fixed_loop need dst r))) \<le> rd_total r"
proof (induction need dst r rule: fixed_loop.induct)
  case (1 need dst r)
  obtain b e r' where b: "Read need r = (b, e, r')" using prod_cases3 by blast
  show ?case
  proof (cases "b = [] \<or> need \<le> length b")
    case False
    then have "rd_total (snd (snd (fixed_loop (need - length b) (dst @ b) r'))) \<le> rd_total r'"
      using "1.IH" [OF b [symmetric] refl] by simp
    with False Read_total [OF b] b show ?thesis by (simp add: fixed_loop.simps [of need dst r])
  qed (use Read_total [OF b] b in \<open>auto simp: fixed_loop.simps [of need dst r]\<close>)
qed

lemma appendBodyFixedSize_total:
  "appendBodyFixedSize r dst n = Some (d, e, r') \<Longrightarrow> rd_total r' \<le> rd_total r"
  using fixed_loop_total [of "nat n" "fst dst" r]
  by (auto simp: appendBodyFixedSize_def Let_def split: if_splits prod.splits)

function chunked_loop :: "int \<Rightarrow> slice_cap \<Rightarrow> reader \<Rightarrow> (slice_cap \<times> body_error option \<times> reader) go" where
  "chunked_loop maxBodySize dst r =
     (case parseChunkSize r of
        (Inl e, r1) \<Rightarrow> Some (dst, Some e, r1)
      | (Inr chunkSize, r1) \<Rightarrow>
          if chunkSize = 0 then Some (dst, None, r1)
          else if maxBodySize > 0 \<and> int (length (fst dst)) + chunkSize > maxBodySize then
            Some (dst, Some ErrBodyTooLarge, r1)
          else
            (case appendBodyFixedSize r1 dst (chunkSize + 2) of
               None \<Rightarrow> None
             | Some (d, Some e, r2) \<Rightarrow> Some (d, Some e, r2)
             | Some (d, None, r2) \<Rightarrow>
                 if drop (length (fst d) - 2) (fst d) \<noteq> strCRLF then
                   Some (d, Some (ErrBrokenChunk NoCrlf), r2)
                 else chunked_loop maxBodySize (take (length (fst d) - 2) (fst d), snd d) r2))"
  by pat_completeness auto
termination
  by (relation "measure (\<lambda>(m, dst, r). rd_total r)")
    (auto dest!: parseChunkSize_total [OF sym] appendBodyFixedSize_total)

declare chunked_loop.simps [simp del]

definition readBodyChunked :: "reader \<Rightarrow> int \<Rightarrow> slice_cap \<Rightarrow> (slice_cap \<times> body_error option \<times> reader) go" where
  "readBodyChunked r maxBodySize dst =
     (if length (fst dst) > 0 then None else chunked_loop maxBodySize dst r)"

section \<open>Streams\<close>

definition readBodyWithStreaming ::
  "reader \<Rightarrow> int \<Rightarrow> int \<Rightarrow> slice_cap \<Rightarrow> (slice_cap \<times> body_error option \<times> reader) go" where
  "readBodyWithStreaming r contentLength maxBodySize dst =
     (if contentLength = - 1 then Some (([], 0), Some errChunkedStream, r)
      else
        let dst = ([], snd dst);
            readN = maxBodySize;
            readN = (if readN > contentLength then contentLength else readN);
            readN = (if readN > 8 * 1024 then 8 * 1024 else readN)
        in case (if contentLength \<ge> 0 \<and> maxBodySize \<ge> contentLength then appendBodyFixedSize r dst readN
                 else readBodyIdentity r readN dst) of
             None \<Rightarrow> None
           | Some (b, Some e, r') \<Rightarrow> Some (b, Some e, r')
           | Some (b, None, r') \<Rightarrow>
               Some (b, if contentLength > maxBodySize then Some ErrBodyTooLarge else None, r'))"

text \<open>The stream of a body: the bytes read in advance with the position in them, the number of bytes handed out
  and what is left of the current chunk. The header and the connection are arguments of Read.\<close>

record requestStream =
  prefetchedBytes :: bytes
  prefetchedPos :: nat
  totalBytesRead :: int
  chunkLeft :: int

definition acquireRequestStream :: "bytes \<Rightarrow> requestStream" where
  "acquireRequestStream b = \<lparr>prefetchedBytes = b, prefetchedPos = 0, totalBytesRead = 0, chunkLeft = 0\<rparr>"

text \<open>The header as the stream uses it: ContentLength and ReadTrailer.\<close>

record 'h headerInterface =
  hi_ContentLength :: "'h \<Rightarrow> int"
  hi_ReadTrailer :: "'h \<Rightarrow> reader \<Rightarrow> (read_error option \<times> 'h \<times> reader) go"

definition request_interface :: "RequestHeader headerInterface" where
  "request_interface = \<lparr>hi_ContentLength = RequestHeader_ContentLength, hi_ReadTrailer = RequestHeader_ReadTrailer\<rparr>"

definition response_interface :: "ResponseHeader headerInterface" where
  "response_interface = \<lparr>hi_ContentLength = ResponseHeader_ContentLength, hi_ReadTrailer = ResponseHeader_ReadTrailer\<rparr>"

text \<open>Read of a chunked body: a new chunk when the last one is used up, the trailer behind the last one.\<close>

definition stream_chunk ::
  "requestStream \<Rightarrow> 'h \<Rightarrow> nat \<Rightarrow> reader \<Rightarrow> (bytes \<times> body_error option \<times> requestStream \<times> 'h \<times> reader) go" where
  "stream_chunk rs h lenp r =
     (let bytesToRead = (if chunkLeft rs < int lenp then chunkLeft rs else int lenp)
      in if bytesToRead < 0 then None
         else
           let (b, err, r1) = Read (nat bytesToRead) r;
               rs1 = rs\<lparr>totalBytesRead := totalBytesRead rs + int (length b), chunkLeft := chunkLeft rs - int (length b)\<rparr>;
               err1 = (case err of Some EOF \<Rightarrow> Some ErrUnexpectedEOF | Some e \<Rightarrow> Some (BodyConn e) | None \<Rightarrow> None)
           in if err1 = None \<and> chunkLeft rs1 = 0 then
                (case readCrLf r1 of (Inl e, r2) \<Rightarrow> Some (b, Some e, rs1, h, r2) | (Inr _, r2) \<Rightarrow> Some (b, None, rs1, h, r2))
              else Some (b, err1, rs1, h, r1))"

definition requestStream_Read ::
  "'h headerInterface \<Rightarrow> requestStream \<Rightarrow> 'h \<Rightarrow> nat \<Rightarrow> reader \<Rightarrow>
     (bytes \<times> body_error option \<times> requestStream \<times> 'h \<times> reader) go" where
  "requestStream_Read H rs h lenp r =
     (if hi_ContentLength H h = - 1 then
        (if chunkLeft rs = 0 then
           (case parseChunkSize r of
              (Inl e, r1) \<Rightarrow> Some ([], Some e, rs, h, r1)
            | (Inr chunkSize, r1) \<Rightarrow>
                if chunkSize = 0 then
                  (case hi_ReadTrailer H h r1 of
                     None \<Rightarrow> None
                   | Some (e, h', r2) \<Rightarrow>
                       Some ([], Some (case e of
                                         None \<Rightarrow> BodyConn EOF
                                       | Some ReadEOF \<Rightarrow> BodyConn EOF
                                       | Some e \<Rightarrow> TrailerError e), rs, h', r2))
                else stream_chunk (rs\<lparr>chunkLeft := chunkSize\<rparr>) h lenp r1)
         else stream_chunk rs h lenp r)
      else if totalBytesRead rs = hi_ContentLength H h then Some ([], Some (BodyConn EOF), rs, h, r)
      else
        let prefetchedSize = int (length (prefetchedBytes rs))
        in if prefetchedSize > totalBytesRead rs then
             let left = prefetchedSize - totalBytesRead rs;
                 n = (if int lenp > left then nat left else lenp);
                 b = take n (drop (prefetchedPos rs) (prefetchedBytes rs));
                 err = (if prefetchedPos rs \<ge> length (prefetchedBytes rs) then Some (BodyConn EOF) else None);
                 rs1 = rs\<lparr>prefetchedPos := prefetchedPos rs + length b, totalBytesRead := totalBytesRead rs + int (length b)\<rparr>
             in Some (b, if int (length b) = hi_ContentLength H h then Some (BodyConn EOF) else err, rs1, h, r)
           else
             let left = hi_ContentLength H h - totalBytesRead rs;
                 n = (if int lenp > left then left else int lenp)
             in if n < 0 then None
                else
                  let (b, err, r1) = Read (nat n) r;
                      rs1 = rs\<lparr>totalBytesRead := totalBytesRead rs + int (length b)\<rparr>
                  in Some (b, (case err of
                                 Some e \<Rightarrow> Some (BodyConn e)
                               | None \<Rightarrow> if totalBytesRead rs1 = hi_ContentLength H h then Some (BodyConn EOF) else None),
                           rs1, h, r1))"

section \<open>Writing\<close>

text \<open>A body that is sent: what its successive reads give, the error at their end, the size where it is
  an io.LimitedReader, and the error of Close where it is an io.Closer.\<close>

record source =
  src_pieces :: "bytes list"
  src_end :: conn_error
  src_limit :: "int option"
  src_close :: "conn_error option"

definition limitedReaderSize :: "source \<Rightarrow> int" where
  "limitedReaderSize r = (case src_limit r of None \<Rightarrow> - 1 | Some n \<Rightarrow> n)"

definition writeChunk :: "bytes \<Rightarrow> bytes \<Rightarrow> bytes go" where
  "writeChunk w b =
     map_option (\<lambda>w. (w @ strCRLF @ b) @ (if length b > 0 then strCRLF else [])) (writeHexInt w (int (length b)))"

function write_chunked_loop :: "bytes \<Rightarrow> bytes list \<Rightarrow> conn_error \<Rightarrow> (conn_error option \<times> bytes) go" where
  "write_chunked_loop w [] e =
     (if e = EOF then map_option (\<lambda>w. (None, w)) (writeChunk w []) else Some (Some e, w))"
| "write_chunked_loop w (c # cs) e =
     (if c = [] then write_chunked_loop w cs e
      else case writeChunk w (take 4096 c) of
             None \<Rightarrow> None
           | Some w' \<Rightarrow> write_chunked_loop w' (if length c \<le> 4096 then cs else drop 4096 c # cs) e)"
  by pat_completeness auto
termination
  by (relation "measure (\<lambda>(w, cs, e). sum_list (map (\<lambda>c. Suc (length c)) cs))") auto

declare write_chunked_loop.simps [simp del]

definition writeBodyChunked :: "bytes \<Rightarrow> source \<Rightarrow> (conn_error option \<times> bytes) go" where
  "writeBodyChunked w r = write_chunked_loop w (src_pieces r) (src_end r)"

datatype copy_error = CopyError conn_error | CopiedInstead nat int

definition writeBodyFixedSize :: "bytes \<Rightarrow> source \<Rightarrow> int \<Rightarrow> copy_error option \<times> bytes" where
  "writeBodyFixedSize w r sz =
     (let b = concat (src_pieces r)
      in (if src_end r \<noteq> EOF then Some (CopyError (src_end r))
          else if int (length b) \<noteq> sz then Some (CopiedInstead (length b) sz) else None, w @ b))"

end
