(* ===== verification/Body_Correct.thy ===== *)
theory Body_Correct
  imports Body
begin

text \<open>
  What the readers of bodies do on the bytes a connection delivers, however it cuts them into pieces. The
  state of a reader is abstracted to the bytes still to come (\<open>stream\<close>); on this abstraction every read is a
  function of the bytes alone.
\<close>

section \<open>The bytes to come\<close>

definition stream :: "reader \<Rightarrow> nat \<Rightarrow> conn_error \<Rightarrow> bytes \<Rightarrow> bool" where
  "stream r s e x \<longleftrightarrow> 0 < s \<and> rd_size r = s \<and> rd_end r = e \<and> [] \<notin> set (rd_src r) \<and> rd_buf r @ concat (rd_src r) = x"

lemma stream_fill:
  assumes "stream r s e x" and "rd_buf r = []"
  shows "x = [] \<Longrightarrow> fill r = (Some e, r)"
    and "x \<noteq> [] \<Longrightarrow> \<exists>r'. fill r = (None, r') \<and> stream r' s e x \<and> rd_buf r' \<noteq> []"
  using assms by (cases "rd_src r"; auto simp: stream_def fill_def Let_def)+

lemma fill_loop_stream:
  assumes "stream r s e x"
  shows "x = [] \<Longrightarrow> fill_loop 1 r = (Some e, r)"
    and "x \<noteq> [] \<Longrightarrow> \<exists>r'. fill_loop 1 r = (None, r') \<and> stream r' s e x \<and> rd_buf r' \<noteq> []"
proof -
  have s: "0 < rd_size r" using assms by (simp add: stream_def)
  { assume x: "x = []"
    then have b: "rd_buf r = []" using assms by (simp add: stream_def)
    show "fill_loop 1 r = (Some e, r)"
      using s b stream_fill(1) [OF assms b x] by (simp add: fill_loop.simps [of "Suc 0" r]) }
  { assume x: "x \<noteq> []"
    show "\<exists>r'. fill_loop 1 r = (None, r') \<and> stream r' s e x \<and> rd_buf r' \<noteq> []"
    proof (cases "rd_buf r = []")
      case True
      from stream_fill(2) [OF assms True x] obtain r' where "fill r = (None, r')" "stream r' s e x" "rd_buf r' \<noteq> []"
        by blast
      then show ?thesis using s True by (simp add: fill_loop.simps [of "Suc 0" r] fill_loop.simps [of "Suc 0" r'] Suc_le_eq)
    qed (use assms in \<open>auto simp: fill_loop.simps [of "Suc 0" r] Suc_le_eq\<close>) }
qed

lemma ReadByte_nil: "stream r s e [] \<Longrightarrow> ReadByte r = (Inl e, r)"
  using fill_loop_stream(1) [of r s e "[]"] by (simp add: ReadByte_def)

lemma ReadByte_cons:
  assumes "stream r s e (c # x)"
  shows "\<exists>r'. ReadByte r = (Inr c, r') \<and> stream r' s e x"
proof -
  from fill_loop_stream(2) [OF assms] obtain r' where r': "fill_loop 1 r = (None, r')" "stream r' s e (c # x)" "rd_buf r' \<noteq> []"
    by blast
  then obtain b where "rd_buf r' = c # b" by (cases "rd_buf r'") (auto simp: stream_def)
  with r' show ?thesis by (auto simp: ReadByte_def stream_def)
qed

lemma UnreadByte_stream: "stream r s e x \<Longrightarrow> stream (UnreadByte c r) s e (c # x)"
  by (simp add: stream_def UnreadByte_def)

lemma Read_nil: "stream r s e [] \<Longrightarrow> 0 < n \<Longrightarrow> Read n r = ([], Some e, r)"
  by (cases "rd_src r") (auto simp: stream_def Read_def)

lemma Read_stream:
  assumes "stream r s e x" and "x \<noteq> []" and "0 < n"
  shows "\<exists>k r'. 0 < k \<and> k \<le> n \<and> k \<le> length x \<and> Read n r = (take k x, None, r') \<and> stream r' s e (drop k x)"
proof (cases "rd_buf r = []")
  case False
  have "Read n r = (take (min n (length (rd_buf r))) x, None, r\<lparr>rd_buf := drop n (rd_buf r)\<rparr>)"
    using False assms by (auto simp: Read_def stream_def min_def)
  moreover have "stream (r\<lparr>rd_buf := drop n (rd_buf r)\<rparr>) s e (drop (min n (length (rd_buf r))) x)"
    using assms by (auto simp: stream_def min_def)
  moreover have "0 < min n (length (rd_buf r))" "min n (length (rd_buf r)) \<le> n" "min n (length (rd_buf r)) \<le> length x"
    using False assms by (auto simp: stream_def)
  ultimately show ?thesis by blast
next
  case True
  have split_drop: "drop i (take j c) @ drop j c = drop i c" if "i \<le> j" for i j and c :: bytes
    using append_take_drop_id [of j c] that by (metis drop_append drop_take length_take drop_drop le_add_diff_inverse2 append_take_drop_id add.commute)
  from True obtain c cs where c: "rd_src r = c # cs" "c \<noteq> []" "x = c @ concat cs"
    using assms by (cases "rd_src r") (auto simp: stream_def)
  define k where "k = (if n \<ge> s then min n (length c) else min n (min s (length c)))"
  have k: "0 < k" "k \<le> n" "k \<le> length x" using c assms by (auto simp: k_def stream_def)
  show ?thesis
  proof (cases "n \<ge> s")
    case t: True
    have "Read n r = (take k x, None, r\<lparr>rd_src := (if length c \<le> n then cs else drop n c # cs)\<rparr>)"
      using True t assms c by (auto simp: Read_def stream_def k_def min_def)
    moreover have "stream (r\<lparr>rd_src := (if length c \<le> n then cs else drop n c # cs)\<rparr>) s e (drop k x)"
      using True t assms c by (auto simp: stream_def k_def min_def)
    ultimately show ?thesis using k by blast
  next
    case f: False
    have "Read n r = (take k x, None, r\<lparr>rd_buf := drop n (take s c), rd_src := (if length c \<le> s then cs else drop s c # cs)\<rparr>)"
      using True f assms c by (auto simp: Read_def stream_def k_def min_def)
    moreover have "stream (r\<lparr>rd_buf := drop n (take s c), rd_src := (if length c \<le> s then cs else drop s c # cs)\<rparr>) s e (drop k x)"
      using True f assms c split_drop [of n s c] by (auto simp: stream_def k_def min_def)
    ultimately show ?thesis using k by blast
  qed
qed

section \<open>Bodies of known length\<close>

lemma fixed_loop_stream:
  "stream r s e x \<Longrightarrow> 0 < n \<Longrightarrow> n \<le> length x \<Longrightarrow>
     \<exists>r'. fixed_loop n dst r = (dst @ take n x, None, r') \<and> stream r' s e (drop n x)"
proof (induction n arbitrary: r dst x rule: less_induct)
  case (less n)
  then have "x \<noteq> []" by auto
  from Read_stream [OF less.prems(1) this less.prems(2)] obtain k r1 where
    k: "0 < k" "k \<le> n" "k \<le> length x" "Read n r = (take k x, None, r1)" "stream r1 s e (drop k x)" by blast
  then have ne: "take k x \<noteq> []" by auto
  show ?case
  proof (cases "k = n")
    case True
    with k ne show ?thesis by (simp add: fixed_loop.simps [of n])
  next
    case False
    have l: "n - k < n" "0 < n - k" "n - k \<le> length (drop k x)" using False k less.prems by auto
    from less.IH [OF l(1) k(5) l(2,3), of "dst @ take k x"] obtain r' where r':
      "fixed_loop (n - k) (dst @ take k x) r1 = ((dst @ take k x) @ take (n - k) (drop k x), None, r')"
      "stream r' s e (drop (n - k) (drop k x))" by blast
    have t: "take k x @ take (n - k) (drop k x) = take n x" "drop (n - k) (drop k x) = drop n x"
      using k(2) take_add [of k "n - k" x] by simp_all
    have m: "min (length x) k = k" using k by simp
    show ?thesis using False k ne r' t by (simp add: fixed_loop.simps [of n] m min.commute)
  qed
qed

lemma fixed_loop_short:
  "stream r s e x \<Longrightarrow> length x < n \<Longrightarrow>
     \<exists>r'. fixed_loop n dst r = (dst @ x, Some (if e = EOF then ErrUnexpectedEOF else BodyConn e), r') \<and> stream r' s e []"
proof (induction n arbitrary: r dst x rule: less_induct)
  case (less n)
  show ?case
  proof (cases "x = []")
    case True
    with less.prems Read_nil [of r s e n] show ?thesis by (cases e) (auto simp: fixed_loop.simps [of n])
  next
    case False
    from Read_stream [OF less.prems(1) this, of n] less.prems(2) obtain k r1 where
      k: "0 < k" "k \<le> n" "k \<le> length x" "Read n r = (take k x, None, r1)" "stream r1 s e (drop k x)" by auto
    then have ne: "take k x \<noteq> []" "\<not> n \<le> length (take k x)" using less.prems False by auto
    have l: "n - k < n" "length (drop k x) < n - k" using k less.prems by auto
    from less.IH [OF l(1) k(5) l(2), of "dst @ take k x"] obtain r' where r':
      "fixed_loop (n - k) (dst @ take k x) r1 = ((dst @ take k x) @ drop k x, Some (if e = EOF then ErrUnexpectedEOF else BodyConn e), r')"
      "stream r' s e []" by blast
    have m: "min (length x) k = k" using k by simp
    show ?thesis using k(4) ne r' by (auto simp: fixed_loop.simps [of n] m)
  qed
qed

lemma roundUp_alloc: "0 < n \<Longrightarrow> n \<le> maxAlloc \<Longrightarrow> n \<le> roundUpForSliceCap n \<and> roundUpForSliceCap n \<le> maxAlloc"
  using roundUpForSliceCap_least [of n] by (cases "n \<le> 104857600") (auto simp: maxAlloc_def)

lemma append_fixed_cases:
  assumes "0 < n" and "int (length b) + n \<le> maxAlloc"
  shows "\<exists>c'. int (length b) + n \<le> int c' \<and> appendBodyFixedSize r (b, c) n =
           (case fixed_loop (nat n) b r of (d, err, r') \<Rightarrow> Some ((d, c'), err, r'))"
proof -
  have w: "wrap64 (int (length b) + n) = int (length b) + n"
    using assms by (intro wrap64_id) (auto simp: maxAlloc_def)
  show ?thesis
    using assms roundUp_alloc [of "int (length b) + n"]
    by (intro exI [of _ "nat (if int c < int (length b) + n then roundUpForSliceCap (int (length b) + n) else int c)"])
      (auto simp: appendBodyFixedSize_def w Let_def split: prod.split)
qed

lemma append_fixed_stream:
  assumes "stream r s e x" and "0 < n" and "n \<le> int (length x)" and "int (length b) + n \<le> maxAlloc"
  shows "\<exists>c' r'. appendBodyFixedSize r (b, c) n = Some ((b @ take (nat n) x, c'), None, r') \<and> stream r' s e (drop (nat n) x)"
proof -
  obtain r' where "fixed_loop (nat n) b r = (b @ take (nat n) x, None, r')" "stream r' s e (drop (nat n) x)"
    using fixed_loop_stream [OF assms(1), of "nat n" b] assms(2,3) by (auto simp: nat_le_iff)
  with append_fixed_cases [OF assms(2,4), of r c] show ?thesis by auto
qed

section \<open>Chunk sizes\<close>

lemma read_hex_bytes_stream:
  "stream r s e x \<Longrightarrow> read_hex_loop x i n = ((v, None), y) \<Longrightarrow> y \<noteq> [] \<Longrightarrow>
     \<exists>r'. read_hex_bytes r i n = (Inr v, r') \<and> stream r' s e y"
proof (induction x i n arbitrary: r rule: read_hex_loop.induct)
  case (1 i n)
  then show ?case by (auto split: if_splits)
next
  case (2 c x i n)
  from ReadByte_cons [OF "2.prems"(1)] obtain r1 where r1: "ReadByte r = (Inr c, r1)" "stream r1 s e x" by blast
  show ?case
  proof (cases "hex2intTable c = 16 \<or> i \<ge> maxHexIntChars")
    case True
    with "2.prems" r1 UnreadByte_stream [OF r1(2), of c] show ?thesis
      by (auto simp: read_hex_bytes.simps [of r] Let_def split: if_splits)
  next
    case False
    with "2.prems" have "read_hex_loop x (Suc i) (push_bit 4 n OR int (hex2intTable c)) = ((v, None), y)"
      by (simp add: Let_def)
    from "2.IH" [OF refl _ _ r1(2) this "2.prems"(3)] False r1(1) show ?thesis
      by (auto simp: read_hex_bytes.simps [of r] Let_def)
  qed
qed

lemma skip_extension_stream:
  "stream r s e (x @ rChar # y) \<Longrightarrow> rChar \<notin> set x \<Longrightarrow>
     \<exists>r'. skip_extension r = (Inr (), r') \<and> stream r' s e (rChar # y)"
proof (induction x arbitrary: r)
  case Nil
  then obtain r1 where "ReadByte r = (Inr rChar, r1)" "stream r1 s e y" using ReadByte_cons by fastforce
  then show ?case using UnreadByte_stream [of r1 s e y rChar] by (auto simp: skip_extension.simps [of r])
next
  case (Cons c x)
  then obtain r1 where r1: "ReadByte r = (Inr c, r1)" "stream r1 s e (x @ rChar # y)" using ReadByte_cons by fastforce
  with Cons show ?case by (fastforce simp: skip_extension.simps [of r])
qed

lemma readCrLf_stream: "stream r s e (rChar # nChar # y) \<Longrightarrow> \<exists>r'. readCrLf r = (Inr (), r') \<and> stream r' s e y"
proof -
  assume "stream r s e (rChar # nChar # y)"
  from ReadByte_cons [OF this] obtain r1 where r1: "ReadByte r = (Inr rChar, r1)" "stream r1 s e (nChar # y)" by blast
  from ReadByte_cons [OF r1(2)] obtain r2 where "ReadByte r1 = (Inr nChar, r2)" "stream r2 s e y" by blast
  with r1 show ?thesis by (simp add: readCrLf_def)
qed

text \<open>A chunk size in hexadecimal, an extension without a carriage return, and the end of the line.\<close>

lemma parseChunkSize_stream:
  assumes "stream r s e (t @ ext @ rChar # nChar # y)" and "rChar \<notin> set ext"
    and "readHexInt (t @ ext @ rChar # nChar # y) = ((n, None), ext @ rChar # nChar # y)"
  shows "\<exists>r'. parseChunkSize r = (Inr n, r') \<and> stream r' s e y"
proof -
  from read_hex_bytes_stream [OF assms(1), of 0 0 n "ext @ rChar # nChar # y"] assms(3) obtain r1 where
    r1: "read_hex_bytes r 0 0 = (Inr n, r1)" "stream r1 s e (ext @ rChar # nChar # y)" by (auto simp: readHexInt_def)
  from skip_extension_stream [OF r1(2) assms(2)] obtain r2 where
    r2: "skip_extension r1 = (Inr (), r2)" "stream r2 s e (rChar # nChar # y)" by blast
  from readCrLf_stream [OF r2(2)] r1(1) r2(1) show ?thesis by (auto simp: parseChunkSize_def)
qed

lemma hex_size:
  assumes "n < 16 ^ 15"
  shows "\<exists>t. (\<forall>w. writeHexInt w (int n) = Some (w @ t)) \<and> (\<forall>y. readHexInt (t @ rChar # y) = ((int n, None), rChar # y))"
proof -
  have n: "0 \<le> int n" "int n < 16 ^ 15" using assms by simp_all
  have h: "hex2intTable rChar = 16" by code_simp
  obtain t where t: "writeHexInt [] (int n) = Some t" using writeHexInt_readHexInt [OF n, of "[]" "[]"] by auto
  have w: "writeHexInt w (int n) = Some (w @ t)" for w
    using t by (auto simp: writeHexInt_def Let_def split: if_splits)
  have "readHexInt (t @ rChar # y) = ((int n, None), rChar # y)" for y
    using writeHexInt_readHexInt [OF n, of "rChar # y" "[]"] h t by auto
  with w show ?thesis by blast
qed

section \<open>Chunked bodies\<close>

definition chunk_bytes :: "bytes \<Rightarrow> bytes" where
  "chunk_bytes b = (case writeHexInt [] (int (length b)) of Some t \<Rightarrow> t @ strCRLF @ b @ (if b = [] then [] else strCRLF) | None \<Rightarrow> [])"

lemma writeChunk_eq: "length b < 16 ^ 15 \<Longrightarrow> writeChunk w b = Some (w @ chunk_bytes b)"
  using hex_size [of "length b"] by (auto simp: writeChunk_def chunk_bytes_def)

lemma parse_chunk:
  assumes "stream r s e (chunk_bytes b @ y)" and "length b < 16 ^ 15"
  shows "\<exists>r'. parseChunkSize r = (Inr (int (length b)), r') \<and> stream r' s e (b @ (if b = [] then [] else strCRLF) @ y)"
proof -
  from hex_size [OF assms(2)] obtain t where t: "writeHexInt [] (int (length b)) = Some t"
    "\<And>y. readHexInt (t @ rChar # y) = ((int (length b), None), rChar # y)" by fastforce
  have c: "chunk_bytes b @ y = t @ [] @ rChar # nChar # (b @ (if b = [] then [] else strCRLF) @ y)"
    by (simp add: chunk_bytes_def t strCRLF_def)
  show ?thesis
    using parseChunkSize_stream [of r s e t "[]" "b @ (if b = [] then [] else strCRLF) @ y" "int (length b)"] assms(1) t(2)
    unfolding c by simp
qed

text \<open>Pieces as the writer cuts them.\<close>

function cut_pieces :: "bytes list \<Rightarrow> bytes list" where
  "cut_pieces [] = []"
| "cut_pieces (c # cs) =
     (if c = [] then cut_pieces cs else take 4096 c # cut_pieces (if length c \<le> 4096 then cs else drop 4096 c # cs))"
  by pat_completeness auto
termination
  by (relation "measure (\<lambda>cs. sum_list (map (\<lambda>c. Suc (length c)) cs))") auto

declare cut_pieces.simps [simp del]

lemma concat_cut: "concat (cut_pieces cs) = concat cs"
proof (induction cs rule: cut_pieces.induct)
  case (2 c cs)
  then show ?case by (auto simp: cut_pieces.simps(2) [of c cs])
qed (simp add: cut_pieces.simps)

lemma cut_small: "b \<in> set (cut_pieces cs) \<Longrightarrow> b \<noteq> [] \<and> length b \<le> 4096"
proof (induction cs rule: cut_pieces.induct)
  case (2 c cs)
  then show ?case by (cases "c = []") (auto simp: cut_pieces.simps(2) [of c cs] cut_pieces.simps(2) [of "[]" cs])
qed (simp add: cut_pieces.simps)

lemma write_chunked_text:
  "write_chunked_loop w cs EOF = Some (None, w @ concat (map chunk_bytes (cut_pieces cs)) @ chunk_bytes [])"
proof (induction w cs EOF rule: write_chunked_loop.induct)
  case (1 w)
  then show ?case using writeChunk_eq [of "[]" w] by (simp add: write_chunked_loop.simps cut_pieces.simps)
next
  case (2 w c cs)
  show ?case
  proof (cases "c = []")
    case False
    have "length (take 4096 c) < 16 ^ 15" by simp
    from writeChunk_eq [OF this, of w] 2 False show ?thesis
      by (simp add: write_chunked_loop.simps(2) [of w c cs] cut_pieces.simps(2) [of c cs])
  qed (use 2 in \<open>simp add: write_chunked_loop.simps(2) [of w "[]" cs] cut_pieces.simps(2) [of "[]" cs]\<close>)
qed

lemma chunked_loop_stream:
  assumes "maxBodySize \<le> 0 \<or> int (length (b @ concat bs)) \<le> maxBodySize"
    and "int (length (b @ concat bs)) + 2 \<le> maxAlloc"
    and "\<forall>x\<in>set bs. x \<noteq> [] \<and> length x < 16 ^ 15"
    and "stream r s e (concat (map chunk_bytes bs) @ chunk_bytes [] @ rest)"
  shows "\<exists>c' r'. chunked_loop maxBodySize (b, c) r = Some ((b @ concat bs, c'), None, r') \<and> stream r' s e rest"
  using assms
proof (induction bs arbitrary: b c r)
  case Nil
  from parse_chunk [of r s e "[]" rest] Nil obtain r' where
    "parseChunkSize r = (Inr 0, r')" "stream r' s e rest" by auto
  then show ?case by (auto simp: chunked_loop.simps [of _ _ r])
next
  case (Cons x bs)
  have x: "x \<noteq> []" "length x < 16 ^ 15" using Cons.prems(3) by auto
  let ?y = "concat (map chunk_bytes bs) @ chunk_bytes [] @ rest"
  from parse_chunk [of r s e x ?y] Cons.prems(4) x obtain r1 where
    r1: "parseChunkSize r = (Inr (int (length x)), r1)" "stream r1 s e (x @ strCRLF @ ?y)" by auto
  have n: "0 < int (length x) + 2" "int (length x) + 2 \<le> int (length (x @ strCRLF @ ?y))"
    "int (length b) + (int (length x) + 2) \<le> maxAlloc"
    using Cons.prems(2) by (auto simp: strCRLF_def)
  have cut: "take (nat (int (length x) + 2)) (x @ strCRLF @ ?y) = x @ strCRLF"
    "drop (nat (int (length x) + 2)) (x @ strCRLF @ ?y) = ?y"
    by (simp_all add: nat_add_distrib strCRLF_def)
  from append_fixed_stream [OF r1(2) n, of c] obtain c1 r2 where
    r2: "appendBodyFixedSize r1 (b, c) (int (length x) + 2) = Some ((b @ x @ strCRLF, c1), None, r2)" "stream r2 s e ?y"
    unfolding cut by blast
  have "\<exists>c' r'. chunked_loop maxBodySize (b @ x, c1) r2 = Some (((b @ x) @ concat bs, c'), None, r') \<and> stream r' s e rest"
    using Cons.prems by (intro Cons.IH r2(2)) auto
  moreover have "chunked_loop maxBodySize (b, c) r = chunked_loop maxBodySize (b @ x, c1) r2"
    using r1(1) r2(1) x(1) Cons.prems(1) by (auto simp: chunked_loop.simps [of _ _ r] strCRLF_def)
  ultimately show ?case by simp
qed

text \<open>Claim C14: A chunked body survives the connection. The writer accepts every body stream that ends properly,
  whatever pieces its reads give, and writes some text. However a connection cuts this text and what follows
  it into pieces, and whatever buffer reads it, the reader gives back exactly the body and leaves exactly
  what follows, if the body is within the limit of the caller and can be allocated.\<close>

theorem chunked_roundtrip:
  assumes "src_end src = EOF" and "int (length (concat (src_pieces src))) + 2 \<le> maxAlloc"
    and "maxBodySize \<le> 0 \<or> int (length (concat (src_pieces src))) \<le> maxBodySize"
  shows "\<exists>text. writeBodyChunked w src = Some (None, w @ text) \<and>
     (\<forall>r rest. 0 < rd_size r \<and> [] \<notin> set (rd_src r) \<and> rd_buf r @ concat (rd_src r) = text @ rest \<longrightarrow>
        (\<exists>cap' r'. readBodyChunked r maxBodySize ([], cap) = Some ((concat (src_pieces src), cap'), None, r') \<and>
                   rd_buf r' @ concat (rd_src r') = rest))"
proof -
  let ?bs = "cut_pieces (src_pieces src)"
  let ?text = "concat (map chunk_bytes ?bs) @ chunk_bytes []"
  have sm: "\<forall>x\<in>set ?bs. x \<noteq> [] \<and> length x < 16 ^ 15" using cut_small by fastforce
  have "\<exists>cap' r'. readBodyChunked r maxBodySize ([], cap) = Some ((concat (src_pieces src), cap'), None, r') \<and>
          rd_buf r' @ concat (rd_src r') = rest"
    if r: "0 < rd_size r" "[] \<notin> set (rd_src r)" "rd_buf r @ concat (rd_src r) = ?text @ rest" for r rest
  proof -
    have "stream r (rd_size r) (rd_end r) (concat (map chunk_bytes ?bs) @ chunk_bytes [] @ rest)"
      using r by (simp add: stream_def)
    from chunked_loop_stream [OF _ _ sm this, of maxBodySize "[]" cap] assms(2,3) show ?thesis
      by (auto simp: readBodyChunked_def concat_cut stream_def)
  qed
  then show ?thesis
    using assms(1) write_chunked_text [of w "src_pieces src"] by (intro exI [of _ ?text]) (auto simp: writeBodyChunked_def)
qed

theorem chunked_roundtrip_witness:
  "\<exists>text. writeBodyChunked [] \<lparr>src_pieces = [''hello '', [], ''world''], src_end = EOF, src_limit = None, src_close = None\<rparr> = Some (None, text) \<and>
     (\<exists>cap' r'. readBodyChunked \<lparr>rd_buf = take 3 text, rd_src = [drop 3 text @ ''GE'', ''T''], rd_end = Timeout, rd_size = 16\<rparr> 100 ([], 0) =
        Some ((''hello world'', cap'), None, r') \<and> rd_buf r' @ concat (rd_src r') = ''GET'')"
proof -
  let ?s = "\<lparr>src_pieces = [''hello '', [], ''world''], src_end = EOF, src_limit = None, src_close = None\<rparr>"
  have h: "src_end ?s = EOF" "int (length (concat (src_pieces ?s))) + 2 \<le> maxAlloc"
    "(100 :: int) \<le> 0 \<or> int (length (concat (src_pieces ?s))) \<le> 100" by (simp_all add: maxAlloc_def)
  from chunked_roundtrip [OF h, of "[]" 0] obtain t where t: "writeBodyChunked [] ?s = Some (None, t)"
    and rd: "\<And>r rest. 0 < rd_size r \<and> [] \<notin> set (rd_src r) \<and> rd_buf r @ concat (rd_src r) = t @ rest \<Longrightarrow>
      \<exists>cap' r'. readBodyChunked r 100 ([], 0) = Some ((concat (src_pieces ?s), cap'), None, r') \<and> rd_buf r' @ concat (rd_src r') = rest"
    by auto
  from rd [of "\<lparr>rd_buf = take 3 t, rd_src = [drop 3 t @ ''GE'', ''T''], rd_end = Timeout, rd_size = 16\<rparr>" "''GET''"] t
  show ?thesis by auto
qed

end
