(* ===== verification/Message.thy ===== *)
theory Message
  imports Body Base64 Uri
begin

text \<open>
  Requests and responses (src/fasthttp/http.go): the header with the URI, the posted arguments and the body,
  which is a buffer, a borrowed slice or a stream; reading a message from a buffered connection and writing it.

  Forms of package mime/multipart are of a type variable, and reading and writing them are the arguments
  in \<open>multipart_lib\<close>. The pools of body buffers are an argument too (\<open>pools\<close>): the capacity of the buffer they hand
  out and the limits that SetBodySizePoolLimit sets. Draining a body stream into a buffer is left out; where
  the model asks for the bytes of a body, the code has made sure that there is no stream.
\<close>

section \<open>Environment and errors\<close>

record 'f multipart_lib =
  ml_ReadForm :: "bytes \<Rightarrow> int \<Rightarrow> reader \<Rightarrow> (bytes + 'f) \<times> reader"
  ml_Marshal :: "'f \<Rightarrow> bytes \<Rightarrow> bytes + bytes"

record pools =
  pool_cap :: nat
  requestBodyPoolSizeLimit :: int
  responseBodyPoolSizeLimit :: int

datatype message_error =
  HeaderFailed read_error | BodyFailed body_error | ErrGetOnly | FormFailed bytes
| errRequestHostRequired | CopyFailed copy_error | StreamFailed conn_error | CloseFailed conn_error
| ErrBodyStreamWritePanic | TimedOutResponse

text \<open>errors.Is with ECONNRESET: the errors that are wrapped are searched, those embedded in a struct are not.\<close>

definition conn_reset :: "conn_error \<Rightarrow> bool" where
  "conn_reset e \<longleftrightarrow> e = OtherError ''connection reset by peer''"

definition isConnectionReset :: "message_error \<Rightarrow> bool" where
  "isConnectionReset e =
     (case e of
        BodyFailed (BodyConn c) \<Rightarrow> conn_reset c
      | HeaderFailed (ReadFailed (ConnError c)) \<Rightarrow> conn_reset c
      | HeaderFailed (HeaderErrorMsg t (PeekCause (ConnError c)) n b) \<Rightarrow> conn_reset c
      | _ \<Rightarrow> False)"

text \<open>A body stream reads from a connection or from anything else. What a stream of a connection gives when
  it is written to another connection is the argument \<open>S\<close> of the writers.\<close>

datatype bodyStream = ConnStream requestStream | SourceStream source

definition stream_source :: "(requestStream \<Rightarrow> source) \<Rightarrow> bodyStream \<Rightarrow> source" where
  "stream_source S s = (case s of SourceStream src \<Rightarrow> src | ConnStream rs \<Rightarrow> (S rs)\<lparr>src_limit := None, src_close := None\<rparr>)"

definition str100Continue :: bytes where "str100Continue = ''100-continue''"
definition strBasicSpace :: bytes where "strBasicSpace = ''Basic ''"
definition strGzip :: bytes where "strGzip = ''gzip''"
definition StatusContinue :: int where "StatusContinue = 100"

section \<open>Requests\<close>

record 'f Request =
  rq_Header :: RequestHeader
  rq_uri :: URI
  rq_postArgs :: Args
  rq_bodyStream :: "bodyStream option"
  rq_body :: "slice_cap option"
  rq_bodyRaw :: "bytes option"
  rq_multipartForm :: "'f option"
  rq_multipartFormBoundary :: bytes
  rq_secureErrorLogMessage :: bool
  rq_parsedURI :: bool
  rq_parsedPostArgs :: bool
  rq_keepBodyBuffer :: bool
  rq_isTLS :: bool
  rq_timeout :: int
  rq_UseHostHeader :: bool
  rq_DisableRedirectPathNormalizing :: bool

definition zero_uri :: URI where
  "zero_uri =
     \<lparr>pathOriginal = [], scheme = [], path = [], queryString = [], hash = [], host = [],
      queryArgs = \<lparr>args = ([], []), buf = []\<rparr>, parsedQueryArgs = False, DisablePathNormalizing = False, username = [],
      password = []\<rparr>"

definition zero_request :: "'f Request" where
  "zero_request =
     \<lparr>rq_Header = zero_request_header, rq_uri = zero_uri, rq_postArgs = \<lparr>args = ([], []), buf = []\<rparr>, rq_bodyStream = None,
      rq_body = None, rq_bodyRaw = None, rq_multipartForm = None, rq_multipartFormBoundary = [],
      rq_secureErrorLogMessage = False, rq_parsedURI = False, rq_parsedPostArgs = False, rq_keepBodyBuffer = False,
      rq_isTLS = False, rq_timeout = 0, rq_UseHostHeader = False, rq_DisableRedirectPathNormalizing = False\<rparr>"

subsection \<open>URI\<close>

definition Request_parseURI :: "'f Request \<Rightarrow> uri_error option \<times> 'f Request" where
  "Request_parseURI req =
     (if rq_parsedURI req then (None, req)
      else
        let (e, u) = URI_parse (rq_uri req) (RequestHeader_Host (rq_Header req)) (RequestHeader_RequestURI (rq_Header req)) (rq_isTLS req)
        in (e, req\<lparr>rq_parsedURI := True, rq_uri := u\<rparr>))"

definition Request_URI :: "'f Request \<Rightarrow> URI \<times> 'f Request" where
  "Request_URI req = (let req = snd (Request_parseURI req) in (rq_uri req, req))"

definition Request_SetURI :: "'f Request \<Rightarrow> URI option \<Rightarrow> 'f Request" where
  "Request_SetURI req newURI =
     (case newURI of
        Some u \<Rightarrow> req\<lparr>rq_uri := URI_CopyTo u (rq_uri req), rq_parsedURI := True\<rparr>
      | None \<Rightarrow> req\<lparr>rq_uri := URI_Reset (rq_uri req), rq_parsedURI := False\<rparr>)"

definition Request_SetHost :: "'f Request \<Rightarrow> bytes \<Rightarrow> 'f Request" where
  "Request_SetHost req h = (let (u, req) = Request_URI req in req\<lparr>rq_uri := URI_SetHost u h\<rparr>)"

definition Request_SetHostBytes :: "'f Request \<Rightarrow> bytes \<Rightarrow> 'f Request" where
  "Request_SetHostBytes req h = (let (u, req) = Request_URI req in req\<lparr>rq_uri := URI_SetHost u h\<rparr>)"

definition Request_Host :: "'f Request \<Rightarrow> bytes \<times> 'f Request" where
  "Request_Host req = (let (u, req) = Request_URI req in (host u, req))"

definition Request_SetRequestURI :: "'f Request \<Rightarrow> bytes \<Rightarrow> 'f Request" where
  "Request_SetRequestURI req u = req\<lparr>rq_Header := RequestHeader_SetRequestURI (rq_Header req) u, rq_parsedURI := False\<rparr>"

definition Request_SetRequestURIBytes :: "'f Request \<Rightarrow> bytes \<Rightarrow> 'f Request" where
  "Request_SetRequestURIBytes req u =
     req\<lparr>rq_Header := RequestHeader_SetRequestURIBytes (rq_Header req) u, rq_parsedURI := False\<rparr>"

definition Request_RequestURI :: "'f Request \<Rightarrow> bytes \<times> 'f Request" where
  "Request_RequestURI req =
     (let req = (if rq_parsedURI req then Request_SetRequestURIBytes req (URI_RequestURI (rq_uri req)) else req)
      in (RequestHeader_RequestURI (rq_Header req), req))"

definition Request_ConnectionClose :: "'f Request \<Rightarrow> bool" where
  "Request_ConnectionClose req = RequestHeader_ConnectionClose (rq_Header req)"

definition Request_SetConnectionClose :: "'f Request \<Rightarrow> 'f Request" where
  "Request_SetConnectionClose req = req\<lparr>rq_Header := RequestHeader_SetConnectionClose (rq_Header req)\<rparr>"

definition Request_SetTimeout :: "'f Request \<Rightarrow> int \<Rightarrow> 'f Request" where
  "Request_SetTimeout req t = req\<lparr>rq_timeout := t\<rparr>"

subsection \<open>Body\<close>

definition Request_closeBodyStream :: "'f Request \<Rightarrow> conn_error option \<times> 'f Request" where
  "Request_closeBodyStream req =
     (case rq_bodyStream req of
        None \<Rightarrow> (None, req)
      | Some s \<Rightarrow> (case s of ConnStream rs \<Rightarrow> None | SourceStream src \<Rightarrow> src_close src, req\<lparr>rq_bodyStream := None\<rparr>))"

definition Request_RemoveMultipartFormFiles :: "'f Request \<Rightarrow> 'f Request" where
  "Request_RemoveMultipartFormFiles req = req\<lparr>rq_multipartForm := None, rq_multipartFormBoundary := []\<rparr>"

definition Request_bodyBuffer :: "pools \<Rightarrow> 'f Request \<Rightarrow> slice_cap \<times> 'f Request" where
  "Request_bodyBuffer P req =
     (let b = (case rq_body req of Some b \<Rightarrow> b | None \<Rightarrow> ([], pool_cap P))
      in (b, req\<lparr>rq_body := Some b, rq_bodyRaw := None\<rparr>))"

text \<open>The bytes of a body that is not a stream.\<close>

definition Request_bodyBytes :: "'f Request \<Rightarrow> bytes" where
  "Request_bodyBytes req =
     (case rq_bodyRaw req of Some b \<Rightarrow> b | None \<Rightarrow> (case rq_body req of None \<Rightarrow> [] | Some b \<Rightarrow> fst b))"

text \<open>Growing a buffer by append; the capacity it gets does not matter.\<close>

definition buf_write :: "slice_cap \<Rightarrow> bytes \<Rightarrow> slice_cap" where
  "buf_write b p = (fst b @ p, max (snd b) (length (fst b @ p)))"

definition Request_ResetBody :: "'f Request \<Rightarrow> 'f Request" where
  "Request_ResetBody req =
     (let req = req\<lparr>rq_bodyRaw := None\<rparr>;
          req = Request_RemoveMultipartFormFiles req;
          req = snd (Request_closeBodyStream req)
      in case rq_body req of
           None \<Rightarrow> req
         | Some b \<Rightarrow> if rq_keepBodyBuffer req then req\<lparr>rq_body := Some ([], snd b)\<rparr> else req\<lparr>rq_body := None\<rparr>)"

definition Request_SetBodyStream :: "'f Request \<Rightarrow> source \<Rightarrow> int \<Rightarrow> 'f Request go" where
  "Request_SetBodyStream req bs bodySize =
     (let req = (Request_ResetBody req)\<lparr>rq_bodyStream := Some (SourceStream bs)\<rparr>
      in map_option (\<lambda>h. req\<lparr>rq_Header := h\<rparr>) (RequestHeader_SetContentLength (rq_Header req) bodySize))"

definition Request_IsBodyStream :: "'f Request \<Rightarrow> bool" where
  "Request_IsBodyStream req \<longleftrightarrow> rq_bodyStream req \<noteq> None"

definition Request_AppendBody :: "pools \<Rightarrow> 'f Request \<Rightarrow> bytes \<Rightarrow> 'f Request" where
  "Request_AppendBody P req p =
     (let req = snd (Request_closeBodyStream (Request_RemoveMultipartFormFiles req));
          (b, req) = Request_bodyBuffer P req
      in req\<lparr>rq_body := Some (buf_write b p)\<rparr>)"

definition Request_SetBody :: "pools \<Rightarrow> 'f Request \<Rightarrow> bytes \<Rightarrow> 'f Request" where
  "Request_SetBody P req p =
     (let req = snd (Request_closeBodyStream (Request_RemoveMultipartFormFiles req));
          (b, req) = Request_bodyBuffer P req
      in req\<lparr>rq_body := Some (buf_write ([], snd b) p)\<rparr>)"

definition Request_SetBodyRaw :: "'f Request \<Rightarrow> bytes \<Rightarrow> 'f Request" where
  "Request_SetBodyRaw req body = (Request_ResetBody req)\<lparr>rq_bodyRaw := Some body\<rparr>"

definition Request_ReleaseBody :: "'f Request \<Rightarrow> int \<Rightarrow> 'f Request" where
  "Request_ReleaseBody req sz =
     (let req = req\<lparr>rq_bodyRaw := None\<rparr>
      in case rq_body req of
           None \<Rightarrow> req
         | Some b \<Rightarrow> if int (snd b) > sz then (snd (Request_closeBodyStream req))\<lparr>rq_body := None\<rparr> else req)"

definition Request_resetSkipHeader :: "'f Request \<Rightarrow> 'f Request" where
  "Request_resetSkipHeader req =
     (let req = Request_ResetBody req
      in req\<lparr>rq_uri := URI_Reset (rq_uri req), rq_parsedURI := False, rq_postArgs := Args_Reset (rq_postArgs req),
             rq_parsedPostArgs := False, rq_isTLS := False\<rparr>)"

definition Request_Reset :: "pools \<Rightarrow> 'f Request \<Rightarrow> 'f Request" where
  "Request_Reset P req =
     (let req = (if requestBodyPoolSizeLimit P \<ge> 0 \<and> rq_body req \<noteq> None
                 then Request_ReleaseBody req (requestBodyPoolSizeLimit P) else req);
          req = req\<lparr>rq_Header := RequestHeader_Reset (rq_Header req)\<rparr>;
          req = Request_resetSkipHeader req
      in req\<lparr>rq_timeout := 0, rq_UseHostHeader := False, rq_DisableRedirectPathNormalizing := False\<rparr>)"

definition Request_onlyMultipartForm :: "'f Request \<Rightarrow> bool" where
  "Request_onlyMultipartForm req \<longleftrightarrow>
     rq_multipartForm req \<noteq> None \<and> (case rq_body req of None \<Rightarrow> True | Some b \<Rightarrow> length (fst b) = 0)"

text \<open>\<open>Request_CopyTo P req dst\<close> is \<open>dst\<close> after \<open>req.CopyTo(dst)\<close>.\<close>

definition Request_copyToSkipBody :: "pools \<Rightarrow> 'f Request \<Rightarrow> 'f Request \<Rightarrow> 'f Request" where
  "Request_copyToSkipBody P req dst =
     (let dst = Request_Reset P dst
      in dst\<lparr>rq_Header := RequestHeader_CopyTo (rq_Header req) (rq_Header dst), rq_uri := URI_CopyTo (rq_uri req) (rq_uri dst),
             rq_parsedURI := rq_parsedURI req, rq_postArgs := Args_CopyTo (rq_postArgs req) (rq_postArgs dst),
             rq_parsedPostArgs := rq_parsedPostArgs req, rq_isTLS := rq_isTLS req, rq_UseHostHeader := rq_UseHostHeader req\<rparr>)"

definition Request_CopyTo :: "pools \<Rightarrow> 'f Request \<Rightarrow> 'f Request \<Rightarrow> 'f Request" where
  "Request_CopyTo P req dst =
     (let dst = Request_copyToSkipBody P req dst
      in case rq_bodyRaw req of
           Some b \<Rightarrow> dst\<lparr>rq_bodyRaw := Some b, rq_body := map_option (\<lambda>x. ([], snd x)) (rq_body dst)\<rparr>
         | None \<Rightarrow>
             (case rq_body req of
                Some b \<Rightarrow>
                  (let (d, dst) = Request_bodyBuffer P dst in dst\<lparr>rq_body := Some (buf_write ([], snd d) (fst b))\<rparr>)
              | None \<Rightarrow> dst\<lparr>rq_body := map_option (\<lambda>x. ([], snd x)) (rq_body dst)\<rparr>))"

definition swapRequestBody :: "'f Request \<Rightarrow> 'f Request \<Rightarrow> 'f Request \<times> 'f Request" where
  "swapRequestBody a b =
     (a\<lparr>rq_body := rq_body b, rq_bodyRaw := rq_bodyRaw b, rq_bodyStream := rq_bodyStream b\<rparr>,
      b\<lparr>rq_body := rq_body a, rq_bodyRaw := rq_bodyRaw a, rq_bodyStream := rq_bodyStream a\<rparr>)"

subsection \<open>Reading\<close>

definition Request_MayContinue :: "'f Request \<Rightarrow> bool" where
  "Request_MayContinue req \<longleftrightarrow> RequestHeader_peek (rq_Header req) strExpect = str100Continue"

text \<open>What the readers return: an error, the request and the connection.\<close>

type_synonym 'f read_result = "(message_error option \<times> 'f Request \<times> reader) go"

definition set_length :: "'f Request \<Rightarrow> int \<Rightarrow> 'f Request go" where
  "set_length req n = map_option (\<lambda>h. req\<lparr>rq_Header := h\<rparr>) (RequestHeader_SetContentLength (rq_Header req) n)"

definition Request_ReadBody :: "pools \<Rightarrow> 'f Request \<Rightarrow> reader \<Rightarrow> int \<Rightarrow> int \<Rightarrow> 'f read_result" where
  "Request_ReadBody P req r contentLength maxBodySize =
     (let (b, req) = Request_bodyBuffer P req;
          dst = ([], snd b)
      in case (if contentLength \<ge> 0 then readBody r contentLength maxBodySize dst
               else if contentLength = - 1 then readBodyChunked r maxBodySize dst
               else readBodyIdentity r maxBodySize dst) of
           None \<Rightarrow> None
         | Some (d, err, r') \<Rightarrow>
             let req = req\<lparr>rq_body := Some d\<rparr>;
                 req' = (if contentLength = - 1 \<and> err = None \<and> length (fst d) = 0 then set_length req 0
                         else if contentLength < - 1 then set_length req (int (length (fst d)))
                         else Some req)
             in map_option (\<lambda>req. case err of None \<Rightarrow> (None, req, r')
                                            | Some e \<Rightarrow> (Some (BodyFailed e), Request_Reset P req, r')) req')"

text \<open>The form of a known length that is read before the handler runs; \<open>None\<close> where there is none to read.\<close>

definition read_form ::
  "'f multipart_lib \<Rightarrow> pools \<Rightarrow> 'f Request \<Rightarrow> reader \<Rightarrow> int \<Rightarrow> bool \<Rightarrow> 'f Request \<times> (message_error option \<times> 'f Request \<times> reader) option" where
  "read_form M P req r contentLength preParse =
     (if contentLength > 0 \<and> preParse then
        let req = req\<lparr>rq_multipartFormBoundary := nil_or (RequestHeader_MultipartFormBoundary (rq_Header req))\<rparr>
        in (req,
            if length (rq_multipartFormBoundary req) > 0 \<and> length (RequestHeader_peek (rq_Header req) strContentEncoding) = 0 then
              (case ml_ReadForm M (rq_multipartFormBoundary req) contentLength r of
                 (Inl e, r') \<Rightarrow> Some (Some (FormFailed e), Request_Reset P (req\<lparr>rq_multipartForm := None\<rparr>), r')
               | (Inr f, r') \<Rightarrow> Some (None, req\<lparr>rq_multipartForm := Some f\<rparr>, r'))
            else None)
      else (req, None))"

definition Request_ContinueReadBody ::
  "'f multipart_lib \<Rightarrow> pools \<Rightarrow> 'f Request \<Rightarrow> reader \<Rightarrow> int \<Rightarrow> bool \<Rightarrow> 'f read_result" where
  "Request_ContinueReadBody M P req r maxBodySize preParse =
     (let contentLength = RequestHeader_realContentLength (rq_Header req)
      in if contentLength > 0 \<and> maxBodySize > 0 \<and> contentLength > maxBodySize then
           Some (Some (BodyFailed ErrBodyTooLarge), req, r)
         else
           case read_form M P req r contentLength preParse of
             (req, Some res) \<Rightarrow> Some res
           | (req, None) \<Rightarrow>
               if contentLength = - 2 then
                 (if \<not> RequestHeader_ignoreBody (rq_Header req)
                  then map_option (\<lambda>req. (None, req, r)) (set_length req 0)
                  else Some (None, req, r))
               else
                 case Request_ReadBody P req r contentLength maxBodySize of
                   None \<Rightarrow> None
                 | Some (Some e, req, r) \<Rightarrow> Some (Some e, req, r)
                 | Some (None, req, r) \<Rightarrow>
                     if contentLength = - 1 then
                       (case RequestHeader_ReadTrailer (rq_Header req) r of
                          None \<Rightarrow> None
                        | Some (err, h, r) \<Rightarrow>
                            let req = req\<lparr>rq_Header := h\<rparr>
                            in Some (case err of
                                       None \<Rightarrow> (None, req, r)
                                     | Some ReadEOF \<Rightarrow> (None, req, r)
                                     | Some e \<Rightarrow> (Some (HeaderFailed e), req, r)))
                     else Some (None, req, r))"

definition Request_ContinueReadBodyStream ::
  "'f multipart_lib \<Rightarrow> pools \<Rightarrow> 'f Request \<Rightarrow> reader \<Rightarrow> int \<Rightarrow> bool \<Rightarrow> 'f read_result" where
  "Request_ContinueReadBodyStream M P req r maxBodySize preParse =
     (let contentLength = RequestHeader_realContentLength (rq_Header req)
      in case read_form M P req r contentLength preParse of
           (req, Some res) \<Rightarrow> Some res
         | (req, None) \<Rightarrow>
             if contentLength = - 2 then
               (if \<not> RequestHeader_ignoreBody (rq_Header req)
                then map_option (\<lambda>req. (None, req, r)) (set_length req 0)
                else Some (None, req, r))
             else
               let (b, req) = Request_bodyBuffer P req
               in case readBodyWithStreaming r contentLength maxBodySize ([], snd b) of
                    None \<Rightarrow> None
                  | Some (d, err, r') \<Rightarrow>
                      let req = req\<lparr>rq_body := Some d\<rparr>;
                          streaming = req\<lparr>rq_bodyStream := Some (ConnStream (acquireRequestStream (fst d)))\<rparr>
                      in case err of
                           None \<Rightarrow> map_option (\<lambda>req. (None, req, r')) (set_length streaming contentLength)
                         | Some ErrBodyTooLarge \<Rightarrow> map_option (\<lambda>req. (None, req, r')) (set_length streaming contentLength)
                         | Some errChunkedStream \<Rightarrow> Some (None, streaming, r')
                         | Some e \<Rightarrow> Some (Some (BodyFailed e), Request_Reset P req, r'))"

definition Request_readLimitBody ::
  "'f multipart_lib \<Rightarrow> pools \<Rightarrow> 'f Request \<Rightarrow> reader \<Rightarrow> int \<Rightarrow> bool \<Rightarrow> bool \<Rightarrow> 'f read_result" where
  "Request_readLimitBody M P req r maxBodySize getOnly preParse =
     (if getOnly \<and> \<not> RequestHeader_IsGet (rq_Header req) \<and> \<not> RequestHeader_IsHead (rq_Header req) then
        Some (Some ErrGetOnly, req, r)
      else if Request_MayContinue req then Some (None, req, r)
      else Request_ContinueReadBody M P req r maxBodySize preParse)"

definition Request_readBodyStream ::
  "'f multipart_lib \<Rightarrow> pools \<Rightarrow> 'f Request \<Rightarrow> reader \<Rightarrow> int \<Rightarrow> bool \<Rightarrow> bool \<Rightarrow> 'f read_result" where
  "Request_readBodyStream M P req r maxBodySize getOnly preParse =
     (if getOnly \<and> \<not> RequestHeader_IsGet (rq_Header req) \<and> \<not> RequestHeader_IsHead (rq_Header req) then
        Some (Some ErrGetOnly, req, r)
      else if Request_MayContinue req then Some (None, req, r)
      else Request_ContinueReadBodyStream M P req r maxBodySize preParse)"

definition Request_ReadLimitBody ::
  "'f multipart_lib \<Rightarrow> pools \<Rightarrow> 'f Request \<Rightarrow> reader \<Rightarrow> int \<Rightarrow> 'f read_result" where
  "Request_ReadLimitBody M P req r maxBodySize =
     (let req = Request_resetSkipHeader req
      in case RequestHeader_Read (rq_Header req) r of
           None \<Rightarrow> None
         | Some (Some e, h, r) \<Rightarrow> Some (Some (HeaderFailed e), req\<lparr>rq_Header := h\<rparr>, r)
         | Some (None, h, r) \<Rightarrow> Request_readLimitBody M P (req\<lparr>rq_Header := h\<rparr>) r maxBodySize False True)"

definition Request_Read :: "'f multipart_lib \<Rightarrow> pools \<Rightarrow> 'f Request \<Rightarrow> reader \<Rightarrow> 'f read_result" where
  "Request_Read M P req r = Request_ReadLimitBody M P req r 0"

subsection \<open>Writing\<close>

text \<open>base64.StdEncoding: the standard alphabet, padded to groups of four.\<close>

definition std_char :: "nat \<Rightarrow> char" where
  "std_char n = (if n = 62 then CHR ''+'' else if n = 63 then CHR ''/'' else b64_char n)"

definition Std_Encode :: "bytes \<Rightarrow> bytes" where
  "Std_Encode src =
     map std_char (b64_groups (map byte_val src)) @
     (if length src mod 3 = 1 then ''=='' else if length src mod 3 = 2 then ''='' else [])"

text \<open>The host and the request line as the URI has them, and the credentials of the URI.\<close>

definition write_target :: "'f Request \<Rightarrow> message_error option \<times> 'f Request" where
  "write_target req =
     (if length (RequestHeader_Host (rq_Header req)) = 0 \<or> rq_parsedURI req then
        let (u, req) = Request_URI req; hst = host u
        in if length (RequestHeader_Host (rq_Header req)) = 0 \<and> length hst = 0 then (Some errRequestHostRequired, req)
           else
             let h = rq_Header req;
                 h = (if length (RequestHeader_Host h) = 0 \<or> \<not> rq_UseHostHeader req then RequestHeader_SetHostBytes h hst else h);
                 h = RequestHeader_SetRequestURIBytes h (URI_RequestURI u);
                 h = (if length (username u) > 0 then
                        RequestHeader_SetBytesKV h strAuthorization (strBasicSpace @ Std_Encode (username u @ '':'' @ password u))
                      else h)
             in (None, req\<lparr>rq_Header := h\<rparr>)
      else (None, req))"

definition Request_writeBodyStream :: "'f Request \<Rightarrow> source \<Rightarrow> bytes \<Rightarrow> (message_error option \<times> 'f Request \<times> bytes) go" where
  "Request_writeBodyStream req src w =
     (let contentLength = RequestHeader_ContentLength (rq_Header req);
          limited = contentLength < 0 \<and> limitedReaderSize src \<ge> 0;
          contentLength = (if limited then limitedReaderSize src else contentLength)
      in case (if limited then set_length req contentLength else Some req) of
           None \<Rightarrow> None
         | Some req \<Rightarrow>
             (case (if contentLength \<ge> 0 then
                      (let (e, w) = writeBodyFixedSize (w @ RequestHeader_Header (rq_Header req)) src contentLength
                       in Some (map_option CopyFailed e, req, w))
                    else
                      case set_length req (- 1) of
                        None \<Rightarrow> None
                      | Some req \<Rightarrow>
                          (case writeBodyChunked (w @ RequestHeader_Header (rq_Header req)) src of
                             None \<Rightarrow> None
                           | Some (Some e, w) \<Rightarrow> Some (Some (StreamFailed e), req, w)
                           | Some (None, w) \<Rightarrow> Some (None, req, w @ RequestHeader_TrailerHeader (rq_Header req)))) of
                None \<Rightarrow> None
              | Some (err, req, w) \<Rightarrow>
                  let (err1, req) = Request_closeBodyStream req
                  in Some (if err = None then map_option CloseFailed err1 else err, req, w)))"

definition Request_Write ::
  "'f multipart_lib \<Rightarrow> (requestStream \<Rightarrow> source) \<Rightarrow> 'f Request \<Rightarrow> bytes \<Rightarrow> (message_error option \<times> 'f Request \<times> bytes) go" where
  "Request_Write M S req w =
     (case write_target req of
        (Some e, req) \<Rightarrow> Some (Some e, req, w)
      | (None, req) \<Rightarrow>
          (case rq_bodyStream req of
             Some s \<Rightarrow> Request_writeBodyStream req (stream_source S s) w
           | None \<Rightarrow>
               case (if Request_onlyMultipartForm req then
                       (case ml_Marshal M (the (rq_multipartForm req)) (rq_multipartFormBoundary req) of
                          Inl e \<Rightarrow> Inl e
                        | Inr b \<Rightarrow> Inr (b, req\<lparr>rq_Header := RequestHeader_SetMultipartFormBoundary (rq_Header req) (rq_multipartFormBoundary req)\<rparr>))
                     else Inr (Request_bodyBytes req, req)) of
                 Inl e \<Rightarrow> Some (Some (FormFailed e), req, w)
               | Inr (body, req) \<Rightarrow>
                   let (body, req) = (if length body = 0 then
                                        (let (q, a) = Args_QueryString (rq_postArgs req) in (q, req\<lparr>rq_postArgs := a\<rparr>))
                                      else (body, req));
                       hasBody = (length body \<noteq> 0 \<or> \<not> RequestHeader_ignoreBody (rq_Header req))
                   in map_option
                        (\<lambda>req. let w = w @ RequestHeader_Header (rq_Header req)
                               in if hasBody then (None, req, w @ body) else (None, req, w))
                        (if hasBody then set_length req (int (length body)) else Some req)))"

section \<open>Responses\<close>

record Response =
  rs_Header :: ResponseHeader
  rs_ImmediateHeaderFlush :: bool
  rs_StreamBody :: bool
  rs_bodyStream :: "bodyStream option"
  rs_body :: "slice_cap option"
  rs_bodyRaw :: "bytes option"
  rs_SkipBody :: bool
  rs_keepBodyBuffer :: bool
  rs_secureErrorLogMessage :: bool
  rs_raddr :: "bytes option"
  rs_laddr :: "bytes option"

definition zero_response :: Response where
  "zero_response =
     \<lparr>rs_Header = zero_response_header, rs_ImmediateHeaderFlush = False, rs_StreamBody = False, rs_bodyStream = None,
      rs_body = None, rs_bodyRaw = None, rs_SkipBody = False, rs_keepBodyBuffer = False,
      rs_secureErrorLogMessage = False, rs_raddr = None, rs_laddr = None\<rparr>"

definition Response_StatusCode :: "Response \<Rightarrow> int" where
  "Response_StatusCode resp = ResponseHeader_StatusCode (rs_Header resp)"

definition Response_SetStatusCode :: "Response \<Rightarrow> int \<Rightarrow> Response" where
  "Response_SetStatusCode resp c = resp\<lparr>rs_Header := ResponseHeader_SetStatusCode (rs_Header resp) c\<rparr>"

definition Response_ConnectionClose :: "Response \<Rightarrow> bool" where
  "Response_ConnectionClose resp = ResponseHeader_ConnectionClose (rs_Header resp)"

definition Response_SetConnectionClose :: "Response \<Rightarrow> Response" where
  "Response_SetConnectionClose resp = resp\<lparr>rs_Header := ResponseHeader_SetConnectionClose (rs_Header resp)\<rparr>"

definition Response_closeBodyStream :: "Response \<Rightarrow> conn_error option \<times> Response" where
  "Response_closeBodyStream resp =
     (case rs_bodyStream resp of
        None \<Rightarrow> (None, resp)
      | Some s \<Rightarrow> (case s of ConnStream rs \<Rightarrow> None | SourceStream src \<Rightarrow> src_close src, resp\<lparr>rs_bodyStream := None\<rparr>))"

definition Response_bodyBuffer :: "pools \<Rightarrow> Response \<Rightarrow> slice_cap \<times> Response" where
  "Response_bodyBuffer P resp =
     (let b = (case rs_body resp of Some b \<Rightarrow> b | None \<Rightarrow> ([], pool_cap P))
      in (b, resp\<lparr>rs_body := Some b, rs_bodyRaw := None\<rparr>))"

definition Response_bodyBytes :: "Response \<Rightarrow> bytes" where
  "Response_bodyBytes resp =
     (case rs_bodyRaw resp of Some b \<Rightarrow> b | None \<Rightarrow> (case rs_body resp of None \<Rightarrow> [] | Some b \<Rightarrow> fst b))"

definition Response_ResetBody :: "Response \<Rightarrow> Response" where
  "Response_ResetBody resp =
     (let resp = snd (Response_closeBodyStream (resp\<lparr>rs_bodyRaw := None\<rparr>))
      in case rs_body resp of
           None \<Rightarrow> resp
         | Some b \<Rightarrow> if rs_keepBodyBuffer resp then resp\<lparr>rs_body := Some ([], snd b)\<rparr> else resp\<lparr>rs_body := None\<rparr>)"

definition Response_SetBodyStream :: "Response \<Rightarrow> source \<Rightarrow> int \<Rightarrow> Response go" where
  "Response_SetBodyStream resp bs bodySize =
     (let resp = (Response_ResetBody resp)\<lparr>rs_bodyStream := Some (SourceStream bs)\<rparr>
      in map_option (\<lambda>h. resp\<lparr>rs_Header := h\<rparr>) (ResponseHeader_SetContentLength (rs_Header resp) bodySize))"

definition Response_IsBodyStream :: "Response \<Rightarrow> bool" where
  "Response_IsBodyStream resp \<longleftrightarrow> rs_bodyStream resp \<noteq> None"

definition Response_AppendBody :: "pools \<Rightarrow> Response \<Rightarrow> bytes \<Rightarrow> Response" where
  "Response_AppendBody P resp p =
     (let (b, resp) = Response_bodyBuffer P (snd (Response_closeBodyStream resp)) in resp\<lparr>rs_body := Some (buf_write b p)\<rparr>)"

definition Response_SetBody :: "pools \<Rightarrow> Response \<Rightarrow> bytes \<Rightarrow> Response" where
  "Response_SetBody P resp body =
     (let (b, resp) = Response_bodyBuffer P (snd (Response_closeBodyStream resp))
      in resp\<lparr>rs_body := Some (buf_write ([], snd b) body)\<rparr>)"

definition Response_SetBodyRaw :: "Response \<Rightarrow> bytes \<Rightarrow> Response" where
  "Response_SetBodyRaw resp body = (Response_ResetBody resp)\<lparr>rs_bodyRaw := Some body\<rparr>"

definition Response_ReleaseBody :: "Response \<Rightarrow> int \<Rightarrow> Response" where
  "Response_ReleaseBody resp sz =
     (let resp = resp\<lparr>rs_bodyRaw := None\<rparr>
      in case rs_body resp of
           None \<Rightarrow> resp
         | Some b \<Rightarrow> if int (snd b) > sz then (snd (Response_closeBodyStream resp))\<lparr>rs_body := None\<rparr> else resp)"

definition Response_resetSkipHeader :: "Response \<Rightarrow> Response" where
  "Response_resetSkipHeader resp = Response_ResetBody resp"

definition Response_Reset :: "pools \<Rightarrow> Response \<Rightarrow> Response" where
  "Response_Reset P resp =
     (let resp = (if responseBodyPoolSizeLimit P \<ge> 0 \<and> rs_body resp \<noteq> None
                  then Response_ReleaseBody resp (responseBodyPoolSizeLimit P) else resp);
          resp = Response_resetSkipHeader resp
      in resp\<lparr>rs_Header := ResponseHeader_Reset (rs_Header resp), rs_SkipBody := False, rs_raddr := None, rs_laddr := None,
              rs_ImmediateHeaderFlush := False, rs_StreamBody := False\<rparr>)"

definition Response_copyToSkipBody :: "pools \<Rightarrow> Response \<Rightarrow> Response \<Rightarrow> Response" where
  "Response_copyToSkipBody P resp dst =
     (let dst = Response_Reset P dst
      in dst\<lparr>rs_Header := ResponseHeader_CopyTo (rs_Header resp) (rs_Header dst), rs_SkipBody := rs_SkipBody resp,
             rs_raddr := rs_raddr resp, rs_laddr := rs_laddr resp\<rparr>)"

definition Response_CopyTo :: "pools \<Rightarrow> Response \<Rightarrow> Response \<Rightarrow> Response" where
  "Response_CopyTo P resp dst =
     (let dst = Response_copyToSkipBody P resp dst
      in case rs_bodyRaw resp of
           Some b \<Rightarrow> dst\<lparr>rs_bodyRaw := Some b, rs_body := map_option (\<lambda>x. ([], snd x)) (rs_body dst)\<rparr>
         | None \<Rightarrow>
             (case rs_body resp of
                Some b \<Rightarrow>
                  (let (d, dst) = Response_bodyBuffer P dst in dst\<lparr>rs_body := Some (buf_write ([], snd d) (fst b))\<rparr>)
              | None \<Rightarrow> dst\<lparr>rs_body := map_option (\<lambda>x. ([], snd x)) (rs_body dst)\<rparr>))"

definition swapResponseBody :: "Response \<Rightarrow> Response \<Rightarrow> Response \<times> Response" where
  "swapResponseBody a b =
     (a\<lparr>rs_body := rs_body b, rs_bodyRaw := rs_bodyRaw b, rs_bodyStream := rs_bodyStream b\<rparr>,
      b\<lparr>rs_body := rs_body a, rs_bodyRaw := rs_bodyRaw a, rs_bodyStream := rs_bodyStream a\<rparr>)"

subsection \<open>Reading\<close>

definition Response_mustSkipBody :: "Response \<Rightarrow> bool" where
  "Response_mustSkipBody resp \<longleftrightarrow> rs_SkipBody resp \<or> ResponseHeader_mustSkipContentLength (rs_Header resp)"

definition resp_set_length :: "Response \<Rightarrow> int \<Rightarrow> Response go" where
  "resp_set_length resp n = map_option (\<lambda>h. resp\<lparr>rs_Header := h\<rparr>) (ResponseHeader_SetContentLength (rs_Header resp) n)"

type_synonym response_result = "(message_error option \<times> Response \<times> reader) go"

definition Response_ReadBody :: "pools \<Rightarrow> Response \<Rightarrow> reader \<Rightarrow> int \<Rightarrow> response_result" where
  "Response_ReadBody P resp r maxBodySize =
     (let (b, resp) = Response_bodyBuffer P resp;
          dst = ([], snd b);
          contentLength = ResponseHeader_ContentLength (rs_Header resp);
          streaming = (\<lambda>d resp. resp\<lparr>rs_bodyStream := Some (ConnStream (acquireRequestStream (fst d)))\<rparr>);
          in_memory = (\<lambda>d err resp.
            if err = None \<and> rs_StreamBody resp \<and> rs_bodyStream resp = None then
              resp\<lparr>rs_bodyStream := Some (SourceStream \<lparr>src_pieces = [fst d], src_end = EOF, src_limit = None, src_close = None\<rparr>)\<rparr>
            else resp)
      in if contentLength \<ge> 0 then
           (case readBody r contentLength maxBodySize dst of
              None \<Rightarrow> None
            | Some (d, err, r') \<Rightarrow>
                let resp = resp\<lparr>rs_body := Some d\<rparr>;
                    large = (err = Some ErrBodyTooLarge \<and> rs_StreamBody resp);
                    resp = (if large then streaming d resp else resp);
                    err = (if large then None else err)
                in Some (map_option BodyFailed err, in_memory d err resp, r'))
         else if contentLength = - 1 then
           (if rs_StreamBody resp then Some (None, streaming dst (resp\<lparr>rs_body := Some dst\<rparr>), r)
            else
              case readBodyChunked r maxBodySize dst of
                None \<Rightarrow> None
              | Some (d, err, r') \<Rightarrow> Some (map_option BodyFailed err, in_memory d err (resp\<lparr>rs_body := Some d\<rparr>), r'))
         else
           (case readBodyIdentity r maxBodySize dst of
              None \<Rightarrow> None
            | Some (d, err, r') \<Rightarrow>
                map_option (\<lambda>resp. (map_option BodyFailed err, in_memory d err resp, r'))
                  (resp_set_length (resp\<lparr>rs_body := Some d\<rparr>) (int (length (fst d))))))"

text \<open>A connection reset while the body or the trailer is read is not reported.\<close>

definition Response_ReadLimitBody :: "pools \<Rightarrow> Response \<Rightarrow> reader \<Rightarrow> int \<Rightarrow> response_result" where
  "Response_ReadLimitBody P resp r maxBodySize =
     (let resp = Response_resetSkipHeader resp;
          silent = (\<lambda>e. if isConnectionReset e then None else Some e);
          trailer = (\<lambda>resp r.
            if ResponseHeader_ContentLength (rs_Header resp) = - 1 \<and> \<not> rs_StreamBody resp then
              (case ResponseHeader_ReadTrailer (rs_Header resp) r of
                 None \<Rightarrow> None
               | Some (err, h, r) \<Rightarrow>
                   Some (case err of None \<Rightarrow> None | Some ReadEOF \<Rightarrow> None | Some e \<Rightarrow> silent (HeaderFailed e),
                         resp\<lparr>rs_Header := h\<rparr>, r))
            else Some (None, resp, r));
          body = (\<lambda>resp r.
            if \<not> Response_mustSkipBody resp then
              (case Response_ReadBody P resp r maxBodySize of
                 None \<Rightarrow> None
               | Some (Some e, resp, r) \<Rightarrow> Some (silent e, resp, r)
               | Some (None, resp, r) \<Rightarrow> trailer resp r)
            else trailer resp r)
      in case ResponseHeader_Read (rs_Header resp) r of
           None \<Rightarrow> None
         | Some (Some e, h, r) \<Rightarrow> Some (Some (HeaderFailed e), resp\<lparr>rs_Header := h\<rparr>, r)
         | Some (None, h, r) \<Rightarrow>
             if ResponseHeader_StatusCode h = StatusContinue then
               (case ResponseHeader_Read h r of
                  None \<Rightarrow> None
                | Some (Some e, h, r) \<Rightarrow> Some (Some (HeaderFailed e), resp\<lparr>rs_Header := h\<rparr>, r)
                | Some (None, h, r) \<Rightarrow> body (resp\<lparr>rs_Header := h\<rparr>) r)
             else body (resp\<lparr>rs_Header := h\<rparr>) r)"

definition Response_Read :: "pools \<Rightarrow> Response \<Rightarrow> reader \<Rightarrow> response_result" where
  "Response_Read P resp r = Response_ReadLimitBody P resp r 0"

subsection \<open>Writing\<close>

definition write_response_stream ::
  "bytes \<Rightarrow> Response \<Rightarrow> source \<Rightarrow> bytes \<Rightarrow> bool \<Rightarrow> (message_error option \<times> Response \<times> bytes) go" where
  "write_response_stream serverDate resp src w sendBody =
     (let contentLength = ResponseHeader_ContentLength (rs_Header resp);
          limited = contentLength < 0 \<and> limitedReaderSize src \<ge> 0;
          contentLength = (if limited then limitedReaderSize src else contentLength)
      in case (if limited then resp_set_length resp contentLength else Some resp) of
           None \<Rightarrow> None
         | Some resp \<Rightarrow>
             (case (if contentLength \<ge> 0 then
                      let w = w @ ResponseHeader_Header serverDate (rs_Header resp)
                      in if sendBody then (let (e, w) = writeBodyFixedSize w src contentLength in Some (map_option CopyFailed e, resp, w))
                         else Some (None, resp, w)
                    else
                      case resp_set_length resp (- 1) of
                        None \<Rightarrow> None
                      | Some resp \<Rightarrow>
                          let w = w @ ResponseHeader_Header serverDate (rs_Header resp)
                          in case (if sendBody then writeBodyChunked w src else Some (None, w)) of
                               None \<Rightarrow> None
                             | Some (Some e, w) \<Rightarrow> Some (Some (StreamFailed e), resp, w)
                             | Some (None, w) \<Rightarrow> Some (None, resp, w @ ResponseHeader_TrailerHeader (rs_Header resp))) of
                None \<Rightarrow> None
              | Some (err, resp, w) \<Rightarrow>
                  let (err1, resp) = Response_closeBodyStream resp
                  in Some (if err = None then map_option CloseFailed err1 else err, resp, w)))"

text \<open>A panic of the stream is recovered and reported.\<close>

definition Response_writeBodyStream ::
  "bytes \<Rightarrow> Response \<Rightarrow> source \<Rightarrow> bytes \<Rightarrow> bool \<Rightarrow> (message_error option \<times> Response \<times> bytes) go" where
  "Response_writeBodyStream serverDate resp src w sendBody =
     (case write_response_stream serverDate resp src w sendBody of
        None \<Rightarrow> Some (Some ErrBodyStreamWritePanic, resp, w)
      | Some res \<Rightarrow> Some res)"

definition Response_Write ::
  "bytes \<Rightarrow> (requestStream \<Rightarrow> source) \<Rightarrow> Response \<Rightarrow> bytes \<Rightarrow> (message_error option \<times> Response \<times> bytes) go" where
  "Response_Write serverDate S resp w =
     (let sendBody = (\<not> Response_mustSkipBody resp)
      in case rs_bodyStream resp of
           Some s \<Rightarrow> Response_writeBodyStream serverDate resp (stream_source S s) w sendBody
         | None \<Rightarrow>
             let body = Response_bodyBytes resp
             in map_option
                  (\<lambda>resp. let w = w @ ResponseHeader_Header serverDate (rs_Header resp)
                          in (None, resp, if sendBody then w @ body else w))
                  (if sendBody \<or> length body > 0 then resp_set_length resp (int (length body)) else Some resp))"

subsection \<open>Compression\<close>

text \<open>gzipBody, deflateBody and brotliBody are the same code on three compressors. Those are arguments: what they
  make of a slice and of a stream.\<close>

definition minCompressLen :: nat where "minCompressLen = 200"

definition compress_body ::
  "pools \<Rightarrow> (requestStream \<Rightarrow> source) \<Rightarrow> (bytes \<Rightarrow> bytes) \<Rightarrow> (source \<Rightarrow> source) \<Rightarrow> bytes \<Rightarrow> Response \<Rightarrow> Response go" where
  "compress_body P S compress compress_stream enc resp =
     (let named = (\<lambda>resp. resp\<lparr>rs_Header := ResponseHeader_addVaryBytes (ResponseHeader_SetContentEncodingBytes (rs_Header resp) enc) strAcceptEncoding\<rparr>)
      in if length (ResponseHeader_ContentEncoding (rs_Header resp)) > 0 then Some resp
         else if \<not> ResponseHeader_isCompressibleContentType (rs_Header resp) then Some resp
         else case rs_bodyStream resp of
                Some s \<Rightarrow>
                  map_option (\<lambda>resp. named (resp\<lparr>rs_bodyStream := Some (SourceStream (compress_stream (stream_source S s)))\<rparr>))
                    (resp_set_length resp (- 1))
              | None \<Rightarrow>
                  let bodyBytes = Response_bodyBytes resp
                  in if length bodyBytes < minCompressLen then Some resp
                     else Some (named (resp\<lparr>rs_body := Some (buf_write ([], pool_cap P) (compress bodyBytes)), rs_bodyRaw := None\<rparr>)))"

definition strDeflate :: bytes where "strDeflate = ''deflate''"
definition strBr :: bytes where "strBr = ''br''"

definition Response_gzipBody ::
  "pools \<Rightarrow> (requestStream \<Rightarrow> source) \<Rightarrow> (bytes \<Rightarrow> bytes) \<Rightarrow> (source \<Rightarrow> source) \<Rightarrow> Response \<Rightarrow> Response go" where
  "Response_gzipBody P S z zs resp = compress_body P S z zs strGzip resp"

definition Response_deflateBody ::
  "pools \<Rightarrow> (requestStream \<Rightarrow> source) \<Rightarrow> (bytes \<Rightarrow> bytes) \<Rightarrow> (source \<Rightarrow> source) \<Rightarrow> Response \<Rightarrow> Response go" where
  "Response_deflateBody P S z zs resp = compress_body P S z zs strDeflate resp"

definition Response_brotliBody ::
  "pools \<Rightarrow> (requestStream \<Rightarrow> source) \<Rightarrow> (bytes \<Rightarrow> bytes) \<Rightarrow> (source \<Rightarrow> source) \<Rightarrow> Response \<Rightarrow> Response go" where
  "Response_brotliBody P S z zs resp = compress_body P S z zs strBr resp"

definition Response_WriteGzipLevel ::
  "pools \<Rightarrow> bytes \<Rightarrow> (requestStream \<Rightarrow> source) \<Rightarrow> (bytes \<Rightarrow> bytes) \<Rightarrow> (source \<Rightarrow> source) \<Rightarrow> Response \<Rightarrow> bytes \<Rightarrow>
     (message_error option \<times> Response \<times> bytes) go" where
  "Response_WriteGzipLevel P serverDate S z zs resp w =
     (case Response_gzipBody P S z zs resp of None \<Rightarrow> None | Some resp \<Rightarrow> Response_Write serverDate S resp w)"

definition Response_WriteDeflateLevel ::
  "pools \<Rightarrow> bytes \<Rightarrow> (requestStream \<Rightarrow> source) \<Rightarrow> (bytes \<Rightarrow> bytes) \<Rightarrow> (source \<Rightarrow> source) \<Rightarrow> Response \<Rightarrow> bytes \<Rightarrow>
     (message_error option \<times> Response \<times> bytes) go" where
  "Response_WriteDeflateLevel P serverDate S z zs resp w =
     (case Response_deflateBody P S z zs resp of None \<Rightarrow> None | Some resp \<Rightarrow> Response_Write serverDate S resp w)"

end
