(* ===== verification/Message_Correct.thy ===== *)
theory Message_Correct
  imports Message Body_Correct Header_Safe
begin

text \<open>
  Reading whole requests: whatever a client sends, reading returns, and a body that is accepted is within the
  limit of the server.
\<close>

section \<open>Bodies within the limit\<close>

lemma read_hex_nonneg: "read_hex_bytes r i n = (Inr v, r') \<Longrightarrow> 0 \<le> n \<Longrightarrow> 0 \<le> v"
proof (induction r i n rule: read_hex_bytes.induct)
  case (1 r i n)
  obtain x r1 where x: "ReadByte r = (x, r1)" by force
  show ?case
  proof (cases x)
    case (Inr c)
    with x have c: "ReadByte r = (Inr c, r1)" by simp
    have p: "0 \<le> push_bit 4 n OR int (hex2intTable c)" using "1.prems"(2) by (simp add: push_bit_eq_mult)
    from "1.IH" [OF c [symmetric] refl refl] "1.prems" c p show ?thesis
      by (auto simp: read_hex_bytes.simps [of r i n] Let_def split: if_splits)
  qed (use "1.prems" x in \<open>auto simp: read_hex_bytes.simps [of r i n] split: if_splits\<close>)
qed

lemma parseChunkSize_nonneg: "parseChunkSize r = (Inr n, r') \<Longrightarrow> 0 \<le> n"
  using read_hex_nonneg [of r 0 0] by (fastforce simp: parseChunkSize_def split: prod.splits sum.splits)

lemma fixed_loop_length:
  "fixed_loop need dst r = (d, e, r') \<Longrightarrow> 0 < need \<Longrightarrow>
     length d \<le> length dst + need \<and> (e = None \<longrightarrow> length d = length dst + need)"
proof (induction need dst r rule: fixed_loop.induct)
  case (1 need dst r)
  obtain b err r1 where b: "Read need r = (b, err, r1)" by (metis prod_cases3)
  note l = Read_length [OF b]
  show ?case
  proof (cases "b = [] \<or> need \<le> length b")
    case True
    with "1.prems" b l show ?thesis by (auto simp: fixed_loop.simps [of need dst r] split: if_splits)
  next
    case False
    then have f: "fixed_loop (need - length b) (dst @ b) r1 = (d, e, r')"
      using "1.prems"(1) b by (simp add: fixed_loop.simps [of need dst r])
    have nb: "b \<noteq> []" "\<not> need \<le> length b" "0 < need - length b" using False by auto
    from "1.IH" [OF b [symmetric] refl nb(1,2) f nb(3)] l show ?thesis by auto
  qed
qed

lemma append_fixed_total:
  assumes "0 \<le> n" and "int (length b) + n \<le> maxAlloc"
  shows "\<exists>d c' e r'. appendBodyFixedSize r (b, c) n = Some ((d, c'), e, r') \<and> int (length d) \<le> int (length b) + n \<and>
           (e = None \<longrightarrow> int (length d) = int (length b) + n)"
proof (cases "n = 0")
  case False
  with assms have n: "0 < n" by simp
  obtain d e r' where f: "fixed_loop (nat n) b r = (d, e, r')" by (metis prod_cases3)
  from fixed_loop_length [OF f] n have "int (length d) \<le> int (length b) + n" "e = None \<longrightarrow> int (length d) = int (length b) + n"
    by auto
  with append_fixed_cases [OF n assms(2), of r c] f show ?thesis by auto
qed (simp add: appendBodyFixedSize_def)

lemma readBody_total:
  assumes "0 < maxBodySize" and "maxBodySize + 2 \<le> maxAlloc" and "0 \<le> contentLength"
  shows "\<exists>d c' e r'. readBody r contentLength maxBodySize ([], c) = Some ((d, c'), e, r') \<and> (e = None \<longrightarrow> int (length d) \<le> maxBodySize)"
  using append_fixed_total [of contentLength "[]" r c] assms by (auto simp: readBody_def)

lemma chunked_loop_total:
  assumes "0 < maxBodySize" and "maxBodySize + 2 \<le> maxAlloc" and "int (length b) \<le> maxBodySize"
  shows "\<exists>d c' e r'. chunked_loop maxBodySize (b, c) r = Some ((d, c'), e, r') \<and> (e = None \<longrightarrow> int (length d) \<le> maxBodySize)"
  using assms(3)
proof (induction "rd_total r" arbitrary: r b c rule: less_induct)
  case less
  obtain x r1 where x: "parseChunkSize r = (x, r1)" by force
  show ?case
  proof (cases x)
    case (Inl e)
    with x show ?thesis by (simp add: chunked_loop.simps [of _ _ r])
  next
    case (Inr n)
    with x have n: "parseChunkSize r = (Inr n, r1)" "0 \<le> n" using parseChunkSize_nonneg by auto
    show ?thesis
    proof (cases "n = 0 \<or> int (length b) + n > maxBodySize")
      case True
      with n less.prems assms(1) show ?thesis by (auto simp: chunked_loop.simps [of _ _ r])
    next
      case False
      with assms(2) n have s: "0 \<le> n + 2" "int (length b) + (n + 2) \<le> maxAlloc" by auto
      from append_fixed_total [OF s, of r1 c] obtain d c1 e r2 where a:
        "appendBodyFixedSize r1 (b, c) (n + 2) = Some ((d, c1), e, r2)" "e = None \<longrightarrow> int (length d) = int (length b) + (n + 2)"
        by blast
      show ?thesis
      proof (cases "e = None \<and> drop (length d - 2) d = strCRLF")
        case t: True
        have m: "rd_total r2 < rd_total r" using parseChunkSize_total [OF n(1)] appendBodyFixedSize_total [OF a(1)] by simp
        have "int (length d) = int (length b) + (n + 2)" using t a(2) by simp
        then have l: "int (length (take (length d - 2) d)) \<le> maxBodySize" using False n(2) by simp
        from less.hyps [OF m l, of c1] t a(1) n False show ?thesis by (simp add: chunked_loop.simps [of _ _ r])
      next
        case f: False
        with a(1) n False assms(1) show ?thesis by (cases e) (auto simp: chunked_loop.simps [of _ _ r])
      qed
    qed
  qed
qed

lemma readBodyChunked_total:
  assumes "0 < maxBodySize" and "maxBodySize + 2 \<le> maxAlloc"
  shows "\<exists>d c' e r'. readBodyChunked r maxBodySize ([], c) = Some ((d, c'), e, r') \<and> (e = None \<longrightarrow> int (length d) \<le> maxBodySize)"
  using chunked_loop_total [OF assms, of "[]" c r] assms(1) by (simp add: readBodyChunked_def)

lemma identity_loop_total:
  assumes "0 < maxBodySize" and "maxBodySize + 2 \<le> maxAlloc" and "int (length b) \<le> maxBodySize" and "length b \<le> len"
  shows "\<exists>d c' e r'. identity_loop maxBodySize b len r = Some ((d, c'), e, r') \<and> (e = None \<longrightarrow> int (length d) \<le> maxBodySize) \<and>
           int (length d) \<le> max (int len) maxAlloc"
  using assms(3,4)
proof (induction "rd_total r" arbitrary: r b len rule: less_induct)
  case less
  obtain x err r1 where x: "Read (len - length b) r = (x, err, r1)" by (metis prod_cases3)
  show ?case
  proof (cases "x = []")
    case True
    with x less.prems show ?thesis by (auto simp: identity_loop.simps [of _ _ _ r])
  next
    case False
    let ?b = "b @ x"
    have lb: "length ?b \<le> len" using Read_length [OF x] less.prems(2) by simp
    have m: "rd_total r1 < rd_total r" using Read_total [OF x] False by (cases x) auto
    define n where "n = roundUpForSliceCap (wrap64 (2 * int (length ?b)))"
    define n' where "n' = (if n > maxBodySize then wrap64 (maxBodySize + 1) else n)"
    have step: "identity_loop maxBodySize b len r =
       (if int (length ?b) > maxBodySize then Some ((?b, len), Some ErrBodyTooLarge, r1)
        else if len = length ?b then (if n' < 0 \<or> n' > maxAlloc then None else identity_loop maxBodySize ?b (nat n') r1)
        else identity_loop maxBodySize ?b len r1)"
      using x False assms(1) by (simp add: identity_loop.simps [of _ _ _ r] Let_def n_def n'_def)
    show ?thesis
    proof (cases "int (length ?b) > maxBodySize")
      case True
      with step lb show ?thesis by auto
    next
      case small: False
      then have l: "int (length ?b) \<le> maxBodySize" by simp
      have w: "wrap64 (maxBodySize + 1) = maxBodySize + 1" "wrap64 (2 * int (length ?b)) = 2 * int (length ?b)"
        using assms l by (auto intro!: wrap64_id simp: maxAlloc_def)
      have n0: "2 * int (length ?b) \<le> n"
        using roundUpForSliceCap_least [of "2 * int (length ?b)"] False unfolding n_def w(2) by (cases x) auto
      have n': "int (length ?b) \<le> n'" "n' \<le> maxAlloc" using n0 l assms by (auto simp: n'_def w(1))
      from less.hyps [OF m l, of "nat n'"] less.hyps [OF m l lb] n' small step show ?thesis by auto
    qed
  qed
qed

lemma readBodyIdentity_total:
  assumes "0 < maxBodySize" and "maxBodySize + 2 \<le> maxAlloc" and "int c \<le> maxAlloc"
  shows "\<exists>d c' e r'. readBodyIdentity r maxBodySize ([], c) = Some ((d, c'), e, r') \<and> (e = None \<longrightarrow> int (length d) \<le> maxBodySize) \<and>
           int (length d) \<le> maxAlloc"
  using identity_loop_total [OF assms(1,2), of "[]" "if c = 0 then 1024 else c" r] assms
  by (auto simp: readBodyIdentity_def maxAlloc_def split: if_splits)

section \<open>Requests\<close>

lemma set_length_total:
  assumes "0 \<le> n" and "n \<le> maxAlloc"
  shows "\<exists>h. set_length req n = Some (req\<lparr>rq_Header := h\<rparr>)"
  using assms by (auto simp: set_length_def RequestHeader_SetContentLength_def AppendUint_eq maxAlloc_def)

text \<open>The capacities of the slices at hand are those of slices that exist.\<close>

definition caps_ok :: "pools \<Rightarrow> 'f Request \<Rightarrow> bool" where
  "caps_ok P req \<longleftrightarrow> int (pool_cap P) \<le> maxAlloc \<and> (case rq_body req of None \<Rightarrow> True | Some b \<Rightarrow> int (snd b) \<le> maxAlloc)"

lemma ReadBody_total:
  assumes "0 < maxBodySize" and "maxBodySize + 2 \<le> maxAlloc" and "caps_ok P req"
  shows "\<exists>e req' r'. Request_ReadBody P req r contentLength maxBodySize = Some (e, req', r') \<and>
           (e = None \<longrightarrow> int (length (Request_bodyBytes req')) \<le> maxBodySize)"
proof -
  obtain b req1 where b: "Request_bodyBuffer P req = (b, req1)" "rq_bodyRaw req1 = None"
    by (auto simp: Request_bodyBuffer_def Let_def)
  have c: "int (snd b) \<le> maxAlloc" using assms(3) b(1) by (auto simp: Request_bodyBuffer_def Let_def caps_ok_def split: option.splits)
  let ?rd = "if contentLength \<ge> 0 then readBody r contentLength maxBodySize ([], snd b)
             else if contentLength = - 1 then readBodyChunked r maxBodySize ([], snd b)
             else readBodyIdentity r maxBodySize ([], snd b)"
  obtain d c' e r' where d: "?rd = Some ((d, c'), e, r')" "e = None \<longrightarrow> int (length d) \<le> maxBodySize"
    and id: "contentLength < - 1 \<longrightarrow> int (length d) \<le> maxAlloc"
    using readBody_total [OF assms(1,2), of contentLength r "snd b"] readBodyChunked_total [OF assms(1,2), of r "snd b"]
      readBodyIdentity_total [OF assms(1,2) c, of r]
    by (cases "contentLength \<ge> 0"; cases "contentLength = - 1") auto
  let ?q = "req1\<lparr>rq_body := Some (d, c')\<rparr>"
  have "\<exists>q. (if contentLength = - 1 \<and> e = None \<and> length d = 0 then set_length ?q 0
      else if contentLength < - 1 then set_length ?q (int (length d)) else Some ?q) = Some q \<and> rq_body q = Some (d, c') \<and> rq_bodyRaw q = None"
    using set_length_total [of 0 ?q] set_length_total [of "int (length d)" ?q] id b(2) by (auto simp: maxAlloc_def)
  then obtain q where q: "(if contentLength = - 1 \<and> e = None \<and> length d = 0 then set_length ?q 0
      else if contentLength < - 1 then set_length ?q (int (length d)) else Some ?q) = Some q" "rq_body q = Some (d, c')" "rq_bodyRaw q = None"
    by blast
  have "Request_ReadBody P req r contentLength maxBodySize =
      Some (case e of None \<Rightarrow> (None, q, r') | Some x \<Rightarrow> (Some (BodyFailed x), Request_Reset P q, r'))"
    unfolding Request_ReadBody_def b(1) Let_def prod.case d(1) option.case fst_conv q(1) by simp
  with d(2) q(2,3) show ?thesis by (cases e) (auto simp: Request_bodyBytes_def)
qed

lemma bodyBytes_updates [simp]:
  "Request_bodyBytes (req\<lparr>rq_Header := h\<rparr>) = Request_bodyBytes req"
  "Request_bodyBytes (req\<lparr>rq_multipartFormBoundary := b\<rparr>) = Request_bodyBytes req"
  "Request_bodyBytes (req\<lparr>rq_multipartForm := f\<rparr>) = Request_bodyBytes req"
  by (simp_all add: Request_bodyBytes_def split: option.split)

text \<open>Requests whose body has not been read.\<close>

definition no_body :: "'f Request \<Rightarrow> bool" where
  "no_body req \<longleftrightarrow> Request_bodyBytes req = []"

lemma no_body_reset: "no_body ((Request_resetSkipHeader req)\<lparr>rq_Header := h\<rparr>)"
  by (auto simp: no_body_def Request_bodyBytes_def Request_resetSkipHeader_def Request_ResetBody_def Let_def
      Request_RemoveMultipartFormFiles_def Request_closeBodyStream_def split: option.splits)

lemma caps_reset: "caps_ok P req \<Longrightarrow> caps_ok P ((Request_resetSkipHeader req)\<lparr>rq_Header := h\<rparr>)"
  by (auto simp: caps_ok_def Request_resetSkipHeader_def Request_ResetBody_def Let_def Request_RemoveMultipartFormFiles_def
      Request_closeBodyStream_def split: option.splits)

lemma read_form_cases:
  assumes "read_form M P req r n pre = (req', res)" and "caps_ok P req"
  shows "caps_ok P req'" and "Request_bodyBytes req' = Request_bodyBytes req" and "rq_Header req' = rq_Header req"
    and "res = Some (None, q, r') \<Longrightarrow> Request_bodyBytes q = Request_bodyBytes req \<and> rq_Header q = rq_Header req"
  using assms
  by (auto simp: read_form_def Let_def caps_ok_def split: if_splits prod.splits sum.splits)

lemma set_length_body: "set_length req n = Some req' \<Longrightarrow> Request_bodyBytes req' = Request_bodyBytes req"
  by (auto simp: set_length_def)

lemma ContinueReadBody_total:
  assumes "0 < maxBodySize" and "maxBodySize + 2 \<le> maxAlloc" and "caps_ok P req"
  shows "\<exists>e req' r'. Request_ContinueReadBody M P req r maxBodySize pre = Some (e, req', r') \<and>
           (e = None \<longrightarrow> int (length (Request_bodyBytes req')) \<le> max maxBodySize (int (length (Request_bodyBytes req))))"
proof -
  let ?n = "RequestHeader_realContentLength (rq_Header req)"
  obtain req1 res where f: "read_form M P req r ?n pre = (req1, res)" by force
  note fc = read_form_cases [OF f assms(3)]
  show ?thesis
  proof (cases "?n > 0 \<and> ?n > maxBodySize")
    case True
    with assms(1) show ?thesis by (auto simp: Request_ContinueReadBody_def Let_def)
  next
    case False
    show ?thesis
    proof (cases res)
      case (Some x)
      obtain e q r' where x: "x = (e, q, r')" by (metis prod_cases3)
      with Some fc(4) [of q r'] f False assms(1) show ?thesis
        by (cases e) (auto simp: Request_ContinueReadBody_def Let_def)
    next
      case None
      obtain q where q: "set_length req1 0 = Some q" using set_length_total [of 0 req1] by (auto simp: maxAlloc_def)
      from ReadBody_total [OF assms(1,2) fc(1), of r ?n] obtain e req2 r2 where b:
        "Request_ReadBody P req1 r ?n maxBodySize = Some (e, req2, r2)"
        "e = None \<longrightarrow> int (length (Request_bodyBytes req2)) \<le> maxBodySize" by blast
      obtain te h r3 where t: "RequestHeader_ReadTrailer (rq_Header req2) r2 = Some (te, h, r3)"
        using request_trailer_no_panic [of "rq_Header req2" r2] by (metis not_None_eq prod_cases3)
      show ?thesis
        using None f False assms(1) q b t fc(2) set_length_body [OF q]
        by (cases e) (auto simp: Request_ContinueReadBody_def Let_def le_max_iff_disj split: option.splits read_error.splits)
    qed
  qed
qed

text \<open>Claim C10: No client can make the reading of a request panic, or get a body past the limit. For every connection, whatever it
  delivers in whatever pieces, reading a request with a limit on the body returns; if it returns without an error,
  the body is no longer than the limit.\<close>

theorem request_read_safe:
  assumes "0 < maxBodySize" and "maxBodySize + 2 \<le> maxAlloc" and "caps_ok P req"
  shows "\<exists>e req' r'. Request_ReadLimitBody M P req r maxBodySize = Some (e, req', r') \<and>
           (e = None \<longrightarrow> int (length (Request_bodyBytes req')) \<le> maxBodySize)"
proof -
  let ?q = "Request_resetSkipHeader req"
  obtain e h r1 where h: "RequestHeader_Read (rq_Header ?q) r = Some (e, h, r1)"
    using request_header_total(2) [of "rq_Header ?q" r] by (metis not_None_eq prod_cases3)
  let ?q1 = "?q\<lparr>rq_Header := h\<rparr>"
  have nb: "Request_bodyBytes ?q1 = []" using no_body_reset [where req = req and h = h] by (simp add: no_body_def)
  from ContinueReadBody_total [OF assms(1,2) caps_reset [OF assms(3), where h = h], where M = M and r = r1 and pre = True]
    h nb assms(1)
  show ?thesis
    by (cases e) (auto simp: Request_ReadLimitBody_def Request_readLimitBody_def Let_def)
qed

theorem request_read_safe_witness:
  "\<exists>e req' r'. Request_ReadLimitBody \<lparr>ml_ReadForm = (\<lambda>_ _ r. (Inr (), r)), ml_Marshal = (\<lambda>_ _. Inr [])\<rparr>
       \<lparr>pool_cap = 64, requestBodyPoolSizeLimit = - 1, responseBodyPoolSizeLimit = - 1\<rparr> zero_request
       \<lparr>rd_buf = [], rd_src = [''POST / HTTP/1.1'' @ strCRLF @ ''Transfer-Encoding: chunked'' @ strCRLF @ strCRLF @ ''fffffffffffffff'' @ strCRLF],
        rd_end = EOF, rd_size = 4096\<rparr> 100 = Some (e, req', r') \<and> (e = None \<longrightarrow> int (length (Request_bodyBytes req')) \<le> 100)"
  by (rule request_read_safe) (simp_all add: caps_ok_def zero_request_def maxAlloc_def)

end
