(* ===== verification/Progress.thy ===== *)
theory Progress
  imports Message_Correct
begin

text \<open>
  Reading makes progress: no reader of headers, bodies or trailers lengthens what is still to come, and a request
  header that was read has shortened it.
\<close>

section \<open>Readers\<close>

text \<open>What a connection is like after a read: not more is left, if every read of the connection gives some bytes it
  still does, and the buffer and the end of the connection are as before.\<close>

definition reads :: "reader \<Rightarrow> reader \<Rightarrow> bool" where
  "reads r r' \<longleftrightarrow>
     rd_total r' \<le> rd_total r \<and> ([] \<notin> set (rd_src r) \<longrightarrow> [] \<notin> set (rd_src r')) \<and>
     rd_size r' = rd_size r \<and> rd_end r' = rd_end r"

lemma reads_refl [simp, intro]: "reads r r"
  by (simp add: reads_def)

lemma reads_trans [trans]: "reads r r1 \<Longrightarrow> reads r1 r2 \<Longrightarrow> reads r r2"
  by (auto simp: reads_def)

lemma reads_buf: "length b \<le> length (rd_buf r) \<Longrightarrow> reads r (r\<lparr>rd_buf := b\<rparr>)"
  by (simp add: reads_def rd_total_def rd_left_def)

lemma fill_reads: "fill r = (e, r') \<Longrightarrow> reads r r'"
  by (auto simp: fill_def reads_def rd_total_def rd_left_def Let_def split: list.splits if_splits)

lemma fill_loop_reads: "fill_loop n r = (e, r') \<Longrightarrow> reads r r'"
proof (induction n r arbitrary: e r' rule: fill_loop.induct)
  case (1 n r)
  obtain x r1 where f: "fill r = (x, r1)" by force
  note fill_reads [OF f]
  with 1 f show ?case
    by (cases x) (auto simp: fill_loop.simps [of n r] split: if_splits intro: reads_trans)
qed

lemma Peek_reads: "Peek n r = (b, e, r') \<Longrightarrow> reads r r'"
  by (auto simp: Peek_def Let_def split: prod.splits if_splits dest: fill_loop_reads)

lemma Read_reads: "Read n r = (b, e, r') \<Longrightarrow> reads r r'"
  using Read_total [of n r b e r']
  by (auto simp: Read_def reads_def split: list.splits if_splits)

lemma ReadByte_reads: "ReadByte r = (x, r') \<Longrightarrow> reads r r'"
  using fill_loop_reads [of 1 r]
  by (auto simp: ReadByte_def split: prod.splits option.splits list.splits elim!: reads_trans intro!: reads_buf)

lemma Unread_reads: "ReadByte r = (Inr c, r') \<Longrightarrow> reads r (UnreadByte c r')"
  using ReadByte_total [of r c r'] ReadByte_reads [of r "Inr c" r']
  by (simp add: UnreadByte_def reads_def rd_total_def rd_left_def)

section \<open>Bodies\<close>

lemma read_hex_reads: "read_hex_bytes r i n = (x, r') \<Longrightarrow> reads r r'"
proof (induction r i n arbitrary: x r' rule: read_hex_bytes.induct)
  case (1 r i n)
  obtain y r1 where y: "ReadByte r = (y, r1)" by force
  note ReadByte_reads [OF y]
  with 1 y Unread_reads [of r _ r1] show ?case
    by (cases y) (auto simp: read_hex_bytes.simps [of r i n] Let_def split: if_splits intro: reads_trans)
qed

lemma skip_extension_reads: "skip_extension r = (x, r') \<Longrightarrow> reads r r'"
proof (induction r arbitrary: x r' rule: skip_extension.induct)
  case (1 r)
  obtain y r1 where y: "ReadByte r = (y, r1)" by force
  note ReadByte_reads [OF y]
  with 1 y Unread_reads [of r _ r1] show ?case
    by (cases y) (auto simp: skip_extension.simps [of r] split: if_splits intro: reads_trans)
qed

lemma expect_reads: "expect_bytes xs r = (x, r') \<Longrightarrow> reads r r'"
  by (induction xs arbitrary: r) (auto split: prod.splits sum.splits if_splits dest!: ReadByte_reads intro: reads_trans)

lemma readCrLf_reads: "readCrLf r = (x, r') \<Longrightarrow> reads r r'"
  unfolding readCrLf_def by (rule expect_reads)

lemma parseChunkSize_reads: "parseChunkSize r = (x, r') \<Longrightarrow> reads r r'"
  by (auto simp: parseChunkSize_def split: prod.splits sum.splits
      dest!: read_hex_reads skip_extension_reads readCrLf_reads elim: reads_trans)

lemma fixed_loop_reads: "fixed_loop need dst r = (d, e, r') \<Longrightarrow> reads r r'"
proof (induction need dst r arbitrary: d e r' rule: fixed_loop.induct)
  case (1 need dst r)
  obtain b err r1 where b: "Read need r = (b, err, r1)" by (metis prod_cases3)
  from Read_reads [OF b] 1 b show ?case
    by (auto simp: fixed_loop.simps [of need dst r] split: if_splits intro: reads_trans)
qed

text \<open>A slice that a reader returns has been allocated.\<close>

abbreviation reads_into :: "reader \<Rightarrow> nat \<Rightarrow> slice_cap \<Rightarrow> reader \<Rightarrow> bool" where
  "reads_into r cap d r' \<equiv> reads r r' \<and> (int cap \<le> maxAlloc \<longrightarrow> int (snd d) \<le> maxAlloc)"

lemma append_fixed_reads: "appendBodyFixedSize r dst n = Some (d, e, r') \<Longrightarrow> reads_into r (snd dst) d r'"
  by (auto simp: appendBodyFixedSize_def Let_def split: if_splits prod.splits dest: fixed_loop_reads)

lemma readBody_reads: "readBody r n m dst = Some (d, e, r') \<Longrightarrow> reads_into r (snd dst) d r'"
  by (auto simp: readBody_def split: if_splits dest!: append_fixed_reads)

lemma chunked_loop_reads: "chunked_loop m dst r = Some (d, e, r') \<Longrightarrow> reads_into r (snd dst) d r'"
proof (induction "rd_total r" arbitrary: dst r d e r' rule: less_induct)
  case less
  obtain x r1 where x: "parseChunkSize r = (x, r1)" by force
  note px = parseChunkSize_reads [OF x]
  show ?case
  proof (cases "\<exists>n d1 r2. x = Inr n \<and> n \<noteq> 0 \<and> \<not> (m > 0 \<and> int (length (fst dst)) + n > m) \<and>
      appendBodyFixedSize r1 dst (n + 2) = Some (d1, None, r2) \<and> drop (length (fst d1) - 2) (fst d1) = strCRLF")
    case True
    then obtain n d1 r2 where n: "x = Inr n" "n \<noteq> 0" "\<not> (m > 0 \<and> int (length (fst dst)) + n > m)"
      and a: "appendBodyFixedSize r1 dst (n + 2) = Some (d1, None, r2)" "drop (length (fst d1) - 2) (fst d1) = strCRLF" by blast
    have "rd_total r2 < rd_total r" using parseChunkSize_total x n(1) appendBodyFixedSize_total [OF a(1)] by fastforce
    from less.hyps [OF this, of "(take (length (fst d1) - 2) (fst d1), snd d1)" d e r'] less.prems n a x
    have "reads_into r2 (snd d1) d r'" by (auto simp: chunked_loop.simps [of m dst r])
    with px append_fixed_reads [OF a(1)] show ?thesis by (auto intro: reads_trans)
  next
    case False
    with less.prems x px show ?thesis
      by (auto simp: chunked_loop.simps [of m dst r] split: sum.splits if_splits option.splits
          dest!: append_fixed_reads intro: reads_trans)
  qed
qed

lemma readBodyChunked_reads: "readBodyChunked r m dst = Some (d, e, r') \<Longrightarrow> reads_into r (snd dst) d r'"
  by (auto simp: readBodyChunked_def split: if_splits dest!: chunked_loop_reads)

lemma identity_loop_reads: "identity_loop m dst len r = Some (d, e, r') \<Longrightarrow> reads_into r len d r'"
proof (induction "rd_total r" arbitrary: dst len r rule: less_induct)
  case less
  obtain b err r1 where b: "Read (len - length dst) r = (b, err, r1)" by (metis prod_cases3)
  note rb = Read_reads [OF b]
  show ?case
  proof (cases "b = []")
    case True
    with less.prems b rb show ?thesis by (auto simp: identity_loop.simps [of m dst len r])
  next
    case False
    then have m: "rd_total r1 < rd_total r" using Read_total [OF b] by (cases b) auto
    from less.prems b False
    consider "r' = r1" "snd d = len" | l where "identity_loop m (dst @ b) l r1 = Some (d, e, r')" "l = len \<or> int l \<le> maxAlloc"
      by (auto simp: identity_loop.simps [of m dst len r] Let_def split: if_splits)
    then show ?thesis
    proof cases
      case (2 l)
      from less.hyps [OF m 2(1)] 2(2) rb show ?thesis by (auto intro: reads_trans)
    qed (use rb in auto)
  qed
qed

lemma readBodyIdentity_reads: "readBodyIdentity r m dst = Some (d, e, r') \<Longrightarrow> reads_into r (snd dst) d r'"
  by (auto simp: readBodyIdentity_def maxAlloc_def split: if_splits dest!: identity_loop_reads)

lemma readBodyWithStreaming_reads: "readBodyWithStreaming r n m dst = Some (d, e, r') \<Longrightarrow> reads_into r (snd dst) d r'"
  by (auto simp: readBodyWithStreaming_def Let_def maxAlloc_def split: if_splits option.splits
      dest!: append_fixed_reads readBodyIdentity_reads)

section \<open>Headers\<close>

text \<open>The scanner rewrites the buffer but never changes its length: where a folded value is compacted, its last line
  ends in a newline, so all indexes are within the buffer.\<close>

lemma value_lines_newline:
  "value_lines b n multi = (m, multi', cn) \<Longrightarrow> m = n \<and> multi' = multi \<or> m < length b \<and> b ! m = nChar"
proof (induction "length b - n" arbitrary: n multi rule: less_induct)
  case less
  define d where "d = IndexByte (drop (n + 1) b) nChar"
  show ?case
  proof (cases "n + 1 \<ge> length b \<or> d \<le> 0")
    case True
    with less.prems show ?thesis
      unfolding value_lines.simps [of b n multi] Let_def d_def [symmetric] by (auto split: if_splits)
  next
    case False
    have e: "n + nat d + 1 < length b" "b ! (n + nat d + 1) = nChar"
      using IndexByte_nth [of "drop (n + 1) b" nChar] False by (auto simp: d_def ac_simps)
    have l: "length b - (n + nat d + 1) < length b - n" using e by simp
    have s: "value_lines b (n + nat d + 1) True = (m, multi', cn) \<Longrightarrow> m < length b \<and> b ! m = nChar"
      using less.hyps [OF l, of True] e by auto
    show ?thesis using less.prems s
      unfolding value_lines.simps [of b n multi] Let_def d_def [symmetric] by (auto split: if_splits)
  qed
qed

lemma take_value_array:
  assumes "n < length (hs_b s)" and "multi \<Longrightarrow> hs_b s ! n = nChar"
  shows "length (hs_array (take_value n multi s)) = length (hs_array s)"
proof (cases multi)
  case True
  let ?b = "hs_b s"
  define v where "v = trim_value (take n ?b)"
  obtain sp t where v: "take n ?b = v @ sp @ t" using trim_value_split [of "take n ?b"] unfolding v_def by blast
  have lv: "length v + length (sp @ t) = n" using arg_cong [OF v, of length] assms(1) by simp
  show ?thesis
  proof (cases "v = []")
    case False
    obtain nv k where nv: "unfold_loop v False = (nv, k)" by force
    note lk = unfold_loop_length [OF nv]
    define ob1 where "ob1 = nv @ drop (length nv) ?b"
    define ob where "ob = take (length nv) ob1 @ drop (length nv + k) ob1 @ drop (length ?b - k) ob1"
    have ob: "ob = nv @ drop (length v) ?b @ drop (length ?b - k) ob1" using lk by (simp add: ob_def ob1_def add.commute)
    have lob: "length ob = length ?b" using lv lk assms(1) by (simp add: ob_def ob1_def)
    have at: "ob ! length nv = ?b ! length v" using lv assms(1) by (simp add: ob nth_append)
    define skip where "skip = (if ob ! length nv = rChar then (if ob ! (length nv + 1) = nChar then 2 else 1)
                    else if ob ! length nv = nChar then 1 else (0::nat))"
    have "length v = n \<Longrightarrow> ob ! length nv = nChar" using at assms(2) True by simp
    then have "ob ! length nv = rChar \<Longrightarrow> length v < n" using lv by (cases "length v = n") auto
    then have "skip \<le> 1 \<or> skip \<le> 2 \<and> length v < n" by (simp add: skip_def)
    moreover have "length nv + k \<le> n" using lv lk by simp
    ultimately have sk: "length nv + skip \<le> length ?b - k" using lk assms(1) by linarith
    have "normalizeHeaderValue v ?b x = (nv, length nv + skip, length ?b - k, x - int k, ob)" for x
      unfolding normalizeHeaderValue_def nv prod.case Let_def ob1_def [symmetric] ob_def [symmetric] skip_def [symmetric]
      using False by simp
    then have "hs_array (take_value n multi s) = hs_done s @ take (length nv + skip) ob @
        Prelude.slice (length nv + skip) (length ?b - k) ob @ drop (length ?b - k) ob @ hs_after s"
      using True by (simp add: take_value_def hs_array_def v_def [symmetric])
    with sk lob show ?thesis by (simp add: length_slice hs_array_def)
  next
    case True
    then show ?thesis using \<open>multi\<close>
      by (simp add: take_value_def hs_array_def v_def [symmetric] normalizeHeaderValue_def length_slice)
  qed
next
  case False
  then show ?thesis by (simp add: take_value_def advance_def Let_def hs_array_def)
qed

lemma array_fields [simp]:
  "hs_array (s\<lparr>hs_err := e\<rparr>) = hs_array s" "hs_array (s\<lparr>nextNewLine := i\<rparr>) = hs_array s"
  "hs_array (s\<lparr>nextColon := i\<rparr>) = hs_array s" "hs_array (s\<lparr>initialized := x\<rparr>) = hs_array s"
  by (simp_all add: hs_array_def)

lemma advance_array: "length (hs_array (advance n s)) = length (hs_array s)"
  by (simp add: advance_def hs_array_def)

lemma scan_key_array: "length (hs_array (scan_key n s)) = length (hs_array s)"
  by (simp add: scan_key_def Let_def advance_array) (simp add: hs_array_def)

lemma scan_value_array: "scan_value s = (ok, s') \<Longrightarrow> length (hs_array s') = length (hs_array s)"
proof -
  assume sv: "scan_value s = (ok, s')"
  define n where "n = (if nextNewLine s \<ge> 0 then nextNewLine s else IndexByte (hs_b s) nChar)"
  define t where "t = (if nextNewLine s \<ge> 0 then s\<lparr>nextNewLine := - 1\<rparr> else s)"
  have t: "hs_b t = hs_b s" "hs_array t = hs_array s" by (simp_all add: t_def)
  obtain m multi cn where v: "value_lines (hs_b t) (nat n) False = (m, multi, cn)" by (metis prod_cases3)
  define t1 where "t1 = (case cn of None \<Rightarrow> t | Some (c, l) \<Rightarrow> t\<lparr>nextColon := c, nextNewLine := l\<rparr>)"
  have t1: "hs_b t1 = hs_b s" "hs_array t1 = hs_array s" using t by (simp_all add: t1_def split: option.split prod.split)
  have "m < length (hs_b t1) \<Longrightarrow> length (hs_array (take_value m multi t1)) = length (hs_array s)"
    using take_value_array [of m t1 multi] value_lines_newline [OF v] t t1 by auto
  with sv v t t1 show ?thesis
    unfolding scan_value_def n_def [symmetric] t_def [symmetric] Let_def v prod.case t1_def [symmetric]
    by (auto split: if_splits)
qed

lemma next_array: "headerScanner_next s = (ok, s') \<Longrightarrow> length (hs_array s') = length (hs_array s)"
proof -
  assume nx: "headerScanner_next s = (ok, s')"
  define t where "t = (if \<not> initialized s then s\<lparr>nextColon := - 1, nextNewLine := - 1, initialized := True\<rparr> else s)"
  have t: "length (hs_array t) = length (hs_array s)" by (simp add: t_def)
  from nx show ?thesis
    unfolding headerScanner_next_def Let_def t_def [symmetric]
    by (auto simp: t advance_array scan_key_array split: if_splits sum.splits dest!: scan_value_array)
qed

text \<open>What every line of a block keeps, the loop over the block keeps.\<close>

context header_loop
begin

lemma loop_array: "loop s h err = (s', h', err') \<Longrightarrow> length (hs_array s') = length (hs_array s)"
proof (induction "length (hs_b s)" arbitrary: s h err rule: less_induct)
  case less
  obtain ok t where t: "headerScanner_next s = (ok, t)" by fastforce
  note next_array [OF t]
  with t less.hyps [of t] less.prems headerScanner_next_shorter [of s t] show ?case
    by (cases ok) (auto simp: loop_more loop_stop split: prod.splits)
qed

lemma loop_keeps:
  assumes "\<And>h err k v. P h \<Longrightarrow> P (fst (body h err k v))"
  shows "P h \<Longrightarrow> loop s h err = (s', h', err') \<Longrightarrow> P h'"
proof (induction "length (hs_b s)" arbitrary: s h err rule: less_induct)
  case less
  obtain ok t where t: "headerScanner_next s = (ok, t)" by fastforce
  show ?case
  proof (cases ok)
    case True
    obtain h1 err1 where b: "body h err (hs_key t) (hs_value t) = (h1, err1)" by fastforce
    with assms [OF less.prems(1), of err "hs_key t" "hs_value t"] have "P h1" by simp
    from less.hyps [OF _ this] headerScanner_next_shorter [of s t] t True b less.prems(2) show ?thesis by (auto simp: loop_more)
  qed (use t less.prems in \<open>auto simp: loop_stop\<close>)
qed

end

lemma parse_uint_range:
  "parse_uint_loop b i v = (w, n, None) \<Longrightarrow> 0 \<le> v \<Longrightarrow> v < 2 ^ 63 \<Longrightarrow> 0 \<le> w \<and> w < 2 ^ 63"
proof (induction b i v rule: parse_uint_loop.induct)
  case (2 c b i v)
  show ?case
    using "2.IH" [OF refl _ refl] "2.prems" wrap64_range [of "10 * v + int ((byte_val c + 208) mod 256)"]
    by (auto simp: Let_def split: if_splits)
qed simp

definition length_ok :: "RequestHeader \<Rightarrow> bool" where
  "length_ok h \<longleftrightarrow> - 2 \<le> q_contentLength h \<and> q_contentLength h < 2 ^ 63"

lemma parseContentLength_range: "parseContentLength v = (n, None) \<Longrightarrow> 0 \<le> n \<and> n < 2 ^ 63"
  by (auto simp: parseContentLength_def parseUintBuf_def dest: parse_uint_range split: prod.splits option.splits if_splits)

lemma trailer_content_length: "q_contentLength (snd (RequestHeader_SetTrailerBytes h v)) = q_contentLength h"
  by (simp add: RequestHeader_SetTrailerBytes_def RequestHeader_AddTrailerBytes_def Let_def split: prod.split)

lemma header_line_length_ok: "length_ok h \<Longrightarrow> length_ok (fst (request_header_line h err k v))"
proof -
  assume ok: "length_ok h"
  obtain n e where p: "parseContentLength v = (n, e)" by force
  obtain te h1 where t: "RequestHeader_SetTrailerBytes h v = (te, h1)" by force
  have "e = None \<Longrightarrow> 0 \<le> n \<and> n < 2 ^ 63" using parseContentLength_range p by blast
  moreover have "q_contentLength h1 = q_contentLength h" using trailer_content_length [of h v] t by simp
  ultimately show ?thesis using ok p t
    by (cases "v = strIdentity"; cases e; cases te) (simp_all add: request_header_line_def Let_def length_ok_def)
qed

lemma first_line_shorter: "first_line b = Inr (l, r) \<Longrightarrow> length r < length b"
  by (induction b arbitrary: l r rule: first_line.induct)
    (subst (asm) (2) first_line.simps, fastforce split: sum.splits prod.splits if_splits dest: nextLine_shorter)

lemma parseFirstLine_count: "RequestHeader_parseFirstLine h b = (Inr m, h') \<Longrightarrow> 1 \<le> m \<and> m \<le> length b"
  by (auto simp: RequestHeader_parseFirstLine_def Let_def split: sum.splits prod.splits if_splits dest!: first_line_shorter)

lemma new_scanner_array [simp]: "hs_array (new_scanner b d) = b"
  by (simp add: new_scanner_def hs_array_def)

lemma parseHeaders_progress:
  assumes "RequestHeader_parseHeaders h b = (res, h', b')"
  shows "length b' = length b" and "length_ok h'"
proof -
  obtain s h1 err where l: "request_headers_loop (new_scanner b (q_disableNormalizing h)) (h\<lparr>q_contentLength := - 2\<rparr>) None = (s, h1, err)"
    by (metis prod_cases3)
  have ok: "length_ok h1"
    by (rule request_loop.loop_keeps [where P = length_ok, OF header_line_length_ok _ l]) (simp_all add: length_ok_def)
  have "length (hs_array s) = length b" using request_loop.loop_array [OF l] by simp
  with assms l show "length b' = length b" by (auto simp: RequestHeader_parseHeaders_def split: prod.splits)
  from assms l ok show "length_ok h'"
    by (auto simp: RequestHeader_parseHeaders_def request_headers_end_def length_ok_def Let_def split: option.splits prod.splits if_splits)
qed

lemma parse_progress:
  assumes "RequestHeader_parse h b = (res, h', b')"
  shows "length b' = length b" and "res = Inr n \<Longrightarrow> 1 \<le> n" and "res = Inr n \<Longrightarrow> length_ok h'"
proof -
  obtain f h1 where f: "RequestHeader_parseFirstLine h b = (f, h1)" by force
  have "length b' = length b \<and> (res = Inr n \<longrightarrow> 1 \<le> n \<and> length_ok h')"
  proof (cases f)
    case (Inl e)
    with f assms show ?thesis by (auto simp: RequestHeader_parse_def)
  next
    case (Inr m)
    with f have m: "1 \<le> m" "m \<le> length b" using parseFirstLine_count by blast+
    obtain raw k err where raw: "readRawHeaders [] (drop m b) = (raw, k, err)" by (metis prod_cases3)
    obtain x h2 b2 where p: "RequestHeader_parseHeaders (h1\<lparr>q_rawHeaders := raw\<rparr>) (drop m b) = (x, h2, b2)" by (metis prod_cases3)
    note pp = parseHeaders_progress [OF p]
    have "x = Inr j \<Longrightarrow> 0 \<le> j" for j using parseHeaders_count p by blast
    with f Inr raw p pp m assms show ?thesis
      by (cases err; cases x) (auto simp: RequestHeader_parse_def)
  qed
  then show "length b' = length b" "res = Inr n \<Longrightarrow> 1 \<le> n" "res = Inr n \<Longrightarrow> length_ok h'" by auto
qed

text \<open>The loops that read: they keep what is left of the connection, and a header that was read has taken something from it.\<close>

lemma parse_buffered_reads:
  assumes "parse_buffered typ sec err parsed r = Some (e, h', r')" and "parsed = (res, h', b)" and "length b = length (rd_buf r)"
  shows "reads r r'" and "e = None \<Longrightarrow> \<exists>n. res = Inr n \<and> (1 \<le> n \<longrightarrow> rd_total r' < rd_total r)"
  using assms by (auto simp: parse_buffered_def mustDiscard_def reads_def rd_total_def rd_left_def Let_def split: sum.splits if_splits)

lemma tryRead_reads:
  assumes "RequestHeader_tryRead h r n = Some (e, h', r')"
  shows "reads r r'" and "e = None \<Longrightarrow> rd_total r' < rd_total r \<and> length_ok h'"
proof -
  let ?h = "RequestHeader_resetSkipNormalize h"
  obtain b err r1 where p: "Peek n r = (b, err, r1)" by (metis prod_cases3)
  note pr = Peek_reads [OF p]
  have "reads r r' \<and> (e = None \<longrightarrow> rd_total r' < rd_total r \<and> length_ok h')"
  proof (cases "b = []")
    case True
    with assms p pr show ?thesis
      by (auto simp: RequestHeader_tryRead_def Let_def split: option.splits peek_error.splits conn_error.splits)
  next
    case False
    obtain res h1 b1 where q: "RequestHeader_parse ?h (rd_buf r1) = (res, h1, b1)" by (metis prod_cases3)
    from False assms p q have pb: "parse_buffered RequestType (q_secureErrorLogMessage ?h) err (res, h1, b1) r1 = Some (e, h', r')"
      by (simp add: RequestHeader_tryRead_def Let_def)
    then have h1: "h1 = h'" by (auto simp: parse_buffered_def Let_def split: sum.splits)
    note pp = parse_progress [OF q]
    from parse_buffered_reads [OF pb [unfolded h1] refl pp(1)] pp(2,3) pr h1 show ?thesis by (auto simp: reads_def)
  qed
  then show "reads r r'" "e = None \<Longrightarrow> rd_total r' < rd_total r \<and> length_ok h'" by auto
qed

lemma request_loop_reads:
  "request_read_loop h r n w = Some (e, h', r') \<Longrightarrow>
     reads r r' \<and> (e = None \<longrightarrow> rd_total r' < rd_total r \<and> length_ok h')"
proof (induction h r n w arbitrary: e h' r' rule: request_read_loop.induct)
  case (1 h r n w)
  obtain e1 h1 r1 where t: "RequestHeader_tryRead h r n = Some (e1, h1, r1)"
    using "1.prems" by (auto simp: request_read_loop.simps [of h r n] split: option.splits)
  note tr = tryRead_reads [OF t]
  show ?case
  proof (cases "e1 = Some ReadNeedMore \<and> w")
    case True
    with "1.prems" t have l: "request_read_loop h1 r1 (Buffered r1 + 1) w = Some (e, h', r')"
      by (simp add: request_read_loop.simps [of h r n])
    from "1.IH" [OF t refl _ refl _ l] True tr show ?thesis by (auto simp: reads_def)
  next
    case False
    with "1.prems" t tr show ?thesis
      by (auto simp: request_read_loop.simps [of h r n] split: option.splits if_splits)
  qed
qed

lemma Read_header_reads:
  assumes "RequestHeader_Read h r = Some (e, h', r') \<or> RequestHeader_readLoop h r w = Some (e, h', r')"
  shows "reads r r'" and "e = None \<Longrightarrow> rd_total r' < rd_total r \<and> length_ok h'"
  using assms request_loop_reads [of h r 1] by (auto simp: RequestHeader_Read_def RequestHeader_readLoop_def)

lemma parse_trailer_array: "parse_trailer d h b = Some (h', res, b') \<Longrightarrow> length b' = length b"
proof -
  assume p: "parse_trailer d h b = Some (h', res, b')"
  define sk where "sk = (if b ! 0 = CHR ''0'' then take (length strCRLF + 1) b else [])"
  obtain s h1 err where l: "trailer_loop (new_scanner (drop (length sk) b) d) h None = (s, h1, err)" by (metis prod_cases3)
  have "length sk \<le> length b" by (simp add: sk_def)
  moreover from p l have "b' = b \<or> b' = sk @ hs_array s"
    unfolding parse_trailer_def Let_def sk_def [symmetric] by (auto split: if_splits)
  ultimately show ?thesis using trailers.loop_array [OF l] by auto
qed

lemma tryReadTrailer_reads: "RequestHeader_tryReadTrailer h r n = Some (e, h', r') \<Longrightarrow> reads r r' \<and> q_contentLength h' = q_contentLength h"
proof -
  assume t: "RequestHeader_tryReadTrailer h r n = Some (e, h', r')"
  obtain b err r1 where p: "Peek n r = (b, err, r1)" by (metis prod_cases3)
  have l: "RequestHeader_parseTrailer h (rd_buf r1) = Some (res, h1, b1) \<Longrightarrow>
     length b1 = length (rd_buf r1) \<and> q_contentLength h1 = q_contentLength h" for res h1 b1
    by (auto simp: RequestHeader_parseTrailer_def dest!: parse_trailer_array)
  have "reads r1 r' \<and> q_contentLength h' = q_contentLength h"
    using t p l
    by (auto simp: RequestHeader_tryReadTrailer_def try_read_trailer_def parse_buffered_def mustDiscard_def Let_def
        split: option.splits sum.splits if_splits prod.splits intro!: reads_buf)
  with Peek_reads [OF p] show ?thesis by (auto intro: reads_trans)
qed

lemma trailer_loop_reads:
  "request_trailer_read_loop h r n = Some (e, h', r') \<Longrightarrow> reads r r' \<and> q_contentLength h' = q_contentLength h"
proof (induction h r n arbitrary: e h' r' rule: request_trailer_read_loop.induct)
  case (1 h r n)
  obtain e1 h1 r1 where t: "RequestHeader_tryReadTrailer h r n = Some (e1, h1, r1)"
    using "1.prems" by (auto simp: request_trailer_read_loop.simps [of h r n] split: option.splits)
  note tr = tryReadTrailer_reads [OF t]
  show ?case
  proof (cases "e1 = Some ReadNeedMore")
    case True
    with "1.prems" t have l: "request_trailer_read_loop h1 r1 (Buffered r1 + 1) = Some (e, h', r')"
      by (simp add: request_trailer_read_loop.simps [of h r n])
    from "1.IH" [OF t refl _ refl _ l] True tr show ?thesis by (auto intro: reads_trans)
  next
    case False
    with "1.prems" t tr show ?thesis
      by (auto simp: request_trailer_read_loop.simps [of h r n] split: option.splits if_splits)
  qed
qed

lemma ReadTrailer_reads: "RequestHeader_ReadTrailer h r = Some (e, h', r') \<Longrightarrow> reads r r' \<and> q_contentLength h' = q_contentLength h"
  by (auto simp: RequestHeader_ReadTrailer_def dest: trailer_loop_reads)

end
