(* ===== verification/Server.thy ===== *)
theory Server
  imports Message
begin

text \<open>
  The server side of a connection (serveConn of src/fasthttp/server.go and what it calls): reading requests from a
  keep-alive connection one after the other, Expect: 100-continue, the handler, the response, errors, hijacking.

  The handler is an argument: it works on the context and may read the body from the connection. Deadlines,
  connection states and the logger are left out; the pool of contexts hands out a context that was reset. The
  writer keeps apart what is on the connection (\<open>cs_sent\<close>) and what is still in its buffer (\<open>cs_pending\<close>). A ghost
  field records the requests the handler was called with.
\<close>

section \<open>Contexts\<close>

record 'f RequestCtx =
  cx_Request :: "'f Request"
  cx_Response :: Response
  cx_timeoutResponse :: "Response option"
  cx_hijackHandler :: bool
  cx_hijackNoResponse :: bool

definition StatusFound :: int where "StatusFound = 302"
definition StatusNotModified :: int where "StatusNotModified = 304"
definition StatusBadRequest :: int where "StatusBadRequest = 400"
definition StatusNotFound :: int where "StatusNotFound = 404"
definition StatusRequestTimeout :: int where "StatusRequestTimeout = 408"
definition StatusExpectationFailed :: int where "StatusExpectationFailed = 417"
definition StatusRequestHeaderFieldsTooLarge :: int where "StatusRequestHeaderFieldsTooLarge = 431"
definition strLocation :: bytes where "strLocation = ''Location''"
definition strResponseContinue :: bytes where
  "strResponseContinue = ''HTTP/1.1 100 Continue'' @ strCRLF @ strCRLF"
definition defaultServerName :: bytes where "defaultServerName = ''fasthttp''"
definition DefaultMaxRequestBodySize :: int where "DefaultMaxRequestBodySize = 4 * 1024 * 1024"

definition on_response :: "(Response \<Rightarrow> Response) \<Rightarrow> 'f RequestCtx \<Rightarrow> 'f RequestCtx" where
  "on_response f ctx = ctx\<lparr>cx_Response := f (cx_Response ctx)\<rparr>"

definition ctx_SetConnectionClose :: "'f RequestCtx \<Rightarrow> 'f RequestCtx" where
  "ctx_SetConnectionClose ctx = on_response Response_SetConnectionClose ctx"

definition ctx_SetStatusCode :: "'f RequestCtx \<Rightarrow> int \<Rightarrow> 'f RequestCtx" where
  "ctx_SetStatusCode ctx c = on_response (\<lambda>r. Response_SetStatusCode r c) ctx"

definition ctx_SetContentTypeBytes :: "'f RequestCtx \<Rightarrow> bytes \<Rightarrow> 'f RequestCtx" where
  "ctx_SetContentTypeBytes ctx t = on_response (\<lambda>r. r\<lparr>rs_Header := ResponseHeader_SetContentTypeBytes (rs_Header r) t\<rparr>) ctx"

definition ctx_SetBody :: "pools \<Rightarrow> 'f RequestCtx \<Rightarrow> bytes \<Rightarrow> 'f RequestCtx" where
  "ctx_SetBody P ctx b = on_response (\<lambda>r. Response_SetBody P r b) ctx"

definition ctx_SetBodyString :: "pools \<Rightarrow> 'f RequestCtx \<Rightarrow> bytes \<Rightarrow> 'f RequestCtx" where
  "ctx_SetBodyString P ctx b = on_response (\<lambda>r. Response_SetBody P r b) ctx"

definition ctx_ResetBody :: "'f RequestCtx \<Rightarrow> 'f RequestCtx" where
  "ctx_ResetBody ctx = on_response Response_ResetBody ctx"

definition ctx_Write :: "pools \<Rightarrow> 'f RequestCtx \<Rightarrow> bytes \<Rightarrow> 'f RequestCtx" where
  "ctx_Write P ctx p = on_response (\<lambda>r. Response_AppendBody P r p) ctx"

definition ctx_Error :: "pools \<Rightarrow> 'f RequestCtx \<Rightarrow> bytes \<Rightarrow> int \<Rightarrow> 'f RequestCtx" where
  "ctx_Error P ctx msg statusCode =
     (let ctx = on_response (Response_Reset P) ctx;
          ctx = ctx_SetStatusCode ctx statusCode;
          ctx = ctx_SetContentTypeBytes ctx defaultContentType
      in ctx_SetBodyString P ctx msg)"

definition ctx_Success :: "pools \<Rightarrow> 'f RequestCtx \<Rightarrow> bytes \<Rightarrow> bytes \<Rightarrow> 'f RequestCtx" where
  "ctx_Success P ctx contentType body = ctx_SetBody P (ctx_SetContentTypeBytes ctx contentType) body"

definition ctx_NotModified :: "pools \<Rightarrow> 'f RequestCtx \<Rightarrow> 'f RequestCtx" where
  "ctx_NotModified P ctx = ctx_SetStatusCode (on_response (Response_Reset P) ctx) StatusNotModified"

definition ctx_NotFound :: "pools \<Rightarrow> 'f RequestCtx \<Rightarrow> 'f RequestCtx" where
  "ctx_NotFound P ctx =
     ctx_SetBodyString P (ctx_SetStatusCode (on_response (Response_Reset P) ctx) StatusNotFound) ''404 Page not found''"

definition getRedirectStatusCode :: "int \<Rightarrow> int" where
  "getRedirectStatusCode statusCode =
     (if statusCode = 301 \<or> statusCode = StatusFound \<or> statusCode = 303 \<or> statusCode = 307 \<or> statusCode = 308
      then statusCode else StatusFound)"

definition ctx_redirect :: "'f RequestCtx \<Rightarrow> bytes \<Rightarrow> int \<Rightarrow> 'f RequestCtx" where
  "ctx_redirect ctx uri statusCode =
     on_response (\<lambda>r. Response_SetStatusCode (r\<lparr>rs_Header := ResponseHeader_setNonSpecial (rs_Header r) strLocation uri\<rparr>)
                        (getRedirectStatusCode statusCode)) ctx"

text \<open>The URI of the request is updated in a copy.\<close>

definition ctx_Redirect :: "'f RequestCtx \<Rightarrow> bytes \<Rightarrow> int \<Rightarrow> 'f RequestCtx go" where
  "ctx_Redirect ctx uri statusCode =
     (let (u, req) = Request_URI (cx_Request ctx);
          ctx = ctx\<lparr>cx_Request := req\<rparr>
      in map_option (\<lambda>(_, v). ctx_redirect ctx (URI_FullURI v) statusCode)
           (URI_Update (URI_CopyTo u zero_uri) uri None))"

definition ctx_TimeoutErrorWithResponse :: "pools \<Rightarrow> 'f RequestCtx \<Rightarrow> Response \<Rightarrow> 'f RequestCtx" where
  "ctx_TimeoutErrorWithResponse P ctx resp = ctx\<lparr>cx_timeoutResponse := Some (Response_CopyTo P resp zero_response)\<rparr>"

definition ctx_TimeoutErrorWithCode :: "pools \<Rightarrow> 'f RequestCtx \<Rightarrow> bytes \<Rightarrow> int \<Rightarrow> 'f RequestCtx" where
  "ctx_TimeoutErrorWithCode P ctx msg statusCode =
     ctx_TimeoutErrorWithResponse P ctx (Response_SetBody P (Response_SetStatusCode zero_response statusCode) msg)"

definition ctx_TimeoutError :: "pools \<Rightarrow> 'f RequestCtx \<Rightarrow> bytes \<Rightarrow> 'f RequestCtx" where
  "ctx_TimeoutError P ctx msg = ctx_TimeoutErrorWithCode P ctx msg StatusRequestTimeout"

definition ctx_Hijack :: "'f RequestCtx \<Rightarrow> 'f RequestCtx" where
  "ctx_Hijack ctx = ctx\<lparr>cx_hijackHandler := True\<rparr>"

definition ctx_HijackSetNoResponse :: "'f RequestCtx \<Rightarrow> bool \<Rightarrow> 'f RequestCtx" where
  "ctx_HijackSetNoResponse ctx b = ctx\<lparr>cx_hijackNoResponse := b\<rparr>"

section \<open>Configuration\<close>

datatype serve_error = MessageFailed message_error | ConnFailed peek_error | Hijacked

record 'f Server =
  sv_Handler :: "'f RequestCtx \<Rightarrow> reader \<Rightarrow> ('f RequestCtx \<times> reader) go"
  sv_ErrorHandler :: "('f RequestCtx \<Rightarrow> serve_error \<Rightarrow> 'f RequestCtx) option"
  sv_HeaderReceived :: "(RequestHeader \<Rightarrow> int) option"
  sv_ContinueHandler :: "(RequestHeader \<Rightarrow> bool) option"
  sv_Name :: bytes
  sv_NoDefaultServerHeader :: bool
  sv_NoDefaultContentType :: bool
  sv_NoDefaultDate :: bool
  sv_SecureErrorLogMessage :: bool
  sv_DisableHeaderNamesNormalizing :: bool
  sv_DisableKeepalive :: bool
  sv_DisablePreParseMultipartForm :: bool
  sv_ReduceMemoryUsage :: bool
  sv_GetOnly :: bool
  sv_StreamRequestBody :: bool
  sv_CloseOnShutdown :: bool
  sv_MaxRequestBodySize :: int
  sv_MaxRequestsPerConn :: int

text \<open>What the server runs in: the pools, the form library, the date, the streams of other connections, and whether the
  server was told to stop when the n-th request of the connection is looked at.\<close>

record 'f env =
  en_pools :: pools
  en_forms :: "'f multipart_lib"
  en_date :: bytes
  en_streams :: "requestStream \<Rightarrow> source"
  en_stop :: "nat \<Rightarrow> bool"
  en_tls :: bool

definition getServerName :: "'f Server \<Rightarrow> bytes" where
  "getServerName s = (if sv_Name s = [] \<and> \<not> sv_NoDefaultServerHeader s then defaultServerName else sv_Name s)"

definition new_ctx :: "'f Server \<Rightarrow> 'f RequestCtx" where
  "new_ctx s =
     \<lparr>cx_Request = zero_request\<lparr>rq_keepBodyBuffer := \<not> sv_ReduceMemoryUsage s\<rparr>,
      cx_Response = zero_response\<lparr>rs_keepBodyBuffer := \<not> sv_ReduceMemoryUsage s\<rparr>,
      cx_timeoutResponse = None, cx_hijackHandler = False, cx_hijackNoResponse = False\<rparr>"

definition defaultErrorHandler :: "pools \<Rightarrow> 'f RequestCtx \<Rightarrow> serve_error \<Rightarrow> 'f RequestCtx" where
  "defaultErrorHandler P ctx err =
     (case err of
        MessageFailed (HeaderFailed (ErrSmallBuffer x)) \<Rightarrow> ctx_Error P ctx ''Too big request header'' StatusRequestHeaderFieldsTooLarge
      | MessageFailed (BodyFailed (BodyConn Timeout)) \<Rightarrow> ctx_Error P ctx ''Request timeout'' StatusRequestTimeout
      | ConnFailed (ConnError Timeout) \<Rightarrow> ctx_Error P ctx ''Request timeout'' StatusRequestTimeout
      | _ \<Rightarrow> ctx_Error P ctx ''Error when parsing request'' StatusBadRequest)"

section \<open>The loop\<close>

record 'f conn_state =
  cs_num :: nat
  cs_ctx :: "'f RequestCtx"
  cs_br :: reader
  cs_live :: bool
  cs_sent :: bytes
  cs_pending :: bytes
  cs_maxBody :: int
  cs_continue :: bool
  cs_calls :: "'f Request list"

definition writeResponse :: "'f env \<Rightarrow> 'f RequestCtx \<Rightarrow> (message_error option \<times> 'f RequestCtx \<times> bytes) go" where
  "writeResponse E ctx =
     (if cx_timeoutResponse ctx \<noteq> None then Some (Some TimedOutResponse, ctx, [])
      else map_option (\<lambda>(e, resp, w). (e, ctx\<lparr>cx_Response := resp\<rparr>, w))
             (Response_Write (en_date E) (en_streams E) (cx_Response ctx) []))"

definition set_server :: "bytes \<Rightarrow> 'f RequestCtx \<Rightarrow> 'f RequestCtx" where
  "set_server name ctx = on_response (\<lambda>r. r\<lparr>rs_Header := ResponseHeader_SetServer (rs_Header r) name\<rparr>) ctx"

text \<open>The response to a request that could not be read; the connection ends with it.\<close>

definition writeErrorResponse :: "'f env \<Rightarrow> 'f Server \<Rightarrow> 'f conn_state \<Rightarrow> serve_error \<Rightarrow> 'f conn_state go" where
  "writeErrorResponse E s st err =
     (let ctx = (case sv_ErrorHandler s of
                   None \<Rightarrow> defaultErrorHandler (en_pools E) (cs_ctx st) err
                 | Some f \<Rightarrow> f (cs_ctx st) err);
          ctx = (if getServerName s \<noteq> [] then set_server (getServerName s) ctx else ctx);
          ctx = ctx_SetConnectionClose ctx
      in map_option (\<lambda>(e, ctx, w). st\<lparr>cs_ctx := on_response (Response_Reset (en_pools E)) ctx,
                                      cs_sent := cs_sent st @ cs_pending st @ w, cs_pending := []\<rparr>)
           (writeResponse E ctx))"

text \<open>With ReduceMemoryUsage and no reader at hand the first byte of a request is read on its own; the first read of
  the new reader gives it together with what comes next. Any error counts as the end of the connection.\<close>

definition acquireByteReader :: "reader \<Rightarrow> (message_error option \<times> reader) go" where
  "acquireByteReader r =
     (case rd_src r of
        [] \<Rightarrow> Some (Some (HeaderFailed ReadEOF), r)
      | c # cs \<Rightarrow>
          (case c of
             [] \<Rightarrow> None
           | b # bs \<Rightarrow> Some (None, r\<lparr>rd_buf := [],
                                   rd_src := (if bs = [] \<and> cs \<noteq> [] then (b # hd cs) # tl cs else (b # bs) # cs)\<rparr>)))"

definition reset_ctx :: "pools \<Rightarrow> 'f RequestCtx \<Rightarrow> 'f RequestCtx" where
  "reset_ctx P ctx =
     ctx\<lparr>cx_Request := Request_Reset P (cx_Request ctx), cx_Response := Response_Reset P (cx_Response ctx),
         cx_timeoutResponse := map_option (Response_Reset P) (cx_timeoutResponse ctx),
         cx_hijackHandler := False, cx_hijackNoResponse := False\<rparr>"

definition releaseCtx :: "pools \<Rightarrow> 'f RequestCtx \<Rightarrow> 'f RequestCtx go" where
  "releaseCtx P ctx = (if cx_timeoutResponse ctx \<noteq> None then None else Some (reset_ctx P ctx))"

text \<open>Getting hold of a reader and waiting for the first byte of the next request.\<close>

definition await_request :: "'f env \<Rightarrow> 'f Server \<Rightarrow> 'f conn_state \<Rightarrow> (message_error option \<times> 'f conn_state) go" where
  "await_request E s st =
     (if \<not> sv_ReduceMemoryUsage s \<or> cs_live st then
        let br = (if cs_live st then cs_br st else (cs_br st)\<lparr>rd_buf := []\<rparr>)
        in if cs_num st > 1 then
             (case Peek 1 br of (b, err, br) \<Rightarrow>
                Some (if length b = 0 then
                        (case err of
                           Some (ConnError EOF) \<Rightarrow> Some (HeaderFailed ReadEOF)
                         | Some e \<Rightarrow> Some (HeaderFailed (ErrNothingRead e))
                         | None \<Rightarrow> None)
                      else None, st\<lparr>cs_br := br, cs_live := True\<rparr>))
           else Some (None, st\<lparr>cs_br := br, cs_live := True\<rparr>)
      else
        (case releaseCtx (en_pools E) (cs_ctx st) of
           None \<Rightarrow> None
         | Some ctx \<Rightarrow>
             map_option (\<lambda>(err, br). (err, st\<lparr>cs_br := br, cs_live := (err = None), cs_ctx := ctx\<rparr>))
               (acquireByteReader (cs_br st))))"

text \<open>The options that go into every context.\<close>

definition configure_ctx :: "'f env \<Rightarrow> 'f Server \<Rightarrow> 'f RequestCtx \<Rightarrow> 'f RequestCtx" where
  "configure_ctx E s ctx =
     (let req = cx_Request ctx; resp = cx_Response ctx; sec = sv_SecureErrorLogMessage s
      in ctx\<lparr>cx_Request := req\<lparr>rq_isTLS := en_tls E, rq_secureErrorLogMessage := sec,
                                rq_Header := (rq_Header req)\<lparr>q_secureErrorLogMessage := sec\<rparr>\<rparr>,
             cx_Response := resp\<lparr>rs_secureErrorLogMessage := sec,
                                  rs_Header := (rs_Header resp)\<lparr>p_noDefaultContentType := sv_NoDefaultContentType s,
                                                                p_noDefaultDate := sv_NoDefaultDate s,
                                                                p_secureErrorLogMessage := sec\<rparr>\<rparr>\<rparr>)"

text \<open>Reading the header: with responses waiting in the buffer of the writer it is tried once without waiting, and
  the buffer is flushed before the second attempt.\<close>

definition read_header :: "'f conn_state \<Rightarrow> RequestHeader \<Rightarrow> (read_error option \<times> RequestHeader \<times> reader \<times> bool) go" where
  "read_header st h =
     (if cs_pending st \<noteq> [] then
        (case RequestHeader_readLoop h (cs_br st) False of
           None \<Rightarrow> None
         | Some (Some ReadNeedMore, h, br) \<Rightarrow> map_option (\<lambda>(e, h, br). (e, h, br, True)) (RequestHeader_Read h br)
         | Some (e, h, br) \<Rightarrow> Some (e, h, br, False))
      else map_option (\<lambda>(e, h, br). (e, h, br, False)) (RequestHeader_Read h (cs_br st)))"

definition maxRequestBodySize :: "'f Server \<Rightarrow> 'f conn_state \<Rightarrow> RequestHeader \<Rightarrow> int" where
  "maxRequestBodySize s st h =
     (case sv_HeaderReceived s of
        None \<Rightarrow> cs_maxBody st
      | Some f \<Rightarrow> if f h > 0 then f h
                  else if sv_MaxRequestBodySize s > 0 then sv_MaxRequestBodySize s
                  else DefaultMaxRequestBodySize)"

definition read_request :: "'f env \<Rightarrow> 'f Server \<Rightarrow> 'f conn_state \<Rightarrow> (message_error option \<times> 'f conn_state) go" where
  "read_request E s st =
     (let ctx = cs_ctx st; req = cx_Request ctx;
          h = (if sv_DisableHeaderNamesNormalizing s then RequestHeader_DisableNormalizing (rq_Header req) else rq_Header req);
          ctx = (if sv_DisableHeaderNamesNormalizing s
                 then on_response (\<lambda>r. r\<lparr>rs_Header := ResponseHeader_DisableNormalizing (rs_Header r)\<rparr>) ctx else ctx)
      in case read_header st h of
           None \<Rightarrow> None
         | Some (e, h, br, flushed) \<Rightarrow>
             let req = req\<lparr>rq_Header := h\<rparr>;
                 st = (if flushed then st\<lparr>cs_sent := cs_sent st @ cs_pending st, cs_pending := []\<rparr> else st)
             in case e of
                  Some e \<Rightarrow> Some (Some (HeaderFailed e), st\<lparr>cs_ctx := ctx\<lparr>cx_Request := req\<rparr>, cs_br := br, cs_live := False\<rparr>)
                | None \<Rightarrow>
                    let m = maxRequestBodySize s st h
                    in map_option
                         (\<lambda>(e, req, br). (e, st\<lparr>cs_ctx := ctx\<lparr>cx_Request := req\<rparr>, cs_br := br, cs_maxBody := m,
                                               cs_live := \<not> (sv_ReduceMemoryUsage s \<and> Buffered br = 0 \<or> e \<noteq> None)\<rparr>))
                         (if sv_StreamRequestBody s
                          then Request_readBodyStream (en_forms E) (en_pools E) req br m (sv_GetOnly s) (\<not> sv_DisablePreParseMultipartForm s)
                          else Request_readLimitBody (en_forms E) (en_pools E) req br m (sv_GetOnly s) (\<not> sv_DisablePreParseMultipartForm s)))"

text \<open>The end of the connection after an error: the end of the stream and a keep-alive connection on which nothing
  came are no errors, any other error is answered.\<close>

definition is_eof :: "message_error \<Rightarrow> bool" where
  "is_eof e \<longleftrightarrow> e = HeaderFailed ReadEOF \<or> e = BodyFailed (BodyConn EOF)"

definition read_failed :: "'f env \<Rightarrow> 'f Server \<Rightarrow> 'f conn_state \<Rightarrow> message_error \<Rightarrow> (serve_error option \<times> 'f conn_state) go" where
  "read_failed E s st e =
     (if is_eof e then Some (None, st)
      else
        let err = (case e of
                     HeaderFailed (ErrNothingRead p) \<Rightarrow> if cs_num st > 1 then None else Some (ConnFailed p)
                   | _ \<Rightarrow> Some (MessageFailed e))
        in case err of
             None \<Rightarrow> Some (None, st)
           | Some x \<Rightarrow> map_option (\<lambda>st. (Some x, st)) (writeErrorResponse E s st x))"

text \<open>Expect: 100-continue. A request that ContinueHandler turns down is answered without the handler; otherwise the
  body is read after the intermediate response.\<close>

definition read_continued :: "'f env \<Rightarrow> 'f Server \<Rightarrow> 'f conn_state \<Rightarrow> (message_error option \<times> 'f conn_state) go" where
  "read_continued E s st =
     (let br = (if cs_live st then cs_br st else (cs_br st)\<lparr>rd_buf := []\<rparr>);
          req = cx_Request (cs_ctx st);
          pre = (\<not> sv_DisablePreParseMultipartForm s)
      in map_option
           (\<lambda>(e, req, br). (e, st\<lparr>cs_ctx := (cs_ctx st)\<lparr>cx_Request := req\<rparr>, cs_br := br,
                                  cs_live := \<not> (sv_ReduceMemoryUsage s \<and> Buffered br = 0 \<or> e \<noteq> None)\<rparr>))
           (if sv_StreamRequestBody s
            then Request_ContinueReadBodyStream (en_forms E) (en_pools E) req br (cs_maxBody st) pre
            else Request_ContinueReadBody (en_forms E) (en_pools E) req br (cs_maxBody st) pre))"

definition expect_continue ::
  "'f env \<Rightarrow> 'f Server \<Rightarrow> 'f conn_state \<Rightarrow> ((serve_error option \<times> 'f conn_state) + 'f conn_state) go" where
  "expect_continue E s st =
     (if \<not> Request_MayContinue (cx_Request (cs_ctx st)) then Some (Inr st)
      else
        let go_on = (case sv_ContinueHandler s of None \<Rightarrow> cs_continue st | Some f \<Rightarrow> f (rq_Header (cx_Request (cs_ctx st))))
        in if \<not> go_on then
             Some (Inr (if sv_ContinueHandler s = None then st
                        else st\<lparr>cs_continue := False,
                                cs_ctx := ctx_SetStatusCode (cs_ctx st) StatusExpectationFailed,
                                cs_br := (if cs_live st then (cs_br st)\<lparr>rd_buf := []\<rparr> else cs_br st)\<rparr>))
           else
             case read_continued E s (st\<lparr>cs_continue := True, cs_sent := cs_sent st @ cs_pending st @ strResponseContinue,
                                         cs_pending := []\<rparr>) of
               None \<Rightarrow> None
             | Some (None, st) \<Rightarrow> Some (Inr st)
             | Some (Some e, st) \<Rightarrow>
                 map_option (\<lambda>st. Inl (Some (MessageFailed e), st)) (writeErrorResponse E s st (MessageFailed e)))"

text \<open>A response of TimeoutError goes out with a new context.\<close>

definition timed_out_ctx :: "'f env \<Rightarrow> 'f Server \<Rightarrow> 'f RequestCtx \<Rightarrow> 'f RequestCtx" where
  "timed_out_ctx E s ctx =
     (case cx_timeoutResponse ctx of
        None \<Rightarrow> ctx
      | Some t \<Rightarrow> (let c = new_ctx s in c\<lparr>cx_Response := Response_CopyTo (en_pools E) t (cx_Response c)\<rparr>))"

text \<open>What is fixed about a response before it is sent, and whether the connection is closed after it; \<open>n\<close> is the
  number of the request.\<close>

definition prepare_response :: "'f env \<Rightarrow> 'f Server \<Rightarrow> nat \<Rightarrow> bool \<Rightarrow> 'f RequestCtx \<Rightarrow> 'f RequestCtx \<times> bool" where
  "prepare_response E s n connectionClose ctx =
     (let ctx = (if RequestHeader_IsHead (rq_Header (cx_Request ctx))
                 then on_response (\<lambda>r. r\<lparr>rs_SkipBody := True\<rparr>) ctx else ctx);
          close = (connectionClose \<or>
                   (sv_MaxRequestsPerConn s > 0 \<and> int n \<ge> sv_MaxRequestsPerConn s) \<or>
                   ResponseHeader_ConnectionClose (rs_Header (cx_Response ctx)) \<or>
                   (sv_CloseOnShutdown s \<and> en_stop E n));
          ctx = (if close then on_response Response_SetConnectionClose ctx
                 else if \<not> RequestHeader_IsHTTP11 (rq_Header (cx_Request ctx)) then
                   on_response (\<lambda>r. r\<lparr>rs_Header := ResponseHeader_setNonSpecial (rs_Header r) strConnection strKeepAlive\<rparr>) ctx
                 else ctx)
      in (if getServerName s \<noteq> [] \<and> length (ResponseHeader_Server (rs_Header (cx_Response ctx))) = 0
          then set_server (getServerName s) ctx else ctx, close))"

text \<open>The call of the handler, unless ContinueHandler turned a request down.\<close>

definition run_handler :: "'f env \<Rightarrow> 'f Server \<Rightarrow> 'f conn_state \<Rightarrow> ('f conn_state \<times> bool) go" where
  "run_handler E s st =
     (let connectionClose = (sv_DisableKeepalive s \<or> RequestHeader_ConnectionClose (rq_Header (cx_Request (cs_ctx st))));
          ctx = (if getServerName s \<noteq> [] then set_server (getServerName s) (cs_ctx st) else cs_ctx st)
      in map_option
           (\<lambda>(ctx', br).
              let (ctx2, close) = prepare_response E s (cs_num st) connectionClose (timed_out_ctx E s ctx')
              in (st\<lparr>cs_ctx := ctx2, cs_br := br,
                     cs_calls := (if cs_continue st then cs_calls st @ [cx_Request ctx] else cs_calls st)\<rparr>, close))
           (if cs_continue st then sv_Handler s ctx (cs_br st) else Some (ctx, cs_br st)))"

text \<open>Sending the response; the buffer is flushed unless another request is waiting in the reader.\<close>

definition send_response ::
  "'f env \<Rightarrow> 'f Server \<Rightarrow> 'f conn_state \<Rightarrow> bool \<Rightarrow> ((serve_error option \<times> 'f conn_state) + 'f conn_state) go" where
  "send_response E s st close =
     (let ctx = cs_ctx st;
          hijack = cx_hijackHandler ctx;
          noResponse = (cx_hijackNoResponse ctx \<and> hijack);
          ctx = ctx\<lparr>cx_hijackHandler := False, cx_hijackNoResponse := False\<rparr>;
          flushed = (\<lambda>st. st\<lparr>cs_sent := cs_sent st @ cs_pending st, cs_pending := []\<rparr>);
          finish = (\<lambda>st.
            if hijack then Some (Inl (Some Hijacked, flushed st))
            else
              let ctx = cs_ctx st;
                  ctx = ctx\<lparr>cx_Request := Request_Reset (en_pools E) ((cx_Request ctx)\<lparr>rq_bodyStream := None\<rparr>),
                            cx_Response := Response_Reset (en_pools E) (cx_Response ctx)\<rparr>
              in if en_stop E (cs_num st) then Some (Inl (None, st\<lparr>cs_ctx := ctx\<rparr>)) else Some (Inr (st\<lparr>cs_ctx := ctx\<rparr>)))
      in if noResponse then finish (st\<lparr>cs_ctx := ctx\<rparr>)
         else
           case writeResponse E ctx of
             None \<Rightarrow> None
           | Some (e, ctx, w) \<Rightarrow>
               let st = st\<lparr>cs_ctx := ctx, cs_pending := cs_pending st @ w\<rparr>
               in case e of
                    Some e \<Rightarrow> Some (Inl (Some (MessageFailed e), st))
                  | None \<Rightarrow>
                      let st = (if \<not> cs_live st \<or> Buffered (cs_br st) = 0 \<or> close \<or> (sv_ReduceMemoryUsage s \<and> \<not> hijack)
                                then flushed st else st)
                      in if close then Some (Inl (None, st)) else finish st)"

definition serve_step :: "'f env \<Rightarrow> 'f Server \<Rightarrow> 'f conn_state \<Rightarrow> ((serve_error option \<times> 'f conn_state) + 'f conn_state) go" where
  "serve_step E s st =
     (case await_request E s (st\<lparr>cs_num := Suc (cs_num st)\<rparr>) of
        None \<Rightarrow> None
      | Some (err, st) \<Rightarrow>
          let st = st\<lparr>cs_ctx := configure_ctx E s (cs_ctx st)\<rparr>
          in case (if err = None then read_request E s st else Some (err, st)) of
               None \<Rightarrow> None
             | Some (Some e, st) \<Rightarrow> map_option Inl (read_failed E s st e)
             | Some (None, st) \<Rightarrow>
                 case expect_continue E s st of
                   None \<Rightarrow> None
                 | Some (Inl res) \<Rightarrow> Some (Inl res)
                 | Some (Inr st) \<Rightarrow>
                     case run_handler E s st of
                       None \<Rightarrow> None
                     | Some (st, close) \<Rightarrow> send_response E s st close)"

partial_function (option) serve_loop ::
  "'f env \<Rightarrow> 'f Server \<Rightarrow> 'f conn_state \<Rightarrow> (serve_error option \<times> 'f conn_state) option" where
  "serve_loop E s st =
     (case serve_step E s st of
        None \<Rightarrow> None
      | Some (Inl res) \<Rightarrow> Some res
      | Some (Inr st') \<Rightarrow> serve_loop E s st')"

definition new_conn :: "'f Server \<Rightarrow> reader \<Rightarrow> 'f conn_state" where
  "new_conn s r =
     \<lparr>cs_num = 0, cs_ctx = new_ctx s, cs_br = r, cs_live = False, cs_sent = [], cs_pending = [],
      cs_maxBody = (if sv_MaxRequestBodySize s \<le> 0 then DefaultMaxRequestBodySize else sv_MaxRequestBodySize s),
      cs_continue = True, cs_calls = []\<rparr>"

definition serveConn :: "'f env \<Rightarrow> 'f Server \<Rightarrow> reader \<Rightarrow> (serve_error option \<times> 'f conn_state) option" where
  "serveConn E s r = serve_loop E s (new_conn s r)"

end
