(* ===== verification/Server_Correct.thy ===== *)
theory Server_Correct
  imports Progress Server
begin

text \<open>
  Serving a connection: what every part of the loop of serveConn keeps, and that the loop returns whatever the client
  sends. The measure is what is left of the connection: each turn that goes on has read a request header.
\<close>

section \<open>Reading a request makes progress\<close>

text \<open>The form library reads forward, as any reader does.\<close>

definition forms_ok :: "'f multipart_lib \<Rightarrow> bool" where
  "forms_ok M \<longleftrightarrow> (\<forall>b n r. reads r (snd (ml_ReadForm M b n r)))"

lemma caps_Reset: "caps_ok P req \<Longrightarrow> caps_ok P (Request_Reset P req)"
  by (auto simp: caps_ok_def Request_Reset_def Request_ReleaseBody_def Request_resetSkipHeader_def Request_ResetBody_def Let_def
      Request_RemoveMultipartFormFiles_def Request_closeBodyStream_def split: option.splits)

lemma no_body_Reset: "no_body (Request_Reset P req)"
  by (auto simp: no_body_def Request_bodyBytes_def Request_Reset_def Request_ReleaseBody_def Request_resetSkipHeader_def
      Request_ResetBody_def Let_def Request_RemoveMultipartFormFiles_def Request_closeBodyStream_def split: option.splits)

lemma read_form_reads:
  assumes "read_form M P req r n pre = (req', res)" and "forms_ok M" and "caps_ok P req"
  shows "caps_ok P req'" and "res = Some (e, q, r') \<Longrightarrow> reads r r' \<and> caps_ok P q"
proof -
  have reads: "ml_ReadForm M b k r = (x, r1) \<Longrightarrow> reads r r1" for b k x r1
    using assms(2) unfolding forms_ok_def by (metis snd_conv)
  show "caps_ok P req'" using assms(1,3) by (auto simp: read_form_def Let_def caps_ok_def split: if_splits)
  show "res = Some (e, q, r') \<Longrightarrow> reads r r' \<and> caps_ok P q"
    using assms(1,3) reads
    by (auto simp: read_form_def Let_def split: if_splits prod.splits sum.splits intro!: caps_Reset) (auto simp: caps_ok_def)
qed

lemma set_length_caps: "set_length req n = Some req' \<Longrightarrow> caps_ok P req \<Longrightarrow> caps_ok P req'"
  by (auto simp: set_length_def caps_ok_def)

lemma bodyBuffer_caps:
  "Request_bodyBuffer P req = (b, req') \<Longrightarrow> caps_ok P req \<Longrightarrow> caps_ok P req' \<and> int (snd b) \<le> maxAlloc"
  by (auto simp: Request_bodyBuffer_def Let_def caps_ok_def split: option.splits)

lemma caps_body: "caps_ok P req \<Longrightarrow> int (snd d) \<le> maxAlloc \<Longrightarrow> caps_ok P (req\<lparr>rq_body := Some d\<rparr>)"
  by (simp add: caps_ok_def)

lemma caps_fields [simp]:
  "caps_ok P (req\<lparr>rq_Header := h\<rparr>) = caps_ok P req" "caps_ok P (req\<lparr>rq_bodyStream := bs\<rparr>) = caps_ok P req"
  by (simp_all add: caps_ok_def)

lemma ReadBody_reads:
  assumes "Request_ReadBody P req r n m = Some (e, req', r')" and "caps_ok P req"
  shows "reads r r' \<and> caps_ok P req'"
proof -
  obtain b req1 where b: "Request_bodyBuffer P req = (b, req1)" by (metis surj_pair)
  note bc = bodyBuffer_caps [OF b assms(2)]
  from assms(1) obtain d err where
    d: "(if n \<ge> 0 then readBody r n m ([], snd b) else if n = - 1 then readBodyChunked r m ([], snd b)
         else readBodyIdentity r m ([], snd b)) = Some (d, err, r')"
    and q: "\<exists>q. ((if n = - 1 \<and> err = None \<and> length (fst d) = 0 then set_length (req1\<lparr>rq_body := Some d\<rparr>) 0
         else if n < - 1 then set_length (req1\<lparr>rq_body := Some d\<rparr>) (int (length (fst d)))
         else Some (req1\<lparr>rq_body := Some d\<rparr>)) = Some q) \<and> (req' = q \<or> req' = Request_Reset P q)"
    unfolding Request_ReadBody_def b prod.case Let_def fst_conv by (auto split: option.splits)
  have "reads r r' \<and> int (snd d) \<le> maxAlloc"
    using d bc by (auto split: if_splits dest!: readBody_reads readBodyChunked_reads readBodyIdentity_reads)
  moreover then have "caps_ok P (req1\<lparr>rq_body := Some d\<rparr>)" using bc caps_body by blast
  ultimately show ?thesis using q by (auto split: if_splits dest: set_length_caps intro: caps_Reset)
qed

lemma ContinueReadBody_reads:
  assumes "Request_ContinueReadBody M P req r m pre = Some (e, req', r')" and "caps_ok P req" and "forms_ok M"
  shows "reads r r' \<and> caps_ok P req'"
proof -
  let ?n = "RequestHeader_realContentLength (rq_Header req)"
  obtain req1 res where f: "read_form M P req r ?n pre = (req1, res)" by force
  note fr = read_form_reads [OF f assms(3,2)]
  note def = assms(1) [unfolded Request_ContinueReadBody_def Let_def f prod.case]
  show ?thesis
  proof (cases "?n > 0 \<and> m > 0 \<and> ?n > m")
    case True
    with def assms(2) show ?thesis by simp
  next
    case small: False
    show ?thesis
    proof (cases res)
      case (Some x)
      with def small fr(2) show ?thesis by auto
    next
      case None
      show ?thesis
      proof (cases "?n = - 2")
        case True
        with def small None fr(1) show ?thesis by (auto split: if_splits dest: set_length_caps)
      next
        case False
        then obtain e1 req2 r2 where b: "Request_ReadBody P req1 r ?n m = Some (e1, req2, r2)"
          using def small None by (cases "Request_ReadBody P req1 r ?n m") auto
        note rb = ReadBody_reads [OF b fr(1)]
        show ?thesis
        proof (cases "e1 = None \<and> ?n = - 1")
          case True
          then obtain te h r3 where t: "RequestHeader_ReadTrailer (rq_Header req2) r2 = Some (te, h, r3)"
            using def small None False b by (cases "RequestHeader_ReadTrailer (rq_Header req2) r2") auto
          from True def small None b t have "r' = r3" "req' = req2\<lparr>rq_Header := h\<rparr>"
            by (auto split: option.splits read_error.splits)
          with rb ReadTrailer_reads [OF t] show ?thesis by (auto intro: reads_trans)
        next
          case f2: False
          with def small None False b rb show ?thesis by (cases e1) auto
        qed
      qed
    qed
  qed
qed

section \<open>Streamed bodies\<close>

lemma readBodyWithStreaming_total:
  assumes "0 < m" and "m + 2 \<le> maxAlloc" and "0 \<le> n" and "int (snd b) \<le> maxAlloc"
  shows "\<exists>d e r'. readBodyWithStreaming r n m b = Some (d, e, r')"
proof -
  define k where "k = (if (if m > n then n else m) > 8 * 1024 then 8 * 1024 else (if m > n then n else m))"
  have k: "0 \<le> k" "k + 2 \<le> maxAlloc" "n > m \<Longrightarrow> 0 < k" using assms by (auto simp: k_def maxAlloc_def)
  have def: "readBodyWithStreaming r n m b =
      (case (if n \<ge> 0 \<and> m \<ge> n then appendBodyFixedSize r ([], snd b) k else readBodyIdentity r k ([], snd b)) of
         None \<Rightarrow> None | Some (b, Some e, r') \<Rightarrow> Some (b, Some e, r')
       | Some (b, None, r') \<Rightarrow> Some (b, if n > m then Some ErrBodyTooLarge else None, r'))"
    unfolding readBodyWithStreaming_def Let_def k_def using assms(3) by (simp only: if_False) auto
  have "\<exists>d e r'. (if n \<ge> 0 \<and> m \<ge> n then appendBodyFixedSize r ([], snd b) k else readBodyIdentity r k ([], snd b)) = Some (d, e, r')"
    using append_fixed_total [of k "[]" r "snd b"] readBodyIdentity_total [of k "snd b" r] k assms(3,4) by (cases "m \<ge> n") auto
  then obtain d e r' where "(if n \<ge> 0 \<and> m \<ge> n then appendBodyFixedSize r ([], snd b) k else readBodyIdentity r k ([], snd b)) = Some (d, e, r')"
    by blast
  then show ?thesis unfolding def by (cases e) auto
qed

lemma SetContentLength_ok:
  "- 1 \<le> n \<Longrightarrow> n < 2 ^ 63 \<Longrightarrow> \<exists>h'. RequestHeader_SetContentLength h n = Some h' \<and> length_ok h'"
  by (cases "0 \<le> n") (simp_all add: RequestHeader_SetContentLength_def AppendUint_eq Let_def length_ok_def)

lemma ContinueReadBodyStream_total:
  assumes "0 < m" and "m + 2 \<le> maxAlloc" and "caps_ok P req" and "length_ok (rq_Header req)" and "forms_ok M"
  shows "\<exists>e req' r'. Request_ContinueReadBodyStream M P req r m pre = Some (e, req', r') \<and> reads r r' \<and> caps_ok P req' \<and>
           (e = None \<longrightarrow> length_ok (rq_Header req'))"
proof -
  let ?n = "RequestHeader_realContentLength (rq_Header req)"
  have n: "- 2 \<le> ?n" "?n < 2 ^ 63" using assms(4) by (simp_all add: length_ok_def RequestHeader_realContentLength_def)
  obtain req1 res where f: "read_form M P req r ?n pre = (req1, res)" by force
  note fr = read_form_reads [OF f assms(5,3)]
  have set: "\<exists>h. set_length q n = Some (q\<lparr>rq_Header := h\<rparr>) \<and> length_ok h" if "- 1 \<le> n" "n < 2 ^ 63" for q :: "'a Request" and n
    using SetContentLength_ok [OF that, of "rq_Header q"] by (auto simp: set_length_def)
  note def = Request_ContinueReadBodyStream_def Let_def f prod.case
  show ?thesis
  proof (cases res)
    case (Some x)
    obtain e q r' where x: "x = (e, q, r')" by (metis prod_cases3)
    have "e = None \<Longrightarrow> length_ok (rq_Header q)" using read_form_cases(4) [OF f assms(3), of q r'] Some x assms(4) by simp
    with Some x fr(2) [of e q r'] show ?thesis unfolding def by simp
  next
    case None
    have l1: "length_ok (rq_Header req1)" using read_form_cases(3) [OF f assms(3)] assms(4) by simp
    show ?thesis
    proof (cases "?n = - 2")
      case True
      with None set [of 0 req1] fr(1) l1 show ?thesis unfolding def by auto
    next
      case False
      obtain b req2 where b: "Request_bodyBuffer P req1 = (b, req2)" by (metis surj_pair)
      note bc = bodyBuffer_caps [OF b fr(1)]
      have l2: "length_ok (rq_Header req2)" using l1 b by (auto simp: Request_bodyBuffer_def Let_def)
      have "\<exists>d e r'. readBodyWithStreaming r ?n m ([], snd b) = Some (d, e, r') \<and> (?n = - 1 \<longrightarrow> e = Some errChunkedStream)"
      proof (cases "?n = - 1")
        case f: False
        with False n have "0 \<le> ?n" by simp
        from readBodyWithStreaming_total [OF assms(1,2) this, of "([], snd b)"] bc f show ?thesis by auto
      qed (simp add: readBodyWithStreaming_def)
      then obtain d e1 r1 where d: "readBodyWithStreaming r ?n m ([], snd b) = Some (d, e1, r1)" by blast
      note dr = readBodyWithStreaming_reads [OF d]
      have c: "caps_ok P (req2\<lparr>rq_body := Some d\<rparr>)" using bc dr by (intro caps_body) auto
      let ?st = "req2\<lparr>rq_body := Some d, rq_bodyStream := Some (ConnStream (acquireRequestStream (fst d)))\<rparr>"
      have cs: "caps_ok P ?st" using c by simp
      have "- 1 \<le> ?n" using False n(1) by simp
      from set [OF this n(2), of ?st] obtain h where h: "set_length ?st ?n = Some (?st\<lparr>rq_Header := h\<rparr>)" "length_ok h" by blast
      then have ch: "caps_ok P (?st\<lparr>rq_Header := h\<rparr>)" using cs by simp
      have rd: "reads r r1" using dr by simp
      show ?thesis unfolding def b using False None d
        by (auto simp: h ch cs rd l2 caps_Reset [OF c] simp del: caps_fields split: option.split body_error.split)
    qed
  qed
qed

lemma ReadBody_length_ok:
  assumes "Request_ReadBody P req r n m = Some (None, req', r')" and "- 1 \<le> n" and "length_ok (rq_Header req)"
  shows "length_ok (rq_Header req')"
proof -
  obtain b req1 where b: "Request_bodyBuffer P req = (b, req1)" by (metis surj_pair)
  then have h: "rq_Header req1 = rq_Header req" by (auto simp: Request_bodyBuffer_def Let_def)
  have "set_length q 0 = Some q' \<Longrightarrow> length_ok (rq_Header q')" for q q' :: "'a Request"
    by (auto simp: set_length_def RequestHeader_SetContentLength_def Let_def length_ok_def)
  then show ?thesis
    using assms(2,3) h assms(1)[unfolded Request_ReadBody_def b prod.case Let_def fst_conv]
    by (auto split: option.splits if_splits)
qed

lemma ContinueReadBody_length_ok:
  assumes "Request_ContinueReadBody M P req r m pre = Some (None, req', r')" and "caps_ok P req" and "length_ok (rq_Header req)"
  shows "length_ok (rq_Header req')"
proof -
  let ?n = "RequestHeader_realContentLength (rq_Header req)"
  obtain req1 res where f: "read_form M P req r ?n pre = (req1, res)" by force
  note fc = read_form_cases [OF f assms(2)]
  have n: "- 2 \<le> ?n" using assms(3) by (simp add: length_ok_def RequestHeader_realContentLength_def)
  have sl: "set_length q 0 = Some q' \<Longrightarrow> length_ok (rq_Header q')" for q q' :: "'a Request"
    by (auto simp: set_length_def RequestHeader_SetContentLength_def Let_def length_ok_def)
  note def = assms(1) [unfolded Request_ContinueReadBody_def Let_def f prod.case]
  have small: "\<not> (?n > 0 \<and> m > 0 \<and> ?n > m)" 
  proof
    assume a: "?n > 0 \<and> m > 0 \<and> ?n > m"
    show False using def [unfolded if_P [OF a]] by simp
  qed
  note def = def [unfolded if_not_P [OF small]]
  show ?thesis
  proof (cases res)
    case (Some x)
    with def have "res = Some (None, req', r')" by simp
    from fc(4) [OF this] assms(3) show ?thesis by simp
  next
    case None
    note def = def [unfolded None option.case]
    show ?thesis
    proof (cases "?n = - 2")
      case True
      with def fc(3) assms(3) sl show ?thesis by (auto split: if_splits)
    next
      case False
      note def = def [unfolded if_not_P [OF False]]
      obtain req2 r2 where b: "Request_ReadBody P req1 r ?n m = Some (None, req2, r2)"
        using def by (cases "Request_ReadBody P req1 r ?n m") (auto split: option.splits)
      have l: "length_ok (rq_Header req2)" by (rule ReadBody_length_ok [OF b]) (use n False fc(3) assms(3) in auto)
      note def = def [unfolded b option.case prod.case]
      have "req' = req2 \<or> (\<exists>te h r3. RequestHeader_ReadTrailer (rq_Header req2) r2 = Some (te, h, r3) \<and> req' = req2\<lparr>rq_Header := h\<rparr>)"
        using def by (cases "RequestHeader_ReadTrailer (rq_Header req2) r2") (auto split: if_splits option.splits read_error.splits)
      with l show ?thesis by (auto simp: length_ok_def dest: ReadTrailer_reads)
    qed
  qed
qed

section \<open>Responses can be written\<close>

definition sized :: "Response \<Rightarrow> bool" where
  "sized resp \<longleftrightarrow> int (length (Response_bodyBytes resp)) \<le> maxAlloc"

lemma sized_fields [simp]:
  "sized (resp\<lparr>rs_Header := h\<rparr>) = sized resp" "sized (resp\<lparr>rs_SkipBody := b\<rparr>) = sized resp"
  "sized (resp\<lparr>rs_secureErrorLogMessage := b\<rparr>) = sized resp"
  "sized (Response_SetConnectionClose resp) = sized resp" "sized (Response_SetStatusCode resp c) = sized resp"
  by (simp_all add: sized_def Response_bodyBytes_def Response_SetConnectionClose_def Response_SetStatusCode_def split: option.split)

lemma sized_Reset [simp]: "sized (Response_Reset P resp)"
  by (auto simp: sized_def Response_bodyBytes_def Response_Reset_def Response_ReleaseBody_def Response_resetSkipHeader_def
      Response_ResetBody_def Response_closeBodyStream_def Let_def maxAlloc_def split: option.splits)

lemma sized_SetBody: "sized (Response_SetBody P resp b) \<longleftrightarrow> int (length b) \<le> maxAlloc"
  by (auto simp: sized_def Response_bodyBytes_def Response_SetBody_def Response_bodyBuffer_def buf_write_def Let_def)

lemma raw_Reset [simp]: "rs_bodyRaw (Response_Reset P resp) = None"
  by (auto simp: Response_Reset_def Response_ReleaseBody_def Response_resetSkipHeader_def
      Response_ResetBody_def Response_closeBodyStream_def Let_def split: option.splits)

lemma sized_CopyTo: "sized resp \<Longrightarrow> sized (Response_CopyTo P resp dst)"
  by (cases "rs_bodyRaw resp"; cases "rs_body resp"; cases "rs_body (Response_Reset P dst)")
    (auto simp: sized_def Response_bodyBytes_def Response_CopyTo_def Response_copyToSkipBody_def Response_bodyBuffer_def buf_write_def
      Let_def maxAlloc_def split: prod.splits)

lemma Response_Write_total: "sized resp \<Longrightarrow> \<exists>e resp' w'. Response_Write d S resp w = Some (e, resp', w')"
proof (cases "rs_bodyStream resp")
  case None
  assume "sized resp"
  then have "\<exists>resp'. resp_set_length resp (int (length (Response_bodyBytes resp))) = Some resp'"
    by (auto simp: resp_set_length_def ResponseHeader_SetContentLength_def AppendUint_eq sized_def maxAlloc_def Let_def)
  with None show ?thesis by (auto simp: Response_Write_def Let_def)
next
  case (Some s)
  then show ?thesis
    by (auto simp: Response_Write_def Response_writeBodyStream_def Let_def split: option.split)
qed

lemma writeResponse_total:
  "sized (cx_Response ctx) \<Longrightarrow> \<exists>e ctx' w. writeResponse E ctx = Some (e, ctx', w) \<and> cx_Request ctx' = cx_Request ctx \<and> 
     cx_timeoutResponse ctx' = cx_timeoutResponse ctx"
  using Response_Write_total [of "cx_Response ctx" "en_date E" "en_streams E" "[]"]
  by (auto simp: writeResponse_def)

section \<open>The connection\<close>

text \<open>What the server and its handlers must provide: limits for the bodies, a handler that returns, reads forward and
  leaves a response that fits into memory.\<close>

definition handler_ok :: "pools \<Rightarrow> ('f RequestCtx \<Rightarrow> reader \<Rightarrow> ('f RequestCtx \<times> reader) go) \<Rightarrow> bool" where
  "handler_ok P H \<longleftrightarrow>
     (\<forall>ctx r. caps_ok P (cx_Request ctx) \<and> sized (cx_Response ctx) \<and> cx_timeoutResponse ctx = None \<longrightarrow>
        (\<exists>ctx' r'. H ctx r = Some (ctx', r') \<and> reads r r' \<and> caps_ok P (cx_Request ctx') \<and> sized (cx_Response ctx') \<and>
                   (\<forall>t. cx_timeoutResponse ctx' = Some t \<longrightarrow> sized t)))"

definition server_ok :: "int \<Rightarrow> 'f env \<Rightarrow> 'f Server \<Rightarrow> bool" where
  "server_ok L E s \<longleftrightarrow>
     L + 2 \<le> maxAlloc \<and> DefaultMaxRequestBodySize \<le> L \<and> sv_MaxRequestBodySize s \<le> L \<and>
     (\<forall>f h. sv_HeaderReceived s = Some f \<longrightarrow> f h \<le> L) \<and>
     int (pool_cap (en_pools E)) \<le> maxAlloc \<and> forms_ok (en_forms E) \<and>
     (\<forall>f ctx err. sv_ErrorHandler s = Some f \<longrightarrow> sized (cx_Response (f ctx err))) \<and>
     handler_ok (en_pools E) (sv_Handler s)"

text \<open>The state of a connection between the parts of the loop.\<close>

definition conn_ok :: "int \<Rightarrow> 'f env \<Rightarrow> 'f conn_state \<Rightarrow> bool" where
  "conn_ok L E st \<longleftrightarrow>
     caps_ok (en_pools E) (cx_Request (cs_ctx st)) \<and> sized (cx_Response (cs_ctx st)) \<and> cx_timeoutResponse (cs_ctx st) = None \<and>
     0 < cs_maxBody st \<and> cs_maxBody st \<le> L \<and> [] \<notin> set (rd_src (cs_br st))"

text \<open>A request as the handler gets it: within the limit unless it is streamed.\<close>

definition body_ok :: "int \<Rightarrow> 'f Server \<Rightarrow> 'f Request \<Rightarrow> bool" where
  "body_ok L s req \<longleftrightarrow> (\<not> sv_StreamRequestBody s \<longrightarrow> int (length (Request_bodyBytes req)) \<le> L)"

definition calls_ok :: "int \<Rightarrow> 'f Server \<Rightarrow> 'f conn_state \<Rightarrow> bool" where
  "calls_ok L s st \<longleftrightarrow> (\<forall>q\<in>set (cs_calls st). body_ok L s q)"

lemma reads_source: "reads r r' \<Longrightarrow> [] \<notin> set (rd_src r) \<Longrightarrow> [] \<notin> set (rd_src r')"
  by (simp add: reads_def)

lemma acquireByteReader_reads:
  "[] \<notin> set (rd_src r) \<Longrightarrow> \<exists>e r'. acquireByteReader r = Some (e, r') \<and> reads r r'"
  by (cases "rd_src r"; cases "hd (rd_src r)"; cases "tl (rd_src r)")
    (auto simp: acquireByteReader_def reads_def rd_total_def rd_left_def)

lemma await_request_ok:
  assumes "conn_ok L E st"
  shows "\<exists>e st'. await_request E s st = Some (e, st') \<and> conn_ok L E st' \<and> reads (cs_br st) (cs_br st') \<and> cs_calls st' = cs_calls st \<and>
           (no_body (cx_Request (cs_ctx st)) \<longrightarrow> no_body (cx_Request (cs_ctx st')))"
proof (cases "\<not> sv_ReduceMemoryUsage s \<or> cs_live st")
  case True
  define br where "br = (if cs_live st then cs_br st else (cs_br st)\<lparr>rd_buf := []\<rparr>)"
  have br: "reads (cs_br st) br" by (simp add: br_def reads_buf)
  obtain b err r1 where p: "Peek 1 br = (b, err, r1)" by (metis prod_cases3)
  note r1 = reads_trans [OF br Peek_reads [OF p]]
  show ?thesis
  proof (cases "cs_num st > 1")
    case True
    have "length b = 0 \<Longrightarrow> err \<noteq> None" using Peek_empty [of 1 br err r1] p by auto
    with \<open>\<not> sv_ReduceMemoryUsage s \<or> cs_live st\<close> True p r1 assms reads_source [OF r1] show ?thesis
      by (auto simp: await_request_def br_def [symmetric] Let_def conn_ok_def split: option.split)
  next
    case False
    with \<open>\<not> sv_ReduceMemoryUsage s \<or> cs_live st\<close> br assms reads_source [OF br] show ?thesis
      by (auto simp: await_request_def br_def [symmetric] Let_def conn_ok_def)
  qed
next
  case False
  from acquireByteReader_reads [of "cs_br st"] assms obtain e r' where a: "acquireByteReader (cs_br st) = Some (e, r')" "reads (cs_br st) r'"
    by (auto simp: conn_ok_def)
  with False assms reads_source [OF a(2)] show ?thesis
    by (auto simp: await_request_def conn_ok_def releaseCtx_def reset_ctx_def intro: caps_Reset no_body_Reset)
qed

lemma configure_ok:
  "conn_ok L E st \<Longrightarrow> conn_ok L E (st\<lparr>cs_ctx := configure_ctx E' s (cs_ctx st)\<rparr>)"
  "no_body (cx_Request ctx) \<Longrightarrow> no_body (cx_Request (configure_ctx E' s ctx))"
  by (auto simp: conn_ok_def configure_ctx_def Let_def caps_ok_def no_body_def Request_bodyBytes_def sized_def Response_bodyBytes_def
      split: option.splits)

lemma read_header_ok:
  "\<exists>e h' r' f. read_header st h = Some (e, h', r', f) \<and> reads (cs_br st) r' \<and> (e = None \<longrightarrow> rd_total r' < rd_total (cs_br st) \<and> length_ok h')"
proof -
  obtain e h1 r1 where r: "RequestHeader_Read h (cs_br st) = Some (e, h1, r1)"
    using request_header_total(2) [of h "cs_br st"] by (metis not_None_eq prod_cases3)
  note rr = Read_header_reads [OF disjI1 [OF r]]
  show ?thesis
  proof (cases "cs_pending st = []")
    case True
    with r rr show ?thesis by (auto simp: read_header_def)
  next
    case False
    obtain e2 h2 r2 where l: "RequestHeader_readLoop h (cs_br st) False = Some (e2, h2, r2)"
      using request_header_total(1) [of h "cs_br st" False] by (metis not_None_eq prod_cases3)
    note lr = Read_header_reads [OF disjI2 [OF l]]
    show ?thesis
    proof (cases "e2 = Some ReadNeedMore")
      case True
      obtain e3 h3 r3 where q: "RequestHeader_Read h2 r2 = Some (e3, h3, r3)"
        using request_header_total(2) [of h2 r2] by (metis not_None_eq prod_cases3)
      note qr = Read_header_reads [OF disjI1 [OF q]]
      have "rd_total r2 \<le> rd_total (cs_br st)" using lr(1) by (simp add: reads_def)
      with False True l q lr qr show ?thesis by (auto simp: read_header_def intro: reads_trans)
    next
      case f: False
      with False l lr show ?thesis by (auto simp: read_header_def split: option.split read_error.split)
    qed
  qed
qed

lemma maxRequestBodySize_ok:
  "server_ok L E s \<Longrightarrow> conn_ok L E st \<Longrightarrow> 0 < maxRequestBodySize s st h \<and> maxRequestBodySize s st h \<le> L"
  by (auto simp: maxRequestBodySize_def server_ok_def conn_ok_def DefaultMaxRequestBodySize_def split: option.split)

text \<open>Reading the body, in one piece or as a stream.\<close>

lemma read_body_ok:
  assumes "0 < m" and "m \<le> L" and "server_ok L E s" and "caps_ok (en_pools E) req" and "length_ok (rq_Header req)" and "body_ok L s req"
  shows "\<exists>e req' r'. (if sv_StreamRequestBody s then Request_ContinueReadBodyStream (en_forms E) (en_pools E) req r m pre
                      else Request_ContinueReadBody (en_forms E) (en_pools E) req r m pre) = Some (e, req', r') \<and>
           reads r r' \<and> caps_ok (en_pools E) req' \<and> (e = None \<longrightarrow> body_ok L s req' \<and> length_ok (rq_Header req'))"
proof (cases "sv_StreamRequestBody s")
  case True
  with ContinueReadBodyStream_total [of m "en_pools E" req "en_forms E" r pre] assms show ?thesis
    by (auto simp: server_ok_def body_ok_def)
next
  case False
  have l: "m + 2 \<le> maxAlloc" and f: "forms_ok (en_forms E)" using assms(2,3) by (auto simp: server_ok_def)
  from ContinueReadBody_total [OF assms(1) l assms(4), where M = "en_forms E" and r = r and pre = pre] obtain e req' r' where
    c: "Request_ContinueReadBody (en_forms E) (en_pools E) req r m pre = Some (e, req', r')"
    "e = None \<longrightarrow> int (length (Request_bodyBytes req')) \<le> max m (int (length (Request_bodyBytes req)))" by blast
  with False ContinueReadBody_reads [OF c(1) assms(4) f] ContinueReadBody_length_ok [OF _ assms(4,5)] assms(2,6)
  show ?thesis by (auto simp: body_ok_def)
qed

lemma read_request_ok:
  assumes "server_ok L E s" and "conn_ok L E st" and "no_body (cx_Request (cs_ctx st))"
  shows "\<exists>e st'. read_request E s st = Some (e, st') \<and> conn_ok L E st' \<and> cs_calls st' = cs_calls st \<and> reads (cs_br st) (cs_br st') \<and>
           (e = None \<longrightarrow> rd_total (cs_br st') < rd_total (cs_br st) \<and> length_ok (rq_Header (cx_Request (cs_ctx st'))) \<and>
                         body_ok L s (cx_Request (cs_ctx st')))"
proof -
  define ctx where "ctx = (if sv_DisableHeaderNamesNormalizing s
     then on_response (\<lambda>r. r\<lparr>rs_Header := ResponseHeader_DisableNormalizing (rs_Header r)\<rparr>) (cs_ctx st) else cs_ctx st)"
  define h where "h = (if sv_DisableHeaderNamesNormalizing s then RequestHeader_DisableNormalizing (rq_Header (cx_Request (cs_ctx st)))
     else rq_Header (cx_Request (cs_ctx st)))"
  have ctx: "sized (cx_Response ctx)" "cx_timeoutResponse ctx = None" using assms(2) by (auto simp: ctx_def on_response_def conn_ok_def)
  obtain e h' r1 f where r: "read_header st h = Some (e, h', r1, f)"
    "reads (cs_br st) r1" "e = None \<longrightarrow> rd_total r1 < rd_total (cs_br st) \<and> length_ok h'" using read_header_ok [of st h] by blast
  define st1 where "st1 = (if f then st\<lparr>cs_sent := cs_sent st @ cs_pending st, cs_pending := []\<rparr> else st)"
  have st1: "conn_ok L E st1" "cs_calls st1 = cs_calls st" using assms(2) by (auto simp: st1_def conn_ok_def)
  let ?req = "(cx_Request (cs_ctx st))\<lparr>rq_Header := h'\<rparr>"
  have q: "caps_ok (en_pools E) ?req" "body_ok L s ?req"
    using assms by (auto simp: conn_ok_def body_ok_def no_body_def server_ok_def DefaultMaxRequestBodySize_def)
  have ok: "conn_ok L E (st1\<lparr>cs_ctx := ctx\<lparr>cx_Request := q\<rparr>, cs_br := r', cs_maxBody := m, cs_live := l\<rparr>)"
    if "caps_ok (en_pools E) q" "reads (cs_br st) r'" "0 < m" "m \<le> L" for q r' m l
    using that ctx assms(2) reads_source [of "cs_br st" r'] by (simp add: conn_ok_def)
  have ok1: "conn_ok L E (st1\<lparr>cs_ctx := ctx\<lparr>cx_Request := ?req\<rparr>, cs_br := r1, cs_live := False\<rparr>)"
    using ctx st1(1) q(1) assms(2) reads_source [OF r(2)] by (simp add: conn_ok_def)
  note def = read_request_def Let_def ctx_def [symmetric] h_def [symmetric] r(1) option.case prod.case st1_def [symmetric]
  show ?thesis
  proof (cases e)
    case (Some x)
    then show ?thesis unfolding def using ok1 st1(2) r(2) by simp
  next
    case None
    define m where "m = maxRequestBodySize s st1 h'"
    have m: "0 < m" "m \<le> L" using maxRequestBodySize_ok [OF assms(1) st1(1)] by (auto simp: m_def)
    let ?rd = "if sv_StreamRequestBody s
        then Request_readBodyStream (en_forms E) (en_pools E) ?req r1 m (sv_GetOnly s) (\<not> sv_DisablePreParseMultipartForm s)
        else Request_readLimitBody (en_forms E) (en_pools E) ?req r1 m (sv_GetOnly s) (\<not> sv_DisablePreParseMultipartForm s)"
    have "\<exists>e2 q r2. ?rd = Some (e2, q, r2) \<and> reads r1 r2 \<and> caps_ok (en_pools E) q \<and> (e2 = None \<longrightarrow> body_ok L s q \<and> length_ok (rq_Header q))"
      using read_body_ok [OF m assms(1) q(1) _ q(2), of r1 "\<not> sv_DisablePreParseMultipartForm s"] q r(3) None
      by (cases "sv_StreamRequestBody s") (auto simp: Request_readBodyStream_def Request_readLimitBody_def)
    then obtain e2 q r2 where b: "?rd = Some (e2, q, r2)" "reads r1 r2" "caps_ok (en_pools E) q"
      "e2 = None \<longrightarrow> body_ok L s q \<and> length_ok (rq_Header q)" by blast
    have t: "rd_total r2 < rd_total (cs_br st)" using r(3) None b(2) by (auto simp: reads_def)
    show ?thesis unfolding def None m_def [symmetric] b(1) using ok [OF b(3) reads_trans [OF r(2) b(2)] m] t b(4) st1(2) reads_trans [OF r(2) b(2)] by simp
  qed
qed

lemma ctx_Error_sized: "int (length msg) \<le> maxAlloc \<Longrightarrow> sized (cx_Response (ctx_Error P ctx msg c))"
  by (simp add: ctx_Error_def ctx_SetBodyString_def on_response_def sized_SetBody Let_def)

lemma defaultErrorHandler_sized: "sized (cx_Response (defaultErrorHandler P ctx err))"
  by (auto simp: defaultErrorHandler_def maxAlloc_def intro!: ctx_Error_sized
      split: serve_error.split message_error.split read_error.split body_error.split peek_error.split conn_error.split)

lemma writeResponse_calls:
  assumes "sized (cx_Response ctx)"
  obtains e resp w where "writeResponse E ctx = Some (e, ctx\<lparr>cx_Response := resp\<rparr>, w)"
proof -
  have "\<exists>e resp w. writeResponse E ctx = Some (e, ctx\<lparr>cx_Response := resp\<rparr>, w)"
    using Response_Write_total [OF assms, of "en_date E" "en_streams E" "[]"] by (auto simp: writeResponse_def intro: exI [of _ "cx_Response ctx"])
  with that show ?thesis by blast
qed

lemma writeErrorResponse_ok:
  assumes "server_ok L E s"
  shows "\<exists>st'. writeErrorResponse E s st err = Some st' \<and> cs_calls st' = cs_calls st"
proof -
  define c1 where "c1 = (case sv_ErrorHandler s of None \<Rightarrow> defaultErrorHandler (en_pools E) (cs_ctx st) err | Some f \<Rightarrow> f (cs_ctx st) err)"
  define c2 where "c2 = (if getServerName s \<noteq> [] then set_server (getServerName s) c1 else c1)"
  have "sized (cx_Response c1)" using assms by (auto simp: c1_def server_ok_def defaultErrorHandler_sized split: option.split)
  then have "sized (cx_Response (ctx_SetConnectionClose c2))"
    by (simp add: c2_def set_server_def on_response_def ctx_SetConnectionClose_def)
  then obtain e resp w where "writeResponse E (ctx_SetConnectionClose c2) = Some (e, (ctx_SetConnectionClose c2)\<lparr>cx_Response := resp\<rparr>, w)"
    by (rule writeResponse_calls)
  then show ?thesis unfolding writeErrorResponse_def Let_def c1_def [symmetric] c2_def [symmetric] by simp
qed

lemma read_failed_ok:
  assumes "server_ok L E s"
  shows "\<exists>x st'. read_failed E s st e = Some (x, st') \<and> cs_calls st' = cs_calls st"
proof (cases "is_eof e \<or> (\<exists>p. e = HeaderFailed (ErrNothingRead p)) \<and> cs_num st > 1")
  case True
  then show ?thesis by (auto simp: read_failed_def)
next
  case False
  define x where "x = (case e of HeaderFailed (ErrNothingRead p) \<Rightarrow> ConnFailed p | _ \<Rightarrow> MessageFailed e)"
  have "read_failed E s st e = map_option (\<lambda>st. (Some x, st)) (writeErrorResponse E s st x)"
    using False by (auto simp: read_failed_def x_def split: message_error.split read_error.split)
  with writeErrorResponse_ok [OF assms, of st x] show ?thesis by auto
qed

lemma read_continued_ok:
  assumes "server_ok L E s" and "conn_ok L E st" and "length_ok (rq_Header (cx_Request (cs_ctx st)))" and "body_ok L s (cx_Request (cs_ctx st))"
  shows "\<exists>e st'. read_continued E s st = Some (e, st') \<and> conn_ok L E st' \<and> cs_calls st' = cs_calls st \<and> reads (cs_br st) (cs_br st') \<and>
           (e = None \<longrightarrow> body_ok L s (cx_Request (cs_ctx st')))"
proof -
  define br where "br = (if cs_live st then cs_br st else (cs_br st)\<lparr>rd_buf := []\<rparr>)"
  have br: "reads (cs_br st) br" by (simp add: br_def reads_buf)
  let ?req = "cx_Request (cs_ctx st)"
  from read_body_ok [OF _ _ assms(1) _ assms(3,4), of "cs_maxBody st" br "\<not> sv_DisablePreParseMultipartForm s"] assms(2)
  obtain e q r' where b: "(if sv_StreamRequestBody s
      then Request_ContinueReadBodyStream (en_forms E) (en_pools E) ?req br (cs_maxBody st) (\<not> sv_DisablePreParseMultipartForm s)
      else Request_ContinueReadBody (en_forms E) (en_pools E) ?req br (cs_maxBody st) (\<not> sv_DisablePreParseMultipartForm s)) = Some (e, q, r')"
    "reads br r'" "caps_ok (en_pools E) q" "e = None \<longrightarrow> body_ok L s q"
    unfolding conn_ok_def by blast
  note r' = reads_trans [OF br b(2)]
  from reads_source [OF r'] b assms(2) r' show ?thesis
    unfolding read_continued_def Let_def br_def [symmetric] b(1) by (simp add: conn_ok_def)
qed

lemma expect_continue_ok:
  assumes "server_ok L E s" and "conn_ok L E st" and "length_ok (rq_Header (cx_Request (cs_ctx st)))" and "body_ok L s (cx_Request (cs_ctx st))"
  shows "\<exists>res. expect_continue E s st = Some res \<and>
     (case res of
        Inl (x, st') \<Rightarrow> cs_calls st' = cs_calls st
      | Inr st' \<Rightarrow> conn_ok L E st' \<and> cs_calls st' = cs_calls st \<and> reads (cs_br st) (cs_br st') \<and> body_ok L s (cx_Request (cs_ctx st')))"
proof (cases "Request_MayContinue (cx_Request (cs_ctx st))")
  case False
  with assms(2,4) show ?thesis by (auto simp: expect_continue_def)
next
  case True
  define go_on where "go_on = (case sv_ContinueHandler s of None \<Rightarrow> cs_continue st | Some f \<Rightarrow> f (rq_Header (cx_Request (cs_ctx st))))"
  define st1 where "st1 = st\<lparr>cs_continue := True, cs_sent := cs_sent st @ cs_pending st @ strResponseContinue, cs_pending := []\<rparr>"
  have st1: "conn_ok L E st1" "cs_ctx st1 = cs_ctx st" "cs_br st1 = cs_br st" "cs_calls st1 = cs_calls st"
    using assms(2) by (simp_all add: st1_def conn_ok_def)
  from read_continued_ok [OF assms(1) st1(1)] st1(2) assms(3,4) obtain e st2 where b: "read_continued E s st1 = Some (e, st2)" "conn_ok L E st2"
    "cs_calls st2 = cs_calls st1" "reads (cs_br st1) (cs_br st2)" "e = None \<longrightarrow> body_ok L s (cx_Request (cs_ctx st2))" by force
  note def = expect_continue_def Let_def go_on_def [symmetric] st1_def [symmetric]
  show ?thesis
  proof (cases go_on)
    case False
    with True assms(2,4) show ?thesis
      unfolding def by (auto simp: conn_ok_def ctx_SetStatusCode_def on_response_def reads_buf)
  next
    case go: True
    obtain st3 where "e = Some x \<Longrightarrow> writeErrorResponse E s st2 (MessageFailed x) = Some st3 \<and> cs_calls st3 = cs_calls st2" for x
      using writeErrorResponse_ok [OF assms(1), of st2 "MessageFailed (the e)"] by force
    with True go b st1 show ?thesis unfolding def by (cases e) auto
  qed
qed

lemma prepare_response_ok:
  assumes "prepare_response E s n c ctx = (ctx', close)"
  shows "cx_Request ctx' = cx_Request ctx" and "cx_timeoutResponse ctx' = cx_timeoutResponse ctx"
    and "sized (cx_Response ctx') = sized (cx_Response ctx)"
  using assms by (auto simp: prepare_response_def Let_def on_response_def set_server_def split: if_splits)

lemma run_handler_ok:
  assumes "server_ok L E s" and "conn_ok L E st" and "body_ok L s (cx_Request (cs_ctx st))" and "calls_ok L s st"
  shows "\<exists>st' close. run_handler E s st = Some (st', close) \<and> conn_ok L E st' \<and> calls_ok L s st' \<and> reads (cs_br st) (cs_br st')"
proof -
  define ctx where "ctx = (if getServerName s \<noteq> [] then set_server (getServerName s) (cs_ctx st) else cs_ctx st)"
  have ctx: "cx_Request ctx = cx_Request (cs_ctx st)" "sized (cx_Response ctx)" "cx_timeoutResponse ctx = None"
    using assms(2) by (auto simp: ctx_def set_server_def on_response_def conn_ok_def)
  let ?h = "if cs_continue st then sv_Handler s ctx (cs_br st) else Some (ctx, cs_br st)"
  have P: "int (pool_cap (en_pools E)) \<le> maxAlloc" using assms(1) by (simp add: server_ok_def)
  have "\<exists>ctx' r'. ?h = Some (ctx', r') \<and> reads (cs_br st) r' \<and> caps_ok (en_pools E) (cx_Request ctx') \<and> sized (cx_Response ctx') \<and>
                   (\<forall>t. cx_timeoutResponse ctx' = Some t \<longrightarrow> sized t)"
    using assms(1,2) ctx by (auto simp: server_ok_def handler_ok_def conn_ok_def)
  then obtain ctx' r' where h: "?h = Some (ctx', r')" "reads (cs_br st) r'" "caps_ok (en_pools E) (cx_Request ctx')" "sized (cx_Response ctx')"
    "\<forall>t. cx_timeoutResponse ctx' = Some t \<longrightarrow> sized t" by blast
  define c1 where "c1 = timed_out_ctx E s ctx'"
  have c1: "caps_ok (en_pools E) (cx_Request c1)" "sized (cx_Response c1)" "cx_timeoutResponse c1 = None"
    using h(3-5) P sized_CopyTo by (auto simp: c1_def timed_out_ctx_def Let_def new_ctx_def caps_ok_def zero_request_def split: option.split)
  define cc where "cc = (sv_DisableKeepalive s \<or> RequestHeader_ConnectionClose (rq_Header (cx_Request (cs_ctx st))))"
  obtain c2 close where c2: "prepare_response E s (cs_num st) cc c1 = (c2, close)" by force
  note prep = prepare_response_ok [OF c2]
  have r: "run_handler E s st = Some (st\<lparr>cs_ctx := c2, cs_br := r',
      cs_calls := (if cs_continue st then cs_calls st @ [cx_Request ctx] else cs_calls st)\<rparr>, close)"
    unfolding run_handler_def Let_def ctx_def [symmetric] cc_def [symmetric] h(1) by (simp add: c1_def [symmetric] c2)
  have "[] \<notin> set (rd_src r')" using reads_source [OF h(2)] assms(2) by (simp add: conn_ok_def)
  then show ?thesis using r c1 prep assms(2-4) ctx(1) h(2) by (auto simp: conn_ok_def calls_ok_def)
qed

lemma send_response_ok:
  assumes "conn_ok L E st"
  shows "\<exists>res. send_response E s st close = Some res \<and>
     (case res of
        Inl (x, st') \<Rightarrow> cs_calls st' = cs_calls st
      | Inr st' \<Rightarrow> conn_ok L E st' \<and> cs_calls st' = cs_calls st \<and> cs_br st' = cs_br st \<and> no_body (cx_Request (cs_ctx st')))"
proof -
  define ctx where "ctx = (cs_ctx st)\<lparr>cx_hijackHandler := False, cx_hijackNoResponse := False\<rparr>"
  have "sized (cx_Response ctx)" using assms by (simp add: ctx_def conn_ok_def)
  then obtain e resp w where w: "writeResponse E ctx = Some (e, ctx\<lparr>cx_Response := resp\<rparr>, w)" by (rule writeResponse_calls)
  show ?thesis
    using assms unfolding send_response_def Let_def ctx_def [symmetric] w
    by (auto simp: conn_ok_def ctx_def intro: caps_Reset no_body_Reset split: option.split)
qed

lemma serve_step_ok:
  assumes "server_ok L E s" and "conn_ok L E st" and "no_body (cx_Request (cs_ctx st))" and "calls_ok L s st"
  shows "\<exists>res. serve_step E s st = Some res \<and>
     (case res of
        Inl (x, st') \<Rightarrow> calls_ok L s st'
      | Inr st' \<Rightarrow> conn_ok L E st' \<and> calls_ok L s st' \<and> no_body (cx_Request (cs_ctx st')) \<and> rd_total (cs_br st') < rd_total (cs_br st))"
proof -
  let ?st = "st\<lparr>cs_num := Suc (cs_num st)\<rparr>"
  have c: "cs_calls x = cs_calls y \<Longrightarrow> calls_ok L s x = calls_ok L s y" for x y :: "'a conn_state" by (simp add: calls_ok_def)
  have "conn_ok L E ?st" using assms(2) by (simp add: conn_ok_def)
  from await_request_ok [OF this, of s] obtain err st1 where a: "await_request E s ?st = Some (err, st1)" "conn_ok L E st1"
    "reads (cs_br st) (cs_br st1)" "cs_calls st1 = cs_calls st" "no_body (cx_Request (cs_ctx st1))" using assms(3) by auto
  define st2 where "st2 = st1\<lparr>cs_ctx := configure_ctx E s (cs_ctx st1)\<rparr>"
  have st2: "conn_ok L E st2" "no_body (cx_Request (cs_ctx st2))" "cs_br st2 = cs_br st1" "cs_calls st2 = cs_calls st"
    using configure_ok(1) [OF a(2)] configure_ok(2) [OF a(5)] a(4) by (simp_all add: st2_def)
  obtain e st3 where r: "(if err = None then read_request E s st2 else Some (err, st2)) = Some (e, st3)" "cs_calls st3 = cs_calls st"
    "e = None \<Longrightarrow> conn_ok L E st3 \<and> rd_total (cs_br st3) < rd_total (cs_br st) \<and>
       length_ok (rq_Header (cx_Request (cs_ctx st3))) \<and> body_ok L s (cx_Request (cs_ctx st3))"
  proof (cases err)
    case None
    from read_request_ok [OF assms(1) st2(1,2)] obtain e st3 where "read_request E s st2 = Some (e, st3)" "cs_calls st3 = cs_calls st2"
      "conn_ok L E st3" "e = None \<longrightarrow> rd_total (cs_br st3) < rd_total (cs_br st2) \<and>
         length_ok (rq_Header (cx_Request (cs_ctx st3))) \<and> body_ok L s (cx_Request (cs_ctx st3))" by blast
    with that [of e st3] None a(3) st2 show ?thesis by (auto simp: reads_def)
  qed (use that st2 in auto)
  note def = serve_step_def a(1) option.case prod.case Let_def st2_def [symmetric] r(1)
  show ?thesis
  proof (cases e)
    case (Some x)
    obtain y st4 where "read_failed E s st3 x = Some (y, st4)" "cs_calls st4 = cs_calls st3" using read_failed_ok [OF assms(1)] by blast
    then show ?thesis unfolding def Some using c [of st4 st] r(2) assms(4) by simp
  next
    case None
    with r(3) have st3: "conn_ok L E st3" "rd_total (cs_br st3) < rd_total (cs_br st)"
      "length_ok (rq_Header (cx_Request (cs_ctx st3)))" "body_ok L s (cx_Request (cs_ctx st3))" by auto
    from expect_continue_ok [OF assms(1) st3(1,3,4)] obtain res where x: "expect_continue E s st3 = Some res"
      "case res of Inl (x, st') \<Rightarrow> cs_calls st' = cs_calls st3
       | Inr st' \<Rightarrow> conn_ok L E st' \<and> cs_calls st' = cs_calls st3 \<and> reads (cs_br st3) (cs_br st') \<and> body_ok L s (cx_Request (cs_ctx st'))" by blast
    show ?thesis
    proof (cases res)
      case (Inl y)
      with x r(2) c [of "snd y" st] assms(4) show ?thesis unfolding def None x(1) by (cases y) auto
    next
      case (Inr st4)
      with x have st4: "conn_ok L E st4" "cs_calls st4 = cs_calls st3" "reads (cs_br st3) (cs_br st4)" "body_ok L s (cx_Request (cs_ctx st4))" by auto
      have "calls_ok L s st4" using c [of st4 st] st4(2) r(2) assms(4) by simp
      from run_handler_ok [OF assms(1) st4(1,4) this] obtain st5 close where h: "run_handler E s st4 = Some (st5, close)"
        "conn_ok L E st5" "calls_ok L s st5" "reads (cs_br st4) (cs_br st5)" by blast
      from send_response_ok [OF h(2)] obtain res2 where w: "send_response E s st5 close = Some res2"
        "case res2 of Inl (x, st') \<Rightarrow> cs_calls st' = cs_calls st5
         | Inr st' \<Rightarrow> conn_ok L E st' \<and> cs_calls st' = cs_calls st5 \<and> cs_br st' = cs_br st5 \<and> no_body (cx_Request (cs_ctx st'))" by blast
      have "rd_total (cs_br st5) < rd_total (cs_br st)" using st3(2) reads_trans [OF st4(3) h(4)] by (simp add: reads_def)
      then have "case res2 of Inl (x, st') \<Rightarrow> calls_ok L s st'
          | Inr st' \<Rightarrow> conn_ok L E st' \<and> calls_ok L s st' \<and> no_body (cx_Request (cs_ctx st')) \<and> rd_total (cs_br st') < rd_total (cs_br st)"
        using w(2) h(3) by (cases res2) (simp_all add: calls_ok_def split: prod.splits)
      then show ?thesis unfolding def None option.case prod.case x(1) Inr sum.case h(1) w(1) by simp
    qed
  qed
qed

lemma serve_loop_ok:
  assumes "server_ok L E s"
  shows "conn_ok L E st \<Longrightarrow> no_body (cx_Request (cs_ctx st)) \<Longrightarrow> calls_ok L s st \<Longrightarrow>
           \<exists>x st'. serve_loop E s st = Some (x, st') \<and> calls_ok L s st'"
proof (induction "rd_total (cs_br st)" arbitrary: st rule: less_induct)
  case less
  from serve_step_ok [OF assms less.prems] obtain res where "serve_step E s st = Some res"
    "case res of Inl (x, st') \<Rightarrow> calls_ok L s st'
     | Inr st' \<Rightarrow> conn_ok L E st' \<and> calls_ok L s st' \<and> no_body (cx_Request (cs_ctx st')) \<and> rd_total (cs_br st') < rd_total (cs_br st)" by blast
  with less.hyps show ?case by (cases res) (auto simp: serve_loop.simps [of E s st])
qed


section \<open>A small server\<close>

text \<open>A server that answers every request, on a connection without forms.\<close>

definition no_forms :: "unit multipart_lib" where
  "no_forms = \<lparr>ml_ReadForm = (\<lambda>_ _ r. (Inl [], r)), ml_Marshal = (\<lambda>_ _. Inl [])\<rparr>"

definition some_pools :: pools where
  "some_pools = \<lparr>pool_cap = 64, requestBodyPoolSizeLimit = - 1, responseBodyPoolSizeLimit = - 1\<rparr>"

definition plain_env :: "unit env" where
  "plain_env = \<lparr>en_pools = some_pools, en_forms = no_forms, en_date = ''now'',
     en_streams = (\<lambda>_. \<lparr>src_pieces = [], src_end = EOF, src_limit = None, src_close = None\<rparr>), en_stop = (\<lambda>_. False), en_tls = False\<rparr>"

definition plain_server :: "unit Server" where
  "plain_server = \<lparr>sv_Handler = (\<lambda>ctx r. Some (ctx_SetBodyString some_pools ctx ''hello'', r)), sv_ErrorHandler = None,
     sv_HeaderReceived = None, sv_ContinueHandler = None,
     sv_Name = [], sv_NoDefaultServerHeader = True, sv_NoDefaultContentType = False, sv_NoDefaultDate = True,
     sv_SecureErrorLogMessage = False, sv_DisableHeaderNamesNormalizing = False, sv_DisableKeepalive = False,
     sv_DisablePreParseMultipartForm = False, sv_ReduceMemoryUsage = False, sv_GetOnly = False, sv_StreamRequestBody = False,
     sv_CloseOnShutdown = False, sv_MaxRequestBodySize = 0, sv_MaxRequestsPerConn = 0\<rparr>"

lemma plain_server_ok: "server_ok DefaultMaxRequestBodySize plain_env plain_server"
  by (auto simp: server_ok_def handler_ok_def forms_ok_def plain_env_def plain_server_def no_forms_def some_pools_def maxAlloc_def
      DefaultMaxRequestBodySize_def ctx_SetBodyString_def on_response_def sized_SetBody)


end
