(* ===== verification/Message_Roundtrip.thy ===== *)
theory Message_Roundtrip
  imports Server_Correct Header_Roundtrip
begin

text \<open>
  From the client to the server: a request that Request.Write puts on a connection is what Request.ReadLimitBody
  gets at the other end.
\<close>

section \<open>The header that Write sends\<close>

lemma parseContentLength_digits: "n < 2 ^ 63 \<Longrightarrow> parseContentLength (map digit_char (dec_digits n)) = (int n, None)"
  using ParseUint_dec_digits [of n] by (auto simp: ParseUint_def parseContentLength_def split: prod.splits if_splits)

lemma digits_clean: "clean_value (map digit_char (dec_digits n))"
proof -
  have "\<forall>c\<in>set (map digit_char (dec_digits n)). c \<noteq> nChar \<and> c \<noteq> CHR '' ''"
  proof
    fix c assume "c \<in> set (map digit_char (dec_digits n))"
    then obtain d where "d < 10" "c = digit_char d" using dec_digits_small by auto
    then have "byte_val c = 48 + d" by (simp add: digit_char_def byte_val_mk_byte)
    moreover have "byte_val nChar = 10" "byte_val CHR '' '' = 32" by (simp_all add: byte_val_literals)
    ultimately show "c \<noteq> nChar \<and> c \<noteq> CHR '' ''" by auto
  qed
  then show ?thesis unfolding clean_value_def by (metis hd_in_set last_in_set)
qed

lemma not_ordinary: "\<not> ordinary_name strTransferEncoding"
  by (simp add: ordinary_name_def caseInsensitiveCompare_def list_all2_conv_all_nth)

lemma sendable_with_length:
  assumes "sendable h" and "n < 2 ^ 63"
  shows "\<exists>hs. RequestHeader_SetContentLength h (int n) =
             Some (h\<lparr>q_contentLength := int n, q_contentLengthBytes := map digit_char (dec_digits n), q_h := hs\<rparr>) \<and> fst hs = fst (q_h h)"
proof -
  have "\<forall>kv\<in>set (fst (q_h h)). key kv \<noteq> strTransferEncoding"
    using assms(1) not_ordinary unfolding sendable_def by (auto simp: list_all_iff)
  then have "fst (delAllArgsBytes (q_h h) strTransferEncoding) = fst (q_h h)"
    by (simp add: delAllArgsBytes_def fst_delAllArgs filter_id_conv)
  with assms(2) show ?thesis
    by (intro exI [of _ "delAllArgsBytes (q_h h) strTransferEncoding"]) (simp add: RequestHeader_SetContentLength_def AppendUint_eq Let_def)
qed

lemma sendable_length:
  assumes "sendable h" and "n < 2 ^ 63" and "fst hs = fst (q_h h)"
  shows "sendable (h\<lparr>q_contentLength := int n, q_contentLengthBytes := map digit_char (dec_digits n), q_h := hs\<rparr>)"
proof -
  define h1 where "h1 = h\<lparr>q_contentLength := int n, q_contentLengthBytes := map digit_char (dec_digits n), q_h := hs\<rparr>"
  have "RequestHeader_Method h1 = RequestHeader_Method h" "RequestHeader_RequestURI h1 = RequestHeader_RequestURI h"
    "RequestHeader_Protocol h1 = RequestHeader_Protocol h"
    by (simp_all add: h1_def RequestHeader_Method_def RequestHeader_RequestURI_def RequestHeader_Protocol_def)
  moreover have "parseContentLength (map digit_char (dec_digits n)) = (int n, None)" "clean_value (map digit_char (dec_digits n))"
    using parseContentLength_digits [OF assms(2)] digits_clean by blast+
  ultimately have "sendable h1" using assms(1,3) by (simp add: sendable_def request_line_def) (simp add: h1_def)
  then show ?thesis by (simp add: h1_def)
qed

section \<open>Reading it\<close>

lemma peek_absent: "k \<notin> fst ` set (pairs h) \<Longrightarrow> nil_or (peekArgBytes (fst h) k) = []"
proof -
  have "k \<notin> key ` set kvs \<Longrightarrow> peekArgStr kvs k = None" for kvs by (induction kvs) auto
  then show "k \<notin> fst ` set (pairs h) \<Longrightarrow> nil_or (peekArgBytes (fst h) k) = []"
    by (force simp: peekArgBytes_def nil_or_def)
qed

lemma ContinueReadBody_fixed:
  assumes "stream r s e (body @ rest)" and "body \<noteq> []" and "q_contentLength (rq_Header req) = int (length body)"
    and "m \<le> 0 \<or> int (length body) \<le> m" and "int (length body) \<le> maxAlloc"
    and "RequestHeader_MultipartFormBoundary (rq_Header req) = None"
  shows "\<exists>q r'. Request_ContinueReadBody M P req r m pre = Some (None, q, r') \<and> rq_Header q = rq_Header req \<and>
             Request_bodyBytes q = body \<and> stream r' s e rest"
proof -
  define req1 where "req1 = (if pre then req\<lparr>rq_multipartFormBoundary := []\<rparr> else req)"
  have n: "RequestHeader_realContentLength (rq_Header req) = int (length body)" "0 < int (length body)"
    using assms(2,3) by (simp_all add: RequestHeader_realContentLength_def)
  have f: "read_form M P req r (int (length body)) pre = (req1, None)"
    using assms(6) n(2) by (simp add: read_form_def req1_def nil_or_def)
  obtain b req2 where b: "Request_bodyBuffer P req1 = (b, req2)" by (metis surj_pair)
  then have h: "rq_Header req2 = rq_Header req" "rq_bodyRaw req2 = None"
    by (auto simp: Request_bodyBuffer_def Let_def req1_def)
  from append_fixed_stream [OF assms(1) n(2), of "[]" "snd b"] assms(5) obtain c' r' where
    a: "appendBodyFixedSize r ([], snd b) (int (length body)) = Some ((body, c'), None, r')" "stream r' s e rest" by auto
  then have "readBody r (int (length body)) m ([], snd b) = Some ((body, c'), None, r')"
    using assms(4) by (auto simp: readBody_def)
  then have "Request_ReadBody P req1 r (int (length body)) m = Some (None, req2\<lparr>rq_body := Some (body, c')\<rparr>, r')"
    using b n(2) by (simp add: Request_ReadBody_def)
  then show ?thesis
    using f n h a(2) assms(4) by (auto simp: Request_ContinueReadBody_def Let_def Request_bodyBytes_def)
qed

text \<open>A message that can be sent as it is: its header can be sent, the host is set, the body is in a buffer or a
  slice and not empty, there is no form, and the header does not ask the server to wait.\<close>

definition plain_message :: "'f Request \<Rightarrow> bool" where
  "plain_message req \<longleftrightarrow>
     sendable (rq_Header req) \<and> q_host (rq_Header req) \<noteq> [] \<and> \<not> rq_parsedURI req \<and> rq_bodyStream req = None \<and>
     rq_multipartForm req = None \<and> Request_bodyBytes req \<noteq> [] \<and> int (length (Request_bodyBytes req)) \<le> maxAlloc \<and>
     \<not> HasPrefix (sent_content_type (rq_Header req)) strMultipartFormData \<and>
     strExpect \<notin> fst ` set (pairs (q_h (rq_Header req)))"

lemma Request_Write_length:
  assumes "plain_message req" and "set_length req (int (length (Request_bodyBytes req))) = Some req'"
  shows "Request_Write M S req w = Some (None, req', w @ RequestHeader_AppendBytes (rq_Header req') [] @ Request_bodyBytes req)"
proof -
  note p = assms(1) [unfolded plain_message_def]
  have "RequestHeader_Host (rq_Header req) \<noteq> []" using p by (simp add: sendable_def RequestHeader_Host_def)
  then have t: "write_target req = (None, req)" using p by (simp add: write_target_def)
  have "\<not> Request_onlyMultipartForm req" "rq_bodyStream req = None" "length (Request_bodyBytes req) \<noteq> 0"
    using p by (auto simp: Request_onlyMultipartForm_def)
  then show ?thesis unfolding Request_Write_def t prod.case using assms(2) by (simp add: RequestHeader_Header_def Let_def)
qed

lemma Request_Write_plain:
  assumes "plain_message req"
  shows "\<exists>hs. Request_Write M S req w =
      (let h1 = (rq_Header req)\<lparr>q_contentLength := int (length (Request_bodyBytes req)),
                   q_contentLengthBytes := map digit_char (dec_digits (length (Request_bodyBytes req))), q_h := hs\<rparr>
       in Some (None, req\<lparr>rq_Header := h1\<rparr>, w @ RequestHeader_AppendBytes h1 [] @ Request_bodyBytes req)) \<and>
      fst hs = fst (q_h (rq_Header req))"
proof -
  have n: "length (Request_bodyBytes req) < 2 ^ 63" using assms by (simp add: plain_message_def maxAlloc_def)
  obtain hs where hs: "RequestHeader_SetContentLength (rq_Header req) (int (length (Request_bodyBytes req))) =
      Some ((rq_Header req)\<lparr>q_contentLength := int (length (Request_bodyBytes req)),
        q_contentLengthBytes := map digit_char (dec_digits (length (Request_bodyBytes req))), q_h := hs\<rparr>)"
    "fst hs = fst (q_h (rq_Header req))" using sendable_with_length [OF _ n, of "rq_Header req"] assms by (auto simp: plain_message_def)
  from Request_Write_length [OF assms, of _ M S w] hs show ?thesis by (intro exI [of _ hs]) (simp add: set_length_def Let_def)
qed

lemma expect_cookie: "strExpect \<noteq> strCookie"
  by (simp add: strExpect_def strCookie_def)

lemma peek_expect: "RequestHeader_peek h strExpect = nil_or (peekArgBytes (fst (q_h h)) strExpect)"
proof -
  have "strExpect \<notin> {strHost, strContentType, strUserAgent, strConnection, strContentLength, strCookie, strTrailer}"
    by (simp add: strExpect_def strCookie_def strHost_def strContentType_def strUserAgent_def strConnection_def strContentLength_def strTrailer_def)
  then show ?thesis by (simp add: RequestHeader_peek_def)
qed

lemma kept_header [simp]:
  "rq_Header (snd (Request_closeBodyStream q)) = rq_Header q" "rq_Header (Request_RemoveMultipartFormFiles q) = rq_Header q"
  "rq_Header (Request_ReleaseBody q n) = rq_Header q"
  by (auto simp: Request_closeBodyStream_def Request_RemoveMultipartFormFiles_def Request_ReleaseBody_def Let_def split: option.split)

lemma kept_header_reset [simp]: "rq_Header (Request_resetSkipHeader q) = rq_Header q"
proof -
  have "rq_Header (Request_ResetBody q) = rq_Header q"
    by (auto simp: Request_ResetBody_def Let_def split: option.split)
  then show ?thesis by (simp add: Request_resetSkipHeader_def Let_def)
qed

lemma reset_header: "rq_Header (Request_resetSkipHeader (Request_Reset P g)) = RequestHeader_Reset (rq_Header g)"
  by (simp add: Request_Reset_def Let_def)

text \<open>Claim C11: A request that a client writes is what the server reads. Write puts a header and the body on the connection; however
  the connection cuts these bytes and what follows them, ReadLimitBody on a reset request succeeds, its body, method,
  request URI, protocol, host, user agent, content type and other header entries are those of the client (with the
  cookies as one entry), the content length is that of the body, and exactly what follows the message is left.\<close>

theorem request_message_roundtrip:
  assumes "plain_message req" and "int (length (Request_bodyBytes req)) \<le> limit"
  shows "\<exists>head req'. Request_Write M S req w = Some (None, req', w @ head @ Request_bodyBytes req) \<and>
     (\<forall>N P g r rest. 0 < rd_size r \<and> length head \<le> rd_size r \<and> [] \<notin> set (rd_src r) \<and>
          rd_buf r @ concat (rd_src r) = head @ Request_bodyBytes req @ rest \<longrightarrow>
        (\<exists>q r'. Request_ReadLimitBody N P (Request_Reset P g) r limit = Some (None, q, r') \<and>
           Request_bodyBytes q = Request_bodyBytes req \<and> q_method (rq_Header q) = RequestHeader_Method (rq_Header req) \<and>
           q_requestURI (rq_Header q) = RequestHeader_RequestURI (rq_Header req) \<and>
           q_proto (rq_Header q) = RequestHeader_Protocol (rq_Header req) \<and> q_host (rq_Header q) = q_host (rq_Header req) \<and>
           q_userAgent (rq_Header q) = q_userAgent (rq_Header req) \<and>
           q_contentType (rq_Header q) = sent_content_type (rq_Header req) \<and>
           q_contentLength (rq_Header q) = int (length (Request_bodyBytes req)) \<and>
           pairs (q_h (rq_Header q)) = pairs (q_h (rq_Header req)) @ sent_cookies (rq_Header req) \<and>
           rd_buf r' @ concat (rd_src r') = rest))"
proof -
  let ?h = "rq_Header req" and ?body = "Request_bodyBytes req"
  note p = assms(1) [unfolded plain_message_def]
  obtain hs where hs: "Request_Write M S req w =
      (let h1 = ?h\<lparr>q_contentLength := int (length ?body), q_contentLengthBytes := map digit_char (dec_digits (length ?body)), q_h := hs\<rparr>
       in Some (None, req\<lparr>rq_Header := h1\<rparr>, w @ RequestHeader_AppendBytes h1 [] @ ?body))" "fst hs = fst (q_h ?h)"
    using Request_Write_plain [OF assms(1), of M S w] by blast
  define h1 where "h1 = ?h\<lparr>q_contentLength := int (length ?body), q_contentLengthBytes := map digit_char (dec_digits (length ?body)), q_h := hs\<rparr>"
  have n: "length ?body < 2 ^ 63" using p by (simp add: maxAlloc_def)
  have ok: "sendable h1" unfolding h1_def by (rule sendable_length [OF _ n hs(2)]) (use p in simp)
  have same: "RequestHeader_Method h1 = RequestHeader_Method ?h" "RequestHeader_RequestURI h1 = RequestHeader_RequestURI ?h"
    "RequestHeader_Protocol h1 = RequestHeader_Protocol ?h" "sent_content_type h1 = sent_content_type ?h" "sent_cookies h1 = sent_cookies ?h"
    "q_contentLengthBytes h1 \<noteq> []" "pairs (q_h h1) = pairs (q_h ?h)"
    using dec_digits_nonempty hs(2)
    by (simp_all add: h1_def RequestHeader_Method_def RequestHeader_RequestURI_def RequestHeader_Protocol_def sent_content_type_def
        RequestHeader_ignoreBody_def RequestHeader_IsGet_def RequestHeader_IsHead_def sent_cookies_def)
  have "\<exists>q r'. Request_ReadLimitBody N P (Request_Reset P g) r limit = Some (None, q, r') \<and>
           Request_bodyBytes q = ?body \<and> q_method (rq_Header q) = RequestHeader_Method ?h \<and>
           q_requestURI (rq_Header q) = RequestHeader_RequestURI ?h \<and>
           q_proto (rq_Header q) = RequestHeader_Protocol ?h \<and> q_host (rq_Header q) = q_host ?h \<and>
           q_userAgent (rq_Header q) = q_userAgent ?h \<and> q_contentType (rq_Header q) = sent_content_type ?h \<and>
           q_contentLength (rq_Header q) = int (length ?body) \<and>
           pairs (q_h (rq_Header q)) = pairs (q_h ?h) @ sent_cookies ?h \<and> rd_buf r' @ concat (rd_src r') = rest"
    if r: "0 < rd_size r" "length (RequestHeader_AppendBytes h1 []) \<le> rd_size r" "[] \<notin> set (rd_src r)"
      "rd_buf r @ concat (rd_src r) = RequestHeader_AppendBytes h1 [] @ ?body @ rest" for N :: "'b multipart_lib" and P g r rest
  proof -
    define q0 where "q0 = Request_resetSkipHeader (Request_Reset P g)"
    have q0: "rq_Header q0 = RequestHeader_Reset (rq_Header g)" by (simp only: q0_def reset_header)
    from print_read [OF ok r(4,2), of "rq_Header g"] obtain h' r1 where
      rd: "RequestHeader_Read (rq_Header q0) r = Some (None, h', r1)" "rd_buf r1 @ concat (rd_src r1) = ?body @ rest" and
      h': "q_method h' = RequestHeader_Method ?h" "q_requestURI h' = RequestHeader_RequestURI ?h" "q_proto h' = RequestHeader_Protocol ?h"
        "q_host h' = q_host ?h" "q_userAgent h' = q_userAgent ?h" "q_contentType h' = sent_content_type ?h"
        "q_contentLength h' = int (length ?body)" "pairs (q_h h') = pairs (q_h ?h) @ sent_cookies ?h" "\<not> q_disableSpecialHeader h'"
      unfolding q0 using same by (auto simp: h1_def)
    have "stream r1 (rd_size r) (rd_end r) (?body @ rest)"
      using Read_header_reads(1) [OF disjI1 [OF rd(1)]] r(1,3) rd(2) by (simp add: stream_def reads_def)
    moreover have "RequestHeader_MultipartFormBoundary h' = None"
      using p h' by (simp add: RequestHeader_MultipartFormBoundary_def RequestHeader_ContentType_def)
    ultimately obtain q r' where c: "Request_ContinueReadBody N P (q0\<lparr>rq_Header := h'\<rparr>) r1 limit True = Some (None, q, r')"
      "rq_Header q = h'" "Request_bodyBytes q = ?body" "stream r' (rd_size r) (rd_end r) rest"
      using ContinueReadBody_fixed [of r1 "rd_size r" "rd_end r" ?body rest "q0\<lparr>rq_Header := h'\<rparr>" limit N P True] p h' assms(2) by auto
    have "strExpect \<notin> fst ` set (pairs (q_h h'))" using p h'(8) expect_cookie by (auto simp: sent_cookies_def split: if_splits)
    then have "\<not> Request_MayContinue (q0\<lparr>rq_Header := h'\<rparr>)"
      using peek_absent [of strExpect "q_h h'"] by (simp add: Request_MayContinue_def peek_expect str100Continue_def)
    then have "Request_ReadLimitBody N P (Request_Reset P g) r limit = Some (None, q, r')"
      using rd(1) c(1) by (simp add: Request_ReadLimitBody_def Request_readLimitBody_def q0_def [symmetric] Let_def)
    with c h' show ?thesis by (auto simp: stream_def)
  qed
  then show ?thesis unfolding hs(1) h1_def [symmetric] Let_def by blast
qed

definition data_request :: "unit Request" where
  "data_request = zero_request\<lparr>rq_Header := RequestHeader_SetHost (RequestHeader_SetMethod zero_request_header ''POST'') ''a.example'',
                               rq_bodyRaw := Some ''data''\<rparr>"

lemma data_request_text:
  "case RequestHeader_SetContentLength (rq_Header data_request) 4 of
     Some h \<Rightarrow> length (RequestHeader_AppendBytes h []) \<le> 4096 | None \<Rightarrow> False"
  by code_simp

theorem request_message_roundtrip_witness:
  "\<exists>head req' q r'. Request_Write no_forms (en_streams plain_env) data_request [] = Some (None, req', head @ ''data'') \<and>
      Request_ReadLimitBody no_forms some_pools (Request_Reset some_pools (zero_request :: unit Request))
         \<lparr>rd_buf = [], rd_src = [head @ ''da'', ''taGET'', '' /''], rd_end = Timeout, rd_size = 4096\<rparr> 4 = Some (None, q, r') \<and>
      Request_bodyBytes q = ''data'' \<and> q_method (rq_Header q) = ''POST'' \<and> q_host (rq_Header q) = ''a.example'' \<and>
      rd_buf r' @ concat (rd_src r') = ''GET /''"
proof -
  have h: "q_host (rq_Header data_request) = ''a.example''" "RequestHeader_Method (rq_Header data_request) = ''POST''"
    "Request_bodyBytes data_request = ''data''" by code_simp+
  have p: "plain_message data_request" by code_simp
  have "int (length (Request_bodyBytes data_request)) \<le> 4" by (simp add: h)
  from request_message_roundtrip [OF p this, of no_forms "en_streams plain_env" "[]"] obtain head req' where
    w: "Request_Write no_forms (en_streams plain_env) data_request [] = Some (None, req', [] @ head @ ''data'')" and
    r: "\<And>(N :: unit multipart_lib) P g r rest. 0 < rd_size r \<and> length head \<le> rd_size r \<and> [] \<notin> set (rd_src r) \<and>
          rd_buf r @ concat (rd_src r) = head @ ''data'' @ rest \<Longrightarrow>
        \<exists>q r'. Request_ReadLimitBody N P (Request_Reset P g) r 4 = Some (None, q, r') \<and>
           Request_bodyBytes q = ''data'' \<and> q_method (rq_Header q) = ''POST'' \<and> q_host (rq_Header q) = ''a.example'' \<and>
           rd_buf r' @ concat (rd_src r') = rest"
    unfolding h by blast
  obtain q where q: "set_length data_request 4 = Some q" "length (RequestHeader_AppendBytes (rq_Header q) []) \<le> 4096"
    using data_request_text by (cases "RequestHeader_SetContentLength (rq_Header data_request) 4") (auto simp: set_length_def)
  have "length head \<le> 4096" using Request_Write_length [OF p, of q no_forms "en_streams plain_env" "[]"] q w by (simp add: h(3))
  then show ?thesis using w r [of "\<lparr>rd_buf = [], rd_src = [head @ ''da'', ''taGET'', '' /''], rd_end = Timeout, rd_size = 4096\<rparr>" "''GET /''"
      no_forms some_pools zero_request] by simp
qed

end
