(* ===== verification/Conn_Queue.thy ===== *)
theory Conn_Queue
  imports Prelude
begin

text \<open>
  The queue of the callers of a client that wait for a connection (wantConnQueue of src/fasthttp/client.go): two
  lists, of which the first is read from a position on and the second takes the new elements. The locale \<open>fifo\<close> states
  the laws of a queue over the list it stands for, and what loops that take elements from its front leave; it is
  interpreted on the code's queue, whose clients only use these laws.
\<close>

section \<open>The interface\<close>

locale fifo =
  fixes to_list :: "'q \<Rightarrow> 'a list"
    and push :: "'q \<Rightarrow> 'a \<Rightarrow> 'q"
    and pop :: "'q \<Rightarrow> 'a option \<times> 'q"
    and peek :: "'q \<Rightarrow> 'a option"
    and size_of :: "'q \<Rightarrow> int"
  assumes push: "to_list (push q x) = to_list q @ [x]"
    and pop: "fst (pop q) = (case to_list q of [] \<Rightarrow> None | x # xs \<Rightarrow> Some x)" "to_list (snd (pop q)) = tl (to_list q)"
    and peek: "peek q = (case to_list q of [] \<Rightarrow> None | x # xs \<Rightarrow> Some x)"
    and size: "size_of q = int (length (to_list q))"
begin

lemma pop_Cons: "to_list q = x # xs \<Longrightarrow> fst (pop q) = Some x \<and> to_list (snd (pop q)) = xs"
  by (simp add: pop)

lemma peek_None: "peek q = None \<longleftrightarrow> to_list q = []"
  by (simp add: peek split: list.split)

text \<open>A loop that drops elements from the front until one is wanted.\<close>

lemma skip_front:
  assumes "\<And>q. f q = (case peek q of None \<Rightarrow> q | Some x \<Rightarrow> if P x then q else f (snd (pop q)))"
  shows "to_list (f q) = dropWhile (\<lambda>x. \<not> P x) (to_list q)"
proof (induction "to_list q" arbitrary: q)
  case Nil
  then show ?case by (simp add: assms [of q] peek flip: Nil)
next
  case (Cons x xs)
  show ?case
  proof (cases "P x")
    case True
    then show ?thesis by (simp add: assms [of q] peek flip: Cons(2))
  next
    case False
    have "to_list (f (snd (pop q))) = dropWhile (\<lambda>x. \<not> P x) xs"
      using Cons(1) [of "snd (pop q)"] pop_Cons [OF Cons(2) [symmetric]] by simp
    with False show ?thesis by (simp add: assms [of q] peek flip: Cons(2))
  qed
qed

text \<open>A loop that takes elements until one is wanted, and hands it out.\<close>

lemma take_front:
  assumes "\<And>q. f q = (if size_of q > 0 then
                   case pop q of (Some x, q') \<Rightarrow> if P x then (Some x, q') else f q' | (None, q') \<Rightarrow> (None, q')
                 else (None, q))"
  shows "fst (f q) = (case dropWhile (\<lambda>x. \<not> P x) (to_list q) of [] \<Rightarrow> None | x # xs \<Rightarrow> Some x) \<and>
         to_list (snd (f q)) = tl (dropWhile (\<lambda>x. \<not> P x) (to_list q))"
proof (induction "to_list q" arbitrary: q)
  case Nil
  then show ?case by (simp add: assms [of q] size flip: Nil)
next
  case (Cons x xs)
  have n: "0 < size_of q" unfolding size Cons(2) [symmetric] by simp
  have p: "pop q = (Some x, snd (pop q))" "to_list (snd (pop q)) = xs"
    using pop_Cons [OF Cons(2) [symmetric]] by (simp_all add: prod_eq_iff)
  show ?case
  proof (cases "P x")
    case True
    then have "f q = (Some x, snd (pop q))" using n by (subst assms, subst p(1)) simp
    with True p(2) show ?thesis by (simp flip: Cons(2))
  next
    case False
    then have "f q = f (snd (pop q))" using n by (subst assms, subst p(1)) simp
    with False Cons(1) [of "snd (pop q)"] p(2) show ?thesis by (simp flip: Cons(2))
  qed
qed

end

section \<open>The queue\<close>

text \<open>The code sets the entries of head before headPos to nil; they are never read.\<close>

record 'w wantConnQueue =
  head :: "'w list"
  headPos :: nat
  tail :: "'w list"

definition emptyQueue :: "'w wantConnQueue" where
  "emptyQueue = \<lparr>head = [], headPos = 0, tail = []\<rparr>"

definition queue_len :: "'w wantConnQueue \<Rightarrow> int" where
  "queue_len q = int (length (head q)) - int (headPos q) + int (length (tail q))"

definition pushBack :: "'w wantConnQueue \<Rightarrow> 'w \<Rightarrow> 'w wantConnQueue" where
  "pushBack q w = q\<lparr>tail := tail q @ [w]\<rparr>"

definition popFront :: "'w wantConnQueue \<Rightarrow> 'w option \<times> 'w wantConnQueue" where
  "popFront q =
     (if headPos q \<ge> length (head q) then
        if length (tail q) = 0 then (None, q)
        else (Some (tail q ! 0), \<lparr>head = tail q, headPos = 1, tail = []\<rparr>)
      else (Some (head q ! headPos q), q\<lparr>headPos := headPos q + 1\<rparr>))"

definition peekFront :: "'w wantConnQueue \<Rightarrow> 'w option" where
  "peekFront q =
     (if headPos q < length (head q) then Some (head q ! headPos q)
      else if length (tail q) > 0 then Some (tail q ! 0) else None)"

text \<open>The position never passes the end of the first list.\<close>

definition queue_ok :: "'w wantConnQueue \<Rightarrow> bool" where
  "queue_ok q \<longleftrightarrow> headPos q \<le> length (head q)"

lemma queue_ok: "queue_ok emptyQueue" "queue_ok (pushBack q w) = queue_ok q" "queue_ok q \<Longrightarrow> queue_ok (snd (popFront q))"
  by (auto simp: queue_ok_def emptyQueue_def pushBack_def popFront_def Suc_le_eq)

text \<open>The queues the code can build are a type of their own, on which the laws hold without a condition.\<close>

typedef 'w conn_queue = "{q :: 'w wantConnQueue. queue_ok q}"
  using queue_ok(1) by blast

setup_lifting type_definition_conn_queue

lift_definition q_empty :: "'w conn_queue" is emptyQueue
  by (rule queue_ok)

lift_definition q_list :: "'w conn_queue \<Rightarrow> 'w list" is "\<lambda>q. drop (headPos q) (head q) @ tail q" .

lift_definition q_len :: "'w conn_queue \<Rightarrow> int" is queue_len .

lift_definition q_push :: "'w conn_queue \<Rightarrow> 'w \<Rightarrow> 'w conn_queue" is pushBack
  by (simp add: queue_ok)

lift_definition q_next :: "'w conn_queue \<Rightarrow> 'w option" is "\<lambda>q. fst (popFront q)" .

lift_definition q_rest :: "'w conn_queue \<Rightarrow> 'w conn_queue" is "\<lambda>q. snd (popFront q)"
  by (rule queue_ok)

lift_definition q_peek :: "'w conn_queue \<Rightarrow> 'w option" is peekFront .

instantiation conn_queue :: (equal) equal
begin

lift_definition equal_conn_queue :: "'a conn_queue \<Rightarrow> 'a conn_queue \<Rightarrow> bool" is "HOL.equal" .

instance
  by standard (transfer, simp add: equal_eq)

end

definition q_pop :: "'w conn_queue \<Rightarrow> 'w option \<times> 'w conn_queue" where
  "q_pop q = (q_next q, q_rest q)"

lemma q_list_empty [simp]: "q_list q_empty = []"
  by transfer (simp add: emptyQueue_def)

interpretation conn_fifo: fifo q_list q_push q_pop q_peek q_len
proof unfold_locales
  fix q :: "'a conn_queue" and x
  show "q_list (q_push q x) = q_list q @ [x]" by transfer (simp add: pushBack_def queue_ok_def)
  show "fst (q_pop q) = (case q_list q of [] \<Rightarrow> None | x # xs \<Rightarrow> Some x)"
    unfolding q_pop_def fst_conv
    by transfer (auto simp: popFront_def queue_ok_def Cons_nth_drop_Suc [symmetric] neq_Nil_conv split: list.splits)
  show "q_list (snd (q_pop q)) = tl (q_list q)"
    unfolding q_pop_def snd_conv
    by transfer (auto simp: popFront_def queue_ok_def Cons_nth_drop_Suc [symmetric] drop_Suc tl_drop)
  show "q_peek q = (case q_list q of [] \<Rightarrow> None | x # xs \<Rightarrow> Some x)"
    by transfer (auto simp: peekFront_def queue_ok_def Cons_nth_drop_Suc [symmetric] neq_Nil_conv split: list.splits)
  show "q_len q = int (length (q_list q))" by transfer (simp add: queue_len_def queue_ok_def)
qed

section \<open>The loops over it\<close>

text \<open>clearFront drops the callers that no longer wait; decConnsCount and releaseConn take callers until one waits.\<close>

function clearFront :: "('w \<Rightarrow> bool) \<Rightarrow> 'w conn_queue \<Rightarrow> 'w conn_queue" where
  "clearFront waiting q =
     (case q_peek q of
        None \<Rightarrow> q
      | Some w \<Rightarrow> if waiting w then q else clearFront waiting (snd (q_pop q)))"
  by pat_completeness auto
termination
  by (relation "measure (\<lambda>(waiting, q). length (q_list q))") (auto simp: conn_fifo.pop conn_fifo.peek split: list.splits)

function popWaiting :: "('w \<Rightarrow> bool) \<Rightarrow> 'w conn_queue \<Rightarrow> 'w option \<times> 'w conn_queue" where
  "popWaiting waiting q =
     (if q_len q > 0 then
        case q_pop q of
          (Some w, q') \<Rightarrow> if waiting w then (Some w, q') else popWaiting waiting q'
        | (None, q') \<Rightarrow> (None, q')
      else (None, q))"
  by pat_completeness auto
termination
proof (relation "measure (\<lambda>(waiting, q). length (q_list q))", goal_cases)
  case (2 waiting q x q' w)
  then have "q_list q' = tl (q_list q)" "q_list q \<noteq> []" using conn_fifo.pop(2) [of q] by (auto simp: conn_fifo.size simp flip: 2(2))
  then show ?case by simp
qed simp

declare clearFront.simps [simp del] popWaiting.simps [simp del]

lemma clearFront_list [simp]: "q_list (clearFront waiting q) = dropWhile (\<lambda>w. \<not> waiting w) (q_list q)"
  by (rule conn_fifo.skip_front) (rule clearFront.simps)

lemma popWaiting_spec:
  "fst (popWaiting waiting q) = (case dropWhile (\<lambda>w. \<not> waiting w) (q_list q) of [] \<Rightarrow> None | w # ws \<Rightarrow> Some w) \<and>
   q_list (snd (popWaiting waiting q)) = tl (dropWhile (\<lambda>w. \<not> waiting w) (q_list q))"
  by (rule conn_fifo.take_front) (rule popWaiting.simps)

text \<open>The caller that is taken waits, and those skipped before it did not.\<close>

lemma popWaiting_cases:
  assumes "popWaiting waiting q = (found, q')"
  obtains (none) "found = None" "q_list q' = []" "\<forall>w\<in>set (q_list q). \<not> waiting w"
    | (some) w ws where "found = Some w" "waiting w" "q_list q = ws @ w # q_list q'" "\<forall>w\<in>set ws. \<not> waiting w"
proof -
  let ?d = "dropWhile (\<lambda>w. \<not> waiting w) (q_list q)"
  note spec = popWaiting_spec [of waiting q, unfolded assms]
  show thesis
  proof (cases ?d)
    case Nil
    with spec show thesis by (intro none) (auto simp: dropWhile_eq_Nil_conv)
  next
    case (Cons w ws)
    have "q_list q = takeWhile (\<lambda>w. \<not> waiting w) (q_list q) @ w # ws" by (metis Cons takeWhile_dropWhile_id)
    moreover have "waiting w" using Cons by (metis dropWhile_eq_Cons_conv)
    ultimately show thesis
      using spec Cons by (intro some [of w "takeWhile (\<lambda>w. \<not> waiting w) (q_list q)"]) (auto dest: set_takeWhileD)
  qed
qed

end
