(* ===== verification/Client_Pool.thy ===== *)
theory Client_Pool
  imports Conn_Queue "HOL-Library.Multiset"
begin

text \<open>
  The connections of a client to one host (HostClient of src/fasthttp/client.go): idle connections, the limit,
  callers that wait, dialing, the cleaner. Goroutines share the fields under connsLock and, for a caller that waits,
  under the lock of its wantConn; the model is a transition system whose steps are the critical sections, in
  any interleaving. Fields after \<open>connsCleanerRun\<close> are what the goroutines have in their hands: callers that
  wait (\<open>wants\<close>, a wantConn is an index), dials of acquireConn (\<open>dials\<close>) and of dialConnFor (\<open>dialFor\<close>), connections
  of callers (\<open>held\<close>), the delivery releaseConn is about to do under the lock (\<open>giving\<close>), calls of decConnsCount
  that are still to come (\<open>leaving\<close>), connections about to be closed (\<open>shutting\<close>) and closed (\<open>closed\<close>), cleaners.
  Network connections are numbered in the order in which they were dialed; times are integers.
\<close>

section \<open>State\<close>

datatype ConnPoolStrategyType = FIFO | LIFO | OtherStrategy

datatype client_err = DialErr | ErrTimeout | ErrNoFreeConns | ErrConnPoolStrategyNotImpl

record clientConn =
  cc_c :: nat
  createdTime :: int
  lastUseTime :: int

datatype caller = Created | Queued | Returned

text \<open>A caller that wants a connection: what was delivered, whether the channel was closed; the rest is the state of
  the caller itself.\<close>

record wantConn =
  w_conn :: "clientConn option"
  w_err :: "client_err option"
  w_ready :: bool
  w_caller :: caller
  w_overridden :: bool

record client_pool =
  MaxConns :: int
  MaxConnWaitTimeout :: int
  MaxIdleConnDuration :: int
  ConnPoolStrategy :: ConnPoolStrategyType
  connsCount :: int
  conns :: "clientConn list"
  connsWait :: "nat conn_queue"
  connsCleanerRun :: bool
  wants :: "wantConn list"
  dials :: nat
  dialFor :: "nat list"
  held :: "clientConn list"
  giving :: "(clientConn \<times> nat) option"
  leaving :: "clientConn option list"
  shutting :: "clientConn list"
  closed :: "nat list"
  opened :: nat
  cleaners :: nat
  limit :: int

definition DefaultMaxConnsPerHost :: int where "DefaultMaxConnsPerHost = 512"
definition DefaultMaxIdleConnDuration :: int where "DefaultMaxIdleConnDuration = 10 * 10 ^ 9"

definition effectiveMaxConns :: "int \<Rightarrow> int" where
  "effectiveMaxConns n = (if n \<le> 0 then DefaultMaxConnsPerHost else n)"

definition waiting :: "client_pool \<Rightarrow> nat \<Rightarrow> bool" where
  "waiting p w \<longleftrightarrow> \<not> w_ready (wants p ! w)"

definition set_want :: "nat \<Rightarrow> wantConn \<Rightarrow> client_pool \<Rightarrow> client_pool" where
  "set_want w v p = p\<lparr>wants := (wants p)[w := v]\<rparr>"

definition acquireClientConn :: "nat \<Rightarrow> int \<Rightarrow> clientConn" where
  "acquireClientConn c now = \<lparr>cc_c = c, createdTime = now, lastUseTime = 0\<rparr>"

section \<open>Critical sections\<close>

text \<open>The first section of acquireConn and what it decides: a connection, a dial and whether a cleaner is started, an
  error, or to wait.\<close>

datatype acquired = Got clientConn | Dial bool | Fail client_err | Wait bool

definition acquireConn :: "int \<Rightarrow> bool \<Rightarrow> client_pool \<Rightarrow> client_pool \<times> acquired" where
  "acquireConn reqTimeout connectionClose p =
     (let n = length (conns p)
      in if n = 0 then
           if connsCount p < effectiveMaxConns (MaxConns p) then
             let start = (\<not> connsCleanerRun p \<and> \<not> connectionClose)
             in (p\<lparr>connsCount := connsCount p + 1, connsCleanerRun := (connsCleanerRun p \<or> start)\<rparr>, Dial start)
           else if MaxConnWaitTimeout p \<le> 0 then (p, Fail ErrNoFreeConns)
           else (p, Wait (reqTimeout > 0 \<and> reqTimeout < MaxConnWaitTimeout p))
         else
           case ConnPoolStrategy p of
             LIFO \<Rightarrow> (p\<lparr>conns := take (n - 1) (conns p)\<rparr>, Got (conns p ! (n - 1)))
           | FIFO \<Rightarrow> (p\<lparr>conns := drop 1 (conns p)\<rparr>, Got (conns p ! 0))
           | OtherStrategy \<Rightarrow> (p, Fail ErrConnPoolStrategyNotImpl))"

definition acquire :: "int \<Rightarrow> bool \<Rightarrow> client_pool \<Rightarrow> client_pool" where
  "acquire reqTimeout connectionClose p =
     (case acquireConn reqTimeout connectionClose p of
        (p, Got cc) \<Rightarrow> p\<lparr>held := held p @ [cc]\<rparr>
      | (p, Dial start) \<Rightarrow> p\<lparr>dials := dials p + 1, cleaners := cleaners p + (if start then 1 else 0)\<rparr>
      | (p, Fail e) \<Rightarrow> p
      | (p, Wait overridden) \<Rightarrow>
          p\<lparr>wants := wants p @ [\<lparr>w_conn = None, w_err = None, w_ready = False, w_caller = Created, w_overridden = overridden\<rparr>]\<rparr>)"

definition queueForIdle :: "nat \<Rightarrow> client_pool \<Rightarrow> client_pool" where
  "queueForIdle w p =
     set_want w ((wants p ! w)\<lparr>w_caller := Queued\<rparr>) (p\<lparr>connsWait := q_push (clearFront (waiting p) (connsWait p)) w\<rparr>)"

text \<open>Closing a closed channel panics.\<close>

definition tryDeliver :: "nat \<Rightarrow> clientConn option \<Rightarrow> client_err option \<Rightarrow> client_pool \<Rightarrow> (client_pool \<times> bool) go" where
  "tryDeliver w conn err p =
     (let v = wants p ! w
      in if w_conn v \<noteq> None \<or> w_err v \<noteq> None then Some (p, False)
         else if conn = None \<and> err = None then None
         else if w_ready v then None
         else Some (set_want w (v\<lparr>w_conn := conn, w_err := err, w_ready := True\<rparr>) p, True))"

text \<open>The connection to release goes to the hands of the caller.\<close>

definition cancel :: "nat \<Rightarrow> client_err \<Rightarrow> client_pool \<Rightarrow> client_pool go" where
  "cancel w err p =
     (let v = wants p ! w
      in if w_conn v = None \<and> w_err v = None \<and> w_ready v then None
         else Some (set_want w (v\<lparr>w_conn := None, w_err := Some err, w_ready := True, w_caller := Returned\<rparr>)
                      (p\<lparr>held := held p @ (case w_conn v of None \<Rightarrow> [] | Some cc \<Rightarrow> [cc])\<rparr>)))"

text \<open>The two ways out of the select of acquireConn; an error that was delivered is passed to cancel too, and there
  is nothing to give back then.\<close>

definition wait_ready :: "nat \<Rightarrow> client_pool \<Rightarrow> client_pool go" where
  "wait_ready w p =
     (let v = wants p ! w
      in case w_err v of
           Some e \<Rightarrow> cancel w e p
         | None \<Rightarrow> Some (set_want w (v\<lparr>w_caller := Returned\<rparr>)
                           (p\<lparr>held := held p @ (case w_conn v of None \<Rightarrow> [] | Some cc \<Rightarrow> [cc])\<rparr>)))"

definition wait_timeout :: "nat \<Rightarrow> client_pool \<Rightarrow> client_pool go" where
  "wait_timeout w p = cancel w (if w_overridden (wants p ! w) then ErrTimeout else ErrNoFreeConns) p"

definition decConnsCount :: "client_pool \<Rightarrow> client_pool" where
  "decConnsCount p =
     (if MaxConnWaitTimeout p \<le> 0 then p\<lparr>connsCount := connsCount p - 1\<rparr>
      else
        case popWaiting (waiting p) (connsWait p) of
          (Some w, q) \<Rightarrow> p\<lparr>connsWait := q, dialFor := dialFor p @ [w]\<rparr>
        | (None, q) \<Rightarrow> p\<lparr>connsWait := q, connsCount := connsCount p - 1\<rparr>)"

text \<open>A dial of acquireConn.\<close>

definition dial_ok :: "int \<Rightarrow> client_pool \<Rightarrow> client_pool" where
  "dial_ok now p = p\<lparr>dials := dials p - 1, held := held p @ [acquireClientConn (opened p) now], opened := opened p + 1\<rparr>"

definition dial_fail :: "client_pool \<Rightarrow> client_pool" where
  "dial_fail p = p\<lparr>dials := dials p - 1, leaving := leaving p @ [None]\<rparr>"

text \<open>dialConnFor, after its dial; what is not delivered is released.\<close>

definition dialConnFor :: "nat \<Rightarrow> int option \<Rightarrow> client_pool \<Rightarrow> client_pool go" where
  "dialConnFor w conn p =
     (let p = p\<lparr>dialFor := remove1 w (dialFor p)\<rparr>
      in case conn of
           None \<Rightarrow> map_option (\<lambda>(p, _). p\<lparr>leaving := leaving p @ [None]\<rparr>) (tryDeliver w None (Some DialErr) p)
         | Some now \<Rightarrow>
             let cc = acquireClientConn (opened p) now; p = p\<lparr>opened := opened p + 1\<rparr>
             in map_option (\<lambda>(p, delivered). if delivered then p else p\<lparr>held := held p @ [cc]\<rparr>) (tryDeliver w (Some cc) None p))"

text \<open>releaseConn up to the delivery to the first caller that waits, and the delivery. The caller may give up
  in between.\<close>

definition releaseConn :: "clientConn \<Rightarrow> int \<Rightarrow> client_pool \<Rightarrow> client_pool" where
  "releaseConn cc now p =
     (let p = p\<lparr>held := remove1 cc (held p)\<rparr>; cc = cc\<lparr>lastUseTime := now\<rparr>
      in if MaxConnWaitTimeout p \<le> 0 then p\<lparr>conns := conns p @ [cc]\<rparr>
         else
           case popWaiting (waiting p) (connsWait p) of
             (Some w, q) \<Rightarrow> p\<lparr>connsWait := q, giving := Some (cc, w)\<rparr>
           | (None, q) \<Rightarrow> p\<lparr>connsWait := q, conns := conns p @ [cc]\<rparr>)"

definition release_deliver :: "clientConn \<Rightarrow> nat \<Rightarrow> client_pool \<Rightarrow> client_pool go" where
  "release_deliver cc w p =
     map_option (\<lambda>(p, delivered). (if delivered then p else p\<lparr>conns := conns p @ [cc]\<rparr>)\<lparr>giving := None\<rparr>)
       (tryDeliver w (Some cc) None p)"

text \<open>closeConn counts the connection out before it closes it.\<close>

definition closeConn :: "clientConn \<Rightarrow> client_pool \<Rightarrow> client_pool" where
  "closeConn cc p = p\<lparr>held := remove1 cc (held p), leaving := leaving p @ [Some cc]\<rparr>"

definition leave :: "clientConn option \<Rightarrow> client_pool \<Rightarrow> client_pool" where
  "leave x p =
     (let p = decConnsCount (p\<lparr>leaving := remove1 x (leaving p)\<rparr>)
      in case x of None \<Rightarrow> p | Some cc \<Rightarrow> p\<lparr>shutting := shutting p @ [cc]\<rparr>)"

definition shut :: "clientConn \<Rightarrow> client_pool \<Rightarrow> client_pool" where
  "shut cc p = p\<lparr>shutting := remove1 cc (shutting p), closed := closed p @ [cc_c cc]\<rparr>"

definition CloseIdleConnections :: "client_pool \<Rightarrow> client_pool" where
  "CloseIdleConnections p = p\<lparr>conns := [], leaving := leaving p @ map Some (conns p)\<rparr>"

text \<open>One round of the cleaner: the connections at the front that were idle for too long. It ends when no
  connection is counted.\<close>

definition connsCleaner :: "int \<Rightarrow> client_pool \<Rightarrow> client_pool" where
  "connsCleaner now p =
     (let d = (if MaxIdleConnDuration p \<le> 0 then DefaultMaxIdleConnDuration else MaxIdleConnDuration p);
          i = length (takeWhile (\<lambda>cc. now - lastUseTime cc > d) (conns p))
      in p\<lparr>conns := drop i (conns p), leaving := leaving p @ map Some (take i (conns p))\<rparr>)"

definition cleaner_stop :: "client_pool \<Rightarrow> client_pool" where
  "cleaner_stop p = (if connsCount p = 0 then p\<lparr>connsCleanerRun := False, cleaners := cleaners p - 1\<rparr> else p)"

definition SetMaxConns :: "int \<Rightarrow> client_pool \<Rightarrow> client_pool" where
  "SetMaxConns n p = p\<lparr>MaxConns := n, limit := max (limit p) (effectiveMaxConns n)\<rparr>"

section \<open>Interleavings\<close>

text \<open>Sections under connsLock wait for a delivery of releaseConn.\<close>

inductive client_step :: "client_pool \<Rightarrow> client_pool \<Rightarrow> bool" where
  Acquire: "giving p = None \<Longrightarrow> client_step p (acquire reqTimeout connectionClose p)"
| Queue: "giving p = None \<Longrightarrow> w < length (wants p) \<Longrightarrow> w_caller (wants p ! w) = Created \<Longrightarrow> client_step p (queueForIdle w p)"
| WaitReady: "w < length (wants p) \<Longrightarrow> w_caller (wants p ! w) = Queued \<Longrightarrow> w_ready (wants p ! w) \<Longrightarrow>
    wait_ready w p = Some p' \<Longrightarrow> client_step p p'"
| WaitTimeout: "w < length (wants p) \<Longrightarrow> w_caller (wants p ! w) = Queued \<Longrightarrow> wait_timeout w p = Some p' \<Longrightarrow> client_step p p'"
| DialOk: "0 < dials p \<Longrightarrow> client_step p (dial_ok now p)"
| DialFail: "0 < dials p \<Longrightarrow> client_step p (dial_fail p)"
| DialFor: "w \<in> set (dialFor p) \<Longrightarrow> dialConnFor w conn p = Some p' \<Longrightarrow> client_step p p'"
| Release: "giving p = None \<Longrightarrow> cc \<in> set (held p) \<Longrightarrow> client_step p (releaseConn cc now p)"
| Deliver: "giving p = Some (cc, w) \<Longrightarrow> release_deliver cc w p = Some p' \<Longrightarrow> client_step p p'"
| Close: "cc \<in> set (held p) \<Longrightarrow> client_step p (closeConn cc p)"
| Leave: "giving p = None \<Longrightarrow> x \<in> set (leaving p) \<Longrightarrow> client_step p (leave x p)"
| Shut: "cc \<in> set (shutting p) \<Longrightarrow> client_step p (shut cc p)"
| CloseIdle: "giving p = None \<Longrightarrow> client_step p (CloseIdleConnections p)"
| Clean: "giving p = None \<Longrightarrow> 0 < cleaners p \<Longrightarrow> client_step p (connsCleaner now p)"
| CleanerStop: "giving p = None \<Longrightarrow> 0 < cleaners p \<Longrightarrow> client_step p (cleaner_stop p)"
| SetMax: "giving p = None \<Longrightarrow> client_step p (SetMaxConns n p)"

definition new_client :: "int \<Rightarrow> int \<Rightarrow> int \<Rightarrow> ConnPoolStrategyType \<Rightarrow> client_pool" where
  "new_client maxConns maxWait maxIdle strategy =
     \<lparr>MaxConns = maxConns, MaxConnWaitTimeout = maxWait, MaxIdleConnDuration = maxIdle, ConnPoolStrategy = strategy,
      connsCount = 0, conns = [], connsWait = q_empty, connsCleanerRun = False, wants = [], dials = 0, dialFor = [],
      held = [], giving = None, leaving = [], shutting = [], closed = [], opened = 0, cleaners = 0,
      limit = effectiveMaxConns maxConns\<rparr>"

inductive client_reach :: "client_pool \<Rightarrow> bool" where
  init: "client_reach (new_client maxConns maxWait maxIdle strategy)"
| step: "client_reach p \<Longrightarrow> client_step p p' \<Longrightarrow> client_reach p'"

end
