(* ===== verification/Client_Pool_Correct.thy ===== *)
theory Client_Pool_Correct
  imports Client_Pool
begin

text \<open>
  What holds of the connections of a client in every interleaving of \<open>Client_Pool\<close>: every connection is in exactly one
  place, the counter counts them, no channel is closed twice, one cleaner at most. Two defects of the protocol
  are reachable states.
\<close>

section \<open>The invariant\<close>

definition given :: "wantConn \<Rightarrow> clientConn list" where
  "given v = (if w_caller v = Returned then [] else case w_conn v of None \<Rightarrow> [] | Some cc \<Rightarrow> [cc])"

definition in_giving :: "client_pool \<Rightarrow> clientConn list" where
  "in_giving p = (case giving p of None \<Rightarrow> [] | Some (cc, w) \<Rightarrow> [cc])"

definition leaver :: "clientConn option \<Rightarrow> clientConn list" where
  "leaver x = (case x of None \<Rightarrow> [] | Some cc \<Rightarrow> [cc])"

text \<open>The connections that are counted: idle, in the hands of a caller, on their way to a caller, about to leave.\<close>

definition counted :: "client_pool \<Rightarrow> clientConn list" where
  "counted p = conns p @ held p @ in_giving p @ concat (map given (wants p)) @ concat (map leaver (leaving p))"

definition failed_dials :: "client_pool \<Rightarrow> nat" where
  "failed_dials p = length (filter (\<lambda>x. x = None) (leaving p))"

definition count_ok :: "client_pool \<Rightarrow> bool" where
  "count_ok p \<longleftrightarrow>
     connsCount p = int (dials p + length (dialFor p) + failed_dials p + length (counted p)) \<and>
     connsCount p \<le> limit p \<and> effectiveMaxConns (MaxConns p) \<le> limit p"

definition conns_ok :: "client_pool \<Rightarrow> bool" where
  "conns_ok p \<longleftrightarrow> mset (map cc_c (counted p @ shutting p)) + mset (closed p) = mset [0..<opened p]"

definition want_ok :: "wantConn \<Rightarrow> bool" where
  "want_ok v \<longleftrightarrow> w_ready v = (w_conn v \<noteq> None \<or> w_err v \<noteq> None) \<and> (w_caller v = Returned \<longrightarrow> w_ready v)"

definition wants_ok :: "client_pool \<Rightarrow> bool" where
  "wants_ok p \<longleftrightarrow> (\<forall>v\<in>set (wants p). want_ok v) \<and>
     set (q_list (connsWait p)) \<union> set (dialFor p) \<union> (case giving p of None \<Rightarrow> {} | Some (cc, w) \<Rightarrow> {w}) \<subseteq> {..<length (wants p)}"

definition cleaner_ok :: "client_pool \<Rightarrow> bool" where
  "cleaner_ok p \<longleftrightarrow> cleaners p = (if connsCleanerRun p then 1 else 0)"

definition client_ok :: "client_pool \<Rightarrow> bool" where
  "client_ok p \<longleftrightarrow> count_ok p \<and> conns_ok p \<and> wants_ok p \<and> cleaner_ok p"

section \<open>Every step keeps it\<close>

lemma concat_update:
  "i < length xs \<Longrightarrow> mset (concat (map f (xs[i := y]))) + mset (f (xs ! i)) = mset (concat (map f xs)) + mset (f y)"
proof (induction xs arbitrary: i)
  case (Cons x xs)
  show ?case
  proof (cases i)
    case 0
    then show ?thesis by (simp add: ac_simps)
  next
    case (Suc k)
    with Cons.IH [of k] Cons.prems show ?thesis by (simp add: union_assoc)
  qed
qed simp

lemma concat_remove1:
  "x \<in> set xs \<Longrightarrow> mset (concat (map f (remove1 x xs))) + mset (f x) = mset (concat (map f xs))"
  by (induction xs) auto

lemma failed_remove1:
  "x \<in> set xs \<Longrightarrow> length (filter (\<lambda>x. x = None) (remove1 x xs)) + (if x = None then 1 else 0) = length (filter (\<lambda>x. x = None) xs)"
  by (induction xs) auto

lemma set_want_counted:
  assumes "w < length (wants p)"
  shows "mset (counted (set_want w v p)) + mset (given (wants p ! w)) = mset (counted p) + mset (given v)"
  using concat_update [OF assms, of given v] by (simp add: counted_def set_want_def in_giving_def union_assoc add.commute)

lemma set_want_simps [simp]:
  "conns (set_want w v p) = conns p" "held (set_want w v p) = held p" "giving (set_want w v p) = giving p"
  "leaving (set_want w v p) = leaving p" "shutting (set_want w v p) = shutting p" "closed (set_want w v p) = closed p"
  "opened (set_want w v p) = opened p" "dials (set_want w v p) = dials p" "dialFor (set_want w v p) = dialFor p"
  "connsCount (set_want w v p) = connsCount p" "limit (set_want w v p) = limit p" "MaxConns (set_want w v p) = MaxConns p"
  "cleaners (set_want w v p) = cleaners p" "connsCleanerRun (set_want w v p) = connsCleanerRun p"
  "connsWait (set_want w v p) = connsWait p" "wants (set_want w v p) = (wants p)[w := v]"
  by (simp_all add: set_want_def)

text \<open>The invariant in terms of what a step does to the multisets: it moves \<open>D\<close> from the counted connections to \<open>S\<close>,
  and the counters follow.\<close>

lemma count_okI:
  assumes "count_ok p" and "mset (counted p') + D = mset (counted p) + A"
    and "connsCount p' - connsCount p = int (dials p' + length (dialFor p') + failed_dials p' + size A) - int (dials p + length (dialFor p) + failed_dials p + size D)"
    and "connsCount p' \<le> connsCount p \<or> connsCount p' \<le> limit p'" and "limit p \<le> limit p'" and "effectiveMaxConns (MaxConns p') \<le> limit p'"
  shows "count_ok p'"
proof -
  have "size (mset (counted p')) + size D = size (mset (counted p)) + size A" by (metis assms(2) size_union)
  then show ?thesis using assms(1,3-) by (simp add: count_ok_def; linarith)
qed

lemma conns_okI:
  assumes "conns_ok p" and "mset (counted p') + D = mset (counted p) + A"
    and "image_mset cc_c (mset (shutting p')) + mset (closed p') + image_mset cc_c A + mset [0..<opened p] =
         image_mset cc_c (mset (shutting p)) + mset (closed p) + image_mset cc_c D + mset [0..<opened p']"
  shows "conns_ok p'"
proof -
  have a: "image_mset cc_c (mset (counted p')) + image_mset cc_c D = image_mset cc_c (mset (counted p)) + image_mset cc_c A"
    by (metis assms(2) image_mset_union)
  have b: "image_mset cc_c (mset (counted p)) + image_mset cc_c (mset (shutting p)) + mset (closed p) = mset [0..<opened p]"
    using assms(1) by (simp add: conns_ok_def)
  have "mset (map cc_c (counted p' @ shutting p')) + mset (closed p') = mset [0..<opened p']"
  proof (rule multiset_eqI)
    fix c
    from a have "count (image_mset cc_c (mset (counted p'))) c + count (image_mset cc_c D) c =
        count (image_mset cc_c (mset (counted p))) c + count (image_mset cc_c A) c" by (metis count_union)
    moreover from b have "count (image_mset cc_c (mset (counted p))) c + count (image_mset cc_c (mset (shutting p))) c +
        count (mset (closed p)) c = count (mset [0..<opened p]) c" by (metis count_union)
    moreover from assms(3) have "count (image_mset cc_c (mset (shutting p'))) c + count (mset (closed p')) c + count (image_mset cc_c A) c +
        count (mset [0..<opened p]) c = count (image_mset cc_c (mset (shutting p))) c + count (mset (closed p)) c +
        count (image_mset cc_c D) c + count (mset [0..<opened p']) c" by (metis count_union)
    ultimately have "count (image_mset cc_c (mset (counted p'))) c + count (image_mset cc_c (mset (shutting p'))) c +
        count (mset (closed p')) c = count (mset [0..<opened p']) c" by linarith
    then show "count (mset (map cc_c (counted p' @ shutting p')) + mset (closed p')) c = count (mset [0..<opened p']) c"
      by (simp del: mset_upt)
  qed
  then show ?thesis by (simp add: conns_ok_def)
qed

definition pool_ok :: "client_pool \<Rightarrow> bool" where
  "pool_ok p \<longleftrightarrow> count_ok p \<and> conns_ok p"

text \<open>A step that dials nothing new and closes nothing.\<close>

lemma pool_okI:
  assumes "pool_ok p" and "mset (counted p') + D = mset (counted p) + A"
    and "connsCount p' - connsCount p = int (dials p' + length (dialFor p') + failed_dials p' + size A) - int (dials p + length (dialFor p) + failed_dials p + size D)"
    and "connsCount p' \<le> connsCount p \<or> connsCount p' \<le> limit p'" and "limit p \<le> limit p'" and "effectiveMaxConns (MaxConns p') \<le> limit p'"
    and "image_mset cc_c (mset (shutting p')) + mset (closed p') + image_mset cc_c A + mset [0..<opened p] =
         image_mset cc_c (mset (shutting p)) + mset (closed p) + image_mset cc_c D + mset [0..<opened p']"
  shows "pool_ok p'"
  using count_okI [OF _ assms(2-6)] conns_okI [OF _ assms(2,7)] assms(1) by (simp add: pool_ok_def)

lemma pool_ok_limit: "pool_ok p \<Longrightarrow> effectiveMaxConns (MaxConns p) \<le> limit p \<and> connsCount p \<le> limit p"
  by (simp add: pool_ok_def count_ok_def)

lemma acquire_pool:
  assumes "pool_ok p"
  shows "pool_ok (acquire t c p)"
proof (rule pool_okI [OF assms, of _ "{#}" "{#}"])
  have "conns p \<noteq> [] \<Longrightarrow> mset (take (length (conns p) - Suc 0) (conns p)) + {#conns p ! (length (conns p) - Suc 0)#} = mset (conns p)"
    by (metis One_nat_def append_butlast_last_id butlast_conv_take last_conv_nth mset_append mset_single_iff_right mset.simps(1) mset.simps(2) add.left_neutral)
  moreover have "conns p \<noteq> [] \<Longrightarrow> mset (drop (Suc 0) (conns p)) + {#conns p ! 0#} = mset (conns p)"
    by (cases "conns p") auto
  ultimately show "mset (counted (acquire t c p)) + {#} = mset (counted p) + {#}"
    by (auto simp: acquire_def acquireConn_def Let_def counted_def in_giving_def given_def union_assoc split: ConnPoolStrategyType.split)
qed (use pool_ok_limit [OF assms] in \<open>auto simp: acquire_def acquireConn_def Let_def failed_dials_def split: ConnPoolStrategyType.split\<close>)

text \<open>Delivery and cancellation never close a channel twice.\<close>

lemma wants_okD:
  assumes "wants_ok p"
  shows "w < length (wants p) \<Longrightarrow> want_ok (wants p ! w)" and "w \<in> set (dialFor p) \<Longrightarrow> w < length (wants p)"
    and "w \<in> set (q_list (connsWait p)) \<Longrightarrow> w < length (wants p)" and "giving p = Some (cc, w) \<Longrightarrow> w < length (wants p)"
  using assms by (auto simp: wants_ok_def)

lemma tryDeliver_cases:
  assumes "wants_ok p" and "w < length (wants p)" and "conn \<noteq> None \<or> err \<noteq> None" and "conn = None \<or> err = None"
  obtains (no) "tryDeliver w conn err p = Some (p, False)" "w_ready (wants p ! w)"
    | (yes) "tryDeliver w conn err p =
        Some (set_want w ((wants p ! w)\<lparr>w_conn := conn, w_err := err, w_ready := True\<rparr>) p, True)"
      "given (wants p ! w) = []" "given ((wants p ! w)\<lparr>w_conn := conn, w_err := err, w_ready := True\<rparr>) = leaver conn"
  using wants_okD(1) [OF assms(1,2)] assms(3,4) no yes
  by (cases "w_conn (wants p ! w) = None \<and> w_err (wants p ! w) = None")
    (auto simp: tryDeliver_def Let_def want_ok_def given_def leaver_def)

lemma cancel_eq:
  assumes "wants_ok p" and "w < length (wants p)"
  shows "cancel w err p = Some (set_want w ((wants p ! w)\<lparr>w_conn := None, w_err := Some err, w_ready := True, w_caller := Returned\<rparr>)
           (p\<lparr>held := held p @ (case w_conn (wants p ! w) of None \<Rightarrow> [] | Some cc \<Rightarrow> [cc])\<rparr>))"
  using wants_okD(1) [OF assms] by (auto simp: cancel_def Let_def want_ok_def)

lemma same_pool:
  assumes "pool_ok p" and "mset (counted p') = mset (counted p)" and "connsCount p' = connsCount p" and "dials p' = dials p"
    and "dialFor p' = dialFor p" and "failed_dials p' = failed_dials p" and "shutting p' = shutting p"
    and "closed p' = closed p" and "opened p' = opened p" and "limit p' = limit p" and "MaxConns p' = MaxConns p"
  shows "pool_ok p'"
  by (rule pool_okI [OF assms(1), of _ "{#}" "{#}"]) (use assms pool_ok_limit [OF assms(1)] in simp_all)

lemma failed_set_want [simp]: "failed_dials (set_want w v p) = failed_dials p"
  by (simp add: failed_dials_def)

lemma queue_pool:
  assumes "pool_ok p" and "w < length (wants p)" and "w_caller (wants p ! w) = Created"
  shows "pool_ok (queueForIdle w p)"
proof (rule same_pool [OF assms(1)])
  let ?p = "p\<lparr>connsWait := q_push (clearFront (waiting p) (connsWait p)) w\<rparr>" and ?v = "(wants p ! w)\<lparr>w_caller := Queued\<rparr>"
  have "mset (counted (set_want w ?v ?p)) + mset (given (wants p ! w)) = mset (counted ?p) + mset (given ?v)"
    using set_want_counted [of w ?p ?v] assms(2) by simp
  moreover have "given ?v = given (wants p ! w)" using assms(3) by (simp add: given_def)
  moreover have "counted ?p = counted p" by (simp add: counted_def in_giving_def)
  ultimately show "mset (counted (queueForIdle w p)) = mset (counted p)" by (simp add: queueForIdle_def)
qed (simp_all add: queueForIdle_def failed_dials_def)

text \<open>A caller returns with what it was given.\<close>

lemma returns_pool:
  assumes "pool_ok p" and "w < length (wants p)" and "w_caller (wants p ! w) \<noteq> Returned" and "w_caller v = Returned"
  shows "pool_ok (set_want w v (p\<lparr>held := held p @ (case w_conn (wants p ! w) of None \<Rightarrow> [] | Some cc \<Rightarrow> [cc])\<rparr>))"
    (is "pool_ok (set_want w v ?p)")
proof (rule same_pool [OF assms(1)])
  have "mset (counted (set_want w v ?p)) + mset (given (wants p ! w)) = mset (counted ?p) + mset (given v)"
    using set_want_counted [of w ?p v] assms(2) by simp
  moreover have "mset (counted ?p) = mset (counted p) + mset (given (wants p ! w))" "given v = []"
    using assms(3,4) by (simp_all add: counted_def in_giving_def given_def split: option.split)
  ultimately show "mset (counted (set_want w v ?p)) = mset (counted p)" by simp
qed (simp_all add: failed_dials_def)

lemma cancel_pool:
  assumes "pool_ok p" and "wants_ok p" and "w < length (wants p)" and "w_caller (wants p ! w) \<noteq> Returned" and "cancel w err p = Some p'"
  shows "pool_ok p'"
  using assms(5) unfolding cancel_eq [OF assms(2,3)] by (auto intro!: returns_pool assms)

lemma wait_ready_pool:
  assumes "pool_ok p" and "wants_ok p" and "w < length (wants p)" and "w_caller (wants p ! w) = Queued" and "wait_ready w p = Some p'"
  shows "pool_ok p'"
proof (cases "w_err (wants p ! w)")
  case None
  with assms(5) show ?thesis by (auto simp: wait_ready_def Let_def assms(4) intro!: returns_pool assms(1,3))
next
  case (Some e)
  with assms show ?thesis by (auto simp: wait_ready_def Let_def intro: cancel_pool)
qed

lemma dial_pool:
  assumes "pool_ok p" and "0 < dials p"
  shows "pool_ok (dial_ok now p)" and "pool_ok (dial_fail p)"
proof -
  show "pool_ok (dial_ok now p)"
    by (rule pool_okI [OF assms(1), of _ "{#}" "{#acquireClientConn (opened p) now#}"])
      (use assms(2) pool_ok_limit [OF assms(1)] in
        \<open>simp_all add: dial_ok_def counted_def in_giving_def failed_dials_def acquireClientConn_def\<close>)
  show "pool_ok (dial_fail p)"
    by (rule pool_okI [OF assms(1), of _ "{#}" "{#}"])
      (use assms(2) pool_ok_limit [OF assms(1)] in
        \<open>simp_all add: dial_fail_def counted_def in_giving_def failed_dials_def leaver_def\<close>)
qed

lemma dialConnFor_pool:
  assumes "pool_ok p" and "wants_ok p" and "w \<in> set (dialFor p)" and "dialConnFor w conn p = Some p'"
  shows "pool_ok p'"
proof -
  let ?p = "p\<lparr>dialFor := remove1 w (dialFor p)\<rparr>"
  have w: "w < length (wants p)" by (rule wants_okD(2) [OF assms(2,3)])
  have l: "int (length (remove1 w (dialFor p))) = int (length (dialFor p)) - 1"
    using assms(3) by (simp add: length_remove1) (metis One_nat_def Suc_leI length_pos_if_in_set of_nat_1 of_nat_diff)
  note lim = pool_ok_limit [OF assms(1)]
  show ?thesis
  proof (cases conn)
    case None
    have ok: "wants_ok ?p" using assms(2) by (auto simp: wants_ok_def dest: notin_set_remove1)
    have "tryDeliver w None (Some DialErr) ?p = Some (?p, False) \<or>
        (\<exists>v. tryDeliver w None (Some DialErr) ?p = Some (set_want w v ?p, True) \<and> given (wants p ! w) = [] \<and> given v = [])"
      by (rule tryDeliver_cases [OF ok, of w None "Some DialErr"]) (use w in \<open>auto simp: leaver_def\<close>)
    then show ?thesis
    proof (elim disjE exE conjE)
      assume "tryDeliver w None (Some DialErr) ?p = Some (?p, False)"
      with assms(4) None have p': "p' = ?p\<lparr>leaving := leaving p @ [None]\<rparr>" by (simp add: dialConnFor_def)
      show ?thesis
        by (rule pool_okI [OF assms(1), of _ "{#}" "{#}"])
          (use lim l in \<open>simp_all add: p' counted_def in_giving_def failed_dials_def leaver_def\<close>)
    next
      fix v
      assume d: "tryDeliver w None (Some DialErr) ?p = Some (set_want w v ?p, True)" "given (wants p ! w) = []" "given v = []"
      with assms(4) None have "p' = (set_want w v ?p)\<lparr>leaving := leaving p @ [None]\<rparr>" by (simp add: dialConnFor_def)
      then have p': "p' = set_want w v (?p\<lparr>leaving := leaving p @ [None]\<rparr>)" by (cases p) (simp add: set_want_def)
      have "mset (counted p') = mset (counted p)"
        using set_want_counted [of w "?p\<lparr>leaving := leaving p @ [None]\<rparr>" v] w d(2,3)
        by (simp add: p' counted_def in_giving_def leaver_def)
      then show ?thesis
        by (intro pool_okI [OF assms(1), of _ "{#}" "{#}"]) (use lim l in \<open>simp_all add: p' failed_dials_def\<close>)
    qed
  next
    case (Some now)
    let ?cc = "acquireClientConn (opened p) now" and ?q = "?p\<lparr>opened := opened p + 1\<rparr>"
    have ok: "wants_ok ?q" using assms(2) by (auto simp: wants_ok_def dest: notin_set_remove1)
    have "tryDeliver w (Some ?cc) None ?q = Some (?q, False) \<or>
        (\<exists>v. tryDeliver w (Some ?cc) None ?q = Some (set_want w v ?q, True) \<and> given (wants p ! w) = [] \<and> given v = [?cc])"
      by (rule tryDeliver_cases [OF ok, of w "Some ?cc" None]) (use w in \<open>auto simp: leaver_def\<close>)
    then have "mset (counted p') = mset (counted p) + {#?cc#} \<and> (p' = ?q\<lparr>held := held p @ [?cc]\<rparr> \<or> (\<exists>v. p' = set_want w v ?q))"
    proof (elim disjE exE conjE)
      assume "tryDeliver w (Some ?cc) None ?q = Some (?q, False)"
      with assms(4) Some show ?thesis by (auto simp: dialConnFor_def Let_def counted_def in_giving_def)
    next
      fix v
      assume d: "tryDeliver w (Some ?cc) None ?q = Some (set_want w v ?q, True)" "given (wants p ! w) = []" "given v = [?cc]"
      with assms(4) Some have p': "p' = set_want w v ?q" by (auto simp: dialConnFor_def Let_def)
      then show ?thesis using set_want_counted [of w ?q v] w d(2,3) by (auto simp: counted_def in_giving_def)
    qed
    then show ?thesis
      by (intro pool_okI [OF assms(1), of _ "{#}" "{#?cc#}"])
        (use lim l in \<open>auto simp: failed_dials_def acquireClientConn_def atLeastLessThanSuc\<close>)
  qed
qed

lemma release_pool:
  assumes "pool_ok p" and "giving p = None" and "cc \<in> set (held p)"
  shows "pool_ok (releaseConn cc now p)"
proof -
  obtain M where M: "mset (held p) = add_mset cc M" using assms(3) multi_member_split [of cc "mset (held p)"] by auto
  show ?thesis
  proof (rule pool_okI [OF assms(1), of _ "{#cc#}" "{#cc\<lparr>lastUseTime := now\<rparr>#}"])
    show "mset (counted (releaseConn cc now p)) + {#cc#} = mset (counted p) + {#cc\<lparr>lastUseTime := now\<rparr>#}"
      using assms(2) M by (simp add: releaseConn_def Let_def counted_def in_giving_def split: prod.split option.split)
  qed (use pool_ok_limit [OF assms(1)] in \<open>simp_all add: releaseConn_def Let_def failed_dials_def split: prod.split option.split\<close>)
qed

lemma deliver_pool:
  assumes "pool_ok p" and "wants_ok p" and "giving p = Some (cc, w)" and "release_deliver cc w p = Some p'"
  shows "pool_ok p'"
proof -
  have w: "w < length (wants p)" by (rule wants_okD(4) [OF assms(2,3)])
  have "tryDeliver w (Some cc) None p = Some (p, False) \<or>
      (\<exists>v. tryDeliver w (Some cc) None p = Some (set_want w v p, True) \<and> given (wants p ! w) = [] \<and> given v = [cc])"
    by (rule tryDeliver_cases [OF assms(2), of w "Some cc" None]) (use w in \<open>auto simp: leaver_def\<close>)
  then have "mset (counted p') = mset (counted p) \<and> ((\<exists>v. p' = (set_want w v p)\<lparr>giving := None\<rparr>) \<or> p' = p\<lparr>conns := conns p @ [cc], giving := None\<rparr>)"
  proof (elim disjE exE conjE)
    assume "tryDeliver w (Some cc) None p = Some (p, False)"
    with assms(3,4) show ?thesis by (auto simp: release_deliver_def counted_def in_giving_def)
  next
    fix v
    assume d: "tryDeliver w (Some cc) None p = Some (set_want w v p, True)" "given (wants p ! w) = []" "given v = [cc]"
    with assms(4) have p': "p' = (set_want w v p)\<lparr>giving := None\<rparr>" by (simp add: release_deliver_def)
    have "mset (counted (set_want w v p)) = mset (counted p') + {#cc#}" using assms(3) by (simp add: p' counted_def in_giving_def)
    with p' show ?thesis using set_want_counted [of w p v] w d(2,3) by auto
  qed
  then show ?thesis
    by (intro pool_okI [OF assms(1), of _ "{#}" "{#}"]) (use pool_ok_limit [OF assms(1)] in \<open>auto simp: failed_dials_def\<close>)
qed

lemma close_pool:
  assumes "pool_ok p" and "cc \<in> set (held p)"
  shows "pool_ok (closeConn cc p)"
proof -
  obtain M where M: "mset (held p) = add_mset cc M" using assms(2) multi_member_split [of cc "mset (held p)"] by auto
  show ?thesis
    by (rule pool_okI [OF assms(1), of _ "{#}" "{#}"])
      (use pool_ok_limit [OF assms(1)] M in \<open>simp_all add: closeConn_def counted_def in_giving_def leaver_def failed_dials_def\<close>)
qed

lemma dec_count:
  "connsCount (decConnsCount p) - int (length (dialFor (decConnsCount p))) = connsCount p - int (length (dialFor p)) - 1"
  "connsCount (decConnsCount p) \<le> connsCount p"
  by (auto simp: decConnsCount_def split: prod.split option.split)

lemma dec_simps [simp]:
  "counted (decConnsCount p) = counted p" "dials (decConnsCount p) = dials p" "failed_dials (decConnsCount p) = failed_dials p"
  "limit (decConnsCount p) = limit p" "MaxConns (decConnsCount p) = MaxConns p" "shutting (decConnsCount p) = shutting p"
  "closed (decConnsCount p) = closed p" "opened (decConnsCount p) = opened p" "leaving (decConnsCount p) = leaving p"
  "wants (decConnsCount p) = wants p" "giving (decConnsCount p) = giving p" "conns (decConnsCount p) = conns p"
  "held (decConnsCount p) = held p"
  "cleaners (decConnsCount p) = cleaners p" "connsCleanerRun (decConnsCount p) = connsCleanerRun p"
  by (auto simp: decConnsCount_def counted_def in_giving_def failed_dials_def split: prod.split option.split)

lemma leave_pool:
  assumes "pool_ok p" and "x \<in> set (leaving p)"
  shows "pool_ok (leave x p)"
proof -
  let ?p = "p\<lparr>leaving := remove1 x (leaving p)\<rparr>"
  have c: "mset (counted ?p) + mset (leaver x) = mset (counted p)"
    using concat_remove1 [OF assms(2), of leaver] by (simp add: counted_def in_giving_def union_assoc)
  have f: "int (failed_dials ?p) = int (failed_dials p) - (if x = None then 1 else 0)"
    using failed_remove1 [OF assms(2)] by (auto simp: failed_dials_def split: if_splits)
  have q: "counted (leave x p) = counted ?p" "dials (leave x p) = dials p" "failed_dials (leave x p) = failed_dials ?p"
    "limit (leave x p) = limit p" "MaxConns (leave x p) = MaxConns p" "closed (leave x p) = closed p" "opened (leave x p) = opened p"
    "shutting (leave x p) = shutting p @ leaver x" "connsCount (leave x p) = connsCount (decConnsCount ?p)"
    "dialFor (leave x p) = dialFor (decConnsCount ?p)"
    by (simp_all add: leave_def Let_def leaver_def counted_def in_giving_def failed_dials_def split: option.split)
  show ?thesis
  proof (rule pool_okI [OF assms(1), of _ "mset (leaver x)" "{#}"])
    show "mset (counted (leave x p)) + mset (leaver x) = mset (counted p) + {#}" using c by (simp add: q)
    show "connsCount (leave x p) - connsCount p = int (dials (leave x p) + length (dialFor (leave x p)) + failed_dials (leave x p) + size {#}) -
        int (dials p + length (dialFor p) + failed_dials p + size (mset (leaver x)))"
      using dec_count(1) [of ?p] f by (auto simp: q leaver_def split: option.splits)
    show "connsCount (leave x p) \<le> connsCount p \<or> connsCount (leave x p) \<le> limit (leave x p)"
      using dec_count(2) [of ?p] by (simp add: q)
  qed (use pool_ok_limit [OF assms(1)] in \<open>simp_all add: q\<close>)
qed

lemma shut_pool:
  assumes "pool_ok p" and "cc \<in> set (shutting p)"
  shows "pool_ok (shut cc p)"
proof -
  obtain M where M: "mset (shutting p) = add_mset cc M" using assms(2) multi_member_split [of cc "mset (shutting p)"] by auto
  show ?thesis
    by (rule pool_okI [OF assms(1), of _ "{#}" "{#}"])
      (use pool_ok_limit [OF assms(1)] M in \<open>simp_all add: shut_def counted_def in_giving_def failed_dials_def\<close>)
qed

text \<open>Idle connections that leave.\<close>

lemma leavers: "concat (map leaver (map Some cs)) = cs" "filter (\<lambda>x. x = None) (map Some cs) = []"
  by (induction cs) (simp_all add: leaver_def)

lemma idle_pool:
  assumes "pool_ok p"
  shows "pool_ok (p\<lparr>conns := drop i (conns p), leaving := leaving p @ map Some (take i (conns p))\<rparr>)"
proof (rule same_pool [OF assms])
  have "mset (take i (conns p)) + mset (drop i (conns p)) = mset (conns p)" by (metis append_take_drop_id mset_append)
  then show "mset (counted (p\<lparr>conns := drop i (conns p), leaving := leaving p @ map Some (take i (conns p))\<rparr>)) = mset (counted p)"
    by (simp add: counted_def in_giving_def leavers(1) del: map_map) (metis add.commute add.left_commute)
qed (simp_all add: failed_dials_def leavers)

lemma step_pool: "client_step p p' \<Longrightarrow> wants_ok p \<Longrightarrow> pool_ok p \<Longrightarrow> pool_ok p'"
proof (induction rule: client_step.induct)
  case (WaitTimeout w p p')
  then show ?case by (auto simp: wait_timeout_def intro: cancel_pool)
next
  case (CloseIdle p)
  then show ?case using idle_pool [of p "length (conns p)"] by (simp add: CloseIdleConnections_def)
next
  case (Clean p now)
  then show ?case by (simp add: connsCleaner_def Let_def idle_pool)
next
  case (CleanerStop p)
  then show ?case
    by (auto simp: cleaner_stop_def intro!: same_pool [of p] simp: counted_def in_giving_def failed_dials_def)
next
  case (SetMax p n)
  then show ?case
    by - (rule pool_okI [of p _ "{#}" "{#}"], simp_all add: SetMaxConns_def counted_def in_giving_def failed_dials_def)
next
  case (WaitReady w p p')
  then show ?case by (blast intro: wait_ready_pool)
next
  case (DialFor w p conn p')
  then show ?case by (blast intro: dialConnFor_pool)
next
  case (Deliver p cc w p')
  then show ?case by (blast intro: deliver_pool)
qed (simp_all add: acquire_pool queue_pool dial_pool release_pool close_pool leave_pool shut_pool)

text \<open>The callers that wait.\<close>

lemma wants_okI:
  assumes "wants_ok p" and "\<And>v. v \<in> set (wants p') \<Longrightarrow> want_ok v" and "length (wants p) \<le> length (wants p')"
    and "set (q_list (connsWait p')) \<union> set (dialFor p') \<union> (case giving p' of None \<Rightarrow> {} | Some (cc, w) \<Rightarrow> {w}) \<subseteq>
         set (q_list (connsWait p)) \<union> set (dialFor p) \<union> (case giving p of None \<Rightarrow> {} | Some (cc, w) \<Rightarrow> {w}) \<union> {..<length (wants p')}"
  shows "wants_ok p'"
  using assms by (fastforce simp: wants_ok_def)

lemma set_want_wants:
  assumes "wants_ok p" and "want_ok v"
  shows "wants_ok (set_want w v p)"
  using assms set_update_subset_insert [of "wants p" w v] by (auto simp: wants_ok_def)

lemma same_wants:
  assumes "wants_ok p" and "wants p' = wants p" and "q_list (connsWait p') = q_list (connsWait p)"
    and "set (dialFor p') \<subseteq> set (dialFor p)" and "giving p' = giving p \<or> giving p' = None"
  shows "wants_ok p'"
  using assms by (auto simp: wants_ok_def)

lemma tryDeliver_wants:
  assumes "wants_ok p" and "tryDeliver w conn err p = Some (p', d)"
  shows "wants_ok p'"
  using assms by (auto simp: tryDeliver_def Let_def want_ok_def intro!: set_want_wants split: if_splits)

lemma cancel_wants: "wants_ok p \<Longrightarrow> cancel w err p = Some p' \<Longrightarrow> wants_ok p'"
  by (auto simp: cancel_def Let_def want_ok_def intro!: set_want_wants same_wants [of p] split: if_splits)

lemma popWaiting_wants:
  assumes "wants_ok p" and "popWaiting (waiting p) (connsWait p) = (found, q)"
  shows "set (q_list q) \<subseteq> set (q_list (connsWait p))" and "found = Some w \<Longrightarrow> w < length (wants p)"
  using assms(1) by (cases rule: popWaiting_cases [OF assms(2)]; auto simp: wants_ok_def)+

lemma take_wants:
  assumes "wants_ok p" and "popWaiting (waiting p) (connsWait p) = (found, q)" and "wants p' = wants p" and "connsWait p' = q"
    and "set (dialFor p') \<subseteq> set (dialFor p) \<union> set_option found"
    and "giving p' = giving p \<or> (\<exists>cc w. giving p' = Some (cc, w) \<and> found = Some w)"
  shows "wants_ok p'"
proof -
  note w = popWaiting_wants [OF assms(1,2)]
  have "x < length (wants p)" if "x \<in> set (dialFor p')" for x
    using that assms(5) wants_okD(2) [OF assms(1), of x] w(2) [of x] by (auto dest: subsetD)
  moreover have "x < length (wants p)" if "x \<in> set (q_list q)" for x
    using that w(1) wants_okD(3) [OF assms(1), of x] by blast
  moreover have "x < length (wants p)" if "giving p' = Some (cc, x)" for cc x
    using assms(6)
  proof (elim disjE exE conjE)
    assume "giving p' = giving p"
    with that wants_okD(4) [OF assms(1), of cc x] show ?thesis by simp
  qed (use that w(2) in simp)
  ultimately show ?thesis using assms(1) unfolding wants_ok_def assms(3,4) by (auto split: option.split)
qed

lemma dec_wants:
  assumes "wants_ok p"
  shows "wants_ok (decConnsCount p)"
proof -
  obtain found q where f: "popWaiting (waiting p) (connsWait p) = (found, q)" by fastforce
  show ?thesis
  proof (cases "MaxConnWaitTimeout p \<le> 0")
    case True
    then show ?thesis by (simp add: decConnsCount_def same_wants [OF assms])
  next
    case False
    then show ?thesis by (intro take_wants [OF assms f]) (cases found; simp add: decConnsCount_def f)+
  qed
qed

lemma step_wants: "client_step p p' \<Longrightarrow> wants_ok p \<Longrightarrow> wants_ok p'"
proof (induction rule: client_step.induct)
  case (Acquire p t c)
  then show ?case
    by (auto simp: acquire_def acquireConn_def Let_def wants_ok_def want_ok_def split: ConnPoolStrategyType.split)
next
  case (Queue p w)
  have "wants_ok (p\<lparr>connsWait := q_push (clearFront (waiting p) (connsWait p)) w\<rparr>)"
    using Queue by (auto simp: wants_ok_def conn_fifo.push dest!: set_dropWhileD)
  with Queue show ?case
    using wants_okD(1) [OF Queue(4,2)] unfolding queueForIdle_def by (intro set_want_wants) (auto simp: want_ok_def)
next
  case (WaitReady w p p')
  have ok: "want_ok (wants p ! w)" by (rule wants_okD(1) [OF WaitReady(5,1)])
  show ?case
  proof (cases "w_err (wants p ! w)")
    case None
    with WaitReady ok show ?thesis
      by (auto simp: wait_ready_def Let_def want_ok_def intro!: set_want_wants same_wants [of p])
  next
    case (Some e)
    with WaitReady show ?thesis by (auto simp: wait_ready_def Let_def intro: cancel_wants)
  qed
next
  case (WaitTimeout w p p')
  then show ?case by (auto simp: wait_timeout_def intro: cancel_wants)
next
  case (DialFor w p conn p')
  let ?p = "p\<lparr>dialFor := remove1 w (dialFor p)\<rparr>"
  have ok: "wants_ok ?p" "wants_ok (?p\<lparr>opened := opened p + 1\<rparr>)"
    using set_remove1_subset [of w "dialFor p"] by (auto intro!: same_wants [OF DialFor(3)])
  have "\<exists>p1. wants_ok p1 \<and> (p' = p1 \<or> (\<exists>l. p' = p1\<lparr>leaving := l\<rparr>) \<or> (\<exists>h. p' = p1\<lparr>held := h\<rparr>))"
    using DialFor(2) ok by (cases conn) (auto simp: dialConnFor_def Let_def dest: tryDeliver_wants split: if_splits)
  then show ?case by (auto simp: same_wants)
next
  case (Release p cc now)
  let ?p = "p\<lparr>held := remove1 cc (held p)\<rparr>"
  have ok: "wants_ok ?p" by (rule same_wants [OF Release(3)]) simp_all
  obtain found q where f: "popWaiting (waiting ?p) (connsWait ?p) = (found, q)" by fastforce
  show ?case
  proof (cases "MaxConnWaitTimeout p \<le> 0")
    case True
    then have "releaseConn cc now p = ?p\<lparr>conns := conns p @ [cc\<lparr>lastUseTime := now\<rparr>]\<rparr>" by (simp add: releaseConn_def Let_def)
    then show ?thesis by (simp add: same_wants [OF ok])
  next
    case False
    show ?thesis
    proof (cases found)
      case None
      with False f have "releaseConn cc now p = ?p\<lparr>connsWait := q, conns := conns p @ [cc\<lparr>lastUseTime := now\<rparr>]\<rparr>"
        by (simp add: releaseConn_def Let_def)
      then show ?thesis by (simp add: take_wants [OF ok f])
    next
      case (Some w)
      with False f have "releaseConn cc now p = ?p\<lparr>connsWait := q, giving := Some (cc\<lparr>lastUseTime := now\<rparr>, w)\<rparr>"
        by (simp add: releaseConn_def Let_def)
      then show ?thesis using Some by (intro take_wants [OF ok f]) auto
    qed
  qed
next
  case (Deliver p cc w p')
  then have "\<exists>p1. wants_ok p1 \<and> (p' = p1\<lparr>giving := None\<rparr> \<or> (\<exists>c. p' = p1\<lparr>conns := c, giving := None\<rparr>))"
    by (auto simp: release_deliver_def dest: tryDeliver_wants split: if_splits)
  then show ?case by (auto simp: same_wants)
next
  case (Leave p x)
  have "wants_ok (decConnsCount (p\<lparr>leaving := remove1 x (leaving p)\<rparr>))" by (rule dec_wants, rule same_wants [OF Leave(3)]) simp_all
  then show ?case by (auto simp: leave_def Let_def same_wants split: option.split)
next
  case (Clean p now)
  then show ?case by (simp add: connsCleaner_def Let_def same_wants [of p])
next
  case (CleanerStop p)
  then show ?case by (simp add: cleaner_stop_def same_wants [of p])
qed (simp_all add: dial_ok_def dial_fail_def closeConn_def shut_def CloseIdleConnections_def SetMaxConns_def same_wants)

text \<open>The cleaner.\<close>

lemma tryDeliver_cleaner:
  "tryDeliver w conn err p = Some (p', d) \<Longrightarrow> cleaners p' = cleaners p \<and> connsCleanerRun p' = connsCleanerRun p"
  by (auto simp: tryDeliver_def Let_def split: if_splits)

lemma step_cleaner: "client_step p p' \<Longrightarrow> cleaner_ok p \<Longrightarrow> cleaner_ok p'"
proof (induction rule: client_step.induct)
  case (Acquire p t c)
  then show ?case by (auto simp: acquire_def acquireConn_def Let_def cleaner_ok_def split: ConnPoolStrategyType.split)
next
  case (DialFor w p conn p')
  let ?p = "p\<lparr>dialFor := remove1 w (dialFor p)\<rparr>"
  from DialFor(2) have "cleaners p' = cleaners p \<and> connsCleanerRun p' = connsCleanerRun p"
  proof (cases conn)
    case None
    with DialFor(2) obtain q d where "tryDeliver w None (Some DialErr) ?p = Some (q, d)" "p' = q\<lparr>leaving := leaving q @ [None]\<rparr>"
      by (auto simp: dialConnFor_def)
    then show ?thesis using tryDeliver_cleaner by fastforce
  next
    case (Some now)
    with DialFor(2) obtain q d h where "tryDeliver w (Some (acquireClientConn (opened p) now)) None (?p\<lparr>opened := opened p + 1\<rparr>) = Some (q, d)"
      "p' = q \<or> p' = q\<lparr>held := h\<rparr>" by (auto simp: dialConnFor_def Let_def split: if_splits)
    then show ?thesis using tryDeliver_cleaner by fastforce
  qed
  with DialFor(3) show ?case by (simp add: cleaner_ok_def)
next
  case (Deliver p cc w p')
  then obtain q d c where "tryDeliver w (Some cc) None p = Some (q, d)" "p' = q\<lparr>giving := None\<rparr> \<or> p' = q\<lparr>conns := c, giving := None\<rparr>"
    by (auto simp: release_deliver_def split: if_splits)
  then have "cleaners p' = cleaners p \<and> connsCleanerRun p' = connsCleanerRun p" using tryDeliver_cleaner by fastforce
  with Deliver(3) show ?case by (simp add: cleaner_ok_def)
next
  case (Release p cc now)
  then show ?case by (auto simp: releaseConn_def Let_def cleaner_ok_def split: prod.split option.split)
next
  case (Leave p x)
  then show ?case by (auto simp: leave_def Let_def cleaner_ok_def split: option.split)
qed (auto simp: cleaner_ok_def queueForIdle_def wait_ready_def wait_timeout_def cancel_def dial_ok_def dial_fail_def closeConn_def
    shut_def CloseIdleConnections_def connsCleaner_def cleaner_stop_def SetMaxConns_def Let_def split: option.splits if_splits)

lemma step_ok: "client_step p p' \<Longrightarrow> client_ok p \<Longrightarrow> client_ok p'"
  using step_pool step_wants step_cleaner by (auto simp: client_ok_def pool_ok_def)

lemma client_reach_ok: "client_reach p \<Longrightarrow> client_ok p"
proof (induction rule: client_reach.induct)
  case (init maxConns maxWait maxIdle strategy)
  then show ?case
    by (simp add: new_client_def client_ok_def count_ok_def conns_ok_def wants_ok_def cleaner_ok_def counted_def in_giving_def
        failed_dials_def effectiveMaxConns_def DefaultMaxConnsPerHost_def)
next
  case (step p p')
  then show ?case using step_ok by blast
qed

section \<open>Properties\<close>

text \<open>Claim C12: in every interleaving of the callers, dials, releases, timeouts and cleaners of a host, every connection that was
  dialed and not closed is in exactly one place: idle, with one caller, on its way to one caller, or leaving. The
  counter is their number with the dials under way and never exceeds the limit; at most one cleaner runs; and neither
  a delivery nor a cancellation closes the channel of a caller twice.\<close>

theorem client_conns:
  assumes "client_reach p"
  shows "mset (map cc_c (counted p @ shutting p)) + mset (closed p) = mset [0..<opened p] \<and>
    connsCount p = int (dials p + length (dialFor p) + failed_dials p + length (counted p)) \<and>
    connsCount p \<le> limit p \<and>
    cleaners p = (if connsCleanerRun p then 1 else 0) \<and>
    list_all (\<lambda>w. dialConnFor w conn p \<noteq> None) (dialFor p) \<and>
    (case giving p of None \<Rightarrow> True | Some (cc, w) \<Rightarrow> release_deliver cc w p \<noteq> None) \<and>
    list_all (\<lambda>w. wait_ready w p \<noteq> None \<and> wait_timeout w p \<noteq> None) [0..<length (wants p)]"
proof -
  have ok: "count_ok p" "conns_ok p" "wants_ok p" "cleaner_ok p" using client_reach_ok [OF assms] by (auto simp: client_ok_def)
  note D = wants_okD [OF ok(3)]
  have t: "\<exists>q' d. tryDeliver w c e q = Some (q', d)" if "wants q = wants p" "w < length (wants p)" "c \<noteq> None \<or> e \<noteq> None" for w c e q
    using D(1) [OF that(2)] that by (auto simp: tryDeliver_def Let_def want_ok_def)
  have "list_all (\<lambda>w. dialConnFor w conn p \<noteq> None) (dialFor p)"
    unfolding list_all_iff using D(2) by (cases conn) (auto simp: dialConnFor_def Let_def t)
  moreover have "case giving p of None \<Rightarrow> True | Some (cc, w) \<Rightarrow> release_deliver cc w p \<noteq> None"
    using D(4) by (auto simp: release_deliver_def t split: option.split)
  moreover have "list_all (\<lambda>w. wait_ready w p \<noteq> None \<and> wait_timeout w p \<noteq> None) [0..<length (wants p)]"
    unfolding list_all_iff using cancel_eq [OF ok(3)] by (auto simp: wait_ready_def wait_timeout_def Let_def split: option.split)
  ultimately show ?thesis using ok by (auto simp: count_ok_def conns_ok_def cleaner_ok_def)
qed

text \<open>A connection that is released goes to the caller that has waited longest, if one waits.\<close>

lemma release_first_waiting:
  assumes "0 < MaxConnWaitTimeout p"
  shows "map_option snd (giving (releaseConn cc now (p\<lparr>giving := None\<rparr>))) =
    (case filter (waiting p) (q_list (connsWait p)) of [] \<Rightarrow> None | w # ws \<Rightarrow> Some w)"
proof -
  obtain found q where f: "popWaiting (waiting p) (connsWait p) = (found, q)" by fastforce
  have w: "waiting (p\<lparr>giving := None, held := h\<rparr>) = waiting p" for h by (simp add: fun_eq_iff waiting_def)
  from f show ?thesis
  proof (cases rule: popWaiting_cases)
    case none
    with assms f show ?thesis by (simp add: releaseConn_def Let_def w filter_empty_conv)
  next
    case (some v ws)
    then have "filter (waiting p) ws = []" by (auto simp: filter_empty_conv)
    with assms f some show ?thesis by (simp add: releaseConn_def Let_def w)
  qed
qed

section \<open>Two defects\<close>

text \<open>Between the sections of acquireConn and queueForIdle the lock is free. A connection released there becomes idle, and
  the caller queues up behind it.\<close>

lemmas reach_step = client_reach.step

definition busy_client :: client_pool where
  "busy_client = dial_ok 0 (acquire 0 False (new_client 1 10 0 LIFO))"

definition missed_client :: client_pool where
  "missed_client = queueForIdle 0 (releaseConn (acquireClientConn 0 0) 5 (acquire 0 False busy_client))"

lemma busy_reach: "client_reach busy_client"
proof -
  have "client_reach (acquire 0 False (new_client 1 10 0 LIFO))"
    by (rule reach_step [OF client_reach.init Acquire]) (simp add: new_client_def)
  then show ?thesis unfolding busy_client_def by (rule reach_step) (rule DialOk, code_simp)
qed

lemma missed_reach: "client_reach missed_client"
proof -
  have "client_reach (acquire 0 False busy_client)" by (rule reach_step [OF busy_reach Acquire]) code_simp
  then have "client_reach (releaseConn (acquireClientConn 0 0) 5 (acquire 0 False busy_client))"
    by (rule reach_step) (rule Release, code_simp+)
  then show ?thesis unfolding missed_client_def by (rule reach_step) (rule Queue, code_simp+)
qed

text \<open>A caller that closes its connections starts no cleaner; dialConnFor, which dials for a caller that waits, does not
  start one either.\<close>

definition dialed_for :: client_pool where
  "dialed_for = leave (Some (acquireClientConn 0 0)) (closeConn (acquireClientConn 0 0)
     (queueForIdle 0 (acquire 0 False (dial_ok 0 (acquire 0 True (new_client 1 10 0 LIFO))))))"

definition delivered_for :: client_pool where
  "delivered_for = (case dialConnFor 0 (Some 3) dialed_for of Some p \<Rightarrow> p | None \<Rightarrow> dialed_for)"

definition returned_for :: client_pool where
  "returned_for = (case wait_ready 0 delivered_for of Some p \<Rightarrow> p | None \<Rightarrow> delivered_for)"

definition uncleaned_client :: client_pool where
  "uncleaned_client = releaseConn (acquireClientConn 1 3) 5 (shut (acquireClientConn 0 0) returned_for)"

lemma dialed_for_reach: "client_reach dialed_for"
proof -
  let ?c1 = "dial_ok 0 (acquire 0 True (new_client 1 10 0 LIFO))" and ?cc = "acquireClientConn 0 0"
  have "client_reach (acquire 0 True (new_client 1 10 0 LIFO))" by (rule reach_step [OF client_reach.init Acquire]) code_simp
  then have "client_reach ?c1" by (rule reach_step) (rule DialOk, code_simp)
  then have "client_reach (acquire 0 False ?c1)" by (rule reach_step) (rule Acquire, code_simp)
  then have "client_reach (queueForIdle 0 (acquire 0 False ?c1))" by (rule reach_step) (rule Queue, code_simp+)
  then have "client_reach (closeConn ?cc (queueForIdle 0 (acquire 0 False ?c1)))" by (rule reach_step) (rule Close, code_simp)
  then show ?thesis unfolding dialed_for_def by (rule reach_step) (rule Leave, code_simp+)
qed

lemma uncleaned_reach: "client_reach uncleaned_client"
proof -
  have "client_reach delivered_for"
    by (rule reach_step [OF dialed_for_reach]) (rule DialFor [of 0 _ "Some 3"], code_simp+)
  then have "client_reach returned_for"
    by (rule reach_step) (rule WaitReady [of 0], code_simp+)
  then have "client_reach (shut (acquireClientConn 0 0) returned_for)" by (rule reach_step) (rule Shut, code_simp)
  then show ?thesis unfolding uncleaned_client_def by (rule reach_step) (rule Release, code_simp+)
qed

definition nobody_busy :: "client_pool \<Rightarrow> bool" where
  "nobody_busy p \<longleftrightarrow> dials p = 0 \<and> dialFor p = [] \<and> held p = [] \<and> giving p = None \<and> leaving p = [] \<and> shutting p = []"

text \<open>Claim C39: two states the connections of a host can reach. In the first a caller waits and will be told that no connection
  is free, although one is idle, all others are done and nobody is left to wake it. In the second a connection is
  idle, but no cleaner runs that would ever close it.\<close>

theorem client_pool_defects:
  "\<exists>p q. client_reach p \<and> nobody_busy p \<and> length (conns p) = 1 \<and> map w_caller (wants p) = [Queued] \<and> waiting p 0 \<and>
     map_option (\<lambda>p'. w_err (wants p' ! 0)) (wait_timeout 0 p) = Some (Some ErrNoFreeConns) \<and>
     client_reach q \<and> nobody_busy q \<and> length (conns q) = 1 \<and> map w_caller (wants q) = [Returned] \<and> cleaners q = 0"
proof (intro exI conjI)
  show "client_reach missed_client" by (rule missed_reach)
  show "client_reach uncleaned_client" by (rule uncleaned_reach)
qed code_simp+

theorem client_conns_witness:
  "client_reach dialed_for \<and> mset (map cc_c (counted dialed_for @ shutting dialed_for)) = {#0#} \<and> connsCount dialed_for \<le> 1 \<and>
   map_option (\<lambda>p. length (leaving p)) (dialConnFor 0 None dialed_for) = Some 1"
proof -
  have "opened dialed_for = 1" "closed dialed_for = []" "limit dialed_for = 1" by code_simp+
  moreover have "map_option (\<lambda>p. length (leaving p)) (dialConnFor 0 None dialed_for) = Some 1" by code_simp
  ultimately show ?thesis using client_conns [OF dialed_for_reach, of None] dialed_for_reach by simp
qed

text \<open>closeConn counts a connection out before it closes it, so more connections may be open than the limit allows.\<close>

definition closing_client :: client_pool where
  "closing_client = dial_ok 9 (acquire 0 False (leave (Some (acquireClientConn 0 0)) (closeConn (acquireClientConn 0 0) busy_client)))"

lemma closing_exceeds_limit:
  "client_reach closing_client \<and> limit closing_client = 1 \<and> opened closing_client - length (closed closing_client) = 2"
proof (intro conjI)
  let ?cc = "acquireClientConn 0 0"
  have "client_reach (closeConn ?cc busy_client)" by (rule reach_step [OF busy_reach]) (rule Close, code_simp)
  then have "client_reach (leave (Some ?cc) (closeConn ?cc busy_client))" by (rule reach_step) (rule Leave, code_simp+)
  then have "client_reach (acquire 0 False (leave (Some ?cc) (closeConn ?cc busy_client)))"
    by (rule reach_step) (rule Acquire, code_simp)
  then show "client_reach closing_client" unfolding closing_client_def by (rule reach_step) (rule DialOk, code_simp)
qed code_simp+

end
