(* ===== verification/Client.thy ===== *)
theory Client
  imports Server Client_Pool
begin

text \<open>
  Requests of a client (src/fasthttp/client.go): one exchange over a connection (RoundTrip), the attempts of
  HostClient.Do, redirects, Get and Post, the names of hosts. What acquireConn hands out is the script of the network:
  an error, or a connection with what it will deliver; the pool itself is in \<open>Client_Pool\<close>. The clock is a function of
  the state of the world. A transport is any function of the type \<open>round_tripper\<close>, as the RoundTripper of
  the code; \<open>transport_RoundTrip\<close> is the default one.
\<close>

section \<open>Configuration and errors\<close>

datatype do_error =
  PoolErr client_err | DeadlineErr | WriteErr message_error | FlushErr conn_error | MessageErr message_error
| ErrHostClientRedirectToDifferentScheme | ErrConnectionClosed | ErrMissingLocation | ErrTooManyRedirects
| ParseURIErr uri_error

record 'f HostClient =
  hc_Name :: bytes
  hc_NoDefaultUserAgentHeader :: bool
  hc_IsTLS :: bool
  hc_MaxConnDuration :: int
  hc_MaxIdemponentCallAttempts :: int
  hc_MaxResponseBodySize :: int
  hc_DisableHeaderNamesNormalizing :: bool
  hc_DisablePathNormalizing :: bool
  hc_SecureErrorLogMessage :: bool
  hc_RetryIf :: "('f Request \<Rightarrow> bool) option"
  hc_StreamResponseBody :: bool

definition DefaultMaxIdemponentCallAttempts :: int where "DefaultMaxIdemponentCallAttempts = 5"
definition defaultMaxRedirectsCount :: int where "defaultMaxRedirectsCount = 16"
definition defaultUserAgent :: bytes where "defaultUserAgent = ''fasthttp''"

text \<open>A connection as one exchange sees it: what it delivers and its age, whether the deadlines can be set, and the
  error the peer or the network gives to what is written.\<close>

record conn_io =
  io_reader :: reader
  io_age :: int
  io_writeDeadline :: bool
  io_readDeadline :: bool
  io_flush :: "conn_error option"

text \<open>What becomes of the connection: closed, released to the pool, or one of both when the stream of the body is
  closed.\<close>

datatype fate = ClosedConn | ReleasedConn | WithStream bool

record network =
  nw_conns :: "(client_err + conn_io) list"
  nw_log :: "(bytes \<times> fate) list"
  nw_time :: "nat \<Rightarrow> int"

type_synonym ('f, 'w) round_tripper =
  "'f Request \<Rightarrow> Response \<Rightarrow> 'w \<Rightarrow> (bool \<times> do_error option \<times> 'f Request \<times> Response \<times> 'w) go"

definition is_timeout :: "do_error \<Rightarrow> bool" where
  "is_timeout e \<longleftrightarrow> e = FlushErr Timeout \<or> e = WriteErr (StreamFailed Timeout) \<or> e = WriteErr (CopyFailed (CopyError Timeout)) \<or>
     e = WriteErr (CloseFailed Timeout)"

text \<open>io.EOF as it is.\<close>

definition is_EOF :: "do_error \<Rightarrow> bool" where
  "is_EOF e \<longleftrightarrow> e = MessageErr (HeaderFailed ReadEOF) \<or> e = MessageErr (BodyFailed (BodyConn EOF)) \<or> e = FlushErr EOF \<or>
     e = WriteErr (StreamFailed EOF) \<or> e = WriteErr (CloseFailed EOF)"

definition do_conn_reset :: "do_error \<Rightarrow> bool" where
  "do_conn_reset e \<longleftrightarrow>
     (case e of
        FlushErr c \<Rightarrow> conn_reset c
      | WriteErr (StreamFailed c) \<Rightarrow> conn_reset c
      | WriteErr (CloseFailed c) \<Rightarrow> conn_reset c
      | WriteErr (CopyFailed (CopyError c)) \<Rightarrow> conn_reset c
      | WriteErr m \<Rightarrow> isConnectionReset m
      | MessageErr m \<Rightarrow> isConnectionReset m
      | _ \<Rightarrow> False)"

section \<open>One exchange\<close>

text \<open>What the exchange needs: the pools of bodies, the form library and the streams of other connections.\<close>

record 'f client_env =
  ce_pools :: pools
  ce_forms :: "'f multipart_lib"
  ce_streams :: "requestStream \<Rightarrow> source"

definition finish_exchange :: "bytes \<Rightarrow> fate \<Rightarrow> network \<Rightarrow> network" where
  "finish_exchange sent f w = w\<lparr>nw_log := nw_log w @ [(sent, f)]\<rparr>"

text \<open>The exchange on the connection that was acquired. The bytes of a request whose writing failed stay in the buffer of
  the writer.\<close>

definition exchange :: "'f client_env \<Rightarrow> 'f HostClient \<Rightarrow> conn_io \<Rightarrow> ('f, network) round_tripper" where
  "exchange E hc io req resp w =
     (let customSkipBody = rs_SkipBody resp; customStreamBody = rs_StreamBody resp
      in if \<not> io_writeDeadline io then Some (True, Some DeadlineErr, req, resp, finish_exchange [] ClosedConn w)
         else
           let resetConnection = (hc_MaxConnDuration hc > 0 \<and> io_age io > hc_MaxConnDuration hc \<and> \<not> Request_ConnectionClose req);
               req = (if resetConnection then Request_SetConnectionClose req else req)
           in case Request_Write (ce_forms E) (ce_streams E) req [] of
                None \<Rightarrow> None
              | Some (werr, req, b) \<Rightarrow>
                  let req = (if resetConnection then req\<lparr>rq_Header := RequestHeader_ResetConnectionClose (rq_Header req)\<rparr> else req);
                      sent = (if werr = None then b else []);
                      err = (case werr of Some e \<Rightarrow> Some (WriteErr e) | None \<Rightarrow> map_option FlushErr (io_flush io));
                      err = (case err of Some e \<Rightarrow> if is_timeout e then Some (PoolErr client_err.ErrTimeout) else Some e | None \<Rightarrow> None);
                      isConnRST = (case err of Some e \<Rightarrow> do_conn_reset e | None \<Rightarrow> False)
                  in if err \<noteq> None \<and> \<not> isConnRST then Some (True, err, req, resp, finish_exchange sent ClosedConn w)
                     else if \<not> io_readDeadline io then Some (True, Some DeadlineErr, req, resp, finish_exchange sent ClosedConn w)
                     else
                       let resp = (if customSkipBody \<or> RequestHeader_IsHead (rq_Header req) then resp\<lparr>rs_SkipBody := True\<rparr> else resp);
                           resp = (if hc_DisableHeaderNamesNormalizing hc
                                   then resp\<lparr>rs_Header := ResponseHeader_DisableNormalizing (rs_Header resp)\<rparr> else resp);
                           br = (io_reader io)\<lparr>rd_buf := []\<rparr>
                       in case Response_ReadLimitBody (ce_pools E) resp br (hc_MaxResponseBodySize hc) of
                            None \<Rightarrow> None
                          | Some (Some e, resp, br) \<Rightarrow>
                              Some (e \<noteq> BodyFailed ErrBodyTooLarge, Some (MessageErr e), req, resp, finish_exchange sent ClosedConn w)
                          | Some (None, resp, br) \<Rightarrow>
                              let closeConn = (resetConnection \<or> Request_ConnectionClose req \<or> Response_ConnectionClose resp \<or> isConnRST)
                              in Some (False, None, req, resp,
                                   finish_exchange sent
                                     (if customStreamBody \<and> rs_bodyStream resp \<noteq> None then WithStream closeConn
                                      else if closeConn then ClosedConn else ReleasedConn) w))"

text \<open>A script that is at its end means that no connection is free.\<close>

definition transport_RoundTrip :: "'f client_env \<Rightarrow> 'f HostClient \<Rightarrow> ('f, network) round_tripper" where
  "transport_RoundTrip E hc req resp w =
     (case nw_conns w of
        [] \<Rightarrow> Some (False, Some (PoolErr ErrNoFreeConns), req, resp, w)
      | Inl e # cs \<Rightarrow> Some (False, Some (PoolErr e), req, resp, w\<lparr>nw_conns := cs\<rparr>)
      | Inr io # cs \<Rightarrow> exchange E hc io req resp (w\<lparr>nw_conns := cs\<rparr>))"

definition network_clock :: "network \<Rightarrow> int" where
  "network_clock w = nw_time w (length (nw_log w))"

section \<open>Attempts\<close>

definition isIdempotent :: "'f Request \<Rightarrow> bool" where
  "isIdempotent req \<longleftrightarrow> RequestHeader_IsGet (rq_Header req) \<or> RequestHeader_IsHead (rq_Header req) \<or> RequestHeader_IsPut (rq_Header req)"

definition doNonNilReqResp :: "pools \<Rightarrow> 'f HostClient \<Rightarrow> ('f, 'w) round_tripper \<Rightarrow> ('f, 'w) round_tripper" where
  "doNonNilReqResp P c rt req resp w =
     (let sec = hc_SecureErrorLogMessage c;
          resp = resp\<lparr>rs_secureErrorLogMessage := sec, rs_Header := (rs_Header resp)\<lparr>p_secureErrorLogMessage := sec\<rparr>\<rparr>;
          req = req\<lparr>rq_secureErrorLogMessage := sec, rq_Header := (rq_Header req)\<lparr>q_secureErrorLogMessage := sec\<rparr>\<rparr>;
          (u, req) = Request_URI req
      in if hc_IsTLS c \<noteq> URI_isHTTPS u then Some (False, Some ErrHostClientRedirectToDifferentScheme, req, resp, w)
         else
           let customSkipBody = rs_SkipBody resp;
               customStreamBody = (rs_StreamBody resp \<or> hc_StreamResponseBody c);
               resp = (Response_Reset P resp)\<lparr>rs_SkipBody := customSkipBody, rs_StreamBody := customStreamBody\<rparr>;
               (u, req) = Request_URI req;
               req = req\<lparr>rq_uri := u\<lparr>DisablePathNormalizing := hc_DisablePathNormalizing c\<rparr>\<rparr>;
               userAgent = (if hc_Name c = [] \<and> \<not> hc_NoDefaultUserAgentHeader c then defaultUserAgent else hc_Name c);
               req = (if length (RequestHeader_UserAgent (rq_Header req)) = 0 \<and> userAgent \<noteq> []
                      then req\<lparr>rq_Header := (rq_Header req)\<lparr>q_userAgent := userAgent\<rparr>\<rparr> else req)
           in rt req resp w)"

text \<open>Without a response the exchange gets one from the pool, which is put back afterwards.\<close>

definition HostClient_do ::
  "pools \<Rightarrow> 'f HostClient \<Rightarrow> ('f, 'w) round_tripper \<Rightarrow> 'f Request \<Rightarrow> Response option \<Rightarrow> 'w \<Rightarrow>
     (bool \<times> do_error option \<times> 'f Request \<times> Response option \<times> 'w) go" where
  "HostClient_do P c rt req resp w =
     map_option (\<lambda>(retry, err, req, r, w). (retry, err, req, map_option (\<lambda>_. r) resp, w))
       (doNonNilReqResp P c rt req (case resp of None \<Rightarrow> zero_response | Some r \<Rightarrow> r) w)"

text \<open>The loop of Do; \<open>timeout\<close> and \<open>deadline\<close> are those of the call.\<close>

function do_loop ::
  "pools \<Rightarrow> 'f HostClient \<Rightarrow> ('f, 'w) round_tripper \<Rightarrow> ('w \<Rightarrow> int) \<Rightarrow> int \<Rightarrow> int \<Rightarrow> bool \<Rightarrow> int \<Rightarrow> int \<Rightarrow>
     'f Request \<Rightarrow> Response option \<Rightarrow> 'w \<Rightarrow> (do_error option \<times> 'f Request \<times> Response option \<times> 'w) go" where
  "do_loop P c rt clock timeout deadline hasBodyStream maxAttempts attempts req resp w =
     (let req = (if timeout > 0 then Request_SetTimeout req (deadline - clock w) else req)
      in if timeout > 0 \<and> rq_timeout req \<le> 0 then Some (Some (PoolErr client_err.ErrTimeout), req, resp, w)
         else
           case HostClient_do P c rt req resp w of
             None \<Rightarrow> None
           | Some (retry, err, req, resp, w) \<Rightarrow>
               let retryable = (case hc_RetryIf c of None \<Rightarrow> isIdempotent req | Some f \<Rightarrow> f req)
               in if err = None \<or> \<not> retry \<or> hasBodyStream \<or> \<not> retryable \<and> \<not> is_EOF (the err) then Some (err, req, resp, w)
                  else if attempts + 1 \<ge> maxAttempts then Some (err, req, resp, w)
                  else do_loop P c rt clock timeout deadline hasBodyStream maxAttempts (attempts + 1) req resp w)"
  by pat_completeness auto
termination
  by (relation "measure (\<lambda>(P, c, rt, clock, timeout, deadline, hasBodyStream, maxAttempts, attempts, req, resp, w). nat (maxAttempts - attempts))") auto

declare do_loop.simps [simp del]

definition HostClient_Do ::
  "pools \<Rightarrow> 'f HostClient \<Rightarrow> ('f, 'w) round_tripper \<Rightarrow> ('w \<Rightarrow> int) \<Rightarrow> 'f Request \<Rightarrow> Response option \<Rightarrow> 'w \<Rightarrow>
     (do_error option \<times> 'f Request \<times> Response option \<times> 'w) go" where
  "HostClient_Do P c rt clock req resp w =
     (let maxAttempts = (if hc_MaxIdemponentCallAttempts c \<le> 0 then DefaultMaxIdemponentCallAttempts else hc_MaxIdemponentCallAttempts c);
          timeout = rq_timeout req
      in map_option
           (\<lambda>(err, req, resp, w).
              (case err of Some e \<Rightarrow> if is_EOF e then Some ErrConnectionClosed else Some e | None \<Rightarrow> None,
               Request_SetTimeout req timeout, resp, w))
           (do_loop P c rt clock timeout (clock w + timeout) (Request_IsBodyStream req) maxAttempts 0 req resp w))"

definition HostClient_DoTimeout ::
  "pools \<Rightarrow> 'f HostClient \<Rightarrow> ('f, 'w) round_tripper \<Rightarrow> ('w \<Rightarrow> int) \<Rightarrow> 'f Request \<Rightarrow> Response option \<Rightarrow> int \<Rightarrow> 'w \<Rightarrow>
     (do_error option \<times> 'f Request \<times> Response option \<times> 'w) go" where
  "HostClient_DoTimeout P c rt clock req resp timeout w =
     (let req = Request_SetTimeout req timeout
      in if rq_timeout req \<le> 0 then Some (Some (PoolErr client_err.ErrTimeout), req, resp, w) else HostClient_Do P c rt clock req resp w)"

definition HostClient_DoDeadline ::
  "pools \<Rightarrow> 'f HostClient \<Rightarrow> ('f, 'w) round_tripper \<Rightarrow> ('w \<Rightarrow> int) \<Rightarrow> 'f Request \<Rightarrow> Response option \<Rightarrow> int \<Rightarrow> 'w \<Rightarrow>
     (do_error option \<times> 'f Request \<times> Response option \<times> 'w) go" where
  "HostClient_DoDeadline P c rt clock req resp deadline w =
     (let req = Request_SetTimeout req (deadline - clock w)
      in if rq_timeout req \<le> 0 then Some (Some (PoolErr client_err.ErrTimeout), req, resp, w) else HostClient_Do P c rt clock req resp w)"

section \<open>Redirects\<close>

definition StatusCodeIsRedirect :: "int \<Rightarrow> bool" where
  "StatusCodeIsRedirect statusCode \<longleftrightarrow>
     statusCode = 301 \<or> statusCode = StatusFound \<or> statusCode = 303 \<or> statusCode = 307 \<or> statusCode = 308"

definition getRedirectURL :: "bytes \<Rightarrow> bytes \<Rightarrow> bool \<Rightarrow> bytes go" where
  "getRedirectURL baseURL location disablePathNormalizing =
     (case URI_Update zero_uri baseURL None of
        None \<Rightarrow> None
      | Some (b, u) \<Rightarrow>
          map_option (\<lambda>(_, u). URI_String (u\<lparr>DisablePathNormalizing := disablePathNormalizing\<rparr>)) (URI_UpdateBytes u location b))"

text \<open>A client as the loop uses it is its Do. The result is the status code, the error and the rest.\<close>

type_synonym ('f, 'w) client_doer = "'f Request \<Rightarrow> Response \<Rightarrow> 'w \<Rightarrow> (do_error option \<times> 'f Request \<times> Response \<times> 'w) go"

function redirect_loop ::
  "('f, 'w) client_doer \<Rightarrow> int \<Rightarrow> bytes \<Rightarrow> int \<Rightarrow> int \<Rightarrow> 'f Request \<Rightarrow> Response \<Rightarrow> 'w \<Rightarrow>
     (int \<times> do_error option \<times> 'f Request \<times> Response \<times> 'w) go" where
  "redirect_loop doer maxRedirectsCount url redirectsCount statusCode req resp w =
     (case Request_parseURI (Request_SetRequestURI req url) of
        (Some e, req) \<Rightarrow> Some (0, Some (ParseURIErr e), req, resp, w)
      | (None, req) \<Rightarrow>
          (case doer req resp w of
             None \<Rightarrow> None
           | Some (Some e, req, resp, w) \<Rightarrow> Some (statusCode, Some e, req, resp, w)
           | Some (None, req, resp, w) \<Rightarrow>
               let statusCode = ResponseHeader_StatusCode (rs_Header resp)
               in if \<not> StatusCodeIsRedirect statusCode then Some (statusCode, None, req, resp, w)
                  else if redirectsCount + 1 > maxRedirectsCount then Some (statusCode, Some ErrTooManyRedirects, req, resp, w)
                  else
                    let location = ResponseHeader_peek (rs_Header resp) strLocation
                    in if length location = 0 then Some (statusCode, Some ErrMissingLocation, req, resp, w)
                       else
                         case getRedirectURL url location (rq_DisableRedirectPathNormalizing req) of
                           None \<Rightarrow> None
                         | Some url \<Rightarrow> redirect_loop doer maxRedirectsCount url (redirectsCount + 1) statusCode req resp w))"
  by pat_completeness auto
termination
  by (relation "measure (\<lambda>(doer, m, url, n, statusCode, req, resp, w). nat (m - n))") auto

declare redirect_loop.simps [simp del]

definition doRequestFollowRedirects ::
  "('f, 'w) client_doer \<Rightarrow> 'f Request \<Rightarrow> Response \<Rightarrow> bytes \<Rightarrow> int \<Rightarrow> 'w \<Rightarrow> (int \<times> do_error option \<times> 'f Request \<times> Response \<times> 'w) go" where
  "doRequestFollowRedirects doer req resp url maxRedirectsCount w = redirect_loop doer maxRedirectsCount url 0 0 req resp w"

text \<open>The body of the response is collected in the slice of the caller.\<close>

definition doRequestFollowRedirectsBuffer ::
  "('f, 'w) client_doer \<Rightarrow> 'f Request \<Rightarrow> slice_cap \<Rightarrow> bytes \<Rightarrow> 'w \<Rightarrow> (int \<times> bytes \<times> do_error option \<times> 'w) go" where
  "doRequestFollowRedirectsBuffer doer req dst url w =
     map_option (\<lambda>(statusCode, err, req, resp, w). (statusCode, case rs_body resp of None \<Rightarrow> fst dst | Some b \<Rightarrow> fst b, err, w))
       (doRequestFollowRedirects doer req (zero_response\<lparr>rs_body := Some dst, rs_keepBodyBuffer := True\<rparr>) url defaultMaxRedirectsCount w)"

definition clientGetURL :: "('f, 'w) client_doer \<Rightarrow> slice_cap \<Rightarrow> bytes \<Rightarrow> 'w \<Rightarrow> (int \<times> bytes \<times> do_error option \<times> 'w) go" where
  "clientGetURL doer dst url w = doRequestFollowRedirectsBuffer doer zero_request dst url w"

definition strPostArgsContentType :: bytes where "strPostArgsContentType = ''application/x-www-form-urlencoded''"

definition clientPostURL ::
  "pools \<Rightarrow> ('f, 'w) client_doer \<Rightarrow> slice_cap \<Rightarrow> bytes \<Rightarrow> Args option \<Rightarrow> 'w \<Rightarrow> (int \<times> bytes \<times> do_error option \<times> 'w) go" where
  "clientPostURL P doer dst url postArgs w =
     (let req = zero_request\<lparr>rq_Header := RequestHeader_SetContentTypeBytes (RequestHeader_SetMethod (rq_Header zero_request) ''POST'') strPostArgsContentType\<rparr>;
          req = (case postArgs of None \<Rightarrow> req | Some a \<Rightarrow> Request_AppendBody P req (fst (Args_QueryString a)))
      in doRequestFollowRedirectsBuffer doer req dst url w)"

definition host_doer :: "pools \<Rightarrow> 'f HostClient \<Rightarrow> ('f, 'w) round_tripper \<Rightarrow> ('w \<Rightarrow> int) \<Rightarrow> ('f, 'w) client_doer" where
  "host_doer P c rt clock req resp w =
     map_option (\<lambda>(err, req, r, w). (err, req, case r of None \<Rightarrow> resp | Some r \<Rightarrow> r, w)) (HostClient_Do P c rt clock req (Some resp) w)"

definition HostClient_DoRedirects ::
  "pools \<Rightarrow> 'f HostClient \<Rightarrow> ('f, 'w) round_tripper \<Rightarrow> ('w \<Rightarrow> int) \<Rightarrow> 'f Request \<Rightarrow> Response \<Rightarrow> int \<Rightarrow> 'w \<Rightarrow>
     (int \<times> do_error option \<times> 'f Request \<times> Response \<times> 'w) go" where
  "HostClient_DoRedirects P c rt clock req resp maxRedirectsCount w =
     (let (u, req) = Request_URI req
      in doRequestFollowRedirects (host_doer P c rt clock) req resp (URI_String u) maxRedirectsCount w)"

section \<open>Addresses\<close>

definition AddMissingPort :: "bytes \<Rightarrow> bool \<Rightarrow> bytes" where
  "AddMissingPort addr isTLS =
     (let addrLen = length addr; port = (if isTLS then '':443'' else '':80'')
      in if addrLen = 0 then addr
         else if addr ! 0 = CHR ''['' then (if addr ! (addrLen - 1) \<noteq> CHR '']'' then addr else addr @ port)
         else if LastIndexByte addr CHR '':'' > 0 then addr
         else addr @ port)"

text \<open>The addresses of a host are used in turn; the index is a 32-bit word.\<close>

record host_addrs =
  ha_addrs :: "bytes list"
  ha_addrIdx :: "32 word"

fun split_comma :: "bytes \<Rightarrow> bytes \<Rightarrow> bytes list" where
  "split_comma cur [] = [cur]"
| "split_comma cur (c # cs) = (if c = CHR '','' then cur # split_comma [] cs else split_comma (cur @ [c]) cs)"

definition nextAddr :: "bytes \<Rightarrow> host_addrs \<Rightarrow> bytes \<times> host_addrs" where
  "nextAddr addr a =
     (let a = (if ha_addrs a = [] then a\<lparr>ha_addrs := split_comma [] addr\<rparr> else a)
      in if length (ha_addrs a) > 1 then
           (ha_addrs a ! (unat (ha_addrIdx a) mod length (ha_addrs a)), a\<lparr>ha_addrIdx := ha_addrIdx a + 1\<rparr>)
         else (ha_addrs a ! 0, a))"

text \<open>Dialing tries as many addresses as the host has until one answers; \<open>dial\<close> gives the connection or the error, and
  whether the deadline has passed after it.\<close>

fun dial_loop :: "(bytes \<Rightarrow> 'w \<Rightarrow> ('e + 'c) \<times> bool \<times> 'w) \<Rightarrow> bytes \<Rightarrow> nat \<Rightarrow> 'e option \<Rightarrow> host_addrs \<Rightarrow> 'w \<Rightarrow>
     ('e option + 'c) \<times> host_addrs \<times> 'w" where
  "dial_loop dial addr 0 err a w = (Inl err, a, w)"
| "dial_loop dial addr (Suc n) err a w =
     (let (x, a) = nextAddr addr a
      in case dial x w of
           (Inr c, late, w) \<Rightarrow> (Inr c, a, w)
         | (Inl e, late, w) \<Rightarrow> if late then (Inl (Some e), a, w) else dial_loop dial addr n (Some e) a w)"

definition dialHostHard :: "(bytes \<Rightarrow> 'w \<Rightarrow> ('e + 'c) \<times> bool \<times> 'w) \<Rightarrow> bytes \<Rightarrow> host_addrs \<Rightarrow> 'w \<Rightarrow> ('e option + 'c) \<times> host_addrs \<times> 'w" where
  "dialHostHard dial addr a w = (let n = length (ha_addrs a) in dial_loop dial addr (if n = 0 then 1 else n) None a w)"

end
