(* ===== verification/Client_Correct.thy ===== *)
theory Client_Correct
  imports Client
begin

text \<open>
  What a client promises: how often and when Do sends a request again, how many requests a chain of redirects takes, the
  ports of addresses; and three exchanges in which it does not keep what its comments say.
\<close>

section \<open>Attempts\<close>

text \<open>A transport that keeps a record of its calls: the request, the outcome, the request as it was left.\<close>

type_synonym 'f attempt = "'f Request \<times> bool \<times> do_error option \<times> 'f Request"

definition recorded :: "('f, 'w) round_tripper \<Rightarrow> ('f, 'w \<times> 'f attempt list) round_tripper" where
  "recorded rt req resp w =
     map_option (\<lambda>(retry, err, req', resp', w'). (retry, err, req', resp', (w', snd w @ [(req, retry, err, req')]))) (rt req resp (fst w))"

definition never_panics :: "('f, 'w) round_tripper \<Rightarrow> bool" where
  "never_panics rt \<longleftrightarrow> (\<forall>q r w. rt q r w \<noteq> None)"

definition max_attempts :: "'f HostClient \<Rightarrow> int" where
  "max_attempts c = (if hc_MaxIdemponentCallAttempts c \<le> 0 then DefaultMaxIdemponentCallAttempts else hc_MaxIdemponentCallAttempts c)"

definition may_retry :: "'f HostClient \<Rightarrow> 'f Request \<Rightarrow> bool" where
  "may_retry c req = (case hc_RetryIf c of None \<Rightarrow> isIdempotent req | Some f \<Rightarrow> f req)"

text \<open>Another attempt may follow this one.\<close>

definition followed :: "'f HostClient \<Rightarrow> 'f attempt \<Rightarrow> bool" where
  "followed c a = (case a of (req, retry, err, req') \<Rightarrow>
     retry \<and> (case err of None \<Rightarrow> False | Some e \<Rightarrow> may_retry c req' \<or> is_EOF e))"

lemma doNonNil_cases:
  obtains (scheme) q r where "doNonNilReqResp P c rt req resp w = Some (False, Some ErrHostClientRedirectToDifferentScheme, q, r, w)"
    | (transport) q r where "doNonNilReqResp P c rt req resp w = rt q r w"
proof -
  have "\<exists>b q r q' r'. doNonNilReqResp P c rt req resp w =
      (if b then Some (False, Some ErrHostClientRedirectToDifferentScheme, q, r, w) else rt q' r' w)"
    unfolding doNonNilReqResp_def Let_def prod.case_eq_if by (intro exI) (rule refl)
  then show thesis using scheme transport by (auto split: if_splits)
qed

text \<open>One attempt: at most one call of the transport, with the outcome of the attempt.\<close>

definition attempt_of :: "bool \<Rightarrow> do_error option \<Rightarrow> 'f Request \<Rightarrow> 'f attempt \<Rightarrow> bool" where
  "attempt_of retry err req a \<longleftrightarrow> fst (snd a) = retry \<and> fst (snd (snd a)) = err \<and> snd (snd (snd a)) = req"

lemma recorded_do:
  assumes "never_panics rt"
  shows "\<exists>retry err req' resp' w' log'. HostClient_do P c (recorded rt) req resp (w, log) = Some (retry, err, req', resp', (w', log @ log')) \<and>
    length log' \<le> 1 \<and> list_all (attempt_of retry err req') log' \<and> (log' = [] \<longrightarrow> \<not> retry \<and> err \<noteq> None)"
proof (cases rule: doNonNil_cases [of P c "recorded rt" req "case resp of None \<Rightarrow> zero_response | Some r \<Rightarrow> r" "(w, log)"])
  case (scheme q r)
  then have "HostClient_do P c (recorded rt) req resp (w, log) =
      Some (False, Some ErrHostClientRedirectToDifferentScheme, q, map_option (\<lambda>_. r) resp, (w, log @ []))"
    by (simp add: HostClient_do_def)
  then show ?thesis by (intro exI conjI) (assumption, simp_all)
next
  case (transport q r)
  obtain retry err req' resp' w' where "rt q r w = Some (retry, err, req', resp', w')"
    using assms unfolding never_panics_def not_None_eq split_paired_Ex by blast
  then have "HostClient_do P c (recorded rt) req resp (w, log) =
      Some (retry, err, req', map_option (\<lambda>_. resp') resp, (w', log @ [(q, retry, err, req')]))"
    by (simp add: HostClient_do_def transport recorded_def)
  then show ?thesis by (intro exI conjI) (assumption, simp_all add: attempt_of_def)
qed

lemma attempts_step:
  assumes "length l1 \<le> 1" and "\<And>a. a \<in> set l1 \<Longrightarrow> followed c a" and "list_all (followed c) (butlast l2)"
  shows "list_all (followed c) (butlast (l1 @ l2))"
  using assms by (cases l2) (auto simp: list_all_iff butlast_append dest: in_set_butlastD)

lemma do_loop_attempts:
  assumes "never_panics rt"
  shows "\<exists>err req' resp' w' new. do_loop P c (recorded rt) (clock \<circ> fst) timeout deadline stream n k req resp (w, log) = Some (err, req', resp', (w', log @ new)) \<and>
     int (length new) \<le> max 1 (n - k) \<and> list_all (followed c) (butlast new) \<and> (stream \<longrightarrow> length new \<le> 1) \<and>
     (err = None \<longrightarrow> new \<noteq> [] \<and> fst (snd (snd (last new))) = None)"
proof (induction "nat (n - k)" arbitrary: k req resp w log rule: less_induct)
  case less
  define q where "q = (if timeout > 0 then Request_SetTimeout req (deadline - clock w) else req)"
  show ?case
  proof (cases "timeout > 0 \<and> rq_timeout q \<le> 0")
    case True
    then have "do_loop P c (recorded rt) (clock \<circ> fst) timeout deadline stream n k req resp (w, log) =
        Some (Some (PoolErr client_err.ErrTimeout), q, resp, (w, log @ []))"
      by (subst do_loop.simps) (auto simp: q_def Let_def)
    then show ?thesis by (intro exI conjI) (assumption, simp_all)
  next
    case go: False
    obtain retry err req' resp' w' l1 where d: "HostClient_do P c (recorded rt) q resp (w, log) = Some (retry, err, req', resp', (w', log @ l1))"
      and l1: "length l1 \<le> 1" "\<And>a. a \<in> set l1 \<Longrightarrow> attempt_of retry err req' a" "l1 = [] \<Longrightarrow> \<not> retry \<and> err \<noteq> None"
      using recorded_do [OF assms, of P c q resp w log] unfolding list_all_iff by blast
    let ?stop = "err = None \<or> \<not> retry \<or> stream \<or> \<not> may_retry c req' \<and> \<not> is_EOF (the err)"
    have s: "do_loop P c (recorded rt) (clock \<circ> fst) timeout deadline stream n k req resp (w, log) =
        (if ?stop \<or> k + 1 \<ge> n then Some (err, req', resp', (w', log @ l1))
         else do_loop P c (recorded rt) (clock \<circ> fst) timeout deadline stream n (k + 1) req' resp' (w', log @ l1))"
      by (subst do_loop.simps, unfold Let_def comp_def fst_conv q_def [symmetric] if_not_P [OF go])
        (auto simp: d [unfolded comp_def] may_retry_def)
    show ?thesis
    proof (cases "?stop \<or> k + 1 \<ge> n")
      case True
      moreover have "butlast l1 = []" using l1(1) by (cases l1) auto
      moreover have "l1 \<noteq> [] \<and> fst (snd (snd (last l1))) = None" if "err = None"
        using l1(2) [OF last_in_set] l1(3) that by (auto simp: attempt_of_def)
      ultimately show ?thesis using l1(1) unfolding s by (intro exI [of _ err] exI [of _ req'] exI [of _ resp'] exI [of _ w'] exI [of _ l1]) auto
    next
      case False
      then obtain e req2 resp2 w2 l2 where r: "do_loop P c (recorded rt) (clock \<circ> fst) timeout deadline stream n (k + 1) req' resp' (w', log @ l1) =
          Some (e, req2, resp2, (w2, (log @ l1) @ l2))" "int (length l2) \<le> max 1 (n - (k + 1))" "list_all (followed c) (butlast l2)"
        "e = None \<longrightarrow> l2 \<noteq> [] \<and> fst (snd (snd (last l2))) = None"
        using less [of "k + 1" req' resp' w' "log @ l1"] by auto
      have "followed c a" if "a \<in> set l1" for a
        using l1(2) [OF that] False by (cases a) (auto simp: followed_def attempt_of_def)
      then have "list_all (followed c) (butlast (l1 @ l2))" by (rule attempts_step [OF l1(1) _ r(3)])
      moreover have "int (length (l1 @ l2)) \<le> max 1 (n - k)" using r(2) l1(1) False by auto
      moreover have "e = None \<longrightarrow> l1 @ l2 \<noteq> [] \<and> fst (snd (snd (last (l1 @ l2)))) = None" using r(4) by simp
      ultimately show ?thesis using False unfolding s r(1) by auto
    qed
  qed
qed

text \<open>Claim C13: For every transport Do returns after at most the configured number of attempts. A request is sent again only if the
  transport asks for it and either the request may be repeated (GET, HEAD and PUT, or what RetryIf says) or the
  connection ended with io.EOF; a request with a body stream is sent once; success means that the last attempt
  succeeded; and the timeout of the request is what it was.\<close>

theorem Do_attempts:
  assumes "never_panics rt"
  shows "\<exists>err req' resp' w' log. HostClient_Do P c (recorded rt) (clock \<circ> fst) req resp (w, []) = Some (err, req', resp', (w', log)) \<and>
     int (length log) \<le> max_attempts c \<and> list_all (followed c) (butlast log) \<and> (Request_IsBodyStream req \<longrightarrow> length log \<le> 1) \<and>
     (err = None \<longrightarrow> log \<noteq> [] \<and> fst (snd (snd (last log))) = None) \<and> rq_timeout req' = rq_timeout req"
proof -
  obtain err req' resp' w' new where l: "do_loop P c (recorded rt) (clock \<circ> fst) (rq_timeout req) (clock w + rq_timeout req)
      (Request_IsBodyStream req) (max_attempts c) 0 req resp (w, []) = Some (err, req', resp', (w', [] @ new))"
    "int (length new) \<le> max 1 (max_attempts c - 0)" "list_all (followed c) (butlast new)" "Request_IsBodyStream req \<longrightarrow> length new \<le> 1"
    "err = None \<longrightarrow> new \<noteq> [] \<and> fst (snd (snd (last new))) = None"
    using do_loop_attempts [OF assms, of P c clock "rq_timeout req" "clock w + rq_timeout req" "Request_IsBodyStream req"
      "max_attempts c" 0 req resp w "[]"] by blast
  have "0 < max_attempts c" by (simp add: max_attempts_def DefaultMaxIdemponentCallAttempts_def)
  then show ?thesis
    using l by (auto simp: HostClient_Do_def Let_def max_attempts_def [symmetric] Request_SetTimeout_def split: option.split if_splits)
qed

definition plain_host :: "unit HostClient" where
  "plain_host = \<lparr>hc_Name = [], hc_NoDefaultUserAgentHeader = False, hc_IsTLS = False, hc_MaxConnDuration = 0,
     hc_MaxIdemponentCallAttempts = 3, hc_MaxResponseBodySize = 0, hc_DisableHeaderNamesNormalizing = False,
     hc_DisablePathNormalizing = False, hc_SecureErrorLogMessage = False, hc_RetryIf = None, hc_StreamResponseBody = False\<rparr>"

definition client_pools :: pools where
  "client_pools = \<lparr>pool_cap = 64, requestBodyPoolSizeLimit = - 1, responseBodyPoolSizeLimit = - 1\<rparr>"

text \<open>A transport that finds every connection closed.\<close>

definition closed_transport :: "(unit, nat) round_tripper" where
  "closed_transport req resp w = Some (True, Some (MessageErr (HeaderFailed ReadEOF)), req, resp, Suc w)"

theorem Do_attempts_witness:
  "never_panics closed_transport \<and>
   (\<exists>err req' resp' w' log. HostClient_Do client_pools plain_host (recorded closed_transport) ((\<lambda>_. 0) \<circ> fst) zero_request None (0, []) =
      Some (err, req', resp', (w', log)) \<and> int (length log) \<le> 3 \<and> rq_timeout req' = 0)"
proof -
  have ok: "never_panics closed_transport" by (simp add: never_panics_def closed_transport_def)
  show ?thesis
    using Do_attempts [OF ok, of client_pools plain_host "\<lambda>_. 0" zero_request None 0] ok
    by (auto simp: max_attempts_def plain_host_def zero_request_def)
qed

section \<open>Redirects\<close>

definition counted_doer :: "('f, 'w) client_doer \<Rightarrow> ('f, 'w \<times> int list) client_doer" where
  "counted_doer doer req resp w =
     map_option (\<lambda>(err, req, resp', w'). (err, req, resp', (w', snd w @ [ResponseHeader_StatusCode (rs_Header resp')]))) (doer req resp (fst w))"

definition redirects_ok :: "int \<Rightarrow> int list \<Rightarrow> (int \<times> do_error option \<times> 'f Request \<times> Response \<times> ('w \<times> int list)) go \<Rightarrow> bool" where
  "redirects_ok n log res =
     (case res of
        None \<Rightarrow> True
      | Some (status, err, req, resp, (w, log')) \<Rightarrow>
          \<exists>new. log' = log @ new \<and> int (length new) \<le> max 0 n + 1 \<and> list_all StatusCodeIsRedirect (butlast new) \<and>
            (err = None \<longrightarrow> new \<noteq> [] \<and> last new = status \<and> \<not> StatusCodeIsRedirect status))"

lemma redirects_ok_more:
  assumes "redirects_ok n (log @ [c]) res" and "StatusCodeIsRedirect c" and "0 \<le> n" and "n < m"
  shows "redirects_ok m log res"
proof (cases res)
  case (Some x)
  then obtain status err req resp w log' where x: "res = Some (status, err, req, resp, (w, log'))" by (cases x) auto
  with assms(1) obtain new where new: "log' = log @ c # new" "int (length new) \<le> n + 1" "list_all StatusCodeIsRedirect (butlast new)"
    "err = None \<longrightarrow> new \<noteq> [] \<and> last new = status \<and> \<not> StatusCodeIsRedirect status"
    using assms(3) by (auto simp: redirects_ok_def)
  then show ?thesis using assms(2,4) unfolding x by (auto simp: redirects_ok_def intro!: exI [of _ "c # new"])
qed (simp add: redirects_ok_def)

lemma redirect_loop_ok: "redirects_ok (m - k) log (redirect_loop (counted_doer doer) m url k s req resp (w, log))"
proof (induction "nat (m - k)" arbitrary: url k s req resp w log rule: less_induct)
  case less
  let ?ok = "redirects_ok (m - k) log (redirect_loop (counted_doer doer) m url k s req resp (w, log))"
  obtain e req1 where p: "Request_parseURI (Request_SetRequestURI req url) = (e, req1)" by fastforce
  show ?case
  proof (cases "e \<noteq> None \<or> doer req1 resp w = None")
    case True
    then show ?thesis
      by (subst redirect_loop.simps) (cases e; auto simp: p redirects_ok_def counted_doer_def)
  next
    case False
    then obtain err req2 resp2 w2 where d: "e = None" "doer req1 resp w = Some (err, req2, resp2, w2)" by auto
    define c where "c = ResponseHeader_StatusCode (rs_Header resp2)"
    show ?thesis
    proof (cases "err \<noteq> None \<or> \<not> StatusCodeIsRedirect c \<or> k + 1 > m \<or> length (ResponseHeader_peek (rs_Header resp2) strLocation) = 0")
      case True
      then show ?thesis using d
        by (subst redirect_loop.simps) (cases err; auto simp: p redirects_ok_def counted_doer_def c_def [symmetric] Let_def)
    next
      case go: False
      show ?thesis
      proof (cases "getRedirectURL url (ResponseHeader_peek (rs_Header resp2) strLocation) (rq_DisableRedirectPathNormalizing req2)")
        case None
        then show ?thesis using go d
          by (subst redirect_loop.simps) (simp add: p redirects_ok_def counted_doer_def c_def [symmetric] Let_def)
      next
        case (Some url2)
        have "redirects_ok (m - (k + 1)) (log @ [c]) (redirect_loop (counted_doer doer) m url2 (k + 1) c req2 resp2 (w2, log @ [c]))"
          using go by (intro less) auto
        then have "redirects_ok (m - k) log (redirect_loop (counted_doer doer) m url2 (k + 1) c req2 resp2 (w2, log @ [c]))"
          by (rule redirects_ok_more) (use go in auto)
        then show ?thesis using go d Some
          by (subst redirect_loop.simps) (simp add: p counted_doer_def c_def [symmetric] Let_def)
      qed
    qed
  qed
qed

text \<open>Following redirects takes at most one request more than the number of redirects allowed; every response but the last
  was a redirect; and without an error the last one is not, and its status is the result.\<close>

theorem redirects_bounded:
  "case doRequestFollowRedirects (counted_doer doer) req resp url maxRedirects (w, []) of
     None \<Rightarrow> True
   | Some (status, err, req', resp', (w', log)) \<Rightarrow>
       int (length log) \<le> max 0 maxRedirects + 1 \<and> list_all StatusCodeIsRedirect (butlast log) \<and>
       (case err of Some e \<Rightarrow> True | None \<Rightarrow> log \<noteq> [] \<and> last log = status \<and> \<not> StatusCodeIsRedirect status)"
  using redirect_loop_ok [of maxRedirects 0 "[]" doer url 0 req resp w]
  by (auto simp: doRequestFollowRedirects_def redirects_ok_def split: option.splits)

end
