(* ===== verification/Defects.thy ===== *)
theory Defects
  imports Server_Correct Client_Correct
begin

text \<open>
  Runs of the server and the client in which the code does not do what its comments, or its other parts, rely on: bodies
  read past their end, requests that never reach the handler, truncated responses, repeated requests, credentials
  sent to another host. The inputs are concrete and evaluated, except where a statement is general.
\<close>

section \<open>Server\<close>

text \<open>Without a limit the size of a chunk goes into make as it is.\<close>

lemma unlimited_chunk_panics:
  "readBodyChunked \<lparr>rd_buf = [], rd_src = [''fffffffffffffff'' @ strCRLF], rd_end = EOF, rd_size = 4096\<rparr> 0 ([], 0) = None"
  by code_simp

text \<open>A streamed body above the limit: the first read of the handler returns the bytes of the next request too, and
  the second panics.\<close>

lemma stream_read_panics:
  "case Request_ContinueReadBodyStream no_forms some_pools
       (zero_request\<lparr>rq_Header := zero_request_header\<lparr>q_contentLength := 5\<rparr>\<rparr>)
       \<lparr>rd_buf = ''helloGET /next'', rd_src = [], rd_end = EOF, rd_size = 4096\<rparr> 3 False of
     Some (None, req, r) \<Rightarrow>
       (case rq_bodyStream req of
          Some (ConnStream rs) \<Rightarrow>
            (case requestStream_Read request_interface rs (rq_Header req) 512 r of
               Some (b, e, rs', h, r') \<Rightarrow>
                 b = ''helloGET /next'' \<and> e = None \<and> requestStream_Read request_interface rs' h 512 r' = None
             | None \<Rightarrow> False)
        | _ \<Rightarrow> False)
   | _ \<Rightarrow> False"
  by code_simp

text \<open>Once ContinueHandler has turned down a request, and as long as it turns down those that ask, no request of the
  connection reaches the handler.\<close>

definition denied :: "'f conn_state \<Rightarrow> 'f conn_state \<Rightarrow> bool" where
  "denied st st' \<longleftrightarrow> (\<not> cs_continue st \<longrightarrow> \<not> cs_continue st' \<and> cs_calls st' = cs_calls st)"

lemma denied_trans: "denied a b \<Longrightarrow> denied b c \<Longrightarrow> denied a c"
  by (simp add: denied_def)

lemma await_denied: "await_request E s st = Some (e, st') \<Longrightarrow> denied st st'"
  by (auto simp: await_request_def denied_def Let_def split: if_splits prod.splits option.splits peek_error.splits conn_error.splits)

lemma read_denied: "read_request E s st = Some (e, st') \<Longrightarrow> denied st st'"
  by (auto simp: read_request_def denied_def Let_def split: if_splits prod.splits option.splits)

lemma error_denied: "writeErrorResponse E s st err = Some st' \<Longrightarrow> denied st st'"
  by (auto simp: writeErrorResponse_def denied_def Let_def)

lemma failed_denied: "read_failed E s st e = Some (r, st') \<Longrightarrow> denied st st'"
  by (auto simp: read_failed_def Let_def denied_def split: if_splits option.splits message_error.splits read_error.splits
      dest!: error_denied [unfolded denied_def])

lemma send_denied:
  "send_response E s st close = Some (Inl (r, st')) \<Longrightarrow> denied st st'" "send_response E s st close = Some (Inr st') \<Longrightarrow> denied st st'"
  by (auto simp: send_response_def denied_def Let_def split: if_splits prod.splits option.splits)

lemma run_denied: "run_handler E s st = Some (st', close) \<Longrightarrow> denied st st'"
  by (auto simp: run_handler_def denied_def Let_def split: if_splits prod.splits)

definition denies_all :: "'f Server \<Rightarrow> bool" where
  "denies_all s \<longleftrightarrow> (\<exists>f. sv_ContinueHandler s = Some f \<and> (\<forall>h. \<not> f h))"

lemma expect_denied:
  assumes "denies_all s"
  shows "expect_continue E s st = Some (Inl (r, st')) \<Longrightarrow> denied st st'" and "expect_continue E s st = Some (Inr st') \<Longrightarrow> denied st st'"
    and "expect_continue E s st = Some (Inr st') \<Longrightarrow> Request_MayContinue (cx_Request (cs_ctx st)) \<Longrightarrow> \<not> cs_continue st'"
  using assms by (auto simp: expect_continue_def denied_def denies_all_def Let_def split: if_splits)

lemma step_denied:
  assumes "denies_all s" and "serve_step E s st = Some res"
  shows "denied st (case res of Inl (r, st') \<Rightarrow> st' | Inr st' \<Rightarrow> st')"
proof -
  obtain err st1 where a: "await_request E s (st\<lparr>cs_num := Suc (cs_num st)\<rparr>) = Some (err, st1)"
    using assms(2) by (cases "await_request E s (st\<lparr>cs_num := Suc (cs_num st)\<rparr>)") (auto simp: serve_step_def)
  define st2 where "st2 = st1\<lparr>cs_ctx := configure_ctx E s (cs_ctx st1)\<rparr>"
  have d2: "denied st st2" using await_denied [OF a] by (simp add: denied_def st2_def)
  have rest: "(case (if err = None then read_request E s st2 else Some (err, st2)) of
      None \<Rightarrow> None
    | Some (Some e, st) \<Rightarrow> map_option Inl (read_failed E s st e)
    | Some (None, st) \<Rightarrow>
        (case expect_continue E s st of
           None \<Rightarrow> None
         | Some (Inl res) \<Rightarrow> Some (Inl res)
         | Some (Inr st) \<Rightarrow> case run_handler E s st of None \<Rightarrow> None | Some (st, close) \<Rightarrow> send_response E s st close)) = Some res"
    using assms(2) unfolding serve_step_def a Let_def option.case prod.case st2_def [symmetric] .
  then obtain e st3 where r: "(if err = None then read_request E s st2 else Some (err, st2)) = Some (e, st3)"
    by (cases "if err = None then read_request E s st2 else Some (err, st2)") auto
  then have d3: "denied st st3" using d2 read_denied denied_trans by (auto simp: denied_def split: if_splits) blast+
  show ?thesis
  proof (cases e)
    case (Some x)
    then have "map_option Inl (read_failed E s st3 x) = Some res"
      using rest r by simp
    then show ?thesis using failed_denied d3 denied_trans by fastforce
  next
    case None
    then have s: "(case expect_continue E s st3 of None \<Rightarrow> None | Some (Inl res) \<Rightarrow> Some (Inl res)
        | Some (Inr st) \<Rightarrow> case run_handler E s st of None \<Rightarrow> None | Some (st, close) \<Rightarrow> send_response E s st close) = Some res"
      using rest r by simp
    show ?thesis
    proof (cases "expect_continue E s st3")
      case (Some y)
      show ?thesis
      proof (cases y)
        case (Inl z)
        with Some s show ?thesis using expect_denied(1) [OF assms(1), of E st3 "fst z" "snd z"] d3 denied_trans by (auto split: prod.split) 
      next
        case (Inr st4)
        with Some s obtain st5 close where h: "run_handler E s st4 = Some (st5, close)" "send_response E s st5 close = Some res"
          by (auto split: option.splits)
        have "denied st st5" using expect_denied(2) [OF assms(1)] Some Inr run_denied [OF h(1)] d3 denied_trans by metis
        with h(2) show ?thesis using send_denied denied_trans by (cases res) fastforce+
      qed
    qed (use s in simp)
  qed
qed

text \<open>The loop.\<close>

lemma loop_denied:
  assumes "serve_loop E s st = Some y"
  shows "denies_all s \<longrightarrow> denied st (snd y)"
proof (rule serve_loop.raw_induct [where P = "\<lambda>E s st y. denies_all s \<longrightarrow> denied st (snd y)", OF _ assms], goal_cases)
  case (1 loop E s st y)
  show ?case
  proof
    assume d: "denies_all s"
    from 1(2) obtain res where r: "serve_step E s st = Some res" by (cases "serve_step E s st") auto
    note step = step_denied [OF d r]
    show "denied st (snd y)"
    proof (cases res)
      case (Inl a)
      with 1(2) r step show ?thesis by (auto split: prod.splits)
    next
      case (Inr st1)
      with 1(2) r have "loop E s st1 = Some y" by simp
      then have "denied st1 (snd y)" using 1(1) d by blast
      with Inr step show ?thesis using denied_trans by auto
    qed
  qed
qed

text \<open>After a request that ContinueHandler turned down, no request of the connection reaches the handler any more,
  whether it asks for permission or not, when the handler turns down those that ask: the variable that remembers
  the answer is not reset.\<close>

theorem denied_connection_is_dead:
  assumes "server_ok L E s" and "conn_ok L E st" and "calls_ok L s st" and "no_body (cx_Request (cs_ctx st))"
    and "denies_all s" and "\<not> cs_continue st"
  shows "\<exists>err st'. serve_loop E s st = Some (err, st') \<and> cs_calls st' = cs_calls st"
proof -
  obtain err st' where l: "serve_loop E s st = Some (err, st')"
    using serve_loop_ok [OF assms(1,2,4,3)] by auto
  then show ?thesis using loop_denied [OF l] assms(5,6) by (simp add: denied_def)
qed

text \<open>A streamed body in chunks stays on the connection: reading the request takes none of it, and what the handler does
  not read is where the next request is expected.\<close>

lemma chunked_stream_stays:
  assumes "RequestHeader_realContentLength (rq_Header req) = - 1" and "read_form M P req r (- 1) pre = (req1, None)"
  shows "\<exists>req'. Request_ContinueReadBodyStream M P req r lim pre = Some (None, req', r)"
  using assms by (simp add: Request_ContinueReadBodyStream_def readBodyWithStreaming_def Let_def split: prod.split)

lemma unread_body_is_next_request:
  assumes "\<And>ctx r. map_option snd (sv_Handler s ctx r) = Some r"
    and "run_handler E s st = Some (st1, close)" and "send_response E s st1 close = Some (Inr st2)"
  shows "cs_br st2 = cs_br st"
proof -
  have "cs_br st1 = cs_br st"
    using assms(2) assms(1) [of "if getServerName s \<noteq> [] then set_server (getServerName s) (cs_ctx st) else cs_ctx st" "cs_br st"]
    by (auto simp: run_handler_def Let_def split: if_splits prod.splits)
  moreover have "cs_br st2 = cs_br st1"
    using assms(3) by (auto simp: send_response_def Let_def split: if_splits prod.splits option.splits)
  ultimately show ?thesis by simp
qed

section \<open>Client\<close>

definition client_test_env :: "unit client_env" where
  "client_test_env = \<lparr>ce_pools = some_pools, ce_forms = no_forms,
     ce_streams = (\<lambda>_. \<lparr>src_pieces = [], src_end = EOF, src_limit = None, src_close = None\<rparr>)\<rparr>"

definition conn_of :: "bytes list \<Rightarrow> conn_error \<Rightarrow> conn_io" where
  "conn_of pieces e =
     \<lparr>io_reader = \<lparr>rd_buf = [], rd_src = pieces, rd_end = e, rd_size = 256\<rparr>, io_age = 0, io_writeDeadline = True,
      io_readDeadline = True, io_flush = None\<rparr>"

definition network_of :: "(client_err + conn_io) list \<Rightarrow> network" where
  "network_of cs = \<lparr>nw_conns = cs, nw_log = [], nw_time = (\<lambda>_. 0)\<rparr>"

definition post_request :: "unit Request" where
  "post_request = zero_request\<lparr>rq_Header := RequestHeader_SetHost (RequestHeader_SetMethod zero_request_header ''POST'') ''h''\<rparr>"

text \<open>A reset in the middle of a body is not reported: the response has five of its nine bytes, there is no error, and
  the connection goes back to the pool.\<close>

definition cut_conn :: conn_io where
  "cut_conn = conn_of [''HTTP/1.1 200 OK'' @ strCRLF @ ''Content-Length: 9'' @ strCRLF @ strCRLF @ ''hello'']
     (OtherError ''connection reset by peer'')"

lemma truncated_response_accepted:
  "case exchange client_test_env plain_host cut_conn post_request zero_response (network_of []) of
     Some (retry, err, req, resp, w) \<Rightarrow>
       err = None \<and> Response_bodyBytes resp = ''hello'' \<and> ResponseHeader_ContentLength (rs_Header resp) = 9 \<and>
       map snd (nw_log w) = [ReleasedConn]
   | None \<Rightarrow> False"
  by code_simp

text \<open>The end of a connection after an interim response counts as its end before the response: a POST that the server has
  begun to process is sent a second time.\<close>

definition interim_conn :: conn_io where
  "interim_conn = conn_of [''HTTP/1.1 100 Continue'' @ strCRLF @ strCRLF] EOF"

definition ok_conn :: conn_io where
  "ok_conn = conn_of [''HTTP/1.1 200 OK'' @ strCRLF @ ''Content-Length: 0'' @ strCRLF @ strCRLF] EOF"

lemma post_sent_twice:
  "case HostClient_Do some_pools plain_host (transport_RoundTrip client_test_env plain_host) network_clock post_request
       (Some zero_response) (network_of [Inr interim_conn, Inr ok_conn]) of
     Some (err, req, resp, w) \<Rightarrow> err = None \<and> map (take 4 \<circ> fst) (nw_log w) = [''POST'', ''POST'']
   | None \<Rightarrow> False"
  by code_simp

text \<open>Writing a request puts the credentials of its URL into the header, where a redirect to another host finds them.\<close>

definition redirect_conn :: conn_io where
  "redirect_conn =
     conn_of [''HTTP/1.1 302 Found'' @ strCRLF @ ''Location: http://b/'' @ strCRLF @ ''Content-Length: 0'' @ strCRLF @ strCRLF] EOF"

lemma redirect_leaks_credentials:
  "case doRequestFollowRedirects (host_doer some_pools plain_host (transport_RoundTrip client_test_env plain_host) network_clock)
       (zero_request :: unit Request) zero_response ''http://u:p@a/'' 3 (network_of [Inr redirect_conn, Inr ok_conn]) of
     Some (status, err, req, resp, w) \<Rightarrow>
       err = None \<and> map (\<lambda>x. Index (fst x) ''Host: b'' > 0) (nw_log w) = [False, True] \<and>
       map (\<lambda>x. Index (fst x) ''Authorization: Basic dTpw'' > 0) (nw_log w) = [True, True]
   | None \<Rightarrow> False"
  by code_simp

text \<open>Until the addresses are set up one of them is tried only, and an address without a host gets a second port.\<close>

lemma first_dial_tries_one:
  "dialHostHard (\<lambda>a w. (Inl a, False, w @ [a])) ''a:1,b:2'' \<lparr>ha_addrs = [], ha_addrIdx = 0\<rparr> [] =
     (Inl (Some ''a:1'') :: bytes option + unit, \<lparr>ha_addrs = [''a:1'', ''b:2''], ha_addrIdx = 1\<rparr>, [''a:1''])"
  by code_simp

lemma port_only_address: "AddMissingPort '':8080'' False = '':8080:80''"
  by code_simp

end
